(* ===== verification/Prelude.thy ===== *)
theory Prelude
  imports Main "HOL-Library.Word"
begin

unbundle bit_operations_syntax

text \<open>
  Shared vocabulary of the development: the machine integer types of the C++ sources, the
  theorem collections the component theories feed, and generic facts about lists, options and
  words that more than one component uses.
\<close>

section \<open>Machine integers\<close>

type_synonym u8 = "8 word"
type_synonym u16 = "16 word"
type_synonym u32 = "32 word"
type_synonym u64 = "64 word"

text \<open>The maximal 64-bit value, the sources' \<open>UINT64_MAX\<close>.\<close>

abbreviation UINT64_MAX :: u64 where
  "UINT64_MAX \<equiv> 0xFFFFFFFFFFFFFFFF"

named_theorems sched_simps \<open>how scheduler operations act on the fields of the state\<close>
named_theorems sched_inv \<open>operations that keep the scheduler invariant\<close>
named_theorems ram_simps \<open>how operations on the guest RAM window act on its fields\<close>
named_theorems byte_simps \<open>little-endian encodings and their lengths\<close>

section \<open>Pairs and lists\<close>

text \<open>Operations that report success return a flag and the new state.\<close>

lemma pair_TrueI: "fst x \<Longrightarrow> x = (True, snd x)"
  by (cases x) simp


lemma filter_hd_conv_find:
  "find P xs = (case filter P xs of [] \<Rightarrow> None | x # _ \<Rightarrow> Some x)"
  by (induction xs) auto

lemma list_all_update:
  "list_all P xs \<Longrightarrow> P x \<Longrightarrow> list_all P (xs[i := x])"
  by (auto simp: list_all_iff dest: set_update_subset_insert [THEN subsetD])

lemma map_update_same:
  "f x = f (xs ! i) \<Longrightarrow> map f (xs[i := x]) = map f xs"
  by (metis list_update_beyond list_update_id map_update not_le_imp_less nth_map)

section \<open>Words\<close>

lemma unat_lt2p: "unat (x :: 'a::len word) < 2 ^ LENGTH('a)"
  by simp

lemma unat_of_nat_lt: "n < 2 ^ LENGTH('a) \<Longrightarrow> unat (of_nat n :: 'a::len word) = n"
  by (simp add: unat_of_nat take_bit_nat_eq_self)

lemma unat_eq_SucD: "unat (x :: 'a::len word) = Suc n \<Longrightarrow> x = of_nat (Suc n)"
  by (metis of_nat_unat ucast_id)

lemma unat_minus_one_Suc: "x \<noteq> 0 \<Longrightarrow> unat (x :: 'a::len word) = Suc (unat (x - 1))"
  by (metis Suc_pred' neq0_conv unat_eq_zero unat_minus_one)

lemma unat_inc_less:
  fixes x y :: "'a::len word"
  assumes "x < y" shows "unat (x + 1) = unat x + 1"
proof -
  from assms have "unat x + 1 < 2 ^ LENGTH('a)"
    using unat_lt2p [of y] unfolding word_less_nat_alt by linarith
  then show ?thesis by (simp add: unat_word_ariths)
qed

lemma unat_and_not_mask: "unat (x AND NOT (mask n) :: 'a::len word) = unat x div 2 ^ n * 2 ^ n"
proof -
  have "unat (x AND NOT (mask n)) = unat (push_bit n (drop_bit n x))"
    by (rule arg_cong [of _ _ unat], rule bit_eqI) (auto simp: bit_simps)
  also have "\<dots> = take_bit LENGTH('a) (push_bit n (drop_bit n (unat x)))"
    by (simp add: unsigned_push_bit_eq unsigned_drop_bit_eq take_bit_nat_eq_self)
  also have "\<dots> = push_bit n (drop_bit n (unat x))"
    using le_less_trans [OF div_times_less_eq_dividend [of "unat x" "2 ^ n"] unat_lt2p]
    by (intro take_bit_nat_eq_self) (simp add: push_bit_eq_mult drop_bit_eq_div)
  finally show ?thesis by (simp add: push_bit_eq_mult drop_bit_eq_div)
qed

lemma unat_page_floor:
  fixes a page :: "'a::len word"
  assumes "unat page = 2 ^ n"
  shows "unat (a AND NOT (page - 1)) = unat a div unat page * unat page"
proof -
  have "page = 2 ^ n" using assms by (metis of_nat_numeral of_nat_power of_nat_unat ucast_id)
  then have "page - 1 = mask n" by (simp add: mask_eq_exp_minus_1)
  then show ?thesis by (simp only: unat_and_not_mask assms)
qed

lemma unat_add_lt: "unat a + unat b < 2 ^ LENGTH('a) \<Longrightarrow> unat (a + b :: 'a::len word) = unat a + unat b"
  by (simp add: unat_word_ariths)

lemma unat_diff_le: "b \<le> a \<Longrightarrow> unat (a - b :: 'a::len word) = unat a - unat b"
  by (simp add: unat_sub)

section \<open>Decimal numerals\<close>

text \<open>What \<open>std::to_string\<close> and an \<open>ostringstream\<close> print for an unsigned integer.\<close>

fun dec :: "nat \<Rightarrow> string" where
  "dec n = (if n < 10 then [char_of (48 + n)] else dec (n div 10) @ [char_of (48 + n mod 10)])"

declare dec.simps [simp del]

end
