(* ===== verification/Cpu_Sched.thy ===== *)
theory Cpu_Sched
  imports Prelude "HOL-Library.Multiset"
begin

text \<open>
  The cooperative fiber scheduler (\<open>src/src/cpu_sched.cpp\<close>, \<open>src/include/cpu_sched.h\<close>).
  A \<open>GuestThread*\<close> is the index of the thread in \<open>threads_\<close> (the vector only grows and its
  elements are heap-stable). A call that swaps back to the scheduler context returns the state
  in which \<open>current_\<close> has been reset by the dispatch loop. The host calls \<open>mmap\<close>/\<open>mprotect\<close>
  and \<open>swapcontext\<close> are arguments: \<open>mmap_ok h\<close> says whether the stack of the thread with
  handle \<open>h\<close> can be mapped, \<open>swap_ok n\<close> whether the \<open>n\<close>-th context switch succeeds.
  An access to \<open>threads_\<close> past its end is undefined behaviour and is modelled by \<open>None\<close>.
\<close>

section \<open>State\<close>

datatype tstate = Ready | Running | Sleeping | BlockedJoin | Finished | BlockedWait

text \<open>The saved machine context \<open>ctx_\<close> (with the entry function \<open>fn_\<close>) has type \<open>'c\<close>.\<close>

record 'c guest_thread =
  gt_name :: string
  gt_ctx :: 'c
  gt_started :: bool
  gt_handle :: u64
  gt_switches :: u64
  gt_state :: tstate
  gt_wake_tick :: u64
  gt_join_target :: u64
  gt_wait_token :: u64
  gt_wait_timed_out :: bool
  gt_exit_code :: u32
  gt_stack_base :: "u64 option"
  gt_stack_map_size :: u64
  gt_stack_top_reserve :: u64

text \<open>The two finish hooks the program installs (\<open>XboxKrnl::XboxKrnl\<close>, \<open>FiberTls\<close>).\<close>

datatype finish_hook = KrnlFinish | TlsDetach

record 'c guest_scheduler =
  gs_threads :: "'c guest_thread list"
  gs_finish_hooks :: "finish_hook list"
  gs_current :: "nat option"
  gs_next_handle :: u64
  gs_tick :: u64
  gs_rr_cursor :: u64
  gs_switches_total :: u64
  gs_deadlocked :: bool
  gs_failed :: bool

definition kNoTimeout :: u64 where "kNoTimeout = 0"
definition kStackSize :: u64 where "kStackSize = 0x40000"
definition kGuardSize :: u64 where "kGuardSize = 4096"
definition kMinUsable :: u64 where "kMinUsable = 0x4000"

definition GuestScheduler :: "'c guest_scheduler" where
  "GuestScheduler = \<lparr>gs_threads = [], gs_finish_hooks = [], gs_current = None,
     gs_next_handle = 1, gs_tick = 0, gs_rr_cursor = 0, gs_switches_total = 0,
     gs_deadlocked = False, gs_failed = False\<rparr>"

section \<open>Operations\<close>

definition upd_thread ::
  "nat \<Rightarrow> ('c guest_thread \<Rightarrow> 'c guest_thread) \<Rightarrow> 'c guest_scheduler \<Rightarrow> 'c guest_scheduler" where
  "upd_thread i f s = s\<lparr>gs_threads := (gs_threads s)[i := f (gs_threads s ! i)]\<rparr>"

text \<open>\<open>find\<close>: the returned pointer may be wild, see \<open>deref\<close>.\<close>

definition find_thread :: "'c guest_scheduler \<Rightarrow> u64 \<Rightarrow> nat option" where
  "find_thread s h = (if h = 0 \<or> h \<ge> gs_next_handle s then None else Some (unat (h - 1)))"

definition deref :: "'c guest_scheduler \<Rightarrow> nat \<Rightarrow> 'c guest_thread option" where
  "deref s i = (if i < length (gs_threads s) then Some (gs_threads s ! i) else None)"

definition current_handle :: "'c guest_scheduler \<Rightarrow> u64" where
  "current_handle s = (case gs_current s of None \<Rightarrow> 0 | Some i \<Rightarrow> gt_handle (gs_threads s ! i))"

definition finished_count :: "'c guest_scheduler \<Rightarrow> nat" where
  "finished_count s = length (filter (\<lambda>t. gt_state t = Finished) (gs_threads s))"

definition set_on_finish :: "finish_hook option \<Rightarrow> 'c guest_scheduler \<Rightarrow> 'c guest_scheduler" where
  "set_on_finish h s = s\<lparr>gs_finish_hooks := (case h of None \<Rightarrow> [] | Some k \<Rightarrow> [k])\<rparr>"

definition add_finish_hook :: "finish_hook option \<Rightarrow> 'c guest_scheduler \<Rightarrow> 'c guest_scheduler" where
  "add_finish_hook h s =
     s\<lparr>gs_finish_hooks := gs_finish_hooks s @ (case h of None \<Rightarrow> [] | Some k \<Rightarrow> [k])\<rparr>"

definition spawn_reserved ::
  "(u64 \<Rightarrow> u64 option) \<Rightarrow> string \<Rightarrow> 'c \<Rightarrow> u64 \<Rightarrow> 'c guest_scheduler \<Rightarrow> u64 \<times> 'c guest_scheduler" where
  "spawn_reserved mmap_ok name fn reserve s =
     (if reserve > kStackSize - kMinUsable then (0, s)
      else let h = gs_next_handle s; s1 = s\<lparr>gs_next_handle := h + 1\<rparr> in
        (case mmap_ok h of
           None \<Rightarrow> (0, s1)
         | Some region \<Rightarrow>
             (h, s1\<lparr>gs_threads := gs_threads s1 @
               [\<lparr>gt_name = name, gt_ctx = fn, gt_started = False, gt_handle = h,
                 gt_switches = 0, gt_state = Ready, gt_wake_tick = 0, gt_join_target = 0,
                 gt_wait_token = 0, gt_wait_timed_out = False, gt_exit_code = 0,
                 gt_stack_base = Some region, gt_stack_map_size = kGuardSize + kStackSize,
                 gt_stack_top_reserve = reserve\<rparr>]\<rparr>)))"

definition spawn ::
  "(u64 \<Rightarrow> u64 option) \<Rightarrow> string \<Rightarrow> 'c \<Rightarrow> 'c guest_scheduler \<Rightarrow> u64 \<times> 'c guest_scheduler" where
  "spawn mmap_ok name fn s = spawn_reserved mmap_ok name fn 0 s"

definition switch_to_scheduler :: "'c guest_scheduler \<Rightarrow> 'c guest_scheduler" where
  "switch_to_scheduler s = s\<lparr>gs_current := None\<rparr>"

definition thread_yield :: "nat \<Rightarrow> 'c guest_scheduler \<Rightarrow> 'c guest_scheduler" where
  "thread_yield t s = switch_to_scheduler (upd_thread t (\<lambda>g. g\<lparr>gt_state := Ready\<rparr>) s)"

definition thread_sleep :: "nat \<Rightarrow> u64 \<Rightarrow> 'c guest_scheduler \<Rightarrow> 'c guest_scheduler" where
  "thread_sleep t ticks s =
     (if ticks = 0 then thread_yield t s
      else switch_to_scheduler (upd_thread t (\<lambda>g. g\<lparr>gt_state := Sleeping,
             gt_wake_tick := gs_tick s + ticks\<rparr>) s))"

definition thread_block :: "nat \<Rightarrow> u64 \<Rightarrow> u64 \<Rightarrow> 'c guest_scheduler \<Rightarrow> 'c guest_scheduler" where
  "thread_block t token timeout s =
     switch_to_scheduler (upd_thread t (\<lambda>g. g\<lparr>gt_state := BlockedWait, gt_wait_token := token,
       gt_wait_timed_out := False,
       gt_wake_tick := (if timeout = kNoTimeout then UINT64_MAX else gs_tick s + timeout)\<rparr>) s)"

text \<open>\<open>block_current\<close> up to the switch; the value it returns after the thread has been resumed
  is \<open>block_result\<close>. From the host (no current thread) it returns \<open>false\<close> at once.\<close>

definition block_current ::
  "u64 \<Rightarrow> u64 \<Rightarrow> 'c guest_scheduler \<Rightarrow> 'c guest_scheduler option" where
  "block_current token timeout s =
     map_option (\<lambda>t. thread_block t token timeout s) (gs_current s)"

definition block_result :: "nat \<Rightarrow> 'c guest_scheduler \<Rightarrow> bool" where
  "block_result t s = (\<not> gt_wait_timed_out (gs_threads s ! t))"

definition waits_on :: "u64 \<Rightarrow> 'c guest_thread \<Rightarrow> bool" where
  "waits_on token g \<longleftrightarrow> gt_state g = BlockedWait \<and> gt_wait_token g = token"

definition wake :: "'c guest_thread \<Rightarrow> 'c guest_thread" where
  "wake g = g\<lparr>gt_state := Ready, gt_wait_timed_out := False\<rparr>"

fun signal_list :: "u64 \<Rightarrow> bool \<Rightarrow> 'c guest_thread list \<Rightarrow> u64 \<times> 'c guest_thread list" where
  "signal_list token all [] = (0, [])"
| "signal_list token all (g # gs) =
     (if \<not> waits_on token g then let (n, gs') = signal_list token all gs in (n, g # gs')
      else if \<not> all then (1, wake g # gs)
      else let (n, gs') = signal_list token all gs in (n + 1, wake g # gs'))"

definition signal :: "u64 \<Rightarrow> bool \<Rightarrow> 'c guest_scheduler \<Rightarrow> u64 \<times> 'c guest_scheduler" where
  "signal token all s =
     (let (n, ts) = signal_list token all (gs_threads s) in (n, s\<lparr>gs_threads := ts\<rparr>))"

text \<open>\<open>stack_top_reserve\<close>: outer \<open>None\<close> is a wild dereference, inner \<open>None\<close> is \<open>nullptr\<close>.\<close>

definition stack_top_reserve :: "u64 \<Rightarrow> 'c guest_scheduler \<Rightarrow> u64 option option" where
  "stack_top_reserve h s =
     (case find_thread s h of None \<Rightarrow> Some None
      | Some i \<Rightarrow> (case deref s i of None \<Rightarrow> None
         | Some g \<Rightarrow> (if gt_stack_top_reserve g = 0 then Some None
             else Some (map_option (\<lambda>b. b + gt_stack_map_size g - gt_stack_top_reserve g)
                         (gt_stack_base g)))))"

text \<open>The finish hooks run on the finishing thread; what they do to the scheduler is to raise
  signals (\<open>XboxKrnl::on_thread_finish\<close> wakes the waiters of abandoned mutants and of the thread
  object). \<open>hk h t s\<close> is the list of signals that hook \<open>h\<close> raises for thread \<open>t\<close>.\<close>

type_synonym 'c hook_signals = "finish_hook \<Rightarrow> nat \<Rightarrow> 'c guest_scheduler \<Rightarrow> (u64 \<times> bool) list"

definition run_hook ::
  "'c hook_signals \<Rightarrow> nat \<Rightarrow> finish_hook \<Rightarrow> 'c guest_scheduler \<Rightarrow> 'c guest_scheduler" where
  "run_hook hk t h s = fold (\<lambda>(tok, al) s. snd (signal tok al s)) (hk h t s) s"

definition run_finish_hooks ::
  "'c hook_signals \<Rightarrow> nat \<Rightarrow> 'c guest_scheduler \<Rightarrow> 'c guest_scheduler" where
  "run_finish_hooks hk t s = fold (run_hook hk t) (gs_finish_hooks s) s"

definition thread_finish ::
  "'c hook_signals \<Rightarrow> nat \<Rightarrow> u32 \<Rightarrow> 'c guest_scheduler \<Rightarrow> 'c guest_scheduler" where
  "thread_finish hk t code s = switch_to_scheduler (run_finish_hooks hk t
     (upd_thread t (\<lambda>g. g\<lparr>gt_exit_code := code, gt_state := Finished\<rparr>) s))"

text \<open>\<open>join\<close>: \<open>JoinRet b\<close> returns \<open>b\<close> without blocking, \<open>JoinBlock s\<close> switches away.\<close>

datatype 'c join_result = JoinRet bool | JoinBlock "'c guest_scheduler" | JoinWild

definition join :: "u64 \<Rightarrow> 'c guest_scheduler \<Rightarrow> 'c join_result" where
  "join target s =
     (case gs_current s of None \<Rightarrow> JoinRet False
      | Some self \<Rightarrow>
         if target = gt_handle (gs_threads s ! self) then JoinRet False
         else (case find_thread s target of None \<Rightarrow> JoinRet False
           | Some i \<Rightarrow> (case deref s i of None \<Rightarrow> JoinWild
              | Some tgt \<Rightarrow> if gt_state tgt = Finished then JoinRet True
                  else JoinBlock (switch_to_scheduler (upd_thread self
                    (\<lambda>g. g\<lparr>gt_join_target := target, gt_state := BlockedJoin\<rparr>) s)))))"

section \<open>Choosing the next thread\<close>

text \<open>The three wake-up passes of \<open>pick_next\<close>. The first reads the target of every join.\<close>

definition join_done :: "'c guest_scheduler \<Rightarrow> 'c guest_thread \<Rightarrow> bool option" where
  "join_done s g = (case find_thread s (gt_join_target g) of None \<Rightarrow> Some True
     | Some i \<Rightarrow> map_option (\<lambda>tgt. gt_state tgt = Finished) (deref s i))"

fun unblock_joins_from :: "nat \<Rightarrow> nat \<Rightarrow> 'c guest_scheduler \<Rightarrow> 'c guest_scheduler option" where
  "unblock_joins_from i 0 s = Some s"
| "unblock_joins_from i (Suc n) s =
     (let g = gs_threads s ! i in
      if gt_state g \<noteq> BlockedJoin then unblock_joins_from (Suc i) n s
      else (case join_done s g of None \<Rightarrow> None
        | Some d \<Rightarrow> unblock_joins_from (Suc i) n
            (if d then upd_thread i (\<lambda>g. g\<lparr>gt_state := Ready\<rparr>) s else s)))"

definition unblock_joins :: "'c guest_scheduler \<Rightarrow> 'c guest_scheduler option" where
  "unblock_joins s = unblock_joins_from 0 (length (gs_threads s)) s"

definition wake_sleeper :: "u64 \<Rightarrow> 'c guest_thread \<Rightarrow> 'c guest_thread" where
  "wake_sleeper now g =
     (if gt_state g = Sleeping \<and> gt_wake_tick g \<le> now then g\<lparr>gt_state := Ready\<rparr> else g)"

definition time_out_wait :: "u64 \<Rightarrow> 'c guest_thread \<Rightarrow> 'c guest_thread" where
  "time_out_wait now g =
     (if gt_state g = BlockedWait \<and> gt_wake_tick g \<le> now
      then g\<lparr>gt_state := Ready, gt_wait_timed_out := True\<rparr> else g)"

definition expire_timers :: "'c guest_scheduler \<Rightarrow> 'c guest_scheduler" where
  "expire_timers s = s\<lparr>gs_threads :=
     map (time_out_wait (gs_tick s)) (map (wake_sleeper (gs_tick s)) (gs_threads s))\<rparr>"

text \<open>The round-robin scan: \<open>i\<close> counts the inspected threads, \<open>fuel\<close> is \<open>n - i\<close>.\<close>

fun rr_scan :: "'c guest_thread list \<Rightarrow> nat \<Rightarrow> nat \<Rightarrow> nat \<Rightarrow> nat option" where
  "rr_scan ts cursor i 0 = None"
| "rr_scan ts cursor i (Suc k) =
     (let idx = (cursor + i) mod length ts in
      if gt_state (ts ! idx) \<noteq> Ready then rr_scan ts cursor (Suc i) k else Some idx)"

definition pick_next :: "'c guest_scheduler \<Rightarrow> (nat option \<times> 'c guest_scheduler) option" where
  "pick_next s =
     (case unblock_joins s of None \<Rightarrow> None
      | Some s1 \<Rightarrow>
         let s2 = expire_timers s1; n = length (gs_threads s2) in
         (case rr_scan (gs_threads s2) (unat (gs_rr_cursor s2)) 0 n of
            None \<Rightarrow> Some (None, s2)
          | Some idx \<Rightarrow> Some (Some idx, s2\<lparr>gs_rr_cursor := of_nat ((idx + 1) mod n)\<rparr>)))"


section \<open>How the operations act on the fields\<close>

lemma threads_upd_thread [sched_simps]:
  "gs_threads (upd_thread i f s) = (gs_threads s)[i := f (gs_threads s ! i)]"
  by (simp add: upd_thread_def)

lemma upd_thread_fields [sched_simps]:
  "gs_tick (upd_thread i f s) = gs_tick s" "gs_current (upd_thread i f s) = gs_current s"
  "gs_next_handle (upd_thread i f s) = gs_next_handle s"
  "gs_rr_cursor (upd_thread i f s) = gs_rr_cursor s"
  "gs_finish_hooks (upd_thread i f s) = gs_finish_hooks s"
  "gs_switches_total (upd_thread i f s) = gs_switches_total s"
  "gs_deadlocked (upd_thread i f s) = gs_deadlocked s"
  "gs_failed (upd_thread i f s) = gs_failed s"
  by (simp_all add: upd_thread_def)

lemma switch_fields [sched_simps]:
  "gs_threads (switch_to_scheduler s) = gs_threads s"
  "gs_current (switch_to_scheduler s) = None"
  "gs_tick (switch_to_scheduler s) = gs_tick s"
  "gs_next_handle (switch_to_scheduler s) = gs_next_handle s"
  "gs_rr_cursor (switch_to_scheduler s) = gs_rr_cursor s"
  "gs_switches_total (switch_to_scheduler s) = gs_switches_total s"
  "gs_deadlocked (switch_to_scheduler s) = gs_deadlocked s"
  "gs_failed (switch_to_scheduler s) = gs_failed s"
  by (simp_all add: switch_to_scheduler_def)

lemma wake_fields [sched_simps]:
  "gt_state (wake g) = Ready" "gt_wait_timed_out (wake g) = False"
  "gt_ctx (wake g) = gt_ctx g" "gt_handle (wake g) = gt_handle g"
  "gt_switches (wake g) = gt_switches g" "gt_wait_token (wake g) = gt_wait_token g"
  "gt_started (wake g) = gt_started g"
  by (simp_all add: wake_def)

lemma timer_fields [sched_simps]:
  "gt_ctx (wake_sleeper n g) = gt_ctx g" "gt_ctx (time_out_wait n g) = gt_ctx g"
  "gt_handle (wake_sleeper n g) = gt_handle g" "gt_handle (time_out_wait n g) = gt_handle g"
  "gt_switches (wake_sleeper n g) = gt_switches g" "gt_switches (time_out_wait n g) = gt_switches g"
  "gt_wake_tick (wake_sleeper n g) = gt_wake_tick g" "gt_wake_tick (time_out_wait n g) = gt_wake_tick g"
  "gt_join_target (wake_sleeper n g) = gt_join_target g"
  "gt_join_target (time_out_wait n g) = gt_join_target g"
  by (simp_all add: wake_sleeper_def time_out_wait_def)

lemma expire_timers_fields [sched_simps]:
  "length (gs_threads (expire_timers s)) = length (gs_threads s)"
  "gs_tick (expire_timers s) = gs_tick s" "gs_current (expire_timers s) = gs_current s"
  "gs_next_handle (expire_timers s) = gs_next_handle s"
  "gs_rr_cursor (expire_timers s) = gs_rr_cursor s"
  "gs_switches_total (expire_timers s) = gs_switches_total s"
  "gs_deadlocked (expire_timers s) = gs_deadlocked s"
  "gs_failed (expire_timers s) = gs_failed s"
  by (simp_all add: expire_timers_def)

text \<open>A field of the threads that no wake-up pass writes.\<close>

definition stable_field :: "('c guest_thread \<Rightarrow> 'a) \<Rightarrow> bool" where
  "stable_field f \<longleftrightarrow> (\<forall>g st. f (g\<lparr>gt_state := st\<rparr>) = f g) \<and>
     (\<forall>g st b. f (g\<lparr>gt_state := st, gt_wait_timed_out := b\<rparr>) = f g)"

lemma stable_fields [simp]:
  "stable_field gt_ctx" "stable_field gt_handle" "stable_field gt_switches"
  "stable_field gt_join_target" "stable_field gt_wake_tick"
  by (simp_all add: stable_field_def)

lemma unblock_joins_from_frame:
  assumes "unblock_joins_from i n s = Some s'" and "stable_field f"
  shows "map f (gs_threads s') = map f (gs_threads s) \<and> gs_tick s' = gs_tick s \<and>
    gs_current s' = gs_current s \<and> gs_next_handle s' = gs_next_handle s \<and>
    gs_rr_cursor s' = gs_rr_cursor s \<and> gs_switches_total s' = gs_switches_total s \<and>
    gs_deadlocked s' = gs_deadlocked s \<and> gs_failed s' = gs_failed s"
  using assms
proof (induction i n s rule: unblock_joins_from.induct)
  case (2 i n s)
  have m: "map f (gs_threads (upd_thread i (\<lambda>g. g\<lparr>gt_state := Ready\<rparr>) s)) = map f (gs_threads s)"
    using "2.prems"(2) by (simp add: sched_simps stable_field_def map_update_same)
  from 2 m show ?case
    by (auto simp: Let_def sched_simps split: if_splits option.splits)
qed simp

lemmas unblock_joins_frame =
  unblock_joins_from_frame [of 0 "length (gs_threads s)" s for s, folded unblock_joins_def]

lemma unblock_joins_length:
  "unblock_joins s = Some s' \<Longrightarrow> length (gs_threads s') = length (gs_threads s)"
  using unblock_joins_frame [of s s' gt_handle] by (metis length_map stable_fields(2))

lemma expire_timers_frame:
  "stable_field f \<Longrightarrow> map f (gs_threads (expire_timers s)) = map f (gs_threads s)"
  by (simp add: expire_timers_def wake_sleeper_def time_out_wait_def stable_field_def)

lemma rr_scan_Some:
  "rr_scan ts c i k = Some idx \<Longrightarrow>
     \<exists>j. i \<le> j \<and> j < i + k \<and> idx = (c + j) mod length ts \<and> gt_state (ts ! idx) = Ready \<and>
       (\<forall>l. i \<le> l \<and> l < j \<longrightarrow> gt_state (ts ! ((c + l) mod length ts)) \<noteq> Ready)"
proof (induction ts c i k rule: rr_scan.induct)
  case (2 ts c i k)
  show ?case
  proof (cases "gt_state (ts ! ((c + i) mod length ts)) = Ready")
    case True
    with 2 show ?thesis by (intro exI [of _ i]) (auto simp: Let_def)
  next
    case False
    with 2 obtain j where j: "Suc i \<le> j" "j < Suc i + k" "idx = (c + j) mod length ts"
      "gt_state (ts ! idx) = Ready"
      "\<forall>l. Suc i \<le> l \<and> l < j \<longrightarrow> gt_state (ts ! ((c + l) mod length ts)) \<noteq> Ready"
      by (auto simp: Let_def)
    with False show ?thesis
      by (intro exI [of _ j]) (metis Suc_leD Suc_leI add_Suc_right add_Suc_shift le_neq_implies_less)
  qed
qed simp

lemma rr_scan_None:
  "rr_scan ts c i k = None \<Longrightarrow> i \<le> l \<Longrightarrow> l < i + k \<Longrightarrow>
     gt_state (ts ! ((c + l) mod length ts)) \<noteq> Ready"
proof (induction ts c i k rule: rr_scan.induct)
  case (2 ts c i k)
  then show ?case
    by (cases "l = i") (auto simp: Let_def split: if_splits)
qed simp

lemma mod_shift_onto:
  assumes "(j::nat) < n" shows "\<exists>l<n. (c + l) mod n = j"
proof -
  let ?l = "(j + (n - c mod n)) mod n"
  have "(c + ?l) mod n = (c mod n + (j + (n - c mod n))) mod n"
    by (simp add: mod_simps)
  also have "c mod n + (j + (n - c mod n)) = j + n"
    using assms mod_less_divisor [of n c] by linarith
  finally have "(c + ?l) mod n = j" using assms by simp
  moreover have "?l < n" using assms by simp
  ultimately show ?thesis by blast
qed

lemma rr_scan_None_all:
  assumes "rr_scan ts c 0 (length ts) = None" and "j < length ts"
  shows "gt_state (ts ! j) \<noteq> Ready"
  using mod_shift_onto [OF assms(2), of c] rr_scan_None [OF assms(1)] by fastforce

lemma pick_next_frame:
  assumes "pick_next s = Some (r, s')" and "stable_field f"
  shows "map f (gs_threads s') = map f (gs_threads s) \<and> gs_tick s' = gs_tick s \<and>
    gs_current s' = gs_current s \<and> gs_next_handle s' = gs_next_handle s \<and>
    gs_switches_total s' = gs_switches_total s \<and>
    gs_deadlocked s' = gs_deadlocked s \<and> gs_failed s' = gs_failed s"
proof -
  from assms(1) obtain s1 where s1: "unblock_joins s = Some s1"
    by (auto simp: pick_next_def split: option.splits)
  note fr = unblock_joins_frame [OF s1 assms(2)]
  have ex: "map f (gs_threads (expire_timers s1)) = map f (gs_threads s1)"
    by (rule expire_timers_frame [OF assms(2)])
  from assms(1) s1 have "s' = expire_timers s1 \<or>
      (\<exists>c. s' = (expire_timers s1)\<lparr>gs_rr_cursor := c\<rparr>)"
    by (auto simp: pick_next_def Let_def split: option.splits)
  with fr ex show ?thesis by (auto simp: sched_simps)
qed

lemma pick_next_length:
  "pick_next s = Some (r, s') \<Longrightarrow> length (gs_threads s') = length (gs_threads s)"
  using pick_next_frame [of s r s' gt_handle] by (metis length_map stable_fields(2))

text \<open>What every signal keeps, the finish hooks keep.\<close>

lemma run_finish_hooks_rule:
  assumes sig: "\<And>s tok al. P s \<Longrightarrow> P (snd (signal tok al s))" and "P s"
  shows "P (run_finish_hooks hk t s)"
proof -
  have "P s \<Longrightarrow> P (fold (\<lambda>(tok, al) s. snd (signal tok al s)) xs s)" for xs s
    by (induction xs arbitrary: s) (auto intro: sig)
  then have "P s \<Longrightarrow> P (fold (run_hook hk t) hs s)" for hs s
    by (induction hs arbitrary: s) (auto simp: run_hook_def)
  with \<open>P s\<close> show ?thesis by (simp add: run_finish_hooks_def)
qed

section \<open>Handles are positions\<close>

text \<open>The invariant that makes every \<open>find\<close> safe. It holds as long as no stack mapping fails.\<close>

definition sched_wf :: "'c guest_scheduler \<Rightarrow> bool" where
  "sched_wf s \<longleftrightarrow> unat (gs_next_handle s) = Suc (length (gs_threads s)) \<and>
     map gt_handle (gs_threads s) = map (\<lambda>i. of_nat (Suc i)) [0..<length (gs_threads s)] \<and>
     unat (gs_rr_cursor s) < max 1 (length (gs_threads s))"

lemma sched_wf_init [sched_inv]: "sched_wf GuestScheduler"
  by (simp add: sched_wf_def GuestScheduler_def)

lemma sched_wf_frame:
  assumes "sched_wf s" "map gt_handle (gs_threads s') = map gt_handle (gs_threads s)"
    "gs_next_handle s' = gs_next_handle s" "gs_rr_cursor s' = gs_rr_cursor s"
  shows "sched_wf s'"
  using assms map_eq_imp_length_eq [OF assms(2)] by (simp add: sched_wf_def)

lemma sched_wf_upd [sched_inv]:
  "sched_wf s \<Longrightarrow> gt_handle (f (gs_threads s ! t)) = gt_handle (gs_threads s ! t) \<Longrightarrow>
     sched_wf (upd_thread t f s)"
  by (erule sched_wf_frame) (simp_all add: sched_simps map_update_same)

lemma sched_wf_switch [sched_inv]: "sched_wf s \<Longrightarrow> sched_wf (switch_to_scheduler s)"
  by (erule sched_wf_frame) (simp_all add: sched_simps)

lemma handles_less: "sched_wf s \<Longrightarrow> Suc (length (gs_threads s)) < 2 ^ 64"
  using unat_lt2p [of "gs_next_handle s"] by (simp add: sched_wf_def)

lemma handle_nth:
  assumes "sched_wf s" "i < length (gs_threads s)"
  shows "gt_handle (gs_threads s ! i) = of_nat (Suc i)"
proof -
  have "gt_handle (gs_threads s ! i) = map gt_handle (gs_threads s) ! i" using assms(2) by simp
  also have "\<dots> = of_nat (Suc i)" using assms by (simp add: sched_wf_def)
  finally show ?thesis .
qed

lemma find_thread_valid:
  assumes "sched_wf s" "find_thread s h = Some i"
  shows "i < length (gs_threads s) \<and> gt_handle (gs_threads s ! i) = h"
proof -
  from assms(2) have h: "h \<noteq> 0" "h < gs_next_handle s" "i = unat (h - 1)"
    by (auto simp: find_thread_def split: if_splits)
  then have i: "unat h = Suc i" using unat_minus_one_Suc by blast
  with h(2) assms(1) have lt: "i < length (gs_threads s)"
    by (simp add: sched_wf_def word_less_nat_alt)
  then show ?thesis using handle_nth [OF assms(1)] unat_eq_SucD [OF i] by simp
qed

lemma find_thread_handle:
  assumes "sched_wf s" "i < length (gs_threads s)"
  shows "find_thread s (of_nat (Suc i)) = Some i"
proof -
  have u: "unat (of_nat (Suc i) :: u64) = Suc i"
    using assms(2) handles_less [OF assms(1)] by (intro unat_of_nat_lt) simp
  then have nz: "(of_nat (Suc i) :: u64) \<noteq> 0" by (metis unat_0 nat.distinct(1))
  from u have "unat ((of_nat (Suc i) :: u64) - 1) = i" using unat_minus_one_Suc [OF nz] by simp
  moreover have "(of_nat (Suc i) :: u64) < gs_next_handle s"
    using assms u by (simp add: sched_wf_def word_less_nat_alt)
  ultimately show ?thesis using nz by (simp add: find_thread_def)
qed

lemma sched_wf_signal [sched_inv]:
  assumes "sched_wf s" "signal token all s = (n, s')" shows "sched_wf s'"
proof -
  have "map gt_handle (snd (signal_list token all gs)) = map gt_handle gs" for gs :: "'a guest_thread list"
    by (induction gs) (auto simp: wake_def split: prod.splits)
  from this [of "gs_threads s"] assms show ?thesis
    by (auto simp: signal_def split: prod.splits intro: sched_wf_frame)
qed

lemma sched_wf_spawn [sched_inv]:
  assumes "sched_wf s" "spawn_reserved mm name c r s = (h, s')"
    and "mm (gs_next_handle s) \<noteq> None" "Suc (Suc (length (gs_threads s))) < 2 ^ 64"
  shows "sched_wf s'"
proof -
  have "unat (gs_next_handle s + 1) = unat (gs_next_handle s) + 1"
    using assms(1,4) by (intro unat_inc_less [where y = UINT64_MAX])
      (simp add: sched_wf_def word_less_nat_alt)
  moreover have "gs_next_handle s = of_nat (Suc (length (gs_threads s)))"
    using assms(1) by (intro unat_eq_SucD) (simp add: sched_wf_def)
  ultimately show ?thesis using assms
    by (auto simp: sched_wf_def spawn_reserved_def Let_def split: if_splits option.splits)
qed

lemma sched_wf_pick_next [sched_inv]:
  assumes "sched_wf s" "pick_next s = Some (r, s')" shows "sched_wf s'"
proof -
  from assms(2) obtain s1 where s1: "unblock_joins s = Some s1"
    by (auto simp: pick_next_def split: option.splits)
  note fr = unblock_joins_frame [OF s1 stable_fields(2)]
  have wf2: "sched_wf (expire_timers s1)"
    using assms(1) fr expire_timers_frame [OF stable_fields(2), of s1]
    by (intro sched_wf_frame [OF assms(1)]) (simp_all add: sched_simps)
  show ?thesis
  proof (cases r)
    case None
    with assms(2) s1 wf2 show ?thesis by (auto simp: pick_next_def Let_def split: option.splits)
  next
    case (Some idx)
    let ?n = "length (gs_threads (expire_timers s1))"
    from assms(2) s1 Some
    have s': "s' = (expire_timers s1)\<lparr>gs_rr_cursor := of_nat ((idx + 1) mod ?n)\<rparr>"
      and scan: "rr_scan (gs_threads (expire_timers s1)) (unat (gs_rr_cursor (expire_timers s1)))
        0 ?n = Some idx"
      by (auto simp: pick_next_def Let_def split: option.splits)
    have n: "0 < ?n" using rr_scan_Some [OF scan] by auto
    have "(idx + 1) mod ?n < ?n" using n by simp
    then have "unat (of_nat ((idx + 1) mod ?n) :: u64) < ?n"
      using handles_less [OF wf2] by (subst unat_of_nat_lt) auto
    with wf2 s' n show ?thesis by (simp add: sched_wf_def)
  qed
qed

lemma join_done_defined:
  assumes "sched_wf s" shows "join_done s g \<noteq> None"
  using find_thread_valid [OF assms] by (auto simp: join_done_def deref_def split: option.splits)

lemma unblock_joins_defined:
  "sched_wf s \<Longrightarrow> unblock_joins_from i n s \<noteq> None"
proof (induction i n s rule: unblock_joins_from.induct)
  case (2 i n s)
  have wf': "sched_wf (upd_thread i (\<lambda>g. g\<lparr>gt_state := Ready\<rparr>) s)"
    by (rule sched_wf_upd [OF 2(3)]) simp
  show ?case
    using 2 wf' join_done_defined [OF 2(3), of "gs_threads s ! i"]
    by (auto simp: Let_def split: option.splits)
qed simp

lemma pick_next_defined: "sched_wf s \<Longrightarrow> pick_next s \<noteq> None"
  using unblock_joins_defined
  by (fastforce simp: pick_next_def unblock_joins_def Let_def split: option.splits)

lemma join_defined:
  "sched_wf s \<Longrightarrow> join h s \<noteq> JoinWild"
  using find_thread_valid by (fastforce simp: join_def deref_def split: option.splits if_splits)

end
