(* ===== verification/Sched_Run.thy ===== *)
theory Sched_Run
  imports Cpu_Sched
begin

text \<open>
  The dispatch loop \<open>GuestScheduler::run_until_complete\<close> over fiber bodies. A body
  (\<open>GuestThreadFn\<close>) is a possibly infinite tree of scheduler calls: each node is the next call the
  body makes, or a step of its own (\<open>FWork\<close>), and the subtrees say how it goes on for every result of
  the call. The saved context of a fiber that has switched away is the rest of its tree. A body need
  not give control back, so it runs on fuel.
\<close>

section \<open>Fiber bodies and saved contexts\<close>

codatatype fiber =
    FReturn
  | FExit u32
  | FWork fiber
  | FYield fiber
  | FSleep u64 fiber
  | FJoin u64 "bool \<Rightarrow> fiber"
  | FBlock u64 u64 "bool \<Rightarrow> fiber"
  | FSignal u64 bool "u64 \<Rightarrow> fiber"
  | FSpawn string fiber u64 "u64 \<Rightarrow> fiber"

text \<open>\<open>Entry\<close>: the context \<open>rearm\<close> builds; \<open>ResumeWait\<close>: suspended inside \<open>block_current\<close>;
  \<open>Gone\<close>: past \<open>thread_finish\<close>, in its endless switch loop.\<close>

datatype fctx = Entry fiber | Resume fiber | ResumeWait "bool \<Rightarrow> fiber" | Gone

type_synonym sched = "fctx guest_scheduler"

text \<open>What the host decides: stack mappings, context switches, and the signals of the hooks.\<close>

record host =
  h_mmap :: "u64 \<Rightarrow> u64 option"
  h_swap :: "u64 \<Rightarrow> bool"
  h_hooks :: "fctx hook_signals"

definition set_ctx :: "nat \<Rightarrow> fctx \<Rightarrow> sched \<Rightarrow> sched" where
  "set_ctx t c s = upd_thread t (\<lambda>g. g\<lparr>gt_ctx := c\<rparr>) s"

text \<open>How a stretch of a body ends: the fuel is spent, a thread pointer outside \<open>threads_\<close> was followed,
  or the body has switched back to the scheduler.\<close>

datatype ran = OutOfFuel | WildPointer | Switched sched

text \<open>Run the body of thread \<open>t\<close> until it switches back to the scheduler; each call takes one unit of fuel.\<close>

fun run_fiber :: "nat \<Rightarrow> fiber \<Rightarrow> host \<Rightarrow> nat \<Rightarrow> sched \<Rightarrow> ran" where
  "run_fiber 0 f H t s = OutOfFuel"
| "run_fiber (Suc n) f H t s =
     (case f of
        FReturn \<Rightarrow> Switched (thread_finish (h_hooks H) t 0 (set_ctx t Gone s))
      | FExit code \<Rightarrow> Switched (thread_finish (h_hooks H) t code (set_ctx t Gone s))
      | FWork g \<Rightarrow> run_fiber n g H t s
      | FYield g \<Rightarrow> Switched (thread_yield t (set_ctx t (Resume g) s))
      | FSleep ticks g \<Rightarrow> Switched (thread_sleep t ticks (set_ctx t (Resume g) s))
      | FJoin h k \<Rightarrow>
          (case join h s of
             JoinRet b \<Rightarrow> run_fiber n (k b) H t s
           | JoinBlock s' \<Rightarrow> Switched (set_ctx t (Resume (k True)) s')
           | JoinWild \<Rightarrow> WildPointer)
      | FBlock tok timeout k \<Rightarrow>
          (case block_current tok timeout s of
             None \<Rightarrow> run_fiber n (k False) H t s
           | Some s' \<Rightarrow> Switched (set_ctx t (ResumeWait k) s'))
      | FSignal tok all k \<Rightarrow> (case signal tok all s of (c, s') \<Rightarrow> run_fiber n (k c) H t s')
      | FSpawn name body reserve k \<Rightarrow>
          (case spawn_reserved (h_mmap H) name (Entry body) reserve s of (h, s') \<Rightarrow> run_fiber n (k h) H t s'))"

section \<open>The dispatch loop\<close>

definition enter_thread :: "nat \<Rightarrow> 'c guest_scheduler \<Rightarrow> 'c guest_scheduler" where
  "enter_thread t s = upd_thread t (\<lambda>g. g\<lparr>gt_switches := gt_switches g + 1\<rparr>)
     (s\<lparr>gs_current := Some t, gs_switches_total := gs_switches_total s + 1\<rparr>)"

definition trampoline :: "nat \<Rightarrow> host \<Rightarrow> nat \<Rightarrow> fiber \<Rightarrow> sched \<Rightarrow> ran" where
  "trampoline n H t f s =
     run_fiber n f H t (upd_thread t (\<lambda>g. g\<lparr>gt_started := True, gt_state := Running\<rparr>) s)"

definition dispatch :: "nat \<Rightarrow> host \<Rightarrow> nat \<Rightarrow> sched \<Rightarrow> ran" where
  "dispatch n H t s =
     (case gt_ctx (gs_threads s ! t) of
        Entry f \<Rightarrow> trampoline n H t f s
      | Resume f \<Rightarrow> run_fiber n f H t s
      | ResumeWait k \<Rightarrow> run_fiber n (k (block_result t s)) H t s
      | Gone \<Rightarrow> Switched (switch_to_scheduler s))"

datatype loop_result = Continue sched | Return bool sched | Wild

definition all_finished :: "'c guest_scheduler \<Rightarrow> bool" where
  "all_finished s \<longleftrightarrow> list_all (\<lambda>g. gt_state g = Finished) (gs_threads s)"

definition timed :: "'c guest_thread \<Rightarrow> bool" where
  "timed g \<longleftrightarrow> gt_state g = Sleeping \<or> gt_state g = BlockedWait \<and> gt_wake_tick g \<noteq> UINT64_MAX"

definition stuck :: "'c guest_thread \<Rightarrow> bool" where
  "stuck g \<longleftrightarrow> gt_state g = BlockedJoin \<or> gt_state g = BlockedWait \<and> gt_wake_tick g = UINT64_MAX"

text \<open>One iteration; \<open>None\<close> means that the body it dispatched spent the fuel.\<close>

definition loop_step :: "nat \<Rightarrow> host \<Rightarrow> sched \<Rightarrow> loop_result option" where
  "loop_step n H s =
     (if all_finished s then Some (Return True s)
      else (case pick_next s of
          None \<Rightarrow> Some Wild
        | Some (Some t, s1) \<Rightarrow>
            let s2 = enter_thread t s1 in
            if \<not> h_swap H (gs_switches_total s1) then Some (Return False (s2\<lparr>gs_failed := True\<rparr>))
            else (case dispatch n H t s2 of OutOfFuel \<Rightarrow> None | WildPointer \<Rightarrow> Some Wild | Switched s3 \<Rightarrow> Some (Continue s3))
        | Some (None, s1) \<Rightarrow>
            if list_ex timed (gs_threads s1) then Some (Continue (s1\<lparr>gs_tick := gs_tick s1 + 1\<rparr>))
            else if list_ex stuck (gs_threads s1) then Some (Return False (s1\<lparr>gs_deadlocked := True\<rparr>))
            else Some (Return True s1)))"

text \<open>The loop: \<open>None\<close> means that the fuel ran out, in the loop or in a body; \<open>run_terminates\<close> shows for
  which programs some amount of fuel is enough.\<close>

fun run_until_complete ::
  "nat \<Rightarrow> host \<Rightarrow> sched \<Rightarrow> loop_result option" where
  "run_until_complete 0 H s = None"
| "run_until_complete (Suc n) H s =
     (case loop_step n H s of
        None \<Rightarrow> None
      | Some (Continue s') \<Rightarrow> run_until_complete n H s'
      | Some r \<Rightarrow> Some r)"

section \<open>Fuel\<close>

lemma run_fiber_more: "run_fiber n f H t s \<noteq> OutOfFuel \<Longrightarrow> n \<le> m \<Longrightarrow> run_fiber m f H t s = run_fiber n f H t s"
proof (induction n arbitrary: m f s)
  case (Suc n)
  then obtain k where m: "m = Suc k" "n \<le> k" by (cases m) auto
  show ?case using Suc.prems(1) Suc.IH [OF _ m(2)] unfolding m(1)
    by (auto split: fiber.split join_result.split option.split prod.split)
qed simp

lemma dispatch_more: "dispatch n H t s \<noteq> OutOfFuel \<Longrightarrow> n \<le> m \<Longrightarrow> dispatch m H t s = dispatch n H t s"
  using run_fiber_more [of n _ H t _ m] by (cases "gt_ctx (gs_threads s ! t)") (simp_all add: dispatch_def trampoline_def)

lemma loop_step_more: "loop_step n H s \<noteq> None \<Longrightarrow> n \<le> m \<Longrightarrow> loop_step m H s = loop_step n H s"
  using dispatch_more [of n H _ _ m] by (fastforce simp: loop_step_def Let_def split: if_splits option.split prod.split ran.splits)

lemma run_more: "run_until_complete n H s = Some r \<Longrightarrow> n \<le> m \<Longrightarrow> run_until_complete m H s = Some r"
proof (induction n arbitrary: m s)
  case (Suc n)
  then obtain k where m: "m = Suc k" "n \<le> k" by (cases m) auto
  have ne: "loop_step n H s \<noteq> None" using Suc.prems(1) by (auto split: option.splits)
  show ?case using Suc.prems(1) Suc.IH [OF _ m(2)] loop_step_more [OF ne m(2)] unfolding m(1)
    by (auto split: option.splits loop_result.splits)
qed simp

section \<open>The remaining work of a program\<close>

text \<open>Bodies whose every path of calls comes to an end.\<close>

inductive ends :: "fiber \<Rightarrow> bool" where
  "ends FReturn"
| "ends (FExit code)"
| "ends f \<Longrightarrow> ends (FWork f)"
| "ends f \<Longrightarrow> ends (FYield f)"
| "ends f \<Longrightarrow> ends (FSleep ticks f)"
| "(\<And>b. ends (kb b)) \<Longrightarrow> ends (FJoin h kb)"
| "(\<And>b. ends (kb b)) \<Longrightarrow> ends (FBlock tok timeout kb)"
| "(\<And>c. ends (kn c)) \<Longrightarrow> ends (FSignal tok al kn)"
| "ends body \<Longrightarrow> (\<And>h. ends (kn h)) \<Longrightarrow> ends (FSpawn name body reserve kn)"

text \<open>Bodies that go on for ever without a call that gives control back.\<close>

coinductive monopolises :: "fiber \<Rightarrow> bool" where
  "monopolises f \<Longrightarrow> monopolises (FWork f)"
| "(\<And>c. monopolises (kn c)) \<Longrightarrow> monopolises (FSignal tok al kn)"
| "(\<And>h. monopolises (kn h)) \<Longrightarrow> monopolises (FSpawn name body reserve kn)"

lemma monopolises_spends: "monopolises f \<Longrightarrow> run_fiber n f H t s = OutOfFuel"
proof (induction n arbitrary: f s)
  case (Suc n)
  from Suc.prems show ?case by (cases rule: monopolises.cases) (auto simp: Suc.IH split: prod.split)
qed simp

text \<open>What a saved context can lead to next. Where this relation is well-founded it measures the work
  a context still has.\<close>

inductive smaller :: "fctx \<Rightarrow> fctx \<Rightarrow> bool" where
  gone: "smaller Gone (Resume f)"
| work: "smaller (Resume f) (Resume (FWork f))"
| yield: "smaller (Resume f) (Resume (FYield f))"
| sleep: "smaller (Resume f) (Resume (FSleep ticks f))"
| join: "smaller (Resume (kb b)) (Resume (FJoin h kb))"
| block: "smaller (ResumeWait kb) (Resume (FBlock tok timeout kb))"
| refused: "smaller (Resume (kb b)) (Resume (FBlock tok timeout kb))"
| wait: "smaller (Resume (kb b)) (ResumeWait kb)"
| signal: "smaller (Resume (kn c)) (Resume (FSignal tok al kn))"
| spawn: "smaller (Resume (kn h)) (Resume (FSpawn name body reserve kn))"
| spawned: "smaller (Resume body) (Resume (FSpawn name body reserve kn))"

inductive_simps smaller_simps: "smaller x Gone" "smaller x (ResumeWait kb)" "smaller x (Resume FReturn)" "smaller x (Resume (FExit code))"
  "smaller x (Resume (FWork f))" "smaller x (Resume (FYield f))" "smaller x (Resume (FSleep ticks f))" "smaller x (Resume (FJoin h kb))"
  "smaller x (Resume (FBlock tok timeout kb))" "smaller x (Resume (FSignal tok al kn))" "smaller x (Resume (FSpawn name body reserve kn))"

abbreviation bounded :: "fctx \<Rightarrow> bool" where
  "bounded \<equiv> Wellfounded.accp smaller"

lemma bounded_Gone [simp]: "bounded Gone"
  by (rule accp.accI) (simp add: smaller_simps)

lemma bounded_wait: "(\<And>b. bounded (Resume (k b))) \<Longrightarrow> bounded (ResumeWait k)"
  by (rule accp.accI) (auto simp: smaller_simps)

lemma ends_bounded: "ends f \<Longrightarrow> bounded (Resume f)"
proof (induction f rule: ends.induct)
  case (7 kb tok timeout)
  show ?case using 7 bounded_wait [of kb] by - (rule accp.accI, auto simp: smaller_simps)
qed (rule accp.accI, auto simp: smaller_simps)+

definition below1 :: "(fctx \<times> fctx) set" where
  "below1 = {(x, y). smaller x y \<and> bounded y}"

definition below :: "(fctx \<times> fctx) set" where
  "below = below1\<^sup>+"

lemma wf_below: "wf below"
proof -
  have "wf below1"
  proof (rule wfUNIVI)
    fix P :: "fctx \<Rightarrow> bool" and x
    assume step: "\<forall>x. (\<forall>y. (y, x) \<in> below1 \<longrightarrow> P y) \<longrightarrow> P x"
    show "P x"
    proof (cases "bounded x")
      case True
      then show ?thesis
      proof (induction x rule: accp_induct_rule)
        case (1 x)
        have "\<forall>y. (y, x) \<in> below1 \<longrightarrow> P y" using "1.IH" by (simp add: below1_def)
        with step show ?case by blast
      qed
    next
      case False
      then show ?thesis using step by (auto simp: below1_def)
    qed
  qed
  then show ?thesis unfolding below_def by (rule wf_trancl)
qed

lemma trans_below: "trans below"
  by (simp add: below_def)

lemma below_trans: "(x, y) \<in> below \<Longrightarrow> (y, z) \<in> below \<Longrightarrow> (x, z) \<in> below"
  using trans_below by (rule transD)

lemma belowI: "smaller x y \<Longrightarrow> bounded y \<Longrightarrow> (x, y) \<in> below"
  by (auto simp: below_def below1_def)

lemma below_bounded: "(x, y) \<in> below \<Longrightarrow> bounded x"
  unfolding below_def by (induction rule: converse_trancl_induct) (auto simp: below1_def intro: accp_downward)

text \<open>A fiber that has not started and one that has yielded before its first call have the same work.\<close>

fun norm_ctx :: "fctx \<Rightarrow> fctx" where
  "norm_ctx (Entry f) = Resume f"
| "norm_ctx c = c"

definition saved :: "sched \<Rightarrow> fctx list" where
  "saved s = map (\<lambda>g. norm_ctx (gt_ctx g)) (gs_threads s)"

text \<open>\<open>progress t y cs cs'\<close>: the context of thread \<open>t\<close> and all contexts that were added are below \<open>y\<close>; the
  other contexts did not change.\<close>

definition progress :: "nat \<Rightarrow> fctx \<Rightarrow> fctx list \<Rightarrow> fctx list \<Rightarrow> bool" where
  "progress t y cs cs' \<longleftrightarrow> (\<exists>c bs. cs' = cs[t := c] @ bs \<and> (c, y) \<in> below \<and> list_all (\<lambda>b. (b, y) \<in> below) bs)"

lemma progress_child: "progress t z cs cs' \<Longrightarrow> (z, y) \<in> below \<Longrightarrow> progress t y cs cs'"
  by (auto simp: progress_def list_all_iff intro: below_trans)

lemma progress_set: "(c, y) \<in> below \<Longrightarrow> progress t y cs (cs[t := c])"
  by (force simp: progress_def)

lemma progress_append:
  "progress t y (cs @ [b]) cs' \<Longrightarrow> t < length cs \<Longrightarrow> (b, y) \<in> below \<Longrightarrow> progress t y cs cs'"
  by (force simp: progress_def list_update_append1)

section \<open>How running a body changes the contexts\<close>

lemma saved_upd_thread [sched_simps]:
  "saved (upd_thread t f s) = (saved s)[t := norm_ctx (gt_ctx (f (gs_threads s ! t)))]"
  by (simp add: saved_def sched_simps map_update)

lemma saved_same: "t < length (gs_threads s) \<Longrightarrow>
  (saved s)[t := norm_ctx (gt_ctx (gs_threads s ! t))] = saved s"
  by (simp add: saved_def list_update_same_conv)

lemma saved_fields [sched_simps]:
  "saved (switch_to_scheduler s) = saved s"
  "length (saved s) = length (gs_threads s)"
  "saved (s\<lparr>gs_current := x\<rparr>) = saved s" "saved (s\<lparr>gs_tick := n\<rparr>) = saved s"
  "saved (s\<lparr>gs_switches_total := n\<rparr>) = saved s"
  by (simp_all add: saved_def sched_simps)

lemma saved_set_ctx [sched_simps]: "saved (set_ctx t c s) = (saved s)[t := norm_ctx c]"
  by (simp add: set_ctx_def sched_simps)

lemma saved_alt: "saved s = map norm_ctx (map gt_ctx (gs_threads s))"
  by (simp add: saved_def)

lemma map_signal_list:
  assumes "stable_field f" shows "map f (snd (signal_list token all gs)) = map f gs"
  using assms by (induction gs) (auto simp: wake_def stable_field_def split: prod.splits)

lemma saved_signal: "signal token all s = (n, s') \<Longrightarrow> saved s' = saved s"
  using map_signal_list [OF stable_fields(1), of token all "gs_threads s"]
  by (auto simp: signal_def saved_alt simp del: map_map split: prod.splits)

lemma saved_block:
  assumes "block_current token timeout s = Some s'" "gs_current s = Some t" "t < length (gs_threads s)"
  shows "saved s' = saved s"
  using assms by (auto simp: block_current_def thread_block_def sched_simps saved_same)

lemma saved_join:
  assumes "join h s = JoinBlock s'" "gs_current s = Some t" "t < length (gs_threads s)"
  shows "saved s' = saved s"
  using assms by (auto simp: join_def sched_simps saved_same split: if_splits option.splits)

lemma saved_spawn:
  assumes "spawn_reserved mm name c r s = (h, s')"
  shows "saved s' = saved s \<or> saved s' = saved s @ [norm_ctx c]"
  using assms by (auto simp: spawn_reserved_def saved_def Let_def split: if_splits option.splits)

lemma current_signal: "signal token all s = (n, s') \<Longrightarrow> gs_current s' = gs_current s \<and>
    length (gs_threads s') = length (gs_threads s)"
  using map_signal_list [OF stable_fields(1), of token all "gs_threads s"]
  by (auto simp: signal_def split: prod.splits dest: map_eq_imp_length_eq)

lemma current_spawn:
  "spawn_reserved mm name c r s = (h, s') \<Longrightarrow> gs_current s' = gs_current s \<and>
    length (gs_threads s) \<le> length (gs_threads s')"
  by (auto simp: spawn_reserved_def Let_def split: if_splits option.splits)

lemma saved_hooks: "saved (run_finish_hooks hk t s) = saved s"
  by (rule run_finish_hooks_rule) (metis prod.collapse saved_signal, rule refl)

lemma run_fiber_progress:
  assumes "run_fiber n f H t s = Switched s'" "bounded (Resume f)" "gs_current s = Some t" "t < length (gs_threads s)"
  shows "progress t (Resume f) (saved s) (saved s')"
  using assms
proof (induction n arbitrary: f s)
  case (Suc n)
  note below = belowI [OF _ Suc.prems(2)]
  have child: "progress t (Resume f) (saved s1) (saved s')"
    if "run_fiber n g H t s1 = Switched s'" "smaller (Resume g) (Resume f)" "gs_current s1 = Some t" "t < length (gs_threads s1)" for g s1
    using progress_child [OF Suc.IH [OF that(1) _ that(3,4)] below [OF that(2)]] below_bounded [OF below [OF that(2)]] by simp
  have switch: "progress t (Resume f) (saved s) ((saved s)[t := c])" if "smaller c (Resume f)" for c
    by (intro progress_set below that)
  show ?case
  proof (cases f)
    case (FWork g)
    show ?thesis by (rule child [of g s]) (use FWork Suc.prems in \<open>auto intro: smaller.intros\<close>)
  next
    case (FJoin h k)
    show ?thesis
    proof (cases "join h s")
      case (JoinRet b)
      show ?thesis by (rule child [of "k b" s]) (use JoinRet FJoin Suc.prems in \<open>auto intro: smaller.intros\<close>)
    next
      case (JoinBlock s1)
      with FJoin Suc.prems have "saved s' = (saved s)[t := Resume (k True)]" by (auto simp: sched_simps saved_join)
      moreover have "smaller (Resume (k True)) (Resume f)" using FJoin by (auto intro: smaller.intros)
      ultimately show ?thesis using switch by simp
    qed (use FJoin Suc.prems in simp)
  next
    case (FBlock tok timeout k)
    with Suc.prems obtain s1 where "block_current tok timeout s = Some s1" "s' = set_ctx t (ResumeWait k) s1"
      by (auto simp: block_current_def)
    with Suc.prems have "saved s' = (saved s)[t := ResumeWait k]" by (simp add: sched_simps saved_block)
    moreover have "smaller (ResumeWait k) (Resume f)" using FBlock by (auto intro: smaller.intros)
    ultimately show ?thesis using switch by simp
  next
    case (FSignal tok al k)
    obtain c s1 where s1: "signal tok al s = (c, s1)" by force
    with FSignal Suc.prems have "progress t (Resume f) (saved s1) (saved s')"
      using current_signal [OF s1] by (intro child [of "k c" s1]) (simp_all add: smaller_simps, blast)
    then show ?thesis by (simp add: saved_signal [OF s1])
  next
    case (FSpawn nm b r k)
    obtain h s1 where s1: "spawn_reserved (h_mmap H) nm (Entry b) r s = (h, s1)" by force
    with FSpawn Suc.prems have p: "progress t (Resume f) (saved s1) (saved s')"
      using current_spawn [OF s1] by (intro child [of "k h" s1]) (simp_all add: smaller_simps, blast)
    consider "saved s1 = saved s" | "saved s1 = saved s @ [Resume b]" using saved_spawn [OF s1] by auto
    then show ?thesis
    proof cases
      case 2
      have "(Resume b, Resume f) \<in> below" unfolding FSpawn by (rule belowI [OF smaller.spawned]) (use Suc.prems(2) FSpawn in simp)
      then show ?thesis using p 2 Suc.prems(4) by (intro progress_append [of t _ "saved s" "Resume b"]) (simp_all add: sched_simps)
    qed (use p in simp)
  next
    case (FYield g)
    have "saved s' = (saved s)[t := Resume g]" using Suc.prems FYield by (auto simp: sched_simps thread_yield_def set_ctx_def)
    then show ?thesis using switch [of "Resume g"] FYield by (simp add: smaller.yield)
  next
    case (FSleep ticks g)
    have "saved s' = (saved s)[t := Resume g]" using Suc.prems FSleep by (auto simp: sched_simps thread_sleep_def thread_yield_def set_ctx_def)
    then show ?thesis using switch [of "Resume g"] FSleep by (simp add: smaller.sleep)
  qed (use Suc.prems switch [OF smaller.gone] in \<open>auto simp: sched_simps saved_hooks thread_finish_def set_ctx_def\<close>)
qed simp

lemma bounded_enough: "bounded c \<Longrightarrow> c = Resume f \<Longrightarrow> \<exists>n. run_fiber n f H t s \<noteq> OutOfFuel"
proof (induction c arbitrary: f s rule: accp_induct_rule)
  case (1 c)
  have enough: "\<exists>n. run_fiber n g H t s1 \<noteq> OutOfFuel" if "smaller (Resume g) (Resume f)" for g s1
    by (rule "1.IH" [OF _ refl]) (simp add: "1.prems" that)
  show ?case
  proof (cases f)
    case (FWork g)
    obtain n where "run_fiber n g H t s \<noteq> OutOfFuel" using enough FWork smaller.work by blast
    then show ?thesis using FWork by (intro exI [of _ "Suc n"]) simp
  next
    case (FJoin h k)
    show ?thesis
    proof (cases "join h s")
      case (JoinRet b)
      obtain n where "run_fiber n (k b) H t s \<noteq> OutOfFuel" using enough FJoin smaller.join by blast
      then show ?thesis using FJoin JoinRet by (intro exI [of _ "Suc n"]) simp
    qed (use FJoin in \<open>auto intro: exI [of _ "Suc 0"]\<close>)
  next
    case (FBlock tok timeout k)
    obtain n where "run_fiber n (k False) H t s \<noteq> OutOfFuel" using enough FBlock smaller.refused by blast
    then show ?thesis using FBlock by (intro exI [of _ "Suc n"]) (simp split: option.split)
  next
    case (FSignal tok al k)
    obtain c s1 where s1: "signal tok al s = (c, s1)" by force
    obtain n where "run_fiber n (k c) H t s1 \<noteq> OutOfFuel" using enough FSignal smaller.signal by blast
    then show ?thesis using FSignal s1 by (intro exI [of _ "Suc n"]) simp
  next
    case (FSpawn nm b r k)
    obtain h s1 where s1: "spawn_reserved (h_mmap H) nm (Entry b) r s = (h, s1)" by force
    obtain n where "run_fiber n (k h) H t s1 \<noteq> OutOfFuel" using enough FSpawn smaller.spawn by blast
    then show ?thesis using FSpawn s1 by (intro exI [of _ "Suc n"]) simp
  qed (auto intro: exI [of _ "Suc 0"])
qed

section \<open>Every iteration decreases the remaining work or advances the clock\<close>

lemma mult_progress:
  assumes p: "progress t (cs ! t) cs cs'" and t: "t < length cs"
  shows "(mset cs', mset cs) \<in> mult below" "list_all bounded cs \<Longrightarrow> list_all bounded cs'"
proof -
  from p obtain c bs where cs': "cs' = cs[t := c] @ bs"
    and w: "(c, cs ! t) \<in> below" "list_all (\<lambda>b. (b, cs ! t) \<in> below) bs"
    by (auto simp: progress_def)
  let ?I = "mset cs - {#cs ! t#}"
  have old: "mset cs = ?I + {#cs ! t#}" using t by simp
  have new: "mset cs' = ?I + (mset bs + {#c#})" using t by (simp add: cs' mset_update)
  have "(?I + (mset bs + {#c#}), ?I + {#cs ! t#}) \<in> mult below"
    by (rule one_step_implies_mult) (use w in \<open>auto simp: list_all_iff\<close>)
  with old new show "(mset cs', mset cs) \<in> mult below" by simp
  show "list_all bounded cs \<Longrightarrow> list_all bounded cs'"
    using w below_bounded by (auto simp: cs' list_all_iff dest!: set_update_subset_insert [THEN subsetD])
qed

text \<open>Only a finished thread has run its body to the end.\<close>

definition alive :: "sched \<Rightarrow> bool" where
  "alive s \<longleftrightarrow> list_all (\<lambda>g. gt_ctx g = Gone \<longrightarrow> gt_state g = Finished) (gs_threads s)"

lemma alive_upd:
  "alive s \<Longrightarrow> (gt_ctx (f (gs_threads s ! t)) = Gone \<longrightarrow> gt_state (f (gs_threads s ! t)) = Finished) \<Longrightarrow>
     alive (upd_thread t f s)"
  by (simp add: alive_def sched_simps list_all_update)

lemma alive_threads: "alive s \<Longrightarrow> gs_threads s' = gs_threads s \<Longrightarrow> alive s'"
  by (simp add: alive_def)

lemma alive_signal:
  assumes "alive s" "signal token all s = (n, s')" shows "alive s'"
proof -
  have "list_all (\<lambda>g. gt_ctx g = Gone \<longrightarrow> gt_state g = Finished) gs \<Longrightarrow>
    list_all (\<lambda>g. gt_ctx g = Gone \<longrightarrow> gt_state g = Finished) (snd (signal_list token all gs))" for gs
    by (induction gs) (auto simp: waits_on_def wake_def split: prod.splits)
  from this [of "gs_threads s"] assms show ?thesis
    by (auto simp: alive_def signal_def split: prod.splits)
qed

lemma alive_spawn:
  "alive s \<Longrightarrow> spawn_reserved mm nm (Entry b) r s = (h, s') \<Longrightarrow> alive s'"
  by (auto simp: alive_def spawn_reserved_def Let_def split: if_splits option.splits)

lemma nth_set_ctx:
  "t < length (gs_threads s) \<Longrightarrow> gt_ctx (gs_threads (set_ctx t c s) ! t) = c"
  by (simp add: set_ctx_def sched_simps)

lemma alive_thread_op:
  assumes "alive s" "t < length (gs_threads s)" "gs_threads s' = (gs_threads s)[t := g]"
    "gt_ctx g \<noteq> Gone \<or> gt_state g = Finished"
  shows "alive s'"
  using assms by (simp add: alive_def list_all_update)

lemma alive_hooks: "alive s \<Longrightarrow> alive (run_finish_hooks hk t s)"
  by (rule run_finish_hooks_rule) (metis prod.collapse alive_signal)

lemma alive_switching_ops:
  assumes "alive s" "t < length (gs_threads s)"
  shows "alive (thread_finish (h_hooks H) t code (set_ctx t Gone s))"
    "alive (thread_yield t (set_ctx t (Resume f) s))"
    "alive (thread_sleep t n (set_ctx t (Resume f) s))"
proof -
  let ?s = "upd_thread t (\<lambda>g. g\<lparr>gt_exit_code := code, gt_state := Finished\<rparr>) (set_ctx t Gone s)"
  have "alive ?s" using assms by (simp add: alive_def set_ctx_def sched_simps list_all_update)
  then have "alive (run_finish_hooks (h_hooks H) t ?s)" by (rule alive_hooks)
  then show "alive (thread_finish (h_hooks H) t code (set_ctx t Gone s))"
    by (simp add: thread_finish_def alive_def sched_simps)
qed (use assms in \<open>simp_all add: alive_def thread_yield_def thread_sleep_def set_ctx_def
      sched_simps list_all_update\<close>)

lemma run_fiber_alive:
  assumes "run_fiber n f H t s = Switched s'" and "alive s"
    and "gs_current s = Some t" and "t < length (gs_threads s)"
  shows "alive s'"
  using assms
proof (induction n arbitrary: f s)
  case (Suc n)
  show ?case
  proof (cases f)
    case (FWork g)
    then show ?thesis using Suc.prems by (auto intro: Suc.IH)
  next
    case (FJoin h k)
    show ?thesis
    proof (cases "join h s")
      case (JoinRet b)
      with FJoin Suc.prems show ?thesis by (auto intro: Suc.IH)
    next
      case (JoinBlock s1)
      with FJoin Suc.prems show ?thesis
        by (auto simp: join_def set_ctx_def sched_simps split: if_splits option.splits
            intro!: alive_thread_op [of s t])
    qed (use FJoin Suc.prems in simp)
  next
    case (FBlock tok timeout k)
    then show ?thesis using Suc.prems
      by (auto simp: block_current_def thread_block_def set_ctx_def sched_simps
          intro!: alive_thread_op [of s t])
  next
    case (FSignal tok al k)
    obtain c s1 where s1: "signal tok al s = (c, s1)" by force
    with FSignal Suc.prems show ?thesis
      using current_signal [OF s1] alive_signal [OF _ s1] by (intro Suc.IH [of "k c" s1]) auto
  next
    case (FSpawn nm b r k)
    obtain h s1 where s1: "spawn_reserved (h_mmap H) nm (Entry b) r s = (h, s1)" by force
    with FSpawn Suc.prems show ?thesis
      using current_spawn [OF s1] alive_spawn [OF _ s1] by (intro Suc.IH [of "k h" s1]) auto
  qed (use Suc.prems in \<open>auto intro: alive_switching_ops\<close>)
qed simp

lemma alive_unblock_joins:
  "unblock_joins_from i n s = Some s' \<Longrightarrow> alive s \<Longrightarrow> i + n \<le> length (gs_threads s) \<Longrightarrow> alive s'"
proof (induction i n s rule: unblock_joins_from.induct)
  case (2 i n s)
  show ?case
  proof (cases "gt_state (gs_threads s ! i) = BlockedJoin")
    case False with 2 show ?thesis by (simp add: Let_def)
  next
    case True
    with "2.prems" obtain d where d: "join_done s (gs_threads s ! i) = Some d"
      by (auto simp: Let_def split: option.splits)
    have "gt_ctx (gs_threads s ! i) \<noteq> Gone"
      using "2.prems"(2,3) True by (fastforce simp: alive_def list_all_length)
    then have "alive (if d then upd_thread i (\<lambda>g. g\<lparr>gt_state := Ready\<rparr>) s else s)"
      using "2.prems"(2) by (simp add: alive_upd)
    with True d "2.prems" show ?thesis
      by (intro "2.IH"(2) [OF refl _ d]) (auto simp: Let_def sched_simps)
  qed
qed simp

lemma alive_pick_next:
  assumes "alive s" "pick_next s = Some (r, s')" shows "alive s'"
proof -
  from assms(2) obtain s1 where s1: "unblock_joins s = Some s1"
    by (auto simp: pick_next_def split: option.splits)
  with assms(1) have "alive s1"
    by (auto simp: unblock_joins_def dest: alive_unblock_joins)
  then have "alive (expire_timers s1)"
    by (auto simp: alive_def expire_timers_def list_all_iff wake_sleeper_def time_out_wait_def)
  moreover have "gs_threads s' = gs_threads (expire_timers s1)"
    using assms(2) s1 by (auto simp: pick_next_def Let_def split: option.splits)
  ultimately show ?thesis by (rule alive_threads)
qed

lemma pick_next_Ready:
  assumes "pick_next s = Some (Some t, s')"
  shows "t < length (gs_threads s') \<and> gt_state (gs_threads s' ! t) = Ready"
proof -
  from assms obtain s1 where s1: "unblock_joins s = Some s1"
    and scan: "rr_scan (gs_threads (expire_timers s1)) (unat (gs_rr_cursor (expire_timers s1))) 0
      (length (gs_threads (expire_timers s1))) = Some t"
    and thr: "gs_threads s' = gs_threads (expire_timers s1)"
    by (auto simp: pick_next_def Let_def split: option.splits)
  from rr_scan_Some [OF scan] thr show ?thesis
    by (metis add_0 less_nat_zero_code mod_less_divisor neq0_conv)
qed

lemma saved_pick_next: "pick_next s = Some (r, s') \<Longrightarrow> saved s' = saved s"
  using pick_next_frame [of s r s' gt_ctx] by (auto simp: saved_alt simp del: map_map)

lemma enter_thread_fields [sched_simps]:
  assumes "t < length (gs_threads s)"
  shows "gs_current (enter_thread t s) = Some t"
    "length (gs_threads (enter_thread t s)) = length (gs_threads s)"
    "saved (enter_thread t s) = saved s"
    "gt_ctx (gs_threads (enter_thread t s) ! t) = gt_ctx (gs_threads s ! t)"
    "gt_state (gs_threads (enter_thread t s) ! t) = gt_state (gs_threads s ! t)"
    "gs_tick (enter_thread t s) = gs_tick s"
  using assms by (simp_all add: enter_thread_def sched_simps saved_same)

lemma alive_enter_thread: "alive s \<Longrightarrow> t < length (gs_threads s) \<Longrightarrow> alive (enter_thread t s)"
  by (auto simp: enter_thread_def alive_def sched_simps list_all_length nth_list_update)

text \<open>What a dispatch runs: the body that the saved context stands for, in a state that differs from the
  given one in the thread's own state at most.\<close>

definition dispatched :: "nat \<Rightarrow> sched \<Rightarrow> fiber \<Rightarrow> sched \<Rightarrow> bool" where
  "dispatched t s f s1 \<longleftrightarrow> (\<forall>n H. dispatch n H t s = run_fiber n f H t s1) \<and>
     (Resume f = norm_ctx (gt_ctx (gs_threads s ! t)) \<or> smaller (Resume f) (norm_ctx (gt_ctx (gs_threads s ! t)))) \<and>
     (\<exists>u. s1 = upd_thread t u s \<and> (\<forall>g. gt_ctx (u g) = gt_ctx g \<and> gt_handle (u g) = gt_handle g \<and> gt_switches (u g) = gt_switches g))"

lemma dispatch_runs:
  assumes "gt_ctx (gs_threads s ! t) \<noteq> Gone" "t < length (gs_threads s)"
  obtains f s1 where "dispatched t s f s1"
proof -
  have same: "upd_thread t (\<lambda>g. g) s = s" using assms(2) by (simp add: upd_thread_def)
  show ?thesis
  proof (cases "gt_ctx (gs_threads s ! t)")
    case (Entry f)
    then show ?thesis by (intro that [of f "upd_thread t (\<lambda>g. g\<lparr>gt_started := True, gt_state := Running\<rparr>) s"])
      (auto simp: dispatched_def dispatch_def trampoline_def intro!: exI [of _ "\<lambda>g. g\<lparr>gt_started := True, gt_state := Running\<rparr>"])
  next
    case (Resume f)
    then show ?thesis using same by (intro that [of f s]) (auto simp: dispatched_def dispatch_def intro!: exI [of _ "\<lambda>g. g"])
  next
    case (ResumeWait k)
    then show ?thesis using same by (intro that [of "k (block_result t s)" s])
      (auto simp: dispatched_def dispatch_def intro!: smaller.intros exI [of _ "\<lambda>g. g"])
  qed (use assms in simp)
qed

lemma dispatched_state:
  assumes "dispatched t s f s1" "t < length (gs_threads s)"
  shows "saved s1 = saved s" "gs_current s1 = gs_current s" "length (gs_threads s1) = length (gs_threads s)" "gs_tick s1 = gs_tick s"
    "gt_ctx (gs_threads s ! t) \<noteq> Gone \<Longrightarrow> alive s \<Longrightarrow> alive s1"
proof -
  obtain u where u: "s1 = upd_thread t u s" "\<forall>g. gt_ctx (u g) = gt_ctx g" using assms(1) by (auto simp: dispatched_def)
  then show "saved s1 = saved s" "gs_current s1 = gs_current s" "length (gs_threads s1) = length (gs_threads s)" "gs_tick s1 = gs_tick s"
    using assms(2) by (simp_all add: sched_simps saved_same)
  show "gt_ctx (gs_threads s ! t) \<noteq> Gone \<Longrightarrow> alive s \<Longrightarrow> alive s1" unfolding u(1) by (rule alive_upd) (simp_all add: u(2))
qed

lemma ready_not_gone: "alive s \<Longrightarrow> t < length (gs_threads s) \<Longrightarrow> gt_state (gs_threads s ! t) = Ready \<Longrightarrow> gt_ctx (gs_threads s ! t) \<noteq> Gone"
  by (fastforce simp: alive_def list_all_length)

lemma dispatch_decreases:
  assumes "alive s" "list_all bounded (saved s)" "gs_current s = Some t" "t < length (gs_threads s)" "gt_state (gs_threads s ! t) = Ready"
  shows "dispatch n H t s = Switched s' \<Longrightarrow> (mset (saved s'), mset (saved s)) \<in> mult below \<and> alive s' \<and> list_all bounded (saved s')"
    "\<exists>n. dispatch n H t s \<noteq> OutOfFuel"
proof -
  have ng: "gt_ctx (gs_threads s ! t) \<noteq> Gone" by (rule ready_not_gone [OF assms(1,4,5)])
  obtain f s1 where d: "dispatched t s f s1" by (rule dispatch_runs [OF ng assms(4)])
  note st = dispatched_state [OF d assms(4)] and st5 = dispatched_state(5) [OF d assms(4) ng assms(1)]
  have t: "t < length (saved s)" "saved s ! t = norm_ctx (gt_ctx (gs_threads s ! t))" using assms(4) by (simp_all add: saved_def)
  have run: "dispatch n H t s = run_fiber n f H t s1" for n using d by (simp add: dispatched_def)
  have b: "bounded (saved s ! t)" using assms(2) t(1) by (simp add: list_all_length)
  have f: "Resume f = saved s ! t \<or> (Resume f, saved s ! t) \<in> below" using d b t(2) by (auto simp: dispatched_def intro: belowI)
  then have bf: "bounded (Resume f)" using b below_bounded by auto
  show "\<exists>n. dispatch n H t s \<noteq> OutOfFuel" unfolding run by (rule bounded_enough [OF bf refl])
  assume "dispatch n H t s = Switched s'"
  then have r: "run_fiber n f H t s1 = Switched s'" by (simp add: run)
  have "progress t (Resume f) (saved s) (saved s')"
    using run_fiber_progress [OF r bf] st assms(3,4) by simp
  then have "progress t (saved s ! t) (saved s) (saved s')" using f progress_child by auto
  from mult_progress [OF this t(1)] assms(2) show "(mset (saved s'), mset (saved s)) \<in> mult below \<and> alive s' \<and> list_all bounded (saved s')"
    using run_fiber_alive [OF r st5] st assms(3,4) by simp
qed

text \<open>If no thread can run, every finite deadline lies in the future.\<close>

lemma pick_next_idle_future:
  assumes "pick_next s = Some (None, s')" and "g \<in> set (gs_threads s')" and "timed g"
  shows "gs_tick s' < gt_wake_tick g"
proof -
  from assms(1) obtain s1 where s': "s' = expire_timers s1"
    by (auto simp: pick_next_def Let_def split: option.splits)
  then show ?thesis using assms(2,3)
    by (auto simp: expire_timers_def timed_def wake_sleeper_def time_out_wait_def split: if_splits)
qed

definition loop_order :: "(sched \<times> sched) set" where
  "loop_order = inv_image (mult below <*lex*> less_than)
     (\<lambda>s. (mset (saved s), 2 ^ 64 - unat (gs_tick s)))"

lemma wf_loop_order: "wf loop_order"
  unfolding loop_order_def by (intro wf_inv_image wf_lex_prod wf_mult wf_below wf_less_than)

lemma loop_step_decreases:
  assumes "alive s" "list_all bounded (saved s)"
  shows "loop_step n H s = Some (Continue s') \<Longrightarrow> (s', s) \<in> loop_order \<and> alive s' \<and> list_all bounded (saved s')"
    "\<exists>n. loop_step n H s \<noteq> None"
proof -
  have picked: "alive s1" "saved s1 = saved s" "gs_tick s1 = gs_tick s" if "pick_next s = Some (r, s1)" for r s1
    using alive_pick_next [OF assms(1) that] saved_pick_next [OF that] pick_next_frame [OF that, of gt_ctx] by simp_all
  have entered: "alive (enter_thread t s1)" "list_all bounded (saved (enter_thread t s1))" "gs_current (enter_thread t s1) = Some t"
      "t < length (gs_threads (enter_thread t s1))" "gt_state (gs_threads (enter_thread t s1) ! t) = Ready"
      "saved (enter_thread t s1) = saved s"
    if "pick_next s = Some (Some t, s1)" for t s1
    using pick_next_Ready [OF that] picked [OF that] assms(2) by (simp_all add: sched_simps alive_enter_thread)
  show "\<exists>n. loop_step n H s \<noteq> None"
  proof (cases "\<exists>t s1. pick_next s = Some (Some t, s1)")
    case True
    then obtain t s1 where pn: "pick_next s = Some (Some t, s1)" by blast
    obtain n where "dispatch n H t (enter_thread t s1) \<noteq> OutOfFuel" using dispatch_decreases(2) [OF entered(1-5) [OF pn]] by blast
    then show ?thesis using pn by (intro exI [of _ n]) (auto simp: loop_step_def Let_def split: ran.split)
  next
    case False
    then show ?thesis by (intro exI [of _ 0]) (auto simp: loop_step_def split: option.split prod.split)
  qed
  assume c: "loop_step n H s = Some (Continue s')"
  then obtain r s1 where pn: "pick_next s = Some (r, s1)"
    by (auto simp: loop_step_def split: if_splits option.splits)
  show "(s', s) \<in> loop_order \<and> alive s' \<and> list_all bounded (saved s')"
  proof (cases r)
    case (Some t)
    note e = entered [OF pn [unfolded Some]]
    have "dispatch n H t (enter_thread t s1) = Switched s'"
      using c pn Some by (auto simp: loop_step_def Let_def split: if_splits ran.splits)
    from dispatch_decreases(1) [OF e(1-5) this] show ?thesis using e(6) by (simp add: loop_order_def)
  next
    case None
    with c pn have ex: "list_ex timed (gs_threads s1)"
      and s': "s' = s1\<lparr>gs_tick := gs_tick s1 + 1\<rparr>"
      by (auto simp: loop_step_def split: if_splits option.splits)
    from ex obtain g where g: "g \<in> set (gs_threads s1)" "timed g" by (auto simp: list_ex_iff)
    then have "gs_tick s1 < gt_wake_tick g"
      using pick_next_idle_future [of s s1] pn None by blast
    then have "unat (gs_tick s1 + 1) = unat (gs_tick s1) + 1"
      by (rule unat_inc_less)
    moreover have "unat (gs_tick s1 + 1) < 2 ^ 64"
      using unat_lt2p [of "gs_tick s1 + 1"] by simp
    ultimately show ?thesis
      using s' picked [OF pn] assms(2) by (auto simp: loop_order_def sched_simps alive_def)
  qed
qed

lemma run_ends:
  assumes "alive s" "list_all bounded (saved s)" shows "\<exists>n r. run_until_complete n H s = Some r"
  using wf_loop_order assms
proof (induction s rule: wf_induct_rule)
  case (less s)
  obtain n x where n: "loop_step n H s = Some x" using loop_step_decreases(2) [OF less.prems, of H] by auto
  show ?case
  proof (cases x)
    case (Continue s')
    with loop_step_decreases(1) [OF less.prems] n obtain k r where k: "run_until_complete k H s' = Some r"
      using less.IH by blast
    have "loop_step (max n k) H s = Some (Continue s')" using loop_step_more [of n H s "max n k"] n Continue by simp
    with run_more [OF k, of "max n k"] show ?thesis by (intro exI [of _ "Suc (max n k)"]) simp
  qed (use n in \<open>auto intro: exI [of _ "Suc n"]\<close>)
qed

end
