(* ===== verification/Sched_Inv.thy ===== *)
theory Sched_Inv
  imports Sched_Run
begin

text \<open>
  Invariants of the scheduler as a whole. The locale \<open>loop_invariant\<close> is the contract between
  a property of scheduler states and the dispatch loop: \<open>at_rest\<close> holds whenever the loop has
  control, \<open>inside t\<close> while the body of thread \<open>t\<close> runs. Its laws speak about single scheduler
  operations; its lemmas lift them to fiber bodies, to dispatches and to whole runs. It is
  interpreted below for each invariant of the model.
\<close>

section \<open>Switching back to the loop\<close>

definition in_body :: "nat \<Rightarrow> sched \<Rightarrow> bool" where
  "in_body t s \<longleftrightarrow> gs_current s = Some t \<and> t < length (gs_threads s)"

text \<open>Every way a body gives control back updates its own thread and clears \<open>current_\<close>.\<close>

lemma upd_upd_thread:
  "t < length (gs_threads s) \<Longrightarrow> upd_thread t f (upd_thread t g s) = upd_thread t (f \<circ> g) s"
  by (simp add: upd_thread_def)

lemma upd_switch:
  "upd_thread t f (switch_to_scheduler s) = switch_to_scheduler (upd_thread t f s)"
  by (simp add: upd_thread_def switch_to_scheduler_def)

lemma join_block_state:
  "join h s = JoinBlock s' \<Longrightarrow> gs_current s = Some t \<Longrightarrow>
     s' = switch_to_scheduler (upd_thread t (\<lambda>g. g\<lparr>gt_join_target := h, gt_state := BlockedJoin\<rparr>) s)"
  by (auto simp: join_def split: if_splits option.splits)

lemma in_body_signal: "in_body t s \<Longrightarrow> in_body t (snd (signal tok al s))"
  using current_signal [of tok al s] by (metis in_body_def prod.collapse)

lemma in_body_upd [simp]: "in_body t (upd_thread i f s) = in_body t s"
  by (simp add: in_body_def sched_simps)

lemma length_signal_list [simp]: "length (snd (signal_list tok al gs)) = length gs"
  by (induction gs) (auto split: prod.splits)

lemma signal_list_nth:
  "i < length gs \<Longrightarrow> snd (signal_list tok al gs) ! i = gs ! i \<or> snd (signal_list tok al gs) ! i = wake (gs ! i)"
proof (induction gs arbitrary: i)
  case (Cons g gs)
  show ?case
  proof (cases i)
    case (Suc j)
    with Cons have "snd (signal_list tok al gs) ! j = gs ! j \<or> snd (signal_list tok al gs) ! j = wake (gs ! j)"
      by simp
    with Suc show ?thesis by (cases al) (simp_all add: split_beta Let_def)
  qed (simp add: split_beta Let_def)
qed simp

lemma threads_signal: "gs_threads (snd (signal tok al s)) = snd (signal_list tok al (gs_threads s))"
  by (simp add: signal_def split: prod.splits)

lemma signal_keeps_state:
  "t < length (gs_threads s) \<Longrightarrow> gt_state (gs_threads s ! t) \<noteq> BlockedWait \<Longrightarrow>
     gt_state (gs_threads (snd (signal tok al s)) ! t) = gt_state (gs_threads s ! t)"
proof -
  have "t < length gs \<Longrightarrow> gt_state (gs ! t) \<noteq> BlockedWait \<Longrightarrow>
      snd (signal_list tok al gs) ! t = gs ! t" for t and gs :: "'a guest_thread list"
    by (induction gs arbitrary: t)
      (auto simp: waits_on_def split_beta Let_def nth_Cons split: nat.splits)
  then show "t < length (gs_threads s) \<Longrightarrow> gt_state (gs_threads s ! t) \<noteq> BlockedWait \<Longrightarrow> ?thesis"
    by (simp add: threads_signal)
qed

lemma signal_in_body_state:
  "in_body t s \<Longrightarrow> gt_state (gs_threads s ! t) = Finished \<Longrightarrow>
     gt_state (gs_threads (snd (signal tok al s)) ! t) = Finished"
  by (simp add: in_body_def signal_keeps_state)

section \<open>From operations to runs\<close>

locale loop_invariant =
  fixes H :: host
    and at_rest :: "sched \<Rightarrow> bool"
    and inside :: "nat \<Rightarrow> sched \<Rightarrow> bool"
  assumes inside_upd: "inside t s \<Longrightarrow> in_body t s \<Longrightarrow>
      gt_handle (u (gs_threads s ! t)) = gt_handle (gs_threads s ! t) \<Longrightarrow>
      gt_switches (u (gs_threads s ! t)) = gt_switches (gs_threads s ! t) \<Longrightarrow> inside t (upd_thread t u s)"
    and rest_switch: "inside t s \<Longrightarrow> in_body t s \<Longrightarrow> gt_state (gs_threads s ! t) \<noteq> Running \<Longrightarrow>
      at_rest (switch_to_scheduler s)"
    and inside_signal: "inside t s \<Longrightarrow> inside t (snd (signal tok al s))"
    and inside_spawn: "inside t s \<Longrightarrow> in_body t s \<Longrightarrow>
      inside t (snd (spawn_reserved (h_mmap H) nm (Entry bd) r s))"
    and rest_pick: "at_rest s \<Longrightarrow> pick_next s = Some (pk, s') \<Longrightarrow> at_rest s'"
    and rest_enter: "at_rest s \<Longrightarrow> t < length (gs_threads s) \<Longrightarrow> gt_state (gs_threads s ! t) = Ready \<Longrightarrow>
      inside t (enter_thread t s)"
    and rest_tick: "at_rest s \<Longrightarrow> at_rest (s\<lparr>gs_tick := n\<rparr>)"
begin

lemma upd_switch_rest:
  assumes "inside t s" "in_body t s"
    "gt_handle (u (gs_threads s ! t)) = gt_handle (gs_threads s ! t)"
    "gt_switches (u (gs_threads s ! t)) = gt_switches (gs_threads s ! t)"
    "gt_state (u (gs_threads s ! t)) \<noteq> Running"
  shows "at_rest (switch_to_scheduler (upd_thread t u s))"
  using assms inside_upd [of t s u]
  by (intro rest_switch [of t]) (simp_all add: in_body_def sched_simps)

lemma switching_ops_rest:
  assumes "inside t s" "in_body t s"
  shows "at_rest (thread_yield t (set_ctx t (Resume f) s))"
    "at_rest (thread_sleep t n (set_ctx t (Resume f) s))"
    "at_rest (set_ctx t (ResumeWait k) (thread_block t tok timeout s))"
    "join h s = JoinBlock s' \<Longrightarrow> at_rest (set_ctx t (Resume f) s')"
  using assms upd_switch_rest [OF assms] join_block_state [of h s s' t]
  by (simp_all add: in_body_def thread_yield_def thread_sleep_def thread_block_def
      upd_switch set_ctx_def upd_upd_thread)

lemma finish_rest:
  assumes "inside t s" "in_body t s"
  shows "at_rest (thread_finish (h_hooks H) t code (set_ctx t Gone s))"
proof -
  let ?u = "(\<lambda>g. g\<lparr>gt_exit_code := code, gt_state := Finished\<rparr>) \<circ> (\<lambda>g. g\<lparr>gt_ctx := Gone\<rparr>)"
  let ?P = "\<lambda>s. inside t s \<and> in_body t s \<and> gt_state (gs_threads s ! t) = Finished"
  have "?P (upd_thread t ?u s)"
    using assms inside_upd [OF assms, of ?u] by (simp add: in_body_def sched_simps)
  then have "?P (run_finish_hooks (h_hooks H) t (upd_thread t ?u s))"
    by (rule run_finish_hooks_rule [rotated])
      (simp add: inside_signal in_body_signal signal_in_body_state)
  then have "at_rest (switch_to_scheduler (run_finish_hooks (h_hooks H) t (upd_thread t ?u s)))"
    by (intro rest_switch [of t]) simp_all
  then show ?thesis using assms(2)
    by (simp add: thread_finish_def set_ctx_def upd_upd_thread in_body_def)
qed

lemma run_fiber_rest:
  "run_fiber n f H t s = Switched s' \<Longrightarrow> inside t s \<Longrightarrow> in_body t s \<Longrightarrow> at_rest s'"
proof (induction n arbitrary: f s)
  case (Suc n)
  show ?case
  proof (cases f)
    case (FJoin h k)
    with Suc.prems show ?thesis by (auto intro: switching_ops_rest(4) Suc.IH split: join_result.splits)
  next
    case (FBlock tok timeout k)
    with Suc.prems show ?thesis using switching_ops_rest(3) by (auto simp: block_current_def in_body_def)
  next
    case (FSignal tok al k)
    obtain c s1 where s1: "signal tok al s = (c, s1)" by force
    with FSignal Suc.prems show ?thesis
      using inside_signal [of t s tok al] current_signal [OF s1] by (intro Suc.IH [of "k c" s1]) (auto simp: in_body_def)
  next
    case (FSpawn nm b r k)
    obtain h s1 where s1: "spawn_reserved (h_mmap H) nm (Entry b) r s = (h, s1)" by force
    with FSpawn Suc.prems show ?thesis
      using inside_spawn [of t s nm b r] current_spawn [OF s1] by (intro Suc.IH [of "k h" s1]) (auto simp: in_body_def)
  qed (use Suc.prems in \<open>auto intro: finish_rest switching_ops_rest Suc.IH\<close>)
qed simp

lemma dispatch_rest:
  assumes "dispatch n H t s = Switched s'" "inside t s" "in_body t s" "gt_state (gs_threads s ! t) = Ready"
  shows "at_rest s'"
proof (cases "gt_ctx (gs_threads s ! t) = Gone")
  case True
  with assms show ?thesis using rest_switch by (auto simp: dispatch_def)
next
  case False
  have t: "t < length (gs_threads s)" using assms(3) by (simp add: in_body_def)
  obtain f s1 where d: "dispatched t s f s1" by (rule dispatch_runs [OF False t])
  then obtain u where "s1 = upd_thread t u s" "\<forall>g. gt_handle (u g) = gt_handle g \<and> gt_switches (u g) = gt_switches g"
    "run_fiber n f H t s1 = Switched s'" using assms(1) by (auto simp: dispatched_def)
  then show ?thesis using run_fiber_rest inside_upd [OF assms(2,3), of u] assms(3) by simp
qed

lemma loop_step_rest:
  assumes "loop_step n H s = Some (Continue s')" "at_rest s" shows "at_rest s'"
proof -
  from assms(1) obtain r s1 where pn: "pick_next s = Some (r, s1)"
    by (auto simp: loop_step_def split: if_splits option.splits)
  note rest = rest_pick [OF assms(2) pn]
  show ?thesis
  proof (cases r)
    case None
    with assms(1) pn rest show ?thesis
      by (auto simp: loop_step_def split: if_splits intro: rest_tick)
  next
    case (Some t)
    with pn have t: "t < length (gs_threads s1)" "gt_state (gs_threads s1 ! t) = Ready"
      using pick_next_Ready by auto
    have "dispatch n H t (enter_thread t s1) = Switched s'"
      using assms(1) pn Some by (auto simp: loop_step_def Let_def split: if_splits ran.splits)
    then show ?thesis
      using rest_enter [OF rest t] by (rule dispatch_rest) (simp_all add: sched_simps t in_body_def)
  qed
qed

lemma run_rest:
  assumes "run_until_complete n H s = Some r" "at_rest s"
  shows "\<exists>m s0. at_rest s0 \<and> loop_step m H s0 = Some r \<and> (\<forall>s'. r \<noteq> Continue s')"
  using assms
proof (induction n arbitrary: s)
  case (Suc n)
  obtain x where x: "loop_step n H s = Some x" using Suc.prems(1) by (auto split: option.splits)
  show ?case
  proof (cases x)
    case (Continue s')
    with Suc x loop_step_rest [of n s s'] show ?thesis by auto
  qed (use Suc.prems x in auto)
qed simp

end

section \<open>Outside a dispatch no thread is running\<close>

definition idle_but :: "nat option \<Rightarrow> sched \<Rightarrow> bool" where
  "idle_but t s \<longleftrightarrow> (\<forall>i<length (gs_threads s). t \<noteq> Some i \<longrightarrow> gt_state (gs_threads s ! i) \<noteq> Running)"

lemma unblock_joins_from_states:
  "unblock_joins_from j n s = Some s1 \<Longrightarrow> i < length (gs_threads s) \<Longrightarrow>
    gt_state (gs_threads s1 ! i) = gt_state (gs_threads s ! i) \<or> gt_state (gs_threads s1 ! i) = Ready"
proof (induction j n s rule: unblock_joins_from.induct)
  case (2 j n s)
  show ?case
  proof (cases "i = j")
    case True
    with 2 show ?thesis by (auto simp: Let_def sched_simps split: if_splits option.splits)
  next
    case False
    with 2 show ?thesis by (fastforce simp: Let_def sched_simps split: if_splits option.splits)
  qed
qed simp

lemma pick_next_states:
  assumes "pick_next s = Some (r, s')" "i < length (gs_threads s)"
  shows "gt_state (gs_threads s' ! i) = gt_state (gs_threads s ! i) \<or> gt_state (gs_threads s' ! i) = Ready"
proof -
  from assms(1) obtain s1 where s1: "unblock_joins s = Some s1"
    "gs_threads s' = gs_threads (expire_timers s1)"
    by (auto simp: pick_next_def Let_def split: option.splits)
  moreover have "gt_state (gs_threads s1 ! i) = gt_state (gs_threads s ! i) \<or>
      gt_state (gs_threads s1 ! i) = Ready" "i < length (gs_threads s1)"
    using unblock_joins_from_states [OF s1(1) [unfolded unblock_joins_def] assms(2)]
      unblock_joins_length [OF s1(1)] assms(2) by simp_all
  ultimately show ?thesis
    by (auto simp: expire_timers_def wake_sleeper_def time_out_wait_def)
qed

lemma idle_signal: "idle_but t s \<Longrightarrow> idle_but t (snd (signal tok al s))"
  unfolding idle_but_def threads_signal length_signal_list
  by (metis signal_list_nth tstate.distinct(1) wake_fields(1))

lemma idle_spawn: "idle_but t s \<Longrightarrow> idle_but t (snd (spawn_reserved mm nm c r s))"
  by (auto simp: idle_but_def spawn_reserved_def Let_def nth_append less_Suc_eq split: option.splits)

lemma idle_pick: "idle_but None s \<Longrightarrow> pick_next s = Some (r, s') \<Longrightarrow> idle_but None s'"
  using pick_next_length [of s r s'] pick_next_states [of s r s'] unfolding idle_but_def
  by (metis tstate.distinct(1))

interpretation idle: loop_invariant H "idle_but None" "\<lambda>t. idle_but (Some t)"
  for H
proof (unfold_locales, goal_cases)
  case (2 t s)
  then show ?case by (auto simp: idle_but_def sched_simps)
next
  case (3 t s tok al) then show ?case by (rule idle_signal)
next
  case (4 t s nm bd r) then show ?case by (intro idle_spawn)
next
  case (5 s pk s') then show ?case by (rule idle_pick)
qed (auto simp: idle_but_def enter_thread_def sched_simps nth_list_update split: if_splits)

section \<open>Switch accounting\<close>

definition switches_balanced :: "sched \<Rightarrow> bool" where
  "switches_balanced s \<longleftrightarrow> gs_switches_total s = sum_list (map gt_switches (gs_threads s))"

lemma sum_list_update_word:
  fixes f :: "'b \<Rightarrow> 'a::len word"
  assumes "i < length xs"
  shows "sum_list (map f (xs[i := x])) = sum_list (map f xs) + f x - f (xs ! i)"
  using assms by (induction xs arbitrary: i) (auto simp: algebra_simps split: nat.splits)

lemma switches_balanced_frame:
  assumes "switches_balanced s" "map gt_switches (gs_threads s') = map gt_switches (gs_threads s)"
    "gs_switches_total s' = gs_switches_total s"
  shows "switches_balanced s'"
  using assms by (simp add: switches_balanced_def)

lemma switches_balanced_spawn:
  "switches_balanced s \<Longrightarrow> switches_balanced (snd (spawn_reserved mm nm c r s))"
  by (auto simp: switches_balanced_def spawn_reserved_def Let_def split: option.splits)

lemma switches_balanced_enter:
  "switches_balanced s \<Longrightarrow> t < length (gs_threads s) \<Longrightarrow> switches_balanced (enter_thread t s)"
  by (simp add: switches_balanced_def enter_thread_def sched_simps sum_list_update_word)

lemma switches_total_signal: "gs_switches_total (snd (signal tok al s)) = gs_switches_total s"
  by (simp add: signal_def split: prod.splits)

interpretation counted: loop_invariant H switches_balanced "\<lambda>_. switches_balanced"
  for H
proof (unfold_locales, goal_cases)
  case (1 t s u)
  then show ?case by (intro switches_balanced_frame [OF 1(1)]) (simp_all add: sched_simps map_update_same)
next
  case (2 t s) then show ?case by (auto simp: sched_simps elim!: switches_balanced_frame)
next
  case (3 t s tok al) then show ?case
    by (auto simp: threads_signal map_signal_list switches_total_signal elim!: switches_balanced_frame)
next
  case (4 t s nm bd r) then show ?case by (intro switches_balanced_spawn)
next
  case (5 s pk s')
  then show ?case using pick_next_frame [OF 5(2) stable_fields(3)] by (auto elim: switches_balanced_frame)
next
  case (6 s t) then show ?case by (intro switches_balanced_enter)
qed (auto simp: switches_balanced_def)

section \<open>Valid handles\<close>

text \<open>While every stack mapping succeeds and the handles have not run out, handles stay positions in
  \<open>threads_\<close>, also when bodies spawn. A stretch of fuel \<open>n\<close> spawns at most \<open>n\<close> threads.\<close>

definition grown :: "nat \<Rightarrow> sched \<Rightarrow> sched \<Rightarrow> bool" where
  "grown n s s' \<longleftrightarrow> sched_wf s' \<and> length (gs_threads s') \<le> length (gs_threads s) + n"

definition safe_ran :: "nat \<Rightarrow> sched \<Rightarrow> ran \<Rightarrow> bool" where
  "safe_ran n s r = (case r of OutOfFuel \<Rightarrow> True | WildPointer \<Rightarrow> False | Switched s' \<Rightarrow> grown n s s')"

lemma wf_thread_op:
  assumes "sched_wf s" "gs_threads s' = (gs_threads s)[t := g]" "t < length (gs_threads s) \<longrightarrow> gt_handle g = gt_handle (gs_threads s ! t)"
    "gs_next_handle s' = gs_next_handle s" "gs_rr_cursor s' = gs_rr_cursor s"
  shows "grown n s s'"
proof -
  have "map gt_handle (gs_threads s') = map gt_handle (gs_threads s)"
    using assms(2,3) by (cases "t < length (gs_threads s)") (simp_all add: map_update list_update_same_conv list_update_beyond)
  then show ?thesis using sched_wf_frame [OF assms(1) _ assms(4,5)] assms(2) by (simp add: grown_def)
qed

lemma switching_ops_grown:
  assumes "sched_wf s" "in_body t s"
  shows "grown n s (thread_yield t (set_ctx t c s))" "grown n s (thread_sleep t ticks (set_ctx t c s))"
    "grown n s (set_ctx t c (thread_block t tok timeout s))" "join h s = JoinBlock s' \<Longrightarrow> grown n s (set_ctx t c s')"
    "grown n s (thread_finish (h_hooks H) t code (set_ctx t c s))"
proof -
  have t: "gs_current s = Some t" "t < length (gs_threads s)" using assms(2) by (simp_all add: in_body_def)
  show "grown n s (thread_yield t (set_ctx t c s))" "grown n s (thread_sleep t ticks (set_ctx t c s))"
    "grown n s (set_ctx t c (thread_block t tok timeout s))"
    using t by (auto simp: thread_yield_def thread_sleep_def thread_block_def set_ctx_def sched_simps intro!: wf_thread_op [OF assms(1), where t = t])
  show "grown n s (set_ctx t c s')" if "join h s = JoinBlock s'"
    using t join_block_state [OF that t(1)] by (auto simp: set_ctx_def sched_simps intro!: wf_thread_op [OF assms(1), where t = t])
  let ?s = "upd_thread t (\<lambda>g. g\<lparr>gt_exit_code := code, gt_state := Finished\<rparr>) (set_ctx t c s)"
  have "grown n s ?s" using t by (auto simp: set_ctx_def sched_simps intro!: wf_thread_op [OF assms(1), where t = t])
  then have "grown n s (run_finish_hooks (h_hooks H) t ?s)"
    by (rule run_finish_hooks_rule [rotated])
      (auto simp: grown_def threads_signal, metis prod.collapse sched_wf_signal)
  then show "grown n s (thread_finish (h_hooks H) t code (set_ctx t c s))"
    by (simp add: thread_finish_def grown_def sched_wf_switch sched_simps)
qed

lemma safe_ran_step: "safe_ran n s1 r \<Longrightarrow> length (gs_threads s1) \<le> Suc (length (gs_threads s)) \<Longrightarrow> safe_ran (Suc n) s r"
  by (auto simp: safe_ran_def grown_def split: ran.splits)

lemma run_fiber_safe:
  assumes "\<forall>h. h_mmap H h \<noteq> None"
  shows "sched_wf s \<Longrightarrow> in_body t s \<Longrightarrow> Suc (length (gs_threads s)) + n < 2 ^ 64 \<Longrightarrow> safe_ran n s (run_fiber n f H t s)"
proof (induction n arbitrary: f s)
  case (Suc n)
  note ops = switching_ops_grown [OF Suc.prems(1,2)]
  have same: "safe_ran (Suc n) s (run_fiber n g H t s)" for g
    by (rule safe_ran_step [OF Suc.IH]) (use Suc.prems in auto)
  show ?case
  proof (cases f)
    case (FJoin h k)
    then show ?thesis using join_defined [OF Suc.prems(1), of h] same ops(4) by (auto simp: safe_ran_def split: join_result.split)
  next
    case (FBlock tok timeout k)
    then show ?thesis using Suc.prems(2) ops(3) by (auto simp: block_current_def in_body_def safe_ran_def)
  next
    case (FSignal tok al k)
    obtain c s1 where s1: "signal tok al s = (c, s1)" by force
    have "safe_ran (Suc n) s (run_fiber n (k c) H t s1)"
      by (rule safe_ran_step [OF Suc.IH]) (use Suc.prems sched_wf_signal [OF _ s1] current_signal [OF s1] in \<open>auto simp: in_body_def\<close>)
    then show ?thesis using FSignal s1 by simp
  next
    case (FSpawn nm b r k)
    obtain h s1 where s1: "spawn_reserved (h_mmap H) nm (Entry b) r s = (h, s1)" by force
    have wf: "sched_wf s1" using sched_wf_spawn [OF Suc.prems(1) s1] assms Suc.prems(3) by simp
    have "length (gs_threads s1) \<le> Suc (length (gs_threads s))"
      using s1 by (auto simp: spawn_reserved_def Let_def split: if_splits option.splits)
    then have "safe_ran (Suc n) s (run_fiber n (k h) H t s1)"
      by (intro safe_ran_step [OF Suc.IH]) (use Suc.prems wf current_spawn [OF s1] in \<open>auto simp: in_body_def\<close>)
    then show ?thesis using FSpawn s1 by simp
  qed (use ops same in \<open>auto simp: safe_ran_def\<close>)
qed (simp add: safe_ran_def)

lemma dispatch_safe:
  assumes "\<forall>h. h_mmap H h \<noteq> None" "sched_wf s" "in_body t s" "Suc (length (gs_threads s)) + n < 2 ^ 64"
  shows "safe_ran n s (dispatch n H t s)"
proof (cases "gt_ctx (gs_threads s ! t) = Gone")
  case True
  then show ?thesis using sched_wf_switch [OF assms(2)] by (simp add: dispatch_def safe_ran_def grown_def sched_simps)
next
  case False
  have t: "t < length (gs_threads s)" using assms(3) by (simp add: in_body_def)
  obtain f s1 where d: "dispatched t s f s1" by (rule dispatch_runs [OF False t])
  then obtain u where u: "s1 = upd_thread t u s" "\<forall>g. gt_handle (u g) = gt_handle g" "dispatch n H t s = run_fiber n f H t s1"
    by (auto simp: dispatched_def)
  have "sched_wf s1" unfolding u(1) by (rule sched_wf_upd [OF assms(2)]) (simp add: u(2))
  from run_fiber_safe [OF assms(1) this, of t n f] show ?thesis
    using assms(3,4) u(1,3) by (simp add: sched_simps safe_ran_def grown_def split: ran.splits)
qed

lemma loop_step_safe:
  assumes "\<forall>h. h_mmap H h \<noteq> None" "sched_wf s" "Suc (length (gs_threads s)) + n < 2 ^ 64"
  shows "loop_step n H s \<noteq> Some Wild" "loop_step n H s = Some (Continue s') \<Longrightarrow> grown n s s'"
proof -
  obtain r s1 where pn: "pick_next s = Some (r, s1)" using pick_next_defined [OF assms(2)] by fastforce
  have wf: "sched_wf s1" "length (gs_threads s1) = length (gs_threads s)" using sched_wf_pick_next [OF assms(2) pn] pick_next_length [OF pn] .
  have d: "safe_ran n s (dispatch n H t (enter_thread t s1))" if "r = Some t" for t
  proof -
    have "t < length (gs_threads s1)" using pick_next_Ready pn that by blast
    moreover from this have "sched_wf (enter_thread t s1)"
      by (auto simp: enter_thread_def sched_simps intro!: sched_wf_upd sched_wf_frame [OF wf(1)])
    ultimately have "safe_ran n (enter_thread t s1) (dispatch n H t (enter_thread t s1))"
      using assms(3) wf(2) by (intro dispatch_safe [OF assms(1)]) (simp_all add: in_body_def sched_simps)
    then show ?thesis using \<open>t < length (gs_threads s1)\<close> wf(2) by (simp add: safe_ran_def grown_def sched_simps split: ran.splits)
  qed
  show "loop_step n H s \<noteq> Some Wild"
    using pn d by (auto simp: loop_step_def Let_def safe_ran_def split: if_splits option.splits ran.splits)
  have "sched_wf (s1\<lparr>gs_tick := k\<rparr>)" for k by (rule sched_wf_frame [OF wf(1)]) simp_all
  then show "grown n s s'" if "loop_step n H s = Some (Continue s')"
    using that pn d wf(2) by (auto simp: loop_step_def Let_def safe_ran_def grown_def split: if_splits option.splits ran.splits)
qed

end
