(* ===== verification/Sched_Props.thy ===== *)
theory Sched_Props
  imports Sched_Inv
begin

text \<open>
  What the scheduler promises: the loop ends when the bodies end, its result tells the truth, it never dereferences
  a wild thread pointer while handles are positions, it picks threads fairly, wakes exactly the
  waiters it should, and counts its switches. The witnesses run small programs.
\<close>

section \<open>Reference descriptions\<close>

text \<open>The waiters on a token, in thread order.\<close>

definition waiters :: "u64 \<Rightarrow> 'c guest_scheduler \<Rightarrow> nat list" where
  "waiters token s = filter (\<lambda>i. waits_on token (gs_threads s ! i)) [0..<length (gs_threads s)]"

text \<open>How many threads the round-robin scan looks at before thread \<open>j\<close>.\<close>

definition rr_distance :: "'c guest_scheduler \<Rightarrow> nat \<Rightarrow> nat" where
  "rr_distance s j = (j + length (gs_threads s) - unat (gs_rr_cursor s)) mod length (gs_threads s)"

definition demo_host :: host where
  "demo_host = \<lparr>h_mmap = (\<lambda>_. Some 0x1000), h_swap = (\<lambda>_. True), h_hooks = (\<lambda>_ _ _. [(7, True)])\<rparr>"

definition demo_sched :: "fiber list \<Rightarrow> sched" where
  "demo_sched fs = fold (\<lambda>f s. snd (spawn (\<lambda>_. Some 0x1000) ''t'' (Entry f) s)) fs GuestScheduler"

section \<open>Joins that stay blocked\<close>

lemma join_done_mono:
  assumes "join_done s g = Some d" "gt_state (gs_threads s ! i) = BlockedJoin"
  shows "join_done (upd_thread i (\<lambda>g. g\<lparr>gt_state := Ready\<rparr>) s) g = Some d"
  using assms by (cases "i = unat (gt_join_target g - 1)")
    (auto simp: join_done_def find_thread_def deref_def sched_simps split: if_splits)

lemma unblock_joins_from_keeps:
  "unblock_joins_from i n s = Some s' \<Longrightarrow>
     (j < i \<longrightarrow> gs_threads s' ! j = gs_threads s ! j) \<and> (join_done s g = Some d \<longrightarrow> join_done s' g = Some d)"
proof (induction i n s rule: unblock_joins_from.induct)
  case (2 i n s)
  show ?case
  proof (cases "gt_state (gs_threads s ! i) = BlockedJoin")
    case False with 2 show ?thesis by (auto simp: Let_def)
  next
    case True
    with "2.prems" obtain e where e: "join_done s (gs_threads s ! i) = Some e"
      by (auto simp: Let_def split: option.splits)
    with True "2.prems" "2.IH"(2) [OF refl _ e] show ?thesis
      using join_done_mono [OF _ True, of g d] by (cases e) (auto simp: Let_def sched_simps)
  qed
qed simp

lemma unblock_joins_from_blocked:
  assumes "unblock_joins_from i n s = Some s'" "i \<le> j" "j < i + n"
    "gt_state (gs_threads s' ! j) = BlockedJoin" "i + n \<le> length (gs_threads s)"
  shows "join_done s' (gs_threads s' ! j) = Some False"
  using assms
proof (induction i n s rule: unblock_joins_from.induct)
  case (2 i n s)
  let ?g = "gs_threads s ! i"
  show ?case
  proof (cases "gt_state ?g = BlockedJoin")
    case False
    show ?thesis
    proof (cases "j = i")
      case True
      have "gs_threads s' ! i = ?g"
        using unblock_joins_from_keeps [of "Suc i" n s s' i] 2(3) False by (auto simp: Let_def)
      with False True 2 show ?thesis by simp
    next
      case j: False
      with False 2 show ?thesis by (auto simp: Let_def)
    qed
  next
    case True
    with "2.prems" obtain d where d: "join_done s ?g = Some d"
      and rec: "unblock_joins_from (Suc i) n
        (if d then upd_thread i (\<lambda>g. g\<lparr>gt_state := Ready\<rparr>) s else s) = Some s'"
      by (auto simp: Let_def split: option.splits)
    show ?thesis
    proof (cases "j = i")
      case ji: True
      have g: "gs_threads s' ! i = gs_threads (if d then upd_thread i (\<lambda>g. g\<lparr>gt_state := Ready\<rparr>) s else s) ! i"
        using unblock_joins_from_keeps [OF rec, of i] by simp
      with ji "2.prems" have "\<not> d" by (auto simp: sched_simps)
      with g rec d ji show ?thesis
        using unblock_joins_from_keeps [of "Suc i" n s s' i ?g False] by auto
    next
      case ji: False
      with "2.prems" rec True d show ?thesis
        using "2.IH"(2) [OF refl _ d] by (auto simp: sched_simps)
    qed
  qed
qed simp

lemma join_done_expire:
  "join_done (expire_timers s) g = join_done s g"
  by (auto simp: join_done_def find_thread_def deref_def sched_simps expire_timers_def wake_sleeper_def
      time_out_wait_def split: option.splits)

lemma pick_next_blocked_join:
  assumes "pick_next s = Some (r, s')" "i < length (gs_threads s')"
    "gt_state (gs_threads s' ! i) = BlockedJoin"
  shows "join_done s' (gs_threads s' ! i) = Some False"
proof -
  from assms(1) obtain s1 where s1: "unblock_joins s = Some s1"
    and thr: "gs_threads s' = gs_threads (expire_timers s1)" "gs_next_handle s' = gs_next_handle s1"
    by (auto simp: pick_next_def Let_def sched_simps split: option.splits)
  have i: "i < length (gs_threads s)" "i < length (gs_threads s1)"
    using assms(2) thr(1) unblock_joins_length [OF s1] by (auto simp: sched_simps)
  have st: "gs_threads s' ! i = gs_threads s1 ! i"
    using assms(3) i thr(1) by (auto simp: expire_timers_def wake_sleeper_def time_out_wait_def
        split: if_splits)
  have "join_done s1 (gs_threads s1 ! i) = Some False"
    using unblock_joins_from_blocked [OF s1 [unfolded unblock_joins_def], of i] i assms(3) st by simp
  moreover have "join_done s' g = join_done (expire_timers s1) g" for g
    using thr by (simp add: join_done_def find_thread_def deref_def sched_simps)
  ultimately show ?thesis by (simp add: join_done_expire st)
qed

lemma pick_next_none_ready:
  assumes "pick_next s = Some (None, s')" "i < length (gs_threads s')"
  shows "gt_state (gs_threads s' ! i) \<noteq> Ready"
  using assms rr_scan_None_all by (auto simp: pick_next_def Let_def split: option.splits)

section \<open>The run\<close>

text \<open>A property of the bodies that a saved context may go on with.\<close>

definition ctx_all :: "(fiber \<Rightarrow> bool) \<Rightarrow> fctx \<Rightarrow> bool" where
  "ctx_all ok c = (case c of Entry f \<Rightarrow> ok f | Resume f \<Rightarrow> ok f | ResumeWait k \<Rightarrow> ok (k True) \<and> ok (k False) | Gone \<Rightarrow> True)"

lemma ends_saved:
  assumes "list_all (\<lambda>g. ctx_all ends (gt_ctx g)) (gs_threads s)" shows "list_all bounded (saved s)"
proof -
  have "bounded (norm_ctx c)" if "ctx_all ends c" for c
  proof (cases c)
    case (ResumeWait k)
    then have "ends (k b)" for b using that by (cases b) (simp_all add: ctx_all_def)
    then show ?thesis using ResumeWait by (simp add: bounded_wait ends_bounded)
  qed (use that ends_bounded in \<open>simp_all add: ctx_all_def\<close>)
  with assms show ?thesis by (auto simp: saved_def list_all_iff)
qed


text \<open>A body that computes for ever.\<close>

primcorec hang :: fiber where
  "hang = FWork hang"

lemma hang_monopolises: "monopolises hang"
  by (coinduction rule: monopolises.coinduct) (metis hang.code)


lemma loop_step_Return:
  assumes "loop_step n H s = Some (Return b s')" "idle_but None s"
  shows "(b \<longrightarrow> all_finished s') \<and> (\<not> b \<longrightarrow> gs_failed s' \<or>
     gs_deadlocked s' \<and> \<not> all_finished s' \<and>
     (\<forall>g\<in>set (gs_threads s'). gt_state g = Finished \<or> gt_state g = BlockedJoin \<and> join_done s' g = Some False \<or>
        gt_state g = BlockedWait \<and> gt_wake_tick g = UINT64_MAX))"
proof (cases "all_finished s")
  case True with assms(1) show ?thesis by (simp add: loop_step_def)
next
  case False
  with assms(1) obtain r s1 where pn: "pick_next s = Some (r, s1)"
    by (auto simp: loop_step_def split: option.splits)
  show ?thesis
  proof (cases r)
    case (Some t)
    with False pn assms(1) show ?thesis
      by (auto simp: loop_step_def Let_def split: if_splits option.splits ran.splits)
  next
    case None
    have st: "gt_state g = Finished \<or> timed g \<or> stuck g" if "g \<in> set (gs_threads s1)" for g
    proof -
      from that obtain i where i: "i < length (gs_threads s1)" "g = gs_threads s1 ! i"
        by (auto simp: in_set_conv_nth)
      moreover have "gt_state g \<noteq> Running"
        using idle_pick [OF assms(2) pn] i by (auto simp: idle_but_def)
      ultimately show ?thesis
        using pick_next_none_ready [OF pn [unfolded None], of i]
        by (cases "gt_state g") (auto simp: timed_def stuck_def)
    qed
    have jd: "join_done s1 g = Some False" if "g \<in> set (gs_threads s1)" "gt_state g = BlockedJoin" for g
      using pick_next_blocked_join [OF pn] that by (auto simp: in_set_conv_nth)
    have "join_done (s1\<lparr>gs_deadlocked := True\<rparr>) = join_done s1"
      by (simp add: fun_eq_iff join_done_def find_thread_def deref_def)
    note jd_same = this
    have nt: "\<forall>g\<in>set (gs_threads s1). \<not> timed g"
      and "b \<and> s' = s1 \<and> (\<forall>g\<in>set (gs_threads s1). \<not> stuck g) \<or>
        \<not> b \<and> s' = s1\<lparr>gs_deadlocked := True\<rparr> \<and> (\<exists>g\<in>set (gs_threads s1). stuck g)"
      using False pn None assms(1) by (auto simp: loop_step_def list_ex_iff split: if_splits)
    then consider "b" "s' = s1" "\<forall>g\<in>set (gs_threads s1). \<not> stuck g"
      | g where "\<not> b" "s' = s1\<lparr>gs_deadlocked := True\<rparr>" "g \<in> set (gs_threads s1)" "stuck g"
      by blast
    then show ?thesis
    proof cases
      case 1
      with st nt show ?thesis unfolding all_finished_def list_all_iff by blast
    next
      case 2
      have "\<not> all_finished s'"
        using 2(2-4) by (auto simp: all_finished_def list_all_iff stuck_def intro!: bexI [of _ g])
      moreover have "gt_state g = Finished \<or> gt_state g = BlockedJoin \<and> join_done s' g = Some False \<or>
          gt_state g = BlockedWait \<and> gt_wake_tick g = UINT64_MAX" if "g \<in> set (gs_threads s1)" for g
        using st [OF that] nt that jd [OF that] jd_same 2(2) unfolding stuck_def by metis
      ultimately show ?thesis using 2(1,2) by simp
    qed
  qed
qed

text \<open>(C2) The result of the loop is truthful: \<open>true\<close> means that every thread has finished;
  \<open>false\<close> means that a context switch failed, or that the program is deadlocked: some thread is
  unfinished, and every unfinished thread either joins a thread that has not finished or waits
  without a deadline for a signal.\<close>

theorem run_result:
  assumes "idle_but None s" and "run_until_complete n H s = Some (Return b s')"
  shows "(b \<longrightarrow> all_finished s') \<and> (\<not> b \<longrightarrow> gs_failed s' \<or>
     gs_deadlocked s' \<and> \<not> all_finished s' \<and>
     (\<forall>g\<in>set (gs_threads s'). gt_state g = Finished \<or> gt_state g = BlockedJoin \<and> join_done s' g = Some False \<or>
        gt_state g = BlockedWait \<and> gt_wake_tick g = UINT64_MAX))"
  using idle.run_rest [OF assms(2,1)] loop_step_Return by blast

lemmas demo_simps = demo_sched_def spawn_def spawn_reserved_def GuestScheduler_def
  kStackSize_def kMinUsable_def kGuardSize_def kNoTimeout_def

text \<open>Two threads that join each other.\<close>

definition deadlock_demo :: sched where
  "deadlock_demo = demo_sched [FJoin 2 (\<lambda>_. FReturn), FJoin 1 (\<lambda>_. FReturn)]"

theorem run_result_witness:
  "\<exists>s'. run_until_complete 5 demo_host deadlock_demo = Some (Return False s') \<and>
     gs_deadlocked s' \<and> \<not> all_finished s'"
proof -
  have idle: "idle_but None deadlock_demo"
    by (simp add: idle_but_def deadlock_demo_def demo_simps nth_Cons split: nat.splits)
  obtain s' where s': "run_until_complete 5 demo_host deadlock_demo = Some (Return False s')"
    "\<not> gs_failed s'"
    by (rule that) (code_simp, code_simp)
  with run_result [OF idle s'(1)] show ?thesis by auto
qed


text \<open>A thread that joins a handle which does not exist, and one that spawns a thread and joins it.\<close>

definition spawn_demo :: sched where
  "spawn_demo = demo_sched [FJoin 7 (\<lambda>_. FReturn), FSpawn ''c'' (FExit 3) 0 (\<lambda>h. FJoin h (\<lambda>_. FReturn))]"


text \<open>A failed stack mapping breaks the thread table: \<open>spawn_reserved\<close> has
  already taken the handle, so every later handle is off by one and the newest one makes
  \<open>find\<close> point past the end of \<open>threads_\<close>.\<close>

lemma spawn_failure_wild:
  assumes "sched_wf s" and "Suc (Suc (Suc (length (gs_threads s)))) < 2 ^ 64"
    and "mm (gs_next_handle s) = None" and "mm (gs_next_handle s + 1) = Some base"
    and "spawn mm nm c s = (h1, s1)" and "spawn mm nm' c' s1 = (h2, s2)"
  shows "h1 = 0 \<and> h2 \<noteq> 0 \<and> (\<exists>i. find_thread s2 h2 = Some i \<and> deref s2 i = None)"
proof -
  let ?h = "gs_next_handle s"
  have u: "unat ?h = Suc (length (gs_threads s))" using assms(1) by (simp add: sched_wf_def)
  have u1: "unat (?h + 1) = unat ?h + 1"
    using u assms(2) by (intro unat_inc_less [where y = "UINT64_MAX"]) (simp add: word_less_nat_alt)
  have u2: "unat (?h + 1 + 1) = unat ?h + 2"
    using u u1 assms(2) by (subst unat_inc_less [where y = "UINT64_MAX"]) (simp_all add: word_less_nat_alt)
  have h1: "h1 = 0" "s1 = s\<lparr>gs_next_handle := ?h + 1\<rparr>"
    using assms(3,5) by (auto simp: spawn_def spawn_reserved_def Let_def kStackSize_def kMinUsable_def)
  have h2: "h2 = ?h + 1" "gs_next_handle s2 = ?h + 1 + 1" "length (gs_threads s2) = Suc (length (gs_threads s))"
    using assms(4,6) h1(2)
    by (auto simp: spawn_def spawn_reserved_def Let_def kStackSize_def kMinUsable_def)
  have nz: "h2 \<noteq> 0" using u1 h2(1) by (metis Suc_eq_plus1 nat.distinct(1) unat_0)
  moreover have "find_thread s2 h2 = Some (unat ?h)"
    using nz h2 u1 u2 by (simp add: find_thread_def word_le_nat_alt)
  moreover have "deref s2 (unat ?h) = None" using h2(3) u by (simp add: deref_def)
  ultimately show ?thesis using h1(1) by blast
qed

lemma spawn_failure_wild_witness:
  "\<exists>s1 h2 s2 i. spawn (\<lambda>h. if h = 1 then None else Some 0x1000) ''a'' (Entry FReturn) GuestScheduler = (0, s1) \<and>
     spawn (\<lambda>h. if h = 1 then None else Some 0x1000) ''b'' (Entry FReturn) s1 = (h2, s2) \<and>
     find_thread s2 h2 = Some i \<and> deref s2 i = None"
proof -
  let ?mm = "\<lambda>h :: u64. if h = 1 then None else Some (0x1000 :: u64)"
  obtain h1 s1 where s1: "spawn ?mm ''a'' (Entry FReturn) GuestScheduler = (h1, s1)" by force
  obtain h2 s2 where s2: "spawn ?mm ''b'' (Entry FReturn) s1 = (h2, s2)" by force
  have "sched_wf (GuestScheduler :: sched)" by (rule sched_wf_init)
  from spawn_failure_wild [OF this _ _ _ s1 s2, of "0x1000"] s1 s2 show ?thesis
    by (auto simp: GuestScheduler_def)
qed

text \<open>The switch counters agree: after any run that returns, the total number of context
  switches equals the sum of the threads' counters, in 64-bit arithmetic.\<close>

lemma switches_accounted:
  assumes "switches_balanced s" and "run_until_complete n H s = Some (Return b s')"
  shows "gs_switches_total s' = sum_list (map gt_switches (gs_threads s'))"
proof -
  from counted.run_rest [OF assms(2,1)] obtain s0
    and m where s0: "switches_balanced s0" "loop_step m H s0 = Some (Return b s')" by blast
  consider "s' = s0" | r s1 where "pick_next s0 = Some (r, s1)"
      "s' = s1 \<or> s' = s1\<lparr>gs_deadlocked := True\<rparr> \<or>
       (\<exists>t. r = Some t \<and> s' = (enter_thread t s1)\<lparr>gs_failed := True\<rparr>)"
    using s0(2) by (auto simp: loop_step_def Let_def split: if_splits option.splits ran.splits)
  then show ?thesis
  proof cases
    case 1 with s0(1) show ?thesis by (simp add: switches_balanced_def)
  next
    case (2 r s1)
    have "switches_balanced s1" by (rule counted.rest_pick [OF s0(1) 2(1)])
    with 2 show ?thesis using switches_balanced_enter [of s1] pick_next_Ready [of s0 _ s1]
      by (auto simp: switches_balanced_def)
  qed
qed

lemma switches_accounted_witness:
  "\<exists>s'. run_until_complete 9 demo_host (demo_sched [FYield FReturn, FSleep 2 FReturn]) =
       Some (Return True s') \<and> map gt_switches (gs_threads s') = [2, 2] \<and> gs_switches_total s' = 4"
proof -
  let ?s = "demo_sched [FYield FReturn, FSleep 2 FReturn]"
  have bal: "switches_balanced ?s" by (simp add: switches_balanced_def demo_simps)
  obtain s' where s': "run_until_complete 9 demo_host ?s = Some (Return True s')"
    "map gt_switches (gs_threads s') = [2, 2]"
    by (rule that) (code_simp, code_simp)
  with switches_accounted [OF bal s'(1)] show ?thesis by simp
qed

section \<open>Fairness and wake-ups\<close>

lemma rr_distance_unique:
  assumes "c < n" "(l::nat) < n" "(c + l) mod n = j" shows "(j + n - c) mod n = l"
proof (cases "c + l < n")
  case True
  with assms show ?thesis by auto
next
  case False
  then have "(c + l) mod n = c + l - n" using assms(1,2) by (simp add: mod_if)
  then have "j = c + l - n" using assms(3) by simp
  then have "j + n - c = l" using False by simp
  with assms(2) show ?thesis by simp
qed

text \<open>(C13) Round robin is fair: whenever \<open>pick_next\<close> chooses another thread, every thread that is
  ready moves strictly closer to the cursor, so a ready thread waits for fewer dispatches than
  there are threads.\<close>

theorem pick_next_fair:
  assumes "sched_wf s" "pick_next s = Some (Some t, s')" "j < length (gs_threads s')"
    "gt_state (gs_threads s' ! j) = Ready" "j \<noteq> t"
  shows "rr_distance s' j < rr_distance s j"
proof -
  let ?n = "length (gs_threads s)" and ?c = "unat (gs_rr_cursor s)"
  have n: "length (gs_threads s') = ?n" by (rule pick_next_length [OF assms(2)])
  with assms(1,3) have c: "?c < ?n" by (auto simp: sched_wf_def max_def split: if_splits)
  from assms(2) obtain s1 where s1: "unblock_joins s = Some s1"
    and scan: "rr_scan (gs_threads s') (unat (gs_rr_cursor s1)) 0 ?n = Some t"
    and cur: "gs_rr_cursor s' = of_nat ((t + 1) mod ?n)"
    by (auto simp: pick_next_def Let_def sched_simps unblock_joins_length split: option.splits)
  have "gs_rr_cursor s1 = gs_rr_cursor s" using unblock_joins_frame [OF s1, of gt_ctx] by simp
  with rr_scan_Some [OF scan] n obtain k where k: "k < ?n" "t = (?c + k) mod ?n"
    "\<And>l. l < k \<Longrightarrow> gt_state (gs_threads s' ! ((?c + l) mod ?n)) \<noteq> Ready" by auto
  obtain d where d: "d < ?n" "(?c + d) mod ?n = j" using mod_shift_onto assms(3) n by metis
  have "k < d" using k d assms(4,5) by (metis linorder_neqE_nat)
  have c': "unat (gs_rr_cursor s') = (t + 1) mod ?n"
    unfolding cur using handles_less [OF assms(1)] c
    by (intro unat_of_nat_lt less_trans [OF mod_less_divisor]) (auto simp: less_Suc_eq)
  have "((t + 1) mod ?n + (d - k - 1)) mod ?n = (?c + k + 1 + (d - k - 1)) mod ?n"
    unfolding k(2) by (simp add: mod_simps)
  also have "\<dots> = j" using \<open>k < d\<close> d(2) by simp
  finally have "rr_distance s' j = d - k - 1"
    unfolding rr_distance_def n c' using d(1) c
    by (intro rr_distance_unique mod_less_divisor) linarith+
  moreover have "rr_distance s j = d"
    unfolding rr_distance_def by (rule rr_distance_unique [OF c d])
  ultimately show ?thesis using \<open>k < d\<close> by simp
qed

theorem pick_next_fair_witness:
  "\<exists>s'. pick_next (demo_sched [FReturn, FReturn]) = Some (Some 0, s') \<and>
     rr_distance s' 1 < rr_distance (demo_sched [FReturn, FReturn]) 1"
proof -
  let ?s = "demo_sched [FReturn, FReturn]"
  have wf: "sched_wf ?s" by (simp add: sched_wf_def demo_simps upt_rec)
  obtain s' where s': "pick_next ?s = Some (Some 0, s')" "1 < length (gs_threads s')"
    "gt_state (gs_threads s' ! 1) = Ready"
    by (rule that) (code_simp, code_simp, code_simp)
  from pick_next_fair [OF wf s'] s'(1) show ?thesis by simp
qed

lemma waiters_Cons:
  "filter (\<lambda>i. P ((g # gs) ! i)) [0..<length (g # gs)] =
     (if P g then [0] else []) @ map Suc (filter (\<lambda>i. P (gs ! i)) [0..<length gs])"
proof -
  have "[0..<length (g # gs)] = 0 # map Suc [0..<length gs]"
    by (simp add: upt_conv_Cons map_Suc_upt del: upt_Suc)
  then show ?thesis by (simp add: filter_map comp_def)
qed

lemma signal_list_spec:
  "signal_list token al gs =
     (let ws = filter (\<lambda>i. waits_on token (gs ! i)) [0..<length gs]; ws' = if al then ws else take 1 ws
      in (of_nat (length ws'), map (\<lambda>i. if i \<in> set ws' then wake (gs ! i) else gs ! i) [0..<length gs]))"
  (is "_ = ?spec al gs")
proof (induction gs)
  case (Cons g gs)
  have idx: "[0..<length (g # gs)] = 0 # map Suc [0..<length gs]"
    by (simp add: upt_conv_Cons map_Suc_upt del: upt_Suc)
  have same: "map (\<lambda>i. (g # gs) ! i) [0..<length (g # gs)] = g # gs" by (rule map_nth)
  show ?case
    using Cons.IH unfolding Let_def waiters_Cons unfolding idx
    by (auto simp: comp_def image_iff take_map map_nth simp del: upt_Suc)
qed simp

text \<open>(C4) \<open>signal\<close> wakes exactly the waiters it should: with \<open>all\<close> every thread that waits on the
  token, without it the first one in thread order; it returns their number and leaves every other
  thread and every other field alone.\<close>

theorem signal_exact:
  "signal token al s =
     (let ws = (if al then waiters token s else take 1 (waiters token s)) in
      (of_nat (length ws), s\<lparr>gs_threads :=
        map (\<lambda>i. if i \<in> set ws then wake (gs_threads s ! i) else gs_threads s ! i)
          [0..<length (gs_threads s)]\<rparr>))"
  by (simp add: signal_def signal_list_spec waiters_def Let_def)

text \<open>A timed wait is cut short by \<open>pick_next\<close> only when its deadline has come, and
  then \<open>block_current\<close> reports the time-out; a wait without a deadline never times out while the
  clock is below its maximum.\<close>

lemma wait_timeout_only_when_due:
  assumes "block_current token timeout s = Some s1" "gs_current s = Some t" "t < length (gs_threads s)"
    and "gs_threads s2 = gs_threads s1" "pick_next s2 = Some (r, s3)"
    and "timeout = kNoTimeout \<longrightarrow> gs_tick s2 < UINT64_MAX"
  shows "gt_state (gs_threads s3 ! t) = Ready \<and> \<not> block_result t s3 \<and> timeout \<noteq> kNoTimeout \<and>
       gs_tick s + timeout \<le> gs_tick s2 \<or>
     waits_on token (gs_threads s3 ! t) \<and> (timeout = kNoTimeout \<or> gs_tick s2 < gs_tick s + timeout)"
proof -
  let ?g = "(gs_threads s ! t)\<lparr>gt_state := BlockedWait, gt_wait_token := token, gt_wait_timed_out := False,
      gt_wake_tick := if timeout = kNoTimeout then UINT64_MAX else gs_tick s + timeout\<rparr>"
  have g: "gs_threads s2 ! t = ?g" "t < length (gs_threads s2)"
    using assms(1-4) by (auto simp: block_current_def thread_block_def sched_simps)
  from assms(5) obtain s2' where u: "unblock_joins s2 = Some s2'"
    and s3: "gs_threads s3 = gs_threads (expire_timers s2')"
    by (auto simp: pick_next_def Let_def split: option.splits)
  have keep: "unblock_joins_from i n s = Some s' \<Longrightarrow> gt_state (gs_threads s ! t) \<noteq> BlockedJoin \<Longrightarrow>
      gs_threads s' ! t = gs_threads s ! t" for i n and s s' :: "'a guest_scheduler"
  proof (induction i n s rule: unblock_joins_from.induct)
    case (2 i n s)
    then show ?case by (cases "i = t") (auto simp: Let_def sched_simps split: if_splits option.splits)
  qed simp
  have "gs_threads s2' ! t = ?g" "gs_tick s2' = gs_tick s2" "t < length (gs_threads s2')"
    using keep [OF u [unfolded unblock_joins_def]] g unblock_joins_frame [OF u, of gt_ctx]
      unblock_joins_length [OF u] by auto
  with s3 assms(6) show ?thesis
    by (auto simp: expire_timers_def wake_sleeper_def time_out_wait_def block_result_def waits_on_def
        not_le)
qed

lemma wait_timeout_only_when_due_witness:
  "\<exists>s1 s3. block_current 5 2 ((demo_sched [FReturn])\<lparr>gs_current := Some 0\<rparr>) = Some s1 \<and>
     pick_next (s1\<lparr>gs_tick := 2\<rparr>) = Some (Some 0, s3) \<and> \<not> block_result 0 s3"
proof -
  let ?s = "(demo_sched [FReturn])\<lparr>gs_current := Some 0\<rparr>"
  obtain s1 s3 where s1: "block_current 5 2 ?s = Some s1"
    and s3: "pick_next (s1\<lparr>gs_tick := 2\<rparr>) = Some (Some 0, s3)"
    and w: "\<not> waits_on 5 (gs_threads s3 ! 0)"
    by (rule that) (code_simp, code_simp, code_simp)
  have "0 < length (gs_threads ?s)" by (simp add: demo_simps)
  from wait_timeout_only_when_due [OF s1 _ this _ s3] w s1 s3 show ?thesis
    by (auto simp: kNoTimeout_def)
qed

end
