(* ===== verification/Bytes.thy ===== *)
theory Bytes
  imports Prelude
begin

text \<open>
  Little-endian encodings and byte-addressed memories: what \<open>memcpy\<close> between integers and byte
  buffers does on the little-endian hosts the sources support, and a locale for stores that are
  read and written by byte ranges. Guest RAM windows implement the locale; its client lemmas
  are the round trips of 32-bit accesses.
\<close>

section \<open>Little-endian words\<close>

fun le_bytes :: "nat \<Rightarrow> 'a::len word \<Rightarrow> u8 list" where
  "le_bytes 0 w = []"
| "le_bytes (Suc n) w = ucast w # le_bytes n (drop_bit 8 w)"

fun le_word :: "u8 list \<Rightarrow> 'a::len word" where
  "le_word [] = 0"
| "le_word (b # bs) = push_bit 8 (le_word bs) OR ucast b"

lemma length_le_bytes [simp]: "length (le_bytes n w) = n"
  by (induction n w rule: le_bytes.induct) auto

lemma ucast_or_push_bit_drop:
  fixes w :: "'a::len word"
  shows "push_bit 8 (take_bit n (drop_bit 8 w)) OR ucast (ucast w :: u8) = take_bit (8 + n) w"
  by (rule bit_word_eqI) (auto simp: bit_simps)

lemma le_word_le_bytes: "le_word (le_bytes n (w :: 'a::len word)) = take_bit (8 * n) w"
proof (induction n w rule: le_bytes.induct)
  case (2 n w)
  have "le_word (le_bytes (Suc n) w) = push_bit 8 (take_bit (8 * n) (drop_bit 8 w)) OR ucast (ucast w :: u8)"
    by (simp add: 2)
  also have "\<dots> = take_bit (8 * Suc n) w" by (simp only: ucast_or_push_bit_drop) simp
  finally show ?case .
qed simp

lemma le_word_le_bytes_full [byte_simps]:
  "LENGTH('a) \<le> 8 * n \<Longrightarrow> le_word (le_bytes n (w :: 'a::len word)) = w"
  by (rule bit_word_eqI) (simp add: le_word_le_bytes bit_simps)

lemma drop_bit_le_word:
  assumes "8 * Suc (length bs) \<le> LENGTH('a)"
  shows "drop_bit 8 (push_bit 8 (le_word bs) OR ucast b :: 'a::len word) = le_word bs"
    "ucast (push_bit 8 (le_word bs) OR ucast b :: 'a::len word) = (b :: u8)"
proof -
  have small: "bit (le_word bs :: 'a word) i \<Longrightarrow> i < 8 * length bs" for i
    by (induction bs arbitrary: i) (auto simp: bit_simps dest: bit_imp_le_length [of "_ :: u8"]; fastforce)+
  show "drop_bit 8 (push_bit 8 (le_word bs) OR ucast b :: 'a word) = le_word bs"
    using assms small by (intro bit_word_eqI) (fastforce simp: bit_simps dest: bit_imp_le_length)
  show "ucast (push_bit 8 (le_word bs) OR ucast b :: 'a word) = b"
    using assms by (intro bit_word_eqI) (auto simp: bit_simps)
qed

lemma le_bytes_le_word [byte_simps]:
  "8 * length bs \<le> LENGTH('a) \<Longrightarrow> le_bytes (length bs) (le_word bs :: 'a::len word) = bs"
proof (induction bs)
  case (Cons b bs)
  then have len: "8 * Suc (length bs) \<le> LENGTH('a)" by simp
  with Cons show ?case
    by (simp only: list.size add_0_right add_Suc_right le_bytes.simps le_word.simps
        drop_bit_le_word [OF len]) simp
qed simp

section \<open>Byte-addressed memory\<close>

type_synonym 'a mem = "'a word \<Rightarrow> u8"

fun store_bytes :: "'a::len word \<Rightarrow> u8 list \<Rightarrow> 'a mem \<Rightarrow> 'a mem" where
  "store_bytes a [] m = m"
| "store_bytes a (b # bs) m = store_bytes (a + 1) bs (m(a := b))"

fun load_bytes :: "nat \<Rightarrow> 'a::len word \<Rightarrow> 'a mem \<Rightarrow> u8 list" where
  "load_bytes 0 a m = []"
| "load_bytes (Suc n) a m = m a # load_bytes n (a + 1) m"

text \<open>The addresses of a range that does not wrap around.\<close>

definition in_range :: "'a::len word \<Rightarrow> nat \<Rightarrow> 'a word \<Rightarrow> bool" where
  "in_range a n x \<longleftrightarrow> unat a \<le> unat x \<and> unat x < unat a + n"

lemma length_load_bytes [simp]: "length (load_bytes n a m) = n"
  by (induction n a m rule: load_bytes.induct) auto

lemma unat_plus_one: "unat (a :: 'a::len word) + 1 < 2 ^ LENGTH('a) \<Longrightarrow> unat (a + 1) = unat a + 1"
  by (simp add: unat_word_ariths)

lemma store_bytes_other:
  "unat a + length bs \<le> 2 ^ LENGTH('a) \<Longrightarrow> \<not> in_range a (length bs) x \<Longrightarrow>
     store_bytes (a :: 'a::len word) bs m x = m x"
proof (induction bs arbitrary: a m)
  case (Cons b bs)
  show ?case
  proof (cases bs)
    case nil: Nil with Cons.prems show ?thesis by (auto simp: in_range_def)
  next
    case more: (Cons c cs)
    with Cons.prems have u: "unat (a + 1) = unat a + 1" by (intro unat_plus_one) simp
    with Cons.IH [of "a + 1"] Cons.prems show ?thesis by (auto simp: in_range_def)
  qed
qed simp

lemma load_bytes_cong:
  "unat a + n \<le> 2 ^ LENGTH('a) \<Longrightarrow> (\<And>x. in_range a n x \<Longrightarrow> m x = m' x) \<Longrightarrow>
     load_bytes n (a :: 'a::len word) m = load_bytes n a m'"
proof (induction n a m rule: load_bytes.induct)
  case (2 n a m)
  show ?case
  proof (cases n)
    case 0 with 2 show ?thesis by (simp add: in_range_def)
  next
    case (Suc k)
    with 2 have u: "unat (a + 1) = unat a + 1" by (intro unat_plus_one) simp
    with 2 show ?thesis by (simp add: in_range_def)
  qed
qed simp

lemma load_store_same [byte_simps]:
  "unat a + length bs \<le> 2 ^ LENGTH('a) \<Longrightarrow>
     load_bytes (length bs) (a :: 'a::len word) (store_bytes a bs m) = bs"
proof (induction bs arbitrary: a m)
  case (Cons b bs)
  show ?case
  proof (cases bs)
    case more: (Cons c cs)
    with Cons.prems have u: "unat (a + 1) = unat a + 1" by (intro unat_plus_one) simp
    have "store_bytes (a + 1) bs (m(a := b)) a = b"
      using Cons.prems u by (subst store_bytes_other) (auto simp: in_range_def)
    with Cons u show ?thesis by simp
  qed simp
qed simp

lemma store_bytes_append:
  "store_bytes a (xs @ ys) m = store_bytes (a + of_nat (length xs)) ys (store_bytes a xs m)"
  by (induction xs arbitrary: a m) (simp_all add: algebra_simps)

lemma load_store_disjoint [byte_simps]:
  assumes "unat a + length bs \<le> 2 ^ LENGTH('a)" "unat c + n \<le> 2 ^ LENGTH('a)"
    and "unat a + length bs \<le> unat c \<or> unat c + n \<le> unat a"
  shows "load_bytes n (c :: 'a::len word) (store_bytes a bs m) = load_bytes n c m"
  using assms by (intro load_bytes_cong store_bytes_other) (auto simp: in_range_def)

lemma load_store_inside [byte_simps]:
  assumes "k + n \<le> length bs" "unat a + length bs \<le> 2 ^ LENGTH('a)"
  shows "load_bytes n (a + of_nat k) (store_bytes (a :: 'a::len word) bs m) = take n (drop k bs)"
proof (cases "n = 0")
  case False
  let ?u = "take k bs" let ?v = "take n (drop k bs)" let ?w = "drop (k + n) bs"
  have bs: "bs = ?u @ ?v @ ?w"
    by (metis append_take_drop_id drop_drop add.commute)
  have len: "length ?u = k" "length ?v = n" "length ?w = length bs - (k + n)" using assms(1) by simp_all
  have lt: "unat a + k < 2 ^ LENGTH('a)" using assms False by linarith
  then have k: "unat (a + of_nat k) = unat a + k" by (subst unat_add_lt) (auto simp: unat_of_nat_lt)
  have "store_bytes a bs m = store_bytes (a + of_nat k + of_nat n) ?w (store_bytes (a + of_nat k) ?v (store_bytes a ?u m))"
    using arg_cong [OF bs, of "\<lambda>b. store_bytes a b m"] by (simp only: store_bytes_append len)
  moreover have "load_bytes n (a + of_nat k) (store_bytes (a + of_nat k + of_nat n) ?w M) = load_bytes n (a + of_nat k) M" for M
  proof (cases "?w = []")
    case False
    then have "unat a + k + n < 2 ^ LENGTH('a)" using assms len(3) by (metis add.assoc diff_is_0_eq' le_trans length_0_conv nat_add_left_cancel_less not_le_imp_less order_less_le_trans)
    then have "unat (a + of_nat k + of_nat n) = unat a + k + n"
      using k by (subst unat_add_lt) (auto simp: unat_of_nat_lt)
    then show ?thesis using assms len k by (intro load_store_disjoint) auto
  qed simp
  ultimately show ?thesis using load_store_same [of "a + of_nat k" ?v "store_bytes a ?u m"] assms len k by simp
qed simp

text \<open>The two operations byte by byte.\<close>

lemma load_bytes_nth: "i < n \<Longrightarrow> load_bytes n a m ! i = m (a + of_nat i)"
  by (induction n a m arbitrary: i rule: load_bytes.induct) (auto simp: less_Suc_eq_0_disj algebra_simps)

lemma store_bytes_at:
  assumes "unat a + length bs \<le> 2 ^ LENGTH('a)"
  shows "store_bytes (a :: 'a::len word) bs m x = (if in_range a (length bs) x then bs ! (unat x - unat a) else m x)"
proof (cases "in_range a (length bs) x")
  case True
  let ?i = "unat x - unat a"
  have i: "?i < length bs" using True by (auto simp: in_range_def)
  have "a + of_nat ?i = x" using True by (simp add: in_range_def of_nat_diff)
  then have "store_bytes a bs m x = load_bytes (length bs) a (store_bytes a bs m) ! ?i" using i by (simp add: load_bytes_nth)
  then show ?thesis using True load_store_same [OF assms, of m] by simp
qed (use store_bytes_other [OF assms] in simp)

section \<open>Stores accessed by byte ranges\<close>

text \<open>The interface of the guest memories: \<open>rd s a n\<close> reads \<open>n\<close> bytes or refuses, \<open>wr s a bs\<close>
  writes or refuses. Writing changes neither what is readable nor bytes outside the range.\<close>

locale byte_store =
  fixes rd :: "'s \<Rightarrow> 'a::len word \<Rightarrow> nat \<Rightarrow> u8 list option"
    and wr :: "'s \<Rightarrow> 'a word \<Rightarrow> u8 list \<Rightarrow> 's option"
    and ok :: "'s \<Rightarrow> bool"
  assumes read_length: "rd s a n = Some bs \<Longrightarrow> length bs = n"
    and read_written: "ok s \<Longrightarrow> wr s a bs = Some s' \<Longrightarrow> rd s' a (length bs) = Some bs"
    and read_other: "ok s \<Longrightarrow> wr s a bs = Some s' \<Longrightarrow>
      unat a + length bs \<le> unat c \<or> unat c + n \<le> unat a \<Longrightarrow> rd s' c n = rd s c n"
    and write_ok: "ok s \<Longrightarrow> wr s a bs = Some s' \<Longrightarrow> ok s'"
begin

definition rd32 :: "'s \<Rightarrow> 'a word \<Rightarrow> u32 option" where
  "rd32 s a = map_option le_word (rd s a 4)"

definition wr32 :: "'s \<Rightarrow> 'a word \<Rightarrow> u32 \<Rightarrow> 's option" where
  "wr32 s a v = wr s a (le_bytes 4 v)"

lemma rd32_wr32: "ok s \<Longrightarrow> wr32 s a v = Some s' \<Longrightarrow> rd32 s' a = Some v"
  using read_written [of s a "le_bytes 4 v" s'] by (simp add: rd32_def wr32_def byte_simps)

lemma rd32_wr32_other:
  "ok s \<Longrightarrow> wr32 s a v = Some s' \<Longrightarrow> unat a + 4 \<le> unat c \<or> unat c + 4 \<le> unat a \<Longrightarrow> rd32 s' c = rd32 s c"
  using read_other [of s a "le_bytes 4 v" s' c 4] by (simp add: rd32_def wr32_def)

text \<open>A sequence of accepted writes to other places leaves a 32-bit cell alone.\<close>

lemma rd32_writes:
  "fold (\<lambda>(a, bs) so. Option.bind so (\<lambda>s. wr s a bs)) ws (Some s) = Some s' \<Longrightarrow> ok s \<Longrightarrow>
     (\<And>a bs. (a, bs) \<in> set ws \<Longrightarrow> unat a + length bs \<le> unat c \<or> unat c + 4 \<le> unat a) \<Longrightarrow>
     rd32 s' c = rd32 s c"
proof (induction ws arbitrary: s)
  case (Cons w ws)
  have none: "fold (\<lambda>(a, bs) so. Option.bind so (\<lambda>s. wr s a bs)) us None = None" for us
    by (induction us) auto
  obtain a bs where w: "w = (a, bs)" by force
  from Cons.prems(1) none obtain s1 where s1: "wr s a bs = Some s1"
    by (cases "wr s a bs") (auto simp: w)
  have "rd32 s' c = rd32 s1 c"
    using Cons.prems s1 write_ok by (intro Cons.IH) (auto simp: w)
  moreover have "rd32 s1 c = rd32 s c"
    using read_other [OF Cons.prems(2) s1, of c 4] Cons.prems(3) [of a bs] by (auto simp: w rd32_def)
  ultimately show ?case by simp
qed simp

end

end
