(* ===== verification/Xbe_Ram.thy ===== *)
theory Xbe_Ram
  imports Bytes
begin

text \<open>
  The guest RAM window \<open>XbeRam\<close> (\<open>src/src/xbe_loader.cpp\<close>, \<open>src/include/xbe_loader.h\<close>): a
  linear range of pages that are committed, uncommitted and write-protected one by one. Whether
  the host's \<open>mprotect\<close> accepts a page is the field \<open>xr_mprotect\<close>, which no operation changes;
  \<open>sysconf\<close> and \<open>mmap\<close> are arguments of the constructor.
\<close>

section \<open>State and operations\<close>

record xbe_ram =
  xr_base :: bool
  xr_size :: nat
  xr_committed :: "bool list"
  xr_ro :: "bool list"
  xr_page_size :: nat
  xr_mem :: "32 mem"
  xr_mprotect :: "nat \<Rightarrow> bool"

definition XbeRam :: "nat \<Rightarrow> bool \<Rightarrow> (nat \<Rightarrow> bool) \<Rightarrow> nat \<Rightarrow> xbe_ram" where
  "XbeRam page_size mmap_ok mprotect size_bytes =
     (let pages = (size_bytes + page_size - 1) div page_size in
      if mmap_ok
      then \<lparr>xr_base = True, xr_size = size_bytes, xr_committed = replicate pages False,
             xr_ro = replicate pages False, xr_page_size = page_size, xr_mem = (\<lambda>_. 0),
             xr_mprotect = mprotect\<rparr>
      else \<lparr>xr_base = False, xr_size = 0, xr_committed = [], xr_ro = [], xr_page_size = page_size,
             xr_mem = (\<lambda>_. 0), xr_mprotect = mprotect\<rparr>)"

definition range_ok :: "xbe_ram \<Rightarrow> u32 \<Rightarrow> u32 \<Rightarrow> bool" where
  "range_ok r addr sz \<longleftrightarrow> xr_size r > 0 \<and> sz \<noteq> 0 \<and> unat sz \<le> xr_size r \<and>
     unat addr \<le> xr_size r - unat sz"

text \<open>The pages \<open>first \<dots> last\<close> of a range; \<open>addr + size - 1\<close> is computed in 32 bits.\<close>

definition page_list :: "xbe_ram \<Rightarrow> u32 \<Rightarrow> u32 \<Rightarrow> nat list" where
  "page_list r addr sz =
     [unat addr div xr_page_size r ..< Suc (unat (addr + sz - 1) div xr_page_size r)]"

definition pages_committed :: "xbe_ram \<Rightarrow> u32 \<Rightarrow> u32 \<Rightarrow> bool" where
  "pages_committed r addr sz \<longleftrightarrow>
     list_all (\<lambda>p. p < length (xr_committed r) \<and> xr_committed r ! p) (page_list r addr sz)"

definition is_committed :: "xbe_ram \<Rightarrow> u32 \<Rightarrow> u32 \<Rightarrow> bool" where
  "is_committed r addr sz \<longleftrightarrow> xr_base r \<and> range_ok r addr sz \<and> pages_committed r addr sz"

fun commit_pages :: "nat list \<Rightarrow> xbe_ram \<Rightarrow> bool \<times> xbe_ram" where
  "commit_pages [] r = (True, r)"
| "commit_pages (p # ps) r =
     (if xr_committed r ! p then commit_pages ps r
      else if \<not> xr_mprotect r p then (False, r)
      else commit_pages ps (r\<lparr>xr_committed := (xr_committed r)[p := True], xr_ro := (xr_ro r)[p := False]\<rparr>))"

definition commit :: "u32 \<Rightarrow> u32 \<Rightarrow> xbe_ram \<Rightarrow> bool \<times> xbe_ram" where
  "commit addr sz r =
     (if \<not> xr_base r \<or> \<not> range_ok r addr sz then (False, r)
      else commit_pages (page_list r addr sz) r)"

fun uncommit_pages :: "nat list \<Rightarrow> xbe_ram \<Rightarrow> bool \<times> xbe_ram" where
  "uncommit_pages [] r = (True, r)"
| "uncommit_pages (p # ps) r =
     (if \<not> xr_mprotect r p then (False, r)
      else uncommit_pages ps (r\<lparr>xr_committed := (xr_committed r)[p := False], xr_ro := (xr_ro r)[p := False]\<rparr>))"

definition uncommit :: "u32 \<Rightarrow> u32 \<Rightarrow> xbe_ram \<Rightarrow> bool \<times> xbe_ram" where
  "uncommit addr sz r =
     (if \<not> xr_base r \<or> \<not> range_ok r addr sz then (False, r)
      else if \<not> pages_committed r addr sz then (False, r)
      else uncommit_pages (page_list r addr sz) r)"

text \<open>\<open>protect_ro\<close> and \<open>protect_rw\<close> share their loop: make the pages' flag equal to \<open>b\<close>.\<close>

fun protect_pages :: "bool \<Rightarrow> nat list \<Rightarrow> xbe_ram \<Rightarrow> bool \<times> xbe_ram" where
  "protect_pages b [] r = (True, r)"
| "protect_pages b (p # ps) r =
     (if xr_ro r ! p = b then protect_pages b ps r
      else if \<not> xr_mprotect r p then (False, r)
      else protect_pages b ps (r\<lparr>xr_ro := (xr_ro r)[p := b]\<rparr>))"

definition protect_ro :: "u32 \<Rightarrow> u32 \<Rightarrow> xbe_ram \<Rightarrow> bool \<times> xbe_ram" where
  "protect_ro addr sz r =
     (if \<not> is_committed r addr sz then (False, r)
      else protect_pages True (page_list r addr sz) r)"

definition protect_rw :: "u32 \<Rightarrow> u32 \<Rightarrow> xbe_ram \<Rightarrow> bool \<times> xbe_ram" where
  "protect_rw addr sz r =
     (if \<not> is_committed r addr sz then (False, r)
      else protect_pages False (page_list r addr sz) r)"

definition readable :: "xbe_ram \<Rightarrow> u32 \<Rightarrow> u32 \<Rightarrow> bool" where
  "readable r addr sz = is_committed r addr sz"

definition writable :: "xbe_ram \<Rightarrow> u32 \<Rightarrow> u32 \<Rightarrow> bool" where
  "writable r addr sz \<longleftrightarrow> is_committed r addr sz \<and>
     list_all (\<lambda>p. \<not> xr_ro r ! p) (page_list r addr sz)"

text \<open>\<open>host_ptr\<close>: the offset into the window, \<open>None\<close> is \<open>nullptr\<close>.\<close>

definition host_ptr :: "xbe_ram \<Rightarrow> u32 \<Rightarrow> u32 option" where
  "host_ptr r addr = (if is_committed r addr 1 then Some addr else None)"

definition write_bytes :: "u32 \<Rightarrow> u8 list \<Rightarrow> xbe_ram \<Rightarrow> bool \<times> xbe_ram" where
  "write_bytes addr src r =
     (if \<not> writable r addr (of_nat (length src)) then (False, r)
      else (True, r\<lparr>xr_mem := store_bytes addr src (xr_mem r)\<rparr>))"

definition read_bytes :: "xbe_ram \<Rightarrow> u32 \<Rightarrow> u32 \<Rightarrow> u8 list option" where
  "read_bytes r addr sz =
     (if \<not> readable r addr sz then None else Some (load_bytes (unat sz) addr (xr_mem r)))"

definition write32 :: "u32 \<Rightarrow> u32 \<Rightarrow> xbe_ram \<Rightarrow> bool \<times> xbe_ram" where
  "write32 addr value r = write_bytes addr (le_bytes 4 value) r"

definition read32 :: "xbe_ram \<Rightarrow> u32 \<Rightarrow> u32 option" where
  "read32 r addr = map_option le_word (read_bytes r addr 4)"

section \<open>Invariant\<close>

definition ram_wf :: "xbe_ram \<Rightarrow> bool" where
  "ram_wf r \<longleftrightarrow> 0 < xr_page_size r \<and> xr_size r \<le> 2 ^ 32 \<and>
     length (xr_committed r) = (xr_size r + xr_page_size r - 1) div xr_page_size r \<and>
     length (xr_ro r) = length (xr_committed r) \<and>
     (\<forall>p<length (xr_ro r). xr_ro r ! p \<longrightarrow> xr_committed r ! p)"

lemma range_ok_end:
  assumes "ram_wf r" "range_ok r addr sz"
  shows "unat (addr + sz - 1) = unat addr + unat sz - 1"
    "unat addr + unat sz \<le> xr_size r" "unat addr + unat sz \<le> 2 ^ 32"
proof -
  have r: "0 < unat sz" "unat addr + unat sz \<le> 2 ^ 32" "unat addr + unat sz \<le> xr_size r"
    using assms by (auto simp: range_ok_def ram_wf_def unat_gt_0)
  have "addr + sz - 1 = of_nat (unat addr + unat sz - 1)"
    using r(1) by (simp add: of_nat_diff)
  then have "unat (addr + sz - 1) = unat (of_nat (unat addr + unat sz - 1) :: u32)" by (rule arg_cong)
  also have "\<dots> = unat addr + unat sz - 1" using r by (intro unat_of_nat_lt) simp
  finally show "unat (addr + sz - 1) = unat addr + unat sz - 1" .
qed (use assms in \<open>auto simp: range_ok_def ram_wf_def\<close>)

lemma page_list_bound:
  assumes "ram_wf r" "range_ok r addr sz" "p \<in> set (page_list r addr sz)"
  shows "p < length (xr_committed r)"
proof -
  let ?P = "xr_page_size r"
  have "p \<le> (unat addr + unat sz - 1) div ?P"
    using assms(3) range_ok_end(1) [OF assms(1,2)] by (auto simp: page_list_def less_Suc_eq_le)
  also have "\<dots> \<le> (xr_size r - 1) div ?P"
    using range_ok_end(2) [OF assms(1,2)] by (intro div_le_mono) simp
  also have "\<dots> < (xr_size r + ?P - 1) div ?P"
  proof -
    have "xr_size r + ?P - 1 = (xr_size r - 1) + ?P" "0 < ?P"
      using assms(1,2) by (auto simp: ram_wf_def range_ok_def)
    then show ?thesis by (metis div_add_self2 lessI less_irrefl Suc_eq_plus1)
  qed
  finally show ?thesis using assms(1) by (simp add: ram_wf_def)
qed

text \<open>What the page loops leave alone, and what they do to the flags.\<close>

lemma commit_pages_effect:
  assumes "commit_pages ps r = (b, r')"
  shows "xr_size r' = xr_size r \<and> xr_base r' = xr_base r \<and> xr_page_size r' = xr_page_size r \<and>
    xr_mem r' = xr_mem r \<and> xr_mprotect r' = xr_mprotect r \<and>
    length (xr_committed r') = length (xr_committed r) \<and> length (xr_ro r') = length (xr_ro r)"
  using assms by (induction ps r rule: commit_pages.induct) (auto split: if_splits)

lemma uncommit_pages_effect:
  assumes "uncommit_pages ps r = (b, r')"
  shows "xr_size r' = xr_size r \<and> xr_base r' = xr_base r \<and> xr_page_size r' = xr_page_size r \<and>
    xr_mem r' = xr_mem r \<and> xr_mprotect r' = xr_mprotect r \<and>
    length (xr_committed r') = length (xr_committed r) \<and> length (xr_ro r') = length (xr_ro r)"
  using assms by (induction ps r rule: uncommit_pages.induct) (auto split: if_splits)

lemma protect_pages_effect:
  assumes "protect_pages f ps r = (b, r')"
  shows "xr_size r' = xr_size r \<and> xr_base r' = xr_base r \<and> xr_page_size r' = xr_page_size r \<and>
    xr_mem r' = xr_mem r \<and> xr_mprotect r' = xr_mprotect r \<and>
    xr_committed r' = xr_committed r \<and> length (xr_ro r') = length (xr_ro r)"
  using assms by (induction f ps r rule: protect_pages.induct) (auto split: if_splits)

text \<open>The access a page grants.\<close>

datatype access = NoAccess | ReadOnly | ReadWrite

definition page_access :: "xbe_ram \<Rightarrow> nat \<Rightarrow> access" where
  "page_access r p = (if p < length (xr_committed r) \<and> xr_committed r ! p
     then if xr_ro r ! p then ReadOnly else ReadWrite else NoAccess)"

definition ro_committed :: "xbe_ram \<Rightarrow> bool" where
  "ro_committed r \<longleftrightarrow> length (xr_ro r) = length (xr_committed r) \<and>
     (\<forall>p<length (xr_ro r). xr_ro r ! p \<longrightarrow> xr_committed r ! p)"

lemma commit_pages_access:
  assumes "commit_pages ps r = (b, r')" "ro_committed r" "\<forall>p\<in>set ps. p < length (xr_committed r)"
  shows "ro_committed r' \<and> (b \<longrightarrow> (\<forall>p. page_access r' p =
    (if p \<in> set ps \<and> page_access r p = NoAccess then ReadWrite else page_access r p)))"
  using assms
proof (induction ps r rule: commit_pages.induct)
  case (2 p ps r)
  show ?case
  proof (cases "xr_committed r ! p")
    case True
    then have "page_access r p \<noteq> NoAccess" using "2.prems"(3) by (simp add: page_access_def)
    with True 2 show ?thesis by auto
  next
    case False
    show ?thesis
    proof (cases "xr_mprotect r p")
      case True
      let ?r = "r\<lparr>xr_committed := (xr_committed r)[p := True], xr_ro := (xr_ro r)[p := False]\<rparr>"
      have "ro_committed ?r"
        using "2.prems"(2,3) by (auto simp: ro_committed_def nth_list_update split: if_splits)
      moreover have "page_access ?r q = (if q = p \<and> page_access r q = NoAccess then ReadWrite
          else page_access r q)" for q
        using "2.prems"(2,3) False by (auto simp: page_access_def nth_list_update ro_committed_def)
      ultimately show ?thesis
        using 2 False True by (auto split: if_splits)
    next
      case no: False
      with False 2 show ?thesis by auto
    qed
  qed
qed auto

lemma uncommit_pages_access:
  assumes "uncommit_pages ps r = (b, r')" "ro_committed r" "\<forall>p\<in>set ps. p < length (xr_committed r)"
  shows "ro_committed r' \<and> (b \<longrightarrow> (\<forall>p. page_access r' p = (if p \<in> set ps then NoAccess else page_access r p)))"
  using assms
proof (induction ps r rule: uncommit_pages.induct)
  case (2 p ps r)
  show ?case
  proof (cases "xr_mprotect r p")
    case True
    let ?r = "r\<lparr>xr_committed := (xr_committed r)[p := False], xr_ro := (xr_ro r)[p := False]\<rparr>"
    have "ro_committed ?r"
      using "2.prems"(2,3) by (auto simp: ro_committed_def nth_list_update split: if_splits)
    moreover have "page_access ?r q = (if q = p then NoAccess else page_access r q)" for q
      using "2.prems"(2,3) by (auto simp: page_access_def nth_list_update ro_committed_def)
    ultimately show ?thesis using 2 True by auto
  next
    case False with 2 show ?thesis by auto
  qed
qed auto

lemma protect_pages_access:
  assumes "protect_pages f ps r = (b, r')" "ro_committed r"
    "\<forall>p\<in>set ps. p < length (xr_committed r) \<and> xr_committed r ! p"
  shows "ro_committed r' \<and> (b \<longrightarrow> (\<forall>p. page_access r' p =
    (if p \<in> set ps then if f then ReadOnly else ReadWrite else page_access r p)))"
  using assms
proof (induction f ps r rule: protect_pages.induct)
  case (2 f p ps r)
  show ?case
  proof (cases "xr_ro r ! p = f")
    case True
    then have "page_access r p = (if f then ReadOnly else ReadWrite)"
      using "2.prems"(3) by (simp add: page_access_def)
    with True 2 show ?thesis by auto
  next
    case False
    show ?thesis
    proof (cases "xr_mprotect r p")
      case True
      let ?r = "r\<lparr>xr_ro := (xr_ro r)[p := f]\<rparr>"
      have "ro_committed ?r"
        using "2.prems"(2,3) by (auto simp: ro_committed_def nth_list_update split: if_splits)
      moreover have "page_access ?r q = (if q = p then if f then ReadOnly else ReadWrite
          else page_access r q)" for q
        using "2.prems"(2,3) by (auto simp: page_access_def nth_list_update ro_committed_def)
      ultimately show ?thesis using 2 False True by auto
    next
      case no: False
      with False 2 show ?thesis by auto
    qed
  qed
qed auto

lemma ram_wf_ro: "ram_wf r \<Longrightarrow> ro_committed r"
  by (simp add: ram_wf_def ro_committed_def)

lemma ram_wf_frame:
  assumes "ram_wf r" "ro_committed r'" "length (xr_committed r') = length (xr_committed r)"
    "xr_size r' = xr_size r" "xr_page_size r' = xr_page_size r"
  shows "ram_wf r'"
  using assms by (simp add: ram_wf_def ro_committed_def)

section \<open>What the operations do to the access rights\<close>

lemma is_committed_access:
  "ram_wf r \<Longrightarrow> is_committed r addr sz \<longleftrightarrow> xr_base r \<and> range_ok r addr sz \<and>
     (\<forall>p\<in>set (page_list r addr sz). page_access r p \<noteq> NoAccess)"
  by (auto simp: is_committed_def pages_committed_def list_all_iff page_access_def)

lemma writable_access:
  "ram_wf r \<Longrightarrow> writable r addr sz \<longleftrightarrow> xr_base r \<and> range_ok r addr sz \<and>
     (\<forall>p\<in>set (page_list r addr sz). page_access r p = ReadWrite)"
  by (auto simp: writable_def is_committed_access list_all_iff page_access_def split: if_splits)

lemma commit_wf:
  assumes "ram_wf r" "commit addr sz r = (b, r')"
  shows "ram_wf r' \<and> xr_mem r' = xr_mem r \<and> xr_size r' = xr_size r \<and> xr_base r' = xr_base r \<and>
    xr_page_size r' = xr_page_size r \<and> (b \<longrightarrow> range_ok r addr sz \<and> xr_base r \<and> (\<forall>p. page_access r' p =
    (if p \<in> set (page_list r addr sz) \<and> page_access r p = NoAccess then ReadWrite else page_access r p)))"
proof (cases "xr_base r \<and> range_ok r addr sz")
  case True
  with assms(2) have c: "commit_pages (page_list r addr sz) r = (b, r')" by (simp add: commit_def)
  from commit_pages_access [OF this ram_wf_ro [OF assms(1)]] commit_pages_effect [OF c] True
  show ?thesis using page_list_bound [OF assms(1)] assms(1) by (auto intro: ram_wf_frame)
qed (use assms in \<open>auto simp: commit_def\<close>)

lemma uncommit_wf:
  assumes "ram_wf r" "uncommit addr sz r = (b, r')"
  shows "ram_wf r' \<and> xr_mem r' = xr_mem r \<and> xr_size r' = xr_size r \<and> xr_base r' = xr_base r \<and>
    xr_page_size r' = xr_page_size r \<and> (b \<longrightarrow> is_committed r addr sz \<and> (\<forall>p. page_access r' p =
    (if p \<in> set (page_list r addr sz) then NoAccess else page_access r p)))"
proof (cases "is_committed r addr sz")
  case True
  with assms(2) have c: "uncommit_pages (page_list r addr sz) r = (b, r')"
    by (simp add: uncommit_def is_committed_def)
  from uncommit_pages_access [OF this ram_wf_ro [OF assms(1)]] uncommit_pages_effect [OF c] True
  show ?thesis using page_list_bound [OF assms(1)] assms(1)
    by (auto intro: ram_wf_frame simp: is_committed_def)
qed (use assms in \<open>auto simp: uncommit_def is_committed_def split: if_splits\<close>)

lemma protect_wf:
  assumes "ram_wf r" "(if f then protect_ro addr sz r else protect_rw addr sz r) = (b, r')"
  shows "ram_wf r' \<and> xr_mem r' = xr_mem r \<and> xr_size r' = xr_size r \<and> xr_base r' = xr_base r \<and>
    xr_page_size r' = xr_page_size r \<and> (b \<longrightarrow> is_committed r addr sz \<and> (\<forall>p. page_access r' p =
    (if p \<in> set (page_list r addr sz) then if f then ReadOnly else ReadWrite else page_access r p)))"
proof (cases "is_committed r addr sz")
  case True
  with assms(2) have c: "protect_pages f (page_list r addr sz) r = (b, r')"
    by (cases f) (simp_all add: protect_ro_def protect_rw_def)
  have "\<forall>p\<in>set (page_list r addr sz). p < length (xr_committed r) \<and> xr_committed r ! p"
    using True by (simp add: is_committed_def pages_committed_def list_all_iff)
  from protect_pages_access [OF c ram_wf_ro [OF assms(1)] this] protect_pages_effect [OF c] True
  show ?thesis using assms(1) by (auto intro: ram_wf_frame)
qed (use assms in \<open>auto simp: protect_ro_def protect_rw_def split: if_splits\<close>)

section \<open>The window as a byte store\<close>

definition ram_rd :: "xbe_ram \<Rightarrow> u32 \<Rightarrow> nat \<Rightarrow> u8 list option" where
  "ram_rd r a n = (if n < 2 ^ 32 then read_bytes r a (of_nat n) else None)"

definition ram_wr :: "xbe_ram \<Rightarrow> u32 \<Rightarrow> u8 list \<Rightarrow> xbe_ram option" where
  "ram_wr r a bs = (if length bs < 2 ^ 32
     then case write_bytes a bs r of (ok, r') \<Rightarrow> if ok then Some r' else None else None)"

lemma range_ok_no_wrap:
  "ram_wf r \<Longrightarrow> range_ok r a (of_nat n) \<Longrightarrow> n < 2 ^ 32 \<Longrightarrow> unat a + n \<le> 2 ^ 32"
  using range_ok_end(3) [of r a "of_nat n"] by (simp add: unat_of_nat_lt)

lemma mem_update_access [ram_simps]:
  "is_committed (r\<lparr>xr_mem := m\<rparr>) = is_committed r" "writable (r\<lparr>xr_mem := m\<rparr>) = writable r"
  "readable (r\<lparr>xr_mem := m\<rparr>) = readable r" "ram_wf (r\<lparr>xr_mem := m\<rparr>) = ram_wf r"
  by (simp_all add: fun_eq_iff is_committed_def writable_def readable_def range_ok_def
      pages_committed_def page_list_def ram_wf_def)

interpretation ram: byte_store ram_rd ram_wr ram_wf
proof (unfold_locales, goal_cases)
  case (1 s a n bs)
  then show ?case by (auto simp: ram_rd_def read_bytes_def unat_of_nat_lt split: if_splits)
next
  case (2 s a bs s')
  then have w: "writable s a (of_nat (length bs))" "length bs < 2 ^ 32"
    and s': "s' = s\<lparr>xr_mem := store_bytes a bs (xr_mem s)\<rparr>"
    by (auto simp: ram_wr_def write_bytes_def split: if_splits)
  then have "unat a + length bs \<le> 2 ^ 32"
    using range_ok_no_wrap [OF 2(1)] by (auto simp: writable_def is_committed_def)
  with w s' show ?case
    by (simp add: ram_rd_def read_bytes_def ram_simps unat_of_nat_lt load_store_same readable_def writable_def)
next
  case (3 s a bs s' c n)
  then have w: "writable s a (of_nat (length bs))" "length bs < 2 ^ 32"
    and s': "s' = s\<lparr>xr_mem := store_bytes a bs (xr_mem s)\<rparr>"
    by (auto simp: ram_wr_def write_bytes_def split: if_splits)
  have a: "unat a + length bs \<le> 2 ^ 32"
    using w range_ok_no_wrap [OF 3(1)] by (auto simp: writable_def is_committed_def)
  show ?case
  proof (cases "n < 2 ^ 32 \<and> readable s c (of_nat n)")
    case True
    then have "unat c + n \<le> 2 ^ 32"
      using range_ok_no_wrap [OF 3(1)] by (auto simp: readable_def is_committed_def)
    with True a 3(3) s' show ?thesis
      by (simp add: ram_rd_def read_bytes_def ram_simps unat_of_nat_lt load_store_disjoint)
  qed (auto simp: ram_rd_def read_bytes_def s' ram_simps)
next
  case (4 s a bs s')
  then show ?case by (auto simp: ram_wr_def write_bytes_def ram_simps split: if_splits)
qed

lemma read32_rd32: "read32 r a = ram.rd32 r a"
  by (simp add: read32_def ram.rd32_def ram_rd_def)

lemma write32_wr32: "write32 a v r = (True, r') \<Longrightarrow> ram.wr32 r a v = Some r'"
  by (simp add: write32_def ram.wr32_def ram_wr_def)

section \<open>Properties\<close>

definition demo_ram :: xbe_ram where
  "demo_ram = snd (commit 8 12 (XbeRam 8 True (\<lambda>_. True) 32))"

lemma demo_ram_wf: "ram_wf demo_ram"
proof -
  have "ram_wf (XbeRam 8 True (\<lambda>_. True) 32)" by (simp add: ram_wf_def XbeRam_def)
  then show ?thesis unfolding demo_ram_def using commit_wf by (metis prod.collapse)
qed

text \<open>What a page operation promises: contents and well-formedness stay, and when it reports success
  the access of page \<open>p\<close> is \<open>acc p\<close>.\<close>

definition page_effect :: "xbe_ram \<Rightarrow> bool \<times> xbe_ram \<Rightarrow> (nat \<Rightarrow> access) \<Rightarrow> bool" where
  "page_effect r res acc \<longleftrightarrow> ram_wf (snd res) \<and> xr_mem (snd res) = xr_mem r \<and>
     (fst res \<longrightarrow> (\<forall>p. page_access (snd res) p = acc p))"

text \<open>(C26) Page protection is exact. A successful \<open>commit\<close> gives read-write access to the pages of
  the range that had none and changes no other page; \<open>uncommit\<close>, \<open>protect_ro\<close> and \<open>protect_rw\<close>
  set exactly the pages of the range; memory contents stay, and the window stays well-formed
  whether or not the host refused a page.\<close>

theorem ram_access_rights:
  assumes "ram_wf r"
  shows "page_effect r (commit addr sz r) (\<lambda>p. if p \<in> set (page_list r addr sz) \<and> page_access r p = NoAccess
      then ReadWrite else page_access r p) \<and>
    page_effect r (uncommit addr sz r) (\<lambda>p. if p \<in> set (page_list r addr sz) then NoAccess else page_access r p) \<and>
    page_effect r (protect_ro addr sz r) (\<lambda>p. if p \<in> set (page_list r addr sz) then ReadOnly else page_access r p) \<and>
    page_effect r (protect_rw addr sz r) (\<lambda>p. if p \<in> set (page_list r addr sz) then ReadWrite else page_access r p)"
  using commit_wf [OF assms, OF prod.collapse [symmetric]] uncommit_wf [OF assms, OF prod.collapse [symmetric]]
    protect_wf [OF assms, of True, OF prod.collapse [symmetric]] protect_wf [OF assms, of False, OF prod.collapse [symmetric]]
  by (simp add: page_effect_def)

theorem ram_access_rights_witness:
  "page_access (snd (protect_ro 16 2 demo_ram)) 2 = ReadOnly \<and> page_access (snd (protect_ro 16 2 demo_ram)) 1 = ReadWrite"
proof -
  have ok: "fst (protect_ro 16 2 demo_ram)" and pages: "page_list demo_ram 16 2 = [2]"
    and acc: "page_access demo_ram 1 = ReadWrite" by code_simp+
  from ram_access_rights [OF demo_ram_wf, of 16 2] ok pages acc show ?thesis
    by (simp add: page_effect_def)
qed

text \<open>Memory behaves like memory. A write succeeds exactly when every page of its range is
  committed and writable; then the written bytes are read back, every read from a disjoint range
  is unchanged, and a refused write changes nothing.\<close>

lemma ram_read_after_write:
  assumes "ram_wf r" "length bs < 2 ^ 32" "write_bytes a bs r = (b, r')"
  shows "(b \<longleftrightarrow> xr_base r \<and> range_ok r a (of_nat (length bs)) \<and>
      (\<forall>p\<in>set (page_list r a (of_nat (length bs))). page_access r p = ReadWrite)) \<and>
    (b \<longrightarrow> read_bytes r' a (of_nat (length bs)) = Some bs \<and>
      (\<forall>c n. unat a + length bs \<le> unat c \<or> unat c + unat n \<le> unat a \<longrightarrow>
         read_bytes r' c n = read_bytes r c n)) \<and> (\<not> b \<longrightarrow> r' = r)"
proof (cases b)
  case True
  with assms have w: "ram_wr r a bs = Some r'" by (simp add: ram_wr_def)
  have "read_bytes r' c n = read_bytes r c n"
    if "unat a + length bs \<le> unat c \<or> unat c + unat n \<le> unat a" for c n
    using ram.read_other [OF assms(1) w that] unat_lt2p [of n] by (simp add: ram_rd_def)
  with ram.read_written [OF assms(1) w] assms True show ?thesis
    by (auto simp: ram_rd_def write_bytes_def writable_access [OF assms(1)] split: if_splits)
next
  case False
  with assms show ?thesis
    by (auto simp: write_bytes_def writable_access [OF assms(1)] split: if_splits)
qed

lemma ram_read_after_write_witness:
  "\<exists>r'. write_bytes 14 [1, 2, 3] demo_ram = (True, r') \<and> read_bytes r' 14 3 = Some [1, 2, 3] \<and>
     read_bytes r' 17 4 = read_bytes demo_ram 17 4"
proof -
  have "fst (write_bytes 14 [1, 2, 3] demo_ram)" by code_simp
  note r' = pair_TrueI [OF this]
  from ram_read_after_write [OF demo_ram_wf _ r'] r' show ?thesis
    by (intro exI [of _ "snd (write_bytes 14 [1, 2, 3] demo_ram)"]) simp
qed

text \<open>32-bit accesses round trip: after a successful \<open>write32\<close> the same address reads back the
  value, and every word that does not overlap it keeps its value, at any alignment.\<close>

lemma ram_word_round_trip:
  assumes "ram_wf r" "write32 a v r = (True, r')"
  shows "read32 r' a = Some v \<and>
    (\<forall>c. unat a + 4 \<le> unat c \<or> unat c + 4 \<le> unat a \<longrightarrow> read32 r' c = read32 r c)"
  using ram.rd32_wr32 [OF assms(1) write32_wr32 [OF assms(2)]]
    ram.rd32_wr32_other [OF assms(1) write32_wr32 [OF assms(2)]] by (simp add: read32_rd32)

lemma ram_word_round_trip_witness:
  "\<exists>r'. write32 14 0xCAFEBABE demo_ram = (True, r') \<and> read32 r' 14 = Some 0xCAFEBABE"
proof -
  have "fst (write32 14 0xCAFEBABE demo_ram)" by code_simp
  note r' = pair_TrueI [OF this]
  from ram_word_round_trip [OF demo_ram_wf r'] r' show ?thesis by blast
qed

end
