(* ===== verification/Xbe_Image.thy ===== *)
theory Xbe_Image
  imports Bytes "HOL-Library.Monad_Syntax"
begin

text \<open>
  The XBE parser \<open>XbeImage\<close> (\<open>src/src/xbe_loader.cpp\<close>, \<open>src/include/xbe_loader.h\<close>). The file is a
  list of bytes; every read goes through \<open>rd32\<close>, \<open>rd16\<close>, \<open>rd8\<close> or \<open>rd_bytes\<close>, which give \<open>None\<close> when they
  would touch a byte outside the file. So a parse has three outcomes: \<open>Some (Inr image)\<close>,
  \<open>Some (Inl reason)\<close> for a rejected file, and \<open>None\<close> for an out-of-bounds read.
\<close>

section \<open>Reading the file\<close>

definition rd_bytes :: "u8 list \<Rightarrow> nat \<Rightarrow> nat \<Rightarrow> u8 list option" where
  "rd_bytes f off n = (if off + n \<le> length f then Some (take n (drop off f)) else None)"

definition rd32 :: "u8 list \<Rightarrow> nat \<Rightarrow> u32 option" where
  "rd32 f off = map_option le_word (rd_bytes f off 4)"

definition rd16 :: "u8 list \<Rightarrow> nat \<Rightarrow> u16 option" where
  "rd16 f off = map_option le_word (rd_bytes f off 2)"

definition rd8 :: "u8 list \<Rightarrow> nat \<Rightarrow> u8 option" where
  "rd8 f off = (if off < length f then Some (f ! off) else None)"

section \<open>Format constants and parsed structures\<close>

definition kMagic :: u32 where "kMagic = 0x48454258"
definition kHeaderSize :: nat where "kHeaderSize = 0x178"
definition kSectionHeaderSize :: nat where "kSectionHeaderSize = 0x38"
definition kLibraryVersionSize :: nat where "kLibraryVersionSize = 0x10"
definition kTlsDirectorySize :: nat where "kTlsDirectorySize = 0x18"
definition kCertificateMinSize :: nat where "kCertificateMinSize = 0x1D0"
definition kXorEpDebug :: u32 where "kXorEpDebug = 0x94859D4B"
definition kXorEpRetail :: u32 where "kXorEpRetail = 0xA8FC57AB"
definition kXorKtDebug :: u32 where "kXorKtDebug = 0xEFB1F152"
definition kXorKtRetail :: u32 where "kXorKtRetail = 0x5B6D40B6"
definition kSectionWriteable :: u32 where "kSectionWriteable = 0x00000001"
definition kSectionHeadPageReadonly :: u32 where "kSectionHeadPageReadonly = 0x00000010"
definition kSectionTailPageReadonly :: u32 where "kSectionTailPageReadonly = 0x00000020"

datatype xbe_type = Retail | Debug

record xbe_header =
  h_magic :: u32
  h_base_addr :: u32
  h_sizeof_headers :: u32
  h_sizeof_image :: u32
  h_sizeof_image_header :: u32
  h_timedate :: u32
  h_certificate_addr :: u32
  h_num_sections :: u32
  h_section_headers_addr :: u32
  h_init_flags :: u32
  h_entry_addr :: u32
  h_tls_addr :: u32
  h_pe_stack_commit :: u32
  h_pe_heap_reserve :: u32
  h_pe_heap_commit :: u32
  h_pe_base_addr :: u32
  h_pe_sizeof_image :: u32
  h_pe_checksum :: u32
  h_pe_timedate :: u32
  h_debug_pathname_addr :: u32
  h_debug_filename_addr :: u32
  h_debug_unicode_filename_addr :: u32
  h_kernel_thunk_addr :: u32
  h_nonkernel_import_dir_addr :: u32
  h_num_library_versions :: u32
  h_library_versions_addr :: u32
  h_kernel_library_version_addr :: u32
  h_xapi_library_version_addr :: u32
  h_logo_bitmap_addr :: u32
  h_logo_bitmap_size :: u32

record certificate =
  c_size :: u32
  c_timedate :: u32
  c_title_id :: u32
  c_title :: "u16 list"
  c_alternate_title_ids :: "u32 list"
  c_allowed_media :: u32
  c_game_region :: u32
  c_game_ratings :: u32
  c_disc_number :: u32
  c_version :: u32

record section_header =
  sh_flags :: u32
  sh_virtual_addr :: u32
  sh_virtual_size :: u32
  sh_raw_addr :: u32
  sh_sizeof_raw :: u32
  sh_name :: "u8 list"
  sh_section_name_addr :: u32
  sh_section_ref_count :: u32
  sh_head_shared_ref_count_addr :: u32
  sh_tail_shared_ref_count_addr :: u32

record library_version =
  lv_name :: "u8 list"
  lv_major :: u16
  lv_minor :: u16
  lv_build :: u16
  lv_flags :: u16

record tls_directory =
  t_data_start :: u32
  t_data_end :: u32
  t_index_addr :: u32
  t_callbacks_addr :: u32
  t_zero_fill :: u32
  t_characteristics :: u32

definition tls_valid :: "tls_directory \<Rightarrow> bool" where
  "tls_valid t \<longleftrightarrow> t_data_end t \<ge> t_data_start t"

definition tls_raw_size :: "tls_directory \<Rightarrow> u32" where
  "tls_raw_size t = t_data_end t - t_data_start t"

record xbe_image =
  xi_file :: "u8 list"
  xi_header :: xbe_header
  xi_cert :: certificate
  xi_sections :: "section_header list"
  xi_libs :: "library_version list"
  xi_tls :: tls_directory
  xi_tls_present :: bool
  xi_type :: xbe_type
  xi_entry_va :: u32
  xi_kernel_thunk_va :: u32
  xi_image_end_abs :: u32

section \<open>Address translation\<close>

definition header_offset :: "u8 list \<Rightarrow> xbe_header \<Rightarrow> u32 \<Rightarrow> u32 option" where
  "header_offset f h va =
     (if va < h_base_addr h then None
      else let rel = va - h_base_addr h in
        if rel \<ge> h_sizeof_headers h then None
        else if unat rel \<ge> length f then None
        else Some rel)"

text \<open>The first section whose raw data holds the address; \<open>into\<close> cannot wrap, because it is
  computed only for \<open>va \<ge> virtual_addr\<close>.\<close>

fun section_offset :: "section_header list \<Rightarrow> u32 \<Rightarrow> u32 option" where
  "section_offset [] va = None"
| "section_offset (sh # shs) va =
     (if sh_virtual_size sh = 0 \<or> va < sh_virtual_addr sh then section_offset shs va
      else let into = va - sh_virtual_addr sh in
        if into < sh_virtual_size sh \<and> into < sh_sizeof_raw sh then Some (sh_raw_addr sh + into)
        else section_offset shs va)"

definition va_file_offset :: "u8 list \<Rightarrow> xbe_header \<Rightarrow> section_header list \<Rightarrow> u32 \<Rightarrow> u32 option" where
  "va_file_offset f h shs va =
     (case header_offset f h va of
        Some off \<Rightarrow> Some off
      | None \<Rightarrow> if va < h_base_addr h then None else section_offset shs va)"

text \<open>The string loop: at most 64 characters; \<open>++off\<close> is 32-bit. The byte is read only where the
  loop condition has compared the offset with the file size.\<close>

fun cstring_from :: "nat \<Rightarrow> u8 list \<Rightarrow> u32 \<Rightarrow> u8 list option" where
  "cstring_from 0 f off = Some []"
| "cstring_from (Suc n) f off =
     (if unat off < length f then do {
        c \<leftarrow> rd8 f (unat off);
        if c = 0 then Some []
        else if n = 0 then Some [c]
        else map_option ((#) c) (cstring_from n f (off + 1))}
      else Some [])"

definition cstring :: "u8 list \<Rightarrow> xbe_header \<Rightarrow> section_header list \<Rightarrow> u32 \<Rightarrow> u8 list option" where
  "cstring f h shs va =
     (case va_file_offset f h shs va of None \<Rightarrow> Some [] | Some off \<Rightarrow> cstring_from 64 f off)"

section \<open>The parse\<close>

definition parse_header :: "u8 list \<Rightarrow> xbe_header option" where
  "parse_header f = do {
     magic \<leftarrow> rd32 f 0x0;
     base_addr \<leftarrow> rd32 f 0x104;
     sizeof_headers \<leftarrow> rd32 f 0x108;
     sizeof_image \<leftarrow> rd32 f 0x10C;
     sizeof_image_header \<leftarrow> rd32 f 0x110;
     timedate \<leftarrow> rd32 f 0x114;
     certificate_addr \<leftarrow> rd32 f 0x118;
     num_sections \<leftarrow> rd32 f 0x11C;
     section_headers_addr \<leftarrow> rd32 f 0x120;
     init_flags \<leftarrow> rd32 f 0x124;
     entry_addr \<leftarrow> rd32 f 0x128;
     tls_addr \<leftarrow> rd32 f 0x12C;
     pe_stack_commit \<leftarrow> rd32 f 0x130;
     pe_heap_reserve \<leftarrow> rd32 f 0x134;
     pe_heap_commit \<leftarrow> rd32 f 0x138;
     pe_base_addr \<leftarrow> rd32 f 0x13C;
     pe_sizeof_image \<leftarrow> rd32 f 0x140;
     pe_checksum \<leftarrow> rd32 f 0x144;
     pe_timedate \<leftarrow> rd32 f 0x148;
     debug_pathname_addr \<leftarrow> rd32 f 0x14C;
     debug_filename_addr \<leftarrow> rd32 f 0x150;
     debug_unicode_filename_addr \<leftarrow> rd32 f 0x154;
     kernel_thunk_addr \<leftarrow> rd32 f 0x158;
     nonkernel_import_dir_addr \<leftarrow> rd32 f 0x15C;
     num_library_versions \<leftarrow> rd32 f 0x160;
     library_versions_addr \<leftarrow> rd32 f 0x164;
     kernel_library_version_addr \<leftarrow> rd32 f 0x168;
     xapi_library_version_addr \<leftarrow> rd32 f 0x16C;
     logo_bitmap_addr \<leftarrow> rd32 f 0x170;
     logo_bitmap_size \<leftarrow> rd32 f 0x174;
     Some \<lparr>h_magic = magic, h_base_addr = base_addr,
       h_sizeof_headers = sizeof_headers, h_sizeof_image = sizeof_image,
       h_sizeof_image_header = sizeof_image_header, h_timedate = timedate,
       h_certificate_addr = certificate_addr, h_num_sections = num_sections,
       h_section_headers_addr = section_headers_addr, h_init_flags = init_flags,
       h_entry_addr = entry_addr, h_tls_addr = tls_addr,
       h_pe_stack_commit = pe_stack_commit, h_pe_heap_reserve = pe_heap_reserve,
       h_pe_heap_commit = pe_heap_commit, h_pe_base_addr = pe_base_addr,
       h_pe_sizeof_image = pe_sizeof_image, h_pe_checksum = pe_checksum,
       h_pe_timedate = pe_timedate, h_debug_pathname_addr = debug_pathname_addr,
       h_debug_filename_addr = debug_filename_addr, h_debug_unicode_filename_addr = debug_unicode_filename_addr,
       h_kernel_thunk_addr = kernel_thunk_addr, h_nonkernel_import_dir_addr = nonkernel_import_dir_addr,
       h_num_library_versions = num_library_versions, h_library_versions_addr = library_versions_addr,
       h_kernel_library_version_addr = kernel_library_version_addr, h_xapi_library_version_addr = xapi_library_version_addr,
       h_logo_bitmap_addr = logo_bitmap_addr, h_logo_bitmap_size = logo_bitmap_size\<rparr>}"

fun title_from :: "nat \<Rightarrow> u8 list \<Rightarrow> nat \<Rightarrow> u16 list option" where
  "title_from 0 f off = Some []"
| "title_from (Suc n) f off = do {
     ch \<leftarrow> rd16 f off;
     if ch = 0 then Some [] else map_option ((#) ch) (title_from n f (off + 2))}"

fun rd32s :: "nat \<Rightarrow> u8 list \<Rightarrow> nat \<Rightarrow> u32 list option" where
  "rd32s 0 f off = Some []"
| "rd32s (Suc n) f off = do {v \<leftarrow> rd32 f off; map_option ((#) v) (rd32s n f (off + 4))}"

definition parse_certificate :: "u8 list \<Rightarrow> nat \<Rightarrow> certificate option" where
  "parse_certificate f off = do {
     size \<leftarrow> rd32 f (off + 0x00);
     timedate \<leftarrow> rd32 f (off + 0x04);
     title_id \<leftarrow> rd32 f (off + 0x08);
     title \<leftarrow> title_from 40 f (off + 0x0C);
     alternate_title_ids \<leftarrow> rd32s 16 f (off + 0x5C);
     allowed_media \<leftarrow> rd32 f (off + 0x9C);
     game_region \<leftarrow> rd32 f (off + 0xA0);
     game_ratings \<leftarrow> rd32 f (off + 0xA4);
     disc_number \<leftarrow> rd32 f (off + 0xA8);
     version \<leftarrow> rd32 f (off + 0xAC);
     Some \<lparr>c_size = size, c_timedate = timedate, c_title_id = title_id, c_title = title,
       c_alternate_title_ids = alternate_title_ids, c_allowed_media = allowed_media,
       c_game_region = game_region, c_game_ratings = game_ratings,
       c_disc_number = disc_number, c_version = version\<rparr>}"

text \<open>One section header at file offset \<open>s\<close>. The sections that are not parsed yet are
  value-initialised in the source (\<open>virtual_size = 0\<close>) and so never match an address; \<open>prev\<close> are
  the parsed ones. The fallback name stops at the first NUL of the inline field.\<close>

definition parse_section ::
  "u8 list \<Rightarrow> xbe_header \<Rightarrow> section_header list \<Rightarrow> nat \<Rightarrow> section_header option" where
  "parse_section f h prev s = do {
     flags \<leftarrow> rd32 f (s + 0x00);
     virtual_addr \<leftarrow> rd32 f (s + 0x04);
     virtual_size \<leftarrow> rd32 f (s + 0x08);
     raw_addr \<leftarrow> rd32 f (s + 0x0C);
     sizeof_raw \<leftarrow> rd32 f (s + 0x10);
     name_addr \<leftarrow> rd32 f (s + 0x14);
     ref_count \<leftarrow> rd32 f (s + 0x18);
     head_addr \<leftarrow> rd32 f (s + 0x1C);
     tail_addr \<leftarrow> rd32 f (s + 0x20);
     inline_name \<leftarrow> rd_bytes f (s + 0x24) 8;
     let sh = \<lparr>sh_flags = flags, sh_virtual_addr = virtual_addr, sh_virtual_size = virtual_size,
       sh_raw_addr = raw_addr, sh_sizeof_raw = sizeof_raw, sh_name = [],
       sh_section_name_addr = name_addr, sh_section_ref_count = ref_count,
       sh_head_shared_ref_count_addr = head_addr, sh_tail_shared_ref_count_addr = tail_addr\<rparr>;
     name \<leftarrow> cstring f h (prev @ [sh]) name_addr;
     Some (sh\<lparr>sh_name := if name = [] then takeWhile (\<lambda>c. c \<noteq> 0) inline_name else name\<rparr>)}"

fun parse_sections ::
  "nat \<Rightarrow> u8 list \<Rightarrow> xbe_header \<Rightarrow> section_header list \<Rightarrow> nat \<Rightarrow> (string + section_header list) option" where
  "parse_sections 0 f h prev s = Some (Inr prev)"
| "parse_sections (Suc n) f h prev s = do {
     sh \<leftarrow> parse_section f h prev s;
     if unat (sh_raw_addr sh) + unat (sh_sizeof_raw sh) > length f
     then Some (Inl ''section raw data extends past end of file'')
     else if sh_sizeof_raw sh > sh_virtual_size sh
     then Some (Inl ''section raw size exceeds virtual size'')
     else parse_sections n f h (prev @ [sh]) (s + kSectionHeaderSize)}"

text \<open>The image extent, a 64-bit sum in the source.\<close>

fun image_extent :: "section_header list \<Rightarrow> u32 \<Rightarrow> nat \<Rightarrow> string + nat" where
  "image_extent [] base extent = Inr extent"
| "image_extent (sh # shs) base extent =
     (let hi = unat (sh_virtual_addr sh) + unat (sh_virtual_size sh) in
      if sh_virtual_size sh > 0 \<and> hi > 0xFFFFFFFF then Inl ''section virtual range overflow''
      else if sh_virtual_size sh > 0 \<and> sh_virtual_addr sh < base
      then Inl ''section virtual address below image base''
      else image_extent shs base (if hi > extent then hi else extent))"

fun parse_libraries :: "nat \<Rightarrow> u8 list \<Rightarrow> nat \<Rightarrow> library_version list option" where
  "parse_libraries 0 f s = Some []"
| "parse_libraries (Suc n) f s = do {
     name \<leftarrow> rd_bytes f s 8;
     major \<leftarrow> rd16 f (s + 0x8);
     minor \<leftarrow> rd16 f (s + 0xA);
     build \<leftarrow> rd16 f (s + 0xC);
     flags \<leftarrow> rd16 f (s + 0xE);
     rest \<leftarrow> parse_libraries n f (s + kLibraryVersionSize);
     Some (\<lparr>lv_name = name, lv_major = major, lv_minor = minor, lv_build = build, lv_flags = flags\<rparr> # rest)}"

definition parse_tls :: "u8 list \<Rightarrow> nat \<Rightarrow> tls_directory option" where
  "parse_tls f off = do {
     data_start \<leftarrow> rd32 f (off + 0x00);
     data_end \<leftarrow> rd32 f (off + 0x04);
     index_addr \<leftarrow> rd32 f (off + 0x08);
     callbacks_addr \<leftarrow> rd32 f (off + 0x0C);
     zero_fill \<leftarrow> rd32 f (off + 0x10);
     characteristics \<leftarrow> rd32 f (off + 0x14);
     Some \<lparr>t_data_start = data_start, t_data_end = data_end, t_index_addr = index_addr,
       t_callbacks_addr = callbacks_addr, t_zero_fill = zero_fill, t_characteristics = characteristics\<rparr>}"

definition no_tls :: tls_directory where
  "no_tls = \<lparr>t_data_start = 0, t_data_end = 0, t_index_addr = 0, t_callbacks_addr = 0,
     t_zero_fill = 0, t_characteristics = 0\<rparr>"

section \<open>Putting the stages together\<close>

definition parse_bind ::
  "(string + 'a) option \<Rightarrow> ('a \<Rightarrow> (string + 'b) option) \<Rightarrow> (string + 'b) option" where
  "parse_bind m k = (case m of None \<Rightarrow> None | Some (Inl e) \<Rightarrow> Some (Inl e) | Some (Inr x) \<Rightarrow> k x)"

definition certificate_stage :: "u8 list \<Rightarrow> xbe_header \<Rightarrow> (string + certificate) option" where
  "certificate_stage f h =
     (if h_certificate_addr h = 0 then Some (Inl ''certificate address is zero'')
      else (case header_offset f h (h_certificate_addr h) of
          None \<Rightarrow> Some (Inl ''certificate address outside headers'')
        | Some off \<Rightarrow>
            if unat off + kCertificateMinSize > length f
            then Some (Inl ''certificate extends past end of file'')
            else map_option Inr (parse_certificate f (unat off))))"

definition section_stage :: "u8 list \<Rightarrow> xbe_header \<Rightarrow> (string + section_header list) option" where
  "section_stage f h =
     (if h_num_sections h > 0
      then (case header_offset f h (h_section_headers_addr h) of
          None \<Rightarrow> Some (Inl ''section headers outside headers'')
        | Some off \<Rightarrow>
            if unat off + kSectionHeaderSize * unat (h_num_sections h) > length f
            then Some (Inl ''section headers extend past end of file'')
            else parse_sections (unat (h_num_sections h)) f h [] (unat off))
      else Some (Inr []))"

text \<open>The entry and thunk addresses must lie in the image; the extent is cast to 32 bits.\<close>

definition extent_stage :: "xbe_header \<Rightarrow> section_header list \<Rightarrow> u32 \<Rightarrow> u32 \<Rightarrow> (string + u32) option" where
  "extent_stage h shs entry_va thunk_va =
     (case image_extent shs (h_base_addr h) (unat (h_base_addr h) + unat (h_sizeof_image h)) of
        Inl e \<Rightarrow> Some (Inl e)
      | Inr extent \<Rightarrow>
          let image_end_abs = of_nat extent in
          if list_ex (\<lambda>va. va < h_base_addr h \<or> va \<ge> image_end_abs) [entry_va, thunk_va]
          then Some (Inl ''decoded entry/thunk VA outside image (wrong XOR key?)'')
          else Some (Inr image_end_abs))"

definition library_stage :: "u8 list \<Rightarrow> xbe_header \<Rightarrow> (string + library_version list) option" where
  "library_stage f h =
     (if h_num_library_versions h > 0
      then (case header_offset f h (h_library_versions_addr h) of
          None \<Rightarrow> Some (Inl ''library versions outside headers'')
        | Some off \<Rightarrow>
            if unat off + kLibraryVersionSize * unat (h_num_library_versions h) > length f
            then Some (Inl ''library versions extend past end of file'')
            else map_option Inr (parse_libraries (unat (h_num_library_versions h)) f (unat off)))
      else Some (Inr []))"

definition tls_stage ::
  "u8 list \<Rightarrow> xbe_header \<Rightarrow> section_header list \<Rightarrow> u32 \<Rightarrow> (string + tls_directory option) option" where
  "tls_stage f h shs image_end_abs =
     (if h_tls_addr h \<noteq> 0
      then (case va_file_offset f h shs (h_tls_addr h) of
          None \<Rightarrow> Some (Inl ''TLS directory not present in file (header or section)'')
        | Some off \<Rightarrow>
            if unat off + kTlsDirectorySize > length f
            then Some (Inl ''TLS directory extends past end of file'')
            else do {
              t \<leftarrow> parse_tls f (unat off);
              if t_data_start t < h_base_addr h \<or> t_data_start t \<ge> image_end_abs \<or> \<not> tls_valid t
              then Some (Inl ''TLS template range outside image'')
              else if t_data_end t > image_end_abs then Some (Inl ''TLS template range outside image'')
              else if t_index_addr t < h_base_addr h \<or> t_index_addr t \<ge> image_end_abs
              then Some (Inl ''TLS index address outside image'')
              else Some (Inr (Some t))})
      else Some (Inr None))"

text \<open>The header checks, the type bit and the key removal.\<close>

definition header_stage :: "u8 list \<Rightarrow> (string + xbe_header) option" where
  "header_stage f =
     (if length f < kHeaderSize then Some (Inl ''file smaller than XBE header (0x178)'')
      else do {
        h \<leftarrow> parse_header f;
        if h_magic h \<noteq> kMagic then Some (Inl ''bad magic (expected 'XBEH')'')
        else if h_base_addr h = 0 \<or> h_sizeof_image h = 0 \<or> h_base_addr h > 0xFFFFFFFF - h_sizeof_image h
        then Some (Inl ''unreasonable base_addr/sizeof_image'')
        else if h_sizeof_headers h > h_sizeof_image h
        then Some (Inl ''sizeof_headers exceeds sizeof_image'')
        else Some (Inr h)})"

definition xbe_type_of :: "xbe_header \<Rightarrow> xbe_type" where
  "xbe_type_of h = (if h_kernel_thunk_addr h AND 0x80000000 \<noteq> 0 then Debug else Retail)"

definition ep_key :: "xbe_type \<Rightarrow> u32" where
  "ep_key ty = (if ty = Debug then kXorEpDebug else kXorEpRetail)"

definition kt_key :: "xbe_type \<Rightarrow> u32" where
  "kt_key ty = (if ty = Debug then kXorKtDebug else kXorKtRetail)"

definition decode_entry :: "xbe_header \<Rightarrow> u32" where
  "decode_entry h = h_entry_addr h XOR ep_key (xbe_type_of h)"

definition decode_thunk :: "xbe_header \<Rightarrow> u32" where
  "decode_thunk h = h_kernel_thunk_addr h XOR kt_key (xbe_type_of h)"

definition parse_impl :: "u8 list \<Rightarrow> (string + xbe_image) option" where
  "parse_impl f =
     parse_bind (header_stage f) (\<lambda>h.
     parse_bind (certificate_stage f h) (\<lambda>cert.
     parse_bind (section_stage f h) (\<lambda>shs.
     parse_bind (extent_stage h shs (decode_entry h) (decode_thunk h)) (\<lambda>image_end.
     parse_bind (library_stage f h) (\<lambda>libs.
     parse_bind (tls_stage f h shs image_end) (\<lambda>tls.
       Some (Inr \<lparr>xi_file = f, xi_header = h, xi_cert = cert, xi_sections = shs, xi_libs = libs,
         xi_tls = (case tls of None \<Rightarrow> no_tls | Some t \<Rightarrow> t), xi_tls_present = (tls \<noteq> None),
         xi_type = xbe_type_of h, xi_entry_va = decode_entry h, xi_kernel_thunk_va = decode_thunk h,
         xi_image_end_abs = image_end\<rparr>)))))))"

section \<open>No read leaves the file\<close>

lemma rd_defined:
  "rd_bytes f off n \<noteq> None \<longleftrightarrow> off + n \<le> length f"
  "rd32 f off \<noteq> None \<longleftrightarrow> off + 4 \<le> length f"
  "rd16 f off \<noteq> None \<longleftrightarrow> off + 2 \<le> length f"
  by (auto simp: rd_bytes_def rd32_def rd16_def)

lemma rd_SomeE:
  "off + 4 \<le> length f \<Longrightarrow> \<exists>v. rd32 f off = Some v"
  "off + 2 \<le> length f \<Longrightarrow> \<exists>w. rd16 f off = Some w"
  "off + n \<le> length f \<Longrightarrow> \<exists>bs. rd_bytes f off n = Some bs"
  by (auto simp: rd_bytes_def rd32_def rd16_def)

lemma bind_defined:
  "m \<noteq> None \<Longrightarrow> (\<And>x. m = Some x \<Longrightarrow> k x \<noteq> None) \<Longrightarrow> Option.bind m k \<noteq> None"
  by (cases m) auto

lemma parse_header_defined: "kHeaderSize \<le> length f \<Longrightarrow> parse_header f \<noteq> None"
  unfolding parse_header_def by (intro bind_defined) (simp_all add: rd_defined kHeaderSize_def del: not_None_eq)

lemma title_from_defined: "off + 2 * n \<le> length f \<Longrightarrow> title_from n f off \<noteq> None"
proof (induction n f off rule: title_from.induct)
  case (2 n f off)
  then obtain v where "rd16 f off = Some v" using rd_SomeE(2) [of off f] by auto
  with 2 show ?case by auto
qed simp

lemma rd32s_defined: "off + 4 * n \<le> length f \<Longrightarrow> rd32s n f off \<noteq> None"
proof (induction n f off rule: rd32s.induct)
  case (2 n f off)
  then obtain v where "rd32 f off = Some v" using rd_SomeE(1) [of off f] by auto
  with 2 show ?case by auto
qed simp

lemma parse_certificate_defined:
  "off + kCertificateMinSize \<le> length f \<Longrightarrow> parse_certificate f off \<noteq> None"
  unfolding parse_certificate_def
  by (intro bind_defined title_from_defined rd32s_defined)
    (simp_all add: rd_defined kCertificateMinSize_def del: not_None_eq)

lemma cstring_from_defined: "cstring_from n f off \<noteq> None"
  by (induction n f off rule: cstring_from.induct) (auto simp: rd8_def)

lemma cstring_defined: "cstring f h shs va \<noteq> None"
  unfolding cstring_def using cstring_from_defined by (auto split: option.split)

lemma parse_section_defined:
  "s + kSectionHeaderSize \<le> length f \<Longrightarrow> parse_section f h prev s \<noteq> None"
  unfolding parse_section_def Let_def
  by (intro bind_defined cstring_defined) (simp_all add: rd_defined kSectionHeaderSize_def del: not_None_eq)

lemma parse_sections_defined:
  "s + kSectionHeaderSize * n \<le> length f \<Longrightarrow> parse_sections n f h prev s \<noteq> None"
proof (induction n f h prev s rule: parse_sections.induct)
  case (2 n f h prev s)
  then obtain sh where "parse_section f h prev s = Some sh"
    using parse_section_defined [of s f h prev] by auto
  with 2 show ?case by auto
qed simp

lemma parse_libraries_defined:
  "s + kLibraryVersionSize * n \<le> length f \<Longrightarrow> parse_libraries n f s \<noteq> None"
proof (induction n f s rule: parse_libraries.induct)
  case (2 n f s)
  then have "s + 0x10 \<le> length f" by (simp add: kLibraryVersionSize_def)
  then show ?case unfolding parse_libraries.simps
    using 2 by (intro bind_defined) (simp_all add: rd_defined del: not_None_eq)
qed simp

lemma parse_tls_defined: "off + kTlsDirectorySize \<le> length f \<Longrightarrow> parse_tls f off \<noteq> None"
  unfolding parse_tls_def
  by (intro bind_defined) (simp_all add: rd_defined kTlsDirectorySize_def del: not_None_eq)

lemma parse_bind_defined:
  "m \<noteq> None \<Longrightarrow> (\<And>x. m = Some (Inr x) \<Longrightarrow> k x \<noteq> None) \<Longrightarrow> parse_bind m k \<noteq> None"
  by (auto simp: parse_bind_def split: option.splits sum.splits)

lemma header_stage_defined: "header_stage f \<noteq> None"
proof (cases "length f < kHeaderSize")
  case False
  then obtain h where "parse_header f = Some h" using parse_header_defined [of f] by auto
  then show ?thesis by (simp add: header_stage_def)
qed (simp add: header_stage_def)

lemma certificate_stage_defined: "certificate_stage f h \<noteq> None"
  using parse_certificate_defined by (auto simp: certificate_stage_def split: option.splits)

lemma section_stage_defined: "section_stage f h \<noteq> None"
  using parse_sections_defined by (auto simp: section_stage_def split: option.splits)

lemma extent_stage_defined: "extent_stage h shs e t \<noteq> None"
  by (simp add: extent_stage_def Let_def split: sum.splits)

lemma library_stage_defined: "library_stage f h \<noteq> None"
  using parse_libraries_defined by (auto simp: library_stage_def split: option.splits)

lemma tls_stage_defined: "tls_stage f h shs e \<noteq> None"
proof (cases "va_file_offset f h shs (h_tls_addr h)")
  case (Some off)
  show ?thesis
  proof (cases "unat off + kTlsDirectorySize > length f")
    case False
    then obtain t where "parse_tls f (unat off) = Some t" using parse_tls_defined [of "unat off" f] by auto
    with Some False show ?thesis by (simp add: tls_stage_def)
  qed (simp add: tls_stage_def Some)
qed (simp add: tls_stage_def)

lemmas stage_defined = header_stage_defined certificate_stage_defined section_stage_defined
  extent_stage_defined library_stage_defined tls_stage_defined

section \<open>What an accepted image guarantees\<close>

lemma parse_bind_InrE:
  assumes "parse_bind m k = Some (Inr y)"
  obtains x where "m = Some (Inr x)" "k x = Some (Inr y)"
  using assms by (auto simp: parse_bind_def split: option.splits sum.splits)

definition section_in_file :: "u8 list \<Rightarrow> section_header \<Rightarrow> bool" where
  "section_in_file f sh \<longleftrightarrow> unat (sh_raw_addr sh) + unat (sh_sizeof_raw sh) \<le> length f \<and>
     sh_sizeof_raw sh \<le> sh_virtual_size sh"

lemma parse_sections_ok:
  "parse_sections n f h prev s = Some (Inr shs) \<Longrightarrow> list_all (section_in_file f) prev \<Longrightarrow>
     list_all (section_in_file f) shs \<and> length shs = length prev + n"
proof (induction n f h prev s rule: parse_sections.induct)
  case (2 n f h prev s)
  then show ?case
    by (cases "parse_section f h prev s") (auto simp: section_in_file_def split: if_splits)
qed simp

definition section_in_image :: "u32 \<Rightarrow> nat \<Rightarrow> section_header \<Rightarrow> bool" where
  "section_in_image base extent sh \<longleftrightarrow>
     unat (sh_virtual_addr sh) + unat (sh_virtual_size sh) \<le> extent \<and>
     (sh_virtual_size sh > 0 \<longrightarrow> base \<le> sh_virtual_addr sh)"

lemma image_extent_ok:
  "image_extent shs base ext = Inr ext' \<Longrightarrow> ext < 2 ^ 32 \<Longrightarrow>
     ext \<le> ext' \<and> ext' < 2 ^ 32 \<and> list_all (section_in_image base ext') shs"
proof (induction shs base ext rule: image_extent.induct)
  case (2 sh shs base ext)
  let ?hi = "unat (sh_virtual_addr sh) + unat (sh_virtual_size sh)"
  have "?hi < 2 ^ 32"
    using 2 unat_lt2p [of "sh_virtual_addr sh"]
    by (cases "sh_virtual_size sh = 0") (auto simp: Let_def word_gt_0 split: if_splits)
  with 2 show ?case
    by (auto simp: Let_def section_in_image_def not_less split: if_splits)
qed simp

lemma header_stage_ok:
  assumes "header_stage f = Some (Inr h)"
  shows "kHeaderSize \<le> length f \<and> h_magic h = kMagic \<and> h_base_addr h \<noteq> 0 \<and> h_sizeof_image h \<noteq> 0 \<and>
    unat (h_base_addr h) + unat (h_sizeof_image h) < 2 ^ 32 \<and> h_sizeof_headers h \<le> h_sizeof_image h"
proof -
  from assms obtain h0 where "parse_header f = Some h0" "kHeaderSize \<le> length f"
    by (cases "parse_header f") (auto simp: header_stage_def split: if_splits)
  with assms have h: "h_magic h = kMagic" "h_base_addr h \<noteq> 0" "h_sizeof_image h \<noteq> 0"
    "h_base_addr h \<le> 0xFFFFFFFF - h_sizeof_image h" "h_sizeof_headers h \<le> h_sizeof_image h"
    by (auto simp: header_stage_def not_less split: if_splits)
  have "h_sizeof_image h \<le> 0xFFFFFFFF" using word_le_nat_alt unat_lt2p [of "h_sizeof_image h"] by fastforce
  then have "unat (0xFFFFFFFF - h_sizeof_image h) = 0xFFFFFFFF - unat (h_sizeof_image h)"
    by (simp add: unat_sub)
  with h(4) have "unat (h_base_addr h) \<le> 0xFFFFFFFF - unat (h_sizeof_image h)"
    by (simp add: word_le_nat_alt)
  moreover have "unat (h_sizeof_image h) < 2 ^ 32" using unat_lt2p [of "h_sizeof_image h"] by simp
  ultimately show ?thesis using h \<open>kHeaderSize \<le> length f\<close> by auto
qed

lemma extent_stage_ok:
  assumes "extent_stage h shs ev tv = Some (Inr e)" "unat (h_base_addr h) + unat (h_sizeof_image h) < 2 ^ 32"
  shows "unat (h_base_addr h) + unat (h_sizeof_image h) \<le> unat e \<and>
    list_all (section_in_image (h_base_addr h) (unat e)) shs \<and>
    h_base_addr h \<le> ev \<and> ev < e \<and> h_base_addr h \<le> tv \<and> tv < e"
proof -
  from assms(1) obtain ext where ext: "image_extent shs (h_base_addr h)
      (unat (h_base_addr h) + unat (h_sizeof_image h)) = Inr ext" and e: "e = of_nat ext"
    by (auto simp: extent_stage_def Let_def split: sum.splits if_splits)
  note ok = image_extent_ok [OF ext assms(2)]
  then have "unat e = ext" by (simp add: e unat_of_nat_lt)
  with ok ext assms(1) e show ?thesis
    by (auto simp: extent_stage_def Let_def not_less not_le split: if_splits)
qed

definition tls_in_image :: "u32 \<Rightarrow> u32 \<Rightarrow> tls_directory \<Rightarrow> bool" where
  "tls_in_image base e t \<longleftrightarrow> base \<le> t_data_start t \<and> t_data_start t < e \<and> t_data_start t \<le> t_data_end t \<and>
     t_data_end t \<le> e \<and> base \<le> t_index_addr t \<and> t_index_addr t < e"

lemma tls_stage_ok:
  assumes "tls_stage f h shs e = Some (Inr tls)"
  shows "(tls \<noteq> None \<longleftrightarrow> h_tls_addr h \<noteq> 0) \<and> (\<forall>t. tls = Some t \<longrightarrow> tls_in_image (h_base_addr h) e t)"
proof (cases "h_tls_addr h = 0")
  case False
  with assms obtain off where off: "va_file_offset f h shs (h_tls_addr h) = Some off"
    "unat off + kTlsDirectorySize \<le> length f"
    by (auto simp: tls_stage_def split: option.splits if_splits)
  then obtain t where "parse_tls f (unat off) = Some t" using parse_tls_defined [of "unat off" f] by auto
  with assms False off have "tls = Some t \<and> tls_in_image (h_base_addr h) e t"
    by (simp add: tls_stage_def tls_in_image_def tls_valid_def not_less not_le split: if_splits)
  with False show ?thesis by simp
qed (use assms in \<open>simp add: tls_stage_def\<close>)

section \<open>Properties\<close>

text \<open>(C14) The parser never reads outside the file: for every byte sequence, however malformed, all
  its reads are in bounds, those of the names that the sections point at included. The string at any
  address of any header and section table is read in bounds too, so the later look-ups of the
  debug path names are safe.\<close>

theorem parse_in_bounds: "parse_impl f \<noteq> None \<and> (\<forall>h shs va. cstring f h shs va \<noteq> None)"
proof (intro conjI allI)
  show "parse_impl f \<noteq> None" unfolding parse_impl_def by (intro parse_bind_defined stage_defined) simp
qed (rule cstring_defined)

text \<open>(C17) What an accepted image guarantees to the mapper and the kernel: the image and every
  section lie in the 32-bit space between the base and \<open>image_end_abs\<close>, raw data lies in the file
  and is not larger than the section, the decoded entry point and thunk table lie in the image,
  and so do the TLS template and the TLS index.\<close>

theorem parse_guarantees:
  assumes "parse_impl f = Some (Inr img)"
  shows "xi_file img = f \<and> length (xi_sections img) = unat (h_num_sections (xi_header img)) \<and>
    unat (h_base_addr (xi_header img)) + unat (h_sizeof_image (xi_header img)) \<le> unat (xi_image_end_abs img) \<and>
    list_all (\<lambda>sh. section_in_file f sh \<and>
      section_in_image (h_base_addr (xi_header img)) (unat (xi_image_end_abs img)) sh) (xi_sections img) \<and>
    h_base_addr (xi_header img) \<le> xi_entry_va img \<and> xi_entry_va img < xi_image_end_abs img \<and>
    h_base_addr (xi_header img) \<le> xi_kernel_thunk_va img \<and> xi_kernel_thunk_va img < xi_image_end_abs img \<and>
    (xi_tls_present img \<longleftrightarrow> h_tls_addr (xi_header img) \<noteq> 0) \<and>
    (xi_tls_present img \<longrightarrow> tls_in_image (h_base_addr (xi_header img)) (xi_image_end_abs img) (xi_tls img))"
proof -
  from assms obtain h cert shs e libs tls where
    h: "header_stage f = Some (Inr h)" and shs: "section_stage f h = Some (Inr shs)"
    and e: "extent_stage h shs (decode_entry h) (decode_thunk h) = Some (Inr e)"
    and tls: "tls_stage f h shs e = Some (Inr tls)"
    and img0: "Some (Inr \<lparr>xi_file = f, xi_header = h, xi_cert = cert, xi_sections = shs, xi_libs = libs,
         xi_tls = (case tls of None \<Rightarrow> no_tls | Some t \<Rightarrow> t), xi_tls_present = (tls \<noteq> None),
         xi_type = xbe_type_of h, xi_entry_va = decode_entry h, xi_kernel_thunk_va = decode_thunk h,
         xi_image_end_abs = e\<rparr>) = (Some (Inr img) :: (string + xbe_image) option)"
    unfolding parse_impl_def by (elim parse_bind_InrE) (rule that)
  from img0 have img: "img = \<lparr>xi_file = f, xi_header = h, xi_cert = cert, xi_sections = shs, xi_libs = libs,
         xi_tls = (case tls of None \<Rightarrow> no_tls | Some t \<Rightarrow> t), xi_tls_present = (tls \<noteq> None),
         xi_type = xbe_type_of h, xi_entry_va = decode_entry h, xi_kernel_thunk_va = decode_thunk h,
         xi_image_end_abs = e\<rparr>" by simp
  have sec: "list_all (section_in_file f) shs \<and> length shs = unat (h_num_sections h)"
  proof (cases "h_num_sections h = 0")
    case True with shs show ?thesis by (simp add: section_stage_def)
  next
    case False
    with shs show ?thesis
      by (auto simp: section_stage_def word_gt_0 split: option.splits if_splits dest: parse_sections_ok)
  qed
  from header_stage_ok [OF h] extent_stage_ok [OF e] tls_stage_ok [OF tls] sec show ?thesis
    by (auto simp: img list_all_iff)
qed

text \<open>A small image: one certificate, one writable section with eight raw bytes.\<close>

definition put32 :: "nat \<times> u32 \<Rightarrow> u8 list \<Rightarrow> u8 list" where
  "put32 p f = (let off = fst p; b = le_bytes 4 (snd p) in
     f[off := b ! 0, off + 1 := b ! 1, off + 2 := b ! 2, off + 3 := b ! 3])"

definition demo_xbe :: "u8 list" where
  "demo_xbe = fold put32
     [(0x000, kMagic), (0x104, 8), (0x108, 0x380), (0x10C, 0x400), (0x118, 8 + 0x178), (0x11C, 1),
      (0x120, 8 + 0x348), (0x128, (8 + 0x380) XOR kXorEpRetail), (0x158, (8 + 0x384) XOR kXorKtRetail),
      (0x348, kSectionWriteable), (0x34C, 8 + 0x380), (0x350, 0x20), (0x354, 0x380), (0x358, 8),
      (0x380, 0x80000003)]
     (replicate 0x388 0)"

lemma length_put32 [byte_simps]: "length (put32 p f) = length f"
  by (simp add: put32_def Let_def)

lemma rd_bytes_update: "i < p \<or> p + n \<le> i \<Longrightarrow> rd_bytes (f[i := b]) p n = rd_bytes f p n"
  by (auto simp: rd_bytes_def intro!: nth_equalityI)

lemma rd_bytes_put32 [byte_simps]:
  "p + n \<le> off \<or> off + 4 \<le> p \<Longrightarrow> rd_bytes (put32 (off, v) f) p n = rd_bytes f p n"
  by (auto simp: put32_def Let_def rd_bytes_update)

lemma rd_bytes_put32_same:
  assumes "off + 4 \<le> length f" shows "rd_bytes (put32 (off, v) f) off 4 = Some (le_bytes 4 v)"
proof -
  have "take 4 (drop off (put32 (off, v) f)) ! i = le_bytes 4 v ! i" if "i < 4" for i
  proof -
    from that consider "i = 0" | "i = 1" | "i = 2" | "i = 3" by linarith
    then show ?thesis using assms by cases (simp_all add: put32_def Let_def nth_list_update)
  qed
  with assms show ?thesis by (auto simp: rd_bytes_def length_put32 intro!: nth_equalityI)
qed

lemma rd32_put32 [byte_simps]:
  "p + 4 \<le> off \<or> off + 4 \<le> p \<Longrightarrow> rd32 (put32 (off, v) f) p = rd32 f p"
  "p + 2 \<le> off \<or> off + 4 \<le> p \<Longrightarrow> rd16 (put32 (off, v) f) p = rd16 f p"
  "off + 4 \<le> length f \<Longrightarrow> rd32 (put32 (off, v) f) off = Some v"
  by (simp_all add: rd32_def rd16_def rd_bytes_put32 rd_bytes_put32_same le_word_le_bytes_full)

lemma rd_replicate [byte_simps]:
  "p + n \<le> k \<Longrightarrow> rd_bytes (replicate k 0) p n = Some (replicate n 0)"
  "p + 4 \<le> k \<Longrightarrow> rd32 (replicate k 0) p = Some 0" "p + 2 \<le> k \<Longrightarrow> rd16 (replicate k 0) p = Some 0"
  by (simp_all add: rd_bytes_def rd32_def rd16_def numeral_eq_Suc)

lemma counted_reads:
  "title_from (numeral k) f off = rd16 f off \<bind>
     (\<lambda>ch. if ch = 0 then Some [] else map_option ((#) ch) (title_from (pred_numeral k) f (off + 2)))"
  "rd32s (numeral k) f off = rd32 f off \<bind> (\<lambda>v. map_option ((#) v) (rd32s (pred_numeral k) f (off + 4)))"
  by (simp_all add: numeral_eq_Suc)

lemmas parse_simps = parse_impl_def parse_bind_def header_stage_def kHeaderSize_def parse_header_def kMagic_def
  certificate_stage_def header_offset_def kCertificateMinSize_def parse_certificate_def
  section_stage_def kSectionHeaderSize_def extent_stage_def library_stage_def tls_stage_def
  counted_reads parse_section_def cstring_def va_file_offset_def
  decode_entry_def decode_thunk_def ep_key_def kt_key_def xbe_type_of_def kXorKtRetail_def kXorEpRetail_def
  kSectionWriteable_def Let_def

lemma demo_xbe_parses:
  "\<exists>img. parse_impl demo_xbe = Some (Inr img) \<and> h_base_addr (xi_header img) = 8 \<and>
     h_sizeof_headers (xi_header img) = 0x380"
  unfolding demo_xbe_def fold_simps by (simp add: parse_simps byte_simps)

theorem parse_guarantees_witness:
  "\<exists>img. parse_impl demo_xbe = Some (Inr img) \<and> xi_entry_va img < xi_image_end_abs img"
proof -
  from demo_xbe_parses obtain img where img: "parse_impl demo_xbe = Some (Inr img)" by blast
  with parse_guarantees [OF img] show ?thesis by blast
qed

text \<open>Retail and debug images are told apart by the encoded thunk address alone: for any thunk
  table in the lower half of the address space, either encoding is recognised and decoded back,
  together with the entry point.\<close>

lemma key_detection:
  assumes "va < 0x80000000" "h_kernel_thunk_addr h = va XOR kt_key ty" "h_entry_addr h = ep XOR ep_key ty"
  shows "xbe_type_of h = ty \<and> decode_thunk h = va \<and> decode_entry h = ep"
proof -
  have type: "xbe_type_of h = (if bit (h_kernel_thunk_addr h) 31 then Debug else Retail)"
    by (simp add: xbe_type_of_def bit_iff_and_push_bit_not_eq_0)
  have "\<not> bit va 31" using assms(1) by (simp add: bit_iff_odd div_word_less)
  moreover have "bit (kt_key ty) 31 \<longleftrightarrow> ty = Debug"
    by (cases ty) (simp_all add: kt_key_def kXorKtDebug_def kXorKtRetail_def)
  ultimately have "xbe_type_of h = ty"
    using assms(2) type by (cases ty) (simp_all add: bit_xor_iff)
  then show ?thesis using assms(2,3) by (simp add: decode_thunk_def decode_entry_def xor.assoc)
qed

lemma key_detection_witness:
  "\<exists>h. h_kernel_thunk_addr h = 0x11000 XOR kt_key Debug \<and> xbe_type_of h = Debug \<and>
     decode_thunk h = 0x11000 \<and> decode_entry h = 0x12345"
proof -
  let ?h = "undefined\<lparr>h_kernel_thunk_addr := 0x11000 XOR kt_key Debug, h_entry_addr := 0x12345 XOR ep_key Debug\<rparr>"
  have "xbe_type_of ?h = Debug \<and> decode_thunk ?h = 0x11000 \<and> decode_entry ?h = 0x12345"
    by (rule key_detection) simp_all
  then show ?thesis by (intro exI [of _ ?h]) simp
qed

end
