(* ===== verification/Xbe_Load.thy ===== *)
theory Xbe_Load
  imports Xbe_Ram Xbe_Image
begin

text \<open>
  The mapped image \<open>LoadedXbe\<close> (\<open>src/src/xbe_loader.cpp\<close>): copying headers and sections into the RAM
  window, and the TLS and kernel thunk tables read back from it. Two ways to leave the defined
  behaviour of the source are outcomes of their own: reading past the end of the file buffer
  (\<open>FileOverread\<close>) and \<open>memset\<close> into a write-protected page (\<open>WriteFault\<close>).
\<close>

section \<open>Mapping\<close>

datatype map_result = Mapped xbe_ram | MapError string | FileOverread | WriteFault

text \<open>\<open>ram_.write_bytes(va, file + off, n)\<close>: the source is touched only if the target is writable.\<close>

definition copy_from_file ::
  "u8 list \<Rightarrow> nat \<Rightarrow> u32 \<Rightarrow> u32 \<Rightarrow> xbe_ram \<Rightarrow> string \<Rightarrow> (xbe_ram \<Rightarrow> map_result) \<Rightarrow> map_result" where
  "copy_from_file f off n va r err k =
     (if \<not> writable r va n then MapError err
      else (case rd_bytes f off (unat n) of
          None \<Rightarrow> FileOverread
        | Some bs \<Rightarrow> k (snd (write_bytes va bs r))))"

text \<open>The BSS fill: \<open>memset\<close> through \<open>host_ptr\<close>, without a permission check.\<close>

definition zero_fill :: "u32 \<Rightarrow> u32 \<Rightarrow> xbe_ram \<Rightarrow> (xbe_ram \<Rightarrow> map_result) \<Rightarrow> map_result" where
  "zero_fill va n r k =
     (case host_ptr r va of
        None \<Rightarrow> MapError ''section zero-fill range uncommitted''
      | Some z \<Rightarrow> if writable r z n
          then k (r\<lparr>xr_mem := store_bytes z (replicate (unat n) 0) (xr_mem r)\<rparr>) else WriteFault)"

definition protect_section :: "section_header \<Rightarrow> xbe_ram \<Rightarrow> xbe_ram" where
  "protect_section sh r =
     (let va = sh_virtual_addr sh;
          r1 = (if sh_flags sh AND kSectionWriteable = 0 then snd (protect_ro va (sh_virtual_size sh) r) else r);
          r2 = (if sh_flags sh AND kSectionHeadPageReadonly \<noteq> 0 then snd (protect_ro va 1 r1) else r1)
      in if sh_flags sh AND kSectionTailPageReadonly \<noteq> 0
         then snd (protect_ro (va + sh_virtual_size sh - 1) 1 r2) else r2)"

definition map_section ::
  "u8 list \<Rightarrow> section_header \<Rightarrow> xbe_ram \<Rightarrow> (xbe_ram \<Rightarrow> map_result) \<Rightarrow> map_result" where
  "map_section f sh r k =
     (let va = sh_virtual_addr sh; (b, r1) = commit va (sh_virtual_size sh) r in
      if \<not> b then MapError ''cannot commit section pages''
      else let fill = (\<lambda>r2. if sh_virtual_size sh > sh_sizeof_raw sh
             then zero_fill (va + sh_sizeof_raw sh) (sh_virtual_size sh - sh_sizeof_raw sh) r2
                    (\<lambda>r3. k (protect_section sh r3))
             else k (protect_section sh r2)) in
        if sh_sizeof_raw sh > 0
        then copy_from_file f (unat (sh_raw_addr sh)) (sh_sizeof_raw sh) va r1
               ''cannot copy section raw data'' fill
        else fill r1)"

fun map_sections :: "u8 list \<Rightarrow> section_header list \<Rightarrow> nat \<Rightarrow> xbe_ram \<Rightarrow> map_result" where
  "map_sections f [] prev_end r = Mapped r"
| "map_sections f (sh # shs) prev_end r =
     (if sh_virtual_size sh = 0 then map_sections f shs prev_end r
      else if unat (sh_virtual_addr sh) < prev_end then MapError ''overlapping sections''
      else map_section f sh r (\<lambda>r'.
             map_sections f shs (unat (sh_virtual_addr sh) + unat (sh_virtual_size sh)) r'))"

definition map_image :: "xbe_image \<Rightarrow> xbe_ram \<Rightarrow> map_result" where
  "map_image img r =
     (let h = xi_header img; (b, r1) = commit (h_base_addr h) (h_sizeof_headers h) r in
      if \<not> b then MapError ''cannot commit header pages''
      else copy_from_file (xi_file img) 0 (h_sizeof_headers h) (h_base_addr h) r1
             ''cannot copy header block'' (\<lambda>r2. map_sections (xi_file img) (xi_sections img) 0 r2))"

record loaded_xbe =
  lx_image :: xbe_image
  lx_ram :: xbe_ram

text \<open>\<open>load\<close>: parse, then map into the given fresh window.\<close>

datatype load_result = Loaded loaded_xbe | LoadError string | LoadCrash

definition load_xbe :: "u8 list \<Rightarrow> xbe_ram \<Rightarrow> load_result" where
  "load_xbe f r =
     (case parse_impl f of
        None \<Rightarrow> LoadCrash
      | Some (Inl e) \<Rightarrow> LoadError e
      | Some (Inr img) \<Rightarrow> (case map_image img r of
            Mapped r' \<Rightarrow> Loaded \<lparr>lx_image = img, lx_ram = r'\<rparr>
          | MapError e \<Rightarrow> LoadError e
          | _ \<Rightarrow> LoadCrash))"

section \<open>Reading tables back from the mapped image\<close>

text \<open>\<open>tls_template\<close>: the buffer has \<open>raw_size + zero_fill\<close> bytes, a 32-bit sum; \<open>None\<close> is a copy
  that runs over its end.\<close>

definition tls_template :: "loaded_xbe \<Rightarrow> u8 list option" where
  "tls_template lx =
     (let t = xi_tls (lx_image lx); total = tls_raw_size t + t_zero_fill t in
      if \<not> xi_tls_present (lx_image lx) then Some []
      else if tls_raw_size t > 0
      then (case read_bytes (lx_ram lx) (t_data_start t) (tls_raw_size t) of
          None \<Rightarrow> Some []
        | Some bs \<Rightarrow> if tls_raw_size t \<le> total
            then Some (bs @ replicate (unat total - length bs) 0) else None)
      else Some (replicate (unat total) 0))"

definition write_tls_index :: "u32 \<Rightarrow> loaded_xbe \<Rightarrow> bool \<times> loaded_xbe" where
  "write_tls_index index lx =
     (if \<not> xi_tls_present (lx_image lx) then (False, lx)
      else let (b, r) = write32 (t_index_addr (xi_tls (lx_image lx))) index (lx_ram lx)
        in (b, lx\<lparr>lx_ram := r\<rparr>))"

text \<open>Both table walks: stop at a zero entry, give the empty list when the walk leaves the image.\<close>

fun walk_table :: "nat \<Rightarrow> xbe_ram \<Rightarrow> u32 \<Rightarrow> u32 \<Rightarrow> u32 \<Rightarrow> u32 list option" where
  "walk_table 0 r base limit va = Some []"
| "walk_table (Suc n) r base limit va =
     (if va < base \<or> va > limit - 4 then None
      else (case read32 r va of
          None \<Rightarrow> None
        | Some e \<Rightarrow> if e = 0 then Some [] else map_option ((#) e) (walk_table n r base limit (va + 4))))"

definition tls_callbacks :: "loaded_xbe \<Rightarrow> u32 list" where
  "tls_callbacks lx =
     (let img = lx_image lx in
      if \<not> xi_tls_present img then []
      else if t_callbacks_addr (xi_tls img) = 0 then []
      else (case walk_table 1024 (lx_ram lx) (h_base_addr (xi_header img)) (xi_image_end_abs img)
                   (t_callbacks_addr (xi_tls img)) of None \<Rightarrow> [] | Some cbs \<Rightarrow> cbs))"

definition kernel_thunk_ordinals :: "loaded_xbe \<Rightarrow> u32 list" where
  "kernel_thunk_ordinals lx =
     (let img = lx_image lx in
      (case walk_table 4096 (lx_ram lx) (h_base_addr (xi_header img)) (xi_image_end_abs img)
              (xi_kernel_thunk_va img) of None \<Rightarrow> [] | Some es \<Rightarrow> map (\<lambda>e. e AND 0x7FFFFFFF) es))"

section \<open>How mapping changes memory\<close>

text \<open>\<open>grows r r'\<close>: same window, at least the committed pages of \<open>r\<close>.\<close>

definition grows :: "xbe_ram \<Rightarrow> xbe_ram \<Rightarrow> bool" where
  "grows r r' \<longleftrightarrow> ram_wf r' \<and> xr_size r' = xr_size r \<and> xr_page_size r' = xr_page_size r \<and> xr_base r' = xr_base r \<and>
     (\<forall>p. page_access r p \<noteq> NoAccess \<longrightarrow> page_access r' p \<noteq> NoAccess)"

lemma grows_trans: "grows r r' \<Longrightarrow> grows r' r'' \<Longrightarrow> grows r r''"
  by (simp add: grows_def)

lemma grows_refl: "ram_wf r \<Longrightarrow> grows r r"
  by (simp add: grows_def)

lemma grows_mem: "ram_wf r \<Longrightarrow> grows r (r\<lparr>xr_mem := m\<rparr>)"
  by (simp add: grows_def ram_simps page_access_def)

lemma grows_committed: "grows r r' \<Longrightarrow> ram_wf r \<Longrightarrow> is_committed r a n \<Longrightarrow> is_committed r' a n"
  by (auto simp: grows_def is_committed_access range_ok_def page_list_def)

lemma commit_grows:
  assumes "ram_wf r" "commit a n r = (True, r')"
  shows "grows r r' \<and> is_committed r' a n \<and> xr_mem r' = xr_mem r"
  using commit_wf [OF assms] by (auto simp: grows_def is_committed_access range_ok_def page_list_def)

lemma protect_ro_grows:
  assumes "ram_wf r" shows "grows r (snd (protect_ro a n r)) \<and> xr_mem (snd (protect_ro a n r)) = xr_mem r"
proof -
  have "xr_committed (snd (protect_ro a n r)) = xr_committed r"
    using protect_pages_effect [of True "page_list r a n" r] by (metis prod.collapse protect_ro_def snd_conv)
  moreover have "ram_wf (snd (protect_ro a n r)) \<and> xr_mem (snd (protect_ro a n r)) = xr_mem r \<and>
      xr_size (snd (protect_ro a n r)) = xr_size r \<and> xr_base (snd (protect_ro a n r)) = xr_base r \<and>
      xr_page_size (snd (protect_ro a n r)) = xr_page_size r"
    using protect_wf [OF assms, of True a n] by (metis prod.collapse)
  ultimately show ?thesis by (simp add: grows_def page_access_def)
qed

lemma protect_section_grows:
  assumes "ram_wf r"
  shows "grows r (protect_section sh r) \<and> xr_mem (protect_section sh r) = xr_mem r"
  unfolding protect_section_def Let_def
  using protect_ro_grows grows_refl grows_trans assms by (smt (verit) grows_def)

text \<open>What a section looks like in memory: its raw data, then zeros.\<close>

definition section_bytes :: "u8 list \<Rightarrow> section_header \<Rightarrow> u8 list" where
  "section_bytes f sh = take (unat (sh_sizeof_raw sh)) (drop (unat (sh_raw_addr sh)) f) @
     replicate (unat (sh_virtual_size sh) - unat (sh_sizeof_raw sh)) 0"

lemma length_section_bytes:
  "section_in_file f sh \<Longrightarrow> length (section_bytes f sh) = unat (sh_virtual_size sh)"
  by (auto simp: section_in_file_def section_bytes_def word_le_nat_alt min_def)

lemma map_section_no_overread:
  assumes "section_in_file f sh" "\<And>r'. k r' \<noteq> FileOverread"
  shows "map_section f sh r k \<noteq> FileOverread"
  using assms
  by (auto simp: map_section_def copy_from_file_def zero_fill_def rd_bytes_def section_in_file_def Let_def
      split: prod.splits option.splits)

lemma map_section_Mapped:
  assumes "ram_wf r" "section_in_file f sh" "sh_virtual_size sh > 0" "map_section f sh r k = Mapped r'"
  shows "\<exists>r1. k r1 = Mapped r' \<and> grows r r1 \<and> is_committed r1 (sh_virtual_addr sh) (sh_virtual_size sh) \<and>
    xr_mem r1 = store_bytes (sh_virtual_addr sh) (section_bytes f sh) (xr_mem r)"
proof -
  let ?va = "sh_virtual_addr sh" and ?vs = "sh_virtual_size sh" and ?raw = "sh_sizeof_raw sh"
  let ?bs = "take (unat ?raw) (drop (unat (sh_raw_addr sh)) f)"
  have len: "length ?bs = unat ?raw" using assms(2) by (auto simp: section_in_file_def)
  obtain rc where c: "commit ?va ?vs r = (True, rc)"
    using assms(4) by (auto simp: map_section_def Let_def split: prod.splits if_splits)
  note gc = commit_grows [OF assms(1) c]
  define fill where "fill = (\<lambda>r2. if ?vs > ?raw
      then zero_fill (?va + ?raw) (?vs - ?raw) r2 (\<lambda>r3. k (protect_section sh r3))
      else k (protect_section sh r2))"
  have "\<exists>r2. fill r2 = Mapped r' \<and> grows rc r2 \<and> xr_mem r2 = store_bytes ?va ?bs (xr_mem r)"
  proof (cases "?raw > 0")
    case True
    with assms(2,4) c have "fill (snd (write_bytes ?va ?bs rc)) = Mapped r'" "writable rc ?va ?raw"
      by (auto simp: map_section_def copy_from_file_def rd_bytes_def section_in_file_def fill_def Let_def
          split: if_splits)
    moreover from this(2) have "snd (write_bytes ?va ?bs rc) = rc\<lparr>xr_mem := store_bytes ?va ?bs (xr_mem rc)\<rparr>"
      by (simp add: write_bytes_def len del: length_take length_drop)
    moreover have "grows rc (rc\<lparr>xr_mem := m\<rparr>)" for m using gc by (intro grows_mem) (simp add: grows_def)
    ultimately show ?thesis using gc by (intro exI [of _ "snd (write_bytes ?va ?bs rc)"]) simp
  next
    case False
    then have "?raw = 0" by (simp add: word_gt_0)
    with assms(4) c gc show ?thesis
      by (intro exI [of _ rc]) (auto simp: map_section_def fill_def Let_def intro: grows_refl simp: grows_def)
  qed
  then obtain r2 where r2: "fill r2 = Mapped r'" "grows rc r2"
    "xr_mem r2 = store_bytes ?va ?bs (xr_mem r)" by blast
  have "\<exists>r3. k (protect_section sh r3) = Mapped r' \<and> grows r2 r3 \<and>
      xr_mem r3 = store_bytes ?va (section_bytes f sh) (xr_mem r)"
  proof (cases "?vs > ?raw")
    case True
    then have "unat (?vs - ?raw) = unat ?vs - unat ?raw"
      by (simp add: unat_sub less_imp_le)
    let ?r3 = "r2\<lparr>xr_mem := store_bytes (?va + ?raw) (replicate (unat ?vs - unat ?raw) 0) (xr_mem r2)\<rparr>"
    from \<open>unat (?vs - ?raw) = _\<close> r2(1) True have "k (protect_section sh ?r3) = Mapped r'"
      by (auto simp: fill_def zero_fill_def host_ptr_def split: if_splits)
    moreover have "grows r2 ?r3" using r2(2) by (intro grows_mem) (simp add: grows_def)
    moreover have "xr_mem ?r3 = store_bytes ?va (section_bytes f sh) (xr_mem r)"
      by (simp add: section_bytes_def store_bytes_append len r2(3) del: length_take length_drop)
    ultimately show ?thesis by blast
  next
    case False
    then have "unat ?vs - unat ?raw = 0" by (simp add: word_less_nat_alt)
    with r2 False show ?thesis by (auto simp: fill_def section_bytes_def grows_def)
  qed
  then obtain r3 where r3: "k (protect_section sh r3) = Mapped r'" "grows r2 r3"
    "xr_mem r3 = store_bytes ?va (section_bytes f sh) (xr_mem r)" by blast
  have g3: "grows r3 (protect_section sh r3)" "xr_mem (protect_section sh r3) = xr_mem r3"
    using protect_section_grows [of r3 sh] r3(2) by (simp_all add: grows_def)
  have "grows rc (protect_section sh r3)" using r2(2) r3(2) g3(1) grows_trans by blast
  moreover have "ram_wf rc" using gc by (simp add: grows_def)
  ultimately show ?thesis using r3 g3(2) gc grows_trans grows_committed by metis
qed

lemma map_sections_no_overread:
  "list_all (section_in_file f) shs \<Longrightarrow> map_sections f shs prev r \<noteq> FileOverread"
  by (induction shs arbitrary: prev r) (simp_all add: map_section_no_overread)

text \<open>Sections are mapped at increasing addresses, so what has been mapped stays.\<close>

lemma map_sections_Mapped:
  assumes "map_sections f shs prev r = Mapped r'" "ram_wf r"
    "list_all (\<lambda>sh. section_in_file f sh \<and> section_in_image base ext sh) shs" "ext \<le> 2 ^ 32"
  shows "grows r r' \<and> (\<forall>x. unat x < prev \<longrightarrow> xr_mem r' x = xr_mem r x) \<and>
    (\<forall>sh\<in>set shs. sh_virtual_size sh > 0 \<longrightarrow>
       read_bytes r' (sh_virtual_addr sh) (sh_virtual_size sh) = Some (section_bytes f sh))"
  using assms
proof (induction shs arbitrary: prev r)
  case Nil then show ?case by (simp add: grows_refl)
next
  case (Cons sh shs)
  let ?va = "sh_virtual_addr sh" and ?vs = "sh_virtual_size sh"
  show ?case
  proof (cases "?vs = 0")
    case True with Cons show ?thesis by (auto simp: word_gt_0)
  next
    case False
    then have vs: "?vs > 0" by (simp add: word_gt_0)
    have sec: "section_in_file f sh" "section_in_image base ext sh" using Cons.prems(3) by auto
    note len = length_section_bytes [OF sec(1)]
    have fits: "unat ?va + length (section_bytes f sh) \<le> 2 ^ 32"
      using sec(2) Cons.prems(4) len by (simp add: section_in_image_def)
    from Cons.prems(1) False have ge: "prev \<le> unat ?va"
      and ms: "map_section f sh r (map_sections f shs (unat ?va + unat ?vs)) = Mapped r'"
      by (auto split: if_splits)
    obtain r1 where r1: "map_sections f shs (unat ?va + unat ?vs) r1 = Mapped r'" "grows r r1"
      "is_committed r1 ?va ?vs" "xr_mem r1 = store_bytes ?va (section_bytes f sh) (xr_mem r)"
      using map_section_Mapped [OF Cons.prems(2) sec(1) vs ms] by blast
    have wf1: "ram_wf r1" using r1(2) by (simp add: grows_def)
    have rest: "list_all (\<lambda>sh. section_in_file f sh \<and> section_in_image base ext sh) shs"
      using Cons.prems(3) by simp
    note IH = Cons.IH [OF r1(1) wf1 rest Cons.prems(4)]
    have "load_bytes (unat ?vs) ?va (xr_mem r') = load_bytes (unat ?vs) ?va (xr_mem r1)"
      using IH fits len by (intro load_bytes_cong) (auto simp: in_range_def)
    also have "\<dots> = section_bytes f sh"
      using load_store_same [of ?va "section_bytes f sh" "xr_mem r"] fits by (simp add: r1(4) len)
    finally have "read_bytes r' ?va ?vs = Some (section_bytes f sh)"
      using grows_committed [OF conjunct1 [OF IH] wf1 r1(3)] by (simp add: read_bytes_def readable_def)
    moreover have "xr_mem r1 x = xr_mem r x" if "unat x < prev" for x
      using that ge fits r1(4) by (simp add: store_bytes_other in_range_def)
    ultimately show ?thesis using IH r1(2) ge grows_trans by auto
  qed
qed

section \<open>Properties\<close>

text \<open>(C16) Loading maps every section faithfully: if \<open>load\<close> succeeds, each section of the parsed
  image can be read at its virtual address and consists of its raw bytes from the file followed by
  zeros up to its virtual size, however the sections share pages.\<close>

theorem load_maps_sections:
  assumes "load_xbe f r = Loaded lx" "ram_wf r"
  shows "parse_impl f = Some (Inr (lx_image lx)) \<and> ram_wf (lx_ram lx) \<and>
    (\<forall>sh\<in>set (xi_sections (lx_image lx)). sh_virtual_size sh > 0 \<longrightarrow>
       read_bytes (lx_ram lx) (sh_virtual_addr sh) (sh_virtual_size sh) = Some (section_bytes f sh))"
proof -
  from assms(1) obtain img r' where img: "parse_impl f = Some (Inr img)" "map_image img r = Mapped r'"
    and lx: "lx = \<lparr>lx_image = img, lx_ram = r'\<rparr>"
    by (auto simp: load_xbe_def split: option.splits sum.splits map_result.splits)
  let ?h = "xi_header img"
  note ok = parse_guarantees [OF img(1)]
  obtain r1 where c: "commit (h_base_addr ?h) (h_sizeof_headers ?h) r = (True, r1)"
    using img(2) by (auto simp: map_image_def Let_def split: prod.splits if_splits)
  have wf1: "ram_wf r1" using commit_wf [OF assms(2) c] by simp
  obtain r2 where r2: "map_sections f (xi_sections img) 0 r2 = Mapped r'" "ram_wf r2"
    using img(2) c ok wf1 ram_simps(4)
    by (auto simp: map_image_def copy_from_file_def write_bytes_def Let_def split: if_splits option.splits)
  have "unat (xi_image_end_abs img) \<le> 2 ^ 32" using unat_lt2p [of "xi_image_end_abs img"] by simp
  with map_sections_Mapped [OF r2, of "h_base_addr ?h" "unat (xi_image_end_abs img)"] ok img(1) lx
  show ?thesis by (auto simp: grows_def)
qed

text \<open>One writable page of 4 KiB that holds the whole demo image.\<close>

definition demo_window :: xbe_ram where
  "demo_window = XbeRam 0x1000 True (\<lambda>_. True) 0x1000"

lemma demo_window_wf: "ram_wf demo_window"
  by (simp add: demo_window_def XbeRam_def ram_wf_def)

lemma rd_bytes_inside: "off + n \<le> length f \<Longrightarrow> rd_bytes f off n = Some (take n (drop off f))"
  by (simp add: rd_bytes_def)

lemmas window_simps = demo_window_def XbeRam_def commit_def range_ok_def page_list_def writable_def
  is_committed_def pages_committed_def

lemma demo_xbe_loads: "\<exists>lx. load_xbe demo_xbe demo_window = Loaded lx"
  unfolding demo_xbe_def fold_simps
  by (simp add: load_xbe_def parse_simps byte_simps map_image_def window_simps copy_from_file_def
      rd_bytes_inside map_section_def write_bytes_def zero_fill_def host_ptr_def)

theorem load_maps_sections_witness:
  "\<exists>lx. load_xbe demo_xbe demo_window = Loaded lx \<and> ram_wf (lx_ram lx)"
proof -
  from demo_xbe_loads obtain lx where "load_xbe demo_xbe demo_window = Loaded lx" by blast
  with load_maps_sections [OF this demo_window_wf] show ?thesis by blast
qed

text \<open>The header copy is not covered by the parser's checks: for an accepted file that is
  shorter than the \<open>sizeof_headers\<close> it announces, mapping reads past the end of the file buffer
  as soon as the header pages can be committed. With \<open>sizeof_headers\<close> inside the file no mapping
  ever does.\<close>

lemma load_overreads_short_file:
  assumes "parse_impl f = Some (Inr img)" "ram_wf r"
  shows "(map_image img r = FileOverread) \<longleftrightarrow>
    length f < unat (h_sizeof_headers (xi_header img)) \<and>
    fst (commit (h_base_addr (xi_header img)) (h_sizeof_headers (xi_header img)) r) \<and>
    writable (snd (commit (h_base_addr (xi_header img)) (h_sizeof_headers (xi_header img)) r))
      (h_base_addr (xi_header img)) (h_sizeof_headers (xi_header img))"
proof -
  from parse_guarantees [OF assms(1)]
  have "list_all (section_in_file f) (xi_sections img)" "xi_file img = f" by (auto simp: list_all_iff)
  then show ?thesis using map_sections_no_overread [of f "xi_sections img"]
    by (auto simp: map_image_def copy_from_file_def rd_bytes_def Let_def split: prod.splits)
qed

definition demo_short :: "u8 list" where
  "demo_short = put32 (0x108, 0x400) demo_xbe"

lemma demo_short_parses:
  "\<exists>img. parse_impl demo_short = Some (Inr img) \<and> h_base_addr (xi_header img) = 8 \<and>
     h_sizeof_headers (xi_header img) = 0x400"
  unfolding demo_short_def demo_xbe_def fold_simps by (simp add: parse_simps byte_simps)

lemma length_demo_short: "length demo_short = 0x388"
  unfolding demo_short_def demo_xbe_def fold_simps by (simp add: byte_simps)

lemma load_overreads_short_file_witness:
  "\<exists>img. parse_impl demo_short = Some (Inr img) \<and> map_image img demo_window = FileOverread"
proof -
  from demo_short_parses obtain img where img: "parse_impl demo_short = Some (Inr img)"
    "h_base_addr (xi_header img) = 8" "h_sizeof_headers (xi_header img) = 0x400" by blast
  have "map_image img demo_window = FileOverread"
    unfolding load_overreads_short_file [OF img(1) demo_window_wf]
    by (simp add: img length_demo_short window_simps)
  with img show ?thesis by blast
qed

text \<open>The TLS template: for a readable, non-empty template the result is its bytes followed by
  \<open>zero_fill\<close> zeros, unless the 32-bit sum of the two sizes wraps; then the buffer is too small
  and the copy runs over its end.\<close>

lemma tls_template_exact:
  assumes "xi_tls_present (lx_image lx)" "tls_raw_size (xi_tls (lx_image lx)) > 0"
    "read_bytes (lx_ram lx) (t_data_start (xi_tls (lx_image lx))) (tls_raw_size (xi_tls (lx_image lx))) = Some bs"
  shows "tls_template lx =
    (if unat (tls_raw_size (xi_tls (lx_image lx))) + unat (t_zero_fill (xi_tls (lx_image lx))) < 2 ^ 32
     then Some (bs @ replicate (unat (t_zero_fill (xi_tls (lx_image lx)))) 0) else None)"
proof -
  let ?n = "tls_raw_size (xi_tls (lx_image lx))" and ?z = "t_zero_fill (xi_tls (lx_image lx))"
  have len: "length bs = unat ?n" using assms(3) by (auto simp: read_bytes_def split: if_splits)
  have fits: "?n \<le> ?n + ?z \<longleftrightarrow> unat ?n + unat ?z < 2 ^ 32"
    using no_olen_add_nat [of ?n ?z] by simp
  moreover have "unat (?n + ?z) = unat ?n + unat ?z" if "unat ?n + unat ?z < 2 ^ 32"
    using that by (simp add: unat_word_ariths)
  ultimately show ?thesis using assms len by (simp add: tls_template_def Let_def)
qed

definition demo_tls :: "u32 \<Rightarrow> tls_directory" where
  "demo_tls z = \<lparr>t_data_start = 8, t_data_end = 12, t_index_addr = 12, t_callbacks_addr = 0,
     t_zero_fill = z, t_characteristics = 0\<rparr>"

lemma tls_template_exact_witness:
  "\<exists>lx. xi_tls_present (lx_image lx) \<and> readable (lx_ram lx) 8 4 \<and> tls_template lx = None"
proof -
  from demo_xbe_parses obtain img where "parse_impl demo_xbe = Some (Inr img)" by blast
  let ?lx = "\<lparr>lx_image = img\<lparr>xi_tls_present := True, xi_tls := demo_tls 0xFFFFFFFE\<rparr>, lx_ram = demo_ram\<rparr>"
  have rd: "readable demo_ram 8 4" by code_simp
  then have "read_bytes (lx_ram ?lx) (t_data_start (xi_tls (lx_image ?lx))) (tls_raw_size (xi_tls (lx_image ?lx)))
      = Some (load_bytes 4 8 (xr_mem demo_ram))"
    by (simp add: demo_tls_def tls_raw_size_def read_bytes_def)
  from tls_template_exact [OF _ _ this] rd show ?thesis
    by (intro exI [of _ ?lx]) (simp add: demo_tls_def tls_raw_size_def)
qed

lemma walk_table_reads:
  "length es < n \<Longrightarrow> unat va + 4 * length es + 4 \<le> unat limit \<Longrightarrow> base \<le> va \<Longrightarrow>
     (\<And>i. i < length es \<Longrightarrow> read32 r (va + 4 * of_nat i) = Some (es ! i) \<and> es ! i \<noteq> 0) \<Longrightarrow>
     read32 r (va + 4 * of_nat (length es)) = Some 0 \<Longrightarrow> walk_table n r base limit va = Some es"
proof (induction es arbitrary: n va)
  case Nil
  then obtain n' where "n = Suc n'" by (cases n) auto
  moreover have "va \<le> limit - 4"
    using Nil(2) by (simp add: word_le_nat_alt unat_sub_if')
  ultimately show ?case using Nil by (simp add: not_less)
next
  case (Cons e es)
  then obtain n' where n: "n = Suc n'" by (cases n) auto
  have lim: "va \<le> limit - 4" using Cons(3) by (simp add: word_le_nat_alt unat_sub_if')
  have "unat va + 4 < 2 ^ 32" using Cons(3) unat_lt2p [of limit] by simp
  then have va4: "unat (va + 4) = unat va + 4" by (simp add: unat_word_ariths)
  have rd: "read32 r (va + 4 + 4 * of_nat i) = Some (es ! i) \<and> es ! i \<noteq> 0" if "i < length es" for i
    using Cons.prems(4) [of "Suc i"] that by (simp add: algebra_simps)
  have "base \<le> va + 4" using Cons.prems(3) va4 by (simp add: word_le_nat_alt)
  then have "walk_table n' r base limit (va + 4) = Some es"
    using Cons.prems n va4 rd by (intro Cons.IH) (auto simp: algebra_simps)
  with Cons.prems(3) Cons.prems(4) [of 0] n lim show ?case by (simp add: not_less)
qed

text \<open>The kernel import list is complete: if the thunk table in memory is a zero-terminated
  sequence of fewer than 4096 nonzero entries inside the image, \<open>kernel_thunk_ordinals\<close> returns
  exactly its entries, in order, with the import flag removed.\<close>

lemma thunk_walk_exact:
  assumes "length es < 4096"
    "unat (xi_kernel_thunk_va (lx_image lx)) + 4 * length es + 4 \<le> unat (xi_image_end_abs (lx_image lx))"
    "h_base_addr (xi_header (lx_image lx)) \<le> xi_kernel_thunk_va (lx_image lx)"
    "\<And>i. i < length es \<Longrightarrow>
       read32 (lx_ram lx) (xi_kernel_thunk_va (lx_image lx) + 4 * of_nat i) = Some (es ! i) \<and> es ! i \<noteq> 0"
    "read32 (lx_ram lx) (xi_kernel_thunk_va (lx_image lx) + 4 * of_nat (length es)) = Some 0"
  shows "kernel_thunk_ordinals lx = map (\<lambda>e. e AND 0x7FFFFFFF) es"
  using walk_table_reads [OF assms] by (simp add: kernel_thunk_ordinals_def Let_def)

definition demo_thunks :: xbe_ram where
  "demo_thunks = snd (write32 8 0x80000001 demo_ram)"

lemma thunk_walk_exact_witness:
  "\<exists>lx. xi_kernel_thunk_va (lx_image lx) = 8 \<and> kernel_thunk_ordinals lx = [1]"
proof -
  from demo_xbe_parses obtain img where img: "parse_impl demo_xbe = Some (Inr img)"
    "h_base_addr (xi_header img) = 8" by blast
  let ?lx = "\<lparr>lx_image = img\<lparr>xi_kernel_thunk_va := 8, xi_image_end_abs := 20\<rparr>, lx_ram = demo_thunks\<rparr>"
  have rd: "read32 demo_thunks 8 = Some 0x80000001" "read32 demo_thunks 12 = Some 0" by code_simp+
  have "kernel_thunk_ordinals ?lx = map (\<lambda>e. e AND 0x7FFFFFFF) [0x80000001]"
    by (rule thunk_walk_exact) (simp_all add: img rd)
  then show ?thesis by (intro exI [of _ ?lx]) simp
qed

end
