(* ===== verification/Krnl_State.thy ===== *)
theory Krnl_State
  imports Xbe_Load Sched_Inv
begin

text \<open>
  The state of the HLE kernel (\<open>XboxKrnl\<close>, \<open>src/src/xbox_krnl.cpp\<close>, \<open>src/include/xbox_krnl.h\<close>), its object
  registries, and the dispatcher headers it mirrors into guest memory. A
  \<open>DispatcherObject*\<close> is the key of the object in \<open>kr_heap\<close>; keys are never reused, and a key
  without an entry is a dangling pointer. A handler that blocks returns its continuation (\<open>kont\<close>),
  what is left of it when its fiber is resumed.
\<close>

section \<open>Objects\<close>

datatype kind = KEvent | KMutant | KSemaphore | KThread

type_synonym obj = nat

text \<open>Signed 32-bit fields are integers; they are converted when they are written to guest memory.\<close>

record dispatcher_object =
  do_kind :: kind
  do_guest_va :: u32
  do_token :: u64
  do_mw_waiters :: "u64 list"
  ev_type :: u32
  ev_signaled :: bool
  mu_signal_state :: int
  mu_owner :: u32
  mu_abandoned :: bool
  se_count :: int
  se_limit :: int
  th_start_routine :: u32
  th_start_context :: u32
  th_system_routine :: u32
  th_kernel_stack_size :: u32
  th_tls_data_size :: u32
  th_sched_handle :: u32
  th_object_handle :: u32
  th_thread_id :: u32
  th_suspend_count :: u32
  th_base_priority :: int
  th_running :: bool
  th_runnable_missing_core :: bool

definition new_object :: dispatcher_object where
  "new_object = \<lparr>do_kind = KEvent, do_guest_va = 0, do_token = 0, do_mw_waiters = [],
     ev_type = 0, ev_signaled = False, mu_signal_state = 1, mu_owner = 0, mu_abandoned = False,
     se_count = 0, se_limit = 0, th_start_routine = 0, th_start_context = 0, th_system_routine = 0,
     th_kernel_stack_size = 0, th_tls_data_size = 0, th_sched_handle = 0, th_object_handle = 0,
     th_thread_id = 0, th_suspend_count = 0, th_base_priority = 0, th_running = False,
     th_runnable_missing_core = False\<rparr>"

record mem_alloc =
  ma_va :: u32
  ma_size :: u32
  ma_protect :: u32

text \<open>Where a handler continues after \<open>block_current\<close> or \<open>yield\<close>: \<open>KtWait\<close> in \<open>wait_dispatch\<close>,
  \<open>KtMulti\<close> in \<open>wait_multiple\<close>, \<open>KtCs\<close> in \<open>cs_enter\<close>, \<open>KtNtSuspend\<close> and \<open>KtKeSuspend\<close> in the suspend
  calls, \<open>KtDone\<close> before a plain \<open>return kStatusSuccess\<close>, \<open>KtPark\<close> in the body of a system thread
  that was created suspended.\<close>

datatype kont =
    KtWait obj u64
  | KtMulti "obj list" bool u64
  | KtCs u32
  | KtNtSuspend u32 u32
  | KtKeSuspend u32
  | KtDone
  | KtPark obj

text \<open>What a fiber of the kernel does when it is dispatched: \<open>SysThread\<close> enters the body that
  \<open>PsCreateSystemThreadEx\<close> gives its fibers, \<open>GuestCode\<close> is code outside the kernel.\<close>

datatype kctx = SysThread | GuestCode | InKernel kont | Ended

type_synonym ksched = "kctx guest_scheduler"

datatype conv = Stdcall | Fastcall | Cdecl | Data

record kexport =
  ex_ordinal :: u32
  ex_name :: string
  ex_conv :: conv
  ex_arg_bytes :: u32

record thunk_slot =
  ts_slot_va :: u32
  ts_raw :: u32
  ts_ordinal :: u32
  ts_exp :: "kexport option"
  ts_implemented :: bool
  ts_new_value :: u32

text \<open>The kernel. The host clocks read by a call are the inputs \<open>kr_filetime\<close> and \<open>kr_qpc\<close>; the
  callbacks are represented by whether they are installed and by the log of their calls.\<close>

record krnl =
  kr_ram :: xbe_ram
  kr_sched :: ksched
  kr_dbg_sink :: bool
  kr_sink_log :: "u8 list list"
  kr_dbg_lines :: "u8 list list"
  kr_mem_obs :: bool
  kr_mem_log :: "(bool \<times> u32 \<times> u32 \<times> bool) list"
  kr_thread_runner :: bool
  kr_slots :: "thunk_slot list"
  kr_heap :: "obj \<rightharpoonup> dispatcher_object"
  kr_next_obj :: obj
  kr_objects :: "obj option list"
  kr_free_slots :: "nat list"
  kr_va_objects :: "obj list"
  kr_fiber_threads :: "(u64 \<times> obj) list"
  kr_next_thread_id :: u32
  kr_kernel_data_va :: u32
  kr_mm_lo :: u32
  kr_mm_hi :: u32
  kr_mem_allocs :: "mem_alloc list"
  kr_filetime :: u64
  kr_qpc :: u64

section \<open>Constants\<close>

definition kStatusSuccess :: u32 where "kStatusSuccess = 0"
definition kStatusAbandoned :: u32 where "kStatusAbandoned = 0x80"
definition kStatusTimeout :: u32 where "kStatusTimeout = 0x102"
definition kStatusInvalidParameter :: u32 where "kStatusInvalidParameter = 0xC000000D"
definition kMaxWaitObjects :: u32 where "kMaxWaitObjects = 64"
definition kHleMarker :: u32 where "kHleMarker = 0xF00F0000"
definition kPageReadonly :: u32 where "kPageReadonly = 2"
definition kPageReadWrite :: u32 where "kPageReadWrite = 4"
definition kPageNocache :: u32 where "kPageNocache = 0x200"
definition kEventNotify :: u32 where "kEventNotify = 0"
definition kEventSync :: u32 where "kEventSync = 1"
definition kMwTokenBase :: u64 where "kMwTokenBase = 0x51AC000000000000"
definition kDelayToken :: u64 where "kDelayToken = 0x51AB000000000000"

lemmas krnl_consts = kStatusSuccess_def kStatusAbandoned_def kStatusTimeout_def
  kStatusInvalidParameter_def kMaxWaitObjects_def kPageReadonly_def kPageReadWrite_def
  kPageNocache_def kEventNotify_def kEventSync_def

definition event_token :: "obj \<Rightarrow> u64" where
  "event_token ob = push_bit 1 (of_nat ob) OR 1"

definition cs_token_of :: "u32 \<Rightarrow> u64" where
  "cs_token_of va = push_bit 1 (ucast va)"

section \<open>Guest memory helpers\<close>

text \<open>Writes whose result the source ignores.\<close>

definition poke32 :: "u32 \<Rightarrow> u32 \<Rightarrow> krnl \<Rightarrow> krnl" where
  "poke32 va v k = k\<lparr>kr_ram := snd (write32 va v (kr_ram k))\<rparr>"

definition poke8 :: "u32 \<Rightarrow> u8 \<Rightarrow> krnl \<Rightarrow> krnl" where
  "poke8 va v k = k\<lparr>kr_ram := snd (write_bytes va [v] (kr_ram k))\<rparr>"

definition peek32 :: "krnl \<Rightarrow> u32 \<Rightarrow> u32 option" where
  "peek32 k va = read32 (kr_ram k) va"

definition write64 :: "u32 \<Rightarrow> u64 \<Rightarrow> krnl \<Rightarrow> bool \<times> krnl" where
  "write64 va v k =
     (case write32 va (ucast v) (kr_ram k) of (b, r) \<Rightarrow>
        if \<not> b then (False, k\<lparr>kr_ram := r\<rparr>)
        else (case write32 (va + 4) (ucast (drop_bit 32 v)) r of (b', r') \<Rightarrow> (b', k\<lparr>kr_ram := r'\<rparr>)))"

definition read64 :: "krnl \<Rightarrow> u32 \<Rightarrow> u64 option" where
  "read64 k va =
     (case (peek32 k va, peek32 k (va + 4)) of
        (Some lo, Some hi) \<Rightarrow> Some (ucast lo OR push_bit 32 (ucast hi))
      | _ \<Rightarrow> None)"

fun read_cstr_from :: "nat \<Rightarrow> krnl \<Rightarrow> u32 \<Rightarrow> u8 list" where
  "read_cstr_from 0 k va = []"
| "read_cstr_from (Suc n) k va =
     (case read_bytes (kr_ram k) va 1 of
        None \<Rightarrow> []
      | Some bs \<Rightarrow> if hd bs = 0 then [] else hd bs # read_cstr_from n k (va + 1))"

definition read_cstr :: "krnl \<Rightarrow> u32 \<Rightarrow> u8 list" where
  "read_cstr k va = read_cstr_from 4096 k va"

definition in_fiber :: "krnl \<Rightarrow> bool" where
  "in_fiber k \<longleftrightarrow> current_handle (kr_sched k) \<noteq> 0"

section \<open>Object registry\<close>

definition upd_obj :: "obj \<Rightarrow> (dispatcher_object \<Rightarrow> dispatcher_object) \<Rightarrow> krnl \<Rightarrow> krnl" where
  "upd_obj ob f k = k\<lparr>kr_heap := (kr_heap k)(ob := map_option f (kr_heap k ob))\<rparr>"

text \<open>\<open>make_unique\<close> and the token of the new object.\<close>

definition alloc_obj :: "dispatcher_object \<Rightarrow> krnl \<Rightarrow> obj \<times> krnl" where
  "alloc_obj d k =
     (let ob = kr_next_obj k in
      (ob, k\<lparr>kr_heap := (kr_heap k)(ob \<mapsto> d\<lparr>do_token := event_token ob\<rparr>), kr_next_obj := ob + 1\<rparr>))"

definition find_object_by_handle :: "krnl \<Rightarrow> u32 \<Rightarrow> obj option" where
  "find_object_by_handle k handle =
     (if handle = 0 \<or> handle AND 3 \<noteq> 0 then None
      else let idx = unat (handle div 4 - 1) in
        if idx \<ge> length (kr_objects k) then None else kr_objects k ! idx)"

definition find_object_by_va :: "krnl \<Rightarrow> u32 \<Rightarrow> obj option" where
  "find_object_by_va k va =
     find (\<lambda>ob. case kr_heap k ob of None \<Rightarrow> False | Some d \<Rightarrow> do_guest_va d = va) (kr_va_objects k)"

text \<open>\<open>free_slots_.back()\<close> is the head of the list.\<close>

definition insert_object :: "obj \<Rightarrow> krnl \<Rightarrow> u32 \<times> krnl" where
  "insert_object ob k =
     (case kr_free_slots k of
        slot # rest \<Rightarrow> (4 * (of_nat slot + 1),
          k\<lparr>kr_free_slots := rest, kr_objects := (kr_objects k)[slot := Some ob]\<rparr>)
      | [] \<Rightarrow> (4 * (of_nat (length (kr_objects k)) + 1), k\<lparr>kr_objects := kr_objects k @ [Some ob]\<rparr>))"

text \<open>\<open>fiber_threads_\<close> is an ordered map: the list is sorted by the scheduler handle.\<close>

definition ensure_thread_object :: "u64 \<Rightarrow> krnl \<Rightarrow> obj \<times> krnl" where
  "ensure_thread_object h k =
     (case map_of (kr_fiber_threads k) h of
        Some ob \<Rightarrow> (ob, k)
      | None \<Rightarrow>
          (case alloc_obj (new_object\<lparr>do_kind := KThread, th_sched_handle := ucast h,
                   th_thread_id := kr_next_thread_id k, th_running := True\<rparr>) k of
             (ob, k1) \<Rightarrow> (ob, k1\<lparr>kr_next_thread_id := kr_next_thread_id k + 2,
               kr_fiber_threads := insort_key fst (h, ob) (kr_fiber_threads k1)\<rparr>)))"

definition is_thread :: "krnl \<Rightarrow> (dispatcher_object \<Rightarrow> bool) \<Rightarrow> obj \<Rightarrow> bool" where
  "is_thread k P ob = (case kr_heap k ob of None \<Rightarrow> False | Some d \<Rightarrow> do_kind d = KThread \<and> P d)"

definition live_objects :: "krnl \<Rightarrow> obj list" where
  "live_objects k = List.map_filter id (kr_objects k)"

definition find_thread_by_id :: "krnl \<Rightarrow> u32 \<Rightarrow> obj option" where
  "find_thread_by_id k tid =
     (if tid = 0 then None
      else find (is_thread k (\<lambda>d. th_thread_id d = tid))
             (map snd (kr_fiber_threads k) @ live_objects k @ kr_va_objects k))"

definition find_thread_by_fiber :: "krnl \<Rightarrow> u32 \<Rightarrow> obj option" where
  "find_thread_by_fiber k h =
     (if h = 0 then None
      else let P = is_thread k (\<lambda>d. th_sched_handle d = h) in
        (case map_of (kr_fiber_threads k) (ucast h) of
           Some ob \<Rightarrow> if P ob then Some ob else find P (live_objects k)
         | None \<Rightarrow> find P (live_objects k)))"

definition current_thread_token :: "krnl \<Rightarrow> u32 \<times> krnl" where
  "current_thread_token k =
     (let h = current_handle (kr_sched k) in
      if h = 0 then (0, k)
      else (case ensure_thread_object h k of (ob, k') \<Rightarrow>
        (case kr_heap k' ob of None \<Rightarrow> 0 | Some d \<Rightarrow> th_thread_id d, k')))"

section \<open>Dispatcher headers in guest memory\<close>

definition signal_word :: "dispatcher_object \<Rightarrow> u32" where
  "signal_word d = (case do_kind d of
       KEvent \<Rightarrow> if ev_signaled d then 1 else 0
     | KMutant \<Rightarrow> word_of_int (mu_signal_state d)
     | KSemaphore \<Rightarrow> word_of_int (se_count d)
     | KThread \<Rightarrow> 0)"

definition header_size :: "kind \<Rightarrow> u32" where
  "header_size kd = (case kd of KMutant \<Rightarrow> 4 | KSemaphore \<Rightarrow> 3 | _ \<Rightarrow> 2)"

definition write_dispatcher_header :: "dispatcher_object \<Rightarrow> krnl \<Rightarrow> krnl" where
  "write_dispatcher_header d k =
     (let va = do_guest_va d in
      if va = 0 \<or> do_kind d = KThread then k
      else let k1 = poke32 (va + 12) (va + 8) (poke32 (va + 8) (va + 8)
             (poke32 (va + 4) (signal_word d) (poke32 va (push_bit 16 (header_size (do_kind d))) k))) in
        (case do_kind d of
           KMutant \<Rightarrow> poke8 (va + 0x1C) (if mu_abandoned d then 1 else 0)
             (poke32 (va + 0x18) (mu_owner d) (poke32 (va + 0x14) (va + 0x10)
               (poke32 (va + 0x10) (va + 0x10) k1)))
         | KSemaphore \<Rightarrow> poke32 (va + 0x10) (word_of_int (se_limit d)) k1
         | _ \<Rightarrow> k1))"

definition write_signal_state :: "dispatcher_object \<Rightarrow> krnl \<Rightarrow> krnl" where
  "write_signal_state d k =
     (if do_guest_va d = 0 \<or> do_kind d = KThread then k
      else poke32 (do_guest_va d + 4) (signal_word d) k)"

text \<open>Change an object and mirror its signal state, as every state change of the source does.\<close>

definition set_obj :: "obj \<Rightarrow> dispatcher_object \<Rightarrow> krnl \<Rightarrow> krnl" where
  "set_obj ob d k = k\<lparr>kr_heap := (kr_heap k)(ob \<mapsto> d)\<rparr>"

definition set_obj_mirrored :: "obj \<Rightarrow> dispatcher_object \<Rightarrow> krnl \<Rightarrow> krnl" where
  "set_obj_mirrored ob d k = write_signal_state d (set_obj ob d k)"

section \<open>Using the scheduler\<close>

definition krnl_signal :: "u64 \<Rightarrow> bool \<Rightarrow> krnl \<Rightarrow> u64 \<times> krnl" where
  "krnl_signal token al k =
     (case signal token al (kr_sched k) of (n, s) \<Rightarrow> (n, k\<lparr>kr_sched := s\<rparr>))"

text \<open>\<open>block_current\<close> from inside a handler: the fiber is suspended with the rest of the handler.\<close>

definition krnl_block :: "kont \<Rightarrow> u64 \<Rightarrow> u64 \<Rightarrow> krnl \<Rightarrow> krnl" where
  "krnl_block kt token timeout k =
     (case gs_current (kr_sched k) of
        None \<Rightarrow> k
      | Some t \<Rightarrow> k\<lparr>kr_sched := thread_block t token timeout
          (upd_thread t (\<lambda>g. g\<lparr>gt_ctx := InKernel kt\<rparr>) (kr_sched k))\<rparr>)"

text \<open>The result of a kernel call: a return value with the \<open>ok\<close> flag and the optional \<open>EDX\<close>, a
  suspended handler, the end of the calling fiber, a system thread that is about to run its start
  routine as guest code, or undefined behaviour.\<close>

datatype outcome = Ret u32 bool "u32 option" krnl | Block krnl | Exit krnl | RunGuest "obj option" krnl | Crash

definition ret :: "u32 \<Rightarrow> krnl \<Rightarrow> outcome" where
  "ret v k = Ret v True None k"

definition reject :: "krnl \<Rightarrow> outcome" where
  "reject k = Ret kStatusInvalidParameter False None k"

definition void_fail :: "krnl \<Rightarrow> outcome" where
  "void_fail k = Ret 0 False None k"

end
