(* ===== verification/Krnl_Wait.thy ===== *)
theory Krnl_Wait
  imports Krnl_State
begin

text \<open>
  The wait core of the kernel (\<open>src/src/xbox_krnl.cpp\<close>): when an object satisfies a wait, what
  acquiring it consumes, how waits block and are resumed, who is woken, and what the end of a
  thread does to the objects it owned.
\<close>

section \<open>Satisfying and acquiring\<close>

text \<open>The owner test of a mutant may materialise the identity of the calling fiber.\<close>

definition dispatcher_satisfied :: "dispatcher_object \<Rightarrow> krnl \<Rightarrow> bool \<times> krnl" where
  "dispatcher_satisfied d k = (case do_kind d of
       KEvent \<Rightarrow> (ev_signaled d, k)
     | KMutant \<Rightarrow>
         if mu_signal_state d > 0 then (True, k)
         else if mu_owner d = 0 then (False, k)
         else (case current_thread_token k of (tok, k') \<Rightarrow> (mu_owner d = tok, k'))
     | KSemaphore \<Rightarrow> (se_count d > 0, k)
     | KThread \<Rightarrow> (\<not> th_running d, k))"

definition dispatcher_acquire :: "obj \<Rightarrow> dispatcher_object \<Rightarrow> krnl \<Rightarrow> u32 \<times> krnl" where
  "dispatcher_acquire ob d k = (case do_kind d of
       KEvent \<Rightarrow> (kStatusSuccess,
         if ev_type d = kEventSync then set_obj_mirrored ob (d\<lparr>ev_signaled := False\<rparr>) k else k)
     | KMutant \<Rightarrow>
         (case current_thread_token k of (tok, k1) \<Rightarrow>
            if tok = 0 then (kStatusInvalidParameter, k1)
            else let d1 = d\<lparr>mu_signal_state := mu_signal_state d - 1, mu_owner := tok\<rparr> in
              if mu_abandoned d
              then let d2 = d1\<lparr>mu_abandoned := False\<rparr> in
                (kStatusAbandoned, write_dispatcher_header d2 (set_obj ob d2 k1))
              else (kStatusSuccess, set_obj_mirrored ob d1 k1))
     | KSemaphore \<Rightarrow> (kStatusSuccess, set_obj_mirrored ob (d\<lparr>se_count := se_count d - 1\<rparr>) k)
     | KThread \<Rightarrow> (kStatusSuccess, k))"

section \<open>Single waits\<close>

text \<open>The epilogue of the wait exports: \<open>if (st == kStatusInvalidParameter && ok) *ok = false\<close>.\<close>

definition wait_result :: "u32 \<Rightarrow> krnl \<Rightarrow> outcome" where
  "wait_result st k = Ret st (st \<noteq> kStatusInvalidParameter) None k"

text \<open>One round of the loop of \<open>wait_dispatch\<close>: it returns or blocks.\<close>

definition wait_dispatch :: "obj \<Rightarrow> bool \<Rightarrow> u64 \<Rightarrow> krnl \<Rightarrow> outcome" where
  "wait_dispatch ob immediate ticks k =
     (case kr_heap k ob of
        None \<Rightarrow> Crash
      | Some d \<Rightarrow>
          (case dispatcher_satisfied d k of (sat, k1) \<Rightarrow>
             if sat then (case dispatcher_acquire ob d k1 of (st, k2) \<Rightarrow> wait_result st k2)
             else if immediate then wait_result kStatusTimeout k1
             else if \<not> in_fiber k1 then wait_result kStatusInvalidParameter k1
             else Block (krnl_block (KtWait ob ticks) (do_token d) ticks k1)))"

text \<open>After the block: \<open>woken\<close> is the result of \<open>block_current\<close>.\<close>

definition wait_resume :: "bool \<Rightarrow> obj \<Rightarrow> u64 \<Rightarrow> krnl \<Rightarrow> outcome" where
  "wait_resume woken ob ticks k =
     (if \<not> woken then wait_result kStatusTimeout k
      else (case kr_heap k ob of
          None \<Rightarrow> Crash
        | Some d \<Rightarrow> if do_kind d = KEvent then wait_result kStatusSuccess k
            else wait_dispatch ob False ticks k))"

section \<open>Multiple waits\<close>

fun all_satisfied :: "obj list \<Rightarrow> krnl \<Rightarrow> (bool \<times> krnl) option" where
  "all_satisfied [] k = Some (True, k)"
| "all_satisfied (ob # obs) k =
     (case kr_heap k ob of
        None \<Rightarrow> None
      | Some d \<Rightarrow> (case dispatcher_satisfied d k of (sat, k1) \<Rightarrow>
          if sat then all_satisfied obs k1 else Some (False, k1)))"

fun acquire_all :: "nat \<Rightarrow> obj list \<Rightarrow> u32 \<Rightarrow> krnl \<Rightarrow> (u32 \<times> krnl) option" where
  "acquire_all i [] worst k = Some (worst, k)"
| "acquire_all i (ob # obs) worst k =
     (case kr_heap k ob of
        None \<Rightarrow> None
      | Some d \<Rightarrow> (case dispatcher_acquire ob d k of (st, k1) \<Rightarrow>
          acquire_all (Suc i) obs
            (if st \<noteq> kStatusSuccess \<and> worst = kStatusSuccess then kStatusAbandoned + of_nat i else worst) k1))"

text \<open>Wait-any: the first satisfied object is acquired.\<close>

fun acquire_any :: "nat \<Rightarrow> obj list \<Rightarrow> krnl \<Rightarrow> (u32 option \<times> krnl) option" where
  "acquire_any i [] k = Some (None, k)"
| "acquire_any i (ob # obs) k =
     (case kr_heap k ob of
        None \<Rightarrow> None
      | Some d \<Rightarrow> (case dispatcher_satisfied d k of (sat, k1) \<Rightarrow>
          if sat then (case dispatcher_acquire ob d k1 of (st, k2) \<Rightarrow>
            Some (Some (if st = kStatusAbandoned then kStatusAbandoned + of_nat i else of_nat i), k2))
          else acquire_any (Suc i) obs k1))"

fun register_waiter :: "u64 \<Rightarrow> obj list \<Rightarrow> krnl \<Rightarrow> krnl option" where
  "register_waiter tok [] k = Some k"
| "register_waiter tok (ob # obs) k =
     (case kr_heap k ob of
        None \<Rightarrow> None
      | Some d \<Rightarrow> (case dispatcher_satisfied d k of (sat, k1) \<Rightarrow>
          register_waiter tok obs
            (if sat then k1 else upd_obj ob (\<lambda>d. d\<lparr>do_mw_waiters := do_mw_waiters d @ [tok]\<rparr>) k1)))"

fun unregister_waiter :: "u64 \<Rightarrow> obj list \<Rightarrow> krnl \<Rightarrow> krnl option" where
  "unregister_waiter tok [] k = Some k"
| "unregister_waiter tok (ob # obs) k =
     (case kr_heap k ob of
        None \<Rightarrow> None
      | Some d \<Rightarrow> unregister_waiter tok obs
          (upd_obj ob (\<lambda>d. d\<lparr>do_mw_waiters := filter (\<lambda>t. t \<noteq> tok) (do_mw_waiters d)\<rparr>) k))"

definition mw_token :: "krnl \<Rightarrow> u64" where
  "mw_token k = kMwTokenBase OR current_handle (kr_sched k)"

text \<open>One round of \<open>wait_multiple\<close>; the inner option is the status to return.\<close>

definition multi_try :: "obj list \<Rightarrow> bool \<Rightarrow> krnl \<Rightarrow> (u32 option \<times> krnl) option" where
  "multi_try obs wait_all k =
     (if wait_all
      then (case all_satisfied obs k of
          None \<Rightarrow> None
        | Some (False, k1) \<Rightarrow> Some (None, k1)
        | Some (True, k1) \<Rightarrow> (case acquire_all 0 obs kStatusSuccess k1 of
              None \<Rightarrow> None
            | Some (st, k2) \<Rightarrow> Some (Some st, k2)))
      else acquire_any 0 obs k)"

definition wait_multiple :: "obj list \<Rightarrow> bool \<Rightarrow> bool \<Rightarrow> u64 \<Rightarrow> krnl \<Rightarrow> outcome" where
  "wait_multiple obs wait_all immediate ticks k =
     (case multi_try obs wait_all k of
        None \<Rightarrow> Crash
      | Some (Some st, k1) \<Rightarrow> wait_result st k1
      | Some (None, k1) \<Rightarrow>
          if immediate then wait_result kStatusTimeout k1
          else if \<not> in_fiber k1 then wait_result kStatusInvalidParameter k1
          else (case register_waiter (mw_token k1) obs k1 of
              None \<Rightarrow> Crash
            | Some k2 \<Rightarrow> Block (krnl_block (KtMulti obs wait_all ticks) (mw_token k1) ticks k2)))"

definition multi_resume :: "bool \<Rightarrow> obj list \<Rightarrow> bool \<Rightarrow> u64 \<Rightarrow> krnl \<Rightarrow> outcome" where
  "multi_resume woken obs wait_all ticks k =
     (case unregister_waiter (mw_token k) obs k of
        None \<Rightarrow> Crash
      | Some k1 \<Rightarrow> if \<not> woken then wait_result kStatusTimeout k1
          else wait_multiple obs wait_all False ticks k1)"

section \<open>Waking\<close>

fun signal_units :: "nat \<Rightarrow> u64 \<Rightarrow> krnl \<Rightarrow> krnl" where
  "signal_units 0 tok k = k"
| "signal_units (Suc n) tok k =
     (case krnl_signal tok False k of (woken, k1) \<Rightarrow> if woken = 0 then k1 else signal_units n tok k1)"

definition wake_object :: "obj \<Rightarrow> nat \<Rightarrow> krnl \<Rightarrow> krnl" where
  "wake_object ob units k =
     (case kr_heap k ob of
        None \<Rightarrow> k
      | Some d \<Rightarrow>
          fold (\<lambda>t k. snd (krnl_signal t False k)) (do_mw_waiters d)
            (upd_obj ob (\<lambda>d. d\<lparr>do_mw_waiters := []\<rparr>) (signal_units units (do_token d) k)))"

section \<open>Events\<close>

definition ke_set_event :: "obj \<Rightarrow> dispatcher_object \<Rightarrow> krnl \<Rightarrow> u32 \<times> krnl" where
  "ke_set_event ob d k =
     (let prev = (if ev_signaled d then 1 else 0) in
      if ev_type d = kEventNotify
      then (prev, wake_object ob 0 (snd (krnl_signal (do_token d) True
             (set_obj_mirrored ob (d\<lparr>ev_signaled := True\<rparr>) k))))
      else (case krnl_signal (do_token d) False k of (woken, k1) \<Rightarrow>
             (prev, wake_object ob 0 (set_obj_mirrored ob (d\<lparr>ev_signaled := (woken = 0)\<rparr>) k1))))"

definition ke_reset_event :: "obj \<Rightarrow> dispatcher_object \<Rightarrow> krnl \<Rightarrow> u32 \<times> krnl" where
  "ke_reset_event ob d k =
     (if ev_signaled d then 1 else 0, set_obj_mirrored ob (d\<lparr>ev_signaled := False\<rparr>) k)"

definition nt_pulse_event :: "obj \<Rightarrow> dispatcher_object \<Rightarrow> krnl \<Rightarrow> u32 \<times> krnl" where
  "nt_pulse_event ob d k =
     (if ev_signaled d then 1 else 0,
      wake_object ob 0 (set_obj_mirrored ob (d\<lparr>ev_signaled := False\<rparr>)
        (snd (krnl_signal (do_token d) (ev_type d = kEventNotify) k))))"

section \<open>Mutants and semaphores\<close>

text \<open>The common part of \<open>NtReleaseMutant\<close> and \<open>KeReleaseMutant\<close>: previous state and new kernel.\<close>

definition release_mutant :: "obj \<Rightarrow> dispatcher_object \<Rightarrow> krnl \<Rightarrow> int \<times> krnl" where
  "release_mutant ob d k =
     (let d1 = d\<lparr>mu_signal_state := mu_signal_state d + 1\<rparr> in
      (mu_signal_state d,
       if mu_signal_state d1 > 0
       then let d2 = d1\<lparr>mu_owner := 0\<rparr> in write_signal_state d2 (wake_object ob 1 (set_obj ob d2 k))
       else write_signal_state d1 (set_obj ob d1 k)))"

text \<open>The common part of the semaphore releases: \<open>None\<close> is a rejected release.\<close>

definition release_semaphore :: "obj \<Rightarrow> dispatcher_object \<Rightarrow> int \<Rightarrow> krnl \<Rightarrow> (int \<times> krnl) option" where
  "release_semaphore ob d rel k =
     (if rel \<le> 0 \<or> se_count d > se_limit d - rel then None
      else let d1 = d\<lparr>se_count := se_count d + rel\<rparr>; units = nat (min rel (se_count d1) mod 2 ^ 32) in
        Some (se_count d, write_signal_state d1 (wake_object ob units (set_obj ob d1 k))))"

section \<open>The end of a thread\<close>

definition abandon :: "u32 \<Rightarrow> obj \<Rightarrow> krnl \<Rightarrow> krnl" where
  "abandon tok ob k =
     (case kr_heap k ob of
        None \<Rightarrow> k
      | Some d \<Rightarrow> if do_kind d = KMutant \<and> mu_owner d = tok
          then wake_object ob 1 (set_obj_mirrored ob
                 (d\<lparr>mu_abandoned := True, mu_signal_state := 1, mu_owner := 0\<rparr>) k)
          else k)"

definition finish_thread_object :: "obj \<Rightarrow> krnl \<Rightarrow> krnl" where
  "finish_thread_object ob k =
     (case kr_heap k ob of
        None \<Rightarrow> k
      | Some d \<Rightarrow>
          let k1 = set_obj ob (d\<lparr>th_running := False\<rparr>) k in
          wake_object ob 1 (fold (abandon (th_thread_id d)) (live_objects k1 @ kr_va_objects k1) k1))"

end
