(* ===== verification/Krnl_Mm.thy ===== *)
theory Krnl_Mm
  imports Krnl_State
begin

text \<open>
  The contiguous memory allocator of the kernel (\<open>mm_alloc\<close>, \<open>mm_free\<close>, \<open>mm_size\<close> of
  \<open>src/src/xbox_krnl.cpp\<close>). The first-fit loop has as much fuel as there are allocations, plus
  one; \<open>mm_scan_returns\<close> shows that this is enough.
\<close>

section \<open>Model\<close>

definition align_up :: "u32 \<Rightarrow> u32 \<Rightarrow> u32" where
  "align_up v a = (v + a - 1) AND NOT (a - 1)"

definition collides :: "u32 \<Rightarrow> u32 \<Rightarrow> mem_alloc \<Rightarrow> bool" where
  "collides cand sz a \<longleftrightarrow> ma_va a < cand + sz \<and> cand < ma_va a + ma_size a"

definition collision_end :: "u32 \<Rightarrow> u32 \<Rightarrow> mem_alloc list \<Rightarrow> u32" where
  "collision_end cand sz as =
     fold (\<lambda>a m. if collides cand sz a then max m (ma_va a + ma_size a) else m) as cand"

text \<open>\<open>None\<close>: the fuel ran out; \<open>Some None\<close>: no gap is large enough.\<close>

fun mm_scan :: "nat \<Rightarrow> mem_alloc list \<Rightarrow> u32 \<Rightarrow> u32 \<Rightarrow> u32 \<Rightarrow> u32 \<Rightarrow> u32 option option" where
  "mm_scan 0 as sz align hi cand = None"
| "mm_scan (Suc n) as sz align hi cand =
     (if cand > hi \<or> sz > hi - cand + 1 then Some None
      else if \<not> list_ex (collides cand sz) as then Some (Some cand)
      else mm_scan n as sz align hi (align_up (collision_end cand sz as) align))"

definition mm_range :: "krnl \<Rightarrow> u32 \<Rightarrow> u32 \<Rightarrow> u32 \<times> u32" where
  "mm_range k lowest highest =
     (max (kr_mm_lo k) lowest,
      min (if highest = 0 then kr_mm_hi k - 1 else highest) (kr_mm_hi k - 1))"

text \<open>The address the scan settles on, \<open>Some None\<close> for none.\<close>

definition mm_find :: "krnl \<Rightarrow> u32 \<Rightarrow> u32 \<Rightarrow> u32 \<Rightarrow> u32 \<Rightarrow> u32 option option" where
  "mm_find k sz lowest highest alignment =
     (let align = (if alignment \<noteq> 0 then alignment else 4096);
          (lo, hi) = mm_range k lowest highest in
      if sz = 0 \<or> kr_mm_hi k \<le> kr_mm_lo k then Some None
      else if align AND (align - 1) \<noteq> 0 then Some None
      else let align' = (if align < 4096 then 4096 else align) in
        if lo > hi \<or> sz > hi - lo + 1 then Some None
        else mm_scan (Suc (length (kr_mem_allocs k))) (kr_mem_allocs k) sz align' hi (align_up lo align'))"

text \<open>Commit, zero, protect and record the block; \<open>None\<close> stands for \<open>memset\<close> into pages that
  are not writable.\<close>

definition mm_commit :: "u32 \<Rightarrow> u32 \<Rightarrow> u32 \<Rightarrow> krnl \<Rightarrow> (u32 \<times> krnl) option" where
  "mm_commit cand sz protect k =
     (case commit cand sz (kr_ram k) of (b, r) \<Rightarrow>
        if \<not> b then Some (0, k\<lparr>kr_ram := r\<rparr>)
        else if host_ptr r cand \<noteq> None \<and> \<not> writable r cand sz then None
        else let r1 = (if host_ptr r cand = None then r
               else r\<lparr>xr_mem := store_bytes cand (replicate (unat sz) 0) (xr_mem r)\<rparr>);
               ro = (protect AND NOT kPageNocache = kPageReadonly);
               r2 = (if ro then snd (protect_ro cand sz r1) else r1) in
          Some (cand, k\<lparr>kr_ram := r2,
            kr_mem_allocs := kr_mem_allocs k @ [\<lparr>ma_va = cand, ma_size = sz, ma_protect = protect\<rparr>],
            kr_mem_log := kr_mem_log k @ (if kr_mem_obs k then [(False, cand, sz, ro)] else [])\<rparr>))"

definition mm_alloc :: "u32 \<Rightarrow> u32 \<Rightarrow> u32 \<Rightarrow> u32 \<Rightarrow> u32 \<Rightarrow> krnl \<Rightarrow> (u32 \<times> krnl) option" where
  "mm_alloc sz lowest highest alignment protect k =
     (case mm_find k sz lowest highest alignment of
        None \<Rightarrow> None
      | Some None \<Rightarrow> Some (0, k)
      | Some (Some cand) \<Rightarrow> mm_commit cand sz protect k)"

fun remove_alloc :: "u32 \<Rightarrow> mem_alloc list \<Rightarrow> (mem_alloc \<times> mem_alloc list) option" where
  "remove_alloc va [] = None"
| "remove_alloc va (a # as) =
     (if ma_va a = va then Some (a, as)
      else map_option (\<lambda>(b, bs). (b, a # bs)) (remove_alloc va as))"

definition mm_free :: "u32 \<Rightarrow> krnl \<Rightarrow> bool \<times> krnl" where
  "mm_free va k =
     (case remove_alloc va (kr_mem_allocs k) of
        None \<Rightarrow> (False, k)
      | Some (a, as) \<Rightarrow>
          (case uncommit va (ma_size a) (kr_ram k) of (b, r) \<Rightarrow>
             (True, k\<lparr>kr_mem_allocs := as, kr_ram := r,
               kr_mem_log := kr_mem_log k @
                 (if b \<and> kr_mem_obs k then [(True, va, ma_size a, ma_protect a = kPageReadonly)] else [])\<rparr>)))"

definition mm_size :: "krnl \<Rightarrow> u32 \<Rightarrow> u32" where
  "mm_size k va = (case find (\<lambda>a. ma_va a = va) (kr_mem_allocs k) of None \<Rightarrow> 0 | Some a \<Rightarrow> ma_size a)"

end
