(* ===== verification/Krnl_Cs.thy ===== *)
theory Krnl_Cs
  imports Krnl_State
begin

text \<open>
  Critical sections (\<open>cs_init\<close>, \<open>cs_enter\<close>, \<open>cs_leave\<close>, \<open>cs_try_enter\<close> of \<open>src/src/xbox_krnl.cpp\<close>).
  Their state is three words of guest memory: the number of waiters minus one, the recursion
  count and the owner's fiber handle.
\<close>

section \<open>Model\<close>

definition kCsLockCount :: u32 where "kCsLockCount = 0x10"
definition kCsRecursion :: u32 where "kCsRecursion = 0x14"
definition kCsOwningThread :: u32 where "kCsOwningThread = 0x18"
definition kCsSize :: u32 where "kCsSize = 0x1C"

text \<open>Lock count, recursion count and owner, when all three are readable.\<close>

definition cs_read :: "krnl \<Rightarrow> u32 \<Rightarrow> (u32 \<times> u32 \<times> u32) option" where
  "cs_read k va =
     (case (peek32 k (va + kCsLockCount), peek32 k (va + kCsRecursion), peek32 k (va + kCsOwningThread)) of
        (Some lock, Some rec, Some owner) \<Rightarrow> Some (lock, rec, owner)
      | _ \<Rightarrow> None)"

definition cs_init :: "u32 \<Rightarrow> krnl \<Rightarrow> u32 \<times> krnl" where
  "cs_init va k =
     (if \<not> writable (kr_ram k) va kCsSize then (kStatusInvalidParameter, k)
      else (kStatusSuccess, poke32 (va + kCsOwningThread) 0 (poke32 (va + kCsRecursion) 0
             (poke32 (va + kCsLockCount) (-1)
               (write_dispatcher_header (new_object\<lparr>do_kind := KEvent, do_guest_va := va\<rparr>) k)))))"

datatype cs_result = CsRet u32 krnl | CsBlock krnl

text \<open>One round of the loop of \<open>cs_enter\<close>; a resumed waiter starts the next round.\<close>

definition cs_enter :: "u32 \<Rightarrow> krnl \<Rightarrow> cs_result" where
  "cs_enter va k =
     (let cur = current_handle (kr_sched k) in
      case cs_read k va of
        None \<Rightarrow> CsRet kStatusInvalidParameter k
      | Some (lock, rec, owner) \<Rightarrow>
          if ucast owner = cur \<and> cur \<noteq> 0 then CsRet kStatusSuccess (poke32 (va + kCsRecursion) (rec + 1) k)
          else if owner = 0
          then CsRet kStatusSuccess (poke32 (va + kCsRecursion) 1 (poke32 (va + kCsOwningThread) (ucast cur) k))
          else if \<not> in_fiber k then CsRet kStatusInvalidParameter k
          else CsBlock (krnl_block (KtCs va) (cs_token_of va) kNoTimeout
                 (poke32 (va + kCsLockCount) (lock + 1) k)))"

definition cs_leave :: "u32 \<Rightarrow> krnl \<Rightarrow> u32 \<times> krnl" where
  "cs_leave va k =
     (case cs_read k va of
        None \<Rightarrow> (kStatusInvalidParameter, k)
      | Some (lock, rec, owner) \<Rightarrow>
          if ucast owner \<noteq> current_handle (kr_sched k) then (kStatusInvalidParameter, k)
          else if sint rec > 1 then (kStatusSuccess, poke32 (va + kCsRecursion) (rec - 1) k)
          else let k1 = poke32 (va + kCsRecursion) 0 (poke32 (va + kCsOwningThread) 0 k) in
            (kStatusSuccess,
             if sint lock \<ge> 0
             then snd (krnl_signal (cs_token_of va) False (poke32 (va + kCsLockCount) (lock - 1) k1))
             else k1))"

definition cs_try_enter :: "u32 \<Rightarrow> krnl \<Rightarrow> u32 \<times> krnl" where
  "cs_try_enter va k =
     (let cur = current_handle (kr_sched k) in
      case (peek32 k (va + kCsRecursion), peek32 k (va + kCsOwningThread)) of
        (Some rec, Some owner) \<Rightarrow>
          if ucast owner = cur \<and> cur \<noteq> 0 then (1, poke32 (va + kCsRecursion) (rec + 1) k)
          else if owner \<noteq> 0 then (0, k)
          else (1, poke32 (va + kCsRecursion) 1 (poke32 (va + kCsOwningThread) (ucast cur) k))
      | _ \<Rightarrow> (0, k))"

end
