(* ===== verification/Krnl_Time.thy ===== *)
theory Krnl_Time
  imports Krnl_State "HOL-Library.Signed_Division"
begin

text \<open>
  Time and text conversions of the kernel (\<open>src/src/xbox_krnl.cpp\<close>): calendar dates, NT intervals,
  the format clamp of \<open>DbgPrint\<close>. The C++ division truncates (\<open>sdiv\<close>, \<open>smod\<close>).
\<close>

section \<open>Calendar\<close>

definition civil_from_days :: "int \<Rightarrow> int \<times> int \<times> int" where
  "civil_from_days z0 =
     (let z = z0 + 719468;
          era = (if z \<ge> 0 then z else z - 146096) sdiv 146097;
          doe = z - era * 146097;
          yoe = (doe - doe div 1460 + doe div 36524 - doe div 146096) div 365;
          yy = yoe + era * 400;
          doy = doe - (365 * yoe + yoe div 4 - yoe div 100);
          mp = (5 * doy + 2) div 153;
          d = doy - (153 * mp + 2) div 5 + 1;
          m = mp + (if mp < 10 then 3 else - 9)
      in (yy + (if m \<le> 2 then 1 else 0), m, d))"

text \<open>The fields \<open>RtlTimeToTimeFields\<close> computes from a FILETIME, as integers.\<close>

record time_fields =
  tf_year :: int
  tf_month :: int
  tf_day :: int
  tf_hour :: int
  tf_minute :: int
  tf_second :: int
  tf_milliseconds :: int
  tf_weekday :: int

definition filetime_split :: "int \<Rightarrow> int \<times> int" where
  "filetime_split ft =
     (let days = ft sdiv 864000000000; r = ft smod 864000000000 in
      if r < 0 then (days - 1, r + 864000000000) else (days, r))"

definition time_to_fields :: "u64 \<Rightarrow> time_fields" where
  "time_to_fields ft =
     (let (days, r) = filetime_split (sint ft);
          (y, m, d) = civil_from_days (days - 134774);
          total_ms = r div 10000
      in \<lparr>tf_year = y, tf_month = m, tf_day = d, tf_hour = total_ms div 3600000,
          tf_minute = (total_ms div 60000) mod 60, tf_second = (total_ms div 1000) mod 60,
          tf_milliseconds = total_ms mod 1000, tf_weekday = (days smod 7 + 7 + 1) smod 7\<rparr>)"

text \<open>The four words \<open>RtlTimeToTimeFields\<close> stores.\<close>

definition field_words :: "time_fields \<Rightarrow> u32 list" where
  "field_words t =
     [word_of_int (tf_year t) AND 0xFFFF OR push_bit 16 (word_of_int (tf_month t)),
      word_of_int (tf_day t) OR push_bit 16 (word_of_int (tf_hour t)),
      word_of_int (tf_minute t) OR push_bit 16 (word_of_int (tf_second t)),
      word_of_int (tf_milliseconds t) OR push_bit 16 (word_of_int (tf_weekday t))]"

section \<open>Intervals\<close>

definition ceil_ms :: "u64 \<Rightarrow> u32" where
  "ceil_ms units = ucast ((units + 9999) div 10000)"

text \<open>The pair \<open>(*immediate, *ticks)\<close>; \<open>now\<close> is \<open>xbox_system_time_filetime()\<close>.\<close>

definition interval_to_ticks :: "u64 \<Rightarrow> u64 \<Rightarrow> bool \<times> u64" where
  "interval_to_ticks now q =
     (if q = 0 then (True, 0)
      else if sint q > 0
      then if q \<le> now then (True, 0)
        else let ticks = ucast (ceil_ms (q - now)) in (ticks = 0, ticks)
      else let ticks = ucast (ceil_ms (- q)) in (ticks = 0, ticks))"

text \<open>\<open>read_timeout\<close>: \<open>None\<close> when the interval cannot be read.\<close>

definition read_timeout :: "krnl \<Rightarrow> u32 \<Rightarrow> (bool \<times> u64) option" where
  "read_timeout k ptr =
     (if ptr = 0 then Some (False, kNoTimeout)
      else map_option (interval_to_ticks (kr_filetime k)) (read64 k ptr))"

section \<open>Debug output\<close>

definition is_digit :: "u8 \<Rightarrow> bool" where
  "is_digit c \<longleftrightarrow> 0x30 \<le> c \<and> c \<le> 0x39"

definition digits_value :: "u8 list \<Rightarrow> nat" where
  "digits_value ds = foldl (\<lambda>v c. 10 * v + unat (c - 0x30)) 0 ds"

text \<open>\<open>strtol\<close> saturates at a value above the cap, so the unbounded value decides the same way.\<close>

function clamp_printf_spec :: "u8 list \<Rightarrow> u8 list" where
  "clamp_printf_spec [] = []"
| "clamp_printf_spec (c # cs) =
     (if is_digit c
      then let run = takeWhile is_digit (c # cs) in
        (if digits_value run > 64 then [0x36, 0x34] else run) @ clamp_printf_spec (dropWhile is_digit (c # cs))
      else c # clamp_printf_spec cs)"
  by pat_completeness auto
termination
  by (relation "measure length") (auto simp: length_dropWhile_le le_imp_less_Suc)

text \<open>One conversion of a format string. \<open>fmt\<close> is \<open>snprintf\<close> for a numeric conversion: the whole
  specification and the value give the text.\<close>

definition spec_char :: "u8 \<Rightarrow> bool" where
  "spec_char c \<longleftrightarrow> c \<in> {0x2D, 0x2B, 0x20, 0x23, 0x2E} \<or> is_digit c"

definition length_char :: "u8 \<Rightarrow> bool" where
  "length_char c \<longleftrightarrow> c = 0x6C \<or> c = 0x68"

definition next_arg :: "u32 list \<Rightarrow> u32 \<times> u32 list" where
  "next_arg as = (case as of [] \<Rightarrow> (0, []) | a # rest \<Rightarrow> (a, rest))"

definition null_text :: "u8 list" where
  "null_text = [0x28, 0x6E, 0x75, 0x6C, 0x6C, 0x29]"

definition hex_digit :: "u32 \<Rightarrow> u8" where
  "hex_digit d = (if d < 10 then ucast d + 0x30 else ucast d - 10 + 0x61)"

definition pointer_text :: "u32 \<Rightarrow> u8 list" where
  "pointer_text v = [0x30, 0x78] @ map (\<lambda>i. hex_digit (drop_bit (4 * i) v AND 0xF)) [7, 6, 5, 4, 3, 2, 1, 0]"

lemma rest_shorter: "dropWhile P (dropWhile Q cs) = x # xs \<Longrightarrow> length xs < Suc (length cs)"
  by (metis Suc_le_lessD le_SucI le_trans length_Cons length_dropWhile_le)

function dbg_format :: "(u8 list \<Rightarrow> u32 \<Rightarrow> u8 list) \<Rightarrow> krnl \<Rightarrow> u8 list \<Rightarrow> u32 list \<Rightarrow> u8 list" where
  "dbg_format fmt k [] as = []"
| "dbg_format fmt k (c # cs) as =
     (if c \<noteq> 0x25 then c # dbg_format fmt k cs as
      else if cs \<noteq> [] \<and> hd cs = 0x25 then 0x25 # dbg_format fmt k (tl cs) as
      else let flags = takeWhile spec_char cs; mods = takeWhile length_char (dropWhile spec_char cs);
               rest = dropWhile length_char (dropWhile spec_char cs) in
        (case rest of
           [] \<Rightarrow> c # cs
         | conv # rest' \<Rightarrow>
             let spec = clamp_printf_spec (0x25 # flags @ mods); (v, as') = next_arg as in
             if conv = 0x73 \<or> conv = 0x53
             then (if v \<noteq> 0 then read_cstr k v else null_text) @ dbg_format fmt k rest' as'
             else if conv = 0x63 then ucast v # dbg_format fmt k rest' as'
             else if conv \<in> {0x64, 0x69, 0x75, 0x78, 0x58, 0x6F}
             then take 47 (fmt (spec @ [conv]) v) @ dbg_format fmt k rest' as'
             else if conv = 0x70 then pointer_text v @ dbg_format fmt k rest' as'
             else (0x25 # flags @ mods @ [conv]) @ dbg_format fmt k rest' as))"
  by pat_completeness auto
termination
proof (relation "measure (\<lambda>(_, _, cs, _). length cs)", goal_cases)
  case (3 fmt k c cs as)
  then show ?case by (cases cs) auto
qed (auto dest: rest_shorter rest_shorter [OF sym])

end
