(* ===== verification/Krnl_Exports.thy ===== *)
theory Krnl_Exports
  imports Krnl_State
begin

text \<open>
  The kernel export table (\<open>src/src/xbox_krnl_exports.inc\<close>) and the sets of implemented exports
  (\<open>implemented_function\<close>, \<open>implemented_data\<close> of \<open>src/src/xbox_krnl.cpp\<close>).
\<close>

section \<open>The table\<close>

definition export_row :: "u32 \<Rightarrow> string \<Rightarrow> conv \<Rightarrow> u32 \<Rightarrow> kexport" where
  "export_row ordinal name c arg_bytes =
     \<lparr>ex_ordinal = ordinal, ex_name = name, ex_conv = c, ex_arg_bytes = arg_bytes\<rparr>"

text \<open>The rows in the order of the file, in three parts.\<close>

definition kExports_1 :: "kexport list" where
  "kExports_1 = [
     export_row 1 ''AvGetSavedDataAddress'' Stdcall 0,
     export_row 2 ''AvSendTVEncoderOption'' Stdcall 16,
     export_row 3 ''AvSetDisplayMode'' Stdcall 24,
     export_row 4 ''AvSetSavedDataAddress'' Stdcall 4,
     export_row 5 ''DbgBreakPoint'' Stdcall 0,
     export_row 6 ''DbgBreakPointWithStatus'' Stdcall 4,
     export_row 7 ''DbgLoadImageSymbols'' Stdcall 12,
     export_row 8 ''DbgPrint'' Cdecl 0,
     export_row 9 ''HalReadSMCTrayState'' Stdcall 8,
     export_row 10 ''DbgPrompt'' Stdcall 12,
     export_row 11 ''DbgUnLoadImageSymbols'' Stdcall 12,
     export_row 12 ''ExAcquireReadWriteLockExclusive'' Stdcall 4,
     export_row 13 ''ExAcquireReadWriteLockShared'' Stdcall 4,
     export_row 14 ''ExAllocatePool'' Stdcall 4,
     export_row 15 ''ExAllocatePoolWithTag'' Stdcall 8,
     export_row 16 ''ExEventObjectType'' Data 0,
     export_row 17 ''ExFreePool'' Stdcall 4,
     export_row 18 ''ExInitializeReadWriteLock'' Stdcall 4,
     export_row 19 ''ExInterlockedAddLargeInteger'' Stdcall 16,
     export_row 20 ''ExInterlockedAddLargeStatistic'' Fastcall 8,
     export_row 21 ''ExInterlockedCompareExchange64'' Fastcall 12,
     export_row 22 ''ExMutantObjectType'' Data 0,
     export_row 23 ''ExQueryPoolBlockSize'' Stdcall 4,
     export_row 24 ''ExQueryNonVolatileSetting'' Stdcall 20,
     export_row 25 ''ExReadWriteRefurbInfo'' Stdcall 12,
     export_row 26 ''ExRaiseException'' Stdcall 4,
     export_row 27 ''ExRaiseStatus'' Stdcall 4,
     export_row 28 ''ExReleaseReadWriteLock'' Stdcall 4,
     export_row 29 ''ExSaveNonVolatileSetting'' Stdcall 16,
     export_row 30 ''ExSemaphoreObjectType'' Data 0,
     export_row 31 ''ExTimerObjectType'' Data 0,
     export_row 32 ''ExfInterlockedInsertHeadList'' Fastcall 8,
     export_row 33 ''ExfInterlockedInsertTailList'' Fastcall 8,
     export_row 34 ''ExfInterlockedRemoveHeadList'' Fastcall 4,
     export_row 35 ''FscGetCacheSize'' Stdcall 0,
     export_row 36 ''FscInvalidateIdleBlocks'' Stdcall 0,
     export_row 37 ''FscSetCacheSize'' Stdcall 4,
     export_row 38 ''HalClearSoftwareInterrupt'' Fastcall 4,
     export_row 39 ''HalDisableSystemInterrupt'' Stdcall 4,
     export_row 40 ''HalDiskCachePartitionCount'' Data 0,
     export_row 41 ''HalDiskModelNumber'' Data 0,
     export_row 42 ''HalDiskSerialNumber'' Data 0,
     export_row 43 ''HalEnableSystemInterrupt'' Stdcall 8,
     export_row 44 ''HalGetInterruptVector'' Stdcall 8,
     export_row 45 ''HalReadSMBusValue'' Stdcall 16,
     export_row 46 ''HalReadWritePCISpace'' Stdcall 24,
     export_row 47 ''HalRegisterShutdownNotification'' Stdcall 8,
     export_row 48 ''HalRequestSoftwareInterrupt'' Fastcall 4,
     export_row 49 ''HalReturnToFirmware'' Stdcall 4,
     export_row 50 ''HalWriteSMBusValue'' Stdcall 16,
     export_row 51 ''InterlockedCompareExchange'' Fastcall 12,
     export_row 52 ''InterlockedDecrement'' Fastcall 4,
     export_row 53 ''InterlockedIncrement'' Fastcall 4,
     export_row 54 ''InterlockedExchange'' Fastcall 8,
     export_row 55 ''InterlockedExchangeAdd'' Fastcall 8,
     export_row 56 ''InterlockedFlushSList'' Fastcall 4,
     export_row 57 ''InterlockedPopEntrySList'' Fastcall 4,
     export_row 58 ''InterlockedPushEntrySList'' Fastcall 8,
     export_row 59 ''IoAllocateIrp'' Stdcall 4,
     export_row 60 ''IoBuildAsynchronousFsdRequest'' Stdcall 24,
     export_row 61 ''IoBuildDeviceIoControlRequest'' Stdcall 36,
     export_row 62 ''IoBuildSynchronousFsdRequest'' Stdcall 28,
     export_row 63 ''IoCheckShareAccess'' Stdcall 20,
     export_row 64 ''IoCompletionObjectType'' Data 0,
     export_row 65 ''IoCreateDevice'' Stdcall 24,
     export_row 66 ''IoCreateFile'' Stdcall 40,
     export_row 67 ''IoCreateSymbolicLink'' Stdcall 8,
     export_row 68 ''IoDeleteDevice'' Stdcall 4,
     export_row 69 ''IoDeleteSymbolicLink'' Stdcall 4,
     export_row 70 ''IoDeviceObjectType'' Data 0,
     export_row 71 ''IoFileObjectType'' Data 0,
     export_row 72 ''IoFreeIrp'' Stdcall 4,
     export_row 73 ''IoInitializeIrp'' Stdcall 12,
     export_row 74 ''IoInvalidDeviceRequest'' Stdcall 8,
     export_row 75 ''IoQueryFileInformation'' Stdcall 20,
     export_row 76 ''IoQueryVolumeInformation'' Stdcall 20,
     export_row 77 ''IoQueueThreadIrp'' Stdcall 4,
     export_row 78 ''IoRemoveShareAccess'' Stdcall 8,
     export_row 79 ''IoSetIoCompletion'' Stdcall 20,
     export_row 80 ''IoSetShareAccess'' Stdcall 16,
     export_row 81 ''IoStartNextPacket'' Stdcall 4,
     export_row 82 ''IoStartNextPacketByKey'' Stdcall 8,
     export_row 83 ''IoStartPacket'' Stdcall 12,
     export_row 84 ''IoSynchronousDeviceIoControlRequest'' Stdcall 32,
     export_row 85 ''IoSynchronousFsdRequest'' Stdcall 20,
     export_row 86 ''IofCallDriver'' Fastcall 8,
     export_row 87 ''IofCompleteRequest'' Fastcall 8,
     export_row 88 ''KdDebuggerEnabled'' Data 0,
     export_row 89 ''KdDebuggerNotPresent'' Data 0,
     export_row 90 ''IoDismountVolume'' Stdcall 4,
     export_row 91 ''IoDismountVolumeByName'' Stdcall 4,
     export_row 92 ''KeAlertResumeThread'' Stdcall 4,
     export_row 93 ''KeAlertThread'' Stdcall 8,
     export_row 94 ''KeBoostPriorityThread'' Stdcall 8,
     export_row 95 ''KeBugCheck'' Stdcall 4,
     export_row 96 ''KeBugCheckEx'' Stdcall 20,
     export_row 97 ''KeCancelTimer'' Stdcall 4,
     export_row 98 ''KeConnectInterrupt'' Stdcall 4,
     export_row 99 ''KeDelayExecutionThread'' Stdcall 12,
     export_row 100 ''KeDisconnectInterrupt'' Stdcall 4,
     export_row 101 ''KeEnterCriticalRegion'' Stdcall 0,
     export_row 102 ''MmGlobalData'' Data 0,
     export_row 103 ''KeGetCurrentIrql'' Stdcall 0,
     export_row 104 ''KeGetCurrentThread'' Stdcall 0,
     export_row 105 ''KeInitializeApc'' Stdcall 28,
     export_row 106 ''KeInitializeDeviceQueue'' Stdcall 4,
     export_row 107 ''KeInitializeDpc'' Stdcall 12,
     export_row 108 ''KeInitializeEvent'' Stdcall 12,
     export_row 109 ''KeInitializeInterrupt'' Stdcall 28,
     export_row 110 ''KeInitializeMutant'' Stdcall 8,
     export_row 111 ''KeInitializeQueue'' Stdcall 8,
     export_row 112 ''KeInitializeSemaphore'' Stdcall 12,
     export_row 113 ''KeInitializeTimerEx'' Stdcall 8,
     export_row 114 ''KeInsertByKeyDeviceQueue'' Stdcall 12,
     export_row 115 ''KeInsertDeviceQueue'' Stdcall 8,
     export_row 116 ''KeInsertHeadQueue'' Stdcall 8,
     export_row 117 ''KeInsertQueue'' Stdcall 8,
     export_row 118 ''KeInsertQueueApc'' Stdcall 16,
     export_row 119 ''KeInsertQueueDpc'' Stdcall 12,
     export_row 120 ''KeInterruptTime'' Data 0,
     export_row 121 ''KeIsExecutingDpc'' Stdcall 0,
     export_row 122 ''KeLeaveCriticalRegion'' Stdcall 0,
     export_row 123 ''KePulseEvent'' Stdcall 12,
     export_row 124 ''KeQueryBasePriorityThread'' Stdcall 4]"

definition kExports_2 :: "kexport list" where
  "kExports_2 = [
     export_row 125 ''KeQueryInterruptTime'' Stdcall 0,
     export_row 126 ''KeQueryPerformanceCounter'' Stdcall 0,
     export_row 127 ''KeQueryPerformanceFrequency'' Stdcall 0,
     export_row 128 ''KeQuerySystemTime'' Stdcall 4,
     export_row 129 ''KeRaiseIrqlToDpcLevel'' Stdcall 0,
     export_row 130 ''KeRaiseIrqlToSynchLevel'' Stdcall 0,
     export_row 131 ''KeReleaseMutant'' Stdcall 16,
     export_row 132 ''KeReleaseSemaphore'' Stdcall 16,
     export_row 133 ''KeRemoveByKeyDeviceQueue'' Stdcall 8,
     export_row 134 ''KeRemoveDeviceQueue'' Stdcall 4,
     export_row 135 ''KeRemoveEntryDeviceQueue'' Stdcall 8,
     export_row 136 ''KeRemoveQueue'' Stdcall 12,
     export_row 137 ''KeRemoveQueueDpc'' Stdcall 4,
     export_row 138 ''KeResetEvent'' Stdcall 4,
     export_row 139 ''KeRestoreFloatingPointState'' Stdcall 4,
     export_row 140 ''KeResumeThread'' Stdcall 4,
     export_row 141 ''KeRundownQueue'' Stdcall 4,
     export_row 142 ''KeSaveFloatingPointState'' Stdcall 4,
     export_row 143 ''KeSetBasePriorityThread'' Stdcall 8,
     export_row 144 ''KeSetDisableBoostThread'' Stdcall 8,
     export_row 145 ''KeSetEvent'' Stdcall 12,
     export_row 146 ''KeSetEventBoostPriority'' Stdcall 8,
     export_row 147 ''KeSetPriorityProcess'' Stdcall 8,
     export_row 148 ''KeSetPriorityThread'' Stdcall 8,
     export_row 149 ''KeSetTimer'' Stdcall 16,
     export_row 150 ''KeSetTimerEx'' Stdcall 20,
     export_row 151 ''KeStallExecutionProcessor'' Stdcall 4,
     export_row 152 ''KeSuspendThread'' Stdcall 4,
     export_row 153 ''KeSynchronizeExecution'' Stdcall 12,
     export_row 154 ''KeSystemTime'' Data 0,
     export_row 155 ''KeTestAlertThread'' Stdcall 4,
     export_row 156 ''KeTickCount'' Data 0,
     export_row 157 ''KeTimeIncrement'' Data 0,
     export_row 158 ''KeWaitForMultipleObjects'' Stdcall 32,
     export_row 159 ''KeWaitForSingleObject'' Stdcall 20,
     export_row 160 ''KfRaiseIrql'' Fastcall 4,
     export_row 161 ''KfLowerIrql'' Fastcall 4,
     export_row 162 ''KiBugCheckData'' Data 0,
     export_row 163 ''KiUnlockDispatcherDatabase'' Fastcall 4,
     export_row 164 ''LaunchDataPage'' Data 0,
     export_row 165 ''MmAllocateContiguousMemory'' Stdcall 4,
     export_row 166 ''MmAllocateContiguousMemoryEx'' Stdcall 20,
     export_row 167 ''MmAllocateSystemMemory'' Stdcall 8,
     export_row 168 ''MmClaimGpuInstanceMemory'' Stdcall 8,
     export_row 169 ''MmCreateKernelStack'' Stdcall 8,
     export_row 170 ''MmDeleteKernelStack'' Stdcall 8,
     export_row 171 ''MmFreeContiguousMemory'' Stdcall 4,
     export_row 172 ''MmFreeSystemMemory'' Stdcall 8,
     export_row 173 ''MmGetPhysicalAddress'' Stdcall 4,
     export_row 174 ''MmIsAddressValid'' Stdcall 4,
     export_row 175 ''MmLockUnlockBufferPages'' Stdcall 12,
     export_row 176 ''MmLockUnlockPhysicalPage'' Stdcall 8,
     export_row 177 ''MmMapIoSpace'' Stdcall 12,
     export_row 178 ''MmPersistContiguousMemory'' Stdcall 12,
     export_row 179 ''MmQueryAddressProtect'' Stdcall 4,
     export_row 180 ''MmQueryAllocationSize'' Stdcall 4,
     export_row 181 ''MmQueryStatistics'' Stdcall 4,
     export_row 182 ''MmSetAddressProtect'' Stdcall 12,
     export_row 183 ''MmUnmapIoSpace'' Stdcall 8,
     export_row 184 ''NtAllocateVirtualMemory'' Stdcall 20,
     export_row 185 ''NtCancelTimer'' Stdcall 8,
     export_row 186 ''NtClearEvent'' Stdcall 4,
     export_row 187 ''NtClose'' Stdcall 4,
     export_row 188 ''NtCreateDirectoryObject'' Stdcall 8,
     export_row 189 ''NtCreateEvent'' Stdcall 16,
     export_row 190 ''NtCreateFile'' Stdcall 36,
     export_row 191 ''NtCreateIoCompletion'' Stdcall 16,
     export_row 192 ''NtCreateMutant'' Stdcall 12,
     export_row 193 ''NtCreateSemaphore'' Stdcall 16,
     export_row 194 ''NtCreateTimer'' Stdcall 12,
     export_row 195 ''NtDeleteFile'' Stdcall 4,
     export_row 196 ''NtDeviceIoControlFile'' Stdcall 40,
     export_row 197 ''NtDuplicateObject'' Stdcall 12,
     export_row 198 ''NtFlushBuffersFile'' Stdcall 8,
     export_row 199 ''NtFreeVirtualMemory'' Stdcall 12,
     export_row 200 ''NtFsControlFile'' Stdcall 40,
     export_row 201 ''NtOpenDirectoryObject'' Stdcall 8,
     export_row 202 ''NtOpenFile'' Stdcall 24,
     export_row 203 ''NtOpenSymbolicLinkObject'' Stdcall 8,
     export_row 204 ''NtProtectVirtualMemory'' Stdcall 16,
     export_row 205 ''NtPulseEvent'' Stdcall 8,
     export_row 206 ''NtQueueApcThread'' Stdcall 20,
     export_row 207 ''NtQueryDirectoryFile'' Stdcall 40,
     export_row 208 ''NtQueryDirectoryObject'' Stdcall 24,
     export_row 209 ''NtQueryEvent'' Stdcall 8,
     export_row 210 ''NtQueryFullAttributesFile'' Stdcall 8,
     export_row 211 ''NtQueryInformationFile'' Stdcall 20,
     export_row 212 ''NtQueryIoCompletion'' Stdcall 8,
     export_row 213 ''NtQueryMutant'' Stdcall 8,
     export_row 214 ''NtQuerySemaphore'' Stdcall 8,
     export_row 215 ''NtQuerySymbolicLinkObject'' Stdcall 12,
     export_row 216 ''NtQueryTimer'' Stdcall 8,
     export_row 217 ''NtQueryVirtualMemory'' Stdcall 8,
     export_row 218 ''NtQueryVolumeInformationFile'' Stdcall 20,
     export_row 219 ''NtReadFile'' Stdcall 32,
     export_row 220 ''NtReadFileScatter'' Stdcall 32,
     export_row 221 ''NtReleaseMutant'' Stdcall 8,
     export_row 222 ''NtReleaseSemaphore'' Stdcall 12,
     export_row 223 ''NtRemoveIoCompletion'' Stdcall 20,
     export_row 224 ''NtResumeThread'' Stdcall 8,
     export_row 225 ''NtSetEvent'' Stdcall 8,
     export_row 226 ''NtSetInformationFile'' Stdcall 20,
     export_row 227 ''NtSetIoCompletion'' Stdcall 20,
     export_row 228 ''NtSetSystemTime'' Stdcall 8,
     export_row 229 ''NtSetTimerEx'' Stdcall 32,
     export_row 230 ''NtSignalAndWaitForSingleObjectEx'' Stdcall 20,
     export_row 231 ''NtSuspendThread'' Stdcall 8,
     export_row 232 ''NtUserIoApcDispatcher'' Stdcall 12,
     export_row 233 ''NtWaitForSingleObject'' Stdcall 12,
     export_row 234 ''NtWaitForSingleObjectEx'' Stdcall 16,
     export_row 235 ''NtWaitForMultipleObjectsEx'' Stdcall 24,
     export_row 236 ''NtWriteFile'' Stdcall 32,
     export_row 237 ''NtWriteFileGather'' Stdcall 32,
     export_row 238 ''NtYieldExecution'' Stdcall 0,
     export_row 239 ''ObCreateObject'' Stdcall 16,
     export_row 240 ''ObDirectoryObjectType'' Data 0,
     export_row 241 ''ObInsertObject'' Stdcall 16,
     export_row 242 ''ObMakeTemporaryObject'' Stdcall 4,
     export_row 243 ''ObOpenObjectByName'' Stdcall 16,
     export_row 244 ''ObOpenObjectByPointer'' Stdcall 12,
     export_row 245 ''ObpObjectHandleTable'' Data 0,
     export_row 246 ''ObReferenceObjectByHandle'' Stdcall 12,
     export_row 247 ''ObReferenceObjectByName'' Stdcall 20,
     export_row 248 ''ObReferenceObjectByPointer'' Stdcall 8]"

definition kExports_3 :: "kexport list" where
  "kExports_3 = [
     export_row 249 ''ObSymbolicLinkObjectType'' Data 0,
     export_row 250 ''ObfDereferenceObject'' Fastcall 4,
     export_row 251 ''ObfReferenceObject'' Fastcall 4,
     export_row 252 ''PhyGetLinkState'' Stdcall 4,
     export_row 253 ''PhyInitialize'' Stdcall 8,
     export_row 254 ''PsCreateSystemThread'' Stdcall 20,
     export_row 255 ''PsCreateSystemThreadEx'' Stdcall 40,
     export_row 256 ''PsQueryStatistics'' Stdcall 4,
     export_row 257 ''PsSetCreateThreadNotifyRoutine'' Stdcall 4,
     export_row 258 ''PsTerminateSystemThread'' Stdcall 4,
     export_row 259 ''PsThreadObjectType'' Data 0,
     export_row 260 ''RtlAnsiStringToUnicodeString'' Stdcall 12,
     export_row 261 ''RtlAppendStringToString'' Stdcall 8,
     export_row 262 ''RtlAppendUnicodeStringToString'' Stdcall 8,
     export_row 263 ''RtlAppendUnicodeToString'' Stdcall 8,
     export_row 264 ''RtlAssert'' Stdcall 16,
     export_row 265 ''RtlCaptureContext'' Stdcall 4,
     export_row 266 ''RtlCaptureStackBackTrace'' Stdcall 16,
     export_row 267 ''RtlCharToInteger'' Stdcall 12,
     export_row 268 ''RtlCompareMemory'' Stdcall 12,
     export_row 269 ''RtlCompareMemoryUlong'' Stdcall 12,
     export_row 270 ''RtlCompareString'' Stdcall 12,
     export_row 271 ''RtlCompareUnicodeString'' Stdcall 12,
     export_row 272 ''RtlCopyString'' Stdcall 8,
     export_row 273 ''RtlCopyUnicodeString'' Stdcall 8,
     export_row 274 ''RtlCreateUnicodeString'' Stdcall 8,
     export_row 275 ''RtlDowncaseUnicodeChar'' Stdcall 4,
     export_row 276 ''RtlDowncaseUnicodeString'' Stdcall 12,
     export_row 277 ''RtlEnterCriticalSection'' Stdcall 4,
     export_row 278 ''RtlEnterCriticalSectionAndRegion'' Stdcall 4,
     export_row 279 ''RtlEqualString'' Stdcall 12,
     export_row 280 ''RtlEqualUnicodeString'' Stdcall 12,
     export_row 281 ''RtlExtendedIntegerMultiply'' Stdcall 12,
     export_row 282 ''RtlExtendedLargeIntegerDivide'' Stdcall 16,
     export_row 283 ''RtlExtendedMagicDivide'' Stdcall 20,
     export_row 284 ''RtlFillMemory'' Stdcall 12,
     export_row 285 ''RtlFillMemoryUlong'' Stdcall 12,
     export_row 286 ''RtlFreeAnsiString'' Stdcall 4,
     export_row 287 ''RtlFreeUnicodeString'' Stdcall 4,
     export_row 288 ''RtlGetCallersAddress'' Stdcall 8,
     export_row 289 ''RtlInitAnsiString'' Stdcall 8,
     export_row 290 ''RtlInitUnicodeString'' Stdcall 8,
     export_row 291 ''RtlInitializeCriticalSection'' Stdcall 4,
     export_row 292 ''RtlIntegerToChar'' Stdcall 16,
     export_row 293 ''RtlIntegerToUnicodeString'' Stdcall 12,
     export_row 294 ''RtlLeaveCriticalSection'' Stdcall 4,
     export_row 295 ''RtlLeaveCriticalSectionAndRegion'' Stdcall 4,
     export_row 296 ''RtlLowerChar'' Stdcall 4,
     export_row 297 ''RtlMapGenericMask'' Stdcall 8,
     export_row 298 ''RtlMoveMemory'' Stdcall 12,
     export_row 299 ''RtlMultiByteToUnicodeN'' Stdcall 20,
     export_row 300 ''RtlMultiByteToUnicodeSize'' Stdcall 12,
     export_row 301 ''RtlNtStatusToDosError'' Stdcall 4,
     export_row 302 ''RtlRaiseException'' Stdcall 4,
     export_row 303 ''RtlRaiseStatus'' Stdcall 4,
     export_row 304 ''RtlTimeFieldsToTime'' Stdcall 8,
     export_row 305 ''RtlTimeToTimeFields'' Stdcall 8,
     export_row 306 ''RtlTryEnterCriticalSection'' Stdcall 4,
     export_row 307 ''RtlUlongByteSwap'' Fastcall 4,
     export_row 308 ''RtlUnicodeStringToAnsiString'' Stdcall 12,
     export_row 309 ''RtlUnicodeStringToInteger'' Stdcall 12,
     export_row 310 ''RtlUnicodeToMultiByteN'' Stdcall 20,
     export_row 311 ''RtlUnicodeToMultiByteSize'' Stdcall 12,
     export_row 312 ''RtlUnwind'' Stdcall 16,
     export_row 313 ''RtlUpcaseUnicodeChar'' Stdcall 4,
     export_row 314 ''RtlUpcaseUnicodeString'' Stdcall 12,
     export_row 315 ''RtlUpcaseUnicodeToMultiByteN'' Stdcall 20,
     export_row 316 ''RtlUpperChar'' Stdcall 4,
     export_row 317 ''RtlUpperString'' Stdcall 8,
     export_row 318 ''RtlUshortByteSwap'' Fastcall 4,
     export_row 319 ''RtlWalkFrameChain'' Stdcall 12,
     export_row 320 ''RtlZeroMemory'' Stdcall 8,
     export_row 321 ''XboxEEPROMKey'' Data 0,
     export_row 322 ''XboxHardwareInfo'' Data 0,
     export_row 323 ''XboxHDKey'' Data 0,
     export_row 324 ''XboxKrnlVersion'' Data 0,
     export_row 325 ''XboxSignatureKey'' Data 0,
     export_row 326 ''XeImageFileName'' Data 0,
     export_row 327 ''XeLoadSection'' Stdcall 4,
     export_row 328 ''XeUnloadSection'' Stdcall 4,
     export_row 329 ''READ_PORT_BUFFER_UCHAR'' Stdcall 12,
     export_row 330 ''READ_PORT_BUFFER_USHORT'' Stdcall 12,
     export_row 331 ''READ_PORT_BUFFER_ULONG'' Stdcall 12,
     export_row 332 ''WRITE_PORT_BUFFER_UCHAR'' Stdcall 12,
     export_row 333 ''WRITE_PORT_BUFFER_USHORT'' Stdcall 12,
     export_row 334 ''WRITE_PORT_BUFFER_ULONG'' Stdcall 12,
     export_row 335 ''XcSHAInit'' Stdcall 4,
     export_row 336 ''XcSHAUpdate'' Stdcall 12,
     export_row 337 ''XcSHAFinal'' Stdcall 8,
     export_row 338 ''XcRC4Key'' Stdcall 12,
     export_row 339 ''XcRC4Crypt'' Stdcall 12,
     export_row 340 ''XcHMAC'' Stdcall 28,
     export_row 341 ''XcPKEncPublic'' Stdcall 12,
     export_row 342 ''XcPKDecPrivate'' Stdcall 12,
     export_row 343 ''XcPKGetKeyLen'' Stdcall 4,
     export_row 344 ''XcVerifyPKCS1Signature'' Stdcall 12,
     export_row 345 ''XcModExp'' Stdcall 20,
     export_row 346 ''XcDESKeyParity'' Stdcall 8,
     export_row 347 ''XcKeyTable'' Stdcall 12,
     export_row 348 ''XcBlockCrypt'' Stdcall 20,
     export_row 349 ''XcBlockCryptCBC'' Stdcall 28,
     export_row 350 ''XcCryptService'' Stdcall 8,
     export_row 351 ''XcUpdateCrypto'' Stdcall 8,
     export_row 352 ''RtlRip'' Stdcall 12,
     export_row 353 ''XboxLANKey'' Data 0,
     export_row 354 ''XboxAlternateSignatureKeys'' Data 0,
     export_row 355 ''XePublicKeyData'' Data 0,
     export_row 356 ''HalBootSMCVideoMode'' Data 0,
     export_row 357 ''IdexChannelObject'' Data 0,
     export_row 358 ''HalIsResetOrShutdownPending'' Stdcall 0,
     export_row 359 ''IoMarkIrpMustComplete'' Stdcall 4,
     export_row 360 ''HalInitiateShutdown'' Stdcall 0,
     export_row 361 ''RtlSnprintf'' Cdecl 0,
     export_row 362 ''RtlSprintf'' Cdecl 0,
     export_row 363 ''RtlVsnprintf'' Cdecl 0,
     export_row 364 ''RtlVsprintf'' Cdecl 0,
     export_row 365 ''HalEnableSecureTrayEject'' Stdcall 0,
     export_row 366 ''HalWriteSMCScratchRegister'' Stdcall 4,
     export_row 374 ''MmDbgAllocateMemory'' Stdcall 8,
     export_row 375 ''MmDbgFreeMemory'' Stdcall 8,
     export_row 376 ''MmDbgQueryAvailablePages'' Stdcall 0,
     export_row 377 ''MmDbgReleaseAddress'' Stdcall 8,
     export_row 378 ''MmDbgWriteCheck'' Stdcall 8]"

definition kExports :: "kexport list" where
  "kExports = kExports_1 @ kExports_2 @ kExports_3"

lemmas kExports_rows = kExports_def kExports_1_def kExports_2_def kExports_3_def append.simps export_row_def

definition find_export :: "u32 \<Rightarrow> kexport option" where
  "find_export ordinal = find (\<lambda>e. ex_ordinal e = ordinal) kExports"

definition name_of :: "u32 \<Rightarrow> string" where
  "name_of ordinal = (case find_export ordinal of None \<Rightarrow> ''<unknown>'' | Some e \<Rightarrow> ex_name e)"

section \<open>Implemented exports\<close>

definition implemented_functions :: "u32 list" where
  "implemented_functions =
     [5, 8, 51, 52, 53, 54, 55, 99, 108, 104, 110, 112, 126, 127, 128, 131, 132, 138, 140, 143, 145,
      152, 159, 165, 166, 171, 180, 186, 187, 189, 192, 193, 205, 213, 214, 221, 222, 224, 225, 231,
      233, 234, 235, 238, 255, 258, 277, 284, 291, 294, 298, 305, 306, 320]"

definition implemented_function :: "u32 \<Rightarrow> bool" where
  "implemented_function ordinal \<longleftrightarrow> ordinal \<in> set implemented_functions"

definition implemented_data :: "u32 \<Rightarrow> bool" where
  "implemented_data ordinal \<longleftrightarrow> ordinal \<in> {156, 164, 324, 326}"

definition returns_64 :: "u32 \<Rightarrow> bool" where
  "returns_64 ordinal \<longleftrightarrow> ordinal = 126 \<or> ordinal = 127"

section \<open>Facts about the table\<close>

fun ascending :: "u32 list \<Rightarrow> bool" where
  "ascending (x # y # zs) \<longleftrightarrow> x < y \<and> ascending (y # zs)"
| "ascending _ = True"

text \<open>One pass over both lists in ascending order.\<close>

fun covers :: "u32 list \<Rightarrow> (u32 \<times> bool) list \<Rightarrow> bool" where
  "covers [] es \<longleftrightarrow> True"
| "covers (n # ns) [] \<longleftrightarrow> False"
| "covers (n # ns) ((m, b) # es) \<longleftrightarrow> (if m = n then b \<and> covers ns es else covers (n # ns) es)"

lemma exports_in_order: "ascending (map ex_ordinal kExports)"
  unfolding kExports_rows by simp

lemma implemented_covered:
  "covers [5, 8, 51, 52, 53, 54, 55, 99, 104, 108, 110, 112, 126, 127, 128, 131, 132, 138, 140, 143, 145,
     152, 159, 165, 166, 171, 180, 186, 187, 189, 192, 193, 205, 213, 214, 221, 222, 224, 225, 231,
     233, 234, 235, 238, 255, 258, 277, 284, 291, 294, 298, 305, 306, 320]
     (map (\<lambda>e. (ex_ordinal e, ex_conv e \<noteq> Data)) kExports)"
  unfolding kExports_rows by simp

lemma covers_member: "covers ns es \<Longrightarrow> n \<in> set ns \<Longrightarrow> (n, True) \<in> set es"
  by (induction ns es rule: covers.induct) (auto split: if_splits)

lemma ascending_less: "ascending (x # xs) \<Longrightarrow> y \<in> set xs \<Longrightarrow> x < y"
  by (induction xs arbitrary: x) (auto intro: less_trans)

lemma ascending_find:
  "ascending (map ex_ordinal es) \<Longrightarrow> e \<in> set es \<Longrightarrow> find (\<lambda>x. ex_ordinal x = ex_ordinal e) es = Some e"
proof (induction es)
  case (Cons d es)
  have asc: "ascending (map ex_ordinal es)" using Cons.prems(1) by (cases es) auto
  show ?case
  proof (cases "d = e")
    case False
    with Cons.prems have "ex_ordinal d < ex_ordinal e"
      using ascending_less [of "ex_ordinal d" "map ex_ordinal es"] by auto
    with Cons asc False show ?thesis by auto
  qed simp
qed simp

lemma find_export_member: "e \<in> set kExports \<Longrightarrow> find_export (ex_ordinal e) = Some e"
  unfolding find_export_def by (rule ascending_find [OF exports_in_order])

text \<open>Every implemented function is a non-data export.\<close>

lemma implemented_exported:
  assumes "implemented_function n"
  shows "\<exists>e. find_export n = Some e \<and> ex_ordinal e = n \<and> ex_conv e \<noteq> Data"
proof -
  have "(n, True) \<in> set (map (\<lambda>e. (ex_ordinal e, ex_conv e \<noteq> Data)) kExports)"
    using assms by (intro covers_member [OF implemented_covered])
      (auto simp: implemented_function_def implemented_functions_def)
  then show ?thesis using find_export_member by (auto simp: image_iff)
qed

end
