(* ===== verification/Krnl_Call.thy ===== *)
theory Krnl_Call
  imports Krnl_Wait Krnl_Mm Krnl_Cs Krnl_Time Krnl_Exports
begin

text \<open>
  The exports of the kernel, one definition per handler of \<open>XboxKrnl::call\<close>
  (\<open>src/src/xbox_krnl.cpp\<close>), the dispatcher, the continuation of blocked handlers, and the
  installation of the thunk table. Arguments are positional; \<open>NEED(n)\<close> is \<open>need n\<close>.
\<close>

section \<open>Preambles\<close>

definition need :: "nat \<Rightarrow> (u32 list \<Rightarrow> krnl \<Rightarrow> outcome) \<Rightarrow> u32 list \<Rightarrow> krnl \<Rightarrow> outcome" where
  "need n h args k = (if length args < n then void_fail k else h args k)"

text \<open>Look up an object that must satisfy \<open>P\<close>, or reject the call.\<close>

definition on_object ::
  "obj option \<Rightarrow> (dispatcher_object \<Rightarrow> bool) \<Rightarrow> krnl \<Rightarrow> (obj \<Rightarrow> dispatcher_object \<Rightarrow> outcome) \<Rightarrow> outcome" where
  "on_object obo P k f =
     (case obo of
        None \<Rightarrow> reject k
      | Some ob \<Rightarrow> (case kr_heap k ob of
            None \<Rightarrow> Crash
          | Some d \<Rightarrow> if P d then f ob d else reject k))"

definition opt_poke :: "u32 \<Rightarrow> u32 \<Rightarrow> krnl \<Rightarrow> krnl" where
  "opt_poke ptr v k = (if ptr \<noteq> 0 \<and> writable (kr_ram k) ptr 4 then poke32 ptr v k else k)"

definition is_event :: "dispatcher_object \<Rightarrow> bool" where "is_event d \<longleftrightarrow> do_kind d = KEvent"
definition is_mutant :: "dispatcher_object \<Rightarrow> bool" where "is_mutant d \<longleftrightarrow> do_kind d = KMutant"
definition is_semaphore :: "dispatcher_object \<Rightarrow> bool" where "is_semaphore d \<longleftrightarrow> do_kind d = KSemaphore"
definition is_thread_obj :: "dispatcher_object \<Rightarrow> bool" where "is_thread_obj d \<longleftrightarrow> do_kind d = KThread"

section \<open>Debug output and interlocked operations\<close>

definition dbg_out :: "u8 list \<Rightarrow> krnl \<Rightarrow> krnl" where
  "dbg_out line k = (if kr_dbg_sink k then k\<lparr>kr_sink_log := kr_sink_log k @ [line]\<rparr>
     else k\<lparr>kr_dbg_lines := kr_dbg_lines k @ [line]\<rparr>)"

definition DbgBreakPoint :: "u32 list \<Rightarrow> krnl \<Rightarrow> outcome" where
  "DbgBreakPoint args k =
     ret 0 (dbg_out [0x44, 0x62, 0x67, 0x42, 0x72, 0x65, 0x61, 0x6B, 0x50, 0x6F, 0x69, 0x6E, 0x74] k)"

definition DbgPrint :: "(u8 list \<Rightarrow> u32 \<Rightarrow> u8 list) \<Rightarrow> u32 list \<Rightarrow> krnl \<Rightarrow> outcome" where
  "DbgPrint fmt args k =
     (let out = dbg_format fmt k (read_cstr k (args ! 0)) (tl args) in
      ret (of_nat (length out)) (dbg_out out k))"

text \<open>Read-modify-write of a guest word: \<open>f\<close> gives the value to store (if any) and the result.\<close>

definition interlocked :: "(u32 \<Rightarrow> u32 option \<times> u32) \<Rightarrow> u32 \<Rightarrow> krnl \<Rightarrow> outcome" where
  "interlocked f va k =
     (case peek32 k va of
        None \<Rightarrow> reject k
      | Some v \<Rightarrow> if \<not> writable (kr_ram k) va 4 then reject k
          else (case f v of (None, r) \<Rightarrow> ret r k | (Some w, r) \<Rightarrow> ret r (poke32 va w k)))"

definition InterlockedIncrement :: "u32 list \<Rightarrow> krnl \<Rightarrow> outcome" where
  "InterlockedIncrement args = interlocked (\<lambda>v. (Some (v + 1), v + 1)) (args ! 0)"

definition InterlockedDecrement :: "u32 list \<Rightarrow> krnl \<Rightarrow> outcome" where
  "InterlockedDecrement args = interlocked (\<lambda>v. (Some (v - 1), v - 1)) (args ! 0)"

definition InterlockedExchange :: "u32 list \<Rightarrow> krnl \<Rightarrow> outcome" where
  "InterlockedExchange args = interlocked (\<lambda>v. (Some (args ! 1), v)) (args ! 0)"

definition InterlockedCompareExchange :: "u32 list \<Rightarrow> krnl \<Rightarrow> outcome" where
  "InterlockedCompareExchange args =
     interlocked (\<lambda>v. (if v = args ! 2 then Some (args ! 1) else None, v)) (args ! 0)"

definition InterlockedExchangeAdd :: "u32 list \<Rightarrow> krnl \<Rightarrow> outcome" where
  "InterlockedExchangeAdd args = interlocked (\<lambda>v. (Some (v + args ! 1), v)) (args ! 0)"

section \<open>Time\<close>

definition kQpcFreq :: u64 where "kQpcFreq = 10000000"

definition KeQueryPerformanceCounter :: "u32 list \<Rightarrow> krnl \<Rightarrow> outcome" where
  "KeQueryPerformanceCounter args k = Ret (ucast (kr_qpc k)) True (Some (ucast (drop_bit 32 (kr_qpc k)))) k"

definition KeQueryPerformanceFrequency :: "u32 list \<Rightarrow> krnl \<Rightarrow> outcome" where
  "KeQueryPerformanceFrequency args k = Ret (ucast kQpcFreq) True (Some (ucast (drop_bit 32 kQpcFreq))) k"

definition KeQuerySystemTime :: "u32 list \<Rightarrow> krnl \<Rightarrow> outcome" where
  "KeQuerySystemTime args k =
     (case write64 (args ! 0) (kr_filetime k) k of (b, k') \<Rightarrow> if b then ret 0 k' else reject k')"

definition KeDelayExecutionThread :: "u32 list \<Rightarrow> krnl \<Rightarrow> outcome" where
  "KeDelayExecutionThread args k =
     (case (if args ! 2 \<noteq> 0 then read64 k (args ! 2) else Some 0) of
        None \<Rightarrow> reject k
      | Some q \<Rightarrow> (case interval_to_ticks (kr_filetime k) q of (immediate, ticks) \<Rightarrow>
          if immediate then ret kStatusSuccess k
          else if \<not> in_fiber k then reject k
          else Block (krnl_block KtDone kDelayToken ticks k)))"

definition RtlTimeToTimeFields :: "u32 list \<Rightarrow> krnl \<Rightarrow> outcome" where
  "RtlTimeToTimeFields args k =
     (case read64 k (args ! 0) of
        None \<Rightarrow> reject k
      | Some ft \<Rightarrow> if \<not> writable (kr_ram k) (args ! 1) 16 then reject k
          else let w = field_words (time_to_fields ft) in
            ret 0 (poke32 (args ! 1 + 0xC) (w ! 3) (poke32 (args ! 1 + 0x8) (w ! 2)
              (poke32 (args ! 1 + 0x4) (w ! 1) (poke32 (args ! 1) (w ! 0) k)))))"

section \<open>Events\<close>

definition KeInitializeEvent :: "u32 list \<Rightarrow> krnl \<Rightarrow> outcome" where
  "KeInitializeEvent args k =
     (let va = args ! 0; type = args ! 1; init = (\<lambda>ob k. case kr_heap k ob of
            None \<Rightarrow> Crash
          | Some d \<Rightarrow> let d1 = d\<lparr>ev_type := type, ev_signaled := (args ! 2 AND 1 \<noteq> 0)\<rparr> in
              ret 0 (write_dispatcher_header d1 (set_obj ob d1 k))) in
      if type > kEventSync then reject k
      else if \<not> writable (kr_ram k) va 16 then reject k
      else (case find_object_by_va k va of
          Some ob \<Rightarrow> (case kr_heap k ob of
              None \<Rightarrow> Crash
            | Some d \<Rightarrow> if do_kind d \<noteq> KEvent then reject k else init ob k)
        | None \<Rightarrow> (case alloc_obj (new_object\<lparr>do_kind := KEvent, do_guest_va := va\<rparr>) k of
              (ob, k1) \<Rightarrow> init ob (k1\<lparr>kr_va_objects := kr_va_objects k1 @ [ob]\<rparr>))))"

definition KeSetEvent :: "u32 list \<Rightarrow> krnl \<Rightarrow> outcome" where
  "KeSetEvent args k =
     on_object (find_object_by_va k (args ! 0)) is_event k
       (\<lambda>ob d. case ke_set_event ob d k of (prev, k') \<Rightarrow> ret prev k')"

definition KeResetEvent :: "u32 list \<Rightarrow> krnl \<Rightarrow> outcome" where
  "KeResetEvent args k =
     on_object (find_object_by_va k (args ! 0)) is_event k
       (\<lambda>ob d. case ke_reset_event ob d k of (prev, k') \<Rightarrow> ret prev k')"

text \<open>The three single waits differ in how they find the object and in the argument positions.\<close>

definition wait_export :: "obj option \<Rightarrow> u32 \<Rightarrow> krnl \<Rightarrow> outcome" where
  "wait_export obo timeout_ptr k =
     (case obo of
        None \<Rightarrow> reject k
      | Some ob \<Rightarrow> (case read_timeout k timeout_ptr of
            None \<Rightarrow> reject k
          | Some (immediate, ticks) \<Rightarrow> wait_dispatch ob immediate ticks k))"

definition KeWaitForSingleObject :: "u32 list \<Rightarrow> krnl \<Rightarrow> outcome" where
  "KeWaitForSingleObject args k = wait_export (find_object_by_va k (args ! 0)) (args ! 4) k"

definition NtWaitForSingleObject :: "u32 list \<Rightarrow> krnl \<Rightarrow> outcome" where
  "NtWaitForSingleObject args k = wait_export (find_object_by_handle k (args ! 0)) (args ! 2) k"

definition NtWaitForSingleObjectEx :: "u32 list \<Rightarrow> krnl \<Rightarrow> outcome" where
  "NtWaitForSingleObjectEx args k = wait_export (find_object_by_handle k (args ! 0)) (args ! 3) k"

text \<open>Create a pool object, store its handle through the first argument.\<close>

definition create_pool :: "u32 \<Rightarrow> dispatcher_object \<Rightarrow> krnl \<Rightarrow> outcome" where
  "create_pool out d k =
     (case alloc_obj d k of (ob, k1) \<Rightarrow>
        (case insert_object ob k1 of (handle, k2) \<Rightarrow> ret kStatusSuccess (poke32 out handle k2)))"

definition NtCreateEvent :: "u32 list \<Rightarrow> krnl \<Rightarrow> outcome" where
  "NtCreateEvent args k =
     (if args ! 2 > kEventSync then reject k
      else if \<not> writable (kr_ram k) (args ! 0) 4 then reject k
      else create_pool (args ! 0)
        (new_object\<lparr>do_kind := KEvent, ev_type := args ! 2, ev_signaled := (args ! 3 AND 1 \<noteq> 0)\<rparr>) k)"

definition NtSetEvent :: "u32 list \<Rightarrow> krnl \<Rightarrow> outcome" where
  "NtSetEvent args k =
     on_object (find_object_by_handle k (args ! 0)) is_event k
       (\<lambda>ob d. case ke_set_event ob d k of (prev, k') \<Rightarrow> ret kStatusSuccess (opt_poke (args ! 1) prev k'))"

definition NtClearEvent :: "u32 list \<Rightarrow> krnl \<Rightarrow> outcome" where
  "NtClearEvent args k =
     on_object (find_object_by_handle k (args ! 0)) is_event k
       (\<lambda>ob d. ret kStatusSuccess (set_obj_mirrored ob (d\<lparr>ev_signaled := False\<rparr>) k))"

definition NtPulseEvent :: "u32 list \<Rightarrow> krnl \<Rightarrow> outcome" where
  "NtPulseEvent args k =
     on_object (find_object_by_handle k (args ! 0)) is_event k
       (\<lambda>ob d. case nt_pulse_event ob d k of (prev, k') \<Rightarrow> ret kStatusSuccess (opt_poke (args ! 1) prev k'))"

fun read_handles :: "nat \<Rightarrow> u32 \<Rightarrow> krnl \<Rightarrow> obj list option" where
  "read_handles 0 va k = Some []"
| "read_handles (Suc n) va k =
     (case peek32 k va of
        None \<Rightarrow> None
      | Some h \<Rightarrow> (case find_object_by_handle k h of
            None \<Rightarrow> None
          | Some ob \<Rightarrow> map_option ((#) ob) (read_handles n (va + 4) k)))"

definition NtWaitForMultipleObjectsEx :: "u32 list \<Rightarrow> krnl \<Rightarrow> outcome" where
  "NtWaitForMultipleObjectsEx args k =
     (let count = args ! 0 in
      if count = 0 \<or> count > kMaxWaitObjects then reject k
      else if \<not> readable (kr_ram k) (args ! 1) (4 * count) then reject k
      else if args ! 2 > 1 then reject k
      else (case read_timeout k (args ! 5) of
          None \<Rightarrow> reject k
        | Some (immediate, ticks) \<Rightarrow> (case read_handles (unat count) (args ! 1) k of
              None \<Rightarrow> reject k
            | Some obs \<Rightarrow> wait_multiple obs (args ! 2 = 0) immediate ticks k)))"

section \<open>Mutants and semaphores\<close>

text \<open>The initial ownership of a new mutant; \<open>None\<close> is the rejection of a host caller.\<close>

definition new_mutant :: "u32 \<Rightarrow> u32 \<Rightarrow> krnl \<Rightarrow> (dispatcher_object \<times> krnl) option" where
  "new_mutant va initial k =
     (let m = new_object\<lparr>do_kind := KMutant, do_guest_va := va\<rparr> in
      if initial AND 1 \<noteq> 0
      then if \<not> in_fiber k then None
        else (case current_thread_token k of (tok, k1) \<Rightarrow>
          Some (m\<lparr>mu_signal_state := 0, mu_owner := tok\<rparr>, k1))
      else Some (m\<lparr>mu_signal_state := 1\<rparr>, k))"

definition NtCreateMutant :: "u32 list \<Rightarrow> krnl \<Rightarrow> outcome" where
  "NtCreateMutant args k =
     (if \<not> writable (kr_ram k) (args ! 0) 4 then reject k
      else (case new_mutant 0 (args ! 2) k of None \<Rightarrow> reject k | Some (m, k1) \<Rightarrow> create_pool (args ! 0) m k1))"

definition NtReleaseMutant :: "u32 list \<Rightarrow> krnl \<Rightarrow> outcome" where
  "NtReleaseMutant args k =
     on_object (find_object_by_handle k (args ! 0)) is_mutant k
       (\<lambda>ob d. case current_thread_token k of (self, k1) \<Rightarrow>
          if mu_owner d = 0 \<or> mu_owner d \<noteq> self then reject k1
          else (case release_mutant ob d k1 of (prev, k2) \<Rightarrow>
            ret kStatusSuccess (opt_poke (args ! 1) (word_of_int prev) k2)))"

definition NtQueryMutant :: "u32 list \<Rightarrow> krnl \<Rightarrow> outcome" where
  "NtQueryMutant args k =
     on_object (find_object_by_handle k (args ! 0)) is_mutant k
       (\<lambda>ob d. if \<not> writable (kr_ram k) (args ! 1) 8 then reject k
          else let k1 = poke32 (args ! 1) (word_of_int (mu_signal_state d)) k;
                   (owned, k2) = (if mu_owner d \<noteq> 0
                     then (case current_thread_token k1 of (tok, k') \<Rightarrow> (mu_owner d = tok, k')) else (False, k1)) in
            ret kStatusSuccess (poke8 (args ! 1 + 5) (if mu_abandoned d then 1 else 0)
              (poke8 (args ! 1 + 4) (if owned then 1 else 0) k2)))"

text \<open>Register an object at a guest address and write its header.\<close>

definition create_at_va :: "dispatcher_object \<Rightarrow> krnl \<Rightarrow> outcome" where
  "create_at_va d k =
     (case alloc_obj d k of (ob, k1) \<Rightarrow>
        ret 0 (write_dispatcher_header d (k1\<lparr>kr_va_objects := kr_va_objects k1 @ [ob]\<rparr>)))"

definition KeInitializeMutant :: "u32 list \<Rightarrow> krnl \<Rightarrow> outcome" where
  "KeInitializeMutant args k =
     (if \<not> writable (kr_ram k) (args ! 0) 28 then reject k
      else (case new_mutant (args ! 0) (args ! 1) k of None \<Rightarrow> reject k | Some (m, k1) \<Rightarrow> create_at_va m k1))"

definition KeReleaseMutant :: "u32 list \<Rightarrow> krnl \<Rightarrow> outcome" where
  "KeReleaseMutant args k =
     on_object (find_object_by_va k (args ! 0)) is_mutant k
       (\<lambda>ob d. case release_mutant ob d k of (prev, k') \<Rightarrow> ret (word_of_int prev) k')"

definition NtCreateSemaphore :: "u32 list \<Rightarrow> krnl \<Rightarrow> outcome" where
  "NtCreateSemaphore args k =
     (let initial = sint (args ! 2); maximum = sint (args ! 3) in
      if \<not> writable (kr_ram k) (args ! 0) 4 then reject k
      else if maximum \<le> 0 \<or> initial < 0 \<or> initial > maximum then reject k
      else create_pool (args ! 0)
        (new_object\<lparr>do_kind := KSemaphore, se_count := initial, se_limit := maximum\<rparr>) k)"

definition NtReleaseSemaphore :: "u32 list \<Rightarrow> krnl \<Rightarrow> outcome" where
  "NtReleaseSemaphore args k =
     on_object (find_object_by_handle k (args ! 0)) is_semaphore k
       (\<lambda>ob d. case release_semaphore ob d (sint (args ! 1)) k of
          None \<Rightarrow> reject k
        | Some (prev, k') \<Rightarrow> ret kStatusSuccess (opt_poke (args ! 2) (word_of_int prev) k'))"

definition NtQuerySemaphore :: "u32 list \<Rightarrow> krnl \<Rightarrow> outcome" where
  "NtQuerySemaphore args k =
     on_object (find_object_by_handle k (args ! 0)) is_semaphore k
       (\<lambda>ob d. if \<not> writable (kr_ram k) (args ! 1) 8 then reject k
          else ret kStatusSuccess (poke32 (args ! 1 + 4) (word_of_int (se_limit d))
                 (poke32 (args ! 1) (word_of_int (se_count d)) k)))"

definition KeInitializeSemaphore :: "u32 list \<Rightarrow> krnl \<Rightarrow> outcome" where
  "KeInitializeSemaphore args k =
     (if \<not> writable (kr_ram k) (args ! 0) 20 then reject k
      else create_at_va (new_object\<lparr>do_kind := KSemaphore, do_guest_va := args ! 0,
             se_count := sint (args ! 1), se_limit := sint (args ! 2)\<rparr>) k)"

definition KeReleaseSemaphore :: "u32 list \<Rightarrow> krnl \<Rightarrow> outcome" where
  "KeReleaseSemaphore args k =
     on_object (find_object_by_va k (args ! 0)) is_semaphore k
       (\<lambda>ob d. case release_semaphore ob d (sint (args ! 2)) k of
          None \<Rightarrow> reject k
        | Some (prev, k') \<Rightarrow> ret (word_of_int prev) k')"

section \<open>Threads\<close>

definition KeGetCurrentThread :: "u32 list \<Rightarrow> krnl \<Rightarrow> outcome" where
  "KeGetCurrentThread args k = (case current_thread_token k of (tok, k') \<Rightarrow> ret tok k')"

definition KeSetBasePriorityThread :: "u32 list \<Rightarrow> krnl \<Rightarrow> outcome" where
  "KeSetBasePriorityThread args k =
     on_object (find_thread_by_id k (args ! 0)) (\<lambda>_. True) k
       (\<lambda>ob d. ret (word_of_int (th_base_priority d)) (set_obj ob (d\<lparr>th_base_priority := sint (args ! 1)\<rparr>) k))"

definition PsCreateSystemThreadEx :: "(u64 \<Rightarrow> u64 option) \<Rightarrow> u32 list \<Rightarrow> krnl \<Rightarrow> outcome" where
  "PsCreateSystemThreadEx mm args k =
     (if \<not> writable (kr_ram k) (args ! 0) 4 then reject k
      else let d = new_object\<lparr>do_kind := KThread, th_start_routine := args ! 5, th_start_context := args ! 6,
               th_system_routine := args ! 9, th_kernel_stack_size := args ! 2, th_tls_data_size := args ! 3,
               th_suspend_count := (if args ! 7 AND 1 \<noteq> 0 then 1 else 0),
               th_thread_id := kr_next_thread_id k, th_running := True\<rparr>;
             (fiber, s) = spawn_reserved mm ''systhread'' SysThread (ucast (args ! 3)) (kr_sched k);
             k1 = k\<lparr>kr_next_thread_id := kr_next_thread_id k + 2, kr_sched := s\<rparr> in
        if fiber = 0 then reject k1
        else (case alloc_obj (d\<lparr>th_sched_handle := ucast fiber\<rparr>) k1 of (ob, k2) \<Rightarrow>
          (case insert_object ob k2 of (handle, k3) \<Rightarrow>
            ret kStatusSuccess (opt_poke (args ! 4) handle (poke32 (args ! 0) handle
              (upd_obj ob (\<lambda>d. d\<lparr>th_object_handle := handle\<rparr>) k3))))))"

text \<open>The kernel's finish hook, then the last switch of the fiber (\<open>GuestScheduler::thread_finish\<close>).\<close>

definition krnl_finish_hook :: "u64 \<Rightarrow> krnl \<Rightarrow> krnl" where
  "krnl_finish_hook h k =
     (case find_thread_by_fiber k (ucast h) of None \<Rightarrow> k | Some ob \<Rightarrow> finish_thread_object ob k)"

definition exit_fiber :: "nat \<Rightarrow> u32 \<Rightarrow> krnl \<Rightarrow> krnl" where
  "exit_fiber t code k =
     (let k1 = k\<lparr>kr_sched := upd_thread t (\<lambda>g. g\<lparr>gt_exit_code := code, gt_state := Finished, gt_ctx := Ended\<rparr>)
            (kr_sched k)\<rparr>;
          k2 = fold (\<lambda>h k. if h = KrnlFinish then krnl_finish_hook (gt_handle (gs_threads (kr_sched k) ! t)) k else k)
                 (gs_finish_hooks (kr_sched k)) k1
      in k2\<lparr>kr_sched := switch_to_scheduler (kr_sched k2)\<rparr>)"

definition PsTerminateSystemThread :: "u32 list \<Rightarrow> krnl \<Rightarrow> outcome" where
  "PsTerminateSystemThread args k =
     (let cur = (ucast (current_handle (kr_sched k)) :: u32) in
      case find_thread_by_fiber k cur of
        None \<Rightarrow> reject k
      | Some ob \<Rightarrow>
          let k1 = finish_thread_object ob k in
          (case find_thread (kr_sched k1) (ucast cur) of
             None \<Rightarrow> reject k1
           | Some t \<Rightarrow> if deref (kr_sched k1) t = None then Crash else Exit (exit_fiber t (args ! 0) k1)))"

definition NtClose :: "u32 list \<Rightarrow> krnl \<Rightarrow> outcome" where
  "NtClose args k =
     (case find_object_by_handle k (args ! 0) of
        None \<Rightarrow> reject k
      | Some ob \<Rightarrow> let slot = unat (args ! 0 div 4 - 1) in
          ret kStatusSuccess (k\<lparr>kr_heap := (kr_heap k)(ob := None),
            kr_objects := (kr_objects k)[slot := None], kr_free_slots := slot # kr_free_slots k\<rparr>))"

text \<open>Resume: the previous count and the kernel after the count is lowered.\<close>

definition resume_thread :: "obj \<Rightarrow> dispatcher_object \<Rightarrow> krnl \<Rightarrow> u32 \<times> krnl" where
  "resume_thread ob d k =
     (th_suspend_count d,
      if th_suspend_count d > 0
      then let d1 = d\<lparr>th_suspend_count := th_suspend_count d - 1\<rparr>; k1 = set_obj ob d1 k in
        if th_suspend_count d1 = 0 then snd (krnl_signal (do_token d) False k1) else k1
      else k)"

definition NtResumeThread :: "u32 list \<Rightarrow> krnl \<Rightarrow> outcome" where
  "NtResumeThread args k =
     on_object (find_object_by_handle k (args ! 0)) is_thread_obj k
       (\<lambda>ob d. case resume_thread ob d k of (prev, k') \<Rightarrow> ret kStatusSuccess (opt_poke (args ! 1) prev k'))"

definition KeResumeThread :: "u32 list \<Rightarrow> krnl \<Rightarrow> outcome" where
  "KeResumeThread args k =
     on_object (find_thread_by_id k (args ! 0)) is_thread_obj k
       (\<lambda>ob d. case resume_thread ob d k of (prev, k') \<Rightarrow> ret prev k')"

text \<open>Suspend: \<open>f\<close> finishes the call when it does not block, \<open>kt\<close> continues it when it does. The object
  is looked up again, because \<open>current_thread_token\<close> may have created the caller's identity.\<close>

definition suspend_thread ::
  "obj \<Rightarrow> dispatcher_object \<Rightarrow> (u32 \<Rightarrow> kont) \<Rightarrow> (u32 \<Rightarrow> krnl \<Rightarrow> outcome) \<Rightarrow> krnl \<Rightarrow> outcome" where
  "suspend_thread ob d kt f k =
     (case current_thread_token k of (self, k1) \<Rightarrow>
        let is_self = (th_thread_id d = self) in
        if \<not> is_self \<and> th_running d \<and> th_sched_handle d \<noteq> 0 then reject k1
        else let prev = th_suspend_count d;
                 k2 = set_obj ob (d\<lparr>th_suspend_count := th_suspend_count d + 1\<rparr>) k1 in
          if is_self \<and> gs_current (kr_sched k2) \<noteq> None
          then Block (krnl_block (kt prev) (do_token d) kNoTimeout k2)
          else f prev k2)"

definition NtSuspendThread :: "u32 list \<Rightarrow> krnl \<Rightarrow> outcome" where
  "NtSuspendThread args k =
     on_object (find_object_by_handle k (args ! 0)) is_thread_obj k
       (\<lambda>ob d. suspend_thread ob d (\<lambda>prev. KtNtSuspend prev (args ! 1))
          (\<lambda>prev k'. ret kStatusSuccess (opt_poke (args ! 1) prev k')) k)"

definition KeSuspendThread :: "u32 list \<Rightarrow> krnl \<Rightarrow> outcome" where
  "KeSuspendThread args k =
     on_object (find_thread_by_id k (args ! 0)) is_thread_obj k
       (\<lambda>ob d. suspend_thread ob d KtKeSuspend ret k)"

definition NtYieldExecution :: "u32 list \<Rightarrow> krnl \<Rightarrow> outcome" where
  "NtYieldExecution args k =
     (case find_thread (kr_sched k) (current_handle (kr_sched k)) of
        None \<Rightarrow> ret kStatusSuccess k
      | Some t \<Rightarrow> if deref (kr_sched k) t = None then Crash
          else Block (k\<lparr>kr_sched := thread_yield t
                 (upd_thread t (\<lambda>g. g\<lparr>gt_ctx := InKernel KtDone\<rparr>) (kr_sched k))\<rparr>))"

end
