(* ===== verification/Krnl_Dispatch.thy ===== *)
theory Krnl_Dispatch
  imports Krnl_Call
begin

text \<open>
  The rest of \<open>XboxKrnl\<close> (\<open>src/src/xbox_krnl.cpp\<close>): the memory and critical section exports, the
  dispatcher \<open>call\<close>, what a blocked handler does when its fiber is dispatched again, the body of a
  system thread, and \<open>install_thunks\<close>. The host's \<open>snprintf\<close> and the stack mappings of
  \<open>spawn_reserved\<close> are the parameters \<open>fmt\<close> and \<open>mm\<close>.
\<close>

section \<open>Memory exports\<close>

definition MmAllocateContiguousMemory :: "u32 list \<Rightarrow> krnl \<Rightarrow> outcome" where
  "MmAllocateContiguousMemory args k =
     (case mm_alloc (args ! 0) 0 0 0 kPageReadWrite k of None \<Rightarrow> Crash | Some (va, k') \<Rightarrow> ret va k')"

definition MmAllocateContiguousMemoryEx :: "u32 list \<Rightarrow> krnl \<Rightarrow> outcome" where
  "MmAllocateContiguousMemoryEx args k =
     (case mm_alloc (args ! 0) (args ! 1) (args ! 2) (args ! 3) (args ! 4) k of
        None \<Rightarrow> Crash | Some (va, k') \<Rightarrow> ret va k')"

definition MmFreeContiguousMemory :: "u32 list \<Rightarrow> krnl \<Rightarrow> outcome" where
  "MmFreeContiguousMemory args k =
     (case mm_free (args ! 0) k of (b, k') \<Rightarrow> if b then ret 0 k' else void_fail k')"

definition MmQueryAllocationSize :: "u32 list \<Rightarrow> krnl \<Rightarrow> outcome" where
  "MmQueryAllocationSize args k = ret (mm_size k (args ! 0)) k"

text \<open>\<open>memset(host_ptr(va), c, n)\<close> on a writable range.\<close>

definition fill_memory :: "u32 \<Rightarrow> u32 \<Rightarrow> u8 \<Rightarrow> krnl \<Rightarrow> outcome" where
  "fill_memory va n c k =
     (if n = 0 then ret 0 k
      else if \<not> writable (kr_ram k) va n then reject k
      else ret 0 (k\<lparr>kr_ram := (kr_ram k)\<lparr>xr_mem :=
             store_bytes va (replicate (unat n) c) (xr_mem (kr_ram k))\<rparr>\<rparr>))"

definition RtlZeroMemory :: "u32 list \<Rightarrow> krnl \<Rightarrow> outcome" where
  "RtlZeroMemory args = fill_memory (args ! 0) (args ! 1) 0"

definition RtlFillMemory :: "u32 list \<Rightarrow> krnl \<Rightarrow> outcome" where
  "RtlFillMemory args = fill_memory (args ! 0) (args ! 1) (ucast (args ! 2 AND 0xFF))"

text \<open>\<open>memmove\<close>: the source is read as a whole before the destination is written.\<close>

definition RtlMoveMemory :: "u32 list \<Rightarrow> krnl \<Rightarrow> outcome" where
  "RtlMoveMemory args k =
     (let r = kr_ram k in
      if args ! 2 = 0 then ret 0 k
      else if \<not> writable r (args ! 0) (args ! 2) \<or> \<not> readable r (args ! 1) (args ! 2) then reject k
      else ret 0 (k\<lparr>kr_ram := r\<lparr>xr_mem :=
             store_bytes (args ! 0) (load_bytes (unat (args ! 2)) (args ! 1) (xr_mem r)) (xr_mem r)\<rparr>\<rparr>))"

section \<open>Critical section exports\<close>

definition void_status :: "u32 \<times> krnl \<Rightarrow> outcome" where
  "void_status r = (case r of (st, k) \<Rightarrow> if st \<noteq> kStatusSuccess then void_fail k else ret 0 k)"

definition RtlInitializeCriticalSection :: "u32 list \<Rightarrow> krnl \<Rightarrow> outcome" where
  "RtlInitializeCriticalSection args k = void_status (cs_init (args ! 0) k)"

definition enter_round :: "u32 \<Rightarrow> krnl \<Rightarrow> outcome" where
  "enter_round va k = (case cs_enter va k of CsRet st k' \<Rightarrow> void_status (st, k') | CsBlock k' \<Rightarrow> Block k')"

definition RtlEnterCriticalSection :: "u32 list \<Rightarrow> krnl \<Rightarrow> outcome" where
  "RtlEnterCriticalSection args = enter_round (args ! 0)"

definition RtlLeaveCriticalSection :: "u32 list \<Rightarrow> krnl \<Rightarrow> outcome" where
  "RtlLeaveCriticalSection args k = void_status (cs_leave (args ! 0) k)"

definition RtlTryEnterCriticalSection :: "u32 list \<Rightarrow> krnl \<Rightarrow> outcome" where
  "RtlTryEnterCriticalSection args k = (case cs_try_enter (args ! 0) k of (b, k') \<Rightarrow> ret b k')"

section \<open>The dispatcher\<close>

type_synonym handler = "u32 list \<Rightarrow> krnl \<Rightarrow> outcome"

text \<open>The \<open>switch\<close> of \<open>call\<close>, in the order of its cases.\<close>

definition handlers ::
  "(u8 list \<Rightarrow> u32 \<Rightarrow> u8 list) \<Rightarrow> (u64 \<Rightarrow> u64 option) \<Rightarrow> (u32 \<times> handler) list" where
  "handlers fmt mm =
    [(5, DbgBreakPoint),
     (8, need 1 (DbgPrint fmt)),
     (53, need 1 InterlockedIncrement),
     (52, need 1 InterlockedDecrement),
     (54, need 2 InterlockedExchange),
     (51, need 3 InterlockedCompareExchange),
     (55, need 2 InterlockedExchangeAdd),
     (126, KeQueryPerformanceCounter),
     (127, KeQueryPerformanceFrequency),
     (128, need 1 KeQuerySystemTime),
     (99, need 3 KeDelayExecutionThread),
     (305, need 2 RtlTimeToTimeFields),
     (108, need 3 KeInitializeEvent),
     (145, need 3 KeSetEvent),
     (138, need 1 KeResetEvent),
     (159, need 5 KeWaitForSingleObject),
     (189, need 4 NtCreateEvent),
     (225, need 2 NtSetEvent),
     (186, need 1 NtClearEvent),
     (205, need 2 NtPulseEvent),
     (233, need 3 NtWaitForSingleObject),
     (234, need 4 NtWaitForSingleObjectEx),
     (235, need 6 NtWaitForMultipleObjectsEx),
     (192, need 3 NtCreateMutant),
     (221, need 2 NtReleaseMutant),
     (213, need 2 NtQueryMutant),
     (110, need 2 KeInitializeMutant),
     (131, need 4 KeReleaseMutant),
     (193, need 4 NtCreateSemaphore),
     (222, need 3 NtReleaseSemaphore),
     (214, need 2 NtQuerySemaphore),
     (112, need 3 KeInitializeSemaphore),
     (132, need 4 KeReleaseSemaphore),
     (104, KeGetCurrentThread),
     (143, need 2 KeSetBasePriorityThread),
     (255, need 10 (PsCreateSystemThreadEx mm)),
     (258, need 1 PsTerminateSystemThread),
     (187, need 1 NtClose),
     (224, need 2 NtResumeThread),
     (140, need 1 KeResumeThread),
     (231, need 2 NtSuspendThread),
     (152, need 1 KeSuspendThread),
     (238, NtYieldExecution),
     (165, need 1 MmAllocateContiguousMemory),
     (166, need 5 MmAllocateContiguousMemoryEx),
     (171, need 1 MmFreeContiguousMemory),
     (180, need 1 MmQueryAllocationSize),
     (320, need 2 RtlZeroMemory),
     (284, need 3 RtlFillMemory),
     (298, need 3 RtlMoveMemory),
     (291, need 1 RtlInitializeCriticalSection),
     (277, need 1 RtlEnterCriticalSection),
     (294, need 1 RtlLeaveCriticalSection),
     (306, need 1 RtlTryEnterCriticalSection)]"

definition refresh_data :: "krnl \<Rightarrow> krnl" where
  "refresh_data k =
     (if kr_kernel_data_va k \<noteq> 0 then poke32 (kr_kernel_data_va k + 0x08) (ucast (gs_tick (kr_sched k))) k else k)"

definition call ::
  "(u8 list \<Rightarrow> u32 \<Rightarrow> u8 list) \<Rightarrow> (u64 \<Rightarrow> u64 option) \<Rightarrow> u32 \<Rightarrow> u32 list \<Rightarrow> krnl \<Rightarrow> outcome" where
  "call fmt mm ordinal args k =
     (let k1 = refresh_data k in
      case find_export ordinal of
        None \<Rightarrow> void_fail k1
      | Some e \<Rightarrow>
          if ex_conv e = Data then void_fail k1
          else (case map_of (handlers fmt mm) ordinal of
              None \<Rightarrow> void_fail k1
            | Some h \<Rightarrow> h args k1))"

section \<open>System threads and resumed handlers\<close>

text \<open>The fiber function that \<open>PsCreateSystemThreadEx\<close> installs. \<open>sys_run\<close> is the part after the
  parking block: with a runner the guest code starts, without one the thread is marked and ends;
  \<open>sys_return\<close> is the part after the runner has returned. A \<open>self\<close> without an object is a
  dangling pointer. Leaving the function ends the fiber with exit code 0.\<close>

definition sys_exit :: "krnl \<Rightarrow> outcome" where
  "sys_exit k = (case gs_current (kr_sched k) of None \<Rightarrow> Crash | Some t \<Rightarrow> Exit (exit_fiber t 0 k))"

definition sys_return :: "obj option \<Rightarrow> krnl \<Rightarrow> outcome" where
  "sys_return self k =
     (case self of
        None \<Rightarrow> sys_exit k
      | Some ob \<Rightarrow> if kr_heap k ob = None then Crash else sys_exit (finish_thread_object ob k))"

definition sys_run :: "obj option \<Rightarrow> krnl \<Rightarrow> outcome" where
  "sys_run self k =
     (if kr_thread_runner k
      then (case self of
          None \<Rightarrow> RunGuest None k
        | Some ob \<Rightarrow> if kr_heap k ob = None then Crash else RunGuest (Some ob) k)
      else (case self of
          None \<Rightarrow> sys_exit k
        | Some ob \<Rightarrow> if kr_heap k ob = None then Crash
            else sys_exit (finish_thread_object ob (upd_obj ob (\<lambda>d. d\<lparr>th_runnable_missing_core := True\<rparr>) k))))"

definition sys_start :: "krnl \<Rightarrow> outcome" where
  "sys_start k =
     (case find_thread_by_fiber k (ucast (current_handle (kr_sched k))) of
        None \<Rightarrow> sys_run None k
      | Some ob \<Rightarrow>
          (case kr_heap k ob of
             None \<Rightarrow> Crash
           | Some d \<Rightarrow> if th_suspend_count d > 0 then Block (krnl_block (KtPark ob) (do_token d) kNoTimeout k)
               else sys_run (Some ob) k))"

text \<open>The current fiber has been switched in again inside a kernel call.\<close>

definition krnl_resume :: "kont \<Rightarrow> nat \<Rightarrow> krnl \<Rightarrow> outcome" where
  "krnl_resume kt t k =
     (let woken = block_result t (kr_sched k) in
      case kt of
        KtWait ob ticks \<Rightarrow> wait_resume woken ob ticks k
      | KtMulti obs wait_all ticks \<Rightarrow> multi_resume woken obs wait_all ticks k
      | KtCs va \<Rightarrow> enter_round va k
      | KtNtSuspend prev out \<Rightarrow> ret kStatusSuccess (opt_poke out prev k)
      | KtKeSuspend prev \<Rightarrow> ret prev k
      | KtDone \<Rightarrow> ret kStatusSuccess k
      | KtPark ob \<Rightarrow> sys_run (Some ob) k)"

section \<open>Installing the thunk table\<close>

definition data_thunk :: "u32 \<Rightarrow> u32 \<Rightarrow> u32 \<Rightarrow> u32" where
  "data_thunk kd ordinal raw =
     (if ordinal = 156 then kd + 0x08
      else if ordinal = 164 then kd + 0x120
      else if ordinal = 324 then kd + 0x00
      else if ordinal = 326 then kd + 0x10
      else raw)"

definition thunk_of :: "u32 \<Rightarrow> u32 \<Rightarrow> u32 \<Rightarrow> thunk_slot" where
  "thunk_of kd va raw =
     (let ord = raw AND 0x7FFFFFFF;
          s = \<lparr>ts_slot_va = va, ts_raw = raw, ts_ordinal = ord,
                ts_exp = (if raw AND 0x80000000 \<noteq> 0 then find_export ord else None),
                ts_implemented = False, ts_new_value = raw\<rparr> in
      case ts_exp s of
        None \<Rightarrow> s
      | Some e \<Rightarrow>
          if ex_conv e \<noteq> Data \<and> implemented_function ord
          then s\<lparr>ts_new_value := kHleMarker OR ord, ts_implemented := True\<rparr>
          else if ex_conv e = Data \<and> implemented_data ord
          then s\<lparr>ts_new_value := data_thunk kd ord raw, ts_implemented := True\<rparr>
          else s)"

text \<open>Patch one slot, lifting the write protection for the write.\<close>

definition patch_slot :: "thunk_slot \<Rightarrow> xbe_ram \<Rightarrow> xbe_ram" where
  "patch_slot s r =
     (if \<not> ts_implemented s then r
      else let was_ro = \<not> writable r (ts_slot_va s) 4;
               r1 = (if was_ro then snd (protect_rw (ts_slot_va s) 4 r) else r);
               r2 = snd (write32 (ts_slot_va s) (ts_new_value s) r1) in
        if was_ro then snd (protect_ro (ts_slot_va s) 4 r2) else r2)"

fun walk_thunks :: "nat \<Rightarrow> u32 \<Rightarrow> u32 \<Rightarrow> xbe_ram \<Rightarrow> thunk_slot list \<times> xbe_ram" where
  "walk_thunks 0 kd va r = ([], r)"
| "walk_thunks (Suc n) kd va r =
     (case read32 r va of
        None \<Rightarrow> ([], r)
      | Some raw \<Rightarrow>
          if raw = 0 then ([], r)
          else let s = thunk_of kd va raw; (ss, r') = walk_thunks n kd (va + 4) (patch_slot s r) in (s # ss, r'))"

definition clear_registries :: "krnl \<Rightarrow> krnl" where
  "clear_registries k = k\<lparr>kr_slots := [], kr_heap := (\<lambda>_. None), kr_objects := [], kr_free_slots := [],
     kr_va_objects := [], kr_fiber_threads := [], kr_mem_allocs := [], kr_dbg_lines := []\<rparr>"

definition image_name :: "xbe_image \<Rightarrow> u8 list option" where
  "image_name img = do {
     n \<leftarrow> cstring (xi_file img) (xi_header img) (xi_sections img) (h_debug_pathname_addr (xi_header img));
     if n = [] then cstring (xi_file img) (xi_header img) (xi_sections img) (h_debug_filename_addr (xi_header img))
     else Some n}"

definition write_image_name :: "u32 \<Rightarrow> u8 list \<Rightarrow> xbe_ram \<Rightarrow> xbe_ram" where
  "write_image_name base nm r =
     (if nm = [] \<or> length nm \<ge> 0xE0 then r
      else snd (write_bytes (base + 0x20) (nm @ [0])
             (snd (write32 (base + 0x14) (base + 0x20)
               (snd (write32 (base + 0x10)
                 (of_nat (length nm) OR push_bit 16 (of_nat (length nm) + 1)) r))))))"

text \<open>\<open>None\<close> stands for the \<open>memset\<close> of a data window that is not writable, and for a name read outside
  the file.\<close>

definition install_thunks :: "xbe_image \<Rightarrow> krnl \<Rightarrow> krnl option" where
  "install_thunks img k =
     (let k0 = clear_registries k; r0 = kr_ram k0;
          kd = of_nat (xr_size r0) - 0x1000;
          lo = (xi_image_end_abs img + 4096 - 1) AND NOT (4096 - 1);
          r1 = snd (commit kd 0x1000 r0);
          mapped = (host_ptr r1 kd \<noteq> None) in
      if mapped \<and> \<not> writable r1 kd 0x1000 then None
      else case image_name img of None \<Rightarrow> None | Some nm \<Rightarrow>
          let r2 = (if mapped then r1\<lparr>xr_mem := store_bytes kd (replicate 0x1000 0) (xr_mem r1)\<rparr> else r1);
               k1 = refresh_data (k0\<lparr>kr_mm_lo := (if lo \<ge> kd then kd else lo), kr_kernel_data_va := kd,
                      kr_mm_hi := kd, kr_ram := write_image_name kd nm r2\<rparr>);
               (ss, r3) = walk_thunks 100000 kd (xi_kernel_thunk_va img) (kr_ram k1) in
        Some (k1\<lparr>kr_slots := ss, kr_ram := r3\<rparr>))"

lemma image_nameE: obtains nm where "image_name img = Some nm"
proof -
  have "image_name img \<noteq> None" unfolding image_name_def by (intro bind_defined) (auto simp: cstring_defined simp del: not_None_eq)
  then show ?thesis using that by blast
qed

section \<open>Construction and introspection\<close>

text \<open>The constructor, with the initial values of the members.\<close>

definition XboxKrnl :: "xbe_ram \<Rightarrow> ksched \<Rightarrow> krnl" where
  "XboxKrnl r s = \<lparr>kr_ram = r, kr_sched = add_finish_hook (Some KrnlFinish) s, kr_dbg_sink = False,
     kr_sink_log = [], kr_dbg_lines = [], kr_mem_obs = False, kr_mem_log = [], kr_thread_runner = False,
     kr_slots = [], kr_heap = (\<lambda>_. None), kr_next_obj = 0, kr_objects = [], kr_free_slots = [],
     kr_va_objects = [], kr_fiber_threads = [], kr_next_thread_id = 1, kr_kernel_data_va = 0,
     kr_mm_lo = 0, kr_mm_hi = 0, kr_mem_allocs = [], kr_filetime = 0, kr_qpc = 0\<rparr>"

definition object_count :: "krnl \<Rightarrow> nat" where
  "object_count k = length (filter (\<lambda>x. x \<noteq> None) (kr_objects k))"

definition handle_obj :: "krnl \<Rightarrow> u32 \<Rightarrow> dispatcher_object option" where
  "handle_obj k h = Option.bind (find_object_by_handle k h) (kr_heap k)"

definition va_obj :: "krnl \<Rightarrow> u32 \<Rightarrow> dispatcher_object option" where
  "va_obj k va = Option.bind (find_object_by_va k va) (kr_heap k)"

definition event_count :: "krnl \<Rightarrow> nat" where
  "event_count k = length (filter (\<lambda>x. case Option.bind x (kr_heap k) of
     Some d \<Rightarrow> do_kind d = KEvent | None \<Rightarrow> False) (kr_objects k))"

definition event_signaled_by_va :: "krnl \<Rightarrow> u32 \<Rightarrow> bool" where
  "event_signaled_by_va k va = (case va_obj k va of Some d \<Rightarrow> do_kind d = KEvent \<and> ev_signaled d | None \<Rightarrow> False)"

definition event_signaled_by_handle :: "krnl \<Rightarrow> u32 \<Rightarrow> bool" where
  "event_signaled_by_handle k h =
     (case handle_obj k h of Some d \<Rightarrow> do_kind d = KEvent \<and> ev_signaled d | None \<Rightarrow> False)"

definition thread_running_by_handle :: "krnl \<Rightarrow> u32 \<Rightarrow> bool" where
  "thread_running_by_handle k h =
     (case handle_obj k h of Some d \<Rightarrow> do_kind d = KThread \<and> th_running d | None \<Rightarrow> False)"

record thread_start =
  si_start_routine :: u32
  si_start_context :: u32
  si_system_routine :: u32
  si_kernel_stack_size :: u32
  si_tls_data_size :: u32

definition thread_start_info :: "krnl \<Rightarrow> u32 \<Rightarrow> thread_start option" where
  "thread_start_info k h =
     (case handle_obj k h of
        Some d \<Rightarrow> if do_kind d \<noteq> KThread then None
          else Some \<lparr>si_start_routine = th_start_routine d, si_start_context = th_start_context d,
                 si_system_routine = th_system_routine d, si_kernel_stack_size = th_kernel_stack_size d,
                 si_tls_data_size = th_tls_data_size d\<rparr>
      | None \<Rightarrow> None)"

end
