(* ===== verification/Krnl_Mm_Props.thy ===== *)
theory Krnl_Mm_Props
  imports Krnl_Mm
begin

text \<open>
  The contiguous memory allocator: the first-fit scan ends and finds the lowest free aligned gap,
  a block is in range, disjoint from every other block, zeroed and protected as asked, and the
  pool invariant \<open>mm_inv\<close> is kept by allocation and release.
\<close>

section \<open>Alignment\<close>

lemma bit_at_log:
  fixes x :: "'a::len word"
  assumes "2 ^ n \<le> unat x" "unat x < 2 ^ Suc n"
  shows "bit x n"
proof -
  have "unat x div 2 ^ n = 1"
    using assms by (intro div_nat_eqI) simp_all
  then have "bit (unat x) n" by (simp add: bit_iff_odd)
  then show ?thesis by (simp add: bit_simps)
qed

lemma power_of_two:
  fixes x :: "'a::len word"
  assumes "x \<noteq> 0" "x AND (x - 1) = 0"
  shows "\<exists>n. unat x = 2 ^ n"
proof -
  have pos: "0 < unat x" using assms(1) by (simp add: unat_gt_0)
  obtain n where n: "2 ^ n \<le> unat x" "unat x < 2 ^ Suc n"
    using ex_power_ivl1 [of 2 "unat x"] pos by auto
  show ?thesis
  proof (cases "unat x = 2 ^ n")
    case False
    then have "2 ^ n \<le> unat (x - 1)" "unat (x - 1) < 2 ^ Suc n"
      using n unat_minus_one_Suc [OF assms(1)] by linarith+
    then have "bit (x AND (x - 1)) n" using n by (simp add: bit_and_iff bit_at_log)
    with assms(2) show ?thesis by simp
  qed blast
qed

lemma unat_add_pred:
  fixes v a :: u32
  assumes "a \<noteq> 0" "unat v + unat a \<le> 2 ^ 32"
  shows "unat (v + a - 1) = unat v + unat a - 1"
proof -
  have pos: "0 < unat a" using assms(1) by (simp add: unat_gt_0)
  have "v + a - 1 = of_nat (unat v + unat a - 1)" using pos by (simp add: of_nat_diff)
  then have "unat (v + a - 1) = unat (of_nat (unat v + unat a - 1) :: u32)" by (rule arg_cong)
  also have "\<dots> = unat v + unat a - 1" using assms pos by (intro unat_of_nat_lt) simp
  finally show ?thesis .
qed

lemma unat_align_up:
  fixes v a :: u32
  assumes "unat a = 2 ^ n" "unat v + 2 ^ n \<le> 2 ^ 32"
  shows "unat (align_up v a) = (unat v + 2 ^ n - 1) div 2 ^ n * 2 ^ n"
proof -
  have nz: "a \<noteq> 0" using assms(1) by auto
  have "a = 2 ^ n" using assms(1) by (metis of_nat_numeral of_nat_power of_nat_unat ucast_id)
  then have a: "a - 1 = mask n" by (simp add: mask_eq_exp_minus_1)
  have "unat (align_up v a) = unat (v + a - 1) div 2 ^ n * 2 ^ n"
    unfolding align_up_def a by (rule unat_and_not_mask)
  with unat_add_pred [OF nz, of v] assms show ?thesis by simp
qed

text \<open>\<open>align_up\<close> gives the least multiple of the alignment that is not below its argument.\<close>

lemma align_up_least:
  fixes v a :: u32
  assumes "unat a = 2 ^ n" "unat v + 2 ^ n \<le> 2 ^ 32"
  shows "unat v \<le> unat (align_up v a)" "unat a dvd unat (align_up v a)"
    "\<lbrakk>unat a dvd c; c < unat (align_up v a)\<rbrakk> \<Longrightarrow> c < unat v"
proof -
  let ?p = "2 ^ n :: nat"
  have eq: "unat (align_up v a) = (unat v + ?p - 1) div ?p * ?p" by (rule unat_align_up [OF assms])
  have ceil: "(m + ?p - 1) div ?p * ?p + (m + ?p - 1) mod ?p = m + ?p - 1" for m by (rule div_mult_mod_eq)
  have "(unat v + ?p - 1) mod ?p < ?p" by simp
  with ceil [of "unat v"] show "unat v \<le> unat (align_up v a)" unfolding eq by linarith
  show "unat a dvd unat (align_up v a)" by (simp add: eq assms(1))
  assume c: "unat a dvd c" "c < unat (align_up v a)"
  then obtain q where q: "c = q * ?p" using assms(1) by (auto simp: dvd_def mult.commute)
  with c(2) eq have "Suc q \<le> (unat v + ?p - 1) div ?p" by (simp add: Suc_le_eq)
  then have "Suc q * ?p \<le> (unat v + ?p - 1) div ?p * ?p" by (rule mult_right_mono) simp
  also have "\<dots> \<le> unat v + ?p - 1" by (rule div_times_less_eq_dividend)
  finally have "q * ?p + ?p \<le> unat v + ?p - 1" by simp
  moreover have "0 < ?p" by simp
  ultimately show "c < unat v" unfolding q by linarith
qed

section \<open>The scan is first fit\<close>

text \<open>The specification: the lowest aligned address whose block lies in the range and meets no
  existing block.\<close>

definition gap_free :: "mem_alloc list \<Rightarrow> nat \<Rightarrow> nat \<Rightarrow> bool" where
  "gap_free as sz c = list_all (\<lambda>a. c + sz \<le> unat (ma_va a) \<or> unat (ma_va a) + unat (ma_size a) \<le> c) as"

definition first_fit :: "mem_alloc list \<Rightarrow> nat \<Rightarrow> nat \<Rightarrow> nat \<Rightarrow> nat \<Rightarrow> nat option" where
  "first_fit as al sz lo hi = find (\<lambda>c. al dvd c \<and> gap_free as sz c) [lo..<hi + 2 - sz]"

lemma find_append_None: "find P xs = None \<Longrightarrow> find P (xs @ ys) = find P ys"
  by (induction xs) (auto split: if_splits)

lemma first_fit_skip:
  assumes "lo \<le> lo'" "\<And>c. lo \<le> c \<Longrightarrow> c < lo' \<Longrightarrow> al dvd c \<Longrightarrow> c + sz \<le> hi + 1 \<Longrightarrow> \<not> gap_free as sz c"
  shows "first_fit as al sz lo hi = first_fit as al sz lo' hi"
proof (cases "lo' \<le> hi + 2 - sz")
  case True
  then have "[lo..<hi + 2 - sz] = [lo..<lo'] @ [lo'..<hi + 2 - sz]"
    using assms(1) by (metis le_Suc_ex upt_add_eq_append)
  moreover have "find (\<lambda>c. al dvd c \<and> gap_free as sz c) [lo..<lo'] = None"
    using assms(2) True by (auto simp: find_None_iff)
  ultimately show ?thesis by (simp add: first_fit_def find_append_None)
next
  case False
  then have "find (\<lambda>c. al dvd c \<and> gap_free as sz c) [lo..<hi + 2 - sz] = None"
    using assms(2) by (auto simp: find_None_iff)
  with False show ?thesis by (simp add: first_fit_def)
qed

lemma first_fit_hit:
  "al dvd c \<Longrightarrow> gap_free as sz c \<Longrightarrow> c + sz \<le> hi + 1 \<Longrightarrow> first_fit as al sz c hi = Some c"
  by (simp add: first_fit_def upt_rec)

lemma length_filter_strict:
  assumes "\<And>x. P x \<Longrightarrow> Q x" "b \<in> set xs" "Q b" "\<not> P b"
  shows "length (filter P xs) < length (filter Q xs)"
  using assms(2)
proof (induction xs)
  case (Cons x xs)
  have le: "length (filter P ys) \<le> length (filter Q ys)" for ys
    using assms(1) by (induction ys) auto
  show ?case using Cons le [of xs] assms by (auto simp: less_Suc_eq_le)
qed simp

text \<open>Blocks below \<open>2\<^sup>3\<^sup>1\<close>: no sum of the scan wraps.\<close>

definition low_block :: "mem_alloc \<Rightarrow> bool" where
  "low_block a \<longleftrightarrow> unat (ma_va a) + unat (ma_size a) \<le> 2 ^ 31"

lemma unat_add_low: "unat (a :: u32) + unat b < 2 ^ 32 \<Longrightarrow> unat (a + b) = unat a + unat b"
  by (simp add: unat_word_ariths)

lemma collides_iff:
  assumes "low_block a" "unat c + unat sz \<le> 2 ^ 31"
  shows "collides c sz a \<longleftrightarrow>
    unat (ma_va a) < unat c + unat sz \<and> unat c < unat (ma_va a) + unat (ma_size a)"
  using assms by (simp add: collides_def word_less_nat_alt unat_add_low low_block_def)

lemma collision_fold_spec:
  fixes c sz m :: u32
  assumes "\<forall>a\<in>set as. low_block a" "unat m \<le> 2 ^ 31"
    "fold (\<lambda>a m. if collides c sz a then max m (ma_va a + ma_size a) else m) as m = e"
  shows "m \<le> e \<and> unat e \<le> 2 ^ 31 \<and>
    (\<forall>a\<in>set as. collides c sz a \<longrightarrow> unat (ma_va a) + unat (ma_size a) \<le> unat e) \<and>
    (e = m \<or> (\<exists>a\<in>set as. collides c sz a \<and> unat e = unat (ma_va a) + unat (ma_size a)))"
  using assms
proof (induction as arbitrary: m)
  case (Cons a as)
  define m' where "m' = (if collides c sz a then max m (ma_va a + ma_size a) else m)"
  have a: "unat (ma_va a + ma_size a) = unat (ma_va a) + unat (ma_size a)" "unat (ma_va a) + unat (ma_size a) \<le> 2 ^ 31"
    using Cons.prems(1) by (auto simp: low_block_def intro!: unat_add_low)
  have m: "unat m' \<le> 2 ^ 31" "m \<le> m'" "collides c sz a \<Longrightarrow> unat (ma_va a) + unat (ma_size a) \<le> unat m'"
    "m' = m \<or> collides c sz a \<and> unat m' = unat (ma_va a) + unat (ma_size a)"
    using a Cons.prems(2) by (auto simp: m'_def max_def word_le_nat_alt)
  from Cons.IH [OF _ m(1)] Cons.prems
  have IH: "m' \<le> e" "unat e \<le> 2 ^ 31"
    "\<forall>b\<in>set as. collides c sz b \<longrightarrow> unat (ma_va b) + unat (ma_size b) \<le> unat e"
    "e = m' \<or> (\<exists>a\<in>set as. collides c sz a \<and> unat e = unat (ma_va a) + unat (ma_size a))"
    by (simp_all add: m'_def)
  have "unat m' \<le> unat e" using IH(1) by (simp only: word_le_nat_alt)
  then have "collides c sz a \<Longrightarrow> unat (ma_va a) + unat (ma_size a) \<le> unat e" using m(3) by linarith
  moreover have "m \<le> e" using m(2) IH(1) by (rule order_trans)
  moreover have "e = m \<or> (\<exists>b\<in>set (a # as). collides c sz b \<and> unat e = unat (ma_va b) + unat (ma_size b))"
    using IH(4) m(4) by auto
  ultimately show ?case using IH(2,3) by (intro conjI ballI impI) (auto simp del: ex_simps)
qed simp

lemmas collision_end_spec = collision_fold_spec [OF _ _ collision_end_def [symmetric]]

lemma unat_pow2_le: "unat (a :: u32) = 2 ^ n \<Longrightarrow> (2 :: nat) ^ n \<le> 2 ^ 31"
proof -
  assume a: "unat a = 2 ^ n"
  have "(2 :: nat) ^ n < 2 ^ 32" using a unat_lt2p [of a] by simp
  then have "n < 32" by (rule power_less_imp_less_exp [rotated]) simp
  then show ?thesis by (intro power_increasing) simp_all
qed

lemma mm_scan_first_fit:
  assumes low: "\<forall>a\<in>set as. low_block a" and al: "unat al = 2 ^ n" and hi: "unat hi < 2 ^ 31" and sz: "sz \<noteq> 0"
    and "length (filter (\<lambda>a. unat c < unat (ma_va a) + unat (ma_size a)) as) < fuel" "unat al dvd unat c"
  shows "\<exists>r. mm_scan fuel as sz al hi c = Some r \<and>
    map_option unat r = first_fit as (unat al) (unat sz) (unat c) (unat hi)"
  using assms(5,6)
proof (induction fuel arbitrary: c)
  case (Suc fuel)
  have out: "c > hi \<or> sz > hi - c + 1 \<longleftrightarrow> \<not> unat c + unat sz \<le> unat hi + 1"
  proof (cases "c > hi")
    case True
    then have "unat hi < unat c" by (simp add: word_less_nat_alt)
    moreover have "0 < unat sz" using sz by (simp add: unat_gt_0)
    ultimately show ?thesis using True by simp
  next
    case False
    then have le: "c \<le> hi" by simp
    then have d: "unat (hi - c) = unat hi - unat c" by (rule unat_sub)
    then have "unat (hi - c + 1) = unat hi - unat c + 1" using hi by (subst unat_add_low) auto
    then show ?thesis using False le by (auto simp: word_less_nat_alt word_le_nat_alt)
  qed
  show ?case
  proof (cases "unat c + unat sz \<le> unat hi + 1")
    case False
    then have "first_fit as (unat al) (unat sz) (unat c) (unat hi) = None" by (simp add: first_fit_def)
    with False show ?thesis by (simp add: out)
  next
    case fit: True
    then have c31: "unat c + unat sz \<le> 2 ^ 31" using hi by simp
    have gap: "gap_free as (unat sz) (unat c) \<longleftrightarrow> \<not> list_ex (collides c sz) as"
      using collides_iff [OF _ c31] low by (force simp: gap_free_def list_all_iff list_ex_iff)
    show ?thesis
    proof (cases "list_ex (collides c sz) as")
      case False
      with fit gap Suc.prems(2) show ?thesis by (simp add: out first_fit_hit)
    next
      case True
      then obtain b where b: "b \<in> set as" "collides c sz b" by (auto simp: list_ex_iff)
      define e where "e = collision_end c sz as"
      have "unat c \<le> 2 ^ 31" using c31 by simp
      note e = collision_end_spec [OF low this, of sz, folded e_def]
      have past: "unat (ma_va b) + unat (ma_size b) \<le> unat e" using e b by simp
      have cb: "unat c < unat (ma_va b) + unat (ma_size b)" using collides_iff [OF _ c31] low b by simp
      have n31: "(2 :: nat) ^ n \<le> 2 ^ 31" using al by (rule unat_pow2_le)
      have up: "unat e + 2 ^ n \<le> 2 ^ 32" using e n31 by simp
      note au = align_up_least [OF al up]
      let ?c = "align_up e al"
      have "first_fit as (unat al) (unat sz) (unat c) (unat hi) = first_fit as (unat al) (unat sz) (unat ?c) (unat hi)"
      proof (rule first_fit_skip)
        show "unat c \<le> unat ?c" using cb past au(1) by simp
        fix c' assume c': "unat c \<le> c'" "c' < unat ?c" "unat al dvd c'"
        then have lt: "c' < unat e" using au(3) by blast
        with c' e obtain a where a: "a \<in> set as" "collides c sz a" "unat e = unat (ma_va a) + unat (ma_size a)"
          by auto
        then have "unat (ma_va a) < unat c + unat sz" using collides_iff [OF _ c31] low by simp
        with a c' lt show "\<not> gap_free as (unat sz) c'" by (fastforce simp: gap_free_def list_all_iff)
      qed
      moreover have "length (filter (\<lambda>a. unat ?c < unat (ma_va a) + unat (ma_size a)) as) < fuel"
      proof -
        have "length (filter (\<lambda>a. unat ?c < unat (ma_va a) + unat (ma_size a)) as)
          < length (filter (\<lambda>a. unat c < unat (ma_va a) + unat (ma_size a)) as)"
          using au(1) past cb b(1) by (intro length_filter_strict [where b = b]) auto
        with Suc.prems(1) show ?thesis by simp
      qed
      ultimately show ?thesis using Suc.IH [of ?c] au(2) True fit by (simp add: out e_def)
    qed
  qed
qed simp

section \<open>The pool invariant\<close>

definition apart :: "mem_alloc \<Rightarrow> mem_alloc \<Rightarrow> bool" where
  "apart a b \<longleftrightarrow> unat (ma_va a) + unat (ma_size a) \<le> unat (ma_va b) \<or>
     unat (ma_va b) + unat (ma_size b) \<le> unat (ma_va a)"

text \<open>A block of the pool: not empty, page aligned, inside the region.\<close>

definition pool_block :: "krnl \<Rightarrow> mem_alloc \<Rightarrow> bool" where
  "pool_block k a \<longleftrightarrow> ma_size a \<noteq> 0 \<and> 4096 dvd unat (ma_va a) \<and> kr_mm_lo k \<le> ma_va a \<and>
     unat (ma_va a) + unat (ma_size a) \<le> unat (kr_mm_hi k)"

definition block_pages :: "krnl \<Rightarrow> mem_alloc \<Rightarrow> nat list" where
  "block_pages k a = page_list (kr_ram k) (ma_va a) (ma_size a)"

text \<open>The window is mapped, its pages have 4096 bytes and the host never refuses \<open>mprotect\<close>; blocks
  are committed pool blocks and apart, and a write-protected page of the region belongs to a block.\<close>

definition mm_inv :: "krnl \<Rightarrow> bool" where
  "mm_inv k \<longleftrightarrow> ram_wf (kr_ram k) \<and> xr_base (kr_ram k) \<and> xr_page_size (kr_ram k) = 4096 \<and>
     (\<forall>p. xr_mprotect (kr_ram k) p) \<and> unat (kr_mm_hi k) \<le> xr_size (kr_ram k) \<and> unat (kr_mm_hi k) \<le> 2 ^ 31 \<and>
     (\<forall>a\<in>set (kr_mem_allocs k). pool_block k a \<and> (\<forall>p\<in>set (block_pages k a). page_access (kr_ram k) p \<noteq> NoAccess)) \<and>
     sorted_wrt apart (kr_mem_allocs k) \<and>
     (\<forall>p. unat (kr_mm_lo k) \<le> 4096 * p \<and> 4096 * p < unat (kr_mm_hi k) \<and> page_access (kr_ram k) p = ReadOnly \<longrightarrow>
        (\<exists>a\<in>set (kr_mem_allocs k). p \<in> set (block_pages k a)))"

lemma page_ops_total:
  assumes "\<forall>p. xr_mprotect r p"
  shows "fst (commit_pages ps r)" "fst (uncommit_pages ps r)" "fst (protect_pages b ps r)"
proof -
  have "\<forall>p. xr_mprotect r p \<Longrightarrow> fst (commit_pages ps r)" for ps r by (induction ps r rule: commit_pages.induct) auto
  then show "fst (commit_pages ps r)" using assms by blast
  have "\<forall>p. xr_mprotect r p \<Longrightarrow> fst (uncommit_pages ps r)" for ps r by (induction ps r rule: uncommit_pages.induct) auto
  then show "fst (uncommit_pages ps r)" using assms by blast
  have "\<forall>p. xr_mprotect r p \<Longrightarrow> fst (protect_pages b ps r)" for ps b r by (induction b ps r rule: protect_pages.induct) auto
  then show "fst (protect_pages b ps r)" using assms by blast
qed

lemma page_ops_mprotect [ram_simps]:
  "xr_mprotect (snd (commit a n r)) = xr_mprotect r" "xr_mprotect (snd (uncommit a n r)) = xr_mprotect r"
  "xr_mprotect (snd (protect_ro a n r)) = xr_mprotect r" "xr_mprotect (snd (protect_rw a n r)) = xr_mprotect r"
  using commit_pages_effect [OF prod.collapse [symmetric]] uncommit_pages_effect [OF prod.collapse [symmetric]]
    protect_pages_effect [OF prod.collapse [symmetric]]
  by (simp_all add: commit_def uncommit_def protect_ro_def protect_rw_def)

text \<open>Blocks that are apart share no page.\<close>

lemma pages_of:
  assumes "ram_wf r" "xr_page_size r = 4096" "range_ok r a n"
  shows "p \<in> set (page_list r a n) \<longleftrightarrow> unat a div 4096 \<le> p \<and> 4096 * p < unat a + unat n"
proof -
  have "0 < unat n" using assms(3) by (simp add: range_ok_def unat_gt_0)
  moreover have "p \<le> (unat a + unat n - 1) div 4096 \<longleftrightarrow> 4096 * p \<le> unat a + unat n - 1"
    by (simp add: less_eq_div_iff_mult_less_eq mult.commute)
  ultimately have "p \<le> (unat a + unat n - 1) div 4096 \<longleftrightarrow> 4096 * p < unat a + unat n" by linarith
  moreover have "p \<in> set (page_list r a n) \<longleftrightarrow> unat a div 4096 \<le> p \<and> p \<le> (unat a + unat n - 1) div 4096"
    using assms by (auto simp: page_list_def range_ok_end(1))
  ultimately show ?thesis by simp
qed

lemma pool_block_range:
  "mm_inv k \<Longrightarrow> pool_block k a \<Longrightarrow> range_ok (kr_ram k) (ma_va a) (ma_size a)"
  using unat_gt_0 [of "ma_size a"] unfolding mm_inv_def pool_block_def range_ok_def by linarith

lemma block_pages_apart:
  assumes "mm_inv k" "pool_block k a" "pool_block k b" "apart a b"
  shows "set (block_pages k a) \<inter> set (block_pages k b) = {}"
proof -
  have pg: "p \<in> set (block_pages k c) \<longleftrightarrow> unat (ma_va c) div 4096 \<le> p \<and> 4096 * p < unat (ma_va c) + unat (ma_size c)"
    if "pool_block k c" for c p
    using pages_of [OF _ _ pool_block_range [OF assms(1) that]] assms(1) by (simp add: mm_inv_def block_pages_def)
  have al: "4096 * (unat (ma_va c) div 4096) = unat (ma_va c)" if "pool_block k c" for c
    using that by (simp add: pool_block_def)
  have "False" if "p \<in> set (block_pages k c)" "p \<in> set (block_pages k d)" "pool_block k c" "pool_block k d"
    "unat (ma_va c) + unat (ma_size c) \<le> unat (ma_va d)" for p c d
    using that pg [of c p] pg [of d p] al [of d] mult_le_mono2 [of "unat (ma_va d) div 4096" p 4096] by simp
  with assms(2-4) show ?thesis unfolding apart_def by blast
qed

section \<open>Allocation\<close>

text \<open>What a request asks for: the first fit under the normalised alignment and range.\<close>

definition is_pow2 :: "nat \<Rightarrow> bool" where
  "is_pow2 n = list_ex (\<lambda>i. n = 2 ^ i) [0..<32]"

definition mm_spec :: "krnl \<Rightarrow> u32 \<Rightarrow> u32 \<Rightarrow> u32 \<Rightarrow> u32 \<Rightarrow> nat option" where
  "mm_spec k sz lowest highest alignment =
     (let al = (if alignment = 0 then 4096 else unat alignment); top = unat (kr_mm_hi k) - 1 in
      if sz = 0 \<or> kr_mm_hi k \<le> kr_mm_lo k \<or> \<not> is_pow2 al then None
      else first_fit (kr_mem_allocs k) (max 4096 al) (unat sz) (max (unat (kr_mm_lo k)) (unat lowest))
             (if highest = 0 then top else min (unat highest) top))"

lemma is_pow2_iff:
  assumes "x \<noteq> 0" shows "is_pow2 (unat (x :: u32)) \<longleftrightarrow> x AND (x - 1) = 0"
proof
  assume "x AND (x - 1) = 0"
  then obtain n where n: "unat x = 2 ^ n" using power_of_two [OF assms] by blast
  then have "(2 :: nat) ^ n < 2 ^ 32" using unat_lt2p [of x] by simp
  then have "n < 32" by (rule power_less_imp_less_exp [rotated]) simp
  with n show "is_pow2 (unat x)" by (auto simp: is_pow2_def list_ex_iff)
next
  assume "is_pow2 (unat x)"
  then obtain n where "unat x = 2 ^ n" by (auto simp: is_pow2_def list_ex_iff)
  then have x: "x = 2 ^ n" by (metis of_nat_numeral of_nat_power of_nat_unat ucast_id)
  then have m: "x - 1 = mask n" by (simp add: mask_eq_exp_minus_1)
  have "2 ^ n AND mask n = (0 :: u32)" by (rule bit_eqI) (auto simp: bit_simps)
  with m x show "x AND (x - 1) = 0" by simp
qed

lemma mm_range_unat:
  assumes "kr_mm_lo k < kr_mm_hi k" "mm_range k lowest highest = (lo, hi)"
  shows "unat lo = max (unat (kr_mm_lo k)) (unat lowest)"
    "unat hi = (if highest = 0 then unat (kr_mm_hi k) - 1 else min (unat highest) (unat (kr_mm_hi k) - 1))"
proof -
  have "kr_mm_hi k \<noteq> 0" using assms(1) by auto
  then have "unat (kr_mm_hi k - 1) = unat (kr_mm_hi k) - 1" using unat_minus_one_Suc by fastforce
  with assms show "unat lo = max (unat (kr_mm_lo k)) (unat lowest)"
    "unat hi = (if highest = 0 then unat (kr_mm_hi k) - 1 else min (unat highest) (unat (kr_mm_hi k) - 1))"
    by (auto simp: mm_range_def max_def min_def word_le_nat_alt)
qed

lemma mm_find_spec:
  assumes inv: "mm_inv k"
  shows "\<exists>r. mm_find k sz lowest highest alignment = Some r \<and>
    map_option unat r = mm_spec k sz lowest highest alignment"
proof -
  define al where "al = (if alignment \<noteq> 0 then alignment else 4096)"
  define al' where "al' = (if al < 4096 then 4096 else al)"
  obtain lo hi where lh: "mm_range k lowest highest = (lo, hi)" by fastforce
  have alu: "unat al = (if alignment = 0 then 4096 else unat alignment)" and nz: "al \<noteq> 0" by (auto simp: al_def)
  have al'u: "unat al' = max 4096 (unat al)" by (simp add: al'_def max_def word_less_nat_alt)
  show ?thesis
  proof (cases "sz = 0 \<or> kr_mm_hi k \<le> kr_mm_lo k \<or> al AND (al - 1) \<noteq> 0")
    case True
    then show ?thesis using is_pow2_iff [OF nz] lh
      by (auto simp: mm_find_def mm_spec_def Let_def alu [symmetric] al_def [symmetric])
  next
    case False
    then have lt: "kr_mm_lo k < kr_mm_hi k" by (simp add: not_le)
    note r = mm_range_unat [OF lt lh]
    obtain n where n: "unat al = 2 ^ n" using power_of_two [OF nz] False by blast
    obtain m where m: "unat al' = 2 ^ m"
    proof (cases "al < 4096")
      case True then show ?thesis by (intro that [of 12]) (simp add: al'_def)
    next
      case False then show ?thesis using n by (intro that [of n]) (simp add: al'_def)
    qed
    have hi31: "unat hi < 2 ^ 31" using r(2) inv lt by (auto simp: mm_inv_def word_less_nat_alt)
    have low: "\<forall>a\<in>set (kr_mem_allocs k). low_block a"
      using inv by (force simp: mm_inv_def pool_block_def low_block_def)
    have spec: "mm_spec k sz lowest highest alignment =
      first_fit (kr_mem_allocs k) (unat al') (unat sz) (unat lo) (unat hi)"
      using False is_pow2_iff [OF nz] unfolding mm_spec_def Let_def r al'u alu by (auto simp: not_le alu)
    show ?thesis
    proof (cases "unat lo + unat sz \<le> unat hi + 1")
      case out: False
      then have "lo > hi \<or> sz > hi - lo + 1"
      proof (cases "lo > hi")
        case False
        then have "unat (hi - lo) = unat hi - unat lo" by (intro unat_sub) simp
        then have "unat (hi - lo + 1) = unat hi - unat lo + 1" using hi31 by (subst unat_add_low) auto
        with out False show ?thesis by (simp add: word_less_nat_alt not_less)
      qed simp
      moreover have "first_fit (kr_mem_allocs k) (unat al') (unat sz) (unat lo) (unat hi) = None"
        using out by (simp add: first_fit_def)
      ultimately show ?thesis using False lh
        by (auto simp: spec mm_find_def Let_def al_def [symmetric] al'_def [symmetric])
    next
      case fit: True
      have sz: "sz \<noteq> 0" "0 < unat sz" using False by (auto simp: unat_gt_0)
      have up: "unat lo + 2 ^ m \<le> 2 ^ 32" using fit sz hi31 unat_pow2_le [OF m] by simp
      note au = align_up_least [OF m up]
      have skip: "first_fit (kr_mem_allocs k) (unat al') (unat sz) (unat lo) (unat hi) =
        first_fit (kr_mem_allocs k) (unat al') (unat sz) (unat (align_up lo al')) (unat hi)"
      proof (rule first_fit_skip [OF au(1)])
        fix c assume "unat lo \<le> c" "c < unat (align_up lo al')" "unat al' dvd c"
        with au(3) [of c] show "\<not> gap_free (kr_mem_allocs k) (unat sz) c" by simp
      qed
      have len: "length (filter (\<lambda>a. unat (align_up lo al') < unat (ma_va a) + unat (ma_size a)) (kr_mem_allocs k))
        < Suc (length (kr_mem_allocs k))" by (simp add: less_Suc_eq_le)
      have ge: "\<not> (lo > hi \<or> sz > hi - lo + 1)"
      proof -
        have le: "lo \<le> hi" using fit sz by (simp add: word_le_nat_alt)
        then have "unat (hi - lo) = unat hi - unat lo" by (rule unat_sub)
        then have "unat (hi - lo + 1) = unat hi - unat lo + 1" using hi31 by (subst unat_add_low) auto
        with fit le show ?thesis by (auto simp: word_less_nat_alt word_le_nat_alt)
      qed
      from mm_scan_first_fit [OF low m hi31 sz(1) len au(2)] False ge lh show ?thesis
        unfolding spec skip by (auto simp: mm_find_def Let_def al_def [symmetric] al'_def [symmetric])
    qed
  qed
qed

lemma first_fit_Some:
  assumes "first_fit as al sz lo hi = Some c"
  shows "al dvd c \<and> gap_free as sz c \<and> lo \<le> c \<and> (0 < sz \<longrightarrow> c + sz \<le> hi + 1)"
proof -
  from assms obtain i where "i < length [lo..<hi + 2 - sz]" "c = [lo..<hi + 2 - sz] ! i" "al dvd c" "gap_free as sz c"
    unfolding first_fit_def find_Some_iff by auto
  then show ?thesis by auto
qed

lemma dvd_max_page: "max 4096 al dvd (c :: nat) \<Longrightarrow> is_pow2 al \<Longrightarrow> 4096 dvd c"
proof -
  assume d: "max 4096 al dvd c" and "is_pow2 al"
  then obtain i where i: "al = 2 ^ i" by (auto simp: is_pow2_def list_ex_iff)
  have "(4096 :: nat) dvd max 4096 al"
  proof (cases "al \<le> 4096")
    case False
    then have "(2 :: nat) ^ 12 < 2 ^ i" using i by simp
    then have "12 < i" by (rule power_less_imp_less_exp [rotated]) simp
    then have "(2 :: nat) ^ 12 dvd 2 ^ i" by (intro le_imp_power_dvd) simp
    with i False show ?thesis by (simp add: max_def)
  qed (simp add: max_def)
  with d show "4096 dvd c" by (rule dvd_trans [rotated])
qed

lemma mm_spec_Some:
  assumes "mm_spec k sz lowest highest alignment = Some (unat va)"
  shows "gap_free (kr_mem_allocs k) (unat sz) (unat va) \<and> pool_block k \<lparr>ma_va = va, ma_size = sz, ma_protect = pr\<rparr> \<and>
    unat lowest \<le> unat va \<and> (alignment \<noteq> 0 \<longrightarrow> unat alignment dvd unat va) \<and>
    (highest \<noteq> 0 \<longrightarrow> unat va + unat sz \<le> unat highest + 1)"
proof -
  let ?al = "if alignment = 0 then 4096 else unat alignment"
  let ?top = "unat (kr_mm_hi k) - 1"
  from assms have c: "sz \<noteq> 0" "kr_mm_lo k < kr_mm_hi k" "is_pow2 ?al"
    "first_fit (kr_mem_allocs k) (max 4096 ?al) (unat sz) (max (unat (kr_mm_lo k)) (unat lowest))
       (if highest = 0 then ?top else min (unat highest) ?top) = Some (unat va)"
    by (auto simp: mm_spec_def Let_def not_le split: if_splits)
  note f = first_fit_Some [OF c(4)]
  have pos: "0 < unat sz" "0 < unat (kr_mm_hi k)" using c(1,2) by (auto simp: unat_gt_0)
  have "max 4096 ?al = 4096 \<or> max 4096 ?al = ?al" by (simp add: max_def)
  have "alignment \<noteq> 0 \<longrightarrow> unat alignment dvd unat va"
  proof
    assume a: "alignment \<noteq> 0"
    then obtain i where i: "unat alignment = 2 ^ i" using c(3) by (auto simp: is_pow2_def list_ex_iff)
    have "unat alignment dvd max 4096 (unat alignment)"
    proof (cases "unat alignment \<le> 4096")
      case True
      then have "(2 :: nat) ^ i \<le> 2 ^ 12" using i by simp
      then have "i \<le> 12" by (rule power_le_imp_le_exp [rotated]) simp
      then have "(2 :: nat) ^ i dvd 2 ^ 12" by (rule le_imp_power_dvd)
      with i True show ?thesis by (simp add: max_def)
    qed (simp add: max_def)
    with f a show "unat alignment dvd unat va" by (auto intro: dvd_trans)
  qed
  moreover have "4096 dvd unat va" using f c(3) by (blast intro: dvd_max_page)
  moreover have "unat va + unat sz \<le> unat (kr_mm_hi k)" "highest \<noteq> 0 \<longrightarrow> unat va + unat sz \<le> unat highest + 1"
    using f pos by (auto split: if_splits)
  ultimately show ?thesis using f c(1) by (simp add: pool_block_def word_le_nat_alt)
qed

lemma commit_total:
  assumes "xr_base r" "range_ok r a n" "\<forall>p. xr_mprotect r p"
  shows "fst (commit a n r)"
  using assms page_ops_total(1) [OF assms(3)] by (simp add: commit_def)

text \<open>Committing the block the scan found.\<close>

lemma mm_commit_effect:
  assumes inv: "mm_inv k" and blk: "pool_block k \<lparr>ma_va = c, ma_size = sz, ma_protect = pr\<rparr>"
    and gap: "gap_free (kr_mem_allocs k) (unat sz) (unat c)"
  defines "ro \<equiv> pr AND NOT kPageNocache = kPageReadonly"
  shows "\<exists>r. mm_commit c sz pr k = Some (c, k\<lparr>kr_ram := r,
      kr_mem_allocs := kr_mem_allocs k @ [\<lparr>ma_va = c, ma_size = sz, ma_protect = pr\<rparr>],
      kr_mem_log := kr_mem_log k @ (if kr_mem_obs k then [(False, c, sz, ro)] else [])\<rparr>) \<and>
    ram_wf r \<and> xr_base r \<and> xr_page_size r = 4096 \<and> xr_mprotect r = xr_mprotect (kr_ram k) \<and>
    xr_size r = xr_size (kr_ram k) \<and> xr_mem r = store_bytes c (replicate (unat sz) 0) (xr_mem (kr_ram k)) \<and>
    (\<forall>p. page_access r p = (if p \<in> set (page_list (kr_ram k) c sz) then if ro then ReadOnly else ReadWrite
       else page_access (kr_ram k) p))"
proof -
  let ?b = "\<lparr>ma_va = c, ma_size = sz, ma_protect = pr\<rparr>" and ?r0 = "kr_ram k"
  have wf: "ram_wf ?r0" "xr_base ?r0" "xr_page_size ?r0 = 4096" "\<forall>p. xr_mprotect ?r0 p"
    using inv by (auto simp: mm_inv_def)
  have rng: "range_ok ?r0 c sz" using pool_block_range [OF inv blk] by simp
  obtain r1 where r1: "commit c sz ?r0 = (True, r1)"
    using commit_total [OF wf(2) rng wf(4)] by (metis prod.collapse)
  note c1 = commit_wf [OF wf(1) r1]
  have pl: "page_list r1 x n = page_list ?r0 x n" for x n using c1 by (simp add: page_list_def)
  have free: "page_access ?r0 p \<noteq> ReadOnly" if p: "p \<in> set (page_list ?r0 c sz)" for p
  proof
    assume "page_access ?r0 p = ReadOnly"
    moreover have "unat (kr_mm_lo k) \<le> 4096 * p" "4096 * p < unat (kr_mm_hi k)"
    proof -
      have q: "unat c div 4096 \<le> p" "4096 * p < unat c + unat sz" using p pages_of [OF wf(1,3) rng] by auto
      have "unat c = 4096 * (unat c div 4096)" "unat (kr_mm_lo k) \<le> unat c" "unat c + unat sz \<le> unat (kr_mm_hi k)"
        using blk by (auto simp: pool_block_def word_le_nat_alt)
      then show "unat (kr_mm_lo k) \<le> 4096 * p" "4096 * p < unat (kr_mm_hi k)" using q by linarith+
    qed
    ultimately obtain a where a: "a \<in> set (kr_mem_allocs k)" "p \<in> set (block_pages k a)"
      using inv by (auto simp: mm_inv_def)
    then have "pool_block k a" "apart a ?b"
      using inv gap by (auto simp: mm_inv_def gap_free_def list_all_iff apart_def)
    from block_pages_apart [OF inv this(1) blk this(2)] a(2) p show False by (auto simp: block_pages_def)
  qed
  have acc1: "page_access r1 p = (if p \<in> set (page_list ?r0 c sz) then ReadWrite else page_access ?r0 p)" for p
    using c1 free [of p] by (cases "page_access ?r0 p") auto
  have r1f: "ram_wf r1" "xr_base r1" "xr_size r1 = xr_size ?r0" "xr_page_size r1 = 4096" "xr_mem r1 = xr_mem ?r0"
    using c1 wf(2,3) by auto
  have w: "writable r1 c sz" using r1f acc1 rng by (simp add: writable_access pl range_ok_def)
  have one: "host_ptr r1 c \<noteq> None"
  proof -
    have "0 < unat sz" using rng by (simp add: range_ok_def unat_gt_0)
    then have r1r: "range_ok r1 c 1" "range_ok r1 c sz" using rng r1f by (auto simp: range_ok_def)
    have "set (page_list r1 c 1) \<subseteq> set (page_list r1 c sz)"
      using pages_of [OF r1f(1,4) r1r(1)] pages_of [OF r1f(1,4) r1r(2)] \<open>0 < unat sz\<close> by fastforce
    then show ?thesis using w r1f r1r by (auto simp: host_ptr_def is_committed_access writable_access)
  qed
  then obtain hp where one': "host_ptr r1 c = Some hp" by blast
  define r2 where "r2 = r1\<lparr>xr_mem := store_bytes c (replicate (unat sz) 0) (xr_mem r1)\<rparr>"
  have wf2: "ram_wf r2" using r1f by (simp add: r2_def ram_wf_def)
  have acc2: "page_access r2 = page_access r1" by (simp add: fun_eq_iff page_access_def r2_def)
  have same2: "xr_base r2 = xr_base r1" "xr_size r2 = xr_size r1" "xr_page_size r2 = xr_page_size r1"
    "page_list r2 c sz = page_list ?r0 c sz" "xr_mprotect r2 = xr_mprotect ?r0"
    using r1f wf(3) page_ops_mprotect(1) [of c sz ?r0] r1 by (simp_all add: r2_def page_list_def)
  have com2: "is_committed r2 c sz"
    using wf2 acc2 acc1 same2 r1f rng by (simp add: is_committed_access range_ok_def)
  define r3 where "r3 = (if ro then snd (protect_ro c sz r2) else r2)"
  have ok: "fst (protect_ro c sz r2)"
    using com2 page_ops_total(3) [of r2 True] wf(4) same2 by (simp add: protect_ro_def)
  note p3 = protect_wf [OF wf2, of True c sz, OF trans [OF if_True prod.collapse [symmetric]]]
  have "mm_commit c sz pr k = Some (c, k\<lparr>kr_ram := r3,
      kr_mem_allocs := kr_mem_allocs k @ [?b],
      kr_mem_log := kr_mem_log k @ (if kr_mem_obs k then [(False, c, sz, ro)] else [])\<rparr>)"
    using w by (simp add: mm_commit_def r1 r3_def r2_def ro_def Let_def one')
  moreover have "ram_wf r3 \<and> xr_base r3 \<and> xr_page_size r3 = 4096 \<and> xr_mprotect r3 = xr_mprotect ?r0 \<and>
    xr_size r3 = xr_size ?r0 \<and> xr_mem r3 = store_bytes c (replicate (unat sz) 0) (xr_mem ?r0) \<and>
    (\<forall>p. page_access r3 p = (if p \<in> set (page_list ?r0 c sz) then if ro then ReadOnly else ReadWrite
       else page_access ?r0 p))"
    using wf2 p3 ok acc2 acc1 same2 r1f by (auto simp: r3_def ram_simps r2_def)
  ultimately show ?thesis by blast
qed

text \<open>The allocator as a whole: it refines the specification, and it keeps the invariant.\<close>

lemma mm_alloc_exact:
  assumes inv: "mm_inv k" and c: "mm_spec k sz lowest highest alignment = Some c"
  shows "\<exists>va r. unat va = c \<and> mm_alloc sz lowest highest alignment pr k = Some (va, k\<lparr>kr_ram := r,
      kr_mem_allocs := kr_mem_allocs k @ [\<lparr>ma_va = va, ma_size = sz, ma_protect = pr\<rparr>],
      kr_mem_log := kr_mem_log k @ (if kr_mem_obs k then [(False, va, sz, pr AND NOT kPageNocache = kPageReadonly)] else [])\<rparr>) \<and>
    ram_wf r \<and> xr_base r \<and> xr_page_size r = 4096 \<and> xr_mprotect r = xr_mprotect (kr_ram k) \<and>
    xr_size r = xr_size (kr_ram k) \<and> xr_mem r = store_bytes va (replicate (unat sz) 0) (xr_mem (kr_ram k)) \<and>
    (\<forall>p. page_access r p = (if p \<in> set (page_list (kr_ram k) va sz)
       then if pr AND NOT kPageNocache = kPageReadonly then ReadOnly else ReadWrite else page_access (kr_ram k) p))"
proof -
  from mm_find_spec [OF inv, of sz lowest highest alignment] c obtain va
    where va: "mm_find k sz lowest highest alignment = Some (Some va)" "unat va = c" by auto
  note sp = mm_spec_Some [of k sz lowest highest alignment va pr, unfolded va(2), OF c]
  from mm_commit_effect [OF inv, of va sz pr] sp va(2) show ?thesis
    by (simp only: mm_alloc_def va(1) option.case) blast
qed

lemma mm_alloc_Some:
  assumes inv: "mm_inv k" and c: "mm_spec k sz lowest highest alignment = Some c"
  shows "\<exists>va r log. unat va = c \<and> mm_alloc sz lowest highest alignment pr k = Some (va, k\<lparr>kr_ram := r,
      kr_mem_allocs := kr_mem_allocs k @ [\<lparr>ma_va = va, ma_size = sz, ma_protect = pr\<rparr>], kr_mem_log := log\<rparr>) \<and>
    ram_wf r \<and> xr_base r \<and> xr_page_size r = 4096 \<and> xr_mprotect r = xr_mprotect (kr_ram k) \<and>
    xr_size r = xr_size (kr_ram k) \<and> xr_mem r = store_bytes va (replicate (unat sz) 0) (xr_mem (kr_ram k)) \<and>
    (\<forall>p. page_access r p = (if p \<in> set (page_list (kr_ram k) va sz)
       then if pr AND NOT kPageNocache = kPageReadonly then ReadOnly else ReadWrite
       else page_access (kr_ram k) p))"
  using mm_alloc_exact [OF assms, of pr] by blast

lemma mm_alloc_None:
  "mm_inv k \<Longrightarrow> mm_spec k sz lowest highest alignment = None \<Longrightarrow> mm_alloc sz lowest highest alignment pr k = Some (0, k)"
  using mm_find_spec [of k sz lowest highest alignment] by (auto simp: mm_alloc_def)

lemma page_list_cong: "xr_page_size r' = xr_page_size r \<Longrightarrow> page_list r' = page_list r"
  by (simp add: page_list_def fun_eq_iff)

lemma mm_inv_alloc:
  assumes inv: "mm_inv k" and al: "mm_alloc sz lowest highest alignment pr k = Some (va, k')"
  shows "mm_inv k'"
proof (cases "mm_spec k sz lowest highest alignment")
  case None with inv al show ?thesis using mm_alloc_None by fastforce
next
  case (Some c)
  from mm_alloc_Some [OF inv Some, of pr] al obtain r log
    where k': "k' = k\<lparr>kr_ram := r, kr_mem_allocs := kr_mem_allocs k @ [\<lparr>ma_va = va, ma_size = sz, ma_protect = pr\<rparr>],
        kr_mem_log := log\<rparr>"
      and r: "ram_wf r" "xr_base r" "xr_page_size r = 4096" "xr_mprotect r = xr_mprotect (kr_ram k)"
        "xr_size r = xr_size (kr_ram k)"
        "\<And>p. page_access r p = (if p \<in> set (page_list (kr_ram k) va sz)
       then if pr AND NOT kPageNocache = kPageReadonly then ReadOnly else ReadWrite else page_access (kr_ram k) p)"
      and va: "unat va = c" by auto
  note sp = mm_spec_Some [of k sz lowest highest alignment va pr, unfolded va, OF Some]
  have pl: "page_list r = page_list (kr_ram k)" using inv r(3) by (intro page_list_cong) (simp add: mm_inv_def)
  have blk: "pool_block k' = pool_block k" by (simp add: k' pool_block_def fun_eq_iff)
  have pgs: "block_pages k' = block_pages k" by (simp add: k' block_pages_def pl fun_eq_iff)
  have "sorted_wrt apart (kr_mem_allocs k')"
    using inv sp va by (auto simp: k' mm_inv_def sorted_wrt_append gap_free_def list_all_iff apart_def)
  moreover have "\<forall>a\<in>set (kr_mem_allocs k'). pool_block k a \<and> (\<forall>p\<in>set (block_pages k a). page_access r p \<noteq> NoAccess)"
    using inv sp r(6) by (auto simp: k' mm_inv_def block_pages_def)
  moreover have "\<exists>a\<in>set (kr_mem_allocs k'). p \<in> set (block_pages k a)"
    if "unat (kr_mm_lo k) \<le> 4096 * p" "4096 * p < unat (kr_mm_hi k)" "page_access r p = ReadOnly" for p
    using that inv r(6) [of p] by (auto simp: k' mm_inv_def block_pages_def split: if_splits)
  moreover have "\<forall>p. xr_mprotect r p" using inv r(4) by (auto simp: mm_inv_def)
  ultimately show ?thesis using inv r(1-3,5) unfolding mm_inv_def blk pgs by (simp add: k')
qed

section \<open>Release\<close>

lemma remove_alloc_Some:
  "remove_alloc va as = Some (a, as') \<Longrightarrow>
     ma_va a = va \<and> (\<exists>xs ys. as = xs @ a # ys \<and> as' = xs @ ys \<and> (\<forall>x\<in>set xs. ma_va x \<noteq> va))"
proof (induction as arbitrary: as')
  case (Cons x as)
  show ?case
  proof (cases "ma_va x = va")
    case True with Cons.prems show ?thesis by (auto intro: exI [of _ "[]"])
  next
    case False
    with Cons.prems obtain bs where b: "remove_alloc va as = Some (a, bs)" "as' = x # bs" by auto
    from Cons.IH [OF b(1)] obtain xs ys where "ma_va a = va" "as = xs @ a # ys" "bs = xs @ ys"
      "\<forall>y\<in>set xs. ma_va y \<noteq> va" by blast
    with b(2) False show ?thesis by (intro conjI exI [of _ "x # xs"] exI [of _ ys]) auto
  qed
qed simp

lemma mm_free_exact:
  assumes inv: "mm_inv k" and a: "remove_alloc va (kr_mem_allocs k) = Some (a, as)"
  shows "\<exists>r. mm_free va k = (True, k\<lparr>kr_mem_allocs := as, kr_ram := r, kr_mem_log := kr_mem_log k @
      (if kr_mem_obs k then [(True, va, ma_size a, ma_protect a = kPageReadonly)] else [])\<rparr>) \<and>
    ram_wf r \<and> xr_base r \<and> xr_page_size r = 4096 \<and> (\<forall>p. xr_mprotect r p) \<and> xr_size r = xr_size (kr_ram k) \<and>
    (\<forall>p. page_access r p = (if p \<in> set (block_pages k a) then NoAccess else page_access (kr_ram k) p))"
proof -
  from remove_alloc_Some [OF a] have m: "a \<in> set (kr_mem_allocs k)" "ma_va a = va" by auto
  obtain u r where u: "uncommit va (ma_size a) (kr_ram k) = (u, r)" by fastforce
  have wf: "ram_wf (kr_ram k)" "xr_base (kr_ram k)" "xr_page_size (kr_ram k) = 4096" "\<forall>p. xr_mprotect (kr_ram k) p"
    using inv by (auto simp: mm_inv_def)
  note w = uncommit_wf [OF wf(1) u]
  have blk: "pool_block k a" "\<forall>p\<in>set (block_pages k a). page_access (kr_ram k) p \<noteq> NoAccess"
    using inv m by (auto simp: mm_inv_def)
  have com: "is_committed (kr_ram k) va (ma_size a)"
    using wf blk pool_block_range [OF inv blk(1)] m(2) by (simp add: is_committed_access block_pages_def)
  then have "uncommit_pages (page_list (kr_ram k) va (ma_size a)) (kr_ram k) = (u, r)"
    using u by (simp add: uncommit_def is_committed_def)
  then have u': u using page_ops_total(2) [OF wf(4), of "page_list (kr_ram k) va (ma_size a)"] by simp
  have mp: "\<forall>p. xr_mprotect r p" using page_ops_mprotect(2) [of va "ma_size a" "kr_ram k"] u wf(4) by simp
  have "mm_free va k = (True, k\<lparr>kr_mem_allocs := as, kr_ram := r, kr_mem_log := kr_mem_log k @
     (if kr_mem_obs k then [(True, va, ma_size a, ma_protect a = kPageReadonly)] else [])\<rparr>)"
    using u' by (simp add: mm_free_def a u)
  moreover have "\<forall>p. page_access r p = (if p \<in> set (block_pages k a) then NoAccess else page_access (kr_ram k) p)"
    using w u' m(2) by (simp add: block_pages_def)
  moreover have "ram_wf r" "xr_base r" "xr_page_size r = 4096" "xr_size r = xr_size (kr_ram k)" using w wf(2,3) by auto
  ultimately show ?thesis using mp by blast
qed

lemma mm_free_effect:
  assumes inv: "mm_inv k" and a: "remove_alloc va (kr_mem_allocs k) = Some (a, as)"
  shows "\<exists>r log. mm_free va k = (True, k\<lparr>kr_mem_allocs := as, kr_ram := r, kr_mem_log := log\<rparr>) \<and>
    ram_wf r \<and> xr_base r \<and> xr_page_size r = 4096 \<and> (\<forall>p. xr_mprotect r p) \<and> xr_size r = xr_size (kr_ram k) \<and>
    (\<forall>p. page_access r p = (if p \<in> set (block_pages k a) then NoAccess else page_access (kr_ram k) p))"
  using mm_free_exact [OF assms] by blast

lemma mm_inv_free:
  assumes inv: "mm_inv k" and fr: "mm_free va k = (b, k')"
  shows "mm_inv k'"
proof (cases "remove_alloc va (kr_mem_allocs k)")
  case None with inv fr show ?thesis by (simp add: mm_free_def)
next
  case (Some aas)
  then obtain a as where a: "remove_alloc va (kr_mem_allocs k) = Some (a, as)" by (cases aas) auto
  from remove_alloc_Some [OF a] obtain xs ys where xy: "kr_mem_allocs k = xs @ a # ys" "as = xs @ ys" "ma_va a = va" by blast
  from mm_free_effect [OF inv a] fr obtain r log where
    k': "k' = k\<lparr>kr_mem_allocs := as, kr_ram := r, kr_mem_log := log\<rparr>"
    and r: "ram_wf r" "xr_base r" "xr_page_size r = 4096" "\<forall>p. xr_mprotect r p" "xr_size r = xr_size (kr_ram k)"
      "\<And>p. page_access r p = (if p \<in> set (block_pages k a) then NoAccess else page_access (kr_ram k) p)" by auto
  have pl: "page_list r = page_list (kr_ram k)" using inv r(3) by (intro page_list_cong) (simp add: mm_inv_def)
  have blk: "pool_block k' = pool_block k" by (simp add: k' pool_block_def fun_eq_iff)
  have pgs: "block_pages k' = block_pages k" by (simp add: k' block_pages_def pl fun_eq_iff)
  have blk_a: "pool_block k a" using inv by (auto simp: mm_inv_def xy)
  have ap: "apart a x" if "x \<in> set as" for x
    using inv that by (auto simp: mm_inv_def xy sorted_wrt_append apart_def)
  have "sorted_wrt apart as" using inv by (auto simp: mm_inv_def xy sorted_wrt_append)
  moreover have "\<forall>x\<in>set as. pool_block k x \<and> (\<forall>p\<in>set (block_pages k x). page_access r p \<noteq> NoAccess)"
  proof
    fix x assume x: "x \<in> set as"
    then have bx: "pool_block k x" "\<forall>p\<in>set (block_pages k x). page_access (kr_ram k) p \<noteq> NoAccess"
      using inv by (auto simp: mm_inv_def xy)
    with block_pages_apart [OF inv blk_a bx(1) ap [OF x]] r(6)
    show "pool_block k x \<and> (\<forall>p\<in>set (block_pages k x). page_access r p \<noteq> NoAccess)" by auto
  qed
  moreover have "\<exists>x\<in>set as. p \<in> set (block_pages k x)"
    if p: "unat (kr_mm_lo k) \<le> 4096 * p" "4096 * p < unat (kr_mm_hi k)" "page_access r p = ReadOnly" for p
    using p r(6) [of p] inv xy by (force simp: mm_inv_def split: if_splits)
  ultimately show ?thesis using inv r(1-5) unfolding mm_inv_def blk pgs by (simp add: k')
qed

section \<open>Properties\<close>

lemma page_list_nonempty:
  assumes "ram_wf r" "range_ok r a n" shows "\<exists>p. p \<in> set (page_list r a n)"
proof -
  have "0 < unat n" using assms(2) by (simp add: range_ok_def unat_gt_0)
  then have "unat a div xr_page_size r \<le> unat (a + n - 1) div xr_page_size r"
    unfolding range_ok_end(1) [OF assms] by (intro div_le_mono) simp
  then show ?thesis by (intro exI [of _ "unat a div xr_page_size r"]) (auto simp: page_list_def)
qed

lemma writable_block:
  assumes "ram_wf r" "xr_base r" "range_ok r a n" "\<forall>p. page_access r p = (if p \<in> set (page_list r a n) then x else f p)"
    "x \<noteq> NoAccess"
  shows "readable r a n \<and> (writable r a n \<longleftrightarrow> x = ReadWrite)"
proof -
  obtain p where "p \<in> set (page_list r a n)" using page_list_nonempty [OF assms(1,3)] by blast
  then show ?thesis using assms by (auto simp: readable_def is_committed_access writable_access)
qed

lemma mm_alloc_effect:
  assumes "mm_inv k"
  shows "\<exists>va k'. mm_alloc sz lowest highest alignment pr k = Some (va, k') \<and> mm_inv k' \<and>
    (case mm_spec k sz lowest highest alignment of
       None \<Rightarrow> va = 0 \<and> k' = k
     | Some c \<Rightarrow> unat va = c \<and> kr_mem_allocs k' = kr_mem_allocs k @ [\<lparr>ma_va = va, ma_size = sz, ma_protect = pr\<rparr>] \<and>
         load_bytes (unat sz) va (xr_mem (kr_ram k')) = replicate (unat sz) 0 \<and> readable (kr_ram k') va sz \<and>
         (writable (kr_ram k') va sz \<longleftrightarrow> pr AND NOT kPageNocache \<noteq> kPageReadonly))"
proof (cases "mm_spec k sz lowest highest alignment")
  case None with mm_alloc_None [OF assms] assms show ?thesis by simp
next
  case (Some c)
  let ?x = "if pr AND NOT kPageNocache = kPageReadonly then ReadOnly else ReadWrite"
  from mm_alloc_Some [OF assms Some, of pr] obtain va r log where
    va: "unat va = c" and al: "mm_alloc sz lowest highest alignment pr k = Some (va, k\<lparr>kr_ram := r,
      kr_mem_allocs := kr_mem_allocs k @ [\<lparr>ma_va = va, ma_size = sz, ma_protect = pr\<rparr>], kr_mem_log := log\<rparr>)"
    and r: "ram_wf r" "xr_base r" "xr_page_size r = 4096" "xr_size r = xr_size (kr_ram k)"
      "xr_mem r = store_bytes va (replicate (unat sz) 0) (xr_mem (kr_ram k))"
      "\<forall>p. page_access r p = (if p \<in> set (page_list (kr_ram k) va sz) then ?x else page_access (kr_ram k) p)"
    by blast
  have pool: "pool_block k \<lparr>ma_va = va, ma_size = sz, ma_protect = pr\<rparr>"
    using mm_spec_Some [of k sz lowest highest alignment va pr] Some va by simp
  have rng: "range_ok r va sz" using pool_block_range [OF assms pool] r(4) by (simp add: range_ok_def)
  have "page_list r = page_list (kr_ram k)" using assms r(3) by (intro page_list_cong) (simp add: mm_inv_def)
  with writable_block [OF r(1,2) rng, of ?x "page_access (kr_ram k)"] r(6)
  have "readable r va sz \<and> (writable r va sz \<longleftrightarrow> pr AND NOT kPageNocache \<noteq> kPageReadonly)" by simp
  moreover have "load_bytes (unat sz) va (xr_mem r) = replicate (unat sz) 0"
    using load_store_same [of va "replicate (unat sz) (0 :: u8)" "xr_mem (kr_ram k)"] range_ok_end(3) [OF r(1) rng]
    by (simp add: r(5))
  ultimately show ?thesis using mm_inv_alloc [OF assms al] al va Some by simp
qed

text \<open>(C7) The contiguous allocator implements first fit. In every pool state that
  satisfies the invariant the scan ends and the call returns: 0 and an unchanged kernel when the
  specification finds no gap, otherwise the lowest aligned address in the requested range whose
  block meets no allocated block. The block is then zeroed, readable, writable exactly when it was
  not requested read-only, recorded, and the invariant (blocks inside the region and disjoint)
  still holds.\<close>

theorem mm_alloc_refines:
  assumes "mm_inv k"
  shows "\<exists>va k'. mm_alloc sz lowest highest alignment pr k = Some (va, k') \<and> mm_inv k' \<and>
    (case mm_spec k sz lowest highest alignment of
       None \<Rightarrow> va = 0 \<and> k' = k
     | Some c \<Rightarrow> unat va = c \<and> kr_mem_allocs k' = kr_mem_allocs k @ [\<lparr>ma_va = va, ma_size = sz, ma_protect = pr\<rparr>] \<and>
         load_bytes (unat sz) va (xr_mem (kr_ram k')) = replicate (unat sz) 0 \<and> readable (kr_ram k') va sz \<and>
         (writable (kr_ram k') va sz \<longleftrightarrow> pr AND NOT kPageNocache \<noteq> kPageReadonly))"
  using mm_alloc_effect [OF assms] .

definition demo_pool :: "ksched \<Rightarrow> krnl" where
  "demo_pool s = \<lparr>kr_ram = XbeRam 4096 True (\<lambda>_. True) 0x8000, kr_sched = s, kr_dbg_sink = False,
     kr_sink_log = [], kr_dbg_lines = [], kr_mem_obs = False, kr_mem_log = [], kr_thread_runner = False,
     kr_slots = [], kr_heap = (\<lambda>_. None), kr_next_obj = 0, kr_objects = [], kr_free_slots = [],
     kr_va_objects = [], kr_fiber_threads = [], kr_next_thread_id = 1, kr_kernel_data_va = 0x7000,
     kr_mm_lo = 0x1000, kr_mm_hi = 0x7000, kr_mem_allocs = [], kr_filetime = 0, kr_qpc = 0\<rparr>"

lemma demo_pool_inv: "mm_inv (demo_pool s)"
  by (simp add: mm_inv_def demo_pool_def XbeRam_def ram_wf_def page_access_def)

lemma demo_pool_spec: "mm_spec (demo_pool s) 0x100 0 0 0 = Some 4096"
  by (simp add: mm_spec_def demo_pool_def is_pow2_def first_fit_hit gap_free_def Let_def upt_rec)

theorem mm_alloc_refines_witness:
  "\<exists>va k'. mm_alloc 0x100 0 0 0 kPageReadWrite (demo_pool GuestScheduler) = Some (va, k') \<and> unat va = 4096"
  using mm_alloc_refines [OF demo_pool_inv [of GuestScheduler], where sz = "0x100" and lowest = 0 and highest = 0 and alignment = 0 and pr = kPageReadWrite]
  by (auto simp: demo_pool_spec)

text \<open>(C28) Releasing undoes an allocation. After a successful allocation the block is
  found at its address with its size; freeing that address succeeds, restores the previous block
  list and the invariant, makes the block's pages inaccessible, and a second free of the same
  address is refused and changes nothing.\<close>

theorem mm_free_inverts:
  assumes "mm_inv k" "mm_spec k sz lowest highest alignment = Some c"
  shows "\<exists>va k1 k2. mm_alloc sz lowest highest alignment pr k = Some (va, k1) \<and> unat va = c \<and> mm_size k1 va = sz \<and>
    mm_free va k1 = (True, k2) \<and> kr_mem_allocs k2 = kr_mem_allocs k \<and> mm_inv k2 \<and> mm_size k2 va = 0 \<and>
    \<not> readable (kr_ram k2) va sz \<and> mm_free va k2 = (False, k2)"
proof -
  from mm_alloc_effect [OF assms(1), of sz lowest highest alignment pr] assms(2) obtain va k1 where
    al: "mm_alloc sz lowest highest alignment pr k = Some (va, k1)" and inv1: "mm_inv k1" and va: "unat va = c"
    and as: "kr_mem_allocs k1 = kr_mem_allocs k @ [\<lparr>ma_va = va, ma_size = sz, ma_protect = pr\<rparr>]" by auto
  note sp = mm_spec_Some [of k sz lowest highest alignment va pr, unfolded va, OF assms(2)]
  have new: "ma_va a \<noteq> va" if "a \<in> set (kr_mem_allocs k)" for a
  proof -
    have "pool_block k a" "c + unat sz \<le> unat (ma_va a) \<or> unat (ma_va a) + unat (ma_size a) \<le> c"
      using that assms(1) sp by (auto simp: mm_inv_def gap_free_def list_all_iff)
    moreover have "0 < unat sz" "0 < unat (ma_size a)" using sp calculation(1) by (auto simp: pool_block_def unat_gt_0)
    ultimately show ?thesis using va by auto
  qed
  have rm: "remove_alloc va (as @ [\<lparr>ma_va = va, ma_size = sz, ma_protect = pr\<rparr>])
      = Some (\<lparr>ma_va = va, ma_size = sz, ma_protect = pr\<rparr>, as)" if "\<forall>a\<in>set as. ma_va a \<noteq> va" for as
    using that by (induction as) auto
  have no: "remove_alloc va as = None" if "\<forall>a\<in>set as. ma_va a \<noteq> va" for as
    using that by (induction as) auto
  have fnd: "find (\<lambda>a. ma_va a = va) as = None" if "\<forall>a\<in>set as. ma_va a \<noteq> va" for as
    using that by (auto simp: find_None_iff)
  let ?a = "\<lparr>ma_va = va, ma_size = sz, ma_protect = pr\<rparr>"
  have rm1: "remove_alloc va (kr_mem_allocs k1) = Some (?a, kr_mem_allocs k)" using rm [of "kr_mem_allocs k"] new as by simp
  from mm_free_effect [OF inv1 rm1] obtain r log where
    fr: "mm_free va k1 = (True, k1\<lparr>kr_mem_allocs := kr_mem_allocs k, kr_ram := r, kr_mem_log := log\<rparr>)"
    and r: "ram_wf r" "xr_page_size r = 4096" "xr_size r = xr_size (kr_ram k1)"
      "\<forall>p. page_access r p = (if p \<in> set (block_pages k1 ?a) then NoAccess else page_access (kr_ram k1) p)" by blast
  have b: "pool_block k1 ?a" using inv1 as by (simp add: mm_inv_def)
  have "page_list r = page_list (kr_ram k1)" using inv1 r(2) by (intro page_list_cong) (simp add: mm_inv_def)
  with r(4) page_list_nonempty [OF r(1), of va sz] have no_read: "\<not> readable r va sz"
    by (auto simp: readable_def is_committed_access [OF r(1)] block_pages_def)
  show ?thesis
    using al va fr no_read mm_inv_free [OF inv1 fr] new
    by (intro exI [of _ va] exI [of _ k1] exI conjI)
      (auto simp: mm_size_def as find_append_None fnd mm_free_def no)
qed

theorem mm_free_inverts_witness:
  "\<exists>va k1 k2. mm_alloc 0x100 0 0 0 kPageReadWrite (demo_pool GuestScheduler) = Some (va, k1) \<and> mm_free va k1 = (True, k2)"
  using mm_free_inverts [OF demo_pool_inv [of GuestScheduler] demo_pool_spec, where pr = kPageReadWrite] by blast

end
