(* ===== verification/Krnl_Inv.thy ===== *)
theory Krnl_Inv
  imports Krnl_Dispatch Krnl_Mm_Props
begin

text \<open>
  The invariant of the kernel state and its preservation: every registered object is alive and
  registered once, no object leaks, the free list is the list of the empty handle slots, tokens
  identify objects, scheduler handles are positions, and the memory pool is well-formed. Every
  export keeps it and none runs into undefined behaviour.
\<close>

named_theorems krnl_inv \<open>operations that keep the kernel invariant\<close>
named_theorems krnl_heap \<open>what operations do to the objects\<close>

section \<open>The invariant\<close>

definition registered :: "krnl \<Rightarrow> obj list" where
  "registered k = map snd (kr_fiber_threads k) @ live_objects k @ kr_va_objects k"

definition reg_inv :: "krnl \<Rightarrow> bool" where
  "reg_inv k \<longleftrightarrow> dom (kr_heap k) = set (registered k) \<and> distinct (registered k) \<and>
     (\<forall>ob d. kr_heap k ob = Some d \<longrightarrow> ob < kr_next_obj k \<and> do_token d = event_token ob) \<and>
     distinct (kr_free_slots k) \<and> set (kr_free_slots k) = {i. i < length (kr_objects k) \<and> kr_objects k ! i = None}"

definition sch_inv :: "ksched \<Rightarrow> bool" where
  "sch_inv s \<longleftrightarrow> sched_wf s \<and> (\<forall>t. gs_current s = Some t \<longrightarrow> t < length (gs_threads s))"

definition kr_inv :: "krnl \<Rightarrow> bool" where
  "kr_inv k \<longleftrightarrow> reg_inv k \<and> sch_inv (kr_sched k) \<and> mm_inv k"

definition live :: "krnl \<Rightarrow> obj \<Rightarrow> bool" where
  "live k ob \<longleftrightarrow> kr_heap k ob \<noteq> None"

text \<open>An outcome is safe when it is not undefined behaviour and its state satisfies \<open>P\<close>.\<close>

definition safe :: "(krnl \<Rightarrow> bool) \<Rightarrow> outcome \<Rightarrow> bool" where
  "safe P out = (case out of Ret v b e k \<Rightarrow> P k | Block k \<Rightarrow> P k | Exit k \<Rightarrow> P k | RunGuest x k \<Rightarrow> P k | Crash \<Rightarrow> False)"

lemma safe_simps [simp]:
  "safe P (Ret v b e k) = P k" "safe P (Block k) = P k" "safe P (Exit k) = P k" "safe P (RunGuest x k) = P k"
  "\<not> safe P Crash" "safe P (ret v k) = P k" "safe P (reject k) = P k" "safe P (void_fail k) = P k"
  "safe P (wait_result st k) = P k"
  by (simp_all add: safe_def ret_def reject_def void_fail_def wait_result_def)

section \<open>Frames\<close>

lemma reg_inv_cong:
  assumes "reg_inv k" "dom (kr_heap k') = dom (kr_heap k)"
    "\<And>ob d. kr_heap k' ob = Some d \<Longrightarrow> do_token d = event_token ob"
    "kr_next_obj k' = kr_next_obj k" "kr_objects k' = kr_objects k" "kr_free_slots k' = kr_free_slots k"
    "kr_va_objects k' = kr_va_objects k" "kr_fiber_threads k' = kr_fiber_threads k"
  shows "reg_inv k'"
proof -
  have reg: "registered k' = registered k" using assms(5,7,8) by (simp add: registered_def live_objects_def)
  have "ob < kr_next_obj k" if "kr_heap k' ob = Some d" for ob d
    using that assms(1,2) unfolding reg_inv_def by (metis domD domI)
  then show ?thesis using assms reg by (simp add: reg_inv_def)
qed

lemma mm_inv_mem: "mm_inv (k\<lparr>kr_ram := (kr_ram k)\<lparr>xr_mem := m\<rparr>\<rparr>) \<longleftrightarrow> mm_inv k"
  by (simp add: mm_inv_def ram_wf_def page_access_def pool_block_def block_pages_def page_list_def)

lemma mm_inv_cong:
  "kr_ram k' = kr_ram k \<Longrightarrow> kr_mm_lo k' = kr_mm_lo k \<Longrightarrow> kr_mm_hi k' = kr_mm_hi k \<Longrightarrow>
     kr_mem_allocs k' = kr_mem_allocs k \<Longrightarrow> mm_inv k' = mm_inv k"
  by (simp add: mm_inv_def pool_block_def block_pages_def)

lemma kr_inv_mem [krnl_inv]: "kr_inv k \<Longrightarrow> kr_inv (k\<lparr>kr_ram := (kr_ram k)\<lparr>xr_mem := m\<rparr>\<rparr>)"
  by (auto simp: kr_inv_def mm_inv_mem reg_inv_def registered_def live_objects_def)

lemma kr_inv_cong:
  assumes "kr_inv k" "sch_inv (kr_sched k')" "kr_heap k' = kr_heap k" "kr_next_obj k' = kr_next_obj k"
    "kr_objects k' = kr_objects k" "kr_free_slots k' = kr_free_slots k" "kr_va_objects k' = kr_va_objects k"
    "kr_fiber_threads k' = kr_fiber_threads k" "kr_ram k' = kr_ram k" "kr_mm_lo k' = kr_mm_lo k"
    "kr_mm_hi k' = kr_mm_hi k" "kr_mem_allocs k' = kr_mem_allocs k"
  shows "kr_inv k'"
proof -
  have "reg_inv k'" by (rule reg_inv_cong [of k]) (use assms in \<open>auto simp: kr_inv_def reg_inv_def\<close>)
  moreover have "mm_inv k'" using mm_inv_cong [OF assms(9-12)] assms(1) by (simp add: kr_inv_def)
  ultimately show ?thesis using assms(2) by (simp add: kr_inv_def)
qed

lemma kr_inv_sched: "kr_inv k \<Longrightarrow> sch_inv s \<Longrightarrow> kr_inv (k\<lparr>kr_sched := s\<rparr>)"
  by (rule kr_inv_cong) simp_all

lemma kr_inv_sch: "kr_inv k \<Longrightarrow> sch_inv (kr_sched k)"
  by (simp add: kr_inv_def)

lemma kr_inv_logs [krnl_inv]:
  "kr_inv k \<Longrightarrow> kr_inv (k\<lparr>kr_sink_log := x\<rparr>)" "kr_inv k \<Longrightarrow> kr_inv (k\<lparr>kr_dbg_lines := y\<rparr>)"
  using kr_inv_sch [of k] by (simp_all add: kr_inv_cong [of k])

lemma kr_inv_set_obj [krnl_inv]:
  assumes "kr_inv k" "live k ob" "do_token d = event_token ob"
  shows "kr_inv (set_obj ob d k)"
proof -
  have "reg_inv (set_obj ob d k)"
    by (rule reg_inv_cong [of k]) (use assms in \<open>auto simp: kr_inv_def set_obj_def live_def reg_inv_def split: if_splits\<close>)
  moreover have "mm_inv (set_obj ob d k) = mm_inv k" by (rule mm_inv_cong) (simp_all add: set_obj_def)
  ultimately show ?thesis using assms by (simp add: kr_inv_def set_obj_def)
qed

lemma kr_inv_upd_obj [krnl_inv]:
  assumes "kr_inv k" "\<And>d. do_token (f d) = do_token d"
  shows "kr_inv (upd_obj ob f k)"
proof (cases "kr_heap k ob")
  case None then have "upd_obj ob f k = k" by (simp add: upd_obj_def fun_upd_idem)
  with assms show ?thesis by simp
next
  case (Some d)
  then have "upd_obj ob f k = set_obj ob (f d) k" by (simp add: upd_obj_def set_obj_def)
  moreover have "do_token d = event_token ob" using Some assms(1) by (simp add: kr_inv_def reg_inv_def)
  ultimately show ?thesis using assms Some by (simp add: kr_inv_set_obj live_def)
qed

lemma token_of: "kr_inv k \<Longrightarrow> kr_heap k ob = Some d \<Longrightarrow> do_token d = event_token ob"
  by (simp add: kr_inv_def reg_inv_def)

lemma kr_inv_fold: "(\<And>x k. kr_inv k \<Longrightarrow> kr_inv (f x k)) \<Longrightarrow> kr_inv k \<Longrightarrow> kr_inv (fold f xs k)"
  by (induction xs arbitrary: k) auto

section \<open>Guest memory\<close>

lemma write_bytes_mem: "\<exists>m. snd (write_bytes a bs r) = r\<lparr>xr_mem := m\<rparr>"
  by (auto simp: write_bytes_def intro: exI [of _ "xr_mem r"])

lemma poke_inv [krnl_inv]:
  "kr_inv k \<Longrightarrow> kr_inv (poke32 va v k)" "kr_inv k \<Longrightarrow> kr_inv (poke8 va b k)"
  "kr_inv k \<Longrightarrow> kr_inv (opt_poke va v k)"
proof -
  show p: "kr_inv k \<Longrightarrow> kr_inv (poke32 va v k)" for va v
    using write_bytes_mem [of va "le_bytes 4 v" "kr_ram k"]
    by (auto simp: poke32_def write32_def kr_inv_mem)
  show "kr_inv k \<Longrightarrow> kr_inv (poke8 va b k)"
    using write_bytes_mem [of va "[b]" "kr_ram k"] by (auto simp: poke8_def kr_inv_mem)
  show "kr_inv k \<Longrightarrow> kr_inv (opt_poke va v k)" using p by (simp add: opt_poke_def)
qed

lemma write64_poke:
  "snd (write64 va v k) \<in> {poke32 va (ucast v) k, poke32 (va + 4) (ucast (drop_bit 32 v)) (poke32 va (ucast v) k)}"
  by (auto simp: write64_def poke32_def split: prod.splits)

lemma write64_inv [krnl_inv]: "kr_inv k \<Longrightarrow> kr_inv (snd (write64 va v k))"
  using write64_poke [of va v k] by (auto simp: poke_inv)

lemma header_inv [krnl_inv]:
  "kr_inv k \<Longrightarrow> kr_inv (write_dispatcher_header d k)" "kr_inv k \<Longrightarrow> kr_inv (write_signal_state d k)"
  by (auto simp: write_dispatcher_header_def write_signal_state_def Let_def intro!: krnl_inv split: kind.splits)

lemma poke_heap [krnl_heap]:
  "kr_heap (poke32 va v k) = kr_heap k" "kr_heap (poke8 va b k) = kr_heap k"
  "kr_heap (opt_poke va v k) = kr_heap k" "kr_heap (write_dispatcher_header d k) = kr_heap k"
  "kr_heap (write_signal_state d k) = kr_heap k"
  by (simp_all add: poke32_def poke8_def opt_poke_def write_dispatcher_header_def write_signal_state_def Let_def
      split: kind.splits)

lemma set_obj_heap [krnl_heap]:
  "kr_heap (set_obj ob d k) = (kr_heap k)(ob \<mapsto> d)" "kr_heap (set_obj_mirrored ob d k) = (kr_heap k)(ob \<mapsto> d)"
  by (simp_all add: set_obj_mirrored_def krnl_heap set_obj_def)

lemma set_obj_mirrored_inv [krnl_inv]:
  "kr_inv k \<Longrightarrow> live k ob \<Longrightarrow> do_token d = event_token ob \<Longrightarrow> kr_inv (set_obj_mirrored ob d k)"
  by (simp add: set_obj_mirrored_def krnl_inv)

section \<open>Scheduler calls\<close>

lemma current_signal_gen: "signal tok al s = (n, s') \<Longrightarrow> gs_current s' = gs_current s"
  by (auto simp: signal_def split: prod.splits)

lemma sch_inv_signal:
  assumes "sch_inv s" shows "sch_inv (snd (signal tok al s))"
proof -
  obtain n s' where s: "signal tok al s = (n, s')" by fastforce
  have "sched_wf s'" using sched_wf_signal [OF _ s] assms by (simp add: sch_inv_def)
  moreover have "gs_current s' = gs_current s" using current_signal_gen [OF s] by simp
  moreover have "length (gs_threads s') = length (gs_threads s)"
    using threads_signal [of tok al s] s by (metis length_signal_list snd_conv)
  ultimately show ?thesis using assms s by (simp add: sch_inv_def)
qed

lemma sch_inv_block:
  "sch_inv s \<Longrightarrow> sch_inv (thread_block t tok tmo (upd_thread t (\<lambda>g. g\<lparr>gt_ctx := c\<rparr>) s))"
  by (auto simp: sch_inv_def thread_block_def sched_simps intro!: sched_wf_switch sched_wf_upd)

lemma sched_call_inv [krnl_inv]:
  assumes "kr_inv k"
  shows "kr_inv (snd (krnl_signal tok al k))" "kr_inv (krnl_block kt tok tmo k)"
proof -
  have "snd (krnl_signal tok al k) = k\<lparr>kr_sched := snd (signal tok al (kr_sched k))\<rparr>"
    by (simp add: krnl_signal_def split: prod.splits)
  then show "kr_inv (snd (krnl_signal tok al k))"
    using assms by (simp add: kr_inv_sched sch_inv_signal kr_inv_sch)
  show "kr_inv (krnl_block kt tok tmo k)"
    using assms by (simp add: krnl_block_def kr_inv_sched sch_inv_block kr_inv_sch split: option.splits)
qed

lemma sched_call_heap [krnl_heap]:
  "kr_heap (snd (krnl_signal tok al k)) = kr_heap k" "kr_heap (krnl_block kt tok tmo k) = kr_heap k"
  by (simp_all add: krnl_signal_def krnl_block_def split: prod.splits option.splits)

lemma signal_units_inv [krnl_inv]: "kr_inv k \<Longrightarrow> kr_inv (signal_units n tok k)"
proof (induction n arbitrary: k)
  case (Suc n)
  then show ?case using sched_call_inv(1) [of k tok False] by (auto split: prod.splits)
qed simp

lemma signal_units_heap [krnl_heap]: "kr_heap (signal_units n tok k) = kr_heap k"
proof (induction n arbitrary: k)
  case (Suc n)
  then show ?case using sched_call_heap(1) [of tok False k] by (auto split: prod.splits)
qed simp

lemma fold_signal_heap [krnl_heap]:
  "kr_heap (fold (\<lambda>t k. snd (krnl_signal t False k)) ts k) = kr_heap k"
  by (induction ts arbitrary: k) (simp_all add: krnl_heap)

lemma wake_object_inv [krnl_inv]: "kr_inv k \<Longrightarrow> kr_inv (wake_object ob n k)"
  by (auto simp: wake_object_def intro!: krnl_inv kr_inv_fold split: option.splits)

lemma wake_object_heap:
  "kr_heap (wake_object ob n k) = (kr_heap k)(ob := map_option (\<lambda>d. d\<lparr>do_mw_waiters := []\<rparr>) (kr_heap k ob))"
  by (auto simp: wake_object_def upd_obj_def krnl_heap fun_upd_idem split: option.splits)

end
