(* ===== verification/Krnl_Safe.thy ===== *)
theory Krnl_Safe
  imports Krnl_Inv
begin

text \<open>
  Registering and removing objects, and the safety of every kernel export: from a state that
  satisfies the invariant no handler runs into undefined behaviour, and whatever it returns, the
  invariant holds again.
\<close>

named_theorems krnl_live \<open>which objects are alive\<close>

section \<open>Registering objects\<close>

lemma mset_live_add:
  "i < length xs \<Longrightarrow> xs ! i = None \<Longrightarrow>
     mset (List.map_filter id (xs[i := Some ob])) = add_mset ob (mset (List.map_filter id xs))"
proof (induction xs arbitrary: i)
  case (Cons x xs)
  then show ?case by (cases i) (auto simp: List.map_filter_simps split: option.splits)
qed simp

lemma mset_live_remove:
  "i < length xs \<Longrightarrow> xs ! i = Some ob \<Longrightarrow>
     mset (List.map_filter id xs) = add_mset ob (mset (List.map_filter id (xs[i := None])))"
proof (induction xs arbitrary: i)
  case (Cons x xs)
  then show ?case by (cases i) (auto simp: List.map_filter_simps split: option.splits)
qed simp

lemma live_append: "List.map_filter id (xs @ [Some ob]) = List.map_filter id xs @ [ob]"
  by (simp add: List.map_filter_def)

text \<open>One object more in the heap and in the registries.\<close>

lemma kr_inv_register:
  assumes inv: "kr_inv k" and reg: "mset (registered k') = add_mset (kr_next_obj k) (mset (registered k))"
    and heap: "kr_heap k' = (kr_heap k)(kr_next_obj k \<mapsto> d)" "do_token d = event_token (kr_next_obj k)"
    and next_obj: "kr_next_obj k' = Suc (kr_next_obj k)"
    and slots: "distinct (kr_free_slots k')"
      "set (kr_free_slots k') = {i. i < length (kr_objects k') \<and> kr_objects k' ! i = None}"
    and rest: "kr_ram k' = kr_ram k" "kr_mm_lo k' = kr_mm_lo k" "kr_mm_hi k' = kr_mm_hi k"
      "kr_mem_allocs k' = kr_mem_allocs k" "kr_sched k' = kr_sched k"
  shows "kr_inv k'"
proof -
  let ?n = "kr_next_obj k"
  have ri: "reg_inv k" using inv by (simp add: kr_inv_def)
  then have fresh: "?n \<notin> set (registered k)" unfolding reg_inv_def by (metis domD less_irrefl)
  have m: "mset (registered k') = mset (?n # registered k)" using reg by simp
  have "set (registered k') = insert ?n (set (registered k))" using mset_eq_setD [OF m] by simp
  moreover have "distinct (registered k')" using mset_eq_imp_distinct_iff [OF m] fresh ri by (simp add: reg_inv_def)
  ultimately have "reg_inv k'"
    using ri heap next_obj slots by (auto simp: reg_inv_def less_Suc_eq)
  moreover have "mm_inv k'" using mm_inv_cong [OF rest(1-4)] inv by (simp add: kr_inv_def)
  ultimately show ?thesis using inv rest(5) by (simp add: kr_inv_def)
qed

lemma ensure_thread_inv:
  assumes "kr_inv k" shows "kr_inv (snd (ensure_thread_object h k))"
proof (cases "map_of (kr_fiber_threads k) h")
  case None
  let ?d = "new_object\<lparr>do_kind := KThread, th_sched_handle := ucast h, th_thread_id := kr_next_thread_id k,
    th_running := True, do_token := event_token (kr_next_obj k)\<rparr>"
  have "distinct (kr_free_slots k)" "set (kr_free_slots k) = {i. i < length (kr_objects k) \<and> kr_objects k ! i = None}"
    using assms by (simp_all add: kr_inv_def reg_inv_def)
  moreover have "image_mset snd (mset (insort_key fst (h, kr_next_obj k) (kr_fiber_threads k))) =
    add_mset (kr_next_obj k) (image_mset snd (mset (kr_fiber_threads k)))" by (simp only: mset_insort) simp
  ultimately show ?thesis using None
    by (intro kr_inv_register [OF assms, where d = ?d])
      (simp_all add: ensure_thread_object_def alloc_obj_def registered_def live_objects_def Let_def)
qed (simp add: ensure_thread_object_def assms)

lemma ensure_thread_heap:
  assumes "kr_inv k" "kr_heap k ob = Some d"
  shows "kr_heap (snd (ensure_thread_object h k)) ob = Some d"
proof -
  have "ob < kr_next_obj k" using assms by (simp add: kr_inv_def reg_inv_def)
  with assms show ?thesis by (auto simp: ensure_thread_object_def alloc_obj_def Let_def split: option.splits)
qed

lemma current_token_inv [krnl_inv]: "kr_inv k \<Longrightarrow> kr_inv (snd (current_thread_token k))"
  using ensure_thread_inv [of k "current_handle (kr_sched k)"]
  by (auto simp: current_thread_token_def Let_def split: prod.splits)

lemma current_token_live [krnl_live]: "kr_inv k \<Longrightarrow> live k ob \<Longrightarrow> live (snd (current_thread_token k)) ob"
  using ensure_thread_heap [of k ob _ "current_handle (kr_sched k)"]
  by (auto simp: live_def current_thread_token_def Let_def split: prod.splits)

lemma alloc_obj_eq:
  "alloc_obj d k = (ob, k1) \<Longrightarrow> ob = kr_next_obj k \<and>
     k1 = k\<lparr>kr_heap := (kr_heap k)(ob \<mapsto> d\<lparr>do_token := event_token ob\<rparr>), kr_next_obj := ob + 1\<rparr>"
  by (auto simp: alloc_obj_def Let_def)

lemma insert_inv:
  assumes "kr_inv k" "alloc_obj d k = (ob, k1)" "insert_object ob k1 = (h, k2)"
  shows "kr_inv k2"
proof -
  have ri: "distinct (kr_free_slots k)" "set (kr_free_slots k) = {i. i < length (kr_objects k) \<and> kr_objects k ! i = None}"
    using assms(1) by (simp_all add: kr_inv_def reg_inv_def)
  have a: "ob = kr_next_obj k" "k1 = k\<lparr>kr_heap := (kr_heap k)(ob \<mapsto> d\<lparr>do_token := event_token ob\<rparr>), kr_next_obj := ob + 1\<rparr>"
    using alloc_obj_eq [OF assms(2)] by simp_all
  show ?thesis
  proof (cases "kr_free_slots k")
    case Nil
    then have k2: "k2 = k1\<lparr>kr_objects := kr_objects k @ [Some ob]\<rparr>" using assms(3) a by (auto simp: insert_object_def)
    have "set (kr_free_slots k) = {i. i < length (kr_objects k @ [Some ob]) \<and> (kr_objects k @ [Some ob]) ! i = None}"
      unfolding ri(2) by (rule Collect_cong) (auto simp: nth_append less_Suc_eq)
    with ri(1) show ?thesis
      by (intro kr_inv_register [OF assms(1), where d = "d\<lparr>do_token := event_token (kr_next_obj k)\<rparr>"])
        (simp_all add: k2 a registered_def live_objects_def live_append)
  next
    case (Cons slot rest)
    then have sl: "slot < length (kr_objects k)" "kr_objects k ! slot = None" using ri(2) by auto
    have k2: "k2 = k1\<lparr>kr_free_slots := rest, kr_objects := (kr_objects k)[slot := Some ob]\<rparr>"
      using assms(3) a Cons by (auto simp: insert_object_def)
    have "set rest = set (kr_free_slots k) - {slot}" using ri(1) Cons by auto
    then have "set rest = {i. i < length (kr_objects k) \<and> (kr_objects k)[slot := Some ob] ! i = None}"
      unfolding ri(2) using sl(1) by (auto simp: nth_list_update)
    with ri(1) Cons show ?thesis
      by (intro kr_inv_register [OF assms(1), where d = "d\<lparr>do_token := event_token (kr_next_obj k)\<rparr>"])
        (simp_all add: k2 a registered_def live_objects_def mset_live_add [OF sl])
  qed
qed

lemma create_pool_safe [krnl_inv]: "kr_inv k \<Longrightarrow> safe kr_inv (create_pool out d k)"
  using insert_inv [of k d] by (auto simp: create_pool_def split: prod.splits intro!: krnl_inv)

lemma va_register_inv:
  assumes "kr_inv k" "alloc_obj d k = (ob, k1)"
  shows "kr_inv (k1\<lparr>kr_va_objects := kr_va_objects k1 @ [ob]\<rparr>)"
proof -
  have "distinct (kr_free_slots k)" "set (kr_free_slots k) = {i. i < length (kr_objects k) \<and> kr_objects k ! i = None}"
    using assms(1) by (simp_all add: kr_inv_def reg_inv_def)
  moreover have "ob = kr_next_obj k"
    "k1 = k\<lparr>kr_heap := (kr_heap k)(ob \<mapsto> d\<lparr>do_token := event_token ob\<rparr>), kr_next_obj := ob + 1\<rparr>"
    using alloc_obj_eq [OF assms(2)] by simp_all
  ultimately show ?thesis
    by (intro kr_inv_register [OF assms(1), where d = "d\<lparr>do_token := event_token (kr_next_obj k)\<rparr>"])
      (simp_all add: registered_def live_objects_def)
qed

lemma create_at_va_safe [krnl_inv]: "kr_inv k \<Longrightarrow> safe kr_inv (create_at_va d k)"
  using va_register_inv [of k d] by (auto simp: create_at_va_def split: prod.splits intro!: krnl_inv)

section \<open>Looking objects up\<close>

lemma live_registered: "kr_inv k \<Longrightarrow> live k ob \<longleftrightarrow> ob \<in> set (registered k)"
  by (auto simp: live_def kr_inv_def reg_inv_def)

lemma slot_live: "i < length (kr_objects k) \<Longrightarrow> kr_objects k ! i = Some ob \<Longrightarrow> ob \<in> set (live_objects k)"
  by (force simp: live_objects_def List.map_filter_def in_set_conv_nth)

lemma lookup_live [krnl_live]:
  assumes "kr_inv k"
  shows "find_object_by_handle k h = Some ob \<Longrightarrow> live k ob"
    "find_object_by_va k va = Some ob \<Longrightarrow> live k ob"
    "find_thread_by_id k tid = Some ob \<Longrightarrow> live k ob"
    "find_thread_by_fiber k f = Some ob \<Longrightarrow> live k ob"
proof -
  show "find_object_by_handle k h = Some ob \<Longrightarrow> live k ob"
    using slot_live [of _ k ob] live_registered [OF assms]
    by (auto simp: find_object_by_handle_def Let_def registered_def not_le split: if_splits)
  show "find_object_by_va k va = Some ob \<Longrightarrow> live k ob"
    by (auto simp: find_object_by_va_def find_Some_iff live_def split: option.splits)
  show "find_thread_by_id k tid = Some ob \<Longrightarrow> live k ob"
    by (auto simp: find_thread_by_id_def find_Some_iff live_def is_thread_def split: option.splits if_splits)
  show "find_thread_by_fiber k f = Some ob \<Longrightarrow> live k ob"
    by (auto simp: find_thread_by_fiber_def find_Some_iff live_def is_thread_def Let_def split: option.splits if_splits)
qed

lemma on_object_safe:
  assumes "kr_inv k" "\<And>ob. obo = Some ob \<Longrightarrow> live k ob"
    and "\<And>ob d. \<lbrakk>obo = Some ob; kr_heap k ob = Some d; P d; live k ob; do_token d = event_token ob\<rbrakk> \<Longrightarrow> safe kr_inv (f ob d)"
  shows "safe kr_inv (on_object obo P k f)"
  using assms token_of [OF assms(1)] by (force simp: on_object_def live_def split: option.splits)

lemma live_ops [simp]:
  "live (poke32 va v k) = live k" "live (poke8 va b k) = live k" "live (opt_poke va v k) = live k"
  "live (write_dispatcher_header d k) = live k" "live (write_signal_state d k) = live k"
  "live (snd (krnl_signal tok al k)) = live k" "live (krnl_block kt tok tmo k) = live k"
  "live (signal_units n tok k) = live k" "live (wake_object ob n k) = live k"
  "live (set_obj ob d k) = (\<lambda>x. x = ob \<or> live k x)" "live (set_obj_mirrored ob d k) = (\<lambda>x. x = ob \<or> live k x)"
  "live (upd_obj ob f k) = live k"
  by (auto simp: live_def fun_eq_iff krnl_heap wake_object_heap upd_obj_def split: if_splits)

section \<open>The wait core\<close>

lemma satisfied_safe:
  assumes "kr_inv k" "dispatcher_satisfied d k = (sat, k1)"
  shows "kr_inv k1" "live k ob \<Longrightarrow> live k1 ob"
  using assms current_token_inv [of k] current_token_live [of k ob]
  by (auto simp: dispatcher_satisfied_def split: kind.splits if_splits prod.splits)

lemma acquire_safe:
  assumes "kr_inv k" "live k ob" "do_token d = event_token ob" "dispatcher_acquire ob d k = (st, k1)"
  shows "kr_inv k1" "live k x \<Longrightarrow> live k1 x"
proof -
  have k: "kr_inv (snd (current_thread_token k))" "live (snd (current_thread_token k)) ob"
    "live k x \<Longrightarrow> live (snd (current_thread_token k)) x"
    using assms(1,2) by (auto intro: current_token_inv current_token_live)
  show "kr_inv k1"
    using assms k by (auto simp: dispatcher_acquire_def Let_def split: kind.splits if_splits prod.splits
        intro!: header_inv kr_inv_set_obj set_obj_mirrored_inv)
  show "live k x \<Longrightarrow> live k1 x"
    using assms(4) k by (auto simp: dispatcher_acquire_def Let_def split: kind.splits if_splits prod.splits)
qed

lemma wait_dispatch_safe [krnl_inv]:
  assumes "kr_inv k" "live k ob" shows "safe kr_inv (wait_dispatch ob imm ticks k)"
proof -
  from assms(2) obtain d where d: "kr_heap k ob = Some d" by (auto simp: live_def)
  obtain sat k1 where s: "dispatcher_satisfied d k = (sat, k1)" by fastforce
  note k1 = satisfied_safe [OF assms(1) s]
  obtain st k2 where a: "dispatcher_acquire ob d k1 = (st, k2)" by fastforce
  have "kr_inv k2" using acquire_safe(1) [OF k1(1) k1(2) [OF assms(2)] token_of [OF assms(1) d] a] .
  with k1 s a show ?thesis by (simp add: wait_dispatch_def d sched_call_inv)
qed

lemma wait_export_safe [krnl_inv]:
  "kr_inv k \<Longrightarrow> (\<And>ob. obo = Some ob \<Longrightarrow> live k ob) \<Longrightarrow> safe kr_inv (wait_export obo p k)"
  by (auto simp: wait_export_def intro!: wait_dispatch_safe split: option.splits)

lemma all_satisfied_safe:
  assumes "kr_inv k" "\<forall>ob\<in>set obs. live k ob"
  shows "\<exists>b k1. all_satisfied obs k = Some (b, k1) \<and> kr_inv k1 \<and> (\<forall>x. live k x \<longrightarrow> live k1 x)"
  using assms
proof (induction obs arbitrary: k)
  case (Cons ob obs)
  then obtain d where d: "kr_heap k ob = Some d" by (auto simp: live_def)
  obtain sat k1 where s: "dispatcher_satisfied d k = (sat, k1)" by fastforce
  note k1 = satisfied_safe [OF Cons.prems(1) s]
  then have "\<forall>x\<in>set obs. live k1 x" using Cons.prems(2) by simp
  from Cons.IH [OF k1(1) this] k1 show ?case by (auto simp: d s)
qed auto

lemma acquire_all_safe:
  assumes "kr_inv k" "\<forall>ob\<in>set obs. live k ob"
  shows "\<exists>st k1. acquire_all i obs w k = Some (st, k1) \<and> kr_inv k1 \<and> (\<forall>x. live k x \<longrightarrow> live k1 x)"
  using assms
proof (induction obs arbitrary: k i w)
  case (Cons ob obs)
  then obtain d where d: "kr_heap k ob = Some d" by (auto simp: live_def)
  obtain st k1 where s: "dispatcher_acquire ob d k = (st, k1)" by fastforce
  have "live k ob" using Cons.prems by simp
  note k1 = acquire_safe [OF Cons.prems(1) this token_of [OF Cons.prems(1) d] s]
  then have l: "\<forall>x\<in>set obs. live k1 x" using Cons.prems(2) by simp
  from Cons.IH [OF k1(1) l, of "Suc i" "if st \<noteq> kStatusSuccess \<and> w = kStatusSuccess then kStatusAbandoned + of_nat i else w"]
    k1 show ?case by (auto simp: d s)
qed simp

lemma acquire_any_safe:
  assumes "kr_inv k" "\<forall>ob\<in>set obs. live k ob"
  shows "\<exists>r k1. acquire_any i obs k = Some (r, k1) \<and> kr_inv k1 \<and> (\<forall>x. live k x \<longrightarrow> live k1 x)"
  using assms
proof (induction obs arbitrary: k i)
  case (Cons ob obs)
  then obtain d where d: "kr_heap k ob = Some d" by (auto simp: live_def)
  obtain sat k1 where s: "dispatcher_satisfied d k = (sat, k1)" by fastforce
  note k1 = satisfied_safe [OF Cons.prems(1) s]
  obtain st k2 where a: "dispatcher_acquire ob d k1 = (st, k2)" by fastforce
  have l1: "live k1 ob" using Cons.prems k1(2) by simp
  note k2 = acquire_safe [OF k1(1) l1 token_of [OF Cons.prems(1) d] a]
  have "\<forall>x\<in>set obs. live k1 x" using Cons.prems(2) k1(2) by simp
  from Cons.IH [OF k1(1) this, of "Suc i"] k1 k2 show ?case by (auto simp: d s a)
qed simp

lemma multi_try_safe:
  assumes "kr_inv k" "\<forall>ob\<in>set obs. live k ob"
  shows "\<exists>r k1. multi_try obs wa k = Some (r, k1) \<and> kr_inv k1 \<and> (\<forall>x. live k x \<longrightarrow> live k1 x)"
proof (cases wa)
  case False then show ?thesis using acquire_any_safe [OF assms] by (simp add: multi_try_def)
next
  case True
  from all_satisfied_safe [OF assms] obtain b k1
    where b: "all_satisfied obs k = Some (b, k1)" "kr_inv k1" "\<forall>x. live k x \<longrightarrow> live k1 x" by blast
  with assms(2) have l: "\<forall>ob\<in>set obs. live k1 ob" by blast
  from acquire_all_safe [OF b(2) l, of 0 kStatusSuccess] b True show ?thesis
    by (cases b) (auto simp: multi_try_def)
qed

lemma register_safe:
  assumes "kr_inv k" "\<forall>ob\<in>set obs. live k ob"
  shows "\<exists>k1. register_waiter tok obs k = Some k1 \<and> kr_inv k1 \<and> (\<forall>x. live k x \<longrightarrow> live k1 x)"
  using assms
proof (induction obs arbitrary: k)
  case (Cons ob obs)
  then obtain d where d: "kr_heap k ob = Some d" by (auto simp: live_def)
  obtain sat k1 where s: "dispatcher_satisfied d k = (sat, k1)" by fastforce
  note k1 = satisfied_safe [OF Cons.prems(1) s]
  define k2 where "k2 = (if sat then k1 else upd_obj ob (\<lambda>d. d\<lparr>do_mw_waiters := do_mw_waiters d @ [tok]\<rparr>) k1)"
  have inv: "kr_inv k2" using k1 by (simp add: k2_def kr_inv_upd_obj)
  have l: "\<forall>x. live k x \<longrightarrow> live k2 x" using k1 by (simp add: k2_def)
  with Cons.prems(2) have "\<forall>x\<in>set obs. live k2 x" by simp
  from Cons.IH [OF inv this] l show ?case by (auto simp: d s k2_def [symmetric])
qed simp

lemma unregister_safe:
  assumes "kr_inv k" "\<forall>ob\<in>set obs. live k ob"
  shows "\<exists>k1. unregister_waiter tok obs k = Some k1 \<and> kr_inv k1 \<and> live k1 = live k"
  using assms
proof (induction obs arbitrary: k)
  case (Cons ob obs)
  then obtain d where d: "kr_heap k ob = Some d" by (auto simp: live_def)
  let ?k = "upd_obj ob (\<lambda>d. d\<lparr>do_mw_waiters := filter (\<lambda>t. t \<noteq> tok) (do_mw_waiters d)\<rparr>) k"
  have "kr_inv ?k" using Cons.prems by (simp add: kr_inv_upd_obj)
  then show ?case using Cons.IH [of ?k] Cons.prems(2) by (simp add: d)
qed simp

lemma wait_multiple_safe [krnl_inv]:
  assumes "kr_inv k" "\<forall>ob\<in>set obs. live k ob"
  shows "safe kr_inv (wait_multiple obs wa imm ticks k)"
proof -
  from multi_try_safe [OF assms] obtain r k1
    where r: "multi_try obs wa k = Some (r, k1)" "kr_inv k1" "\<forall>x. live k x \<longrightarrow> live k1 x" by blast
  with assms(2) have l: "\<forall>ob\<in>set obs. live k1 ob" by blast
  from register_safe [OF r(2) l, of "mw_token k1"] r show ?thesis
    by (cases r) (auto simp: wait_multiple_def sched_call_inv)
qed

section \<open>Events, mutants, semaphores\<close>

lemma set_event_safe:
  assumes "kr_inv k" "live k ob" "do_token d = event_token ob" "ke_set_event ob d k = (p, k1)"
  shows "kr_inv k1"
proof -
  obtain w k2 where w: "krnl_signal (do_token d) False k = (w, k2)" by fastforce
  have "kr_inv k2" "live k2 ob" using sched_call_inv(1) [OF assms(1), of "do_token d" False] assms(2) w
      live_ops(6) [of "do_token d" False k] by simp_all
  with assms w show ?thesis
    by (auto simp: ke_set_event_def Let_def split: if_splits intro!: wake_object_inv sched_call_inv set_obj_mirrored_inv)
qed

lemma event_ops_safe:
  assumes "kr_inv k" "live k ob" "do_token d = event_token ob"
  shows "ke_reset_event ob d k = (p, k1) \<Longrightarrow> kr_inv k1" "nt_pulse_event ob d k = (p, k1) \<Longrightarrow> kr_inv k1"
  using assms by (auto simp: ke_reset_event_def nt_pulse_event_def intro!: wake_object_inv set_obj_mirrored_inv sched_call_inv)

lemma release_safe:
  assumes "kr_inv k" "live k ob" "do_token d = event_token ob"
  shows "release_mutant ob d k = (p, k1) \<Longrightarrow> kr_inv k1"
    "release_semaphore ob d n k = Some (p, k1) \<Longrightarrow> kr_inv k1"
  using assms by (auto simp: release_mutant_def release_semaphore_def Let_def split: if_splits
      intro!: header_inv wake_object_inv kr_inv_set_obj)

lemma abandon_inv [krnl_inv]: "kr_inv k \<Longrightarrow> kr_inv (abandon tok ob k)"
  using token_of [of k ob] by (auto simp: abandon_def live_def split: option.splits intro!: wake_object_inv set_obj_mirrored_inv)

lemma finish_thread_inv [krnl_inv]: "kr_inv k \<Longrightarrow> kr_inv (finish_thread_object ob k)"
  using token_of [of k ob] by (auto simp: finish_thread_object_def Let_def live_def split: option.splits
      intro!: wake_object_inv kr_inv_fold abandon_inv kr_inv_set_obj)

lemma abandon_live: "live (abandon tok ob k) = live k"
  by (auto simp: abandon_def live_def fun_eq_iff wake_object_heap krnl_heap split: option.splits if_splits)

lemma finish_thread_live: "live (finish_thread_object ob k) = live k"
proof -
  have "live (fold (abandon tok) obs k) = live k" for tok obs k
    by (induction obs arbitrary: k) (simp_all add: abandon_live)
  then show ?thesis by (auto simp: finish_thread_object_def Let_def fun_eq_iff live_def [of k] split: option.splits)
qed

section \<open>Handlers\<close>

lemma need_safe: "kr_inv k \<Longrightarrow> safe kr_inv (h args k) \<Longrightarrow> safe kr_inv (need n h args k)"
  by (simp add: need_def)

lemma dbg_safe: "kr_inv k \<Longrightarrow> safe kr_inv (DbgBreakPoint args k)" "kr_inv k \<Longrightarrow> safe kr_inv (DbgPrint fmt args k)"
  by (auto simp: DbgBreakPoint_def DbgPrint_def dbg_out_def Let_def intro!: kr_inv_logs)

lemma interlocked_safe: "kr_inv k \<Longrightarrow> safe kr_inv (interlocked f va k)"
  by (auto simp: interlocked_def poke_inv split: option.splits prod.splits)

lemma interlocked_handlers_safe:
  assumes "kr_inv k"
  shows "safe kr_inv (InterlockedIncrement args k)" "safe kr_inv (InterlockedDecrement args k)"
    "safe kr_inv (InterlockedExchange args k)" "safe kr_inv (InterlockedCompareExchange args k)"
    "safe kr_inv (InterlockedExchangeAdd args k)"
  using interlocked_safe [OF assms]
  by (simp_all add: InterlockedIncrement_def InterlockedDecrement_def InterlockedExchange_def
      InterlockedCompareExchange_def InterlockedExchangeAdd_def)

lemma time_handlers_safe:
  assumes "kr_inv k"
  shows "safe kr_inv (KeQueryPerformanceCounter args k)" "safe kr_inv (KeQueryPerformanceFrequency args k)"
    "safe kr_inv (KeQuerySystemTime args k)" "safe kr_inv (KeDelayExecutionThread args k)"
    "safe kr_inv (RtlTimeToTimeFields args k)"
  using assms write64_inv [OF assms, of "args ! 0" "kr_filetime k"]
  by (auto simp: KeQueryPerformanceCounter_def KeQueryPerformanceFrequency_def KeQuerySystemTime_def
      KeDelayExecutionThread_def RtlTimeToTimeFields_def Let_def sched_call_inv poke_inv split: prod.splits option.splits)

lemma init_event_safe:
  assumes "kr_inv k" shows "safe kr_inv (KeInitializeEvent args k)"
proof -
  define d0 where "d0 = new_object\<lparr>do_kind := KEvent, do_guest_va := args ! 0\<rparr>"
  obtain ob k1 where a: "alloc_obj d0 k = (ob, k1)" by fastforce
  let ?k = "k1\<lparr>kr_va_objects := kr_va_objects k1 @ [ob]\<rparr>"
  have k2: "kr_inv ?k" by (rule va_register_inv [OF assms a])
  have h: "kr_heap ?k ob = Some (d0\<lparr>do_token := event_token ob\<rparr>)" using alloc_obj_eq [OF a] by simp
  have init: "kr_inv (write_dispatcher_header (d\<lparr>ev_type := x, ev_signaled := y\<rparr>) (set_obj ob (d\<lparr>ev_type := x, ev_signaled := y\<rparr>) k))"
    if "kr_inv k" "kr_heap k ob = Some d" for k ob d x y
    using that token_of [OF that] by (auto simp: live_def intro!: header_inv kr_inv_set_obj)
  show ?thesis
    using assms lookup_live(2) [OF assms, of "args ! 0"] init [OF assms] init [OF k2 h] h a
    by (auto simp: KeInitializeEvent_def Let_def d0_def [symmetric] live_def split: option.splits)
qed

lemma event_handlers_safe:
  assumes "kr_inv k"
  shows "safe kr_inv (KeSetEvent args k)" "safe kr_inv (KeResetEvent args k)" "safe kr_inv (NtSetEvent args k)"
    "safe kr_inv (NtClearEvent args k)" "safe kr_inv (NtPulseEvent args k)" "safe kr_inv (NtCreateEvent args k)"
proof -
  note live = lookup_live [OF assms]
  show "safe kr_inv (KeSetEvent args k)" unfolding KeSetEvent_def
    by (rule on_object_safe [OF assms live(2)]) (auto dest: set_event_safe [OF assms] split: prod.splits)
  show "safe kr_inv (KeResetEvent args k)" unfolding KeResetEvent_def
    by (rule on_object_safe [OF assms live(2)]) (auto dest: event_ops_safe(1) [OF assms] split: prod.splits)
  show "safe kr_inv (NtSetEvent args k)" unfolding NtSetEvent_def
    by (rule on_object_safe [OF assms live(1)]) (auto dest: set_event_safe [OF assms] intro: poke_inv split: prod.splits)
  show "safe kr_inv (NtClearEvent args k)" unfolding NtClearEvent_def
    by (rule on_object_safe [OF assms live(1)]) (auto intro!: set_obj_mirrored_inv assms)
  show "safe kr_inv (NtPulseEvent args k)" unfolding NtPulseEvent_def
    by (rule on_object_safe [OF assms live(1)]) (auto dest: event_ops_safe(2) [OF assms] intro: poke_inv split: prod.splits)
  show "safe kr_inv (NtCreateEvent args k)" using assms by (simp add: NtCreateEvent_def create_pool_safe)
qed

lemma read_handles_live: "kr_inv k \<Longrightarrow> read_handles n va k = Some obs \<Longrightarrow> \<forall>ob\<in>set obs. live k ob"
  by (induction n va k arbitrary: obs rule: read_handles.induct) (auto split: option.splits dest: lookup_live(1))

lemma wait_handlers_safe:
  assumes "kr_inv k"
  shows "safe kr_inv (KeWaitForSingleObject args k)" "safe kr_inv (NtWaitForSingleObject args k)"
    "safe kr_inv (NtWaitForSingleObjectEx args k)" "safe kr_inv (NtWaitForMultipleObjectsEx args k)"
  using assms lookup_live [OF assms] read_handles_live [OF assms]
  by (auto simp: KeWaitForSingleObject_def NtWaitForSingleObject_def NtWaitForSingleObjectEx_def
      NtWaitForMultipleObjectsEx_def Let_def split: option.splits intro!: wait_export_safe wait_multiple_safe)

lemma new_mutant_safe: "kr_inv k \<Longrightarrow> new_mutant va i k = Some (m, k1) \<Longrightarrow> kr_inv k1"
  using current_token_inv [of k] by (auto simp: new_mutant_def Let_def split: if_splits prod.splits)

lemma mutant_handlers_safe:
  assumes "kr_inv k"
  shows "safe kr_inv (NtCreateMutant args k)" "safe kr_inv (KeInitializeMutant args k)"
    "safe kr_inv (NtReleaseMutant args k)" "safe kr_inv (NtQueryMutant args k)" "safe kr_inv (KeReleaseMutant args k)"
proof -
  note live = lookup_live [OF assms]
  show "safe kr_inv (NtCreateMutant args k)" "safe kr_inv (KeInitializeMutant args k)"
    using assms new_mutant_safe [OF assms]
    by (auto simp: NtCreateMutant_def KeInitializeMutant_def split: option.splits intro!: create_pool_safe create_at_va_safe)
  obtain tok k1 where t: "current_thread_token k = (tok, k1)" by fastforce
  have k1: "kr_inv k1" "\<And>x. live k x \<Longrightarrow> live k1 x"
    using current_token_inv [OF assms] current_token_live [OF assms] t by simp_all
  show "safe kr_inv (NtReleaseMutant args k)" unfolding NtReleaseMutant_def
  proof (rule on_object_safe [OF assms live(1)], goal_cases)
    case (2 ob d)
    with k1 release_safe(1) [OF k1(1) k1(2)] show ?case by (auto simp: t split: prod.splits intro: poke_inv)
  qed
  have q: "kr_inv (snd (current_thread_token (poke32 a v k)))" for a v using assms by (intro current_token_inv poke_inv)
  show "safe kr_inv (NtQueryMutant args k)" unfolding NtQueryMutant_def
  proof (rule on_object_safe [OF assms live(1)], goal_cases)
    case (2 ob d)
    show ?case using q [of "args ! 1" "word_of_int (mu_signal_state d)"] assms by (auto simp: Let_def poke_inv split: prod.splits)
  qed
  show "safe kr_inv (KeReleaseMutant args k)" unfolding KeReleaseMutant_def
    by (rule on_object_safe [OF assms live(2)]) (auto dest: release_safe(1) [OF assms] split: prod.splits)
qed

lemma semaphore_handlers_safe:
  assumes "kr_inv k"
  shows "safe kr_inv (NtCreateSemaphore args k)" "safe kr_inv (KeInitializeSemaphore args k)"
    "safe kr_inv (NtReleaseSemaphore args k)" "safe kr_inv (NtQuerySemaphore args k)" "safe kr_inv (KeReleaseSemaphore args k)"
proof -
  note live = lookup_live [OF assms]
  show "safe kr_inv (NtCreateSemaphore args k)" "safe kr_inv (KeInitializeSemaphore args k)"
    using assms by (simp_all add: NtCreateSemaphore_def KeInitializeSemaphore_def Let_def create_pool_safe create_at_va_safe)
  show "safe kr_inv (NtReleaseSemaphore args k)" unfolding NtReleaseSemaphore_def
    by (rule on_object_safe [OF assms live(1)])
      (use assms in \<open>auto dest: release_safe(2) [OF assms] intro: poke_inv split: option.splits prod.splits\<close>)
  show "safe kr_inv (NtQuerySemaphore args k)" unfolding NtQuerySemaphore_def
    by (rule on_object_safe [OF assms live(1)]) (use assms in \<open>auto intro: poke_inv\<close>)
  show "safe kr_inv (KeReleaseSemaphore args k)" unfolding KeReleaseSemaphore_def
    by (rule on_object_safe [OF assms live(2)])
      (use assms in \<open>auto dest: release_safe(2) [OF assms] split: option.splits prod.splits\<close>)
qed

section \<open>Threads\<close>

lemma spawn_inv:
  assumes "kr_inv k" "spawn_reserved mm nm c r (kr_sched k) = (f, s)"
    and "\<forall>h. mm h \<noteq> None" "length (gs_threads (kr_sched k)) + 2 < 2 ^ 64"
  shows "kr_inv (k\<lparr>kr_next_thread_id := n, kr_sched := s\<rparr>)"
proof -
  have "sched_wf s" using sched_wf_spawn [OF _ assms(2)] assms by (simp add: kr_inv_def sch_inv_def)
  moreover have "gs_current s = gs_current (kr_sched k)" "length (gs_threads (kr_sched k)) \<le> length (gs_threads s)"
    using assms(2) by (auto simp: spawn_reserved_def Let_def split: if_splits option.splits)
  ultimately have "sch_inv s" using kr_inv_sch [OF assms(1)] by (auto simp: sch_inv_def)
  then show ?thesis using assms(1) by (simp add: kr_inv_cong [of k])
qed

lemma create_thread_safe:
  assumes "kr_inv k" "\<forall>h. mm h \<noteq> None" "length (gs_threads (kr_sched k)) + 2 < 2 ^ 64"
  shows "safe kr_inv (PsCreateSystemThreadEx mm args k)"
proof -
  obtain f s where sp: "spawn_reserved mm ''systhread'' SysThread (ucast (args ! 3)) (kr_sched k) = (f, s)" by fastforce
  define k1 where "k1 = k\<lparr>kr_next_thread_id := kr_next_thread_id k + 2, kr_sched := s\<rparr>"
  have k1: "kr_inv k1" unfolding k1_def by (rule spawn_inv [OF assms(1) sp assms(2,3)])
  have fin: "kr_inv (opt_poke p h (poke32 q h (upd_obj ob (\<lambda>d. d\<lparr>th_object_handle := h\<rparr>) k3)))"
    if "alloc_obj d k1 = (ob, k2)" "insert_object ob k2 = (h, k3)" for d ob k2 h k3 p q
    using insert_inv [OF k1 that] by (intro poke_inv kr_inv_upd_obj) simp_all
  show ?thesis
    using assms(1) k1 fin by (auto simp: PsCreateSystemThreadEx_def Let_def sp k1_def [symmetric] split: prod.splits)
qed

lemma finish_hook_inv [krnl_inv]: "kr_inv k \<Longrightarrow> kr_inv (krnl_finish_hook h k)"
  by (simp add: krnl_finish_hook_def finish_thread_inv split: option.splits)

lemma exit_fiber_inv [krnl_inv]:
  assumes "kr_inv k" shows "kr_inv (exit_fiber t code k)"
proof -
  have up: "sch_inv s \<Longrightarrow> sch_inv (upd_thread t (\<lambda>g. g\<lparr>gt_exit_code := code, gt_state := Finished, gt_ctx := Ended\<rparr>) s)" for s
    by (auto simp: sch_inv_def sched_simps intro!: sched_wf_upd)
  have sw: "sch_inv s \<Longrightarrow> sch_inv (switch_to_scheduler s)" for s
    by (auto simp: sch_inv_def sched_simps intro!: sched_wf_switch)
  have "kr_inv (k\<lparr>kr_sched := upd_thread t (\<lambda>g. g\<lparr>gt_exit_code := code, gt_state := Finished, gt_ctx := Ended\<rparr>) (kr_sched k)\<rparr>)"
    using assms by (intro kr_inv_sched up kr_inv_sch)
  then have "kr_inv (fold (\<lambda>h k. if h = KrnlFinish then krnl_finish_hook (gt_handle (gs_threads (kr_sched k) ! t)) k else k)
    hs (k\<lparr>kr_sched := upd_thread t (\<lambda>g. g\<lparr>gt_exit_code := code, gt_state := Finished, gt_ctx := Ended\<rparr>) (kr_sched k)\<rparr>))" for hs
    by (rule kr_inv_fold [rotated]) (simp add: finish_hook_inv)
  then show ?thesis unfolding exit_fiber_def Let_def by (intro kr_inv_sched sw kr_inv_sch)
qed

lemma deref_found:
  "kr_inv k \<Longrightarrow> find_thread (kr_sched k) h = Some t \<Longrightarrow> \<exists>g. deref (kr_sched k) t = Some g"
  using find_thread_valid [of "kr_sched k" h t] by (simp add: kr_inv_def sch_inv_def deref_def)

lemma terminate_safe:
  "kr_inv k \<Longrightarrow> safe kr_inv (PsTerminateSystemThread args k)"
  using deref_found [OF finish_thread_inv]
  by (fastforce simp: PsTerminateSystemThread_def Let_def finish_thread_inv exit_fiber_inv split: option.splits)

lemma close_safe:
  assumes "kr_inv k" shows "safe kr_inv (NtClose args k)"
proof (cases "find_object_by_handle k (args ! 0)")
  case None then show ?thesis using assms by (simp add: NtClose_def)
next
  case (Some ob)
  define slot where "slot = unat (args ! 0 div 4 - 1)"
  have sl: "slot < length (kr_objects k)" "kr_objects k ! slot = Some ob"
    using Some by (auto simp: find_object_by_handle_def Let_def slot_def not_le split: if_splits)
  define k' where "k' = k\<lparr>kr_heap := (kr_heap k)(ob := None), kr_objects := (kr_objects k)[slot := None],
    kr_free_slots := slot # kr_free_slots k\<rparr>"
  have ri: "reg_inv k" using assms by (simp add: kr_inv_def)
  have m: "mset (registered k) = mset (ob # registered k')"
    using mset_live_remove [OF sl] by (simp add: registered_def live_objects_def k'_def)
  have "distinct (ob # registered k')" using mset_eq_imp_distinct_iff [OF m] ri by (simp add: reg_inv_def)
  moreover have "set (registered k) = insert ob (set (registered k'))" using mset_eq_setD [OF m] by simp
  moreover have "slot \<notin> set (kr_free_slots k)" using ri sl by (auto simp: reg_inv_def)
  moreover have "insert slot (set (kr_free_slots k)) =
    {i. i < length (kr_objects k) \<and> (kr_objects k)[slot := None] ! i = None}"
  proof -
    have fs: "set (kr_free_slots k) = {i. i < length (kr_objects k) \<and> kr_objects k ! i = None}"
      using ri by (simp add: reg_inv_def)
    show ?thesis unfolding fs using sl(1) by (auto simp: nth_list_update)
  qed
  ultimately have "reg_inv k'" using ri by (auto simp: reg_inv_def k'_def)
  moreover have "mm_inv k' = mm_inv k" by (rule mm_inv_cong) (simp_all add: k'_def)
  ultimately have "kr_inv k'" using assms by (simp add: kr_inv_def k'_def)
  then show ?thesis by (simp add: NtClose_def Some Let_def slot_def [symmetric] k'_def)
qed

lemma resume_thread_safe:
  assumes "kr_inv k" "live k ob" "do_token d = event_token ob" "resume_thread ob d k = (p, k1)"
  shows "kr_inv k1"
  using assms by (auto simp: resume_thread_def Let_def split: if_splits intro!: sched_call_inv kr_inv_set_obj)

lemma suspend_thread_safe:
  assumes "kr_inv k" "live k ob" "do_token d = event_token ob" "\<And>p k'. kr_inv k' \<Longrightarrow> safe kr_inv (f p k')"
  shows "safe kr_inv (suspend_thread ob d kt f k)"
proof -
  obtain tok k1 where t: "current_thread_token k = (tok, k1)" by fastforce
  have "kr_inv k1" "live k1 ob" using current_token_inv [OF assms(1)] current_token_live [OF assms(1,2)] t by simp_all
  then have "kr_inv (set_obj ob (d\<lparr>th_suspend_count := n\<rparr>) k1)" for n using assms(3) by (simp add: kr_inv_set_obj)
  with \<open>kr_inv k1\<close> assms(4) show ?thesis by (simp add: suspend_thread_def t Let_def sched_call_inv)
qed

lemma thread_handlers_safe:
  assumes "kr_inv k"
  shows "safe kr_inv (KeGetCurrentThread args k)" "safe kr_inv (KeSetBasePriorityThread args k)"
    "safe kr_inv (NtResumeThread args k)" "safe kr_inv (KeResumeThread args k)"
    "safe kr_inv (NtSuspendThread args k)" "safe kr_inv (KeSuspendThread args k)" "safe kr_inv (NtYieldExecution args k)"
proof -
  note live = lookup_live [OF assms]
  show "safe kr_inv (KeGetCurrentThread args k)"
    using current_token_inv [OF assms] by (auto simp: KeGetCurrentThread_def split: prod.splits)
  show "safe kr_inv (KeSetBasePriorityThread args k)" unfolding KeSetBasePriorityThread_def
    by (rule on_object_safe [OF assms live(3)]) (use assms in \<open>auto intro: kr_inv_set_obj\<close>)
  show "safe kr_inv (NtResumeThread args k)" unfolding NtResumeThread_def
    by (rule on_object_safe [OF assms live(1)]) (auto dest: resume_thread_safe [OF assms] intro: poke_inv split: prod.splits)
  show "safe kr_inv (KeResumeThread args k)" unfolding KeResumeThread_def
    by (rule on_object_safe [OF assms live(3)]) (auto dest: resume_thread_safe [OF assms] split: prod.splits)
  show "safe kr_inv (NtSuspendThread args k)" unfolding NtSuspendThread_def
    by (rule on_object_safe [OF assms live(1)]) (auto intro!: suspend_thread_safe [OF assms] poke_inv)
  show "safe kr_inv (KeSuspendThread args k)" unfolding KeSuspendThread_def
    by (rule on_object_safe [OF assms live(3)]) (auto intro!: suspend_thread_safe [OF assms])
  have "sch_inv (thread_yield t (upd_thread t (\<lambda>g. g\<lparr>gt_ctx := c\<rparr>) (kr_sched k)))" for t c
    using kr_inv_sch [OF assms] by (auto simp: sch_inv_def thread_yield_def sched_simps intro!: sched_wf_switch sched_wf_upd)
  then show "safe kr_inv (NtYieldExecution args k)"
    using assms deref_found [OF assms] by (fastforce simp: NtYieldExecution_def kr_inv_sched split: option.splits)
qed

section \<open>Memory and critical sections\<close>

lemma kr_inv_mm:
  assumes "kr_inv k" "mm_inv k'" "kr_heap k' = kr_heap k" "kr_next_obj k' = kr_next_obj k" "kr_objects k' = kr_objects k"
    "kr_free_slots k' = kr_free_slots k" "kr_va_objects k' = kr_va_objects k" "kr_fiber_threads k' = kr_fiber_threads k"
    "kr_sched k' = kr_sched k"
  shows "kr_inv k'"
  using assms by (auto simp: kr_inv_def reg_inv_def registered_def live_objects_def)

lemma mm_alloc_regs:
  "mm_alloc sz lo hi al pr k = Some (va, k') \<Longrightarrow> kr_heap k' = kr_heap k \<and> kr_next_obj k' = kr_next_obj k \<and>
     kr_objects k' = kr_objects k \<and> kr_free_slots k' = kr_free_slots k \<and> kr_va_objects k' = kr_va_objects k \<and>
     kr_fiber_threads k' = kr_fiber_threads k \<and> kr_sched k' = kr_sched k"
  by (auto simp: mm_alloc_def mm_commit_def Let_def split: option.splits prod.splits if_splits)

lemma mm_alloc_safe:
  assumes "kr_inv k"
  shows "\<exists>va k'. mm_alloc sz lo hi al pr k = Some (va, k') \<and> kr_inv k'"
proof -
  have m: "mm_inv k" using assms by (simp add: kr_inv_def)
  from mm_alloc_effect [OF m, of sz lo hi al pr] obtain va k'
    where "mm_alloc sz lo hi al pr k = Some (va, k')" "mm_inv k'" by blast
  with mm_alloc_regs [of sz lo hi al pr k va k'] kr_inv_mm [OF assms] show ?thesis by blast
qed

lemma mm_free_safe: "kr_inv k \<Longrightarrow> mm_free va k = (b, k') \<Longrightarrow> kr_inv k'"
proof -
  assume k: "kr_inv k" and f: "mm_free va k = (b, k')"
  have "mm_inv k'" using mm_inv_free [OF _ f] k by (simp add: kr_inv_def)
  then show "kr_inv k'"
    by (rule kr_inv_mm [OF k]) (use f in \<open>auto simp: mm_free_def split: option.splits prod.splits\<close>)
qed

lemma memory_handlers_safe:
  assumes "kr_inv k"
  shows "safe kr_inv (MmAllocateContiguousMemory args k)" "safe kr_inv (MmAllocateContiguousMemoryEx args k)"
    "safe kr_inv (MmFreeContiguousMemory args k)" "safe kr_inv (MmQueryAllocationSize args k)"
    "safe kr_inv (RtlZeroMemory args k)" "safe kr_inv (RtlFillMemory args k)" "safe kr_inv (RtlMoveMemory args k)"
proof -
  show "safe kr_inv (MmAllocateContiguousMemory args k)"
    using mm_alloc_safe [OF assms, of "args ! 0" 0 0 0 kPageReadWrite] by (auto simp: MmAllocateContiguousMemory_def)
  show "safe kr_inv (MmAllocateContiguousMemoryEx args k)"
    using mm_alloc_safe [OF assms, of "args ! 0" "args ! 1" "args ! 2" "args ! 3" "args ! 4"]
    by (auto simp: MmAllocateContiguousMemoryEx_def)
  show "safe kr_inv (MmFreeContiguousMemory args k)"
    using mm_free_safe [OF assms] by (auto simp: MmFreeContiguousMemory_def split: prod.splits)
qed (use assms in \<open>simp_all add: MmQueryAllocationSize_def RtlZeroMemory_def RtlFillMemory_def fill_memory_def
      RtlMoveMemory_def Let_def kr_inv_mem\<close>)

lemma void_status_safe: "safe kr_inv (void_status r) = kr_inv (snd r)"
  by (simp add: void_status_def split: prod.splits)

lemma enter_round_safe: "kr_inv k \<Longrightarrow> safe kr_inv (enter_round va k)"
  by (auto simp: enter_round_def cs_enter_def Let_def void_status_safe poke_inv sched_call_inv split: option.splits)

lemma cs_handlers_safe:
  assumes "kr_inv k"
  shows "safe kr_inv (RtlInitializeCriticalSection args k)" "safe kr_inv (RtlEnterCriticalSection args k)"
    "safe kr_inv (RtlLeaveCriticalSection args k)" "safe kr_inv (RtlTryEnterCriticalSection args k)"
proof -
  show "safe kr_inv (RtlInitializeCriticalSection args k)"
    using assms by (simp add: RtlInitializeCriticalSection_def cs_init_def void_status_safe poke_inv header_inv)
  show "safe kr_inv (RtlEnterCriticalSection args k)"
    using assms by (simp add: RtlEnterCriticalSection_def enter_round_safe)
  show "safe kr_inv (RtlLeaveCriticalSection args k)"
    using assms by (auto simp: RtlLeaveCriticalSection_def cs_leave_def Let_def void_status_safe poke_inv sched_call_inv
        split: option.splits)
  show "safe kr_inv (RtlTryEnterCriticalSection args k)"
    using assms by (auto simp: RtlTryEnterCriticalSection_def cs_try_enter_def Let_def poke_inv split: option.splits)
qed

end
