(* ===== verification/Krnl_Wake.thy ===== *)
theory Krnl_Wake
  imports Krnl_Safe
begin

text \<open>
  Waking: the interface of a wait channel (a signal releases the first waiter, or all of them), its
  client, the release of several units, and what setting an event and releasing a semaphore or a
  mutant do to the waiters and to the object.
\<close>

section \<open>Wait channels\<close>

locale wait_channel =
  fixes waiters :: "'s \<Rightarrow> u64 \<Rightarrow> nat list"
    and sig :: "u64 \<Rightarrow> bool \<Rightarrow> 's \<Rightarrow> u64 \<times> 's"
  assumes sig_one: "sig tok False s = (n, s') \<Longrightarrow> waiters s' tok = tl (waiters s tok) \<and> (n = 0 \<longleftrightarrow> waiters s tok = [])"
    and sig_all: "sig tok True s = (n, s') \<Longrightarrow> waiters s' tok = []"
    and sig_other: "sig tok al s = (n, s') \<Longrightarrow> tok' \<noteq> tok \<Longrightarrow> waiters s' tok' = waiters s tok'"
begin

text \<open>Release units one by one until nobody waits.\<close>

primrec units :: "nat \<Rightarrow> u64 \<Rightarrow> 's \<Rightarrow> 's" where
  "units 0 tok s = s"
| "units (Suc n) tok s = (case sig tok False s of (woken, s') \<Rightarrow> if woken = 0 then s' else units n tok s')"

lemma units_drop: "waiters (units n tok s) tok = drop n (waiters s tok)"
proof (induction n arbitrary: s)
  case (Suc n)
  obtain w s' where w: "sig tok False s = (w, s')" by fastforce
  then show ?case using sig_one [OF w] Suc [of s'] by (auto simp: drop_Suc)
qed simp

lemma units_other: "tok' \<noteq> tok \<Longrightarrow> waiters (units n tok s) tok' = waiters s tok'"
proof (induction n arbitrary: s)
  case (Suc n)
  obtain w s' where w: "sig tok False s = (w, s')" by fastforce
  with sig_other [OF w Suc.prems] Suc show ?case by simp
qed simp

lemma sig_fold:
  "tok \<notin> set ts \<Longrightarrow> waiters (fold (\<lambda>t s. snd (sig t False s)) ts s) tok = waiters s tok"
proof (induction ts arbitrary: s)
  case (Cons t ts)
  obtain w s' where w: "sig t False s = (w, s')" by fastforce
  with sig_other [OF w, of tok] Cons show ?case by auto
qed simp

end

section \<open>The scheduler is one\<close>

text \<open>The threads that wait on a token, in the order in which they are released.\<close>

definition positions :: "('a \<Rightarrow> bool) \<Rightarrow> 'a list \<Rightarrow> nat list" where
  "positions P xs = filter (\<lambda>i. P (xs ! i)) [0..<length xs]"

definition waiters_of :: "'c guest_scheduler \<Rightarrow> u64 \<Rightarrow> nat list" where
  "waiters_of s tok = positions (waits_on tok) (gs_threads s)"

lemma positions_simps [simp]:
  "positions P [] = []" "positions P (x # xs) = (if P x then [0] else []) @ map Suc (positions P xs)"
proof -
  have "[0..<length (x # xs)] = 0 # map Suc [0..<length xs]" by (simp add: upt_conv_Cons map_Suc_upt del: upt_Suc)
  then show "positions P (x # xs) = (if P x then [0] else []) @ map Suc (positions P xs)"
    unfolding positions_def by (simp add: filter_map comp_def)
qed (simp add: positions_def)

lemma waits_on_wake [simp]: "waits_on tok (wake g) = False"
  by (simp add: waits_on_def wake_def)

lemma signal_list_waiters:
  assumes "signal_list tok al gs = (n, gs')"
  shows "positions (waits_on tok) gs' = (if al then [] else tl (positions (waits_on tok) gs)) \<and>
    (\<not> al \<longrightarrow> (n = 0 \<longleftrightarrow> positions (waits_on tok) gs = [])) \<and>
    (tok' \<noteq> tok \<longrightarrow> positions (waits_on tok') gs' = positions (waits_on tok') gs)"
  using assms
proof (induction gs arbitrary: n gs')
  case (Cons g gs)
  obtain m hs where hs: "signal_list tok al gs = (m, hs)" by fastforce
  note IH = Cons.IH [OF hs]
  have tl_map: "tl (map Suc xs) = map Suc (tl xs)" for xs by (cases xs) auto
  have other: "waits_on tok g \<Longrightarrow> tok' \<noteq> tok \<Longrightarrow> \<not> waits_on tok' g" by (simp add: waits_on_def)
  show ?case using Cons.prems hs IH other by (cases "waits_on tok g"; cases al) (auto simp: tl_map)
qed simp

lemma signal_waiters:
  assumes "signal tok al s = (n, s')"
  shows "waiters_of s' tok = (if al then [] else tl (waiters_of s tok)) \<and>
    (\<not> al \<longrightarrow> (n = 0 \<longleftrightarrow> waiters_of s tok = [])) \<and> (tok' \<noteq> tok \<longrightarrow> waiters_of s' tok' = waiters_of s tok')"
  using assms signal_list_waiters [of tok al "gs_threads s"] by (auto simp: signal_def waiters_of_def split: prod.splits)

interpretation sch: wait_channel waiters_of signal
  by unfold_locales (use signal_waiters in \<open>fastforce+\<close>)

text \<open>And so is the kernel.\<close>

definition kwaiters :: "krnl \<Rightarrow> u64 \<Rightarrow> nat list" where
  "kwaiters k = waiters_of (kr_sched k)"

lemma krnl_signal_sched: "krnl_signal tok al k = (n, k') \<Longrightarrow> signal tok al (kr_sched k) = (n, kr_sched k')"
  by (auto simp: krnl_signal_def split: prod.splits)

interpretation kch: wait_channel kwaiters krnl_signal
  by unfold_locales (auto simp: kwaiters_def dest!: krnl_signal_sched dest: sch.sig_one sch.sig_all sch.sig_other)

lemma signal_units_units: "signal_units n tok k = kch.units n tok k"
  by (induction n arbitrary: k) (auto split: prod.splits)

section \<open>Waking an object\<close>

lemma sched_frames [simp]:
  "kr_sched (poke32 va v k) = kr_sched k" "kr_sched (set_obj ob d k) = kr_sched k"
  "kr_sched (upd_obj ob f k) = kr_sched k" "kr_sched (write_signal_state d k) = kr_sched k"
  "kr_sched (set_obj_mirrored ob d k) = kr_sched k"
  by (simp_all add: poke32_def set_obj_def upd_obj_def write_signal_state_def set_obj_mirrored_def)

lemma kwaiters_frames [simp]:
  "kwaiters (poke32 va v k) = kwaiters k" "kwaiters (set_obj ob d k) = kwaiters k"
  "kwaiters (upd_obj ob f k) = kwaiters k" "kwaiters (write_signal_state d k) = kwaiters k"
  "kwaiters (set_obj_mirrored ob d k) = kwaiters k"
  by (simp_all add: kwaiters_def)

lemma wake_object_waiters:
  assumes "kr_heap k ob = Some d"
  shows "do_token d \<notin> set (do_mw_waiters d) \<Longrightarrow> kwaiters (wake_object ob n k) (do_token d) = drop n (kwaiters k (do_token d))"
    "tok \<noteq> do_token d \<Longrightarrow> tok \<notin> set (do_mw_waiters d) \<Longrightarrow> kwaiters (wake_object ob n k) tok = kwaiters k tok"
  using assms by (simp_all add: wake_object_def kch.sig_fold signal_units_units kch.units_drop kch.units_other)

definition demo_krnl :: krnl where
  "demo_krnl = (demo_pool (snd (spawn (\<lambda>_. Some 0) ''a'' GuestCode GuestScheduler)))
     \<lparr>kr_heap := [0 \<mapsto> new_object\<lparr>do_kind := KSemaphore, do_token := event_token 0, se_count := 1, se_limit := 5\<rparr>,
        1 \<mapsto> new_object\<lparr>do_kind := KEvent, do_token := event_token 1, ev_type := kEventSync\<rparr>,
        2 \<mapsto> new_object\<lparr>do_kind := KMutant, do_token := event_token 2, mu_owner := 3, mu_signal_state := -1\<rparr>,
        3 \<mapsto> new_object\<lparr>do_kind := KThread, do_token := event_token 3, th_thread_id := 3, th_running := True\<rparr>],
      kr_next_obj := 4, kr_objects := [Some 0, Some 1, Some 2, Some 3], kr_next_thread_id := 5\<rparr>"

text \<open>(C20) Setting an event. A notification event stays signaled and releases every
  waiter. A synchronization event releases exactly the first waiter and stays reset, or becomes
  signaled when nobody waits. The previous state is returned, and threads waiting on another
  channel (and not registered with the event by a multiple wait) are not disturbed.\<close>

theorem event_set_semantics:
  assumes "kr_heap k ob = Some d" "do_token d \<notin> set (do_mw_waiters d)" "ke_set_event ob d k = (prev, k')"
  shows "prev = (if ev_signaled d then 1 else 0) \<and>
    kr_heap k' ob = Some (d\<lparr>do_mw_waiters := [], ev_signaled := (ev_type d = kEventNotify \<or> kwaiters k (do_token d) = [])\<rparr>) \<and>
    kwaiters k' (do_token d) = (if ev_type d = kEventNotify then [] else tl (kwaiters k (do_token d))) \<and>
    (\<forall>tok. tok \<noteq> do_token d \<and> tok \<notin> set (do_mw_waiters d) \<longrightarrow> kwaiters k' tok = kwaiters k tok)"
proof (cases "ev_type d = kEventNotify")
  case True
  define k1 where "k1 = set_obj_mirrored ob (d\<lparr>ev_signaled := True\<rparr>) k"
  obtain n k2 where s: "krnl_signal (do_token d) True k1 = (n, k2)" by fastforce
  have "kr_heap k2 = kr_heap k1" using sched_call_heap(1) [of "do_token d" True k1] s by simp
  then have h: "kr_heap k2 ob = Some (d\<lparr>ev_signaled := True\<rparr>)" by (simp add: k1_def krnl_heap)
  have w: "kwaiters k2 (do_token d) = []" "\<And>tok. tok \<noteq> do_token d \<Longrightarrow> kwaiters k2 tok = kwaiters k tok"
    using kch.sig_all [OF s] kch.sig_other [OF s] by (simp_all add: k1_def)
  have "k' = wake_object ob 0 k2" "prev = (if ev_signaled d then 1 else 0)"
    using assms(3) True s by (simp_all add: ke_set_event_def Let_def k1_def)
  with wake_object_waiters(2) [OF h, of _ 0] wake_object_waiters(1) [OF h, of 0] w h assms(2) True show ?thesis
    by (simp add: wake_object_heap)
next
  case False
  obtain n k1 where s: "krnl_signal (do_token d) False k = (n, k1)" by fastforce
  define k2 where "k2 = set_obj_mirrored ob (d\<lparr>ev_signaled := (n = 0)\<rparr>) k1"
  have h: "kr_heap k2 ob = Some (d\<lparr>ev_signaled := (n = 0)\<rparr>)" by (simp add: k2_def krnl_heap)
  have w: "kwaiters k2 (do_token d) = tl (kwaiters k (do_token d))" "n = 0 \<longleftrightarrow> kwaiters k (do_token d) = []"
    "\<And>tok. tok \<noteq> do_token d \<Longrightarrow> kwaiters k2 tok = kwaiters k tok"
    using kch.sig_one [OF s] kch.sig_other [OF s] by (simp_all add: k2_def)
  have "k' = wake_object ob 0 k2" "prev = (if ev_signaled d then 1 else 0)"
    using assms(3) False s by (simp_all add: ke_set_event_def Let_def k2_def)
  with wake_object_waiters(2) [OF h, of _ 0] wake_object_waiters(1) [OF h, of 0] w h assms(2) False show ?thesis
    by (simp add: wake_object_heap)
qed

theorem event_set_semantics_witness:
  "\<exists>d p k'. kr_heap demo_krnl 1 = Some d \<and> ke_set_event 1 d demo_krnl = (p, k') \<and> p = 0 \<and>
     map_option ev_signaled (kr_heap k' 1) = Some True"
proof -
  let ?d = "new_object\<lparr>do_kind := KEvent, do_token := event_token 1, ev_type := kEventSync\<rparr>"
  have h: "kr_heap demo_krnl 1 = Some ?d" by (simp add: demo_krnl_def demo_pool_def)
  have m: "do_token ?d \<notin> set (do_mw_waiters ?d)" by (simp add: new_object_def)
  have none: "kwaiters demo_krnl (event_token 1) = []"
    by (simp add: kwaiters_def waiters_of_def demo_krnl_def demo_pool_def spawn_def spawn_reserved_def GuestScheduler_def
        Let_def waits_on_def kStackSize_def kMinUsable_def)
  obtain p k' where e: "ke_set_event 1 ?d demo_krnl = (p, k')" by fastforce
  from event_set_semantics [OF h m e] none have "p = 0" "map_option ev_signaled (kr_heap k' 1) = Some True"
    by (simp_all add: new_object_def)
  with h e show ?thesis by blast
qed

text \<open>(C22) Releasing a semaphore. A release that is not positive or would exceed
  the limit is rejected. Otherwise the count grows by the released units and stays within the
  limit, the previous count is returned, and exactly the first \<open>rel\<close> waiting threads (fewer when fewer
  wait) are released, in order; nobody else is.\<close>

theorem semaphore_release_exact:
  assumes "kr_heap k ob = Some d" "do_token d \<notin> set (do_mw_waiters d)" "0 \<le> se_count d" "se_count d \<le> se_limit d"
    "se_limit d < 2 ^ 31" "rel < 2 ^ 31"
  shows "case release_semaphore ob d rel k of
      None \<Rightarrow> rel \<le> 0 \<or> se_count d + rel > se_limit d
    | Some (prev, k') \<Rightarrow> 0 < rel \<and> se_count d + rel \<le> se_limit d \<and> prev = se_count d \<and>
        kr_heap k' ob = Some (d\<lparr>se_count := se_count d + rel, do_mw_waiters := []\<rparr>) \<and>
        kwaiters k' (do_token d) = drop (nat rel) (kwaiters k (do_token d)) \<and>
        (\<forall>tok. tok \<noteq> do_token d \<and> tok \<notin> set (do_mw_waiters d) \<longrightarrow> kwaiters k' tok = kwaiters k tok)"
proof (cases "rel \<le> 0 \<or> se_count d > se_limit d - rel")
  case True then show ?thesis by (auto simp: release_semaphore_def)
next
  case False
  let ?d = "d\<lparr>se_count := se_count d + rel\<rparr>"
  have "min rel (se_count d + rel) = rel" using assms(3) by simp
  then have u: "nat (min rel (se_count d + rel) mod 2 ^ 32) = nat rel" using assms(6) False by (simp add: mod_pos_pos_trivial)
  have h: "kr_heap (set_obj ob ?d k) ob = Some ?d" by (simp add: krnl_heap)
  from wake_object_waiters(2) [OF h, of _ "nat rel"] wake_object_waiters(1) [OF h, of "nat rel"] assms(2) False u show ?thesis
    by (simp add: release_semaphore_def Let_def krnl_heap wake_object_heap)
qed

theorem semaphore_release_exact_witness:
  "\<exists>d k'. kr_heap demo_krnl 0 = Some d \<and> release_semaphore 0 d 4 demo_krnl = Some (1, k') \<and>
     release_semaphore 0 d 5 demo_krnl = None"
proof -
  let ?d = "new_object\<lparr>do_kind := KSemaphore, do_token := event_token 0, se_count := 1, se_limit := 5\<rparr>"
  have h: "kr_heap demo_krnl 0 = Some ?d" by (simp add: demo_krnl_def demo_pool_def)
  have m: "do_token ?d \<notin> set (do_mw_waiters ?d)" by (simp add: new_object_def)
  from semaphore_release_exact [OF h m, where rel = 4] semaphore_release_exact [OF h m, where rel = 5] h show ?thesis
    by (auto split: option.splits)
qed

end
