(* ===== verification/Krnl_Lock.thy ===== *)
theory Krnl_Lock
  imports Krnl_Wake
begin

text \<open>
  Mutants as recursive locks: the specification is a lock that is free or held by a thread to a
  depth, and acquiring and releasing a mutant implement it. The end of a thread frees exactly the
  mutants it owned and marks them abandoned.
\<close>

section \<open>Specification\<close>

type_synonym lock = "(u32 \<times> nat) option"

definition lock_available :: "u32 \<Rightarrow> lock \<Rightarrow> bool" where
  "lock_available tok l = (case l of None \<Rightarrow> True | Some (o', n) \<Rightarrow> o' = tok)"

definition lock_acquire :: "u32 \<Rightarrow> lock \<Rightarrow> lock" where
  "lock_acquire tok l = (case l of None \<Rightarrow> Some (tok, 1) | Some (o', n) \<Rightarrow> Some (tok, n + 1))"

definition lock_release :: "lock \<Rightarrow> lock" where
  "lock_release l = (case l of None \<Rightarrow> None | Some (o', n) \<Rightarrow> if n \<le> 1 then None else Some (o', n - 1))"

section \<open>Abstraction\<close>

definition mutant_wf :: "dispatcher_object \<Rightarrow> bool" where
  "mutant_wf d \<longleftrightarrow> do_kind d = KMutant \<and> mu_signal_state d \<le> 1 \<and> (mu_owner d = 0 \<longleftrightarrow> mu_signal_state d = 1)"

definition mutant_abs :: "dispatcher_object \<Rightarrow> lock" where
  "mutant_abs d = (if mu_owner d = 0 then None else Some (mu_owner d, nat (1 - mu_signal_state d)))"

text \<open>\<open>tok\<close> is the identity of the calling fiber.\<close>

lemma satisfied_lock:
  assumes "mutant_wf d" "current_thread_token k = (tok, k1)" "dispatcher_satisfied d k = (sat, k2)"
  shows "sat = lock_available tok (mutant_abs d)"
  using assms by (auto simp: dispatcher_satisfied_def mutant_wf_def lock_available_def mutant_abs_def split: if_splits)

lemma acquire_lock:
  assumes wf: "mutant_wf d" and tok: "current_thread_token k = (tok, k1)" "tok \<noteq> 0"
    and av: "lock_available tok (mutant_abs d)" and acq: "dispatcher_acquire ob d k = (st, k2)"
  shows "\<exists>d'. kr_heap k2 ob = Some d' \<and> mutant_wf d' \<and> \<not> mu_abandoned d' \<and> do_token d' = do_token d \<and>
    mutant_abs d' = lock_acquire tok (mutant_abs d) \<and> st = (if mu_abandoned d then kStatusAbandoned else kStatusSuccess)"
proof -
  let ?d = "d\<lparr>mu_signal_state := mu_signal_state d - 1, mu_owner := tok, mu_abandoned := False\<rparr>"
  have k: "kr_heap k2 ob = Some ?d" "st = (if mu_abandoned d then kStatusAbandoned else kStatusSuccess)"
    using acq wf tok by (auto simp: dispatcher_acquire_def mutant_wf_def Let_def krnl_heap split: if_splits)
  have "mutant_wf ?d" using wf tok(2) by (auto simp: mutant_wf_def)
  moreover have "mutant_abs ?d = lock_acquire tok (mutant_abs d)"
    using wf tok(2) av by (auto simp: mutant_abs_def lock_acquire_def mutant_wf_def lock_available_def split: if_splits)
  ultimately show ?thesis using k by simp
qed

lemma release_lock:
  assumes wf: "mutant_wf d" and own: "mu_owner d \<noteq> 0" and rel: "release_mutant ob d k = (prev, k')"
  shows "\<exists>d'. kr_heap k' ob = Some d' \<and> mutant_wf d' \<and> mutant_abs d' = lock_release (mutant_abs d) \<and>
    prev = mu_signal_state d"
proof (cases "mu_signal_state d = 0")
  case True
  then have "kr_heap k' ob = Some (d\<lparr>mu_signal_state := 1, mu_owner := 0, do_mw_waiters := []\<rparr>)" "prev = mu_signal_state d"
    using rel by (auto simp: release_mutant_def Let_def krnl_heap wake_object_heap)
  then show ?thesis using wf own True by (auto simp: mutant_wf_def mutant_abs_def lock_release_def)
next
  case False
  then have neg: "mu_signal_state d < 0" using wf own by (auto simp: mutant_wf_def)
  then have "kr_heap k' ob = Some (d\<lparr>mu_signal_state := mu_signal_state d + 1\<rparr>)" "prev = mu_signal_state d"
    using rel by (auto simp: release_mutant_def Let_def krnl_heap)
  then show ?thesis using wf own neg by (auto simp: mutant_wf_def mutant_abs_def lock_release_def)
qed

text \<open>A last release lets the first waiter go, an inner one nobody.\<close>

lemma release_wakes:
  assumes "kr_heap k ob = Some d0" "release_mutant ob d k = (prev, k')" "do_token d \<notin> set (do_mw_waiters d)"
  shows "kwaiters k' (do_token d) = (if mu_signal_state d = 0 \<or> mu_signal_state d > 0
    then drop 1 (kwaiters k (do_token d)) else kwaiters k (do_token d))"
proof -
  let ?d = "d\<lparr>mu_signal_state := mu_signal_state d + 1, mu_owner := 0\<rparr>"
  have h: "kr_heap (set_obj ob ?d k) ob = Some ?d" by (simp add: krnl_heap)
  from wake_object_waiters(1) [OF h, of 1] assms show ?thesis
    by (auto simp: release_mutant_def Let_def split: if_splits)
qed

section \<open>Properties\<close>


text \<open>The demonstration kernel with its first fiber running.\<close>

definition demo_fiber :: krnl where
  "demo_fiber = demo_krnl\<lparr>kr_sched := (kr_sched demo_krnl)\<lparr>gs_current := Some 0\<rparr>\<rparr>"

lemma demo_fiber_token: "fst (current_thread_token demo_fiber) = 5"
  by (simp add: demo_fiber_def current_thread_token_def ensure_thread_object_def alloc_obj_def demo_krnl_def demo_pool_def
      current_handle_def spawn_def spawn_reserved_def GuestScheduler_def Let_def kStackSize_def kMinUsable_def new_object_def)


section \<open>The end of a thread\<close>

definition abandoned :: "dispatcher_object \<Rightarrow> dispatcher_object" where
  "abandoned d = d\<lparr>mu_abandoned := True, mu_signal_state := 1, mu_owner := 0, do_mw_waiters := []\<rparr>"

definition owned_by :: "u32 \<Rightarrow> dispatcher_object \<Rightarrow> bool" where
  "owned_by tok d \<longleftrightarrow> do_kind d = KMutant \<and> mu_owner d = tok"

lemma abandoned_idem [simp]: "abandoned (abandoned d) = abandoned d"
  by (simp add: abandoned_def)

lemma abandon_heap:
  "kr_heap (abandon tok ob k) =
     (kr_heap k)(ob := map_option (\<lambda>d. if owned_by tok d then abandoned d else d) (kr_heap k ob))"
  by (auto simp: abandon_def owned_by_def abandoned_def wake_object_heap krnl_heap fun_upd_idem split: option.splits)

lemma fold_abandon_heap:
  assumes "tok \<noteq> 0"
  shows "kr_heap (fold (abandon tok) obs k) x =
    (if x \<in> set obs then map_option (\<lambda>d. if owned_by tok d then abandoned d else d) (kr_heap k x) else kr_heap k x)"
proof (induction obs arbitrary: k)
  case (Cons ob obs)
  have "\<not> owned_by tok (abandoned d)" for d using assms by (simp add: owned_by_def abandoned_def)
  then show ?case by (simp add: Cons.IH abandon_heap option.map_comp comp_def) (auto simp: option.map_id0 intro!: option.map_cong)
qed simp

lemma demo_krnl_inv: "kr_inv demo_krnl"
proof -
  have "mm_inv demo_krnl" using demo_pool_inv mm_inv_cong [of demo_krnl "demo_pool GuestScheduler"]
    by (simp add: demo_krnl_def demo_pool_def)
  moreover have "sch_inv (kr_sched demo_krnl)"
    by (simp add: sch_inv_def sched_wf_def demo_krnl_def demo_pool_def spawn_def spawn_reserved_def GuestScheduler_def
        Let_def kStackSize_def kMinUsable_def)
  moreover have "reg_inv demo_krnl"
    by (auto simp: reg_inv_def registered_def live_objects_def demo_krnl_def demo_pool_def List.map_filter_simps
        nth_Cons split: if_splits nat.splits)
  ultimately show ?thesis by (simp add: kr_inv_def)
qed

text \<open>(C24) When a thread ends, its object becomes signaled (not running) and every mutant
  in the handle table or at a guest address that it owns is freed and marked abandoned; every
  other object is left exactly as it was.\<close>

theorem finish_abandons_owned:
  assumes "kr_heap k ob = Some d" "do_kind d = KThread" "th_thread_id d \<noteq> 0"
  shows "kr_heap (finish_thread_object ob k) ob = Some (d\<lparr>th_running := False, do_mw_waiters := []\<rparr>) \<and>
    (\<forall>x dx. x \<noteq> ob \<longrightarrow> kr_heap k x = Some dx \<longrightarrow> kr_heap (finish_thread_object ob k) x =
       Some (if owned_by (th_thread_id d) dx \<and> x \<in> set (live_objects k @ kr_va_objects k) then abandoned dx else dx))"
proof -
  let ?k = "set_obj ob (d\<lparr>th_running := False\<rparr>) k" and ?obs = "live_objects k @ kr_va_objects k"
  have obs: "live_objects ?k = live_objects k" "kr_va_objects ?k = kr_va_objects k" by (simp_all add: set_obj_def live_objects_def)
  have "\<not> owned_by (th_thread_id d) (d\<lparr>th_running := False\<rparr>)" using assms(2) by (simp add: owned_by_def)
  then have "kr_heap (fold (abandon (th_thread_id d)) ?obs ?k) ob = Some (d\<lparr>th_running := False\<rparr>)"
    "\<And>x dx. x \<noteq> ob \<Longrightarrow> kr_heap k x = Some dx \<Longrightarrow> kr_heap (fold (abandon (th_thread_id d)) ?obs ?k) x =
       Some (if owned_by (th_thread_id d) dx \<and> x \<in> set ?obs then abandoned dx else dx)"
    by (simp_all add: fold_abandon_heap [OF assms(3)] krnl_heap)
  then show ?thesis
    by (simp add: finish_thread_object_def assms(1) Let_def obs wake_object_heap)
qed

theorem finish_abandons_owned_witness:
  "map_option mu_abandoned (kr_heap (finish_thread_object 3 demo_krnl) 2) = Some True"
proof -
  let ?d = "new_object\<lparr>do_kind := KThread, do_token := event_token 3, th_thread_id := 3, th_running := True\<rparr>"
  let ?m = "new_object\<lparr>do_kind := KMutant, do_token := event_token 2, mu_owner := 3, mu_signal_state := -1\<rparr>"
  have h: "kr_heap demo_krnl 3 = Some ?d" "kr_heap demo_krnl 2 = Some ?m" by (simp_all add: demo_krnl_def demo_pool_def)
  have l: "live_objects demo_krnl = [0, 1, 2, 3]"
    by (simp add: live_objects_def demo_krnl_def demo_pool_def List.map_filter_simps)
  from finish_abandons_owned [OF h(1)] h(2) l show ?thesis by (simp add: owned_by_def abandoned_def)
qed

end
