(* ===== verification/Mem_Map.thy ===== *)
theory Mem_Map
  imports Bytes
begin

text \<open>
  The unified 16 GiB guest memory \<open>MemMap\<close> (\<open>src/src/mem_map.cpp\<close>, \<open>src/include/mem_map.h\<close>):
  one reservation whose pages are committed and protected on demand, and alias windows that
  redirect accesses to other guest addresses. The vectors \<open>committed_\<close> and \<open>prot_\<close> have one entry
  per page; they are kept as functions of the page index next to their common size. The host's
  \<open>sysconf\<close> and \<open>mprotect\<close> answers are fixed fields, \<open>mmap\<close>'s an argument of \<open>reserve\<close>.
\<close>

section \<open>State and operations\<close>

datatype mem_prot = NoAccess | ReadOnly | ReadWrite

record mem_alias =
  al_dst :: u64
  al_src :: u64
  al_size :: u64

record mem_map =
  mp_base :: bool
  mp_page :: u64
  mp_pages :: nat
  mp_committed :: "nat \<Rightarrow> bool"
  mp_prot :: "nat \<Rightarrow> mem_prot"
  mp_aliases :: "mem_alias list"
  mp_committed_pages :: u64
  mp_mem :: "64 mem"
  mp_mprotect :: "nat \<Rightarrow> bool"

definition kFastSize :: u64 where "kFastSize = push_bit 30 10"
definition kSlowSize :: u64 where "kSlowSize = push_bit 30 6"
definition kTotalSize :: u64 where "kTotalSize = kFastSize + kSlowSize"

definition mem_page_size :: "int \<Rightarrow> u64" where
  "mem_page_size sysconf = (if sysconf > 0 then word_of_int sysconf else 4096)"

definition MemMap :: "int \<Rightarrow> (nat \<Rightarrow> bool) \<Rightarrow> mem_map" where
  "MemMap sysconf mprotect = \<lparr>mp_base = False, mp_page = mem_page_size sysconf, mp_pages = 0,
     mp_committed = (\<lambda>_. False), mp_prot = (\<lambda>_. NoAccess), mp_aliases = [], mp_committed_pages = 0,
     mp_mem = (\<lambda>_. 0), mp_mprotect = mprotect\<rparr>"

definition mem_reserve :: "bool \<Rightarrow> mem_map \<Rightarrow> bool \<times> mem_map" where
  "mem_reserve mmap_ok m =
     (if mp_base m then (True, m)
      else if \<not> mmap_ok then (False, m)
      else (True, m\<lparr>mp_base := True, mp_pages := unat kTotalSize div unat (mp_page m),
              mp_committed := (\<lambda>_. False), mp_prot := (\<lambda>_. ReadWrite), mp_committed_pages := 0,
              mp_aliases := []\<rparr>))"

definition is_fast :: "u64 \<Rightarrow> bool" where
  "is_fast guest_phys \<longleftrightarrow> guest_phys < kFastSize"

definition mem_in_range :: "u64 \<Rightarrow> u64 \<Rightarrow> bool" where
  "mem_in_range guest_phys sz \<longleftrightarrow> \<not> guest_phys \<ge> kTotalSize \<and> sz \<le> kTotalSize - guest_phys"

definition page_floor :: "u64 \<Rightarrow> u64 \<Rightarrow> u64" where
  "page_floor page a = a AND NOT (page - 1)"

text \<open>The loop \<open>for (a = start; a < end; a += upage)\<close> shared by the range operations. The range
  check before each loop keeps \<open>a\<close> below \<open>kTotalSize + upage\<close>, so the counter does not wrap and
  the visited addresses can be computed in natural numbers; \<open>mem_span\<close> are their page indices.\<close>

function visited :: "nat \<Rightarrow> nat \<Rightarrow> nat \<Rightarrow> nat list" where
  "visited upage a e = (if 0 < upage \<and> a < e then a # visited upage (a + upage) e else [])"
  by auto
termination by (relation "measure (\<lambda>(upage, a, e). e - a)") auto

declare visited.simps [simp del]

definition page_addrs :: "mem_map \<Rightarrow> u64 \<Rightarrow> u64 \<Rightarrow> nat list" where
  "page_addrs m addr sz = visited (unat (mp_page m)) (unat (page_floor (mp_page m) addr)) (unat (addr + sz))"

definition mem_span :: "mem_map \<Rightarrow> u64 \<Rightarrow> u64 \<Rightarrow> nat list" where
  "mem_span m addr sz = map (\<lambda>a. a div unat (mp_page m)) (page_addrs m addr sz)"

definition mem_commit_page :: "u64 \<Rightarrow> mem_map \<Rightarrow> bool \<times> mem_map" where
  "mem_commit_page guest_phys m =
     (if \<not> mp_base m \<or> \<not> mem_in_range guest_phys 1 then (False, m)
      else let idx = unat (page_floor (mp_page m) guest_phys) div unat (mp_page m) in
        if \<not> mp_mprotect m idx then (False, m)
        else let m1 = (if idx < mp_pages m \<and> \<not> mp_committed m idx
                       then m\<lparr>mp_committed := (mp_committed m)(idx := True), mp_committed_pages := mp_committed_pages m + 1\<rparr>
                       else m)
             in (True, if idx < mp_pages m then m1\<lparr>mp_prot := (mp_prot m1)(idx := ReadWrite)\<rparr> else m1))"

fun commit_each :: "nat list \<Rightarrow> mem_map \<Rightarrow> bool \<times> mem_map" where
  "commit_each [] m = (True, m)"
| "commit_each (a # as) m =
     (case mem_commit_page (of_nat a) m of
        (False, m1) \<Rightarrow> (False, m1)
      | (True, m1) \<Rightarrow> commit_each as m1)"

definition mem_commit_range :: "u64 \<Rightarrow> u64 \<Rightarrow> mem_map \<Rightarrow> bool \<times> mem_map" where
  "mem_commit_range guest_phys sz m =
     (if \<not> mp_base m \<or> sz = 0 \<or> \<not> mem_in_range guest_phys sz then (False, m)
      else commit_each (page_addrs m guest_phys sz) m)"

definition mem_is_committed :: "mem_map \<Rightarrow> u64 \<Rightarrow> u64 \<Rightarrow> bool" where
  "mem_is_committed m guest_phys sz \<longleftrightarrow>
     mp_base m \<and> mem_in_range guest_phys sz \<and> mp_pages m \<noteq> 0 \<and>
     list_all (\<lambda>i. i < mp_pages m \<and> mp_committed m i) (mem_span m guest_phys sz)"

fun resolve_in :: "mem_alias list \<Rightarrow> u64 \<Rightarrow> u64 \<Rightarrow> u64" where
  "resolve_in [] guest_phys sz = guest_phys"
| "resolve_in (a # as) guest_phys sz =
     (if guest_phys \<ge> al_dst a \<and> guest_phys < al_dst a + al_size a \<and> sz \<le> al_dst a + al_size a - guest_phys
      then al_src a + (guest_phys - al_dst a)
      else resolve_in as guest_phys sz)"

definition resolve_alias :: "mem_map \<Rightarrow> u64 \<Rightarrow> u64 \<Rightarrow> u64" where
  "resolve_alias m guest_phys sz = resolve_in (mp_aliases m) guest_phys sz"

definition mem_readable :: "mem_map \<Rightarrow> u64 \<Rightarrow> u64 \<Rightarrow> bool" where
  "mem_readable m guest_phys sz \<longleftrightarrow>
     mp_base m \<and> sz \<noteq> 0 \<and> mem_in_range guest_phys sz \<and>
     (let backing = resolve_alias m guest_phys sz in
      mem_in_range backing sz \<and>
      list_all (\<lambda>i. i < mp_pages m \<and> mp_committed m i \<and> mp_prot m i \<noteq> NoAccess) (mem_span m backing sz))"

definition mem_writable :: "mem_map \<Rightarrow> u64 \<Rightarrow> u64 \<Rightarrow> bool" where
  "mem_writable m guest_phys sz \<longleftrightarrow>
     mp_base m \<and> sz \<noteq> 0 \<and> mem_in_range guest_phys sz \<and>
     (let backing = resolve_alias m guest_phys sz in
      mem_in_range backing sz \<and>
      list_all (\<lambda>i. i < mp_pages m \<and> mp_committed m i \<and> mp_prot m i = ReadWrite) (mem_span m backing sz))"

text \<open>\<open>translate\<close> gives the offset into the reservation, \<open>None\<close> is \<open>nullptr\<close>.\<close>

definition mem_translate :: "mem_map \<Rightarrow> u64 \<Rightarrow> u64 option" where
  "mem_translate m guest_phys =
     (if \<not> mem_readable m guest_phys 1 then None else Some (resolve_alias m guest_phys 1))"

definition mem_write_bytes :: "u64 \<Rightarrow> u8 list \<Rightarrow> mem_map \<Rightarrow> bool \<times> mem_map" where
  "mem_write_bytes guest_phys src m =
     (let sz = of_nat (length src) in
      if \<not> mem_writable m guest_phys sz then (False, m)
      else (True, m\<lparr>mp_mem := store_bytes (resolve_alias m guest_phys sz) src (mp_mem m)\<rparr>))"

definition mem_read_bytes :: "mem_map \<Rightarrow> u64 \<Rightarrow> u64 \<Rightarrow> u8 list option" where
  "mem_read_bytes m guest_phys sz =
     (if \<not> mem_readable m guest_phys sz then None
      else Some (load_bytes (unat sz) (resolve_alias m guest_phys sz) (mp_mem m)))"

definition mem_write32 :: "u64 \<Rightarrow> u32 \<Rightarrow> mem_map \<Rightarrow> bool \<times> mem_map" where
  "mem_write32 guest_phys value m = mem_write_bytes guest_phys (le_bytes 4 value) m"

definition mem_read32 :: "mem_map \<Rightarrow> u64 \<Rightarrow> u32 option" where
  "mem_read32 m guest_phys = map_option le_word (mem_read_bytes m guest_phys 4)"

fun protect_each :: "mem_prot \<Rightarrow> nat list \<Rightarrow> mem_map \<Rightarrow> bool \<times> mem_map" where
  "protect_each p [] m = (True, m)"
| "protect_each p (i # is) m =
     (if \<not> mp_mprotect m i then (False, m)
      else protect_each p is (if i < mp_pages m then m\<lparr>mp_prot := (mp_prot m)(i := p)\<rparr> else m))"

definition mem_protect :: "u64 \<Rightarrow> u64 \<Rightarrow> mem_prot \<Rightarrow> mem_map \<Rightarrow> bool \<times> mem_map" where
  "mem_protect guest_phys sz p m =
     (if \<not> mp_base m \<or> sz = 0 \<or> \<not> mem_is_committed m guest_phys sz then (False, m)
      else protect_each p (mem_span m guest_phys sz) m)"

definition alias_map :: "u64 \<Rightarrow> u64 \<Rightarrow> u64 \<Rightarrow> mem_map \<Rightarrow> bool \<times> mem_map" where
  "alias_map dst src sz m =
     (if sz = 0 \<or> \<not> mem_in_range dst sz \<or> \<not> mem_in_range src sz then (False, m)
      else if dst < src + sz \<and> src < dst + sz then (False, m)
      else if list_ex (\<lambda>a. dst < al_dst a + al_size a \<and> al_dst a < dst + sz) (mp_aliases m) then (False, m)
      else (True, m\<lparr>mp_aliases := mp_aliases m @ [\<lparr>al_dst = dst, al_src = src, al_size = sz\<rparr>]\<rparr>))"

fun erase_alias :: "u64 \<Rightarrow> mem_alias list \<Rightarrow> mem_alias list option" where
  "erase_alias dst [] = None"
| "erase_alias dst (a # as) = (if al_dst a = dst then Some as else map_option ((#) a) (erase_alias dst as))"

definition alias_unmap :: "u64 \<Rightarrow> mem_map \<Rightarrow> bool \<times> mem_map" where
  "alias_unmap dst m =
     (case erase_alias dst (mp_aliases m) of
        None \<Rightarrow> (False, m)
      | Some as \<Rightarrow> (True, m\<lparr>mp_aliases := as\<rparr>))"

section \<open>Pages of a range\<close>

definition page_pow2 :: "mem_map \<Rightarrow> bool" where
  "page_pow2 m \<longleftrightarrow> (\<exists>k\<le>34. unat (mp_page m) = 2 ^ k)"

lemma page_pow2_pos: "page_pow2 m \<Longrightarrow> 0 < unat (mp_page m)"
  by (auto simp: page_pow2_def)

lemma unat_kTotalSize [simp]: "unat kTotalSize = 2 ^ 34" "unat kFastSize = 10 * 2 ^ 30"
  by (simp_all add: kTotalSize_def kFastSize_def kSlowSize_def push_bit_eq_mult)

lemma mem_in_range_iff: "mem_in_range a n \<longleftrightarrow> unat a < 2 ^ 34 \<and> unat a + unat n \<le> 2 ^ 34"
proof -
  have "\<not> a \<ge> kTotalSize \<Longrightarrow> unat (kTotalSize - a) = 2 ^ 34 - unat a"
    by (simp add: unat_diff_le)
  moreover have "\<not> a \<ge> kTotalSize \<longleftrightarrow> unat a < 2 ^ 34" by (simp add: word_le_nat_alt not_le)
  ultimately show ?thesis by (auto simp: mem_in_range_def word_le_nat_alt)
qed

lemma in_range_end: "mem_in_range a n \<Longrightarrow> unat (a + n) = unat a + unat n"
  by (rule unat_add_lt) (simp add: mem_in_range_iff)

lemma visited_indices:
  "0 < p \<Longrightarrow> p dvd a \<Longrightarrow> i \<in> (\<lambda>a. a div p) ` set (visited p a e) \<longleftrightarrow> a div p \<le> i \<and> i * p < e"
proof (induction p a e rule: visited.induct)
  case (1 p a e)
  show ?case
  proof (cases "a < e")
    case True
    have d: "a div p * p = a" "(a + p) div p = Suc (a div p)" using 1 by auto
    have "i \<in> (\<lambda>a. a div p) ` set (visited p a e) \<longleftrightarrow> i = a div p \<or> Suc (a div p) \<le> i \<and> i * p < e"
      using 1 True d(2) by (subst visited.simps) auto
    also have "\<dots> \<longleftrightarrow> a div p \<le> i \<and> i * p < e" using True d(1) by (auto simp: Suc_le_eq)
    finally show ?thesis .
  next
    case False
    have "a \<le> i * p" if "a div p \<le> i" using 1 that mult_le_mono1 [OF that, of p] by simp
    with False show ?thesis by (subst visited.simps) auto
  qed
qed

lemma visited_multiples: "p dvd a \<Longrightarrow> x \<in> set (visited p a e) \<Longrightarrow> p dvd x \<and> a \<le> x \<and> x < e"
proof (induction p a e rule: visited.induct)
  case (1 p a e)
  from 1(3) have x: "0 < p" "a < e" "x = a \<or> x \<in> set (visited p (a + p) e)"
    by (simp_all add: visited.simps [of p a e] split: if_splits)
  then show ?case using 1(1) [OF conjI] 1(2) by auto
qed

text \<open>A check of every page of a range is a check of the page of every byte.\<close>

lemma mem_span_set:
  assumes "page_pow2 m" "mem_in_range a n"
  shows "i \<in> set (mem_span m a n) \<longleftrightarrow> unat a div unat (mp_page m) \<le> i \<and> i * unat (mp_page m) < unat a + unat n"
proof -
  let ?p = "unat (mp_page m)"
  from assms(1) obtain k where "?p = 2 ^ k" by (auto simp: page_pow2_def)
  then have fl: "unat (page_floor (mp_page m) a) = unat a div ?p * ?p"
    unfolding page_floor_def by (rule unat_page_floor)
  have pos: "0 < ?p" by (rule page_pow2_pos [OF assms(1)])
  from visited_indices [OF pos, of "unat a div ?p * ?p" i "unat a + unat n"] pos
  show ?thesis by (simp add: mem_span_def page_addrs_def fl in_range_end [OF assms(2)])
qed

lemma span_all_bytes:
  assumes "page_pow2 m" "mem_in_range a n" "n \<noteq> 0"
  shows "list_all P (mem_span m a n) \<longleftrightarrow> (\<forall>x. unat a \<le> x \<and> x < unat a + unat n \<longrightarrow> P (x div unat (mp_page m)))"
proof -
  let ?p = "unat (mp_page m)"
  have pos: "0 < ?p" by (rule page_pow2_pos [OF assms(1)])
  have "P i" if all: "\<forall>x. unat a \<le> x \<and> x < unat a + unat n \<longrightarrow> P (x div ?p)"
    and i: "unat a div ?p \<le> i" "i * ?p < unat a + unat n" for i
  proof (cases "unat a \<le> i * ?p")
    case True with all i pos show ?thesis by (metis div_mult_self_is_m)
  next
    case False
    then have "i \<le> unat a div ?p" by (simp add: less_eq_div_iff_mult_less_eq pos)
    with i(1) have "i = unat a div ?p" by (rule le_antisym [rotated])
    then show ?thesis using all assms(3) by (simp add: unat_gt_0)
  qed
  moreover have "x div ?p * ?p \<le> x" "unat a \<le> x \<Longrightarrow> unat a div ?p \<le> x div ?p" for x
    by (simp_all add: div_le_mono)
  ultimately show ?thesis
    unfolding list_all_iff using mem_span_set [OF assms(1,2)] by (meson le_less_trans)
qed

section \<open>Invariant\<close>

definition window_has :: "mem_alias \<Rightarrow> u64 \<Rightarrow> u64 \<Rightarrow> bool" where
  "window_has w a n \<longleftrightarrow> unat (al_dst w) \<le> unat a \<and> unat a < unat (al_dst w) + unat (al_size w) \<and>
     unat a + unat n \<le> unat (al_dst w) + unat (al_size w)"

definition alias_wf :: "mem_alias \<Rightarrow> bool" where
  "alias_wf w \<longleftrightarrow> al_size w \<noteq> 0 \<and> mem_in_range (al_dst w) (al_size w) \<and> mem_in_range (al_src w) (al_size w)"

definition alias_disjoint :: "mem_alias \<Rightarrow> mem_alias \<Rightarrow> bool" where
  "alias_disjoint v w \<longleftrightarrow> unat (al_dst v) + unat (al_size v) \<le> unat (al_dst w) \<or>
     unat (al_dst w) + unat (al_size w) \<le> unat (al_dst v)"

definition mem_wf :: "mem_map \<Rightarrow> bool" where
  "mem_wf m \<longleftrightarrow> page_pow2 m \<and> mp_pages m = (if mp_base m then 2 ^ 34 div unat (mp_page m) else 0) \<and>
     (\<forall>i. mp_committed m i \<longrightarrow> i < mp_pages m) \<and>
     unat (mp_committed_pages m) = card {i. mp_committed m i} \<and>
     list_all alias_wf (mp_aliases m) \<and> sorted_wrt alias_disjoint (mp_aliases m)"

lemma alias_end: "alias_wf w \<Longrightarrow> unat (al_dst w + al_size w) = unat (al_dst w) + unat (al_size w)"
  by (simp add: alias_wf_def in_range_end)

lemma window_test:
  assumes "alias_wf w"
  shows "al_dst w \<le> a \<and> a < al_dst w + al_size w \<and> n \<le> al_dst w + al_size w - a \<longleftrightarrow> window_has w a n"
  using alias_end [OF assms] by (auto simp: window_has_def word_le_nat_alt word_less_nat_alt unat_sub)

lemma unat_redirect:
  assumes "alias_wf w" "window_has w a n"
  shows "unat (al_src w + (a - al_dst w)) = unat (al_src w) + (unat a - unat (al_dst w))"
    "mem_in_range (al_src w + (a - al_dst w)) n"
proof -
  have d: "unat (a - al_dst w) = unat a - unat (al_dst w)"
    using assms(2) by (intro unat_diff_le) (simp add: window_has_def word_le_nat_alt)
  show u: "unat (al_src w + (a - al_dst w)) = unat (al_src w) + (unat a - unat (al_dst w))"
    using assms d by (subst unat_add_lt) (auto simp: alias_wf_def mem_in_range_iff window_has_def)
  show "mem_in_range (al_src w + (a - al_dst w)) n"
    using assms unfolding mem_in_range_iff u by (auto simp: alias_wf_def mem_in_range_iff window_has_def)
qed

text \<open>Alias resolution is the redirection of the window that holds the whole range, if any; the
  windows are disjoint, so it does not depend on their order.\<close>

lemma resolve_in_window:
  "list_all alias_wf ws \<Longrightarrow> sorted_wrt alias_disjoint ws \<Longrightarrow> w \<in> set ws \<Longrightarrow> window_has w a n \<Longrightarrow>
     resolve_in ws a n = al_src w + (a - al_dst w)"
proof (induction ws)
  case (Cons v ws)
  have "v = w" if "window_has v a n" using that Cons.prems by (auto simp: alias_disjoint_def window_has_def)
  with Cons show ?case using window_test [of v a n] by auto
qed simp

lemma resolve_in_outside:
  "list_all alias_wf ws \<Longrightarrow> \<forall>w\<in>set ws. \<not> window_has w a n \<Longrightarrow> resolve_in ws a n = a"
proof (induction ws)
  case (Cons v ws) then show ?case using window_test [of v a n] by auto
qed simp

lemma resolve_in_range:
  assumes "mem_wf m" "mem_in_range a n"
  shows "mem_in_range (resolve_alias m a n) n"
proof (cases "\<exists>w\<in>set (mp_aliases m). window_has w a n")
  case True
  with assms show ?thesis
    by (auto simp: mem_wf_def resolve_alias_def resolve_in_window list_all_iff unat_redirect(2))
qed (use assms in \<open>simp add: mem_wf_def resolve_alias_def resolve_in_outside\<close>)

section \<open>Every operation keeps the invariant\<close>

lemma page_index:
  assumes "page_pow2 m"
  shows "unat (page_floor (mp_page m) a) div unat (mp_page m) = unat a div unat (mp_page m)"
proof -
  from assms obtain k where "unat (mp_page m) = 2 ^ k" by (auto simp: page_pow2_def)
  then have "unat (page_floor (mp_page m) a) = unat a div unat (mp_page m) * unat (mp_page m)"
    unfolding page_floor_def by (rule unat_page_floor)
  then show ?thesis using page_pow2_pos [OF assms] by simp
qed

lemma page_in_table:
  assumes "mem_wf m" "mp_base m" "x < 2 ^ 34"
  shows "x div unat (mp_page m) < mp_pages m"
proof -
  obtain k where k: "k \<le> 34" "unat (mp_page m) = 2 ^ k" using assms(1) by (auto simp: mem_wf_def page_pow2_def)
  then have e: "(2 :: nat) ^ 34 = 2 ^ (34 - k) * 2 ^ k" by (simp flip: power_add)
  with assms(3) have "x div 2 ^ k < 2 ^ (34 - k)" by (intro less_mult_imp_div_less) simp
  moreover have "mp_pages m = 2 ^ (34 - k)" using assms(1,2) k(2) by (simp add: mem_wf_def e del: power_numeral)
  ultimately show ?thesis by (simp only: k(2))
qed

lemma committed_finite: "mem_wf m \<Longrightarrow> finite {i. mp_committed m i}" "mem_wf m \<Longrightarrow> card {i. mp_committed m i} \<le> 2 ^ 34"
proof -
  assume wf: "mem_wf m"
  then have sub: "{i. mp_committed m i} \<subseteq> {..<mp_pages m}" by (auto simp: mem_wf_def)
  then show "finite {i. mp_committed m i}" using finite_subset by blast
  from card_mono [OF _ sub] have "card {i. mp_committed m i} \<le> mp_pages m" by simp
  also have "\<dots> \<le> 2 ^ 34" using wf by (auto simp: mem_wf_def intro: div_le_dividend)
  finally show "card {i. mp_committed m i} \<le> 2 ^ 34" .
qed

text \<open>Committing one page changes that page only.\<close>

definition set_page :: "nat \<Rightarrow> mem_map \<Rightarrow> mem_map \<Rightarrow> bool" where
  "set_page i m m' \<longleftrightarrow> mp_base m' = mp_base m \<and> mp_page m' = mp_page m \<and> mp_pages m' = mp_pages m \<and>
     mp_aliases m' = mp_aliases m \<and> mp_mem m' = mp_mem m \<and> mp_mprotect m' = mp_mprotect m \<and>
     mp_committed m' = (mp_committed m)(i := True) \<and> mp_prot m' = (mp_prot m)(i := ReadWrite)"

lemma commit_page_effect:
  assumes "mem_wf m" "mem_commit_page a m = (ok, m')"
  shows "mem_wf m' \<and> (if ok then set_page (unat a div unat (mp_page m)) m m' else m' = m) \<and>
    (ok \<longleftrightarrow> mp_base m \<and> unat a < 2 ^ 34 \<and> mp_mprotect m (unat a div unat (mp_page m)))"
proof (cases "mp_base m \<and> unat a < 2 ^ 34 \<and> mp_mprotect m (unat a div unat (mp_page m))")
  case True
  let ?i = "unat a div unat (mp_page m)"
  have i: "?i < mp_pages m" using page_in_table [OF assms(1)] True by blast
  have p: "page_pow2 m" using assms(1) by (simp add: mem_wf_def)
  have r: "mem_in_range a 1" using True by (simp add: mem_in_range_iff)
  show ?thesis
  proof (cases "mp_committed m ?i")
    case c: True
    then have "ok" "m' = m\<lparr>mp_prot := (mp_prot m)(?i := ReadWrite)\<rparr>"
      using assms(2) True i r by (simp_all add: mem_commit_page_def Let_def page_index [OF p] split: if_splits)
    moreover have "(mp_committed m)(?i := True) = mp_committed m" using c by (simp add: fun_eq_iff)
    ultimately show ?thesis using assms(1) True by (auto simp add: set_page_def mem_wf_def page_pow2_def)
  next
    case c: False
    then have m': "ok" "m' = m\<lparr>mp_committed := (mp_committed m)(?i := True), mp_committed_pages := mp_committed_pages m + 1,
        mp_prot := (mp_prot m)(?i := ReadWrite)\<rparr>"
      using assms(2) True i r by (auto simp add: mem_commit_page_def Let_def page_index [OF p] split: if_splits)
    have "{j. ((mp_committed m)(?i := True)) j} = insert ?i {j. mp_committed m j}" by auto
    then have card: "card {j. ((mp_committed m)(?i := True)) j} = Suc (card {j. mp_committed m j})"
      using c committed_finite(1) [OF assms(1)] by simp
    have "unat (mp_committed_pages m + 1) = Suc (card {j. mp_committed m j})"
      using assms(1) committed_finite(2) [OF assms(1)] by (subst unat_add_lt) (simp_all add: mem_wf_def)
    with card m' assms(1) True i show ?thesis by (auto simp add: set_page_def mem_wf_def page_pow2_def)
  qed
next
  case False
  have p: "page_pow2 m" using assms(1) by (simp add: mem_wf_def)
  have "mem_commit_page a m = (False, m)"
    using False by (auto simp: mem_commit_page_def Let_def page_index [OF p] mem_in_range_iff)
  with assms False show ?thesis by auto
qed

lemma commit_each_effect:
  assumes "mem_wf m" "commit_each as m = (ok, m')" "\<forall>a\<in>set as. a < 2 ^ 34"
  shows "mem_wf m' \<and> mp_base m' = mp_base m \<and> mp_page m' = mp_page m \<and> mp_pages m' = mp_pages m \<and>
    mp_aliases m' = mp_aliases m \<and> mp_mem m' = mp_mem m \<and> mp_mprotect m' = mp_mprotect m \<and>
    (ok \<longrightarrow> (\<forall>i. mp_committed m' i = (mp_committed m i \<or> i \<in> (\<lambda>a. a div unat (mp_page m)) ` set as) \<and>
       mp_prot m' i = (if i \<in> (\<lambda>a. a div unat (mp_page m)) ` set as then ReadWrite else mp_prot m i))) \<and>
    (ok \<longleftrightarrow> as = [] \<or> mp_base m \<and> (\<forall>a\<in>set as. mp_mprotect m (a div unat (mp_page m))))"
  using assms
proof (induction as arbitrary: m)
  case (Cons a as)
  obtain ok1 m1 where c: "mem_commit_page (of_nat a) m = (ok1, m1)" by fastforce
  have a: "unat (of_nat a :: u64) = a" using Cons.prems(3) by (intro unat_of_nat_lt) auto
  note e = commit_page_effect [OF Cons.prems(1) c, unfolded a]
  show ?case
  proof (cases ok1)
    case False then show ?thesis using Cons.prems c e by auto
  next
    case True
    then have r: "commit_each as m1 = (ok, m')" using Cons.prems(2) c by simp
    from Cons.IH [OF _ r] Cons.prems(3) e True show ?thesis by (auto simp: set_page_def)
  qed
qed simp

lemma page_addrs_bound:
  assumes "mem_wf m" "mem_in_range a n" "x \<in> set (page_addrs m a n)"
  shows "x < 2 ^ 34"
proof -
  obtain k where k: "unat (mp_page m) = 2 ^ k" using assms(1) by (auto simp: mem_wf_def page_pow2_def)
  have "unat (mp_page m) dvd unat (page_floor (mp_page m) a)"
    unfolding page_floor_def by (simp add: unat_page_floor [OF k])
  with visited_multiples [OF this] assms(3) have "x < unat (a + n)" by (auto simp: page_addrs_def)
  with assms(2) show ?thesis by (simp add: in_range_end mem_in_range_iff)
qed

lemma protect_each_effect:
  "protect_each p is m = (ok, m') \<Longrightarrow> (\<forall>i\<in>set is. i < mp_pages m) \<Longrightarrow>
     (\<exists>q. m' = m\<lparr>mp_prot := q\<rparr> \<and> (\<forall>i. i \<notin> set is \<longrightarrow> q i = mp_prot m i) \<and> (ok \<longrightarrow> (\<forall>i\<in>set is. q i = p))) \<and>
     (ok \<longleftrightarrow> (\<forall>i\<in>set is. mp_mprotect m i))"
proof (induction "is" arbitrary: m)
  case (Cons i "is")
  show ?case
  proof (cases "mp_mprotect m i")
    case True
    then have r: "protect_each p is (m\<lparr>mp_prot := (mp_prot m)(i := p)\<rparr>) = (ok, m')" using Cons.prems by simp
    from Cons.IH [OF r] Cons.prems(2) obtain q where q: "m' = m\<lparr>mp_prot := q\<rparr>"
      "\<forall>j. j \<notin> set is \<longrightarrow> q j = ((mp_prot m)(i := p)) j" "ok \<longrightarrow> (\<forall>j\<in>set is. q j = p)"
      "ok \<longleftrightarrow> (\<forall>j\<in>set is. mp_mprotect m j)" by auto
    then have "ok \<longrightarrow> (\<forall>j\<in>set (i # is). q j = p)" "\<forall>j. j \<notin> set (i # is) \<longrightarrow> q j = mp_prot m j" by auto
    with q(1,4) True show ?thesis by auto
  next
    case False
    with Cons.prems have "\<not> ok" "m' = m\<lparr>mp_prot := mp_prot m\<rparr>" by simp_all
    with False show ?thesis by (intro conjI exI [of _ "mp_prot m"]) auto
  qed
next
  case Nil then show ?case by (intro conjI exI [of _ "mp_prot m"]) auto
qed

lemma mem_wf_prot [simp]: "mem_wf (m\<lparr>mp_prot := q\<rparr>) = mem_wf m" "mem_wf (m\<lparr>mp_mem := b\<rparr>) = mem_wf m"
  by (simp_all add: mem_wf_def page_pow2_def)

lemma erase_alias_wf:
  "erase_alias d ws = Some vs \<Longrightarrow> list_all P ws \<and> sorted_wrt R ws \<Longrightarrow> list_all P vs \<and> sorted_wrt R vs \<and> set vs \<subseteq> set ws"
proof (induction ws arbitrary: vs)
  case (Cons w ws) then show ?case by (fastforce split: if_splits)
qed simp

lemma alias_map_wf:
  assumes "mem_wf m" shows "mem_wf (snd (alias_map d s n m))"
proof (cases "fst (alias_map d s n m)")
  case True
  then have ok: "n \<noteq> 0" "mem_in_range d n" "mem_in_range s n"
    "\<And>w. w \<in> set (mp_aliases m) \<Longrightarrow> \<not> (d < al_dst w + al_size w \<and> al_dst w < d + n)"
    and m': "snd (alias_map d s n m) = m\<lparr>mp_aliases := mp_aliases m @ [\<lparr>al_dst = d, al_src = s, al_size = n\<rparr>]\<rparr>"
    by (auto simp: alias_map_def list_ex_iff split: if_splits)
  have "alias_disjoint w \<lparr>al_dst = d, al_src = s, al_size = n\<rparr>" if "w \<in> set (mp_aliases m)" for w
  proof -
    have "alias_wf w" using assms that by (simp add: mem_wf_def list_all_iff)
    from ok(4) [OF that] alias_end [OF this] in_range_end [OF ok(2)] show ?thesis
      by (auto simp: alias_disjoint_def word_less_nat_alt)
  qed
  with ok m' assms show ?thesis by (auto simp add: mem_wf_def page_pow2_def alias_wf_def sorted_wrt_append)
qed (use assms in \<open>auto simp: alias_map_def split: if_splits\<close>)

lemma reserve_wf:
  assumes "mem_wf m" shows "mem_wf (snd (mem_reserve b m))"
proof (cases "mp_base m \<or> \<not> b")
  case True with assms show ?thesis by (auto simp: mem_reserve_def)
next
  case False
  with assms show ?thesis by (simp add: mem_reserve_def mem_wf_def page_pow2_def)
qed

lemma MemMap_wf: "k \<le> 34 \<Longrightarrow> mem_page_size sc = 2 ^ k \<Longrightarrow> mem_wf (MemMap sc mp)"
  using unat_of_nat_lt [where 'a = 64, of "2 ^ k"] power_strict_increasing [of k 64 "2 :: nat"]
  by (auto simp: MemMap_def mem_wf_def page_pow2_def intro: exI [of _ k])

lemma commit_range_wf:
  assumes "mem_wf m" shows "mem_wf (snd (mem_commit_range a n m))"
proof -
  obtain ok m' where "commit_each (page_addrs m a n) m = (ok, m')" by fastforce
  with commit_each_effect [OF assms this] page_addrs_bound [OF assms, of a n] assms show ?thesis
    by (auto simp: mem_commit_range_def)
qed

lemma mem_protect_wf:
  assumes "mem_wf m" shows "mem_wf (snd (mem_protect a n p m))"
proof (cases "mem_is_committed m a n")
  case True
  obtain ok m' where e: "protect_each p (mem_span m a n) m = (ok, m')" by fastforce
  have "\<forall>i\<in>set (mem_span m a n). i < mp_pages m" using True by (simp add: mem_is_committed_def list_all_iff)
  from protect_each_effect [OF e this] assms e show ?thesis by (auto simp: mem_protect_def)
qed (use assms in \<open>simp add: mem_protect_def\<close>)

lemma write_bytes_wf: "mem_wf m \<Longrightarrow> mem_wf (snd (mem_write_bytes a bs m))"
  by (simp add: mem_write_bytes_def Let_def)

lemma alias_unmap_wf: "mem_wf m \<Longrightarrow> mem_wf (snd (alias_unmap d m))"
  using erase_alias_wf [of d "mp_aliases m" _ alias_wf alias_disjoint]
  by (auto simp: alias_unmap_def mem_wf_def page_pow2_def split: option.splits)

lemma commit_page_wf: "mem_wf m \<Longrightarrow> mem_wf (snd (mem_commit_page a m))"
  using commit_page_effect [of m a] by (metis prod.collapse)

lemmas mem_ops_wf = reserve_wf commit_page_wf commit_range_wf mem_protect_wf write_bytes_wf alias_map_wf alias_unmap_wf

section \<open>Reachable states\<close>

inductive mem_reach :: "mem_map \<Rightarrow> bool" where
  init: "k \<le> 34 \<Longrightarrow> mem_page_size sysconf = 2 ^ k \<Longrightarrow> mem_reach (MemMap sysconf mprotect)"
| reserve: "mem_reach m \<Longrightarrow> mem_reach (snd (mem_reserve mmap_ok m))"
| commit_page: "mem_reach m \<Longrightarrow> mem_reach (snd (mem_commit_page a m))"
| commit_range: "mem_reach m \<Longrightarrow> mem_reach (snd (mem_commit_range a n m))"
| protect_range: "mem_reach m \<Longrightarrow> mem_reach (snd (mem_protect a n p m))"
| write_mem: "mem_reach m \<Longrightarrow> mem_reach (snd (mem_write_bytes a bs m))"
| alias_on: "mem_reach m \<Longrightarrow> mem_reach (snd (alias_map d s n m))"
| alias_off: "mem_reach m \<Longrightarrow> mem_reach (snd (alias_unmap d m))"

lemma mem_reach_wf: "mem_reach m \<Longrightarrow> mem_wf m"
  by (induction rule: mem_reach.induct) (auto intro: mem_ops_wf MemMap_wf)

text \<open>What an accepted access may touch: bytes of the reservation whose pages are committed and
  have one of the given protections.\<close>

definition host_ok :: "mem_map \<Rightarrow> mem_prot set \<Rightarrow> u64 \<Rightarrow> nat \<Rightarrow> bool" where
  "host_ok m ps b n \<longleftrightarrow> mp_base m \<and> unat b + n \<le> unat kTotalSize \<and>
     (\<forall>x. unat b \<le> x \<and> x < unat b + n \<longrightarrow>
        mp_committed m (x div unat (mp_page m)) \<and> mp_prot m (x div unat (mp_page m)) \<in> ps)"

lemma page_ok_iff:
  assumes "mem_wf m" "mp_base m" "n \<noteq> 0" "mem_in_range b n"
  shows "list_all (\<lambda>i. i < mp_pages m \<and> mp_committed m i \<and> P i) (mem_span m b n) \<longleftrightarrow>
    (\<forall>x. unat b \<le> x \<and> x < unat b + unat n \<longrightarrow> mp_committed m (x div unat (mp_page m)) \<and> P (x div unat (mp_page m)))"
proof -
  have "page_pow2 m" using assms(1) by (simp add: mem_wf_def)
  moreover have "x div unat (mp_page m) < mp_pages m" if "x < unat b + unat n" for x
    using that assms(4) page_in_table [OF assms(1,2), of x] by (simp add: mem_in_range_iff)
  ultimately show ?thesis using span_all_bytes [of m b n] assms(3,4) by auto
qed

lemma not_NoAccess: "p \<noteq> NoAccess \<longleftrightarrow> p = ReadOnly \<or> p = ReadWrite"
  by (cases p) auto

lemma readable_iff:
  assumes "mem_wf m"
  shows "mem_readable m a n \<longleftrightarrow> n \<noteq> 0 \<and> mem_in_range a n \<and> host_ok m {ReadOnly, ReadWrite} (resolve_alias m a n) (unat n)"
proof (cases "n \<noteq> 0 \<and> mem_in_range a n \<and> mp_base m")
  case True
  then have r: "mem_in_range (resolve_alias m a n) n" "unat (resolve_alias m a n) + unat n \<le> unat kTotalSize"
    using resolve_in_range [OF assms] by (auto simp: mem_in_range_iff)
  have "mem_readable m a n \<longleftrightarrow> list_all (\<lambda>i. i < mp_pages m \<and> mp_committed m i \<and> mp_prot m i \<noteq> NoAccess) (mem_span m (resolve_alias m a n) n)"
    using True r(1) by (simp add: mem_readable_def)
  also have "\<dots> \<longleftrightarrow> host_ok m {ReadOnly, ReadWrite} (resolve_alias m a n) (unat n)"
    using True r by (simp add: page_ok_iff [OF assms] host_ok_def not_NoAccess)
  finally show ?thesis using True by simp
qed (auto simp: mem_readable_def host_ok_def)

lemma writable_iff:
  assumes "mem_wf m"
  shows "mem_writable m a n \<longleftrightarrow> n \<noteq> 0 \<and> mem_in_range a n \<and> host_ok m {ReadWrite} (resolve_alias m a n) (unat n)"
proof (cases "n \<noteq> 0 \<and> mem_in_range a n \<and> mp_base m")
  case True
  then have r: "mem_in_range (resolve_alias m a n) n" "unat (resolve_alias m a n) + unat n \<le> unat kTotalSize"
    using resolve_in_range [OF assms] by (auto simp: mem_in_range_iff)
  have "mem_writable m a n \<longleftrightarrow> list_all (\<lambda>i. i < mp_pages m \<and> mp_committed m i \<and> mp_prot m i = ReadWrite) (mem_span m (resolve_alias m a n) n)"
    using True r(1) by (simp add: mem_writable_def)
  also have "\<dots> \<longleftrightarrow> host_ok m {ReadWrite} (resolve_alias m a n) (unat n)"
    using True r by (simp add: page_ok_iff [OF assms] host_ok_def)
  finally show ?thesis using True by simp
qed (auto simp: mem_writable_def host_ok_def)

lemma writable_readable: "mem_writable m a n \<Longrightarrow> mem_readable m a n"
  by (auto simp: mem_writable_def mem_readable_def Let_def list_all_iff)

lemma mem_access_frame [simp]:
  "mem_readable (m\<lparr>mp_mem := b\<rparr>) = mem_readable m" "mem_writable (m\<lparr>mp_mem := b\<rparr>) = mem_writable m"
  "resolve_alias (m\<lparr>mp_mem := b\<rparr>) = resolve_alias m" "mem_is_committed (m\<lparr>mp_mem := b\<rparr>) = mem_is_committed m"
  by (simp_all add: fun_eq_iff mem_readable_def mem_writable_def resolve_alias_def mem_span_def page_addrs_def mem_is_committed_def)

lemma write_bytes_iff:
  "mem_write_bytes a bs m = (True, m') \<longleftrightarrow> mem_writable m a (of_nat (length bs)) \<and>
     m' = m\<lparr>mp_mem := store_bytes (resolve_alias m a (of_nat (length bs))) bs (mp_mem m)\<rparr>"
  by (auto simp: mem_write_bytes_def Let_def)

lemma write_read_back:
  assumes "mem_wf m" "length bs < 2 ^ 64" "mem_write_bytes a bs m = (True, m')"
  shows "mem_read_bytes m' a (of_nat (length bs)) = Some bs"
proof -
  let ?n = "of_nat (length bs) :: u64"
  have w: "mem_writable m a ?n" "m' = m\<lparr>mp_mem := store_bytes (resolve_alias m a ?n) bs (mp_mem m)\<rparr>"
    using assms(3) by (simp_all add: write_bytes_iff)
  have n: "unat ?n = length bs" using assms(2) by (simp add: unat_of_nat_lt)
  have "unat (resolve_alias m a ?n) + length bs \<le> 2 ^ 34"
    using w(1) n by (simp add: writable_iff [OF assms(1)] host_ok_def)
  then show ?thesis using w writable_readable [OF w(1)] n load_store_same [of "resolve_alias m a ?n" bs "mp_mem m"]
    by (simp add: mem_read_bytes_def)
qed

section \<open>The memory as a byte store\<close>

definition mem_rd :: "mem_map \<Rightarrow> u64 \<Rightarrow> nat \<Rightarrow> u8 list option" where
  "mem_rd m a n = (if n < 2 ^ 64 then mem_read_bytes m a (of_nat n) else None)"

definition mem_wr :: "mem_map \<Rightarrow> u64 \<Rightarrow> u8 list \<Rightarrow> mem_map option" where
  "mem_wr m a bs = (if length bs < 2 ^ 64
     then case mem_write_bytes a bs m of (ok, m') \<Rightarrow> if ok then Some m' else None else None)"

text \<open>Without alias windows distinct addresses are distinct bytes.\<close>

definition mem_plain :: "mem_map \<Rightarrow> bool" where
  "mem_plain m \<longleftrightarrow> mem_wf m \<and> mp_aliases m = []"

lemma resolve_plain [simp]: "mem_plain m \<Longrightarrow> resolve_alias m a n = a"
  by (simp add: mem_plain_def resolve_alias_def)

lemma mem_wr_iff:
  "mem_wr m a bs = Some m' \<longleftrightarrow> length bs < 2 ^ 64 \<and> mem_write_bytes a bs m = (True, m')"
  by (auto simp: mem_wr_def split: prod.splits)

interpretation gmem: byte_store mem_rd mem_wr mem_plain
proof (unfold_locales, goal_cases)
  case (1 s a n bs)
  then show ?case by (auto simp: mem_rd_def mem_read_bytes_def unat_of_nat_lt split: if_splits)
next
  case (2 s a bs s')
  then show ?case using write_read_back [of s bs a s'] by (simp add: mem_wr_iff mem_rd_def mem_plain_def)
next
  case (3 s a bs s' c n)
  then have w: "mem_writable s a (of_nat (length bs))" "length bs < 2 ^ 64" "s' = s\<lparr>mp_mem := store_bytes a bs (mp_mem s)\<rparr>"
    by (simp_all add: mem_wr_iff write_bytes_iff)
  have wf: "mem_wf s" using 3(1) by (simp add: mem_plain_def)
  have "unat a + length bs \<le> 2 ^ 34"
    using w(1,2) 3(1) by (simp add: writable_iff [OF wf] host_ok_def unat_of_nat_lt)
  moreover have "unat c + n \<le> 2 ^ 34" if "mem_readable s c (of_nat n)" "n < 2 ^ 64"
    using that 3(1) by (simp add: readable_iff [OF wf] host_ok_def unat_of_nat_lt)
  moreover have "mem_plain s'" using 3(1) w(3) by (simp add: mem_plain_def)
  ultimately show ?case using w(3) 3(1,3)
    by (auto simp: mem_rd_def mem_read_bytes_def unat_of_nat_lt load_store_disjoint)
next
  case (4 s a bs s')
  then show ?case by (auto simp: mem_wr_iff write_bytes_iff mem_plain_def)
qed

lemma mem_rd32_eq: "gmem.rd32 m a = mem_read32 m a"
  by (simp add: gmem.rd32_def mem_read32_def mem_rd_def)

lemma mem_wr32_eq: "gmem.wr32 m a v = Some m' \<longleftrightarrow> mem_write32 a v m = (True, m')"
  by (simp add: gmem.wr32_def mem_write32_def mem_wr_iff)

section \<open>Properties\<close>

text \<open>Where an access of \<open>n\<close> bytes goes: through the alias window that holds the whole range, if there
  is one, and otherwise to the address itself.\<close>

definition redirects :: "mem_map \<Rightarrow> u64 \<Rightarrow> nat \<Rightarrow> nat \<Rightarrow> bool" where
  "redirects m a n b \<longleftrightarrow>
     (\<exists>w\<in>set (mp_aliases m). unat (al_dst w) \<le> unat a \<and> unat a + n \<le> unat (al_dst w) + unat (al_size w) \<and>
        b = unat (al_src w) + (unat a - unat (al_dst w))) \<or>
     (\<forall>w\<in>set (mp_aliases m). unat a < unat (al_dst w) \<or> unat (al_dst w) + unat (al_size w) < unat a + n) \<and> b = unat a"

lemma resolve_redirects:
  assumes "mem_wf m" "n \<noteq> 0" shows "redirects m a (unat n) (unat (resolve_alias m a n))"
proof (cases "\<exists>w\<in>set (mp_aliases m). window_has w a n")
  case True
  then obtain w where w: "w \<in> set (mp_aliases m)" "window_has w a n" by blast
  then have "alias_wf w" "resolve_alias m a n = al_src w + (a - al_dst w)"
    using assms(1) by (auto simp: mem_wf_def list_all_iff resolve_alias_def intro!: resolve_in_window)
  then show ?thesis using w unat_redirect(1) [of w a n] unfolding redirects_def by (auto simp: window_has_def)
next
  case False
  have "0 < unat n" using assms(2) by (simp add: unat_gt_0)
  with False have "\<forall>w\<in>set (mp_aliases m). unat a < unat (al_dst w) \<or> unat (al_dst w) + unat (al_size w) < unat a + unat n"
    unfolding window_has_def by (meson add_less_cancel_left le_less_trans not_le less_le_trans less_add_same_cancel1)
  moreover have "resolve_alias m a n = a"
    using False assms(1) by (simp add: mem_wf_def resolve_alias_def resolve_in_outside)
  ultimately show ?thesis by (simp add: redirects_def)
qed

text \<open>A host byte of the reservation whose page is committed and has one of the protections.\<close>

definition byte_ok :: "mem_map \<Rightarrow> mem_prot set \<Rightarrow> nat \<Rightarrow> bool" where
  "byte_ok m ps x \<longleftrightarrow> mp_base m \<and> x < 2 ^ 34 \<and> mp_committed m (x div unat (mp_page m)) \<and> mp_prot m (x div unat (mp_page m)) \<in> ps"

lemma host_byte_ok: "host_ok m ps b n \<Longrightarrow> i < n \<Longrightarrow> byte_ok m ps (unat b + i)"
  by (auto simp: host_ok_def byte_ok_def)

lemma write_bytes_exact:
  assumes wf: "mem_wf m" and len: "length bs < 2 ^ 64" and w: "mem_write_bytes a bs m = (True, m')"
  shows "m' = m\<lparr>mp_mem := mp_mem m'\<rparr>" "\<exists>b. redirects m a (length bs) b \<and> (\<forall>i<length bs. byte_ok m {ReadWrite} (b + i)) \<and>
    (\<forall>x. mp_mem m' x = (if b \<le> unat x \<and> unat x < b + length bs then bs ! (unat x - b) else mp_mem m x))"
proof -
  let ?n = "of_nat (length bs) :: u64" let ?b = "resolve_alias m a ?n"
  have b: "?n \<noteq> 0" "host_ok m {ReadWrite} ?b (length bs)" "m' = m\<lparr>mp_mem := store_bytes ?b bs (mp_mem m)\<rparr>"
    using w len by (auto simp: write_bytes_iff writable_iff [OF wf] unat_of_nat_lt)
  show "m' = m\<lparr>mp_mem := mp_mem m'\<rparr>" by (simp add: b(3))
  have "unat ?b + length bs \<le> 2 ^ LENGTH(64)" using b(2) by (simp add: host_ok_def)
  from store_bytes_at [OF this, of "mp_mem m"] b
  show "\<exists>b. redirects m a (length bs) b \<and> (\<forall>i<length bs. byte_ok m {ReadWrite} (b + i)) \<and>
      (\<forall>x. mp_mem m' x = (if b \<le> unat x \<and> unat x < b + length bs then bs ! (unat x - b) else mp_mem m x))"
    using resolve_redirects [OF wf b(1), of a] host_byte_ok [OF b(2)] len
    by (intro conjI exI [of _ "unat ?b"]) (simp_all add: in_range_def unat_of_nat_lt)
qed

text \<open>(C33) Memory safety of guest accesses. In every state the memory map can reach, a
  translated pointer, an accepted read and an accepted write go where the alias windows redirect the
  range. Every byte they touch lies inside the 16 GiB reservation, on a committed page whose
  protection allows the access; a read returns exactly those bytes, and a write stores exactly its
  data there, leaving every other byte and the rest of the map as it was. The committed page
  counter is the number of committed pages.\<close>

theorem mem_access_in_bounds:
  assumes "mem_reach m" "length bs < 2 ^ 64"
  shows "(\<forall>p. mem_translate m a = Some p \<longrightarrow> redirects m a 1 (unat p) \<and> byte_ok m {ReadOnly, ReadWrite} (unat p)) \<and>
    (\<forall>n ds. mem_read_bytes m a n = Some ds \<longrightarrow> length ds = unat n \<and> (\<exists>b. redirects m a (unat n) b \<and>
       (\<forall>i<unat n. byte_ok m {ReadOnly, ReadWrite} (b + i) \<and> ds ! i = mp_mem m (of_nat (b + i))))) \<and>
    (\<forall>m'. mem_write_bytes a bs m = (True, m') \<longrightarrow> m' = m\<lparr>mp_mem := mp_mem m'\<rparr> \<and> (\<exists>b. redirects m a (length bs) b \<and>
       (\<forall>i<length bs. byte_ok m {ReadWrite} (b + i)) \<and>
       (\<forall>x. mp_mem m' x = (if b \<le> unat x \<and> unat x < b + length bs then bs ! (unat x - b) else mp_mem m x)))) \<and>
    unat (mp_committed_pages m) = card {i. mp_committed m i}"
proof -
  have wf: "mem_wf m" by (rule mem_reach_wf [OF assms(1)])
  note ok = host_byte_ok
  have rd: "length ds = unat n \<and> (\<exists>b. redirects m a (unat n) b \<and>
      (\<forall>i<unat n. byte_ok m {ReadOnly, ReadWrite} (b + i) \<and> ds ! i = mp_mem m (of_nat (b + i))))"
    if "mem_read_bytes m a n = Some ds" for n ds
  proof -
    let ?b = "resolve_alias m a n"
    have "n \<noteq> 0" "host_ok m {ReadOnly, ReadWrite} ?b (unat n)" "ds = load_bytes (unat n) ?b (mp_mem m)"
      using that by (auto simp: mem_read_bytes_def readable_iff [OF wf] split: if_splits)
    then show ?thesis using resolve_redirects [OF wf, of n a] ok
      by (auto simp: load_bytes_nth intro!: exI [of _ "unat ?b"])
  qed
  have tr: "redirects m a 1 (unat p) \<and> byte_ok m {ReadOnly, ReadWrite} (unat p)" if "mem_translate m a = Some p" for p
    using that resolve_redirects [OF wf, of 1 a] ok [of m _ p 1 0] by (auto simp: mem_translate_def readable_iff [OF wf] split: if_splits)
  note wr = write_bytes_exact [OF wf assms(2)]
  have "unat (mp_committed_pages m) = card {i. mp_committed m i}" using wf by (simp add: mem_wf_def)
  with rd tr wr show ?thesis by meson
qed

definition demo_mem :: mem_map where
  "demo_mem = snd (mem_commit_range 0x2000 0x1000 (snd (mem_reserve True (MemMap 4096 (\<lambda>_. True)))))"

lemma demo_mem_reach: "mem_reach demo_mem"
  unfolding demo_mem_def
  by (rule mem_reach.commit_range, rule mem_reach.reserve, rule mem_reach.init [of 12]) (simp_all add: mem_page_size_def)

lemma demo_mem_fields:
  "mp_base demo_mem" "mp_page demo_mem = 4096" "mp_pages demo_mem = 4194304" "mp_aliases demo_mem = []"
  "mp_committed demo_mem = (\<lambda>_. False)(2 := True)" "mp_prot demo_mem = (\<lambda>_. ReadWrite)(2 := ReadWrite)"
  "mp_mem demo_mem = (\<lambda>_. 0)" "mp_mprotect demo_mem = (\<lambda>_. True)"
  by (simp_all add: demo_mem_def mem_reserve_def MemMap_def mem_page_size_def mem_commit_range_def mem_in_range_def
      kTotalSize_def kFastSize_def kSlowSize_def push_bit_eq_mult page_addrs_def page_floor_def visited.simps
      mem_commit_page_def Let_def)

lemma demo_mem_writable: "mem_writable demo_mem 0x2010 4"
  by (simp add: mem_writable_def demo_mem_fields mem_in_range_def kTotalSize_def kFastSize_def kSlowSize_def
      push_bit_eq_mult mem_span_def page_addrs_def page_floor_def visited.simps resolve_alias_def)

theorem mem_access_in_bounds_witness:
  "\<exists>m'. mem_write_bytes 0x2010 [1, 2, 3, 4] demo_mem = (True, m') \<and> byte_ok demo_mem {ReadWrite} 0x2013 \<and> mp_mem m' 0x2011 = 2 \<and>
     mp_mem m' 0x2014 = mp_mem demo_mem 0x2014"
proof -
  have w: "mem_write_bytes 0x2010 [1, 2, 3, 4] demo_mem = (True, demo_mem\<lparr>mp_mem := store_bytes 0x2010 [1, 2, 3, 4] (mp_mem demo_mem)\<rparr>)"
    (is "_ = (True, ?m)") using demo_mem_writable by (simp add: mem_write_bytes_def resolve_alias_def demo_mem_fields)
  have len: "length [1, 2, 3, 4 :: u8] = 4" "length [1, 2, 3, 4 :: u8] < 2 ^ 64" by simp_all
  note acc = mem_access_in_bounds [OF demo_mem_reach len(2), of "0x2010", unfolded len(1)]
  from conjunct1 [OF conjunct2 [OF conjunct2 [OF acc]]] w
  obtain b where b: "redirects demo_mem 0x2010 4 b" "\<forall>i<4. byte_ok demo_mem {ReadWrite} (b + i)"
    "\<forall>x. mp_mem ?m x = (if b \<le> unat x \<and> unat x < b + 4 then [1, 2, 3, 4] ! (unat x - b) else mp_mem demo_mem x)"
    by blast
  have "b = 0x2010" using b(1) by (simp add: redirects_def demo_mem_fields)
  then have "byte_ok demo_mem {ReadWrite} 0x2013" "mp_mem ?m 0x2011 = 2" "mp_mem ?m 0x2014 = mp_mem demo_mem 0x2014"
    using b(2) [rule_format, of 3] by simp_all
  with w show ?thesis by blast
qed

text \<open>Alias windows mirror their source. In every reachable state an access that lies
  inside a window reads and writes exactly the bytes of the source range, so what is written
  through either address is read back through both, provided the source range is not itself
  inside another window.\<close>

lemma alias_mirrors_source:
  assumes "mem_reach m" "w \<in> set (mp_aliases m)" "window_has w a (of_nat (length bs))" "length bs < 2 ^ 64"
    "\<forall>v\<in>set (mp_aliases m). \<not> window_has v (al_src w + (a - al_dst w)) (of_nat (length bs))"
    "mem_write_bytes a bs m = (True, m')"
  shows "mem_write_bytes (al_src w + (a - al_dst w)) bs m = (True, m') \<and>
    mem_read_bytes m' a (of_nat (length bs)) = Some bs \<and>
    mem_read_bytes m' (al_src w + (a - al_dst w)) (of_nat (length bs)) = Some bs"
proof -
  let ?n = "of_nat (length bs) :: u64" and ?s = "al_src w + (a - al_dst w)"
  have wf: "mem_wf m" by (rule mem_reach_wf [OF assms(1)])
  then have al: "list_all alias_wf (mp_aliases m)" "sorted_wrt alias_disjoint (mp_aliases m)" "alias_wf w"
    using assms(2) by (auto simp: mem_wf_def list_all_iff)
  have r: "resolve_alias m a ?n = ?s" "resolve_alias m ?s ?n = ?s"
    using resolve_in_window [OF al(1,2) assms(2,3)] resolve_in_outside [OF al(1) assms(5)]
    by (simp_all add: resolve_alias_def)
  have "mem_writable m ?s ?n"
    using assms(6) unat_redirect(2) [OF al(3) assms(3)] by (simp add: write_bytes_iff writable_iff [OF wf] r)
  then have s: "mem_write_bytes ?s bs m = (True, m')" using assms(6) by (simp add: write_bytes_iff r)
  from s write_read_back [OF wf assms(4,6)] write_read_back [OF wf assms(4) s] show ?thesis by blast
qed

definition demo_alias :: mem_map where
  "demo_alias = snd (alias_map 0x10000 0x2000 0x100 demo_mem)"

lemma demo_alias_eq: "demo_alias = demo_mem\<lparr>mp_aliases := [\<lparr>al_dst = 0x10000, al_src = 0x2000, al_size = 0x100\<rparr>]\<rparr>"
  by (simp add: demo_alias_def alias_map_def mem_in_range_def kTotalSize_def kFastSize_def kSlowSize_def
      push_bit_eq_mult demo_mem_fields)

lemma alias_mirrors_source_witness:
  "\<exists>m'. mem_write_bytes 0x10010 [7, 8, 9, 10] demo_alias = (True, m') \<and> mem_read_bytes m' 0x2010 4 = Some [7, 8, 9, 10]"
proof -
  have reach: "mem_reach demo_alias" unfolding demo_alias_def by (rule mem_reach.alias_on [OF demo_mem_reach])
  let ?w = "\<lparr>al_dst = 0x10000, al_src = 0x2000, al_size = 0x100\<rparr>"
  have "mem_writable demo_alias 0x10010 4"
    by (simp add: demo_alias_eq mem_writable_def demo_mem_fields mem_in_range_def kTotalSize_def kFastSize_def
        kSlowSize_def push_bit_eq_mult mem_span_def page_addrs_def page_floor_def visited.simps resolve_alias_def)
  then obtain m' where w: "mem_write_bytes 0x10010 [7, 8, 9, 10] demo_alias = (True, m')"
    by (simp add: mem_write_bytes_def)
  have "?w \<in> set (mp_aliases demo_alias)" by (simp add: demo_alias_eq)
  from alias_mirrors_source [OF reach this _ _ _ w] w show ?thesis
    by (simp add: window_has_def demo_alias_eq)
qed

text \<open>Committing and protecting a range. On a reservation the host lets grow, both
  calls succeed on every range of the 16 GiB; afterwards the range is readable exactly unless it
  was made inaccessible and writable exactly when it was made read-write, its contents are
  unchanged, and every page outside the range keeps its state.\<close>

lemma commit_protect_rights:
  assumes "mem_plain m" "mp_base m" "mem_in_range a n" "n \<noteq> 0" "\<forall>i. mp_mprotect m i"
  shows "\<exists>m1 m2. mem_commit_range a n m = (True, m1) \<and> mem_protect a n p m1 = (True, m2) \<and>
    (mem_readable m2 a n \<longleftrightarrow> p \<noteq> NoAccess) \<and> (mem_writable m2 a n \<longleftrightarrow> p = ReadWrite) \<and> mp_mem m2 = mp_mem m \<and>
    (\<forall>i. i \<notin> set (mem_span m a n) \<longrightarrow> mp_committed m2 i = mp_committed m i \<and> mp_prot m2 i = mp_prot m i)"
proof -
  have wf: "mem_wf m" and al: "mp_aliases m = []" using assms(1) by (auto simp: mem_plain_def)
  obtain ok m1 where c: "commit_each (page_addrs m a n) m = (ok, m1)" by fastforce
  note e = commit_each_effect [OF wf c] page_addrs_bound [OF wf assms(3)]
  have e1: "mem_wf m1" "mp_base m1" "mp_page m1 = mp_page m" "mp_aliases m1 = []" "mp_mem m1 = mp_mem m" "ok"
    "mp_mprotect m1 = mp_mprotect m"
    "\<And>i. mp_committed m1 i = (mp_committed m i \<or> i \<in> set (mem_span m a n))"
    "\<And>i. mp_prot m1 i = (if i \<in> set (mem_span m a n) then ReadWrite else mp_prot m i)"
    using e assms(2,5) al by (auto simp: mem_span_def)
  have sp: "mem_span m1 a n = mem_span m a n" by (simp add: mem_span_def page_addrs_def e1(3))
  have pg: "\<forall>i\<in>set (mem_span m1 a n). i < mp_pages m1"
    using e1(1,8) unfolding mem_wf_def sp by blast
  have pos: "mp_pages m1 \<noteq> 0" using page_in_table [OF e1(1,2), of 0] by auto
  have "mem_is_committed m1 a n"
    using e1(2,8) assms(3) pos pg by (simp add: mem_is_committed_def list_all_iff sp)
  moreover obtain ok2 m2 where q: "protect_each p (mem_span m1 a n) m1 = (ok2, m2)" by fastforce
  moreover from protect_each_effect [OF q pg] assms(5) e1(7) obtain f where
    f: "ok2" "m2 = m1\<lparr>mp_prot := f\<rparr>" "\<forall>i. i \<notin> set (mem_span m a n) \<longrightarrow> f i = mp_prot m1 i"
      "\<forall>i\<in>set (mem_span m a n). f i = p" by (auto simp: sp)
  moreover have c1: "mem_commit_range a n m = (True, m1)" using c e1(6) assms(2-4) by (simp add: mem_commit_range_def)
  ultimately have pr: "mem_protect a n p m1 = (True, m2)" using e1(2) assms(4) by (simp add: mem_protect_def)
  have "mem_span m2 a n = mem_span m a n" by (simp add: f(2) mem_span_def page_addrs_def e1(3))
  moreover have "resolve_alias m2 a n = a" by (simp add: f(2) resolve_alias_def e1(4))
  moreover have "page_pow2 m" "0 < unat n" using wf assms(4) by (auto simp: mem_wf_def unat_gt_0)
  with mem_span_set [OF _ assms(3), of m "unat a div unat (mp_page m)"] obtain i where "i \<in> set (mem_span m a n)"
    using div_times_less_eq_dividend [of "unat a" "unat (mp_page m)"] by auto
  ultimately have "(mem_readable m2 a n \<longleftrightarrow> p \<noteq> NoAccess) \<and> (mem_writable m2 a n \<longleftrightarrow> p = ReadWrite)"
    using f(2,4) e1(2,8) pg assms(3,4) by (auto simp: mem_readable_def mem_writable_def list_all_iff sp)
  moreover have "mp_mem m2 = mp_mem m" using f(2) e1(5) by simp
  moreover have "\<forall>i. i \<notin> set (mem_span m a n) \<longrightarrow> mp_committed m2 i = mp_committed m i \<and> mp_prot m2 i = mp_prot m i"
    using f(2,3) e1(8,9) by simp
  ultimately show ?thesis using c1 pr by blast
qed

lemma commit_protect_rights_witness:
  "\<exists>m1 m2. mem_commit_range 0x5800 0x1000 demo_mem = (True, m1) \<and> mem_protect 0x5800 0x1000 ReadOnly m1 = (True, m2) \<and>
     mem_readable m2 0x5800 0x1000 \<and> \<not> mem_writable m2 0x5800 0x1000"
proof -
  have "mem_plain demo_mem" using mem_reach_wf [OF demo_mem_reach] by (simp add: mem_plain_def demo_mem_fields)
  from commit_protect_rights [OF this, of "0x5800" "0x1000" ReadOnly] show ?thesis
    by (auto simp: demo_mem_fields mem_in_range_iff)
qed

end
