(* ===== verification/Xbox_Vfs.thy ===== *)
theory Xbox_Vfs
  imports Prelude
begin

text \<open>
  The homebrew virtual file system \<open>Vfs\<close> (\<open>src/src/xbox_vfs.cpp\<close>, \<open>src/include/xbox_vfs.h\<close>):
  named byte vectors kept in a list in creation order. Each method runs under the internal mutex,
  so it is one atomic operation on the list. Output parameters are results: \<open>None\<close> where the
  method returns false.
\<close>

section \<open>State and operations\<close>

type_synonym vfs = "(string \<times> u8 list) list"

definition kMaxFile :: nat where "kMaxFile = 64 * 2 ^ 20"

fun has_dotdot :: "string \<Rightarrow> bool" where
  "has_dotdot (c # d # cs) \<longleftrightarrow> c = CHR ''.'' \<and> d = CHR ''.'' \<or> has_dotdot (d # cs)"
| "has_dotdot _ \<longleftrightarrow> False"

definition valid_path :: "string \<Rightarrow> bool" where
  "valid_path path \<longleftrightarrow>
     \<not> length path < 4 \<and>
     (path ! 0 = CHR ''S'' \<or> path ! 0 = CHR ''T'' \<or> path ! 0 = CHR ''U'') \<and>
     path ! 1 = CHR '':'' \<and> path ! 2 = CHR 0x5C \<and>
     (let rest = drop 3 path in
      rest \<noteq> [] \<and> \<not> has_dotdot rest \<and> list_all (\<lambda>c. c \<noteq> CHR 0x00 \<and> c \<noteq> CHR '':'') rest)"

fun vfs_find :: "vfs \<Rightarrow> string \<Rightarrow> u8 list option" where
  "vfs_find [] path = None"
| "vfs_find ((k, d) # fs) path = (if k = path then Some d else vfs_find fs path)"

text \<open>Assignment through the pointer that \<open>find\<close> returns.\<close>

fun vfs_assign :: "string \<Rightarrow> u8 list \<Rightarrow> vfs \<Rightarrow> vfs" where
  "vfs_assign path data [] = []"
| "vfs_assign path data ((k, d) # fs) =
     (if k = path then (k, data) # fs else (k, d) # vfs_assign path data fs)"

definition create_file :: "string \<Rightarrow> u8 list \<Rightarrow> vfs \<Rightarrow> bool \<times> vfs" where
  "create_file path data v =
     (if \<not> valid_path path \<or> length data > kMaxFile then (False, v)
      else if vfs_find v path \<noteq> None then (False, v)
      else (True, v @ [(path, data)]))"

text \<open>The overload that takes a pointer and a size; the pointer is \<open>None\<close> or the bytes behind it.\<close>

definition create_file_raw :: "string \<Rightarrow> u8 list option \<Rightarrow> nat \<Rightarrow> vfs \<Rightarrow> bool \<times> vfs" where
  "create_file_raw path data sz v =
     (if data = None \<and> sz \<noteq> 0 then (False, v)
      else if sz > kMaxFile then (False, v)
      else create_file path (case data of None \<Rightarrow> [] | Some bytes \<Rightarrow> take sz bytes) v)"

definition write_file :: "string \<Rightarrow> u8 list \<Rightarrow> vfs \<Rightarrow> bool \<times> vfs" where
  "write_file path data v =
     (if \<not> valid_path path \<or> length data > kMaxFile then (False, v)
      else if vfs_find v path \<noteq> None then (True, vfs_assign path data v)
      else (True, v @ [(path, data)]))"

definition read_file :: "vfs \<Rightarrow> string \<Rightarrow> u8 list option" where
  "read_file v path = (if \<not> valid_path path then None else vfs_find v path)"

definition read_slice :: "vfs \<Rightarrow> string \<Rightarrow> u64 \<Rightarrow> u64 \<Rightarrow> u8 list option" where
  "read_slice v path offset sz =
     (if \<not> valid_path path \<or> sz = 0 then None
      else case vfs_find v path of
        None \<Rightarrow> None
      | Some slot \<Rightarrow>
          if unat offset > length slot \<or> unat sz > length slot - unat offset then None
          else Some (take (unat sz) (drop (unat offset) slot)))"

definition vfs_exists :: "vfs \<Rightarrow> string \<Rightarrow> bool" where
  "vfs_exists v path \<longleftrightarrow> valid_path path \<and> vfs_find v path \<noteq> None"

definition file_size :: "vfs \<Rightarrow> string \<Rightarrow> nat option" where
  "file_size v path = (if \<not> valid_path path then None else map_option length (vfs_find v path))"

fun vfs_erase :: "string \<Rightarrow> vfs \<Rightarrow> vfs option" where
  "vfs_erase path [] = None"
| "vfs_erase path ((k, d) # fs) = (if k = path then Some fs else map_option ((#) (k, d)) (vfs_erase path fs))"

definition remove_file :: "string \<Rightarrow> vfs \<Rightarrow> bool \<times> vfs" where
  "remove_file path v =
     (if \<not> valid_path path then (False, v)
      else case vfs_erase path v of None \<Rightarrow> (False, v) | Some fs \<Rightarrow> (True, fs))"

section \<open>The list implements a finite map\<close>

lemma vfs_find_map_of: "vfs_find v = map_of v"
proof
  fix p show "vfs_find v p = map_of v p" by (induction v) auto
qed

lemma assign_map_of: "map_of v p \<noteq> None \<Longrightarrow> map_of (vfs_assign p d v) = (map_of v)(p \<mapsto> d)"
  by (induction v) (auto simp: fun_eq_iff)

lemma assign_keys: "map fst (vfs_assign p d v) = map fst v"
  by (induction v) auto

lemma assign_entries: "set (vfs_assign p d v) \<subseteq> insert (p, d) (set v)"
  by (induction v) (auto split: if_splits)

lemma erase_map_of:
  "distinct (map fst v) \<Longrightarrow> (case vfs_erase p v of None \<Rightarrow> map_of v p = None
     | Some w \<Rightarrow> map_of v p \<noteq> None \<and> map_of w = (map_of v)(p := None) \<and> distinct (map fst w) \<and> set w \<subseteq> set v)"
proof (induction v)
  case (Cons e v)
  obtain k d where e: "e = (k, d)" by force
  show ?case
  proof (cases "k = p")
    case True
    then have "map_of v p = None" using Cons.prems e by (simp add: map_of_eq_None_iff)
    then show ?thesis using True Cons.prems e by (auto simp: fun_eq_iff)
  next
    case False
    have "k \<notin> fst ` set w" if "set w \<subseteq> set v" for w using that Cons.prems e by (auto simp: image_iff)
    with False show ?thesis using Cons.IH Cons.prems e
      by (auto simp: fun_eq_iff split: option.splits)
  qed
qed simp

definition vfs_wf :: "vfs \<Rightarrow> bool" where
  "vfs_wf v \<longleftrightarrow> distinct (map fst v) \<and> list_all (\<lambda>(p, d). valid_path p \<and> length d \<le> kMaxFile) v"

lemma vfs_wf_entry: "vfs_wf v \<Longrightarrow> map_of v p = Some d \<Longrightarrow> valid_path p \<and> length d \<le> kMaxFile"
  by (auto simp: vfs_wf_def list_all_iff dest: map_of_SomeD)

lemma append_map_of: "p \<notin> fst ` set v \<Longrightarrow> [p \<mapsto> d] ++ map_of v = (map_of v)(p \<mapsto> d)"
  by (auto simp: fun_eq_iff map_add_def map_of_eq_None_iff [symmetric] split: option.splits)

lemma create_effect:
  assumes "vfs_wf v" "create_file p d v = (ok, v')"
  shows "vfs_wf v' \<and> (ok \<longleftrightarrow> valid_path p \<and> length d \<le> kMaxFile \<and> map_of v p = None) \<and>
    map_of v' = (if ok then (map_of v)(p \<mapsto> d) else map_of v)"
proof (cases "valid_path p \<and> length d \<le> kMaxFile \<and> map_of v p = None")
  case True
  then have "ok" "v' = v @ [(p, d)]" using assms(2) by (auto simp: create_file_def vfs_find_map_of)
  with True assms(1) show ?thesis
    by (auto simp: vfs_wf_def append_map_of map_of_eq_None_iff)
qed (use assms in \<open>auto simp: create_file_def vfs_find_map_of split: if_splits\<close>)

lemma write_effect:
  assumes "vfs_wf v" "write_file p d v = (ok, v')"
  shows "vfs_wf v' \<and> (ok \<longleftrightarrow> valid_path p \<and> length d \<le> kMaxFile) \<and>
    map_of v' = (if ok then (map_of v)(p \<mapsto> d) else map_of v)"
proof (cases "valid_path p \<and> length d \<le> kMaxFile")
  case ok: True
  show ?thesis
  proof (cases "map_of v p")
    case None
    then have "ok" "v' = v @ [(p, d)]" using ok assms(2) by (auto simp: write_file_def vfs_find_map_of)
    with None ok assms(1) show ?thesis by (auto simp: vfs_wf_def append_map_of map_of_eq_None_iff)
  next
    case (Some x)
    then have v': "ok" "v' = vfs_assign p d v" using ok assms(2) by (auto simp: write_file_def vfs_find_map_of)
    have "list_all (\<lambda>(p, d). valid_path p \<and> length d \<le> kMaxFile) v'"
      using assms(1) ok assign_entries [of p d v] by (fastforce simp: v' vfs_wf_def list_all_iff)
    with v' Some ok assms(1) show ?thesis by (simp add: vfs_wf_def assign_keys assign_map_of)
  qed
qed (use assms in \<open>auto simp: write_file_def split: if_splits\<close>)

lemma remove_effect:
  assumes "vfs_wf v" "remove_file p v = (ok, v')"
  shows "vfs_wf v' \<and> (ok \<longleftrightarrow> map_of v p \<noteq> None) \<and> map_of v' = (map_of v)(p := None)"
proof (cases "valid_path p")
  case True
  have "distinct (map fst v)" using assms(1) by (simp add: vfs_wf_def)
  from erase_map_of [OF this, of p] True assms show ?thesis
    by (auto simp: remove_file_def vfs_wf_def list_all_iff fun_upd_idem split: option.splits)
next
  case False
  then have "map_of v p = None" using vfs_wf_entry [OF assms(1), of p] by (cases "map_of v p") auto
  with False assms show ?thesis by (auto simp: remove_file_def fun_upd_idem)
qed

section \<open>Properties\<close>

text \<open>(C38) The file system implements a finite map from valid paths to contents. In a
  well-formed system (paths unique and valid, sizes within the cap), \<open>create_file\<close> adds a binding
  exactly when the path is valid, free and the data fits, \<open>write_file\<close> sets it, \<open>remove_file\<close>
  deletes it, all of them keep the system well-formed and report exactly whether they acted, and
  \<open>read_file\<close>, \<open>file_size\<close> and \<open>read_slice\<close> return the content, its length, and a slice that lies
  inside the file.\<close>

theorem vfs_refines_map:
  assumes "vfs_wf v"
  shows "(case create_file p d v of (ok, v') \<Rightarrow> vfs_wf v' \<and>
      (ok \<longleftrightarrow> valid_path p \<and> length d \<le> kMaxFile \<and> map_of v p = None) \<and>
      map_of v' = (if ok then (map_of v)(p \<mapsto> d) else map_of v)) \<and>
    (case write_file p d v of (ok, v') \<Rightarrow> vfs_wf v' \<and> (ok \<longleftrightarrow> valid_path p \<and> length d \<le> kMaxFile) \<and>
      map_of v' = (if ok then (map_of v)(p \<mapsto> d) else map_of v)) \<and>
    (case remove_file p v of (ok, v') \<Rightarrow> vfs_wf v' \<and> (ok \<longleftrightarrow> map_of v p \<noteq> None) \<and> map_of v' = (map_of v)(p := None)) \<and>
    read_file v p = map_of v p \<and> file_size v p = map_option length (map_of v p) \<and>
    (read_slice v p off n = Some s \<longleftrightarrow> (\<exists>c. map_of v p = Some c \<and> n \<noteq> 0 \<and> unat off + unat n \<le> length c \<and>
       s = take (unat n) (drop (unat off) c)))"
proof -
  have valid: "map_of v p = Some c \<Longrightarrow> valid_path p" for c using vfs_wf_entry [OF assms] by blast
  then have none: "\<not> valid_path p \<Longrightarrow> map_of v p = None" by (cases "map_of v p") auto
  have pos: "n \<noteq> 0 \<Longrightarrow> 0 < unat n" by (simp add: unat_gt_0)
  have "read_slice v p off n = Some s \<longleftrightarrow> (\<exists>c. map_of v p = Some c \<and> n \<noteq> 0 \<and> unat off + unat n \<le> length c \<and>
       s = take (unat n) (drop (unat off) c))"
    using valid pos by (cases "map_of v p") (auto simp: read_slice_def vfs_find_map_of)
  moreover have "read_file v p = map_of v p" "file_size v p = map_option length (map_of v p)"
    using none by (auto simp: read_file_def file_size_def vfs_find_map_of)
  ultimately show ?thesis
    using create_effect [OF assms surjective_pairing] write_effect [OF assms surjective_pairing]
      remove_effect [OF assms surjective_pairing]
    by (simp only: split_beta simp_thms)
qed

definition demo_vfs :: vfs where
  "demo_vfs = snd (write_file (''S:'' @ [CHR 0x5C] @ ''a'') [10, 20, 30, 40, 50, 60] [])"

lemma demo_vfs_eq: "demo_vfs = [(''S:'' @ [CHR 0x5C] @ ''a'', [10, 20, 30, 40, 50, 60])]"
  by (simp add: demo_vfs_def write_file_def valid_path_def kMaxFile_def)

lemma demo_vfs_wf: "vfs_wf demo_vfs"
  by (simp add: demo_vfs_eq vfs_wf_def valid_path_def kMaxFile_def)

theorem vfs_refines_map_witness:
  "read_slice demo_vfs (''S:'' @ [CHR 0x5C] @ ''a'') 1 4 = Some [20, 30, 40, 50] \<and>
     fst (remove_file (''S:'' @ [CHR 0x5C] @ ''a'') demo_vfs)"
  using vfs_refines_map [OF demo_vfs_wf, of "''S:'' @ [CHR 0x5C] @ ''a''" "[]" 1 4 "[20, 30, 40, 50]"]
  by (auto simp: demo_vfs_eq split: prod.splits)

end
