(* ===== verification/Io_Queue.thy ===== *)
theory Io_Queue
  imports Mem_Map Xbox_Vfs
begin

text \<open>
  The asynchronous file-to-memory queue \<open>IoQueue\<close> (\<open>src/src/io_queue.cpp\<close>,
  \<open>src/include/io_queue.h\<close>). A critical section under \<open>mu_\<close> is one step. Client calls are
  functions on the queue state; the worker thread is a program counter \<open>iq_worker\<close> advanced by
  \<open>worker_step\<close>, with one step for each of its critical sections and for each of the two accesses
  it makes without the lock. A client blocked in \<open>enqueue_wait\<close> is an entry of \<open>iq_blocked\<close>.
  \<open>iq_attached\<close> says that the memory and file system pointers are not null.
\<close>

section \<open>State\<close>

datatype io_status = Pending | InFlight | Done | Cancelled | IoError

record req =
  rq_path :: string
  rq_src_offset :: u64
  rq_size :: u64
  rq_dest :: u64
  rq_tag :: u64
  rq_status :: io_status

datatype worker = WWait | WRead req | WWrite req "u8 list" | WFinish req bool | WExit

record ioq =
  iq_attached :: bool
  iq_mem :: mem_map
  iq_vfs :: vfs
  iq_reqs :: "req list"
  iq_in_flight :: nat
  iq_submitted :: bool
  iq_auto_submit :: bool
  iq_stopping :: bool
  iq_worker :: worker
  iq_blocked :: "req list"

definition kCapacity :: nat where "kCapacity = 8"
definition kAutoSubmit :: nat where "kAutoSubmit = kCapacity div 2"

definition IoQueue :: "bool \<Rightarrow> mem_map \<Rightarrow> vfs \<Rightarrow> ioq" where
  "IoQueue attached m v = \<lparr>iq_attached = attached, iq_mem = m, iq_vfs = v, iq_reqs = [], iq_in_flight = 0,
     iq_submitted = False, iq_auto_submit = True, iq_stopping = False, iq_worker = WWait, iq_blocked = []\<rparr>"

section \<open>Client operations\<close>

definition count_status :: "io_status \<Rightarrow> req list \<Rightarrow> nat" where
  "count_status st rs = length (filter (\<lambda>r. rq_status r = st) rs)"

definition pending_locked :: "ioq \<Rightarrow> nat" where
  "pending_locked q = count_status Pending (iq_reqs q)"

definition enqueue_args_ok :: "string \<Rightarrow> u64 \<Rightarrow> u64 \<Rightarrow> ioq \<Rightarrow> bool" where
  "enqueue_args_ok path sz dest q \<longleftrightarrow> \<not> (sz = 0 \<or> \<not> iq_attached q) \<and> valid_path path \<and>
     mem_in_range dest sz \<and> mem_is_committed (iq_mem q) dest sz"

definition tag_known :: "u64 \<Rightarrow> ioq \<Rightarrow> bool" where
  "tag_known tag q \<longleftrightarrow> list_ex (\<lambda>r. rq_tag r = tag) (iq_reqs q)"

definition slots_in_use :: "ioq \<Rightarrow> nat" where
  "slots_in_use q = pending_locked q + iq_in_flight q"

definition new_req :: "string \<Rightarrow> u64 \<Rightarrow> u64 \<Rightarrow> u64 \<Rightarrow> u64 \<Rightarrow> req" where
  "new_req path off sz dest tag = \<lparr>rq_path = path, rq_src_offset = off, rq_size = sz, rq_dest = dest,
     rq_tag = tag, rq_status = Pending\<rparr>"

definition push_req :: "req \<Rightarrow> ioq \<Rightarrow> ioq" where
  "push_req r q =
     (let q1 = q\<lparr>iq_reqs := iq_reqs q @ [r]\<rparr> in
      if iq_auto_submit q1 \<and> pending_locked q1 \<ge> kAutoSubmit \<and> \<not> iq_submitted q1
      then q1\<lparr>iq_submitted := True\<rparr> else q1)"

definition enqueue :: "string \<Rightarrow> u64 \<Rightarrow> u64 \<Rightarrow> u64 \<Rightarrow> u64 \<Rightarrow> ioq \<Rightarrow> bool \<times> ioq" where
  "enqueue path off sz dest tag q =
     (if \<not> enqueue_args_ok path sz dest q then (False, q)
      else if tag_known tag q then (False, q)
      else if slots_in_use q \<ge> kCapacity then (False, q)
      else (True, push_req (new_req path off sz dest tag) q))"

text \<open>The blocking variant returns \<open>None\<close> when the caller goes to sleep; \<open>enqueue_wake\<close> is the rest of
  the call, once the predicate of its wait holds.\<close>

definition enqueue_wait :: "string \<Rightarrow> u64 \<Rightarrow> u64 \<Rightarrow> u64 \<Rightarrow> u64 \<Rightarrow> ioq \<Rightarrow> bool option \<times> ioq" where
  "enqueue_wait path off sz dest tag q =
     (if \<not> enqueue_args_ok path sz dest q then (Some False, q)
      else if tag_known tag q then (Some False, q)
      else if slots_in_use q < kCapacity then (Some True, push_req (new_req path off sz dest tag) q)
      else (None, q\<lparr>iq_blocked := iq_blocked q @ [new_req path off sz dest tag]\<rparr>))"

definition enqueue_wake :: "nat \<Rightarrow> ioq \<Rightarrow> ioq option" where
  "enqueue_wake i q =
     (if i < length (iq_blocked q) \<and> slots_in_use q < kCapacity
      then Some (push_req (iq_blocked q ! i) (q\<lparr>iq_blocked := take i (iq_blocked q) @ drop (Suc i) (iq_blocked q)\<rparr>))
      else None)"

fun cancel_first :: "u64 \<Rightarrow> req list \<Rightarrow> req list option" where
  "cancel_first tag [] = None"
| "cancel_first tag (r # rs) =
     (if rq_tag r = tag \<and> rq_status r = Pending then Some (r\<lparr>rq_status := Cancelled\<rparr> # rs)
      else map_option ((#) r) (cancel_first tag rs))"

definition cancel :: "u64 \<Rightarrow> ioq \<Rightarrow> bool \<times> ioq" where
  "cancel tag q =
     (case cancel_first tag (iq_reqs q) of
        None \<Rightarrow> (False, q)
      | Some rs \<Rightarrow> (True, q\<lparr>iq_reqs := rs\<rparr>))"

definition submit :: "ioq \<Rightarrow> bool \<times> ioq" where
  "submit q =
     (if iq_submitted q then (False, q)
      else if pending_locked q = 0 then (False, q)
      else (True, q\<lparr>iq_submitted := True\<rparr>))"

definition set_auto_submit_enabled :: "bool \<Rightarrow> ioq \<Rightarrow> ioq" where
  "set_auto_submit_enabled on q = q\<lparr>iq_auto_submit := on\<rparr>"

definition shutdown :: "ioq \<Rightarrow> ioq" where
  "shutdown q = q\<lparr>iq_stopping := True\<rparr>"

definition status_of :: "u64 \<Rightarrow> ioq \<Rightarrow> io_status" where
  "status_of tag q = (case find (\<lambda>r. rq_tag r = tag) (iq_reqs q) of Some r \<Rightarrow> rq_status r | None \<Rightarrow> IoError)"

text \<open>The predicates of the waits; a wait returns in a state where its predicate holds.\<close>

definition wait_tag_done :: "u64 \<Rightarrow> ioq \<Rightarrow> bool" where
  "wait_tag_done tag q =
     (case find (\<lambda>r. rq_tag r = tag) (iq_reqs q) of
        Some r \<Rightarrow> rq_status r = Done \<or> rq_status r = Cancelled \<or> rq_status r = IoError
      | None \<Rightarrow> True)"

definition wait_tag :: "u64 \<Rightarrow> ioq \<Rightarrow> io_status option" where
  "wait_tag tag q = (if wait_tag_done tag q then Some (status_of tag q) else None)"

definition wait_all_done :: "ioq \<Rightarrow> bool" where
  "wait_all_done q \<longleftrightarrow> \<not> iq_in_flight q > 0 \<and> (if iq_submitted q then pending_locked q = 0 else True)"

definition completed :: "ioq \<Rightarrow> nat" where
  "completed q = count_status Done (iq_reqs q)"

section \<open>The worker\<close>

fun start_first :: "req list \<Rightarrow> (req \<times> req list) option" where
  "start_first [] = None"
| "start_first (r # rs) =
     (if rq_status r = Pending then let r1 = r\<lparr>rq_status := InFlight\<rparr> in Some (r1, r1 # rs)
      else map_option (\<lambda>(x, xs). (x, r # xs)) (start_first rs))"

fun finish_first :: "u64 \<Rightarrow> io_status \<Rightarrow> req list \<Rightarrow> req list" where
  "finish_first tag st [] = []"
| "finish_first tag st (r # rs) =
     (if rq_tag r = tag \<and> rq_status r = InFlight then r\<lparr>rq_status := st\<rparr> # rs
      else r # finish_first tag st rs)"

definition worker_finish :: "req \<Rightarrow> bool \<Rightarrow> ioq \<Rightarrow> ioq" where
  "worker_finish r ok q =
     (let q1 = q\<lparr>iq_reqs := finish_first (rq_tag r) (if ok then Done else IoError) (iq_reqs q),
                 iq_in_flight := iq_in_flight q - 1, iq_worker := WWait\<rparr>
      in if pending_locked q1 = 0 then q1\<lparr>iq_submitted := False\<rparr> else q1)"

text \<open>One step of \<open>worker_main\<close>; \<open>None\<close> when it sleeps or has returned.\<close>

definition worker_step :: "ioq \<Rightarrow> ioq option" where
  "worker_step q =
     (case iq_worker q of
        WExit \<Rightarrow> None
      | WWait \<Rightarrow>
          if iq_stopping q then Some (q\<lparr>iq_worker := WExit\<rparr>)
          else if \<not> iq_submitted q then None
          else (case start_first (iq_reqs q) of
              None \<Rightarrow> Some (q\<lparr>iq_submitted := False\<rparr>)
            | Some (r, rs) \<Rightarrow> Some (q\<lparr>iq_reqs := rs, iq_in_flight := iq_in_flight q + 1, iq_worker := WRead r\<rparr>))
      | WRead r \<Rightarrow>
          (case read_slice (iq_vfs q) (rq_path r) (rq_src_offset r) (rq_size r) of
              None \<Rightarrow> Some (q\<lparr>iq_worker := WFinish r False\<rparr>)
            | Some data \<Rightarrow> Some (q\<lparr>iq_worker := WWrite r data\<rparr>))
      | WWrite r data \<Rightarrow>
          (case mem_write_bytes (rq_dest r) data (iq_mem q) of
             (ok, m) \<Rightarrow> Some (q\<lparr>iq_mem := m, iq_worker := WFinish r ok\<rparr>))
      | WFinish r ok \<Rightarrow> Some (worker_finish r ok q))"

text \<open>The interleavings: client calls, the worker, and the title changing memory and files.\<close>

inductive io_step :: "ioq \<Rightarrow> ioq \<Rightarrow> bool" where
  enq: "enqueue path off sz dest tag q = (ok, q') \<Longrightarrow> io_step q q'"
| enq_wait: "enqueue_wait path off sz dest tag q = (ok, q') \<Longrightarrow> io_step q q'"
| enq_wake: "enqueue_wake i q = Some q' \<Longrightarrow> io_step q q'"
| cancelling: "cancel tag q = (ok, q') \<Longrightarrow> io_step q q'"
| submitting: "submit q = (ok, q') \<Longrightarrow> io_step q q'"
| auto_submit: "io_step q (set_auto_submit_enabled on q)"
| stop: "io_step q (shutdown q)"
| work: "worker_step q = Some q' \<Longrightarrow> io_step q q'"
| title: "io_step q (q\<lparr>iq_mem := m, iq_vfs := v\<rparr>)"

inductive io_reach :: "ioq \<Rightarrow> bool" where
  init: "io_reach (IoQueue attached m v)"
| step: "io_reach q \<Longrightarrow> io_step q q' \<Longrightarrow> io_reach q'"

inductive_cases io_stepE: "io_step q q'"

section \<open>Invariant\<close>

text \<open>Requests start in the order they were queued: nothing before a started request is still pending.\<close>

definition in_order :: "req list \<Rightarrow> bool" where
  "in_order = sorted_wrt (\<lambda>r s. rq_status s \<in> {InFlight, Done, IoError} \<longrightarrow> rq_status r \<noteq> Pending)"

fun worker_busy :: "worker \<Rightarrow> req option" where
  "worker_busy (WRead r) = Some r"
| "worker_busy (WWrite r d) = Some r"
| "worker_busy (WFinish r ok) = Some r"
| "worker_busy _ = None"

definition io_inv :: "ioq \<Rightarrow> bool" where
  "io_inv q \<longleftrightarrow> iq_in_flight q = count_status InFlight (iq_reqs q) \<and>
     (case worker_busy (iq_worker q) of
        None \<Rightarrow> iq_in_flight q = 0
      | Some r \<Rightarrow> iq_in_flight q = 1 \<and> (\<exists>s\<in>set (iq_reqs q). rq_status s = InFlight \<and> rq_tag s = rq_tag r)) \<and>
     slots_in_use q \<le> kCapacity \<and> in_order (iq_reqs q) \<and> list_all (\<lambda>r. rq_status r = Pending) (iq_blocked q)"

lemma count_simps [simp]:
  "count_status st [] = 0" "count_status st (r # rs) = (if rq_status r = st then 1 else 0) + count_status st rs"
  "count_status st (rs @ ss) = count_status st rs + count_status st ss"
  by (simp_all add: count_status_def)

lemma count_zero: "count_status st rs = 0 \<longleftrightarrow> (\<forall>r\<in>set rs. rq_status r \<noteq> st)"
  by (simp add: count_status_def filter_empty_conv)

lemma in_order_simps [simp]: "in_order []"
  "in_order (r # rs) \<longleftrightarrow> (rq_status r = Pending \<longrightarrow> (\<forall>s\<in>set rs. rq_status s \<notin> {InFlight, Done, IoError})) \<and> in_order rs"
  by (auto simp: in_order_def)

lemma in_order_snoc: "rq_status r = Pending \<Longrightarrow> in_order (rs @ [r]) = in_order rs"
  by (auto simp: in_order_def sorted_wrt_append)

lemma cancel_first_effect:
  "cancel_first tag rs = Some rs' \<Longrightarrow> Suc (count_status Pending rs') = count_status Pending rs \<and>
     count_status InFlight rs' = count_status InFlight rs \<and> (in_order rs \<longrightarrow> in_order rs') \<and>
     {r \<in> set rs'. rq_status r \<in> {InFlight, Done, IoError}} = {r \<in> set rs. rq_status r \<in> {InFlight, Done, IoError}}"
proof (induction rs arbitrary: rs')
  case (Cons r rs)
  show ?case
  proof (cases "rq_tag r = tag \<and> rq_status r = Pending")
    case True with Cons.prems show ?thesis by auto
  next
    case False
    then obtain rs1 where r1: "cancel_first tag rs = Some rs1" "rs' = r # rs1" using Cons.prems by auto
    from Cons.IH [OF r1(1)] r1(2) show ?thesis by auto
  qed
qed simp

lemma start_first_None: "start_first rs = None \<longleftrightarrow> count_status Pending rs = 0"
  by (induction rs) (auto simp: Let_def)

lemma start_first_effect:
  "start_first rs = Some (r, rs') \<Longrightarrow> Suc (count_status Pending rs') = count_status Pending rs \<and>
     count_status InFlight rs' = Suc (count_status InFlight rs) \<and> (in_order rs \<longrightarrow> in_order rs') \<and>
     r \<in> set rs' \<and> rq_status r = InFlight \<and>
     (\<exists>i<length rs. rs' = rs[i := r] \<and> r = (rs ! i)\<lparr>rq_status := InFlight\<rparr> \<and> rq_status (rs ! i) = Pending \<and>
        (\<forall>j<i. rq_status (rs ! j) \<noteq> Pending))"
proof (induction rs arbitrary: rs')
  case (Cons x rs)
  show ?case
  proof (cases "rq_status x = Pending")
    case True
    with Cons.prems show ?thesis by (auto simp: Let_def intro!: exI [of _ 0])
  next
    case False
    then obtain rs1 where r1: "start_first rs = Some (r, rs1)" "rs' = x # rs1" using Cons.prems by auto
    from Cons.IH [OF r1(1)] obtain i where i: "i < length rs" "rs1 = rs[i := r]" "r = (rs ! i)\<lparr>rq_status := InFlight\<rparr>"
      "rq_status (rs ! i) = Pending" "\<forall>j<i. rq_status (rs ! j) \<noteq> Pending" by blast
    then have "\<exists>k<length (x # rs). rs' = (x # rs)[k := r] \<and> r = ((x # rs) ! k)\<lparr>rq_status := InFlight\<rparr> \<and>
        rq_status ((x # rs) ! k) = Pending \<and> (\<forall>j<k. rq_status ((x # rs) ! j) \<noteq> Pending)"
      using False r1(2) by (intro exI [of _ "Suc i"]) (auto simp: nth_Cons split: nat.splits)
    with Cons.IH [OF r1(1)] r1(2) False show ?thesis by auto
  qed
qed simp

lemma finish_first_effect:
  "\<exists>s\<in>set rs. rq_status s = InFlight \<and> rq_tag s = tag \<Longrightarrow> st \<in> {Done, IoError} \<Longrightarrow>
     count_status Pending (finish_first tag st rs) = count_status Pending rs \<and>
     Suc (count_status InFlight (finish_first tag st rs)) = count_status InFlight rs \<and>
     (in_order rs \<longrightarrow> in_order (finish_first tag st rs)) \<and>
     (\<exists>i<length rs. finish_first tag st rs = rs[i := (rs ! i)\<lparr>rq_status := st\<rparr>] \<and> rq_status (rs ! i) = InFlight)"
proof (induction rs)
  case (Cons r rs)
  show ?case
  proof (cases "rq_tag r = tag \<and> rq_status r = InFlight")
    case True
    with Cons.prems show ?thesis by (auto intro!: exI [of _ 0])
  next
    case False
    with Cons.prems have ex: "\<exists>s\<in>set rs. rq_status s = InFlight \<and> rq_tag s = tag" by auto
    from Cons.IH [OF this Cons.prems(2)] obtain i where i: "i < length rs"
      "finish_first tag st rs = rs[i := (rs ! i)\<lparr>rq_status := st\<rparr>]" "rq_status (rs ! i) = InFlight" by blast
    have "rq_status r \<noteq> Pending" if "in_order (r # rs)" using that ex by auto
    moreover have "\<exists>k<length (r # rs). finish_first tag st (r # rs) = (r # rs)[k := ((r # rs) ! k)\<lparr>rq_status := st\<rparr>] \<and>
        rq_status ((r # rs) ! k) = InFlight"
      using False i by (intro exI [of _ "Suc i"]) auto
    ultimately show ?thesis using Cons.IH [OF ex Cons.prems(2)] False by auto
  qed
qed simp

lemma push_fields:
  "iq_reqs (push_req r q) = iq_reqs q @ [r]" "iq_in_flight (push_req r q) = iq_in_flight q"
  "iq_worker (push_req r q) = iq_worker q" "iq_blocked (push_req r q) = iq_blocked q"
  by (simp_all add: push_req_def Let_def)

lemma io_inv_push:
  assumes "io_inv q" "slots_in_use q < kCapacity" "rq_status r = Pending"
  shows "io_inv (push_req r q)"
  using assms by (auto simp: io_inv_def slots_in_use_def pending_locked_def push_fields in_order_snoc split: option.splits)

lemma io_inv_frame:
  assumes "io_inv q" "iq_reqs q' = iq_reqs q" "iq_in_flight q' = iq_in_flight q" "worker_busy (iq_worker q') = worker_busy (iq_worker q)"
    "list_all (\<lambda>r. rq_status r = Pending) (iq_blocked q')"
  shows "io_inv q'"
  using assms unfolding io_inv_def slots_in_use_def pending_locked_def by (simp split: option.splits)

lemma io_inv_cancel:
  assumes "io_inv q" "cancel tag q = (ok, q')"
  shows "io_inv q'"
proof (cases "cancel_first tag (iq_reqs q)")
  case (Some rs)
  then have q': "q' = q\<lparr>iq_reqs := rs\<rparr>" using assms(2) by (simp add: cancel_def)
  note e = cancel_first_effect [OF Some]
  have "\<exists>s\<in>set rs. rq_status s = InFlight \<and> rq_tag s = t" if "\<exists>s\<in>set (iq_reqs q). rq_status s = InFlight \<and> rq_tag s = t" for t
    using that e by blast
  with e assms(1) show ?thesis
    by (auto simp: io_inv_def q' slots_in_use_def pending_locked_def split: option.splits)
qed (use assms in \<open>simp add: cancel_def\<close>)

lemma io_inv_finish:
  assumes "io_inv q" "worker_busy (iq_worker q) = Some r"
  shows "io_inv (worker_finish r ok q)"
proof -
  have "\<exists>s\<in>set (iq_reqs q). rq_status s = InFlight \<and> rq_tag s = rq_tag r" using assms by (simp add: io_inv_def)
  from finish_first_effect [OF this, of "if ok then Done else IoError"] assms show ?thesis
    by (auto simp: io_inv_def worker_finish_def Let_def slots_in_use_def pending_locked_def)
qed

lemma io_inv_worker:
  assumes "io_inv q" "worker_step q = Some q'"
  shows "io_inv q'"
proof (cases "iq_worker q")
  case WWait
  show ?thesis
  proof (cases "start_first (iq_reqs q)")
    case None
    with WWait assms show ?thesis by (auto simp: worker_step_def io_inv_def slots_in_use_def pending_locked_def split: if_splits)
  next
    case (Some x)
    obtain r rs where x: "x = (r, rs)" by force
    from start_first_effect [OF Some [unfolded x]] have
      "Suc (count_status Pending rs) = count_status Pending (iq_reqs q)" "r \<in> set rs" "rq_status r = InFlight"
      "count_status InFlight rs = Suc (count_status InFlight (iq_reqs q))" "in_order (iq_reqs q) \<longrightarrow> in_order rs" by simp_all
    with WWait assms Some x show ?thesis
      by (auto simp: worker_step_def io_inv_def slots_in_use_def pending_locked_def split: if_splits)
  qed
next
  case (WFinish r ok)
  then have "q' = worker_finish r ok q" "worker_busy (iq_worker q) = Some r" using assms(2) by (simp_all add: worker_step_def)
  with io_inv_finish [OF assms(1)] show ?thesis by simp
qed (use assms in \<open>auto simp: worker_step_def io_inv_def slots_in_use_def pending_locked_def split: option.splits prod.splits\<close>)

lemma io_inv_step:
  assumes "io_step q q'" "io_inv q" shows "io_inv q'"
  using assms(1)
proof (cases rule: io_step.cases)
  case enq
  then show ?thesis using assms(2) io_inv_push [OF assms(2)]
    by (auto simp: enqueue_def new_req_def split: if_splits)
next
  case enq_wait
  have "io_inv (q\<lparr>iq_blocked := iq_blocked q @ [new_req p f z d t]\<rparr>)" for p f z d t
    using assms(2) by (rule io_inv_frame) (use assms(2) in \<open>simp_all add: io_inv_def new_req_def\<close>)
  then show ?thesis using enq_wait assms(2) io_inv_push [OF assms(2)]
    by (auto simp: enqueue_wait_def new_req_def split: if_splits)
next
  case (enq_wake i)
  let ?q = "q\<lparr>iq_blocked := take i (iq_blocked q) @ drop (Suc i) (iq_blocked q)\<rparr>"
  have q': "i < length (iq_blocked q)" "slots_in_use q < kCapacity" "q' = push_req (iq_blocked q ! i) ?q"
    using enq_wake by (auto simp: enqueue_wake_def split: if_splits)
  have "list_all (\<lambda>r. rq_status r = Pending) (iq_blocked q)" using assms(2) by (simp add: io_inv_def)
  then have "io_inv ?q" "rq_status (iq_blocked q ! i) = Pending"
    using io_inv_frame [OF assms(2), of ?q] q'(1) by (auto simp: list_all_iff dest: in_set_takeD in_set_dropD)
  then show ?thesis using q' io_inv_push [of ?q] by (simp add: slots_in_use_def pending_locked_def)
next
  case work then show ?thesis using io_inv_worker [OF assms(2)] by blast
next
  case cancelling then show ?thesis using io_inv_cancel [OF assms(2)] by blast
next
  case submitting
  then show ?thesis using assms(2) by (auto simp: submit_def io_inv_def slots_in_use_def pending_locked_def split: if_splits option.splits)
qed (use assms(2) in \<open>auto simp: set_auto_submit_enabled_def shutdown_def io_inv_def slots_in_use_def pending_locked_def split: option.splits\<close>)

lemma io_reach_inv: "io_reach q \<Longrightarrow> io_inv q"
proof (induction rule: io_reach.induct)
  case (init attached m v)
  show ?case by (simp add: IoQueue_def io_inv_def slots_in_use_def pending_locked_def)
qed (rule io_inv_step)

section \<open>The worker drains the queue\<close>

fun worker_phase :: "worker \<Rightarrow> nat" where
  "worker_phase WExit = 0"
| "worker_phase WWait = 1"
| "worker_phase (WFinish r ok) = 2"
| "worker_phase (WWrite r d) = 3"
| "worker_phase (WRead r) = 4"

definition worker_measure :: "ioq \<Rightarrow> nat" where
  "worker_measure q = 5 * pending_locked q + worker_phase (iq_worker q) + (if iq_submitted q then 1 else 0)"

lemma finish_first_pending: "st \<noteq> Pending \<Longrightarrow> count_status Pending (finish_first tag st rs) = count_status Pending rs"
  by (induction rs) auto

lemma finish_pending: "pending_locked (worker_finish r ok q) = pending_locked q"
  by (simp add: worker_finish_def Let_def pending_locked_def finish_first_pending)

lemma worker_step_measure:
  assumes "worker_step q = Some q'" shows "worker_measure q' < worker_measure q"
proof (cases "iq_worker q")
  case WWait
  show ?thesis
  proof (cases "start_first (iq_reqs q)")
    case None
    with WWait assms show ?thesis by (auto simp: worker_step_def worker_measure_def pending_locked_def split: if_splits)
  next
    case (Some x)
    obtain r rs where x: "x = (r, rs)" by force
    from start_first_effect [OF Some [unfolded x]] have "Suc (count_status Pending rs) = count_status Pending (iq_reqs q)" by simp
    with WWait assms Some x show ?thesis
      by (auto simp: worker_step_def worker_measure_def pending_locked_def split: if_splits)
  qed
next
  case (WFinish r ok)
  then have "q' = worker_finish r ok q" using assms by (simp add: worker_step_def)
  then show ?thesis using WFinish finish_pending [of r ok q]
    by (simp add: worker_measure_def) (simp add: worker_finish_def Let_def)
qed (use assms in \<open>auto simp: worker_step_def worker_measure_def pending_locked_def split: option.splits prod.splits\<close>)

text \<open>The worker running alone until it sleeps.\<close>

function drain :: "ioq \<Rightarrow> ioq" where
  "drain q = (case worker_step q of None \<Rightarrow> q | Some q' \<Rightarrow> drain q')"
  by auto
termination by (relation "measure worker_measure") (auto intro: worker_step_measure)

declare drain.simps [simp del]

definition terminal :: "req \<Rightarrow> bool" where
  "terminal r \<longleftrightarrow> rq_status r \<in> {Done, Cancelled, IoError}"

definition advances :: "req \<Rightarrow> req \<Rightarrow> bool" where
  "advances r r' \<longleftrightarrow> (terminal r \<longrightarrow> r' = r) \<and> (rq_status r' = Cancelled \<longrightarrow> rq_status r = Cancelled) \<and> rq_tag r' = rq_tag r"

lemma advances_refl: "list_all2 advances rs rs"
  by (simp add: list_all2_conv_all_nth advances_def)

lemma advances_trans: "list_all2 advances rs ss \<Longrightarrow> list_all2 advances ss ts \<Longrightarrow> list_all2 advances rs ts"
  by (rule list_all2_trans [of advances advances advances]) (auto simp: advances_def)

lemma advances_update: "i < length rs \<Longrightarrow> advances (rs ! i) x \<Longrightarrow> list_all2 advances rs (rs[i := x])"
  by (auto simp: list_all2_conv_all_nth nth_list_update) (simp add: advances_def)

lemma advances_final:
  assumes "advances r r'" "rq_status r' \<notin> {Pending, InFlight}"
  shows "rq_tag r' = rq_tag r \<and> (if rq_status r \<in> {Pending, InFlight} then rq_status r' \<in> {Done, IoError} else r' = r)"
proof (cases "terminal r")
  case True
  then have "rq_status r \<notin> {Pending, InFlight}" by (auto simp: terminal_def)
  with True assms(1) show ?thesis by (simp add: advances_def)
next
  case False
  then have "rq_status r \<in> {Pending, InFlight}" "rq_status r' \<noteq> Cancelled"
    using assms(1) by (cases "rq_status r"; auto simp: terminal_def advances_def)+
  with assms show ?thesis by (cases "rq_status r'") (auto simp: advances_def)
qed

lemma worker_step_advances:
  assumes "io_inv q" "worker_step q = Some q'"
  shows "list_all2 advances (iq_reqs q) (iq_reqs q')"
proof (cases "iq_worker q")
  case WWait
  show ?thesis
  proof (cases "start_first (iq_reqs q)")
    case None
    with WWait assms show ?thesis by (auto simp: worker_step_def advances_refl split: if_splits)
  next
    case (Some x)
    obtain r rs where x: "x = (r, rs)" by force
    from start_first_effect [OF Some [unfolded x]] obtain i where i: "i < length (iq_reqs q)" "rs = (iq_reqs q)[i := r]"
      "r = (iq_reqs q ! i)\<lparr>rq_status := InFlight\<rparr>" "rq_status (iq_reqs q ! i) = Pending" by blast
    then have "list_all2 advances (iq_reqs q) rs" by (simp add: advances_update advances_def terminal_def)
    with WWait assms(2) Some x show ?thesis by (auto simp: worker_step_def advances_refl split: if_splits)
  qed
next
  case (WFinish r ok)
  then have busy: "\<exists>s\<in>set (iq_reqs q). rq_status s = InFlight \<and> rq_tag s = rq_tag r" using assms(1) by (simp add: io_inv_def)
  define st where "st = (if ok then Done else IoError)"
  have st: "st \<in> {Done, IoError}" by (simp add: st_def)
  from finish_first_effect [OF busy st] obtain i where i: "i < length (iq_reqs q)"
    "finish_first (rq_tag r) st (iq_reqs q) = (iq_reqs q)[i := (iq_reqs q ! i)\<lparr>rq_status := st\<rparr>]"
    "rq_status (iq_reqs q ! i) = InFlight" by blast
  then have "list_all2 advances (iq_reqs q) (finish_first (rq_tag r) st (iq_reqs q))"
    using st by (auto simp: advances_update advances_def terminal_def)
  with WFinish assms(2) show ?thesis by (auto simp: worker_step_def worker_finish_def Let_def st_def split: if_splits)
qed (use assms in \<open>auto simp: worker_step_def advances_refl split: option.splits prod.splits\<close>)

definition gate_ok :: "ioq \<Rightarrow> bool" where
  "gate_ok q \<longleftrightarrow> (iq_submitted q \<or> pending_locked q = 0) \<and> \<not> iq_stopping q \<and> iq_worker q \<noteq> WExit"

lemma worker_step_gate:
  assumes "worker_step q = Some q'" "gate_ok q" shows "gate_ok q'"
proof (cases "iq_worker q")
  case WWait
  show ?thesis
  proof (cases "start_first (iq_reqs q)")
    case None
    then have "pending_locked q = 0" by (simp add: pending_locked_def start_first_None)
    with None WWait assms show ?thesis by (auto simp: worker_step_def gate_ok_def pending_locked_def split: if_splits)
  next
    case (Some x) with WWait assms show ?thesis by (auto simp: worker_step_def gate_ok_def split: if_splits prod.splits)
  qed
next
  case (WFinish r ok)
  then have "q' = worker_finish r ok q" using assms by (simp add: worker_step_def)
  with assms(2) finish_pending [of r ok q] show ?thesis
    by (auto simp: gate_ok_def) (auto simp: worker_finish_def Let_def pending_locked_def split: if_splits)
qed (use assms in \<open>auto simp: worker_step_def gate_ok_def pending_locked_def split: option.splits prod.splits\<close>)

lemma drain_result:
  "io_inv q \<Longrightarrow> gate_ok q \<Longrightarrow> worker_step (drain q) = None \<and> io_inv (drain q) \<and> gate_ok (drain q) \<and>
     list_all2 advances (iq_reqs q) (iq_reqs (drain q))"
proof (induction q rule: drain.induct)
  case (1 q)
  show ?case
  proof (cases "worker_step q")
    case None with 1 show ?thesis by (simp add: drain.simps [of q] advances_refl)
  next
    case (Some q')
    note s = io_inv_worker [OF 1(2) Some] worker_step_gate [OF Some 1(3)] worker_step_advances [OF 1(2) Some]
    from 1(1) [OF Some s(1,2)] s(3) show ?thesis
      by (simp add: drain.simps [of q] Some) (blast intro: advances_trans)
  qed
qed

lemma asleep:
  assumes "worker_step q = None" "io_inv q" "gate_ok q"
  shows "iq_worker q = WWait" "\<not> iq_submitted q" "pending_locked q = 0" "iq_in_flight q = 0"
proof -
  show w: "iq_worker q = WWait"
    using assms by (cases "iq_worker q") (auto simp: worker_step_def gate_ok_def split: option.splits prod.splits)
  then show s: "\<not> iq_submitted q" using assms by (auto simp: worker_step_def split: option.splits if_splits)
  then show "pending_locked q = 0" using assms(3) by (simp add: gate_ok_def)
  show "iq_in_flight q = 0" using w assms(2) by (simp add: io_inv_def)
qed

lemma exit_only_stopping: "io_reach q \<Longrightarrow> iq_worker q = WExit \<longrightarrow> iq_stopping q"
proof (induction rule: io_reach.induct)
  case (init attached m v) show ?case by (simp add: IoQueue_def)
next
  case (step q q')
  from step(2) show ?case
  proof (cases rule: io_step.cases)
    case work
    with step.IH show ?thesis
      by (auto simp: worker_step_def worker_finish_def Let_def split: worker.splits option.splits if_splits prod.splits)
  qed (use step.IH in \<open>auto simp: enqueue_def enqueue_wait_def enqueue_wake_def cancel_def submit_def push_req_def Let_def
      set_auto_submit_enabled_def shutdown_def split: if_splits option.splits\<close>)
qed

section \<open>Properties\<close>

text \<open>(C18) Slots and order. In every state reachable under any interleaving of clients, worker
  and title, at most eight requests occupy a slot and at most one is in flight, the in-flight
  counter is the number of requests marked so, and processing is in order: while a request is
  pending no later one has started.\<close>

theorem io_slots_and_order:
  assumes "io_reach q"
  shows "slots_in_use q \<le> kCapacity \<and> iq_in_flight q \<le> 1 \<and> iq_in_flight q = count_status InFlight (iq_reqs q) \<and>
    (\<forall>i j. i < j \<longrightarrow> j < length (iq_reqs q) \<longrightarrow> rq_status (iq_reqs q ! i) = Pending \<longrightarrow>
       rq_status (iq_reqs q ! j) \<in> {Pending, Cancelled})"
proof -
  have inv: "io_inv q" by (rule io_reach_inv [OF assms])
  then have "iq_in_flight q \<le> 1" by (auto simp: io_inv_def split: option.splits)
  moreover have "rq_status (iq_reqs q ! j) \<in> {Pending, Cancelled}"
    if "i < j" "j < length (iq_reqs q)" "rq_status (iq_reqs q ! i) = Pending" for i j
    using inv that sorted_wrt_nth_less [of _ "iq_reqs q" i j]
    by (cases "rq_status (iq_reqs q ! j)") (auto simp: io_inv_def in_order_def)
  ultimately show ?thesis using inv by (auto simp: io_inv_def)
qed

definition demo_path :: string where "demo_path = ''S:'' @ [CHR 0x5C] @ ''a''"

definition demo_queue :: ioq where
  "demo_queue = snd (enqueue demo_path 1 4 0x2010 7 (IoQueue True demo_mem demo_vfs))"

lemma demo_mem_committed: "mem_is_committed demo_mem 0x2010 4" "mem_in_range 0x2010 4"
  by (simp_all add: mem_is_committed_def demo_mem_fields mem_in_range_def kTotalSize_def kFastSize_def kSlowSize_def
      push_bit_eq_mult mem_span_def page_addrs_def page_floor_def visited.simps)

lemma demo_args: "enqueue_args_ok demo_path 4 0x2010 (IoQueue True demo_mem demo_vfs)"
  using demo_mem_committed by (simp add: enqueue_args_ok_def IoQueue_def demo_path_def valid_path_def)

lemma demo_queue_eq: "demo_queue = (IoQueue True demo_mem demo_vfs)\<lparr>iq_reqs := [new_req demo_path 1 4 0x2010 7]\<rparr>"
  by (simp add: demo_queue_def enqueue_def demo_args)
    (simp add: tag_known_def IoQueue_def slots_in_use_def pending_locked_def kCapacity_def push_req_def kAutoSubmit_def new_req_def)

lemma demo_queue_reach: "io_reach demo_queue"
  unfolding demo_queue_def by (rule io_reach.step [OF io_reach.init io_step.enq [OF surjective_pairing]])

theorem io_slots_and_order_witness: "slots_in_use demo_queue = 1 \<and> slots_in_use demo_queue \<le> kCapacity"
  using io_slots_and_order [OF demo_queue_reach]
  by (simp add: demo_queue_eq slots_in_use_def pending_locked_def IoQueue_def new_req_def)

text \<open>(C15) An open gate is drained. From every reachable state whose backlog was submitted and that is
  not shutting down, the worker stops after finitely many steps in a state where nothing is
  pending or in flight and the gate is closed again: every request that was pending or in flight
  is done or failed (also one queued after the submit), finished and cancelled ones are as they
  were, and \<open>wait_all\<close> returns.\<close>

theorem worker_drains:
  assumes "io_reach q" "iq_submitted q \<or> pending_locked q = 0" "\<not> iq_stopping q"
  shows "worker_step (drain q) = None \<and> pending_locked (drain q) = 0 \<and> iq_in_flight (drain q) = 0 \<and>
    \<not> iq_submitted (drain q) \<and> wait_all_done (drain q) \<and> length (iq_reqs (drain q)) = length (iq_reqs q) \<and>
    (\<forall>i<length (iq_reqs q). rq_tag (iq_reqs (drain q) ! i) = rq_tag (iq_reqs q ! i) \<and>
      (if rq_status (iq_reqs q ! i) \<in> {Pending, InFlight} then rq_status (iq_reqs (drain q) ! i) \<in> {Done, IoError}
       else iq_reqs (drain q) ! i = iq_reqs q ! i))"
proof -
  have g: "io_inv q" "gate_ok q" using io_reach_inv [OF assms(1)] exit_only_stopping [OF assms(1)] assms(2,3) by (auto simp: gate_ok_def)
  note d = drain_result [OF g]
  then have adv: "list_all2 advances (iq_reqs q) (iq_reqs (drain q))" by simp
  from d have dq: "worker_step (drain q) = None" "io_inv (drain q)" "gate_ok (drain q)" by simp_all
  note a = asleep [OF dq]
  have "iq_in_flight (drain q) = count_status InFlight (iq_reqs (drain q))" using dq(2) by (simp add: io_inv_def)
  with a have no: "count_status Pending (iq_reqs (drain q)) = 0" "count_status InFlight (iq_reqs (drain q)) = 0"
    by (simp_all add: pending_locked_def)
  have len: "length (iq_reqs (drain q)) = length (iq_reqs q)" using adv by (simp add: list_all2_lengthD)
  have "rq_tag (iq_reqs (drain q) ! i) = rq_tag (iq_reqs q ! i) \<and>
      (if rq_status (iq_reqs q ! i) \<in> {Pending, InFlight} then rq_status (iq_reqs (drain q) ! i) \<in> {Done, IoError}
       else iq_reqs (drain q) ! i = iq_reqs q ! i)" if "i < length (iq_reqs q)" for i
  proof -
    have "advances (iq_reqs q ! i) (iq_reqs (drain q) ! i)" using adv that by (rule list_all2_nthD)
    moreover have "iq_reqs (drain q) ! i \<in> set (iq_reqs (drain q))" using that len by simp
    moreover have "rq_status (iq_reqs (drain q) ! i) \<notin> {Pending, InFlight}" if "iq_reqs (drain q) ! i \<in> set (iq_reqs (drain q))"
      using that no by (auto simp: count_zero)
    ultimately show ?thesis by (intro advances_final) blast+
  qed
  moreover have "wait_all_done (drain q)" using a by (simp add: wait_all_done_def)
  ultimately show ?thesis using a dq(1) len by blast
qed

theorem worker_drains_witness:
  "rq_status (iq_reqs (drain (snd (submit demo_queue))) ! 0) \<in> {Done, IoError} \<and> wait_all_done (drain (snd (submit demo_queue)))"
proof -
  let ?q = "snd (submit demo_queue)"
  have q: "?q = demo_queue\<lparr>iq_submitted := True\<rparr>"
    by (simp add: submit_def demo_queue_eq IoQueue_def pending_locked_def new_req_def)
  have "io_reach ?q" by (rule io_reach.step [OF demo_queue_reach io_step.submitting [OF surjective_pairing]])
  moreover have "iq_submitted ?q" "\<not> iq_stopping ?q" "length (iq_reqs ?q) = 1" "rq_status (iq_reqs ?q ! 0) = Pending"
    by (simp_all add: q) (simp_all add: demo_queue_eq IoQueue_def new_req_def)
  ultimately show ?thesis using worker_drains [of ?q] by simp
qed

text \<open>The worker running alone for a number of steps.\<close>

fun worker_steps :: "nat \<Rightarrow> ioq \<Rightarrow> ioq option" where
  "worker_steps 0 q = Some q"
| "worker_steps (Suc n) q = Option.bind (worker_step q) (worker_steps n)"

text \<open>What the transfer of a request to \<open>dest\<close> makes of the memory: nothing, or exactly the stored bytes
  at the place the alias windows redirect \<open>dest\<close> to.\<close>

definition transferred :: "u8 list option \<Rightarrow> u64 \<Rightarrow> mem_map \<Rightarrow> mem_map \<Rightarrow> bool" where
  "transferred data dest m m' \<longleftrightarrow> (case data of None \<Rightarrow> m' = m
     | Some bs \<Rightarrow> m' = m\<lparr>mp_mem := mp_mem m'\<rparr> \<and> (\<exists>b. redirects m dest (length bs) b \<and>
         (\<forall>x. mp_mem m' x = (if b \<le> unat x \<and> unat x < b + length bs then bs ! (unat x - b) else mp_mem m x))))"

definition slice_of :: "ioq \<Rightarrow> req \<Rightarrow> u8 list option" where
  "slice_of q r = read_slice (iq_vfs q) (rq_path r) (rq_src_offset r) (rq_size r)"

lemma slice_length: "slice_of q r = Some data \<Longrightarrow> of_nat (length data) = rq_size r \<and> length data < 2 ^ 64"
  using unat_lt2p [of "rq_size r"] by (auto simp: slice_of_def read_slice_def split: if_splits option.splits)

text \<open>From the moment a request is taken to the moment before it is marked.\<close>

lemma transfer_steps:
  assumes "iq_worker q = WRead r" "mem_wf (iq_mem q)"
  defines "ok \<equiv> slice_of q r \<noteq> None \<and> mem_writable (iq_mem q) (rq_dest r) (rq_size r)"
  shows "\<exists>n m. n \<le> 2 \<and> worker_steps n q = Some (q\<lparr>iq_mem := m, iq_worker := WFinish r ok\<rparr>) \<and>
    transferred (if ok then slice_of q r else None) (rq_dest r) (iq_mem q) m"
proof (cases "slice_of q r")
  case None
  have "worker_steps 1 q = Some (q\<lparr>iq_mem := iq_mem q, iq_worker := WFinish r ok\<rparr>)"
    using assms(1) None by (simp add: worker_step_def ok_def slice_of_def)
  then show ?thesis using None by (intro exI [of _ 1] exI [of _ "iq_mem q"]) (simp add: transferred_def ok_def)
next
  case (Some data)
  note len = slice_length [OF Some]
  obtain b m where w: "mem_write_bytes (rq_dest r) data (iq_mem q) = (b, m)" by fastforce
  have b: "b = ok" "\<not> ok \<Longrightarrow> m = iq_mem q" using w Some len by (auto simp: mem_write_bytes_def Let_def ok_def split: if_splits)
  have "worker_steps 2 q = Some (q\<lparr>iq_mem := m, iq_worker := WFinish r ok\<rparr>)"
    using assms(1) Some w b(1) by (simp add: numeral_2_eq_2 worker_step_def slice_of_def)
  moreover have "transferred (if ok then slice_of q r else None) (rq_dest r) (iq_mem q) m"
  proof (cases ok)
    case True
    then have "mem_write_bytes (rq_dest r) data (iq_mem q) = (True, m)" using w b(1) by simp
    from write_bytes_exact [OF assms(2) conjunct2 [OF len] this] have
      "m = (iq_mem q)\<lparr>mp_mem := mp_mem m\<rparr>" "\<exists>b. redirects (iq_mem q) (rq_dest r) (length data) b \<and>
        (\<forall>x. mp_mem m x = (if b \<le> unat x \<and> unat x < b + length data then data ! (unat x - b) else mp_mem (iq_mem q) x))" by blast+
    then show ?thesis unfolding transferred_def using True Some by simp
  qed (use b(2) in \<open>simp add: transferred_def\<close>)
  ultimately show ?thesis by blast
qed

lemma finish_first_at:
  "i < length rs \<Longrightarrow> \<forall>r\<in>set rs. rq_status r \<noteq> InFlight \<Longrightarrow> rq_tag r = tag \<Longrightarrow> rq_status r = InFlight \<Longrightarrow>
     finish_first tag st (rs[i := r]) = rs[i := r\<lparr>rq_status := st\<rparr>]"
  by (induction rs arbitrary: i) (auto split: nat.splits)

lemma start_first_at:
  "i < length rs \<Longrightarrow> rq_status (rs ! i) = Pending \<Longrightarrow> \<forall>j<i. rq_status (rs ! j) \<noteq> Pending \<Longrightarrow>
     start_first rs = Some ((rs ! i)\<lparr>rq_status := InFlight\<rparr>, rs[i := (rs ! i)\<lparr>rq_status := InFlight\<rparr>])"
proof (induction rs arbitrary: i)
  case (Cons x rs)
  show ?case
  proof (cases i)
    case (Suc k)
    then have "rq_status x \<noteq> Pending" "\<forall>j<k. rq_status (rs ! j) \<noteq> Pending" using Cons.prems(3) by force+
    then show ?thesis using Cons.IH [of k] Cons.prems(1,2) Suc by simp
  qed (use Cons.prems in \<open>simp add: Let_def\<close>)
qed simp

lemma worker_steps_add: "worker_steps m q = Some q1 \<Longrightarrow> worker_steps (m + n) q = worker_steps n q1"
  by (induction m arbitrary: q) (auto simp: bind_eq_Some_conv)

text \<open>(C34) What the worker does with the first pending request of an open queue, when no client
  interferes. Within four steps it is back at its wait: the request is marked done exactly when the
  slice lies in the file and the destination is writable, and failed otherwise; every other request is
  as it was, nothing is in flight, and the gate is closed exactly when nothing is pending any more. In
  the first case the memory holds the bytes of the slice at the destination and is otherwise
  unchanged, in the second it is unchanged altogether; files and sleeping clients are not touched.\<close>

theorem transfer_exact:
  assumes "io_reach q" "mem_wf (iq_mem q)" "iq_worker q = WWait" "iq_submitted q" "\<not> iq_stopping q"
    and i: "i < length (iq_reqs q)" "rq_status (iq_reqs q ! i) = Pending" "\<forall>j<i. rq_status (iq_reqs q ! j) \<noteq> Pending"
  defines "r \<equiv> iq_reqs q ! i"
  defines "ok \<equiv> slice_of q r \<noteq> None \<and> mem_writable (iq_mem q) (rq_dest r) (rq_size r)"
  shows "\<exists>n m. n \<le> 4 \<and> transferred (if ok then slice_of q r else None) (rq_dest r) (iq_mem q) m \<and>
    worker_steps n q = Some (q\<lparr>iq_reqs := (iq_reqs q)[i := r\<lparr>rq_status := if ok then Done else IoError\<rparr>],
      iq_submitted := (\<exists>j<length (iq_reqs q). j \<noteq> i \<and> rq_status (iq_reqs q ! j) = Pending), iq_mem := m\<rparr>)"
proof -
  let ?r = "r\<lparr>rq_status := InFlight\<rparr>" and ?st = "if ok then Done else IoError"
  let ?q1 = "q\<lparr>iq_reqs := (iq_reqs q)[i := ?r], iq_in_flight := iq_in_flight q + 1, iq_worker := WRead ?r\<rparr>"
  have inv: "iq_in_flight q = 0" "\<forall>s\<in>set (iq_reqs q). rq_status s \<noteq> InFlight"
    using io_reach_inv [OF assms(1)] assms(3) by (simp_all add: io_inv_def count_zero [symmetric])
  have "worker_steps 1 q = Some ?q1" using assms(3-5) start_first_at [OF i] by (simp add: worker_step_def r_def)
  moreover have sl: "slice_of ?q1 ?r = slice_of q r" "iq_mem ?q1 = iq_mem q" "rq_dest ?r = rq_dest r" "rq_size ?r = rq_size r"
    "iq_worker ?q1 = WRead ?r" by (simp_all add: slice_of_def)
  with transfer_steps [OF sl(5)] assms(2)
  obtain n m where n: "n \<le> 2" "worker_steps n ?q1 = Some (?q1\<lparr>iq_mem := m, iq_worker := WFinish ?r ok\<rparr>)"
    "transferred (if ok then slice_of q r else None) (rq_dest r) (iq_mem q) m"
    unfolding sl(1-4) ok_def [symmetric] by blast
  ultimately have s: "worker_steps (1 + n) q = Some (?q1\<lparr>iq_mem := m, iq_worker := WFinish ?r ok\<rparr>)"
    by (simp only: worker_steps_add)
  let ?rs = "(iq_reqs q)[i := r\<lparr>rq_status := ?st\<rparr>]"
  have f: "finish_first (rq_tag r) ?st ((iq_reqs q)[i := ?r]) = ?rs"
    using finish_first_at [OF i(1) inv(2), of ?r] by simp
  have p: "count_status Pending ?rs = 0 \<longleftrightarrow> \<not> (\<exists>j<length (iq_reqs q). j \<noteq> i \<and> rq_status (iq_reqs q ! j) = Pending)"
    using i(1) by (auto simp: count_zero all_set_conv_all_nth nth_list_update)
  have "worker_steps 1 (?q1\<lparr>iq_mem := m, iq_worker := WFinish ?r ok\<rparr>) =
      Some (q\<lparr>iq_reqs := ?rs, iq_submitted := (\<exists>j<length (iq_reqs q). j \<noteq> i \<and> rq_status (iq_reqs q ! j) = Pending), iq_mem := m\<rparr>)"
    using f p assms(3,4) inv(1) by (cases q) (auto simp: worker_step_def worker_finish_def Let_def pending_locked_def)
  then show ?thesis using n(1,3) worker_steps_add [OF s, of 1] by (intro exI [of _ "1 + n + 1"] exI [of _ m]) (simp del: One_nat_def)
qed

theorem transfer_exact_witness:
  "\<exists>n q'. worker_steps n (snd (submit demo_queue)) = Some q' \<and> rq_status (iq_reqs q' ! 0) = Done \<and> mp_mem (iq_mem q') 0x2011 = 30 \<and>
     mp_mem (iq_mem q') 0x2014 = mp_mem demo_mem 0x2014"
proof -
  let ?q = "snd (submit demo_queue)" and ?r = "new_req demo_path 1 4 0x2010 7"
  have q: "?q = demo_queue\<lparr>iq_submitted := True\<rparr>"
    by (simp add: submit_def demo_queue_eq IoQueue_def pending_locked_def new_req_def)
  have r: "iq_reqs ?q = [?r]" "iq_mem ?q = demo_mem" "iq_vfs ?q = demo_vfs" "iq_worker ?q = WWait" "iq_submitted ?q" "\<not> iq_stopping ?q"
    by (simp_all add: q) (simp_all add: demo_queue_eq IoQueue_def)
  have reach: "io_reach ?q" by (rule io_reach.step [OF demo_queue_reach io_step.submitting [OF surjective_pairing]])
  have s: "slice_of ?q ?r = Some [20, 30, 40, 50]"
    by (simp add: slice_of_def r new_req_def read_slice_def demo_path_def valid_path_def demo_vfs_eq)
  have w: "mem_writable demo_mem (rq_dest ?r) (rq_size ?r)" "rq_dest ?r = 0x2010" using demo_mem_writable by (simp_all add: new_req_def)
  from transfer_exact [OF reach, of 0] obtain n m where
    t: "transferred (Some [20, 30, 40, 50]) 0x2010 demo_mem m" "worker_steps n ?q = Some (?q\<lparr>iq_reqs := [?r\<lparr>rq_status := Done\<rparr>],
      iq_submitted := False, iq_mem := m\<rparr>)"
    using r s w mem_reach_wf [OF demo_mem_reach] by (auto simp: new_req_def)
  then have "mp_mem m 0x2011 = 30 \<and> mp_mem m 0x2014 = mp_mem demo_mem 0x2014"
    by (auto simp: transferred_def redirects_def demo_mem_fields)
  then show ?thesis using t(2) by (intro exI [of _ n]) simp
qed

text \<open>Tags are not always unique. Two clients that call \<open>enqueue_wait\<close> with the same new
  tag while all slots are taken both go to sleep, because the duplicate check runs before the
  wait and is not repeated; once two slots are free both requests are queued, with one tag.\<close>

lemma enqueue_wait_duplicate_tags:
  assumes "enqueue_args_ok path sz dest q" "\<not> tag_known tag q" "slots_in_use q = kCapacity" "iq_blocked q = []"
  shows "\<exists>q1 q2. enqueue_wait path off sz dest tag q = (None, q1) \<and> enqueue_wait path off sz dest tag q1 = (None, q2) \<and>
    (\<forall>q3. iq_blocked q3 = iq_blocked q2 \<and> slots_in_use q3 + 2 \<le> kCapacity \<longrightarrow>
       (\<exists>q4 q5. enqueue_wake 0 q3 = Some q4 \<and> enqueue_wake 0 q4 = Some q5 \<and>
          iq_reqs q5 = iq_reqs q3 @ [new_req path off sz dest tag, new_req path off sz dest tag]))"
proof -
  let ?r = "new_req path off sz dest tag"
  let ?q1 = "q\<lparr>iq_blocked := [?r]\<rparr>" let ?q2 = "q\<lparr>iq_blocked := [?r, ?r]\<rparr>"
  have "enqueue_wait path off sz dest tag q = (None, ?q1)" "enqueue_wait path off sz dest tag ?q1 = (None, ?q2)"
    using assms by (simp_all add: enqueue_wait_def enqueue_args_ok_def tag_known_def slots_in_use_def pending_locked_def)
  moreover have "\<exists>q4 q5. enqueue_wake 0 q3 = Some q4 \<and> enqueue_wake 0 q4 = Some q5 \<and> iq_reqs q5 = iq_reqs q3 @ [?r, ?r]"
    if q3: "iq_blocked q3 = [?r, ?r]" "slots_in_use q3 + 2 \<le> kCapacity" for q3
  proof -
    let ?q4 = "push_req ?r (q3\<lparr>iq_blocked := [?r]\<rparr>)"
    have "enqueue_wake 0 q3 = Some ?q4" using q3 by (simp add: enqueue_wake_def)
    moreover have "slots_in_use ?q4 < kCapacity"
      using q3 by (simp add: slots_in_use_def pending_locked_def push_fields new_req_def)
    then have "enqueue_wake 0 ?q4 = Some (push_req ?r (?q4\<lparr>iq_blocked := []\<rparr>))" by (simp add: enqueue_wake_def push_fields)
    ultimately show ?thesis by (simp add: push_fields)
  qed
  ultimately show ?thesis by (intro exI [of _ ?q1] exI [of _ ?q2]) simp
qed

definition demo_full :: ioq where
  "demo_full = (IoQueue True demo_mem demo_vfs)\<lparr>iq_reqs := map (\<lambda>i. new_req demo_path 1 4 0x2010 (of_nat i)) [0..<8]\<rparr>"

lemma enqueue_wait_duplicate_tags_witness:
  "\<exists>q1 q2. enqueue_wait demo_path 1 4 0x2010 9 demo_full = (None, q1) \<and> enqueue_wait demo_path 1 4 0x2010 9 q1 = (None, q2)"
proof -
  have "enqueue_args_ok demo_path 4 0x2010 demo_full"
    using demo_args by (simp add: demo_full_def enqueue_args_ok_def)
  moreover have "\<not> tag_known 9 demo_full" "slots_in_use demo_full = kCapacity" "iq_blocked demo_full = []"
    by (simp_all add: demo_full_def IoQueue_def tag_known_def new_req_def slots_in_use_def pending_locked_def kCapacity_def upt_rec)
  ultimately show ?thesis using enqueue_wait_duplicate_tags [of demo_path 4 "0x2010" demo_full 9 1] by blast
qed

end
