(* ===== verification/Gpu_Stub.thy ===== *)
theory Gpu_Stub
  imports Mem_Map
begin

text \<open>
  The GPU front end \<open>GpuStub\<close> (\<open>src/src/gpu_stub.cpp\<close>, \<open>src/include/gpu_stub.h\<close>): packets are
  validated against the fast and slow memory pools and executed on the guest memory. \<open>gs_mem\<close> is
  \<open>None\<close> while no memory is attached; the reading of the performance counter is an argument.
\<close>

section \<open>Packets and state\<close>

datatype heap_class = GpuOptimal | Standard

record gpu_addr =
  ga_gpa :: u64
  ga_heap :: heap_class
  ga_size :: u32

datatype pkt_type = Nop | FillMemory | CopyMemory | ClearRenderTarget | FenceSignal | Flip | Timestamp

fun pkt_code :: "pkt_type \<Rightarrow> nat" where
  "pkt_code Nop = 0"
| "pkt_code FillMemory = 1"
| "pkt_code CopyMemory = 2"
| "pkt_code ClearRenderTarget = 3"
| "pkt_code FenceSignal = 4"
| "pkt_code Flip = 5"
| "pkt_code Timestamp = 6"

record gpu_packet =
  gp_type :: u32
  gp_addr :: u64
  gp_size :: u32

record xbox_packet =
  xp_type :: pkt_type
  xp_dst :: gpu_addr
  xp_src :: gpu_addr
  xp_pattern :: u32
  xp_color :: "u8 list"
  xp_rt_width :: u32
  xp_rt_height :: u32
  xp_fence_value :: u64

record gpu_stub =
  gs_mem :: "mem_map option"
  gs_submitted :: u64
  gs_last_log :: string
  gs_fence_signalled :: u64
  gs_fence_completed :: u64
  gs_frame_id :: u64
  gs_bytes_filled :: u64
  gs_bytes_copied :: u64
  gs_clears :: u64
  gs_errors :: u64
  gs_last_flip_qpc :: u64
  gs_timestamps :: "u64 list"

definition GpuStub :: "mem_map option \<Rightarrow> gpu_stub" where
  "GpuStub m = \<lparr>gs_mem = m, gs_submitted = 0, gs_last_log = [], gs_fence_signalled = 0, gs_fence_completed = 0,
     gs_frame_id = 0, gs_bytes_filled = 0, gs_bytes_copied = 0, gs_clears = 0, gs_errors = 0,
     gs_last_flip_qpc = 0, gs_timestamps = []\<rparr>"

definition gpu_attach :: "mem_map option \<Rightarrow> gpu_stub \<Rightarrow> gpu_stub" where
  "gpu_attach m g = g\<lparr>gs_mem := m\<rparr>"

section \<open>Operations\<close>

fun hex :: "nat \<Rightarrow> string" where
  "hex n = (if n < 16 then [''0123456789abcdef'' ! n] else hex (n div 16) @ [''0123456789abcdef'' ! (n mod 16)])"

declare hex.simps [simp del]

definition submit_legacy :: "gpu_packet \<Rightarrow> gpu_stub \<Rightarrow> gpu_stub" where
  "submit_legacy pkt g =
     (let n = gs_submitted g + 1 in
      g\<lparr>gs_submitted := n,
        gs_last_log := ''gpu pkt#'' @ dec (unat n) @ '' type='' @ dec (unat (gp_type pkt)) @ '' addr=0x'' @
          hex (unat (gp_addr pkt)) @ '' size='' @ dec (unat (gp_size pkt))\<rparr>)"

definition heap_ok :: "gpu_stub \<Rightarrow> gpu_addr \<Rightarrow> bool" where
  "heap_ok g a =
     (case gs_mem g of
        None \<Rightarrow> False
      | Some m \<Rightarrow>
          if ga_size a = 0 \<or> \<not> mem_in_range (ga_gpa a) (ucast (ga_size a)) then False
          else let fast = is_fast (ga_gpa a) \<and> is_fast (ga_gpa a + ucast (ga_size a) - 1) in
            if ga_heap a = GpuOptimal then fast else \<not> fast)"

definition commit_ok :: "gpu_stub \<Rightarrow> gpu_addr \<Rightarrow> bool" where
  "commit_ok g a = (case gs_mem g of None \<Rightarrow> False | Some m \<Rightarrow> mem_writable m (ga_gpa a) (ucast (ga_size a)))"

definition gpu_complete :: "u64 \<Rightarrow> gpu_stub \<Rightarrow> gpu_stub" where
  "gpu_complete value g =
     (if value > gs_fence_completed g \<and> value \<le> gs_fence_signalled g then g\<lparr>gs_fence_completed := value\<rparr> else g)"

text \<open>The loop \<open>for (off = 0; off < size; off += 4) write32(gpa + off, v)\<close> with \<open>n\<close> rounds left.\<close>

fun fill_words :: "nat \<Rightarrow> u64 \<Rightarrow> u32 \<Rightarrow> mem_map \<Rightarrow> bool \<times> mem_map" where
  "fill_words 0 a v m = (True, m)"
| "fill_words (Suc n) a v m =
     (case mem_write32 a v m of
        (False, m1) \<Rightarrow> (False, m1)
      | (True, m1) \<Rightarrow> fill_words n (a + 4) v m1)"

definition gpu_error :: "gpu_stub \<Rightarrow> bool \<times> gpu_stub" where
  "gpu_error g = (False, g\<lparr>gs_errors := gs_errors g + 1\<rparr>)"

definition exec_fill :: "xbox_packet \<Rightarrow> gpu_stub \<Rightarrow> bool \<times> gpu_stub" where
  "exec_fill pkt g =
     (if \<not> heap_ok g (xp_dst pkt) \<or> \<not> commit_ok g (xp_dst pkt) \<or> ga_size (xp_dst pkt) mod 4 \<noteq> 0 then gpu_error g
      else case fill_words ((unat (ga_size (xp_dst pkt)) + 3) div 4) (ga_gpa (xp_dst pkt)) (xp_pattern pkt) (the (gs_mem g)) of
        (good, m) \<Rightarrow>
          let g1 = g\<lparr>gs_mem := Some m\<rparr> in
          if good then (True, g1\<lparr>gs_bytes_filled := gs_bytes_filled g1 + ucast (ga_size (xp_dst pkt))\<rparr>)
          else gpu_error g1)"

definition exec_copy :: "xbox_packet \<Rightarrow> gpu_stub \<Rightarrow> bool \<times> gpu_stub" where
  "exec_copy pkt g =
     (let d = xp_dst pkt; s = xp_src pkt in
      if ga_size d = 0 \<or> ga_size d \<noteq> ga_size s \<or> \<not> heap_ok g d \<or> \<not> heap_ok g s \<or> \<not> commit_ok g d \<or>
         \<not> mem_readable (the (gs_mem g)) (ga_gpa s) (ucast (ga_size s))
      then gpu_error g
      else if ga_gpa d < ga_gpa s + ucast (ga_size s) \<and> ga_gpa s < ga_gpa d + ucast (ga_size d) then gpu_error g
      else case mem_read_bytes (the (gs_mem g)) (ga_gpa s) (ucast (ga_size s)) of
        None \<Rightarrow> gpu_error g
      | Some tmp \<Rightarrow>
          (case mem_write_bytes (ga_gpa d) tmp (the (gs_mem g)) of
             (False, m) \<Rightarrow> gpu_error (g\<lparr>gs_mem := Some m\<rparr>)
           | (True, m) \<Rightarrow> (True, g\<lparr>gs_mem := Some m, gs_bytes_copied := gs_bytes_copied g + ucast (ga_size d)\<rparr>)))"

definition pixel_value :: "u8 list \<Rightarrow> u32" where
  "pixel_value c = ucast (c ! 0) OR push_bit 8 (ucast (c ! 1)) OR push_bit 16 (ucast (c ! 2)) OR push_bit 24 (ucast (c ! 3))"

definition exec_clear :: "xbox_packet \<Rightarrow> gpu_stub \<Rightarrow> bool \<times> gpu_stub" where
  "exec_clear pkt g =
     (let need = (ucast (xp_rt_width pkt) :: u64) * ucast (xp_rt_height pkt) * 4 in
      if xp_rt_width pkt = 0 \<or> xp_rt_height pkt = 0 \<or> need \<noteq> ucast (ga_size (xp_dst pkt)) \<or>
         \<not> heap_ok g (xp_dst pkt) \<or> \<not> commit_ok g (xp_dst pkt)
      then gpu_error g
      else case fill_words ((unat need + 3) div 4) (ga_gpa (xp_dst pkt)) (pixel_value (xp_color pkt)) (the (gs_mem g)) of
        (good, m) \<Rightarrow>
          let g1 = g\<lparr>gs_mem := Some m\<rparr> in
          if good then (True, g1\<lparr>gs_clears := gs_clears g1 + 1, gs_bytes_filled := gs_bytes_filled g1 + need\<rparr>)
          else gpu_error g1)"

definition exec_fence :: "xbox_packet \<Rightarrow> gpu_stub \<Rightarrow> bool \<times> gpu_stub" where
  "exec_fence pkt g =
     (if xp_fence_value pkt > gs_fence_signalled g
      then (True, g\<lparr>gs_fence_signalled := xp_fence_value pkt, gs_fence_completed := xp_fence_value pkt\<rparr>)
      else gpu_error g)"

definition exec_packet :: "u64 \<Rightarrow> xbox_packet \<Rightarrow> gpu_stub \<Rightarrow> bool \<times> gpu_stub" where
  "exec_packet now pkt g =
     (case xp_type pkt of
        Nop \<Rightarrow> (True, g)
      | Flip \<Rightarrow> (True, g\<lparr>gs_frame_id := gs_frame_id g + 1, gs_last_flip_qpc := now\<rparr>)
      | Timestamp \<Rightarrow> (True, g\<lparr>gs_timestamps := gs_timestamps g @ [now]\<rparr>)
      | FenceSignal \<Rightarrow> exec_fence pkt g
      | FillMemory \<Rightarrow> exec_fill pkt g
      | CopyMemory \<Rightarrow> exec_copy pkt g
      | ClearRenderTarget \<Rightarrow> exec_clear pkt g)"

definition submit_xbox :: "u64 \<Rightarrow> xbox_packet \<Rightarrow> gpu_stub \<Rightarrow> bool \<times> gpu_stub" where
  "submit_xbox now pkt g =
     (let g0 = g\<lparr>gs_submitted := gs_submitted g + 1\<rparr>;
          (ok, g1) = exec_packet now pkt g0;
          log = ''xgpu pkt#'' @ dec (unat (gs_submitted g0)) @ '' op='' @ dec (pkt_code (xp_type pkt)) @
            (if ok then '' ok'' else '' ERR'') @
            (if xp_type pkt = FenceSignal then '' fence='' @ dec (unat (xp_fence_value pkt)) else []) @
            (if xp_type pkt = Flip then '' frame='' @ dec (unat (gs_frame_id g1)) else [])
      in (ok, g1\<lparr>gs_last_log := log\<rparr>))"

section \<open>Writes to memory without alias windows\<close>

lemma plain_write:
  assumes "mem_plain m" "mem_writable m a n" "length bs = unat n"
  defines "m' \<equiv> m\<lparr>mp_mem := store_bytes a bs (mp_mem m)\<rparr>"
  shows "mem_plain m'" "mem_read_bytes m' a n = Some bs"
    "unat a + unat n \<le> unat c \<or> unat c + unat k \<le> unat a \<Longrightarrow> mem_read_bytes m' c k = mem_read_bytes m c k"
proof -
  have n: "of_nat (length bs) = n" "length bs < 2 ^ 64" using assms(3) unat_lt2p [of n] by simp_all
  have w: "mem_wr m a bs = Some m'"
    using assms(1,2) n by (simp add: mem_wr_iff write_bytes_iff m'_def)
  show "mem_plain m'" by (rule gmem.write_ok [OF assms(1) w])
  show "mem_read_bytes m' a n = Some bs"
    using gmem.read_written [OF assms(1) w] n by (simp add: mem_rd_def)
  show "mem_read_bytes m' c k = mem_read_bytes m c k" if "unat a + unat n \<le> unat c \<or> unat c + unat k \<le> unat a"
    using gmem.read_other [OF assms(1) w, of c "unat k"] that assms(3) unat_lt2p [of k] by (simp add: mem_rd_def)
qed

lemma host_ok_sub:
  assumes "host_ok m ps a (k + n)" "k + n \<le> 2 ^ 34"
  shows "host_ok m ps (a + of_nat k) n" "host_ok m ps a k"
proof -
  have "unat (a + of_nat k) = unat a + k"
    using assms by (subst unat_add_lt) (auto simp: host_ok_def unat_of_nat_lt)
  with assms show "host_ok m ps (a + of_nat k) n" "host_ok m ps a k" by (auto simp: host_ok_def)
qed

text \<open>A range that meets no alias window is its own host range, and so is every part of it.\<close>

definition unaliased :: "mem_map \<Rightarrow> u64 \<Rightarrow> nat \<Rightarrow> bool" where
  "unaliased m a n \<longleftrightarrow> mem_wf m \<and>
     (\<forall>w\<in>set (mp_aliases m). unat (al_dst w) + unat (al_size w) \<le> unat a \<or> unat a + n \<le> unat (al_dst w))"

lemma plain_unaliased: "mem_plain m \<Longrightarrow> unaliased m a n"
  by (simp add: mem_plain_def unaliased_def)

lemma unaliased_mem [simp]: "unaliased (m\<lparr>mp_mem := b\<rparr>) = unaliased m"
  by (simp add: fun_eq_iff unaliased_def)

lemma unaliased_resolve:
  assumes "unaliased m a n" "unat k \<le> n" "k \<noteq> 0" shows "resolve_alias m a k = a"
proof -
  have "0 < unat k" using assms(3) by (simp add: unat_gt_0)
  then have "\<forall>w\<in>set (mp_aliases m). \<not> window_has w a k" using assms(1,2) by (fastforce simp: unaliased_def window_has_def)
  then show ?thesis using assms(1) by (simp add: unaliased_def mem_wf_def resolve_alias_def resolve_in_outside)
qed

lemma unaliased_writable:
  assumes "unaliased m a (unat n)" shows "mem_writable m a n \<longleftrightarrow> n \<noteq> 0 \<and> host_ok m {ReadWrite} a (unat n)"
proof -
  have wf: "mem_wf m" using assms by (simp add: unaliased_def)
  have "n \<noteq> 0 \<Longrightarrow> host_ok m {ReadWrite} a (unat n) \<Longrightarrow> mem_in_range a n"
    by (auto simp: host_ok_def mem_in_range_iff unat_gt_0 intro: less_le_trans [of _ "unat a + unat n"])
  then show ?thesis using writable_iff [OF wf, of a n] unaliased_resolve [OF assms, of n] by auto
qed

lemma host_ok_mem [simp]: "host_ok (m\<lparr>mp_mem := b\<rparr>) = host_ok m"
  by (simp add: fun_eq_iff host_ok_def)

lemma fill_words_unaliased:
  "unaliased m a (4 * n) \<Longrightarrow> host_ok m {ReadWrite} a (4 * n) \<Longrightarrow>
     fill_words n a v m = (True, m\<lparr>mp_mem := store_bytes a (concat (replicate n (le_bytes 4 v))) (mp_mem m)\<rparr>)"
proof (induction n arbitrary: a m)
  case (Suc n)
  let ?m = "m\<lparr>mp_mem := store_bytes a (le_bytes 4 v) (mp_mem m)\<rparr>"
  have b: "4 + 4 * n \<le> 2 ^ 34" "unat a + 4 + 4 * n \<le> 2 ^ 34" using Suc.prems(2) by (simp_all add: host_ok_def)
  have h: "host_ok m {ReadWrite} (a + of_nat 4) (4 * n)" "host_ok m {ReadWrite} a 4"
    using host_ok_sub [of m _ a 4 "4 * n"] Suc.prems(2) b by simp_all
  have "unat (a + 4) = unat a + 4" using b(2) by (subst unat_add_lt) simp_all
  then have u: "unaliased m a (unat (4 :: u64))" "unaliased m (a + 4) (4 * n)" using Suc.prems(1) by (fastforce simp: unaliased_def)+
  have "mem_writable m a 4" using h(2) by (simp add: unaliased_writable [OF u(1)])
  then have "mem_write32 a v m = (True, ?m)"
    using unaliased_resolve [OF u(1), of 4] by (simp add: mem_write32_def write_bytes_iff)
  then show ?case using Suc.IH [of ?m "a + 4"] h(1) u(2) by (simp add: store_bytes_append)
qed simp

lemma length_repeat: "length (concat (replicate n (le_bytes 4 v))) = 4 * n"
  by (induction n) auto

text \<open>Filling a writable range word by word is one write of the repeated pattern.\<close>

lemma fill_range:
  assumes "unaliased m a (unat n)" "mem_writable m a n" "unat n = 4 * k"
  shows "fill_words k a v m = (True, m\<lparr>mp_mem := store_bytes a (concat (replicate k (le_bytes 4 v))) (mp_mem m)\<rparr>)"
  using assms unaliased_writable [OF assms(1)] by (intro fill_words_unaliased) simp_all

lemma unaliased_read_back:
  assumes "unaliased m a (unat n)" "mem_writable m a n" "length bs = unat n"
  shows "mem_read_bytes (m\<lparr>mp_mem := store_bytes a bs (mp_mem m)\<rparr>) a n = Some bs"
proof -
  have n: "of_nat (length bs) = n" "length bs < 2 ^ 64" "n \<noteq> 0" using assms(2,3) unat_lt2p [of n] by (auto simp: mem_writable_def)
  have "mem_write_bytes a bs m = (True, m\<lparr>mp_mem := store_bytes a bs (mp_mem m)\<rparr>)"
    using assms(2) n unaliased_resolve [OF assms(1) le_refl n(3)] by (simp add: write_bytes_iff)
  from write_read_back [OF _ n(2) this] assms(1) n(1) show ?thesis by (simp add: unaliased_def)
qed

lemma unat_mod4: "x mod 4 = 0 \<longleftrightarrow> (\<exists>k. unat (x :: u32) = 4 * k)"
proof -
  have "unat (x mod 4) = unat x mod 4" by (simp add: unat_mod)
  then show ?thesis by (auto simp: dvd_eq_mod_eq_0 [symmetric] dvd_def unat_eq_zero [symmetric])
qed

section \<open>Fill and copy\<close>

definition other_bytes_kept :: "mem_map \<Rightarrow> mem_map \<Rightarrow> gpu_addr \<Rightarrow> bool" where
  "other_bytes_kept m m' d \<longleftrightarrow> (\<forall>c k. unat (ga_gpa d) + unat (ga_size d) \<le> unat c \<or> unat c + unat k \<le> unat (ga_gpa d) \<longrightarrow>
     mem_read_bytes m' c k = mem_read_bytes m c k)"

definition packet_ok :: "xbox_packet \<Rightarrow> gpu_stub \<Rightarrow> bool" where
  "packet_ok pkt g =
     (let d = xp_dst pkt; s = xp_src pkt in
      if xp_type pkt = FillMemory then heap_ok g d \<and> commit_ok g d \<and> 4 dvd unat (ga_size d)
      else heap_ok g d \<and> heap_ok g s \<and> commit_ok g d \<and> ga_size d = ga_size s \<and>
        mem_readable (the (gs_mem g)) (ga_gpa s) (ucast (ga_size s)) \<and>
        (unat (ga_gpa s) + unat (ga_size s) \<le> unat (ga_gpa d) \<or> unat (ga_gpa d) + unat (ga_size d) \<le> unat (ga_gpa s)))"

lemma unat_ucast_size [simp]: "unat (ucast (x :: u32) :: u64) = unat x"
  using unat_lt2p [of x] by (simp add: unsigned_ucast_eq take_bit_nat_eq_self)

lemma heap_ok_range: "heap_ok g a \<Longrightarrow> ga_size a \<noteq> 0 \<and> mem_in_range (ga_gpa a) (ucast (ga_size a))"
  by (auto simp: heap_ok_def split: option.splits if_splits)

lemma exec_fill_effect:
  assumes "gs_mem g = Some m" "mem_plain m" "xp_type pkt = FillMemory"
  shows "\<exists>m' g'. exec_fill pkt g = (packet_ok pkt g, g') \<and>
    (if packet_ok pkt g then gs_mem g' = Some m' \<and> gs_errors g' = gs_errors g \<and> mem_plain m' \<and>
       mem_read_bytes m' (ga_gpa (xp_dst pkt)) (ucast (ga_size (xp_dst pkt))) =
         Some (concat (replicate (unat (ga_size (xp_dst pkt)) div 4) (le_bytes 4 (xp_pattern pkt)))) \<and>
       other_bytes_kept m m' (xp_dst pkt)
     else gs_mem g' = gs_mem g \<and> gs_errors g' = gs_errors g + 1)"
proof (cases "packet_ok pkt g")
  case True
  let ?d = "xp_dst pkt" let ?n = "ucast (ga_size ?d) :: u64" let ?k = "unat (ga_size ?d) div 4"
  let ?bs = "concat (replicate ?k (le_bytes 4 (xp_pattern pkt)))"
  have ok: "heap_ok g ?d" "commit_ok g ?d" "4 dvd unat (ga_size ?d)" using True assms(3) by (simp_all add: packet_ok_def Let_def)
  then have w: "mem_writable m (ga_gpa ?d) ?n" and k: "unat ?n = 4 * ?k" using assms(1) by (simp_all add: commit_ok_def)
  have rounds: "(unat (ga_size ?d) + 3) div 4 = ?k" "ga_size ?d mod 4 = 0" using ok(3) by (auto simp: dvd_def unat_mod4)
  note f = fill_range [OF plain_unaliased [OF assms(2)] w k, of "xp_pattern pkt"]
  have len: "length ?bs = unat ?n" using k by (simp add: length_repeat)
  note pw = plain_write [OF assms(2) w len]
  show ?thesis using True ok(1,2) rounds f assms(1) pw
    by (auto simp: exec_fill_def other_bytes_kept_def Let_def)
next
  case False
  then have "exec_fill pkt g = gpu_error g" using assms(1,3)
    by (auto simp: packet_ok_def exec_fill_def Let_def unat_mod4 dvd_def)
  with False show ?thesis by (simp add: gpu_error_def)
qed

lemma overlap_iff:
  assumes "mem_in_range a (ucast n)" "mem_in_range b (ucast (k :: u32))"
  shows "\<not> (a < b + ucast k \<and> b < a + ucast (n :: u32)) \<longleftrightarrow> unat b + unat k \<le> unat a \<or> unat a + unat n \<le> unat b"
  using in_range_end [OF assms(1)] in_range_end [OF assms(2)] by (auto simp: word_less_nat_alt)

lemma exec_copy_effect:
  assumes "gs_mem g = Some m" "mem_plain m" "xp_type pkt = CopyMemory"
  shows "\<exists>m' g'. exec_copy pkt g = (packet_ok pkt g, g') \<and>
    (if packet_ok pkt g then gs_mem g' = Some m' \<and> gs_errors g' = gs_errors g \<and> mem_plain m' \<and>
       mem_read_bytes m' (ga_gpa (xp_dst pkt)) (ucast (ga_size (xp_dst pkt))) =
         mem_read_bytes m (ga_gpa (xp_src pkt)) (ucast (ga_size (xp_src pkt))) \<and>
       other_bytes_kept m m' (xp_dst pkt)
     else gs_mem g' = gs_mem g \<and> gs_errors g' = gs_errors g + 1)"
proof (cases "packet_ok pkt g")
  case True
  let ?d = "xp_dst pkt" let ?s = "xp_src pkt" let ?n = "ucast (ga_size ?d) :: u64"
  have ok: "heap_ok g ?d" "heap_ok g ?s" "commit_ok g ?d" "ga_size ?d = ga_size ?s" "mem_readable m (ga_gpa ?s) (ucast (ga_size ?s))"
    "unat (ga_gpa ?s) + unat (ga_size ?s) \<le> unat (ga_gpa ?d) \<or> unat (ga_gpa ?d) + unat (ga_size ?d) \<le> unat (ga_gpa ?s)"
    using True assms(1,3) by (auto simp: packet_ok_def Let_def)
  then have w: "mem_writable m (ga_gpa ?d) ?n" using assms(1) by (simp add: commit_ok_def)
  obtain tmp where t: "mem_read_bytes m (ga_gpa ?s) ?n = Some tmp" "length tmp = unat ?n"
    using ok(4,5) by (simp add: mem_read_bytes_def)
  let ?m = "m\<lparr>mp_mem := store_bytes (ga_gpa ?d) tmp (mp_mem m)\<rparr>"
  have "mem_write_bytes (ga_gpa ?d) tmp m = (True, ?m)"
    using w t(2) assms(2) by (simp add: write_bytes_iff)
  moreover have "ga_size ?d \<noteq> 0" "\<not> (ga_gpa ?d < ga_gpa ?s + ucast (ga_size ?s) \<and> ga_gpa ?s < ga_gpa ?d + ucast (ga_size ?d))"
    using heap_ok_range [OF ok(1)] heap_ok_range [OF ok(2)] ok(6) overlap_iff [of "ga_gpa ?d" "ga_size ?d" "ga_gpa ?s" "ga_size ?s"] by auto
  ultimately have "exec_copy pkt g = (True, g\<lparr>gs_mem := Some ?m, gs_bytes_copied := gs_bytes_copied g + ucast (ga_size ?d)\<rparr>)"
    using ok(1-5) assms(1) t(1) by (auto simp: exec_copy_def Let_def)
  with True t(1) ok(4) plain_write [OF assms(2) w t(2)] show ?thesis by (auto simp: other_bytes_kept_def)
next
  case False
  let ?d = "xp_dst pkt" let ?s = "xp_src pkt"
  have "exec_copy pkt g = gpu_error g"
  proof (cases "heap_ok g ?d \<and> heap_ok g ?s")
    case True
    with heap_ok_range [of g ?d] heap_ok_range [of g ?s] overlap_iff [of "ga_gpa ?d" "ga_size ?d" "ga_gpa ?s" "ga_size ?s"] False assms(3)
    show ?thesis by (auto simp: packet_ok_def exec_copy_def Let_def)
  qed (auto simp: exec_copy_def Let_def)
  with False show ?thesis by (simp add: gpu_error_def)
qed

section \<open>Properties\<close>

text \<open>Fill and copy packets. On guest memory without alias windows a fill is
  accepted exactly when its range passes the heap and commit checks and is a multiple of four
  bytes, and a copy exactly when both ranges are non-empty, of equal size, pass their checks and
  do not overlap. An accepted packet leaves the pattern, or the source bytes, in the destination
  and every other byte alone; a rejected one changes no memory and is counted.\<close>

lemma gpu_fill_copy_exact:
  assumes "gs_mem g = Some m" "mem_plain m" "xp_type pkt = FillMemory \<or> xp_type pkt = CopyMemory"
  shows "\<exists>m' g'. submit_xbox now pkt g = (packet_ok pkt g, g') \<and> gs_submitted g' = gs_submitted g + 1 \<and>
    (if packet_ok pkt g then gs_mem g' = Some m' \<and> gs_errors g' = gs_errors g \<and> other_bytes_kept m m' (xp_dst pkt) \<and>
       mem_read_bytes m' (ga_gpa (xp_dst pkt)) (ucast (ga_size (xp_dst pkt))) =
         (if xp_type pkt = FillMemory
          then Some (concat (replicate (unat (ga_size (xp_dst pkt)) div 4) (le_bytes 4 (xp_pattern pkt))))
          else mem_read_bytes m (ga_gpa (xp_src pkt)) (ucast (ga_size (xp_src pkt))))
     else gs_mem g' = gs_mem g \<and> gs_errors g' = gs_errors g + 1)"
proof -
  let ?g = "g\<lparr>gs_submitted := gs_submitted g + 1\<rparr>"
  have fr: "gs_mem ?g = Some m" "packet_ok pkt ?g = packet_ok pkt g" using assms(1)
    by (simp_all add: packet_ok_def heap_ok_def commit_ok_def)
  have sub: "gs_submitted (snd (exec_packet now pkt ?g)) = gs_submitted g + 1"
    using assms(3) by (auto simp: exec_packet_def exec_fill_def exec_copy_def gpu_error_def Let_def split: prod.splits option.splits bool.splits)
  show ?thesis
  proof (cases "xp_type pkt = FillMemory")
    case True
    with exec_fill_effect [OF fr(1) assms(2) True] fr(2) sub show ?thesis
      by (fastforce simp: submit_xbox_def exec_packet_def Let_def)
  next
    case False
    with assms(3) exec_copy_effect [OF fr(1) assms(2)] fr(2) sub show ?thesis
      by (fastforce simp: submit_xbox_def exec_packet_def Let_def)
  qed
qed

definition demo_fill :: xbox_packet where
  "demo_fill = \<lparr>xp_type = FillMemory, xp_dst = \<lparr>ga_gpa = 0x2010, ga_heap = GpuOptimal, ga_size = 4\<rparr>,
     xp_src = \<lparr>ga_gpa = 0, ga_heap = GpuOptimal, ga_size = 0\<rparr>, xp_pattern = 0xAABBCCDD, xp_color = [0, 0, 0, 0],
     xp_rt_width = 0, xp_rt_height = 0, xp_fence_value = 0\<rparr>"

lemma demo_mem_plain: "mem_plain demo_mem"
  using mem_reach_wf [OF demo_mem_reach] by (simp add: mem_plain_def demo_mem_fields)

lemma demo_fill_ok: "packet_ok demo_fill (GpuStub (Some demo_mem))"
proof -
  have "heap_ok (GpuStub (Some demo_mem)) (xp_dst demo_fill)"
    by (simp add: heap_ok_def GpuStub_def demo_fill_def mem_in_range_iff is_fast_def kFastSize_def push_bit_eq_mult)
  moreover have "commit_ok (GpuStub (Some demo_mem)) (xp_dst demo_fill)"
    using demo_mem_writable by (simp add: commit_ok_def GpuStub_def demo_fill_def)
  ultimately show ?thesis by (simp add: packet_ok_def) (simp add: demo_fill_def)
qed

lemma gpu_fill_copy_exact_witness:
  "\<exists>m' g'. submit_xbox 0 demo_fill (GpuStub (Some demo_mem)) = (True, g') \<and> gs_mem g' = Some m' \<and>
     mem_read_bytes m' 0x2010 4 = Some [0xDD, 0xCC, 0xBB, 0xAA]"
proof -
  have m: "gs_mem (GpuStub (Some demo_mem)) = Some demo_mem" "xp_type demo_fill = FillMemory \<or> xp_type demo_fill = CopyMemory"
    by (simp_all add: GpuStub_def demo_fill_def)
  have "le_bytes 4 (0xAABBCCDD :: u32) = [0xDD, 0xCC, 0xBB, 0xAA]" by code_simp
  then show ?thesis
    using gpu_fill_copy_exact [OF m(1) demo_mem_plain m(2), of 0] demo_fill_ok by (simp add: demo_fill_def) blast
qed

end
