(* ===== verification/Xbox_Display.thy ===== *)
theory Xbox_Display
  imports Gpu_Stub
begin

text \<open>
  The display \<open>XboxDisplay\<close> (\<open>src/src/xbox_display.cpp\<close>, \<open>src/include/xbox_display.h\<close>): it
  snapshots a framebuffer in guest memory, reads pixels of the snapshot, hashes it and writes it
  as a PPM file. The outcomes of \<open>fopen\<close> and of each \<open>fwrite\<close> are arguments of \<open>save_ppm\<close>, whose
  result holds the bytes written.
\<close>

section \<open>State and operations\<close>

definition kMaxWidth :: u32 where "kMaxWidth = 1920"
definition kMaxHeight :: u32 where "kMaxHeight = 1080"
definition kBytesPerPixel :: u64 where "kBytesPerPixel = 4"

record display =
  xd_mem :: "mem_map option"
  xd_has_fb :: bool
  xd_fb_gpa :: u64
  xd_fb_w :: u32
  xd_fb_h :: u32
  xd_frame :: "u8 list"
  xd_frames_presented :: u64
  xd_last_present_qpc :: u64
  xd_errors :: u64

definition XboxDisplay :: "mem_map option \<Rightarrow> display" where
  "XboxDisplay m = \<lparr>xd_mem = m, xd_has_fb = False, xd_fb_gpa = 0, xd_fb_w = 0, xd_fb_h = 0, xd_frame = [],
     xd_frames_presented = 0, xd_last_present_qpc = 0, xd_errors = 0\<rparr>"

definition display_attach :: "mem_map option \<Rightarrow> display \<Rightarrow> display" where
  "display_attach m d = d\<lparr>xd_mem := m\<rparr>"

definition fb_bytes :: "display \<Rightarrow> u64" where
  "fb_bytes d = ucast (xd_fb_w d) * ucast (xd_fb_h d) * kBytesPerPixel"

definition set_framebuffer :: "u64 \<Rightarrow> u32 \<Rightarrow> u32 \<Rightarrow> display \<Rightarrow> bool \<times> display" where
  "set_framebuffer gpa w h d =
     (if w = 0 \<or> h = 0 \<or> w > kMaxWidth \<or> h > kMaxHeight then (False, d)
      else let need = (ucast w :: u64) * ucast h * kBytesPerPixel in
        if need div kBytesPerPixel \<noteq> ucast w * ucast h then (False, d)
        else if need > UINT64_MAX then (False, d)
        else case xd_mem d of
          None \<Rightarrow> (False, d)
        | Some m \<Rightarrow>
            if \<not> mem_in_range gpa need then (False, d)
            else if \<not> mem_readable m gpa need then (False, d)
            else (True, d\<lparr>xd_fb_gpa := gpa, xd_fb_w := w, xd_fb_h := h, xd_has_fb := True, xd_frame := []\<rparr>))"

definition clear_framebuffer :: "display \<Rightarrow> display" where
  "clear_framebuffer d = d\<lparr>xd_has_fb := False, xd_fb_gpa := 0, xd_fb_w := 0, xd_fb_h := 0, xd_frame := []\<rparr>"

definition display_error :: "display \<Rightarrow> bool \<times> display" where
  "display_error d = (False, d\<lparr>xd_errors := xd_errors d + 1\<rparr>)"

definition present :: "u64 \<Rightarrow> display \<Rightarrow> bool \<times> display" where
  "present now d =
     (case xd_mem d of
        None \<Rightarrow> display_error d
      | Some m \<Rightarrow>
          if \<not> xd_has_fb d then display_error d
          else let need = fb_bytes d in
            if need = 0 \<or> \<not> mem_readable m (xd_fb_gpa d) need then display_error d
            else case mem_read_bytes m (xd_fb_gpa d) need of
              None \<Rightarrow> display_error d
            | Some snap \<Rightarrow> (True, d\<lparr>xd_frame := snap, xd_frames_presented := xd_frames_presented d + 1,
                 xd_last_present_qpc := now\<rparr>))"

definition on_flip :: "u64 \<Rightarrow> display \<Rightarrow> bool \<times> display" where
  "on_flip now d = present now d"

definition pixel :: "display \<Rightarrow> u32 \<Rightarrow> u32 \<Rightarrow> u32 option" where
  "pixel d x y =
     (if \<not> xd_has_fb d \<or> xd_frame d = [] \<or> x \<ge> xd_fb_w d \<or> y \<ge> xd_fb_h d then None
      else let off = unat (((ucast y :: u64) * ucast (xd_fb_w d) + ucast x) * kBytesPerPixel) in
        if off + 4 > length (xd_frame d) then None else Some (pixel_value (drop off (xd_frame d))))"

definition checksum :: "display \<Rightarrow> u64" where
  "checksum d =
     (if xd_frame d = [] then 0
      else fold (\<lambda>b h. (h XOR ucast b) * 1099511628211) (xd_frame d) 1469598103934665603)"

fun write_rows :: "(nat \<Rightarrow> bool) \<Rightarrow> u8 list \<Rightarrow> nat list \<Rightarrow> u8 list \<Rightarrow> bool \<times> u8 list" where
  "write_rows fwrite frame [] out = (True, out)"
| "write_rows fwrite frame (i # is) out =
     (if \<not> fwrite i then (False, out)
      else write_rows fwrite frame is (out @ [frame ! (4 * i), frame ! (4 * i + 1), frame ! (4 * i + 2)]))"

definition ppm_header :: "u32 \<Rightarrow> u32 \<Rightarrow> u8 list" where
  "ppm_header w h = map of_char (''P6'' @ [CHR 10] @ dec (unat w) @ '' '' @ dec (unat h) @ [CHR 10] @ ''255'' @ [CHR 10])"

definition save_ppm :: "bool \<Rightarrow> (nat \<Rightarrow> bool) \<Rightarrow> display \<Rightarrow> bool \<times> u8 list" where
  "save_ppm fopen fwrite d =
     (if xd_frame d = [] \<or> \<not> xd_has_fb d then (False, [])
      else if length (xd_frame d) < unat (fb_bytes d) then (False, [])
      else if \<not> fopen then (False, [])
      else write_rows fwrite (xd_frame d) [0..<unat (xd_fb_w d) * unat (xd_fb_h d)] (ppm_header (xd_fb_w d) (xd_fb_h d)))"

section \<open>Pixels\<close>

lemma pixel_value_le_word: "length c = 4 \<Longrightarrow> pixel_value c = le_word c"
proof -
  assume "length c = 4"
  then obtain p q r s where c: "c = [p, q, r, s]" by (auto simp: length_Suc_conv numeral_eq_Suc)
  show ?thesis by (simp add: c pixel_value_def push_bit_or push_bit_push_bit or.left_commute or.commute)
qed

lemma pixel_value_le_bytes: "pixel_value (le_bytes 4 v) = v"
  by (simp add: pixel_value_le_word byte_simps)

lemma drop_repeat:
  "length b = k \<Longrightarrow> i < n \<Longrightarrow> drop (k * i) (concat (replicate n b)) = b @ concat (replicate (n - Suc i) b)"
proof (induction n arbitrary: i)
  case (Suc n) then show ?case by (cases i) auto
qed simp

lemma pixel_value_prefix: "length b = 4 \<Longrightarrow> pixel_value (b @ bs) = pixel_value b"
  by (simp add: pixel_value_def nth_append)

lemma le_bytes_pixel_value: "length c = 4 \<Longrightarrow> le_bytes 4 (pixel_value c) = c"
  using le_bytes_le_word [of c, where 'a = 32] by (simp add: pixel_value_le_word)

lemma pixel_offset:
  assumes "x < w" "y < h" "unat w \<le> 1920" "unat h \<le> 1080"
  shows "unat (((ucast y :: u64) * ucast w + ucast (x :: u32)) * 4) = 4 * (unat y * unat w + unat x)"
    "unat y * unat w + unat x < unat w * unat h"
proof -
  have l: "unat x < unat w" "unat y < unat h" using assms by (simp_all add: word_less_nat_alt)
  have "unat y * unat w + unat x < Suc (unat y) * unat w" using l by simp
  also have "\<dots> \<le> unat h * unat w" using l(2) by (intro mult_le_mono1) simp
  finally show b: "unat y * unat w + unat x < unat w * unat h" by (simp add: mult.commute)
  have "unat w * unat h \<le> 1920 * 1080" using assms(3,4) by (rule mult_le_mono)
  with b have "4 * (unat y * unat w + unat x) < 2 ^ 64" by simp
  then have "unat (of_nat (4 * (unat y * unat w + unat x)) :: u64) = 4 * (unat y * unat w + unat x)"
    by (intro unat_of_nat_lt) simp
  moreover have "((ucast y :: u64) * ucast w + ucast x) * 4 = of_nat (4 * (unat y * unat w + unat x))"
    by (simp add: algebra_simps)
  ultimately show "unat (((ucast y :: u64) * ucast w + ucast x) * 4) = 4 * (unat y * unat w + unat x)" by (simp only:)
qed

lemma need_bytes:
  assumes "unat w \<le> 1920" "unat h \<le> 1080"
  shows "unat ((ucast (w :: u32) :: u64) * ucast (h :: u32) * 4) = 4 * (unat w * unat h)"
proof -
  have "unat w * unat h \<le> 1920 * 1080" using assms by (rule mult_le_mono)
  then have "unat (of_nat (4 * (unat w * unat h)) :: u64) = 4 * (unat w * unat h)" by (intro unat_of_nat_lt) (simp add: mult.commute)
  moreover have "(ucast w :: u64) * ucast h * 4 = of_nat (4 * (unat w * unat h))"
    by (simp add: algebra_simps)
  ultimately show ?thesis by (simp only:)
qed

lemma clear_effect:
  assumes "gs_mem g = Some m" "mem_plain m" "exec_clear pkt g = (True, g')"
    "unat (xp_rt_width pkt) \<le> 1920" "unat (xp_rt_height pkt) \<le> 1080"
  defines "n \<equiv> unat (xp_rt_width pkt) * unat (xp_rt_height pkt)"
  shows "\<exists>m'. gs_mem g' = Some m' \<and> mem_plain m' \<and>
    mem_read_bytes m' (ga_gpa (xp_dst pkt)) (ucast (xp_rt_width pkt) * ucast (xp_rt_height pkt) * 4) =
      Some (concat (replicate n (le_bytes 4 (pixel_value (xp_color pkt)))))"
proof -
  define need where "need = (ucast (xp_rt_width pkt) :: u64) * ucast (xp_rt_height pkt) * 4"
  let ?a = "ga_gpa (xp_dst pkt)" let ?v = "pixel_value (xp_color pkt)"
  have u: "unat need = 4 * n" unfolding need_def n_def by (rule need_bytes [OF assms(4,5)])
  have ok: "need = ucast (ga_size (xp_dst pkt))" "commit_ok g (xp_dst pkt)"
    using assms(3) by (auto simp: exec_clear_def need_def gpu_error_def Let_def split: if_splits)
  then have w: "mem_writable m ?a need" using assms(1) by (simp add: commit_ok_def)
  let ?m = "m\<lparr>mp_mem := store_bytes ?a (concat (replicate n (le_bytes 4 ?v))) (mp_mem m)\<rparr>"
  have "fill_words ((unat need + 3) div 4) ?a ?v m = (True, ?m)"
    using fill_range [OF plain_unaliased [OF assms(2)] w u, of ?v] by (simp add: u)
  then have "gs_mem g' = Some ?m"
    using assms(1,3) by (auto simp: exec_clear_def need_def [symmetric] gpu_error_def Let_def split: if_splits)
  moreover have "length (concat (replicate n (le_bytes 4 ?v))) = unat need" by (simp add: length_repeat u)
  ultimately show ?thesis using plain_write(1,2) [OF assms(2) w] by (simp add: need_def)
qed

lemma set_framebuffer_effect:
  assumes "set_framebuffer gpa w h d = (True, d')"
  shows "unat w \<le> 1920 \<and> unat h \<le> 1080 \<and> w \<noteq> 0 \<and> h \<noteq> 0 \<and> xd_mem d' = xd_mem d \<and> xd_has_fb d' \<and> xd_fb_gpa d' = gpa \<and>
    xd_fb_w d' = w \<and> xd_fb_h d' = h \<and> (\<exists>m. xd_mem d = Some m \<and> mem_readable m gpa (ucast w * ucast h * 4))"
  using assms by (auto simp: set_framebuffer_def kMaxWidth_def kMaxHeight_def kBytesPerPixel_def Let_def word_le_nat_alt not_less
      split: if_splits option.splits)

lemma present_effect:
  assumes "xd_mem d = Some m" "xd_has_fb d" "mem_read_bytes m (xd_fb_gpa d) (fb_bytes d) = Some bs" "fb_bytes d \<noteq> 0"
  shows "present now d = (True, d\<lparr>xd_frame := bs, xd_frames_presented := xd_frames_presented d + 1, xd_last_present_qpc := now\<rparr>)"
  using assms by (auto simp: present_def Let_def mem_read_bytes_def split: if_splits)

section \<open>Properties\<close>

text \<open>From packet to pixel. After an accepted clear of a render target, a display on
  that memory whose framebuffer is registered there presents it: the snapshot is taken, every
  pixel inside the dimensions has the clear colour, and no pixel outside exists.\<close>

lemma clear_present_pixels:
  assumes "gs_mem g = Some m" "mem_plain m" "xp_type pkt = ClearRenderTarget"
    "submit_xbox now pkt g = (True, g')" "xd_mem d = gs_mem g'"
    "set_framebuffer (ga_gpa (xp_dst pkt)) (xp_rt_width pkt) (xp_rt_height pkt) d = (True, d1)"
  shows "\<exists>d2. present now2 d1 = (True, d2) \<and>
    (\<forall>x y. pixel d2 x y = (if x < xp_rt_width pkt \<and> y < xp_rt_height pkt then Some (pixel_value (xp_color pkt)) else None))"
proof -
  let ?w = "xp_rt_width pkt" let ?h = "xp_rt_height pkt" let ?v = "pixel_value (xp_color pkt)"
  let ?n = "unat ?w * unat ?h" let ?b = "le_bytes 4 ?v"
  note fb = set_framebuffer_effect [OF assms(6)]
  let ?g = "g\<lparr>gs_submitted := gs_submitted g + 1\<rparr>"
  obtain g1 where g1: "exec_clear pkt ?g = (True, g1)" "gs_mem g' = gs_mem g1"
    using assms(3,4) by (auto simp: submit_xbox_def exec_packet_def Let_def split: prod.splits)
  have "gs_mem ?g = Some m" using assms(1) by simp
  from clear_effect [OF this assms(2) g1(1)] fb obtain m' where
    m': "gs_mem g' = Some m'" "mem_read_bytes m' (ga_gpa (xp_dst pkt)) (ucast ?w * ucast ?h * 4) = Some (concat (replicate ?n ?b))"
    using g1(2) by auto
  have bytes: "fb_bytes d1 = ucast ?w * ucast ?h * 4" using fb by (simp add: fb_bytes_def kBytesPerPixel_def)
  have pos: "0 < ?n" using fb by (simp add: unat_gt_0)
  have "fb_bytes d1 \<noteq> 0" using need_bytes [of ?w ?h] fb pos unfolding bytes by (auto simp: unat_eq_zero [symmetric])
  define d2 where "d2 = d1\<lparr>xd_frame := concat (replicate ?n ?b), xd_frames_presented := xd_frames_presented d1 + 1, xd_last_present_qpc := now2\<rparr>"
  have p: "present now2 d1 = (True, d2)"
    unfolding d2_def using fb m' assms(5) \<open>fb_bytes d1 \<noteq> 0\<close> by (intro present_effect) (simp_all add: bytes)
  have fr: "xd_frame d2 = concat (replicate ?n ?b)" "length (xd_frame d2) = 4 * ?n" "xd_frame d2 \<noteq> []"
    using pos length_repeat [of ?n ?v] by (auto simp: d2_def)
  have "pixel d2 x y = Some ?v" if "x < ?w" "y < ?h" for x y
  proof -
    let ?i = "unat y * unat ?w + unat x"
    note off = pixel_offset [OF that] 
    have i: "?i < ?n" and o: "unat (((ucast y :: u64) * ucast ?w + ucast x) * 4) = 4 * ?i" using off fb by blast+
    have "pixel_value (drop (4 * ?i) (xd_frame d2)) = ?v"
      using drop_repeat [of ?b 4 ?i ?n] i by (simp add: fr(1) pixel_value_prefix pixel_value_le_bytes)
    moreover have "\<not> 4 * ?i + 4 > length (xd_frame d2)" using i by (simp add: fr(2))
    moreover have f2: "xd_has_fb d2" "xd_fb_w d2 = ?w" "xd_fb_h d2 = ?h" using fb by (simp_all add: d2_def)
    ultimately show ?thesis
      using that fr(3) unfolding pixel_def kBytesPerPixel_def Let_def f2(2,3) o by (simp only: f2(1) not_le [symmetric] if_False if_True simp_thms)
  qed
  moreover have "pixel d2 x y = None" if "\<not> (x < ?w \<and> y < ?h)" for x y
    using that fb by (auto simp: pixel_def d2_def not_less)
  ultimately show ?thesis using p by auto
qed

definition demo_clear :: xbox_packet where
  "demo_clear = demo_fill\<lparr>xp_type := ClearRenderTarget, xp_color := [1, 2, 3, 4], xp_rt_width := 1, xp_rt_height := 1\<rparr>"

lemma clear_present_pixels_witness:
  "\<exists>g' d1 d2. submit_xbox 0 demo_clear (GpuStub (Some demo_mem)) = (True, g') \<and>
     set_framebuffer 0x2010 1 1 (XboxDisplay (gs_mem g')) = (True, d1) \<and> present 5 d1 = (True, d2) \<and> pixel d2 0 0 = Some 0x04030201"
proof -
  let ?g = "GpuStub (Some demo_mem)" let ?v = "0x04030201 :: u32"
  let ?m = "demo_mem\<lparr>mp_mem := store_bytes 0x2010 (le_bytes 4 ?v) (mp_mem demo_mem)\<rparr>"
  have hc: "heap_ok (g\<lparr>gs_submitted := k\<rparr>) a = heap_ok g a" "commit_ok (g\<lparr>gs_submitted := k\<rparr>) a = commit_ok g a" for g k a
    by (simp_all add: heap_ok_def commit_ok_def)
  have ok: "heap_ok ?g (xp_dst demo_clear)" "commit_ok ?g (xp_dst demo_clear)"
    using demo_fill_ok by (simp_all add: packet_ok_def demo_clear_def Let_def demo_fill_def)
  have pv: "pixel_value [1, 2, 3, 4] = ?v" by (simp add: pixel_value_def)
  have f: "fill_words 1 0x2010 ?v demo_mem = (True, ?m)"
    using fill_range [OF plain_unaliased [OF demo_mem_plain] demo_mem_writable, of 1 ?v] by simp
  have fld: "xp_rt_width demo_clear = 1" "xp_rt_height demo_clear = 1" "xp_color demo_clear = [1, 2, 3, 4]"
    "ga_gpa (xp_dst demo_clear) = 0x2010" "ga_size (xp_dst demo_clear) = 4" "xp_type demo_clear = ClearRenderTarget"
    by (simp_all add: demo_clear_def demo_fill_def)
  have gm: "gs_mem ?g = Some demo_mem" by (simp add: GpuStub_def)
  have e: "\<exists>g1. exec_clear demo_clear (?g\<lparr>gs_submitted := k\<rparr>) = (True, g1) \<and> gs_mem g1 = Some ?m" for k
    using f by (simp add: exec_clear_def fld hc ok pv gm del: fill_words.simps)
  obtain g' where g': "submit_xbox 0 demo_clear ?g = (True, g')" "gs_mem g' = Some ?m"
    using e [of "gs_submitted ?g + 1"] by (auto simp: submit_xbox_def exec_packet_def fld)
  have "mem_readable ?m 0x2010 4" using writable_readable [OF demo_mem_writable] by simp
  then obtain d1 where d1: "set_framebuffer 0x2010 1 1 (XboxDisplay (gs_mem g')) = (True, d1)"
    by (simp add: set_framebuffer_def XboxDisplay_def g'(2) kMaxWidth_def kMaxHeight_def kBytesPerPixel_def mem_in_range_iff)
  have "\<exists>d2. present 5 d1 = (True, d2) \<and> (\<forall>x y. pixel d2 x y = (if x < 1 \<and> y < 1 then Some (pixel_value [1, 2, 3, 4]) else None))"
    using clear_present_pixels [of ?g demo_mem demo_clear 0 g' "XboxDisplay (gs_mem g')" d1 5] demo_mem_plain g'(1) d1
    by (simp only: fld gm XboxDisplay_def display.simps simp_thms)
  then show ?thesis using g'(1) d1 pv by auto
qed

end
