(* ===== verification/Float32.thy ===== *)
theory Float32
  imports Prelude
begin

text \<open>
  The C++ type \<open>float\<close> as IEEE 754 binary32 bit patterns. Every finite value is an integer multiple
  of \<open>2 ^ -149\<close>, so values, comparisons and exact results are integers in that unit; results are
  rounded to nearest, ties to even. \<open>sin\<close>, \<open>exp2\<close> and \<open>log2\<close> have no standardised results: they are
  the fields of a record \<open>libm\<close> that the models take as an argument.
\<close>

section \<open>Bit patterns\<close>

type_synonym f32 = u32

definition f_neg :: "f32 \<Rightarrow> bool" where "f_neg x = bit x 31"
definition f_expo :: "f32 \<Rightarrow> nat" where "f_expo x = unat (take_bit 8 (drop_bit 23 x))"
definition f_frac :: "f32 \<Rightarrow> int" where "f_frac x = uint (take_bit 23 x)"

definition f_isnan :: "f32 \<Rightarrow> bool" where "f_isnan x \<longleftrightarrow> f_expo x = 255 \<and> f_frac x \<noteq> 0"
definition f_isinf :: "f32 \<Rightarrow> bool" where "f_isinf x \<longleftrightarrow> f_expo x = 255 \<and> f_frac x = 0"

definition f_nan :: f32 where "f_nan = 0x7FC00000"
definition f_inf :: "bool \<Rightarrow> f32" where "f_inf s = (if s then 0xFF800000 else 0x7F800000)"
definition f_zero :: "bool \<Rightarrow> f32" where "f_zero s = (if s then 0x80000000 else 0)"

text \<open>The magnitude and the value in units of \<open>2 ^ -149\<close>; an infinity is above every finite value.\<close>

definition f_mag :: "f32 \<Rightarrow> int" where
  "f_mag x = (if f_expo x = 0 then f_frac x else (2 ^ 23 + f_frac x) * 2 ^ (f_expo x - 1))"

definition f_val :: "f32 \<Rightarrow> int" where
  "f_val x = (if f_neg x then - f_mag x else f_mag x)"

section \<open>Comparisons and selections\<close>

definition flt :: "f32 \<Rightarrow> f32 \<Rightarrow> bool" where
  "flt x y \<longleftrightarrow> \<not> f_isnan x \<and> \<not> f_isnan y \<and> f_val x < f_val y"

definition fge :: "f32 \<Rightarrow> f32 \<Rightarrow> bool" where
  "fge x y \<longleftrightarrow> \<not> f_isnan x \<and> \<not> f_isnan y \<and> f_val y \<le> f_val x"

definition feq :: "f32 \<Rightarrow> f32 \<Rightarrow> bool" where
  "feq x y \<longleftrightarrow> \<not> f_isnan x \<and> \<not> f_isnan y \<and> f_val x = f_val y"

text \<open>\<open>std::min\<close>, \<open>std::max\<close> and \<open>std::clamp\<close> as the standard defines them on \<open>operator<\<close>.\<close>

definition fmin :: "f32 \<Rightarrow> f32 \<Rightarrow> f32" where "fmin a b = (if flt b a then b else a)"
definition fmax :: "f32 \<Rightarrow> f32 \<Rightarrow> f32" where "fmax a b = (if flt a b then b else a)"
definition fclamp :: "f32 \<Rightarrow> f32 \<Rightarrow> f32 \<Rightarrow> f32" where
  "fclamp v lo hi = (if flt v lo then lo else if flt hi v then hi else v)"

definition fneg :: "f32 \<Rightarrow> f32" where "fneg x = x XOR 0x80000000"
definition fabs :: "f32 \<Rightarrow> f32" where "fabs x = x AND 0x7FFFFFFF"

section \<open>Rounded arithmetic\<close>

text \<open>The number of binary digits of a positive integer.\<close>

function bitlen :: "int \<Rightarrow> nat" where
  "bitlen n = (if n \<le> 0 then 0 else Suc (bitlen (n div 2)))"
  by auto
termination by (relation "measure nat") auto

declare bitlen.simps [simp del]

text \<open>The pattern with significand \<open>q\<close> (at most 24 bits) in units of \<open>2 ^ (e - 149)\<close>.\<close>

definition f_pack :: "bool \<Rightarrow> int \<Rightarrow> nat \<Rightarrow> f32" where
  "f_pack s q e =
     (if q < 2 ^ 23 then f_zero s OR word_of_int q
      else if e + 1 \<ge> 255 then f_inf s
      else f_zero s OR push_bit 23 (of_nat (e + 1)) OR word_of_int (q - 2 ^ 23))"

text \<open>Round \<open>num / den\<close> units to nearest, ties to even.\<close>

definition f_round :: "bool \<Rightarrow> int \<Rightarrow> int \<Rightarrow> f32" where
  "f_round s num den =
     (let e = bitlen (num div den) - 24;
          d = den * 2 ^ e;
          q = num div d;
          r = num mod d;
          q1 = (if 2 * r > d \<or> 2 * r = d \<and> odd q then q + 1 else q)
      in if q1 = 2 ^ 24 then f_pack s (2 ^ 23) (e + 1) else f_pack s q1 e)"

definition fadd :: "f32 \<Rightarrow> f32 \<Rightarrow> f32" where
  "fadd x y =
     (if f_isnan x \<or> f_isnan y then f_nan
      else if f_isinf x then (if f_isinf y \<and> f_neg x \<noteq> f_neg y then f_nan else x)
      else if f_isinf y then y
      else let v = f_val x + f_val y in
        if v = 0 then f_zero (f_neg x \<and> f_neg y) else f_round (v < 0) \<bar>v\<bar> 1)"

definition fsub :: "f32 \<Rightarrow> f32 \<Rightarrow> f32" where
  "fsub x y = fadd x (fneg y)"

definition fmul :: "f32 \<Rightarrow> f32 \<Rightarrow> f32" where
  "fmul x y =
     (let s = (f_neg x \<noteq> f_neg y) in
      if f_isnan x \<or> f_isnan y then f_nan
      else if f_isinf x \<or> f_isinf y then (if f_mag x = 0 \<or> f_mag y = 0 then f_nan else f_inf s)
      else f_round s (f_mag x * f_mag y) (2 ^ 149))"

definition fdiv :: "f32 \<Rightarrow> f32 \<Rightarrow> f32" where
  "fdiv x y =
     (let s = (f_neg x \<noteq> f_neg y) in
      if f_isnan x \<or> f_isnan y then f_nan
      else if f_isinf x then (if f_isinf y then f_nan else f_inf s)
      else if f_isinf y then f_zero s
      else if f_mag y = 0 then (if f_mag x = 0 then f_nan else f_inf s)
      else f_round s (f_mag x * 2 ^ 149) (f_mag y))"

text \<open>The integer square root, two bits per round.\<close>

fun isqrt_steps :: "nat \<Rightarrow> int \<Rightarrow> int \<Rightarrow> int" where
  "isqrt_steps 0 n r = r"
| "isqrt_steps (Suc k) n r =
     (let r1 = 2 * r + 1 in
      if r1 * r1 \<le> n div 4 ^ k then isqrt_steps k n r1 else isqrt_steps k n (2 * r))"

definition isqrt :: "int \<Rightarrow> int" where
  "isqrt n = isqrt_steps (Suc (bitlen n) div 2) n 0"

text \<open>\<open>std::sqrt\<close> of a non-negative value: 64 extra bits and a sticky bit decide the rounding.\<close>

definition fsqrt :: "f32 \<Rightarrow> f32" where
  "fsqrt x =
     (if f_isnan x then f_nan
      else if f_mag x = 0 then x
      else if f_neg x then f_nan
      else if f_isinf x then x
      else let n = f_mag x * 2 ^ (149 + 128); r = isqrt n in
        f_round False (2 * r + (if r * r = n then 0 else 1)) (2 * 2 ^ 64))"

text \<open>\<open>std::floor\<close> is exact.\<close>

definition ffloor :: "f32 \<Rightarrow> f32" where
  "ffloor x =
     (if f_isnan x \<or> f_isinf x \<or> f_mag x = 0 then x
      else let v = f_val x div 2 ^ 149 in if v = 0 then f_zero False else f_round (v < 0) (\<bar>v\<bar> * 2 ^ 149) 1)"

text \<open>Conversion to a signed integer truncates; it is undefined for NaN and out of range.\<close>

definition f_to_int :: "nat \<Rightarrow> f32 \<Rightarrow> int option" where
  "f_to_int bits x =
     (if f_isnan x \<or> f_isinf x then None
      else let t = (if f_neg x then - (f_mag x div 2 ^ 149) else f_mag x div 2 ^ 149) in
        if - (2 ^ (bits - 1)) \<le> t \<and> t < 2 ^ (bits - 1) then Some t else None)"

text \<open>\<open>std::lround\<close>: to nearest, halves away from zero; the result type has 64 bits.\<close>

definition f_lround :: "f32 \<Rightarrow> int option" where
  "f_lround x =
     (if f_isnan x \<or> f_isinf x then None
      else let t = (2 * f_mag x + 2 ^ 149) div 2 ^ 150 in
        if t < 2 ^ 63 then Some (if f_neg x then - t else t) else None)"

record libm =
  lm_sin :: "f32 \<Rightarrow> f32"
  lm_exp2 :: "f32 \<Rightarrow> f32"
  lm_log2 :: "f32 \<Rightarrow> f32"

text \<open>Literals of the sources.\<close>

abbreviation f1 :: f32 where "f1 \<equiv> 0x3F800000"
abbreviation f_half :: f32 where "f_half \<equiv> 0x3F000000"
abbreviation f2 :: f32 where "f2 \<equiv> 0x40000000"
abbreviation f4 :: f32 where "f4 \<equiv> 0x40800000"
abbreviation f255 :: f32 where "f255 \<equiv> 0x437F0000"

end
