(* ===== verification/Xbox_Vs.thy ===== *)
theory Xbox_Vs
  imports Float32
begin

text \<open>
  The NV2A vertex shader (\<open>src/src/xbox_vs.cpp\<close>, \<open>src/include/xbox_vs.h\<close>): decoding of 16-byte
  instruction slots and the interpreter. Register files are lists of four-component vectors, as
  the \<open>std::array\<close>s of the source; indexing outside an array is the outcome \<open>VsOob\<close> and the
  language's undefined integer conversions and overflows are \<open>VsUndef\<close>, so that neither can pass
  unnoticed. The registers after a failed run are not part of the result.
\<close>

section \<open>Data\<close>

datatype ilu_op = IluNop | IluMov | IluRcp | IluRcc | IluRsq | IluExp | IluLog | IluLit

datatype mac_op = MacNop | MacMov | MacMul | MacAdd | MacMad | MacDp3 | MacDph | MacDp4 | MacDst | MacMin | MacMax
  | MacSlt | MacSge | MacArl

datatype src_file = FileNone | FileR | FileV | FileC

datatype out_file = OutConstant | OutRegister

text \<open>A swizzle component is its 2-bit code.\<close>

record vs_source =
  vs_file :: src_file
  vs_reg :: nat
  vs_negate :: bool
  vs_swizzle :: "nat list"

record vs_slot =
  sl_ilu :: ilu_op
  sl_mac :: mac_op
  sl_const_index :: nat
  sl_input_index :: nat
  sl_a :: vs_source
  sl_b :: vs_source
  sl_c :: vs_source
  sl_mac_mask :: nat
  sl_temp_reg :: nat
  sl_ilu_mask :: nat
  sl_out_mask :: nat
  sl_out_file :: out_file
  sl_out_address :: nat
  sl_out_from_ilu :: bool
  sl_a0_relative :: bool
  sl_final :: bool

record vs_program =
  pr_slots :: "vs_slot list"
  pr_valid :: bool
  pr_error :: string

type_synonym vec4 = "f32 list"

record vs_regs =
  rg_v :: "vec4 list"
  rg_c :: "vec4 list"
  rg_r :: "vec4 list"
  rg_o :: "vec4 list"
  rg_a0 :: int

datatype 'a vs_out = VsOk 'a | VsFail string | VsOob | VsUndef

fun vs_bind :: "'a vs_out \<Rightarrow> ('a \<Rightarrow> 'b vs_out) \<Rightarrow> 'b vs_out" where
  "vs_bind (VsOk x) f = f x"
| "vs_bind (VsFail e) f = VsFail e"
| "vs_bind VsOob f = VsOob"
| "vs_bind VsUndef f = VsUndef"

definition vs_at :: "'a list \<Rightarrow> nat \<Rightarrow> 'a vs_out" where
  "vs_at xs i = (if i < length xs then VsOk (xs ! i) else VsOob)"

section \<open>Decoding\<close>

definition field :: "u32 list \<Rightarrow> nat \<Rightarrow> nat \<Rightarrow> nat \<Rightarrow> nat" where
  "field w dw b len = unat (drop_bit b (w ! dw) AND (push_bit len 1 - 1))"

definition ilu_of :: "nat \<Rightarrow> ilu_op" where
  "ilu_of n = [IluNop, IluMov, IluRcp, IluRcc, IluRsq, IluExp, IluLog, IluLit] ! n"

definition mac_of :: "nat \<Rightarrow> mac_op" where
  "mac_of n = [MacNop, MacMov, MacMul, MacAdd, MacMad, MacDp3, MacDph, MacDp4, MacDst, MacMin, MacMax, MacSlt, MacSge, MacArl] ! n"

definition file_of :: "nat \<Rightarrow> src_file" where
  "file_of n = [FileNone, FileR, FileV, FileC] ! n"

definition mac_uses_a :: "mac_op \<Rightarrow> bool" where
  "mac_uses_a op = (case op of MacNop \<Rightarrow> False | MacAdd \<Rightarrow> False | _ \<Rightarrow> True)"

definition mac_uses_b :: "mac_op \<Rightarrow> bool" where
  "mac_uses_b op = (case op of MacMov \<Rightarrow> False | MacAdd \<Rightarrow> False | MacArl \<Rightarrow> False | _ \<Rightarrow> True)"

definition mac_uses_c :: "mac_op \<Rightarrow> bool" where
  "mac_uses_c op = (case op of MacAdd \<Rightarrow> True | MacMad \<Rightarrow> True | _ \<Rightarrow> False)"

definition valid_output_index :: "nat \<Rightarrow> bool" where
  "valid_output_index idx \<longleftrightarrow> idx \<in> {0, 3, 4, 5, 6, 7, 8, 9, 10, 11, 12}"

definition valid_r_index :: "src_file \<Rightarrow> nat \<Rightarrow> bool" where
  "valid_r_index f reg \<longleftrightarrow> f \<noteq> FileR \<or> reg \<le> 12"

definition file_ok :: "vs_source \<Rightarrow> bool" where
  "file_ok s \<longleftrightarrow> vs_file s \<noteq> FileNone \<and> valid_r_index (vs_file s) (vs_reg s)"

definition slot_fields :: "u32 list \<Rightarrow> vs_slot" where
  "slot_fields w =
     \<lparr>sl_ilu = ilu_of (field w 1 25 3), sl_mac = mac_of (field w 1 21 4),
      sl_const_index = field w 1 13 8, sl_input_index = field w 1 9 4,
      sl_a = \<lparr>vs_file = file_of (field w 2 26 2), vs_reg = field w 2 28 4, vs_negate = (field w 1 8 1 \<noteq> 0),
              vs_swizzle = [field w 1 6 2, field w 1 4 2, field w 1 2 2, field w 1 0 2]\<rparr>,
      sl_b = \<lparr>vs_file = file_of (field w 2 11 2), vs_reg = field w 2 13 4, vs_negate = (field w 2 25 1 \<noteq> 0),
              vs_swizzle = [field w 2 23 2, field w 2 21 2, field w 2 19 2, field w 2 17 2]\<rparr>,
      sl_c = \<lparr>vs_file = file_of (field w 3 28 2), vs_reg = field w 2 0 2 * 4 + field w 3 30 2,
              vs_negate = (field w 2 10 1 \<noteq> 0),
              vs_swizzle = [field w 2 8 2, field w 2 6 2, field w 2 4 2, field w 2 2 2]\<rparr>,
      sl_mac_mask = field w 3 24 4, sl_temp_reg = field w 3 20 4, sl_ilu_mask = field w 3 16 4,
      sl_out_mask = field w 3 12 4,
      sl_out_file = (if field w 3 11 1 = 0 then OutConstant else OutRegister),
      sl_out_address = field w 3 3 8, sl_out_from_ilu = (field w 3 2 1 \<noteq> 0),
      sl_a0_relative = (field w 3 1 1 \<noteq> 0), sl_final = (field w 3 0 1 \<noteq> 0)\<rparr>"

definition writes_temp :: "vs_slot \<Rightarrow> bool" where
  "writes_temp s \<longleftrightarrow> sl_mac s \<noteq> MacNop \<and> sl_mac_mask s \<noteq> 0 \<or> sl_ilu s \<noteq> IluNop \<and> sl_ilu_mask s \<noteq> 0"

definition vs_decode_slot :: "u32 list \<Rightarrow> string + vs_slot" where
  "vs_decode_slot w =
     (let s = slot_fields w in
      if field w 1 21 4 > 13 then Inl ''MAC opcode is reserved''
      else if sl_const_index s > 191 then Inl ''constant index out of range''
      else if sl_ilu s \<noteq> IluNop \<and> \<not> file_ok (sl_c s) then Inl ''ILU source C is not a usable register''
      else if sl_mac s \<noteq> MacNop \<and> mac_uses_a (sl_mac s) \<and> \<not> file_ok (sl_a s) then Inl ''MAC source A is not a usable register''
      else if sl_mac s \<noteq> MacNop \<and> mac_uses_b (sl_mac s) \<and> \<not> file_ok (sl_b s) then Inl ''MAC source B is not a usable register''
      else if sl_mac s \<noteq> MacNop \<and> mac_uses_c (sl_mac s) \<and> \<not> file_ok (sl_c s) then Inl ''MAC source C is not a usable register''
      else if writes_temp s \<and> sl_temp_reg s > 12 then Inl ''temporary register index out of range''
      else if sl_out_mask s \<noteq> 0 \<and> sl_out_file s = OutConstant \<and> sl_out_address s > 191 then Inl ''writeable constant index out of range''
      else if sl_out_mask s \<noteq> 0 \<and> sl_out_file s = OutRegister \<and> \<not> valid_output_index (sl_out_address s mod 16)
      then Inl ''output register reserved''
      else Inr s)"

text \<open>The loop over the slots: \<open>i\<close> is the next slot, \<open>n\<close> the number of rounds left.\<close>

fun decode_slots :: "u32 list \<Rightarrow> nat \<Rightarrow> nat \<Rightarrow> vs_slot list \<Rightarrow> vs_program" where
  "decode_slots words i 0 acc = \<lparr>pr_slots = acc, pr_valid = False, pr_error = ''final instruction marker missing''\<rparr>"
| "decode_slots words i (Suc n) acc =
     (case vs_decode_slot (drop (4 * i) words) of
        Inl err \<Rightarrow> \<lparr>pr_slots = acc, pr_valid = False, pr_error = ''slot '' @ dec i @ '': '' @ err\<rparr>
      | Inr slot \<Rightarrow>
          if sl_final slot then \<lparr>pr_slots = acc @ [slot], pr_valid = True, pr_error = []\<rparr>
          else decode_slots words (Suc i) n (acc @ [slot]))"

definition vs_decode_program :: "u32 list option \<Rightarrow> nat \<Rightarrow> vs_program" where
  "vs_decode_program words slot_count =
     (case words of
        None \<Rightarrow> \<lparr>pr_slots = [], pr_valid = False, pr_error = ''null program''\<rparr>
      | Some ws \<Rightarrow> decode_slots ws 0 (min slot_count 136) [])"

section \<open>Execution\<close>

definition vs_init_registers :: "vs_regs \<Rightarrow> vs_regs" where
  "vs_init_registers regs = regs\<lparr>rg_v := map (\<lambda>_. [0, 0, 0, 0]) (rg_v regs), rg_c := map (\<lambda>_. [0, 0, 0, 0]) (rg_c regs),
     rg_r := map (\<lambda>_. [0, 0, 0, 0]) (rg_r regs), rg_o := map (\<lambda>_. [0, 0, 0, f1]) (rg_o regs), rg_a0 := 0\<rparr>"

definition apply_mask :: "vec4 \<Rightarrow> vec4 \<Rightarrow> nat \<Rightarrow> vec4" where
  "apply_mask dst v msk = map (\<lambda>i. if bit msk i then v ! i else dst ! i) [0..<4]"

text \<open>The component a swizzle code selects; both arrays are indexed with a check.\<close>

definition component :: "vec4 \<Rightarrow> nat list \<Rightarrow> nat \<Rightarrow> f32 vs_out" where
  "component base sw i = vs_bind (vs_at sw i) (vs_at base)"

definition swizzle4 :: "vec4 \<Rightarrow> nat list \<Rightarrow> vec4 vs_out" where
  "swizzle4 base sw =
     vs_bind (component base sw 0) (\<lambda>x. vs_bind (component base sw 1) (\<lambda>y.
     vs_bind (component base sw 2) (\<lambda>z. vs_bind (component base sw 3) (\<lambda>w. VsOk [x, y, z, w]))))"

definition const_base :: "vs_slot \<Rightarrow> vs_regs \<Rightarrow> vec4 vs_out" where
  "const_base slot regs =
     (let idx = int (sl_const_index slot) + (if sl_a0_relative slot then rg_a0 regs else 0) in
      if \<not> (- (2 ^ 31) \<le> idx \<and> idx < 2 ^ 31) then VsUndef
      else if idx < 0 \<or> idx > 191 then VsFail ''relative constant index out of range''
      else vs_at (rg_c regs) (nat idx))"

definition source_base :: "vs_slot \<Rightarrow> vs_source \<Rightarrow> vs_regs \<Rightarrow> vec4 vs_out" where
  "source_base slot src regs =
     (case vs_file src of
        FileR \<Rightarrow> if vs_reg src = 12 then vs_at (rg_o regs) 0 else vs_at (rg_r regs) (vs_reg src)
      | FileV \<Rightarrow> vs_at (rg_v regs) (sl_input_index slot)
      | FileC \<Rightarrow> const_base slot regs
      | FileNone \<Rightarrow> VsFail ''source operand has no register file'')"

definition read_source :: "vs_slot \<Rightarrow> vs_source \<Rightarrow> vs_regs \<Rightarrow> bool \<Rightarrow> vec4 vs_out" where
  "read_source slot src regs force_scalar =
     vs_bind (source_base slot src regs) (\<lambda>base.
     vs_bind (if force_scalar then vs_bind (component base (vs_swizzle src) 0) (\<lambda>c. VsOk [c, c, c, c])
              else swizzle4 base (vs_swizzle src)) (\<lambda>out.
       VsOk (if vs_negate src then map fneg out else out)))"

definition dot3 :: "vec4 \<Rightarrow> vec4 \<Rightarrow> f32" where
  "dot3 a b = fadd (fadd (fmul (a ! 0) (b ! 0)) (fmul (a ! 1) (b ! 1))) (fmul (a ! 2) (b ! 2))"

definition mac_compute :: "mac_op \<Rightarrow> vec4 \<Rightarrow> vec4 \<Rightarrow> vec4 \<Rightarrow> vec4" where
  "mac_compute op a b c =
     (case op of
        MacMov \<Rightarrow> a
      | MacMul \<Rightarrow> map2 fmul a b
      | MacAdd \<Rightarrow> map2 fadd a c
      | MacMad \<Rightarrow> map2 fadd (map2 fmul a b) c
      | MacDp3 \<Rightarrow> replicate 4 (dot3 a b)
      | MacDph \<Rightarrow> replicate 4 (fadd (dot3 a b) (b ! 3))
      | MacDp4 \<Rightarrow> replicate 4 (fadd (dot3 a b) (fmul (a ! 3) (b ! 3)))
      | MacDst \<Rightarrow> [f1, fmul (a ! 1) (b ! 1), a ! 2, b ! 3]
      | MacMin \<Rightarrow> map2 fmin a b
      | MacMax \<Rightarrow> map2 fmax a b
      | MacSlt \<Rightarrow> map2 (\<lambda>x y. if flt x y then f1 else 0) a b
      | MacSge \<Rightarrow> map2 (\<lambda>x y. if fge x y then f1 else 0) a b
      | MacNop \<Rightarrow> [0, 0, 0, 0]
      | MacArl \<Rightarrow> [0, 0, 0, 0])"

definition ilu_forces_scalar :: "ilu_op \<Rightarrow> bool" where
  "ilu_forces_scalar op \<longleftrightarrow> op \<in> {IluRcp, IluRcc, IluRsq, IluExp, IluLog}"

definition ilu_rcc :: "f32 \<Rightarrow> f32" where
  "ilu_rcc x = (let t = fdiv f1 x in
     if flt 0 t then fclamp t 0x1F7FFFFD 0x5F82C2DC else fclamp t 0xDF82C2DC 0x9F7FFFFD)"

definition ilu_rsq :: "f32 \<Rightarrow> f32" where
  "ilu_rsq s = (if feq s 0 then f_inf False else if f_isinf s then 0 else fdiv f1 (fsqrt (fabs s)))"

definition ilu_compute :: "libm \<Rightarrow> ilu_op \<Rightarrow> vec4 \<Rightarrow> vec4" where
  "ilu_compute lm op c =
     (case op of
        IluMov \<Rightarrow> c
      | IluRcp \<Rightarrow> replicate 4 (fdiv f1 (c ! 0))
      | IluRcc \<Rightarrow> replicate 4 (ilu_rcc (c ! 0))
      | IluRsq \<Rightarrow> replicate 4 (ilu_rsq (c ! 0))
      | IluExp \<Rightarrow> (let s = c ! 0; fl = ffloor s in [lm_exp2 lm fl, fsub s fl, lm_exp2 lm s, f1])
      | IluLog \<Rightarrow>
          (let tmp = fabs (c ! 0) in
           if feq tmp 0 then [f_inf True, f1, f_inf True, f1]
           else let fl = ffloor (lm_log2 lm tmp) in [fl, fdiv tmp (lm_exp2 lm fl), lm_log2 lm tmp, f1])
      | IluLit \<Rightarrow>
          (let sw = fclamp (c ! 3) 0xC2FFFE00 0x42FFFE00;
               sx = fmax (c ! 0) 0;
               sy = fmax (c ! 1) 0;
               z = (if flt 0 sx then lm_exp2 lm (fmul sw (lm_log2 lm sy)) else 0)
           in [f1, sx, z, f1])
      | IluNop \<Rightarrow> [0, 0, 0, 0])"

definition write_temp :: "nat \<Rightarrow> vec4 \<Rightarrow> nat \<Rightarrow> vs_regs \<Rightarrow> vs_regs vs_out" where
  "write_temp reg v msk regs =
     (if reg = 12 then vs_bind (vs_at (rg_o regs) 0) (\<lambda>d. VsOk (regs\<lparr>rg_o := (rg_o regs)[0 := apply_mask d v msk]\<rparr>))
      else vs_bind (vs_at (rg_r regs) reg) (\<lambda>d. VsOk (regs\<lparr>rg_r := (rg_r regs)[reg := apply_mask d v msk]\<rparr>)))"

definition write_output :: "vs_slot \<Rightarrow> vec4 \<Rightarrow> vs_regs \<Rightarrow> vs_regs vs_out" where
  "write_output slot v regs =
     (if sl_out_file slot = OutConstant
      then if sl_out_address slot > 191 then VsFail ''writeable constant index out of range''
           else vs_bind (vs_at (rg_c regs) (sl_out_address slot))
             (\<lambda>d. VsOk (regs\<lparr>rg_c := (rg_c regs)[sl_out_address slot := apply_mask d v (sl_out_mask slot)]\<rparr>))
      else let idx = sl_out_address slot mod 16 in
           if \<not> valid_output_index idx then VsFail ''output register reserved''
           else vs_bind (vs_at (rg_o regs) idx)
             (\<lambda>d. VsOk (regs\<lparr>rg_o := (rg_o regs)[idx := apply_mask d v (sl_out_mask slot)]\<rparr>)))"

definition operand :: "bool \<Rightarrow> vs_slot \<Rightarrow> vs_source \<Rightarrow> vs_regs \<Rightarrow> vec4 vs_out" where
  "operand used slot src regs = (if used then read_source slot src regs False else VsOk [0, 0, 0, 0])"

text \<open>The MAC unit: the operands in order, then the result and the registers (\<open>Arl\<close> loads \<open>a0\<close>).\<close>

definition run_mac :: "vs_slot \<Rightarrow> vs_regs \<Rightarrow> (vec4 \<times> vs_regs) vs_out" where
  "run_mac slot regs =
     (if sl_mac slot = MacNop then VsOk ([0, 0, 0, 0], regs)
      else vs_bind (operand (mac_uses_a (sl_mac slot)) slot (sl_a slot) regs) (\<lambda>a.
           vs_bind (operand (mac_uses_b (sl_mac slot)) slot (sl_b slot) regs) (\<lambda>b.
           vs_bind (operand (mac_uses_c (sl_mac slot)) slot (sl_c slot) regs) (\<lambda>c.
             if sl_mac slot = MacArl
             then case f_to_int 32 (ffloor (fadd (a ! 0) 0x3A83126F)) of
                 None \<Rightarrow> VsUndef
               | Some n \<Rightarrow> VsOk (a, regs\<lparr>rg_a0 := n\<rparr>)
             else VsOk (mac_compute (sl_mac slot) a b c, regs)))))"

definition run_ilu :: "libm \<Rightarrow> vs_slot \<Rightarrow> vs_regs \<Rightarrow> vec4 vs_out" where
  "run_ilu lm slot regs =
     (if sl_ilu slot = IluNop then VsOk [0, 0, 0, 0]
      else vs_bind (read_source slot (sl_c slot) regs (ilu_forces_scalar (sl_ilu slot)))
             (\<lambda>c. VsOk (ilu_compute lm (sl_ilu slot) c)))"

definition write_results :: "vs_slot \<Rightarrow> vec4 \<Rightarrow> vec4 \<Rightarrow> vs_regs \<Rightarrow> vs_regs vs_out" where
  "write_results slot mac_res ilu_res regs =
     (let has_mac = (sl_mac slot \<noteq> MacNop); has_ilu = (sl_ilu slot \<noteq> IluNop) in
      vs_bind (if has_mac \<and> \<not> (has_ilu \<and> sl_temp_reg slot = 1) \<and> sl_mac_mask slot \<noteq> 0
               then write_temp (sl_temp_reg slot) mac_res (sl_mac_mask slot) regs else VsOk regs) (\<lambda>r1.
      vs_bind (if has_ilu \<and> sl_ilu_mask slot \<noteq> 0
               then write_temp (if has_mac then 1 else sl_temp_reg slot) ilu_res (sl_ilu_mask slot) r1 else VsOk r1) (\<lambda>r2.
      if sl_out_mask slot \<noteq> 0
      then if sl_out_from_ilu slot \<and> has_ilu then write_output slot ilu_res r2
           else if \<not> sl_out_from_ilu slot \<and> has_mac then write_output slot mac_res r2
           else VsOk r2
      else VsOk r2)))"

definition exec_slot :: "libm \<Rightarrow> vs_slot \<Rightarrow> vs_regs \<Rightarrow> vs_regs vs_out" where
  "exec_slot lm slot regs =
     vs_bind (run_mac slot regs) (\<lambda>(mac_res, r1).
     vs_bind (run_ilu lm slot r1) (\<lambda>ilu_res. write_results slot mac_res ilu_res r1))"

fun exec_slots :: "libm \<Rightarrow> vs_slot list \<Rightarrow> vs_regs \<Rightarrow> vs_regs vs_out" where
  "exec_slots lm [] regs = VsOk regs"
| "exec_slots lm (s # ss) regs = vs_bind (exec_slot lm s regs) (exec_slots lm ss)"

definition vs_execute :: "libm \<Rightarrow> vs_program \<Rightarrow> vs_regs \<Rightarrow> vs_regs vs_out" where
  "vs_execute lm p regs =
     (if \<not> pr_valid p then VsFail (if pr_error p = [] then ''invalid program'' else pr_error p)
      else exec_slots lm (pr_slots p) regs)"

section \<open>Decoded programs stay in bounds\<close>

definition vec_ok :: "vec4 \<Rightarrow> bool" where "vec_ok v \<longleftrightarrow> length v = 4"

definition regs_ok :: "vs_regs \<Rightarrow> bool" where
  "regs_ok g \<longleftrightarrow> length (rg_v g) = 16 \<and> length (rg_c g) = 192 \<and> length (rg_r g) = 12 \<and> length (rg_o g) = 16 \<and>
     list_all vec_ok (rg_v g @ rg_c g @ rg_r g @ rg_o g)"

definition swizzle_ok :: "vs_source \<Rightarrow> bool" where
  "swizzle_ok src \<longleftrightarrow> length (vs_swizzle src) = 4 \<and> list_all (\<lambda>k. k < 4) (vs_swizzle src)"

definition slot_ok :: "vs_slot \<Rightarrow> bool" where
  "slot_ok s \<longleftrightarrow> swizzle_ok (sl_a s) \<and> swizzle_ok (sl_b s) \<and> swizzle_ok (sl_c s) \<and> sl_const_index s \<le> 191 \<and> sl_input_index s < 16 \<and> (sl_ilu s \<noteq> IluNop \<longrightarrow> file_ok (sl_c s)) \<and>
     (sl_mac s \<noteq> MacNop \<longrightarrow> (mac_uses_a (sl_mac s) \<longrightarrow> file_ok (sl_a s)) \<and> (mac_uses_b (sl_mac s) \<longrightarrow> file_ok (sl_b s)) \<and>
       (mac_uses_c (sl_mac s) \<longrightarrow> file_ok (sl_c s))) \<and> (writes_temp s \<longrightarrow> sl_temp_reg s \<le> 12) \<and>
     (sl_out_mask s \<noteq> 0 \<longrightarrow> (if sl_out_file s = OutConstant then sl_out_address s \<le> 191 else valid_output_index (sl_out_address s mod 16)))"

lemma field_bound: "len < 32 \<Longrightarrow> field w dw b len < 2 ^ len"
proof -
  assume "len < 32"
  have "(push_bit len 1 - 1 :: u32) = mask len" by (simp add: push_bit_eq_mult mask_eq_exp_minus_1)
  then have "field w dw b len = unat (take_bit len (drop_bit b (w ! dw)))"
    by (simp add: field_def take_bit_eq_mask)
  also have "\<dots> = take_bit len (unat (drop_bit b (w ! dw)))" by (simp add: unsigned_take_bit_eq)
  finally show ?thesis by simp
qed

lemma decode_slot_ok: "vs_decode_slot w = Inr s \<Longrightarrow> slot_ok s"
proof -
  assume d: "vs_decode_slot w = Inr s"
  have s: "s = slot_fields w" using d by (auto simp: vs_decode_slot_def Let_def split: if_splits)
  have "sl_input_index s < 16" using field_bound [of 4 w 1 9] by (simp add: s slot_fields_def)
  moreover have "swizzle_ok (sl_a s)" "swizzle_ok (sl_b s)" "swizzle_ok (sl_c s)"
    using field_bound [of 2 w] by (simp_all add: s slot_fields_def swizzle_ok_def)
  moreover have "sl_out_file s \<noteq> OutConstant \<Longrightarrow> sl_out_file s = OutRegister" by (cases "sl_out_file s") simp_all
  moreover have "sl_const_index s \<le> 191" "sl_ilu s = IluNop \<or> file_ok (sl_c s)"
    "sl_mac s = MacNop \<or> \<not> mac_uses_a (sl_mac s) \<or> file_ok (sl_a s)"
    "sl_mac s = MacNop \<or> \<not> mac_uses_b (sl_mac s) \<or> file_ok (sl_b s)"
    "sl_mac s = MacNop \<or> \<not> mac_uses_c (sl_mac s) \<or> file_ok (sl_c s)"
    "\<not> writes_temp s \<or> sl_temp_reg s \<le> 12" "sl_out_mask s = 0 \<or> sl_out_file s \<noteq> OutConstant \<or> sl_out_address s \<le> 191"
    "sl_out_mask s = 0 \<or> sl_out_file s \<noteq> OutRegister \<or> valid_output_index (sl_out_address s mod 16)"
    using d [unfolded vs_decode_slot_def Let_def s [symmetric]] by (simp_all add: not_less split: if_splits)
  ultimately show ?thesis unfolding slot_ok_def by (intro conjI impI) (simp_all, (simp split: if_splits)?)
qed

lemma decode_slots_ok:
  "list_all slot_ok acc \<Longrightarrow> list_all slot_ok (pr_slots (decode_slots ws i n acc))"
proof (induction n arbitrary: i acc)
  case (Suc n)
  then show ?case by (auto split: sum.splits dest: decode_slot_ok)
qed simp

text \<open>A full register file; unless \<open>u\<close> is set, its address register is such that adding it to a
  constant index does not overflow.\<close>

definition regs_in :: "bool \<Rightarrow> vs_regs \<Rightarrow> bool" where
  "regs_in u g \<longleftrightarrow> regs_ok g \<and> (u \<or> - (2 ^ 31) \<le> rg_a0 g \<and> rg_a0 g < 2 ^ 31 - 191)"

text \<open>What an execution may end in: a state with a property, or the one documented failure; never
  an access outside an array, and an undefined conversion or overflow only when \<open>u\<close> is set.\<close>

definition vs_safe :: "bool \<Rightarrow> ('a \<Rightarrow> bool) \<Rightarrow> 'a vs_out \<Rightarrow> bool" where
  "vs_safe u P r = (case r of VsOk x \<Rightarrow> P x | VsFail e \<Rightarrow> e = ''relative constant index out of range'' | VsOob \<Rightarrow> False | VsUndef \<Rightarrow> u)"

lemma vs_safe_simps [simp]: "vs_safe u P (VsOk x) = P x" "vs_safe u P VsUndef = u" "\<not> vs_safe u P VsOob"
  by (simp_all add: vs_safe_def)

lemma vs_safe_bind: "vs_safe u P r \<Longrightarrow> (\<And>x. P x \<Longrightarrow> vs_safe u Q (f x)) \<Longrightarrow> vs_safe u Q (vs_bind r f)"
  by (cases r) (auto simp: vs_safe_def)

lemma vs_safe_at: "i < length xs \<Longrightarrow> list_all P xs \<Longrightarrow> vs_safe u P (vs_at xs i)"
  by (simp add: vs_at_def list_all_length)

lemma base_safe:
  assumes "regs_in u g" "slot_ok s" "file_ok src"
  shows "vs_safe u vec_ok (source_base s src g)"
proof (cases "vs_file src")
  case FileR
  then have "vs_reg src = 12 \<or> vs_reg src < 12" using assms(3) by (auto simp: file_ok_def valid_r_index_def)
  with FileR assms(1) show ?thesis by (auto simp: source_base_def regs_in_def regs_ok_def intro!: vs_safe_at)
next
  case FileV with assms(1,2) show ?thesis by (auto simp: source_base_def regs_in_def regs_ok_def slot_ok_def intro!: vs_safe_at)
next
  case FileC
  have "vs_safe u vec_ok (vs_at (rg_c g) (nat i))" if "\<not> (i < 0 \<or> i > 191)" for i
    using that assms(1) by (intro vs_safe_at) (auto simp: regs_in_def regs_ok_def)
  moreover have "u \<or> - (2 ^ 31) \<le> int (sl_const_index s) + a \<and> int (sl_const_index s) + a < 2 ^ 31" if "a \<in> {0, rg_a0 g}" for a
    using that assms(1,2) by (auto simp: regs_in_def slot_ok_def)
  moreover have "sl_const_index s < 2147483648" using assms(2) by (simp add: slot_ok_def)
  ultimately show ?thesis using FileC by (auto simp: source_base_def const_base_def Let_def vs_safe_def)
qed (use assms(3) in \<open>simp add: file_ok_def\<close>)

lemma component_at: "vec_ok base \<Longrightarrow> swizzle_ok src \<Longrightarrow> i < 4 \<Longrightarrow> component base (vs_swizzle src) i = VsOk (base ! (vs_swizzle src ! i))"
  by (simp add: component_def vs_at_def vec_ok_def swizzle_ok_def list_all_length)

lemma read_safe:
  assumes "regs_in u g" "slot_ok s" "file_ok src" "swizzle_ok src"
  shows "vs_safe u vec_ok (read_source s src g sc)"
  unfolding read_source_def
  by (rule vs_safe_bind [OF base_safe [OF assms(1-3)]]) (simp add: component_at [OF _ assms(4)] swizzle4_def vec_ok_def)

lemma operand_safe:
  "regs_in u g \<Longrightarrow> slot_ok s \<Longrightarrow> (used \<longrightarrow> file_ok src) \<Longrightarrow> swizzle_ok src \<Longrightarrow> vs_safe u vec_ok (operand used s src g)"
  by (simp add: operand_def read_safe vec_ok_def)

lemma mac_vec: "vec_ok a \<Longrightarrow> vec_ok b \<Longrightarrow> vec_ok c \<Longrightarrow> vec_ok (mac_compute op a b c)"
  by (cases op) (simp_all add: mac_compute_def vec_ok_def)

lemma ilu_vec: "vec_ok c \<Longrightarrow> vec_ok (ilu_compute lm op c)"
  by (cases op) (simp_all add: ilu_compute_def vec_ok_def Let_def)

lemma mac_safe:
  assumes "regs_in u g" "slot_ok s" "u \<or> sl_mac s \<noteq> MacArl"
  shows "vs_safe u (\<lambda>(v, g'). vec_ok v \<and> regs_in u g') (run_mac s g)"
proof (cases "sl_mac s = MacNop")
  case False
  note op = operand_safe [OF assms(1,2)]
  have "vs_safe u vec_ok (operand (mac_uses_a (sl_mac s)) s (sl_a s) g)" "vs_safe u vec_ok (operand (mac_uses_b (sl_mac s)) s (sl_b s) g)"
    "vs_safe u vec_ok (operand (mac_uses_c (sl_mac s)) s (sl_c s) g)"
    using False assms(2) by (auto simp: slot_ok_def intro!: op)
  then show ?thesis unfolding run_mac_def using False assms(1,3)
    by (auto intro!: vs_safe_bind [of u vec_ok] mac_vec simp: regs_in_def regs_ok_def split: option.splits)
qed (use assms in \<open>simp add: run_mac_def vec_ok_def\<close>)

lemma ilu_safe:
  assumes "regs_in u g" "slot_ok s" shows "vs_safe u vec_ok (run_ilu lm s g)"
proof (cases "sl_ilu s = IluNop")
  case False
  then have "file_ok (sl_c s)" "swizzle_ok (sl_c s)" using assms(2) by (simp_all add: slot_ok_def)
  then have "vs_safe u vec_ok (vs_bind (read_source s (sl_c s) g (ilu_forces_scalar (sl_ilu s))) (\<lambda>c. VsOk (ilu_compute lm (sl_ilu s) c)))"
    by (intro vs_safe_bind [OF read_safe [OF assms]]) (simp_all add: ilu_vec)
  then show ?thesis using False by (simp add: run_ilu_def)
qed (simp add: run_ilu_def vec_ok_def)

lemma mask_vec [simp]: "vec_ok (apply_mask d v m)"
  by (simp add: vec_ok_def apply_mask_def)

lemma temp_safe: "regs_in u g \<Longrightarrow> reg \<le> 12 \<Longrightarrow> vs_safe u (regs_in u) (write_temp reg v m g)"
  by (auto simp: write_temp_def vs_at_def regs_in_def regs_ok_def list_all_update)

lemma output_safe:
  assumes "regs_in u g" "slot_ok s" "sl_out_mask s \<noteq> 0" shows "vs_safe u (regs_in u) (write_output s v g)"
proof (cases "sl_out_file s = OutConstant")
  case True with assms show ?thesis by (auto simp: write_output_def vs_at_def regs_in_def regs_ok_def slot_ok_def list_all_update)
next
  case False
  then have "valid_output_index (sl_out_address s mod 16)" using assms by (simp add: slot_ok_def)
  with False assms(1) show ?thesis by (auto simp: write_output_def vs_at_def regs_in_def regs_ok_def Let_def list_all_update)
qed

lemma results_safe:
  assumes "regs_in u g" "slot_ok s" shows "vs_safe u (regs_in u) (write_results s v x g)"
proof -
  have t: "writes_temp s \<Longrightarrow> sl_temp_reg s \<le> 12" using assms(2) by (simp add: slot_ok_def)
  have mac: "vs_safe u (regs_in u) (if sl_mac s \<noteq> MacNop \<and> \<not> (sl_ilu s \<noteq> IluNop \<and> sl_temp_reg s = 1) \<and> sl_mac_mask s \<noteq> 0
      then write_temp (sl_temp_reg s) v (sl_mac_mask s) g else VsOk g)"
    using assms(1) t temp_safe [of u g "sl_temp_reg s"] by (simp add: writes_temp_def)
  have ilu: "vs_safe u (regs_in u) (if sl_ilu s \<noteq> IluNop \<and> sl_ilu_mask s \<noteq> 0
      then write_temp (if sl_mac s \<noteq> MacNop then 1 else sl_temp_reg s) x (sl_ilu_mask s) h else VsOk h)" if "regs_in u h" for h
    using that t temp_safe [of u h] by (simp add: writes_temp_def)
  have out: "vs_safe u (regs_in u) (if sl_out_mask s \<noteq> 0
      then if sl_out_from_ilu s \<and> sl_ilu s \<noteq> IluNop then write_output s x h
           else if \<not> sl_out_from_ilu s \<and> sl_mac s \<noteq> MacNop then write_output s v h else VsOk h
      else VsOk h)" if "regs_in u h" for h
    using that output_safe [OF that assms(2)] by simp
  show ?thesis unfolding write_results_def Let_def
    by (rule vs_safe_bind [OF mac], rule vs_safe_bind [OF ilu], assumption, rule out)
qed

lemma exec_slot_safe: "regs_in u g \<Longrightarrow> slot_ok s \<Longrightarrow> u \<or> sl_mac s \<noteq> MacArl \<Longrightarrow> vs_safe u (regs_in u) (exec_slot lm s g)"
  unfolding exec_slot_def
  by (rule vs_safe_bind [OF mac_safe]) (auto intro!: vs_safe_bind [OF ilu_safe] results_safe)

lemma exec_slots_safe: "list_all slot_ok ss \<Longrightarrow> u \<or> list_all (\<lambda>s. sl_mac s \<noteq> MacArl) ss \<Longrightarrow> regs_in u g \<Longrightarrow> vs_safe u (regs_in u) (exec_slots lm ss g)"
proof (induction ss arbitrary: g)
  case (Cons s ss)
  then show ?case using vs_safe_bind [OF exec_slot_safe [of u g s lm], of "regs_in u" "exec_slots lm ss"] by auto
qed simp

section \<open>Properties\<close>

text \<open>(C21) Decoding protects the interpreter. A program that decodes successfully has at most
  136 well-formed slots, and running it on a full register file never indexes outside a register
  file, a vector or a swizzle: it ends in a full register file or reports exactly the
  relative-constant error. Undefined integer arithmetic is possible only for a program that loads the
  address register with \<open>ARL\<close>, or that starts with an address register within 191 of the end of the
  32-bit range.\<close>

theorem vs_decoded_in_bounds:
  fixes lm :: libm
  assumes "pr_valid (vs_decode_program words n)" "regs_ok regs"
  defines "slots \<equiv> pr_slots (vs_decode_program words n)" and "result \<equiv> vs_execute lm (vs_decode_program words n) regs"
  shows "length slots \<le> 136 \<and> list_all slot_ok slots \<and> vs_safe True regs_ok result \<and>
    (list_all (\<lambda>s. sl_mac s \<noteq> MacArl) slots \<and> - (2 ^ 31) \<le> rg_a0 regs \<and> rg_a0 regs < 2 ^ 31 - 191 \<longrightarrow> result \<noteq> VsUndef)"
proof -
  obtain ws where ws: "words = Some ws" using assms(1) by (cases words) (auto simp: vs_decode_program_def)
  have len: "length (pr_slots (decode_slots ws i k acc)) \<le> length acc + k" for i k acc
  proof (induction k arbitrary: i acc)
    case (Suc k)
    show ?case using Suc.IH [of "Suc i" "acc @ [projr (vs_decode_slot (drop (4 * i) ws))]"] by (auto split: sum.splits)
  qed simp
  have ok: "list_all slot_ok slots" by (simp add: slots_def ws vs_decode_program_def decode_slots_ok)
  have r: "result = exec_slots lm slots regs" using assms(1) by (simp add: result_def slots_def vs_execute_def)
  have "length slots \<le> 136" using len [of 0 "min n 136" "[]"] by (simp add: slots_def ws vs_decode_program_def)
  moreover have "vs_safe True regs_ok result"
    using exec_slots_safe [OF ok, of True regs lm] assms(2) by (simp add: r regs_in_def [abs_def])
  moreover have "result \<noteq> VsUndef" if "list_all (\<lambda>s. sl_mac s \<noteq> MacArl) slots" "- (2 ^ 31) \<le> rg_a0 regs" "rg_a0 regs < 2 ^ 31 - 191"
    using exec_slots_safe [OF ok, of False regs lm] that assms(2) by (auto simp: r regs_in_def)
  ultimately show ?thesis using ok by blast
qed

text \<open>A one-slot program: \<open>mov r0, v0\<close> with the final marker.\<close>

definition demo_words :: "u32 list" where
  "demo_words = [0, 0x0020001B, 0x08000000, 0x0F000001]"

definition demo_regs :: vs_regs where
  "demo_regs = \<lparr>rg_v = replicate 16 [f1, f2, f4, f_half], rg_c = replicate 192 [0, 0, 0, 0], rg_r = replicate 12 [0, 0, 0, 0],
     rg_o = replicate 16 [0, 0, 0, f1], rg_a0 = 0\<rparr>"

lemma demo_regs_ok: "regs_ok demo_regs"
  by (simp add: regs_ok_def demo_regs_def vec_ok_def list_all_iff)

lemma demo_valid: "pr_valid (vs_decode_program (Some demo_words) 1)"
  by code_simp

theorem vs_decoded_in_bounds_witness:
  "pr_valid (vs_decode_program (Some demo_words) 1) \<and>
     (let r = vs_execute \<lparr>lm_sin = id, lm_exp2 = id, lm_log2 = id\<rparr> (vs_decode_program (Some demo_words) 1) demo_regs
      in vs_safe True regs_ok r \<and> r \<noteq> VsUndef)"
proof -
  have "list_all (\<lambda>s. sl_mac s \<noteq> MacArl) (pr_slots (vs_decode_program (Some demo_words) 1))" by code_simp
  moreover have "rg_a0 demo_regs = 0" by (simp add: demo_regs_def)
  ultimately show ?thesis
    using vs_decoded_in_bounds [OF demo_valid demo_regs_ok, of "\<lparr>lm_sin = id, lm_exp2 = id, lm_log2 = id\<rparr>"] demo_valid by (simp add: Let_def)
qed

text \<open>\<open>ADD\<close> does not add. The operand table says that \<open>ADD\<close> does not use its
  first source, so the interpreter computes zero plus the third source: for every slot with that
  opcode the MAC result has the components \<open>0 + c\<close>, and replacing the first source by any other
  changes nothing in the execution.\<close>

lemma vs_add_drops_first_operand:
  assumes "sl_mac slot = MacAdd"
  shows "run_mac slot regs = vs_bind (read_source slot (sl_c slot) regs False) (\<lambda>c. VsOk (map2 fadd [0, 0, 0, 0] c, regs)) \<and>
    exec_slot lm (slot\<lparr>sl_a := src\<rparr>) regs = exec_slot lm slot regs"
proof -
  have "const_base (slot\<lparr>sl_a := src\<rparr>) = const_base slot" by (simp add: fun_eq_iff const_base_def)
  then have "source_base (slot\<lparr>sl_a := src\<rparr>) x y = source_base slot x y" for x y
    by (cases "vs_file x") (simp_all add: source_base_def)
  then have fr: "read_source (slot\<lparr>sl_a := src\<rparr>) = read_source slot" "write_output (slot\<lparr>sl_a := src\<rparr>) = write_output slot"
    by (simp_all add: fun_eq_iff read_source_def write_output_def Let_def)
  have mac: "run_mac t regs = vs_bind (read_source t (sl_c t) regs False) (\<lambda>c. VsOk (map2 fadd [0, 0, 0, 0] c, regs))"
    if "sl_mac t = MacAdd" for t
    using that by (simp add: run_mac_def operand_def mac_uses_a_def mac_uses_b_def mac_uses_c_def mac_compute_def)
  let ?t = "slot\<lparr>sl_a := src\<rparr>"
  have sel: "sl_mac ?t = sl_mac slot" "sl_ilu ?t = sl_ilu slot" "sl_c ?t = sl_c slot" "sl_temp_reg ?t = sl_temp_reg slot"
    "sl_mac_mask ?t = sl_mac_mask slot" "sl_ilu_mask ?t = sl_ilu_mask slot" "sl_out_mask ?t = sl_out_mask slot"
    "sl_out_from_ilu ?t = sl_out_from_ilu slot" by simp_all
  have "run_ilu lm ?t = run_ilu lm slot" "write_results ?t = write_results slot"
    unfolding fun_eq_iff run_ilu_def write_results_def fr sel by simp_all
  then show ?thesis using assms mac [of slot] mac [of "slot\<lparr>sl_a := src\<rparr>"] by (simp add: exec_slot_def fr)
qed

text \<open>\<open>add r0, v0, v0\<close>: the result is \<open>v0\<close>, not its double.\<close>

definition demo_add :: vs_slot where
  "demo_add = (slot_fields [0, 0x0060001B, 0x0800006C, 0x2F000001])\<lparr>sl_c := \<lparr>vs_file = FileV, vs_reg = 0, vs_negate = False, vs_swizzle = [0, 1, 2, 3]\<rparr>\<rparr>"

lemma demo_add_eval:
  "sl_mac demo_add = MacAdd" "vs_file (sl_a demo_add) = FileV"
  "vs_bind (read_source demo_add (sl_c demo_add) demo_regs False) (\<lambda>c. VsOk (map2 fadd [0, 0, 0, 0] c)) = VsOk [f1, f2, f4, f_half]"
  by code_simp+

lemma vs_add_drops_first_operand_witness:
  "vs_file (sl_a demo_add) = FileV \<and> run_mac demo_add demo_regs = VsOk ([f1, f2, f4, f_half], demo_regs)"
  using vs_add_drops_first_operand [OF demo_add_eval(1), of demo_regs] demo_add_eval(2,3)
  by (cases "read_source demo_add (sl_c demo_add) demo_regs False") auto

end
