(* ===== verification/Xbox_Rc.thy ===== *)
theory Xbox_Rc
  imports Float32
begin

text \<open>
  The NV2A register combiners (\<open>src/src/xbox_rc.cpp\<close>, \<open>src/include/xbox_rc.h\<close>): validation of a
  configuration, the general combiner stages on a working register set, the final combiner and
  the quantisation of its colour. Vectors and arrays are lists, as in the source.
\<close>

section \<open>Data\<close>

datatype rc_register = RZero | RConst0 | RConst1 | RFog | RPrimary | RSecondary | RTex0 | RTex1 | RTex2 | RTex3
  | RSpare0 | RSpare1 | RV1R0Sum | REFProduct

datatype rc_mapping = UnsignedIdentity | UnsignedInvert | ExpandNormal | ExpandNegate | HalfBiasNormal | HalfBiasNegate
  | SignedIdentity | SignedNegate

datatype rc_channel = ChanRgb | ChanAlpha

datatype rc_scale = ScaleIdentity | ScaleBias | ShiftLeft1 | ShiftLeft1Bias | ShiftLeft2 | ShiftRight1

datatype rc_mux = MuxMsb | MuxLsb

record rc_input =
  ri_reg :: rc_register
  ri_channel :: rc_channel
  ri_mapping :: rc_mapping

record rc_output =
  ro_ab :: rc_register
  ro_cd :: rc_register
  ro_sum :: rc_register
  ro_scale :: rc_scale
  ro_ab_dot :: bool
  ro_cd_dot :: bool
  ro_mux_sum :: bool
  ro_ab_blue_to_alpha :: bool
  ro_cd_blue_to_alpha :: bool

record rc_stage =
  rs_rgb :: "rc_input list"
  rs_alpha :: "rc_input list"
  rs_rgb_out :: rc_output
  rs_alpha_out :: rc_output

record rc_final =
  rf_in :: "rc_input list"
  rf_clamp_sum :: bool
  rf_complement_v1 :: bool
  rf_complement_r0 :: bool

record rc_config =
  rcf_num_stages :: nat
  rcf_mux :: rc_mux
  rcf_unique_const0 :: bool
  rcf_unique_const1 :: bool
  rcf_stages :: "rc_stage list"
  rcf_final :: rc_final

record rc_inputs =
  rn_primary :: "f32 list"
  rn_secondary :: "f32 list"
  rn_fog :: "f32 list"
  rn_tex :: "f32 list list"
  rn_const0 :: "f32 list list"
  rn_const1 :: "f32 list list"
  rn_spare0 :: "f32 list"
  rn_spare1 :: "f32 list"

record rc_result =
  rr_rgba :: "f32 list"
  rr_ok :: bool
  rr_error :: string

record rc_work =
  wk_primary :: "f32 list"
  wk_secondary :: "f32 list"
  wk_spare0 :: "f32 list"
  wk_spare1 :: "f32 list"
  wk_tex :: "f32 list list"

definition kFinalConst :: nat where "kFinalConst = 8"

section \<open>Inputs and outputs of a stage\<close>

definition load_value :: "rc_inputs \<Rightarrow> rc_work \<Rightarrow> nat \<Rightarrow> nat \<Rightarrow> rc_register \<Rightarrow> f32 list" where
  "load_value inp w cidx0 cidx1 r =
     (case r of
        RZero \<Rightarrow> [0, 0, 0, 0]
      | RConst0 \<Rightarrow> rn_const0 inp ! cidx0
      | RConst1 \<Rightarrow> rn_const1 inp ! cidx1
      | RFog \<Rightarrow> rn_fog inp
      | RPrimary \<Rightarrow> wk_primary w
      | RSecondary \<Rightarrow> wk_secondary w
      | RTex0 \<Rightarrow> wk_tex w ! 0
      | RTex1 \<Rightarrow> wk_tex w ! 1
      | RTex2 \<Rightarrow> wk_tex w ! 2
      | RTex3 \<Rightarrow> wk_tex w ! 3
      | RSpare0 \<Rightarrow> wk_spare0 w
      | RSpare1 \<Rightarrow> wk_spare1 w
      | RV1R0Sum \<Rightarrow> [0, 0, 0, 0]
      | REFProduct \<Rightarrow> [0, 0, 0, 0])"

definition rc_map :: "rc_mapping \<Rightarrow> f32 \<Rightarrow> f32" where
  "rc_map m e =
     (case m of
        UnsignedIdentity \<Rightarrow> fmax 0 e
      | UnsignedInvert \<Rightarrow> fsub f1 (fmin (fmax e 0) f1)
      | ExpandNormal \<Rightarrow> fsub (fmul f2 (fmax 0 e)) f1
      | ExpandNegate \<Rightarrow> fadd (fmul (fneg f2) (fmax 0 e)) f1
      | HalfBiasNormal \<Rightarrow> fsub (fmax 0 e) f_half
      | HalfBiasNegate \<Rightarrow> fadd (fneg (fmax 0 e)) f_half
      | SignedIdentity \<Rightarrow> e
      | SignedNegate \<Rightarrow> fneg e)"

definition rgb_of :: "rc_input \<Rightarrow> f32 list \<Rightarrow> f32 list" where
  "rgb_of i v =
     (if ri_channel i = ChanRgb then [rc_map (ri_mapping i) (v ! 0), rc_map (ri_mapping i) (v ! 1), rc_map (ri_mapping i) (v ! 2)]
      else let a = rc_map (ri_mapping i) (v ! 3) in [a, a, a])"

definition alpha_of :: "rc_input \<Rightarrow> f32 list \<Rightarrow> f32" where
  "alpha_of i v = rc_map (ri_mapping i) (if ri_channel i = ChanAlpha then v ! 3 else v ! 2)"

definition scale_scalar :: "f32 \<Rightarrow> rc_scale \<Rightarrow> f32" where
  "scale_scalar x s =
     fclamp (case s of
        ScaleIdentity \<Rightarrow> x
      | ScaleBias \<Rightarrow> fsub x f_half
      | ShiftLeft1 \<Rightarrow> fmul x f2
      | ShiftLeft1Bias \<Rightarrow> fmul (fsub x f_half) f2
      | ShiftLeft2 \<Rightarrow> fmul x f4
      | ShiftRight1 \<Rightarrow> fmul x f_half) (fneg f1) f1"

definition scale_vec :: "f32 list \<Rightarrow> rc_scale \<Rightarrow> f32 list" where
  "scale_vec v s = [scale_scalar (v ! 0) s, scale_scalar (v ! 1) s, scale_scalar (v ! 2) s]"

text \<open>Updating the register that \<open>target_ptr\<close> designates; other registers discard the write.\<close>

definition update_target :: "rc_register \<Rightarrow> (f32 list \<Rightarrow> f32 list) \<Rightarrow> rc_work \<Rightarrow> rc_work" where
  "update_target r f w =
     (case r of
        RPrimary \<Rightarrow> w\<lparr>wk_primary := f (wk_primary w)\<rparr>
      | RSecondary \<Rightarrow> w\<lparr>wk_secondary := f (wk_secondary w)\<rparr>
      | RSpare0 \<Rightarrow> w\<lparr>wk_spare0 := f (wk_spare0 w)\<rparr>
      | RSpare1 \<Rightarrow> w\<lparr>wk_spare1 := f (wk_spare1 w)\<rparr>
      | RTex0 \<Rightarrow> w\<lparr>wk_tex := (wk_tex w)[0 := f (wk_tex w ! 0)]\<rparr>
      | RTex1 \<Rightarrow> w\<lparr>wk_tex := (wk_tex w)[1 := f (wk_tex w ! 1)]\<rparr>
      | RTex2 \<Rightarrow> w\<lparr>wk_tex := (wk_tex w)[2 := f (wk_tex w ! 2)]\<rparr>
      | RTex3 \<Rightarrow> w\<lparr>wk_tex := (wk_tex w)[3 := f (wk_tex w ! 3)]\<rparr>
      | _ \<Rightarrow> w)"

definition write_rgb :: "rc_register \<Rightarrow> f32 list \<Rightarrow> rc_work \<Rightarrow> rc_work" where
  "write_rgb r v = update_target r (\<lambda>p. [v ! 0, v ! 1, v ! 2, p ! 3])"

definition write_alpha :: "rc_register \<Rightarrow> f32 \<Rightarrow> rc_work \<Rightarrow> rc_work" where
  "write_alpha r a = update_target r (\<lambda>p. [p ! 0, p ! 1, p ! 2, a])"

definition write_blue_to_alpha :: "rc_register \<Rightarrow> f32 list \<Rightarrow> rc_work \<Rightarrow> rc_work" where
  "write_blue_to_alpha r v = update_target r (\<lambda>p. [p ! 0, p ! 1, p ! 2, v ! 2])"

section \<open>Validation\<close>

definition is_writable_target :: "rc_register \<Rightarrow> bool" where
  "is_writable_target r \<longleftrightarrow> r \<in> {RZero, RPrimary, RSecondary, RSpare0, RSpare1, RTex0, RTex1, RTex2, RTex3}"

definition is_pseudo :: "rc_register \<Rightarrow> bool" where
  "is_pseudo r \<longleftrightarrow> r = RV1R0Sum \<or> r = REFProduct"

definition targets_unique :: "rc_output \<Rightarrow> bool" where
  "targets_unique q \<longleftrightarrow> \<not> (ro_ab q \<noteq> RZero \<and> ro_ab q = ro_cd q) \<and> \<not> (ro_ab q \<noteq> RZero \<and> ro_ab q = ro_sum q) \<and>
     \<not> (ro_cd q \<noteq> RZero \<and> ro_cd q = ro_sum q)"

definition writable_targets :: "rc_output \<Rightarrow> bool" where
  "writable_targets q \<longleftrightarrow> is_writable_target (ro_ab q) \<and> is_writable_target (ro_cd q) \<and> is_writable_target (ro_sum q)"

definition stage_error :: "rc_stage \<Rightarrow> string option" where
  "stage_error st =
     (if list_ex (\<lambda>i. is_pseudo (ri_reg i)) (rs_rgb st) then Some ''pseudo register is only valid in the final combiner''
      else if list_ex (\<lambda>i. is_pseudo (ri_reg i)) (rs_alpha st) then Some ''pseudo register is only valid in the final combiner''
      else if \<not> writable_targets (rs_rgb_out st) then Some ''combiner output targets a non-writable register''
      else if \<not> targets_unique (rs_rgb_out st) then Some ''combiner outputs must target unique registers''
      else if \<not> writable_targets (rs_alpha_out st) then Some ''combiner output targets a non-writable register''
      else if \<not> targets_unique (rs_alpha_out st) then Some ''combiner outputs must target unique registers''
      else if ro_ab_dot (rs_alpha_out st) \<or> ro_cd_dot (rs_alpha_out st)
      then Some ''dot product is valid only for the RGB combiner portion''
      else None)"

fun first_error :: "rc_stage list \<Rightarrow> string option" where
  "first_error [] = None"
| "first_error (st # sts) = (case stage_error st of Some e \<Rightarrow> Some e | None \<Rightarrow> first_error sts)"

definition final_error :: "rc_final \<Rightarrow> string option" where
  "final_error fin =
     (if \<not> list_all (\<lambda>i. ri_mapping i = UnsignedIdentity \<or> ri_mapping i = UnsignedInvert) (rf_in fin)
      then Some ''final combiner allows only unsigned identity/invert mappings''
      else if is_pseudo (ri_reg (rf_in fin ! 4)) \<or> is_pseudo (ri_reg (rf_in fin ! 5)) \<or> is_pseudo (ri_reg (rf_in fin ! 6))
      then Some ''final combiner E/F/G cannot be a pseudo register''
      else if ri_reg (rf_in fin ! 0) = RV1R0Sum then Some ''final combiner A cannot be the V1+Spare0 sum''
      else None)"

definition validate :: "rc_config \<Rightarrow> string option" where
  "validate c =
     (if rcf_num_stages c > 8 then Some ''too many combiner stages''
      else if rcf_mux c \<noteq> MuxMsb then Some ''NV2A MUX LSB mode is not reverse-engineered''
      else case first_error (take (rcf_num_stages c) (rcf_stages c)) of
        Some e \<Rightarrow> Some e
      | None \<Rightarrow> final_error (rcf_final c))"

section \<open>Evaluation\<close>

definition dot3 :: "f32 list \<Rightarrow> f32 list \<Rightarrow> f32 list" where
  "dot3 x y = (let v = fadd (fadd (fmul (x ! 0) (y ! 0)) (fmul (x ! 1) (y ! 1))) (fmul (x ! 2) (y ! 2)) in [v, v, v])"

definition mul3 :: "f32 list \<Rightarrow> f32 list \<Rightarrow> f32 list" where
  "mul3 x y = [fmul (x ! 0) (y ! 0), fmul (x ! 1) (y ! 1), fmul (x ! 2) (y ! 2)]"

definition add3 :: "f32 list \<Rightarrow> f32 list \<Rightarrow> f32 list" where
  "add3 x y = [fadd (x ! 0) (y ! 0), fadd (x ! 1) (y ! 1), fadd (x ! 2) (y ! 2)]"

definition stage_rgb :: "rc_stage \<Rightarrow> f32 list list \<Rightarrow> rc_work \<Rightarrow> rc_work" where
  "stage_rgb st vs w =
     (let q = rs_rgb_out st;
          a = rgb_of (rs_rgb st ! 0) (vs ! 0); b = rgb_of (rs_rgb st ! 1) (vs ! 1);
          c = rgb_of (rs_rgb st ! 2) (vs ! 2); d = rgb_of (rs_rgb st ! 3) (vs ! 3);
          ab = (if ro_ab_dot q then dot3 a b else mul3 a b);
          cd = (if ro_cd_dot q then dot3 c d else mul3 c d);
          sm = (if ro_mux_sum q then (if fge (wk_spare0 w ! 3) f_half then cd else ab) else add3 ab cd);
          w1 = write_rgb (ro_ab q) (scale_vec ab (ro_scale q)) w;
          w2 = write_rgb (ro_cd q) (scale_vec cd (ro_scale q)) w1;
          w3 = write_rgb (ro_sum q) (scale_vec sm (ro_scale q)) w2;
          w4 = (if ro_ab_blue_to_alpha q then write_blue_to_alpha (ro_ab q) ab w3 else w3)
      in if ro_cd_blue_to_alpha q then write_blue_to_alpha (ro_cd q) cd w4 else w4)"

definition stage_alpha :: "rc_stage \<Rightarrow> f32 list list \<Rightarrow> f32 \<Rightarrow> rc_work \<Rightarrow> rc_work" where
  "stage_alpha st vs spare0_alpha w =
     (let q = rs_alpha_out st;
          ab = fmul (alpha_of (rs_alpha st ! 0) (vs ! 0)) (alpha_of (rs_alpha st ! 1) (vs ! 1));
          cd = fmul (alpha_of (rs_alpha st ! 2) (vs ! 2)) (alpha_of (rs_alpha st ! 3) (vs ! 3));
          sm = (if ro_mux_sum q then (if fge spare0_alpha f_half then cd else ab) else fadd ab cd)
      in write_alpha (ro_sum q) (scale_scalar sm (ro_scale q))
          (write_alpha (ro_cd q) (scale_scalar cd (ro_scale q))
            (write_alpha (ro_ab q) (scale_scalar ab (ro_scale q)) w)))"

definition run_stage :: "rc_config \<Rightarrow> rc_inputs \<Rightarrow> nat \<Rightarrow> rc_work \<Rightarrow> rc_work" where
  "run_stage cfg inp s w =
     (let st = rcf_stages cfg ! s;
          cidx0 = (if rcf_unique_const0 cfg then s else 0);
          cidx1 = (if rcf_unique_const1 cfg then s else 0);
          vs = map (\<lambda>i. load_value inp w cidx0 cidx1 (ri_reg i)) (rs_rgb st)
      in stage_alpha st vs (wk_spare0 w ! 3) (stage_rgb st vs w))"

definition clamp01 :: "f32 \<Rightarrow> f32" where "clamp01 x = fclamp x 0 f1"

definition v1r0_sum :: "rc_final \<Rightarrow> rc_work \<Rightarrow> f32 list" where
  "v1r0_sum fin w =
     (let ident = rc_map UnsignedIdentity; inv = rc_map UnsignedInvert;
          v1 = map ident (take 3 (wk_secondary w));
          r0 = map ident (take 3 (wk_spare0 w));
          v1 = (if rf_complement_v1 fin then map inv v1 else v1);
          r0 = (if rf_complement_r0 fin then map inv r0 else r0);
          sm = add3 v1 r0
      in if rf_clamp_sum fin then map clamp01 sm else sm)"

definition run_final :: "rc_config \<Rightarrow> rc_inputs \<Rightarrow> rc_work \<Rightarrow> f32 list" where
  "run_final cfg inp w =
     (let fin = rcf_final cfg; i = (\<lambda>k. rf_in fin ! k);
          val = load_value inp w kFinalConst kFinalConst;
          ef = mul3 (rgb_of (i 4) (val (ri_reg (i 4)))) (rgb_of (i 5) (val (ri_reg (i 5))));
          final_val = (\<lambda>r. if r = REFProduct then ef @ [0] else if r = RV1R0Sum then v1r0_sum fin w @ [0] else val r);
          A = rgb_of (i 0) (final_val (ri_reg (i 0))); B = rgb_of (i 1) (final_val (ri_reg (i 1)));
          C = rgb_of (i 2) (final_val (ri_reg (i 2))); D = rgb_of (i 3) (final_val (ri_reg (i 3)));
          G = alpha_of (i 6) (final_val (ri_reg (i 6)));
          chan = (\<lambda>k. clamp01 (fmin (fadd (fadd (D ! k) (fmul (fsub f1 (A ! k)) (C ! k))) (fmul (A ! k) (B ! k))) f1))
      in [chan 0, chan 1, chan 2, clamp01 G])"

definition rc_evaluate :: "rc_config \<Rightarrow> rc_inputs \<Rightarrow> rc_result" where
  "rc_evaluate cfg inp =
     (case validate cfg of
        Some e \<Rightarrow> \<lparr>rr_rgba = [0, 0, 0, 0], rr_ok = False, rr_error = e\<rparr>
      | None \<Rightarrow>
          let w = \<lparr>wk_primary = rn_primary inp, wk_secondary = rn_secondary inp, wk_spare0 = rn_spare0 inp,
                   wk_spare1 = rn_spare1 inp, wk_tex = rn_tex inp\<rparr>;
              w1 = fold (run_stage cfg inp) [0..<rcf_num_stages cfg] w
          in \<lparr>rr_rgba = run_final cfg inp w1, rr_ok = True, rr_error = []\<rparr>)"

text \<open>Quantisation: \<open>None\<close> where \<open>std::lround\<close> has no defined result.\<close>

definition rc_to_rgba8 :: "f32 list \<Rightarrow> u8 option list" where
  "rc_to_rgba8 c = map (\<lambda>x. map_option word_of_int (f_lround (fmul (clamp01 x) f255))) c"

section \<open>Ranges\<close>

text \<open>A value inside an interval, or not a number.\<close>

definition within :: "f32 \<Rightarrow> f32 \<Rightarrow> f32 \<Rightarrow> bool" where
  "within lo hi x \<longleftrightarrow> f_isnan x \<or> fge x lo \<and> fge hi x"

lemma clamp_within: "\<not> f_isnan lo \<Longrightarrow> \<not> f_isnan hi \<Longrightarrow> f_val lo \<le> f_val hi \<Longrightarrow> within lo hi (fclamp x lo hi)"
  by (auto simp: within_def fclamp_def flt_def fge_def)

lemma unit_literals: "\<not> f_isnan 0" "\<not> f_isnan f1" "f_val 0 \<le> f_val f1"
  by code_simp+

lemma clamp01_within: "within 0 f1 (clamp01 x)"
  by (simp add: clamp01_def clamp_within unit_literals)

section \<open>Alpha inputs\<close>

definition retarget :: "(rc_input \<Rightarrow> rc_register) \<Rightarrow> rc_stage \<Rightarrow> rc_stage" where
  "retarget f st = st\<lparr>rs_alpha := map (\<lambda>i. i\<lparr>ri_reg := f i\<rparr>) (rs_alpha st)\<rparr>"

lemma retarget_fields:
  "rs_rgb (retarget f st) = rs_rgb st" "rs_rgb_out (retarget f st) = rs_rgb_out st" "rs_alpha_out (retarget f st) = rs_alpha_out st"
  by (simp_all add: retarget_def)

lemma stage_error_retarget:
  assumes "\<forall>i\<in>set (rs_alpha st). \<not> is_pseudo (ri_reg i) \<and> \<not> is_pseudo (f i)"
  shows "stage_error (retarget f st) = stage_error st"
proof -
  have "list_ex (\<lambda>i. is_pseudo (ri_reg i)) (rs_alpha (retarget f st)) = list_ex (\<lambda>i. is_pseudo (ri_reg i)) (rs_alpha st)"
    using assms by (auto simp: retarget_def list_ex_iff)
  then show ?thesis by (simp only: stage_error_def retarget_fields)
qed

lemma first_error_retarget:
  "\<forall>st\<in>set sts. \<forall>i\<in>set (rs_alpha st). \<not> is_pseudo (ri_reg i) \<and> \<not> is_pseudo (f i) \<Longrightarrow>
     first_error (map (retarget f) sts) = first_error sts"
  by (induction sts) (simp_all add: stage_error_retarget split: option.split)

lemma stage_alpha_retarget:
  assumes "length (rs_alpha st) = 4"
  shows "stage_alpha (retarget f st) = stage_alpha st" "stage_rgb (retarget f st) = stage_rgb st"
proof -
  have "alpha_of (rs_alpha (retarget f st) ! k) = alpha_of (rs_alpha st ! k)" if "k < 4" for k
    using that assms by (simp add: fun_eq_iff retarget_def alpha_of_def)
  then show "stage_alpha (retarget f st) = stage_alpha st"
    by (simp add: fun_eq_iff stage_alpha_def retarget_fields)
  show "stage_rgb (retarget f st) = stage_rgb st"
    by (simp only: fun_eq_iff stage_rgb_def retarget_fields) simp
qed

section \<open>Properties\<close>


text \<open>(C0 rc_alpha_registers_ignored) The alpha portion does not select its registers. In every configuration whose
  stages have four alpha inputs, replacing the registers of the alpha inputs by arbitrary
  non-pseudo registers changes neither the verdict nor the colour: the alpha inputs are always
  taken from the registers of the RGB inputs.\<close>

theorem rc_alpha_registers_ignored:
  assumes "\<forall>st\<in>set (rcf_stages cfg). length (rs_alpha st) = 4 \<and> (\<forall>i\<in>set (rs_alpha st). \<not> is_pseudo (ri_reg i) \<and> \<not> is_pseudo (f i))"
    "rcf_num_stages cfg \<le> length (rcf_stages cfg)"
  shows "rc_evaluate (cfg\<lparr>rcf_stages := map (retarget f) (rcf_stages cfg)\<rparr>) inp = rc_evaluate cfg inp"
proof -
  let ?cfg = "cfg\<lparr>rcf_stages := map (retarget f) (rcf_stages cfg)\<rparr>"
  have "first_error (map (retarget f) (take n (rcf_stages cfg))) = first_error (take n (rcf_stages cfg))" for n
    using assms(1) by (intro first_error_retarget) (auto dest: in_set_takeD)
  then have v: "validate ?cfg = validate cfg" by (simp add: validate_def take_map split: option.split)
  have st: "run_stage ?cfg inp s w = run_stage cfg inp s w" if "s < rcf_num_stages cfg" for s w
  proof -
    have "rcf_stages cfg ! s \<in> set (rcf_stages cfg)" using that assms(2) by simp
    then have "length (rs_alpha (rcf_stages cfg ! s)) = 4" using assms(1) by blast
    then show ?thesis using that assms(2) stage_alpha_retarget
      by (simp add: run_stage_def Let_def retarget_fields)
  qed
  have "fold (run_stage ?cfg inp) [0..<rcf_num_stages cfg] w = fold (run_stage cfg inp) [0..<rcf_num_stages cfg] w" for w
    by (rule fold_cong) (auto simp: st fun_eq_iff)
  moreover have "run_final ?cfg inp w = run_final cfg inp w" for w by (simp add: run_final_def)
  ultimately show ?thesis by (simp add: rc_evaluate_def v Let_def split: option.split)
qed

definition demo_input :: "rc_register \<Rightarrow> rc_channel \<Rightarrow> rc_input" where
  "demo_input r c = \<lparr>ri_reg = r, ri_channel = c, ri_mapping = UnsignedIdentity\<rparr>"

definition demo_config :: rc_config where
  "demo_config =
     (let q = \<lparr>ro_ab = RSpare0, ro_cd = RZero, ro_sum = RZero, ro_scale = ScaleIdentity, ro_ab_dot = False, ro_cd_dot = False,
               ro_mux_sum = False, ro_ab_blue_to_alpha = False, ro_cd_blue_to_alpha = False\<rparr>;
          st = \<lparr>rs_rgb = map (\<lambda>r. demo_input r ChanRgb) [RPrimary, RPrimary, RZero, RZero],
                rs_alpha = map (\<lambda>r. demo_input r ChanAlpha) [RTex0, RTex0, RZero, RZero], rs_rgb_out = q, rs_alpha_out = q\<rparr>
      in \<lparr>rcf_num_stages = 1, rcf_mux = MuxMsb, rcf_unique_const0 = False, rcf_unique_const1 = False, rcf_stages = replicate 8 st,
          rcf_final = \<lparr>rf_in = replicate 6 (demo_input RSpare0 ChanRgb) @ [demo_input RSpare0 ChanAlpha], rf_clamp_sum = False,
            rf_complement_v1 = False, rf_complement_r0 = False\<rparr>\<rparr>)"

definition demo_inputs :: rc_inputs where
  "demo_inputs = \<lparr>rn_primary = [f1, f_half, 0, f1], rn_secondary = [0, 0, 0, 0], rn_fog = [0, 0, 0, 0],
     rn_tex = replicate 4 [f_half, f_half, f_half, f_half], rn_const0 = replicate 9 [0, 0, 0, 0], rn_const1 = replicate 9 [0, 0, 0, 0],
     rn_spare0 = [0, 0, 0, 0], rn_spare1 = [0, 0, 0, 0]\<rparr>"

theorem rc_alpha_registers_ignored_witness:
  "rc_evaluate (demo_config\<lparr>rcf_stages := map (retarget (\<lambda>_. RTex3)) (rcf_stages demo_config)\<rparr>) demo_inputs =
     rc_evaluate demo_config demo_inputs"
proof (rule rc_alpha_registers_ignored)
  show "\<forall>st\<in>set (rcf_stages demo_config). length (rs_alpha st) = 4 \<and>
      (\<forall>i\<in>set (rs_alpha st). \<not> is_pseudo (ri_reg i) \<and> \<not> is_pseudo RTex3)"
    by (simp add: demo_config_def demo_input_def is_pseudo_def Let_def)
  show "rcf_num_stages demo_config \<le> length (rcf_stages demo_config)" by (simp add: demo_config_def Let_def)
qed

end
