(* ===== verification/Xbox_Input.thy ===== *)
theory Xbox_Input
  imports Prelude
begin

text \<open>
  The gamepad layer \<open>XboxInput\<close> (\<open>src/src/xbox_input.cpp\<close>, \<open>src/include/xbox_input.h\<close>): four
  pads, raw state with a packet counter, dead zones applied on reading, and rumble. Stick values
  are \<open>int16_t\<close>, kept as integers; the \<open>int\<close> arithmetic of the dead zone stays far inside 32 bits.
\<close>

section \<open>State and operations\<close>

definition kXboxDeadzoneLeft :: int where "kXboxDeadzoneLeft = 7849"
definition kXboxDeadzoneRight :: int where "kXboxDeadzoneRight = 8689"
definition kXboxTriggerThreshold :: u8 where "kXboxTriggerThreshold = 30"
definition kMaxUsers :: u32 where "kMaxUsers = 4"

record gamepad =
  gp_buttons :: u16
  gp_left_trigger :: u8
  gp_right_trigger :: u8
  gp_lx :: int
  gp_ly :: int
  gp_rx :: int
  gp_ry :: int
  gp_packet :: u32

record rumble =
  rb_left :: u16
  rb_right :: u16

definition no_pad :: gamepad where
  "no_pad = \<lparr>gp_buttons = 0, gp_left_trigger = 0, gp_right_trigger = 0, gp_lx = 0, gp_ly = 0, gp_rx = 0, gp_ry = 0, gp_packet = 0\<rparr>"

definition no_rumble :: rumble where
  "no_rumble = \<lparr>rb_left = 0, rb_right = 0\<rparr>"

record input =
  in_connected :: "bool list"
  in_state :: "gamepad list"
  in_rumble :: "rumble list"

definition XboxInput :: input where
  "XboxInput = \<lparr>in_connected = [True, False, False, False], in_state = replicate 4 no_pad, in_rumble = replicate 4 no_rumble\<rparr>"

text \<open>C++ division truncates; both operands are non-negative here.\<close>

definition apply_deadzone :: "int \<Rightarrow> int \<Rightarrow> int" where
  "apply_deadzone v deadzone =
     (let mag = (if v < 0 then - v else v) in
      if mag < deadzone then 0
      else let scaled = (mag - deadzone) * 32767 div (32767 - deadzone);
               out = (if v < 0 then - scaled else scaled)
        in if out > 32767 then 32767 else if out < -32768 then -32768 else out)"

definition trigger_pressed :: "u8 \<Rightarrow> bool" where
  "trigger_pressed v \<longleftrightarrow> v > kXboxTriggerThreshold"

definition pressed_edge :: "u16 \<Rightarrow> u16 \<Rightarrow> u16" where
  "pressed_edge prev cur = cur AND NOT prev"

definition connected :: "input \<Rightarrow> u32 \<Rightarrow> bool" where
  "connected x user = (if user \<ge> kMaxUsers then False else in_connected x ! unat user)"

definition set_connected :: "u32 \<Rightarrow> bool \<Rightarrow> input \<Rightarrow> bool \<times> input" where
  "set_connected user on x =
     (if user \<ge> kMaxUsers then (False, x)
      else let x1 = x\<lparr>in_connected := (in_connected x)[unat user := on]\<rparr> in
        (True, if on then x1
               else x1\<lparr>in_state := (in_state x1)[unat user := no_pad], in_rumble := (in_rumble x1)[unat user := no_rumble]\<rparr>))"

definition set_state :: "u32 \<Rightarrow> gamepad \<Rightarrow> input \<Rightarrow> bool \<times> input" where
  "set_state user raw x =
     (if user \<ge> kMaxUsers \<or> \<not> in_connected x ! unat user then (False, x)
      else let cur = in_state x ! unat user;
               changed = (gp_buttons cur \<noteq> gp_buttons raw \<or> gp_left_trigger cur \<noteq> gp_left_trigger raw \<or>
                 gp_right_trigger cur \<noteq> gp_right_trigger raw \<or> gp_lx cur \<noteq> gp_lx raw \<or> gp_ly cur \<noteq> gp_ly raw \<or>
                 gp_rx cur \<noteq> gp_rx raw \<or> gp_ry cur \<noteq> gp_ry raw);
               keep = gp_packet cur
        in (True, x\<lparr>in_state := (in_state x)[unat user := raw\<lparr>gp_packet := if changed then keep + 1 else keep\<rparr>]\<rparr>))"

definition get_state :: "input \<Rightarrow> u32 \<Rightarrow> gamepad option" where
  "get_state x user =
     (if user \<ge> kMaxUsers \<or> \<not> in_connected x ! unat user then None
      else let p = in_state x ! unat user in
        Some (p\<lparr>gp_lx := apply_deadzone (gp_lx p) kXboxDeadzoneLeft, gp_ly := apply_deadzone (gp_ly p) kXboxDeadzoneLeft,
          gp_rx := apply_deadzone (gp_rx p) kXboxDeadzoneRight, gp_ry := apply_deadzone (gp_ry p) kXboxDeadzoneRight\<rparr>))"

definition set_rumble :: "u32 \<Rightarrow> rumble \<Rightarrow> input \<Rightarrow> bool \<times> input" where
  "set_rumble user r x =
     (if user \<ge> kMaxUsers \<or> \<not> in_connected x ! unat user then (False, x)
      else (True, x\<lparr>in_rumble := (in_rumble x)[unat user := r]\<rparr>))"

definition get_rumble :: "input \<Rightarrow> u32 \<Rightarrow> rumble option" where
  "get_rumble x user =
     (if user \<ge> kMaxUsers \<or> \<not> in_connected x ! unat user then None else Some (in_rumble x ! unat user))"

definition connected_count :: "input \<Rightarrow> nat" where
  "connected_count x = length (filter id (take 4 (in_connected x)))"

section \<open>Dead zone\<close>

definition rescale :: "int \<Rightarrow> int \<Rightarrow> int" where
  "rescale d m = (m - d) * 32767 div (32767 - d)"

lemma rescale_facts:
  assumes "0 < d" "2 * d < 32767"
  shows "m \<le> n \<Longrightarrow> rescale d m \<le> rescale d n" "rescale d d = 0" "d < m \<Longrightarrow> 1 \<le> rescale d m"
    "rescale d 32767 = 32767" "rescale d 32768 = 32768"
proof -
  have pos: "0 < 32767 - d" using assms by simp
  show mono: "rescale d m \<le> rescale d n" if "m \<le> n" for m n
    unfolding rescale_def using pos that by (intro zdiv_mono1) simp_all
  show "rescale d d = 0" by (simp add: rescale_def)
  show "rescale d 32767 = 32767" unfolding rescale_def using pos by (intro nonzero_mult_div_cancel_left) simp
  have q: "32767 div (32767 - d) = 1" by (rule int_div_pos_eq [where r = d]) (use assms in simp_all)
  have one: "rescale d (d + 1) = 1" using q by (simp add: rescale_def)
  show "1 \<le> rescale d m" if "d < m" using mono [of "d + 1" m] that one by simp
  have "rescale d 32768 = (32767 + 32767 * (32767 - d)) div (32767 - d)" by (simp add: rescale_def algebra_simps)
  also have "\<dots> = 32767 + 32767 div (32767 - d)" using pos by (intro div_mult_self1) simp
  finally show "rescale d 32768 = 32768" using q by simp
qed

lemma deadzone_cases:
  assumes "0 < d" "2 * d < 32767" "-32768 \<le> v" "v \<le> 32767"
  shows "apply_deadzone v d = (if \<bar>v\<bar> < d then 0 else if v < 0 then - rescale d (- v) else rescale d v)"
proof -
  note r = rescale_facts [OF assms(1,2)]
  have "v < d \<or> 0 \<le> rescale d v" "- v < d \<or> 0 \<le> rescale d (- v)"
    using r(1) [of d v] r(1) [of d "- v"] r(2) by (simp_all add: not_less [symmetric], linarith+)
  moreover have "rescale d v \<le> 32767" "rescale d (- v) \<le> 32768" using r(1) [OF assms(4)] r(1) [of "- v" 32768] r(4,5) assms(3) by simp_all
  ultimately show ?thesis
    using assms(1) unfolding apply_deadzone_def rescale_def [symmetric] Let_def by (auto simp: abs_if)
qed

lemma deadzone_zero_iff:
  assumes "0 < d" "2 * d < 32767" "-32768 \<le> v" "v \<le> 32767"
  shows "apply_deadzone v d = 0 \<longleftrightarrow> \<bar>v\<bar> \<le> d"
proof -
  have "rescale d m = 0 \<longleftrightarrow> m = d" if "d \<le> m" for m
    using rescale_facts(2) [OF assms(1,2)] rescale_facts(3) [OF assms(1,2), of m] that by (cases "m = d") auto
  then show ?thesis using assms(1) by (auto simp: deadzone_cases [OF assms])
qed

lemma deadzone_mono:
  assumes "0 < d" "2 * d < 32767" "-32768 \<le> v" "v \<le> w" "w \<le> 32767"
  shows "apply_deadzone v d \<le> apply_deadzone w d"
proof -
  note r = rescale_facts [OF assms(1,2)]
  have nn: "0 \<le> rescale d m" if "d \<le> m" for m using r(1) [OF that] r(2) by simp
  have c: "apply_deadzone v d = (if \<bar>v\<bar> < d then 0 else if v < 0 then - rescale d (- v) else rescale d v)"
    "apply_deadzone w d = (if \<bar>w\<bar> < d then 0 else if w < 0 then - rescale d (- w) else rescale d w)"
    by (rule deadzone_cases; use assms in simp)+
  show ?thesis using assms(4) r(1) [of v w] r(1) [of "- w" "- v"] nn [of w] nn [of "- v"] by (auto simp: c)
qed

section \<open>Properties\<close>

text \<open>The dead zone for every stick value and for both dead zones in use: the result is an
  \<open>int16_t\<close>, it is zero exactly up to the border of the dead zone (whose own value still maps to
  zero), full deflection is reached at both ends, the response is monotone, and it is symmetric
  except for the extra value at the negative end.\<close>

lemma deadzone_bounds:
  assumes "-32768 \<le> v" "v \<le> 32767" "d = kXboxDeadzoneLeft \<or> d = kXboxDeadzoneRight"
  shows "-32768 \<le> apply_deadzone v d \<and> apply_deadzone v d \<le> 32767 \<and> (apply_deadzone v d = 0 \<longleftrightarrow> \<bar>v\<bar> \<le> d) \<and>
    apply_deadzone 32767 d = 32767 \<and> apply_deadzone (-32767) d = -32767 \<and> apply_deadzone (-32768) d = -32768 \<and>
    (\<forall>w. v \<le> w \<and> w \<le> 32767 \<longrightarrow> apply_deadzone v d \<le> apply_deadzone w d) \<and>
    (v \<noteq> -32768 \<longrightarrow> apply_deadzone (- v) d = - apply_deadzone v d)"
proof -
  have d: "0 < d" "2 * d < 32767" using assms(3) by (auto simp: kXboxDeadzoneLeft_def kXboxDeadzoneRight_def)
  note c = deadzone_cases [OF d] and r = rescale_facts(4,5) [OF d]
  have ends: "apply_deadzone 32767 d = 32767" "apply_deadzone (-32767) d = -32767" "apply_deadzone (-32768) d = -32768"
    using d by (simp_all add: c r)
  have "apply_deadzone (-32768) d \<le> apply_deadzone v d" "apply_deadzone v d \<le> apply_deadzone 32767 d"
    using deadzone_mono [OF d] assms(1,2) by auto
  moreover have "v \<noteq> -32768 \<longrightarrow> apply_deadzone (- v) d = - apply_deadzone v d"
    using assms(1,2) d by (auto simp: c)
  ultimately show ?thesis using ends deadzone_zero_iff [OF d assms(1,2)] deadzone_mono [OF d assms(1)] by auto
qed

lemma deadzone_bounds_witness:
  "-32768 \<le> apply_deadzone 20000 kXboxDeadzoneLeft \<and> apply_deadzone 20000 kXboxDeadzoneLeft = 15978"
  using deadzone_bounds [of 20000 kXboxDeadzoneLeft] by (simp add: apply_deadzone_def kXboxDeadzoneLeft_def)

end
