(* ===== verification/Xbox_Audio.thy ===== *)
theory Xbox_Audio
  imports Float32
begin

text \<open>
  The audio voice \<open>XboxAudio\<close> (\<open>src/src/xbox_audio.cpp\<close>, \<open>src/include/xbox_audio.h\<close>): a bounded
  queue of interleaved stereo buffers consumed by the mixer, with playback and underrun counters.
  Samples are \<open>int16_t\<close> kept as integers, frame counts are 64-bit words; \<open>std::sin\<close> is a field
  of \<open>libm\<close>.
\<close>

section \<open>State and operations\<close>

definition kSampleRate :: f32 where "kSampleRate = 0x473B8000"
definition kTwoPi :: f32 where "kTwoPi = 0x40C90FDB"
definition kChannels :: nat where "kChannels = 2"
definition kMaxQueuedBuffers :: nat where "kMaxQueuedBuffers = 16"
definition kMaxQueuedFrames :: u64 where "kMaxQueuedFrames = 96000"

record audio =
  au_buffers :: "int list list"
  au_front_offset :: u64
  au_volume :: f32
  au_played :: u64
  au_underrun :: u64
  au_submitted :: u64

definition XboxAudio :: audio where
  "XboxAudio = \<lparr>au_buffers = [], au_front_offset = 0, au_volume = f1, au_played = 0, au_underrun = 0, au_submitted = 0\<rparr>"

definition buffer_frames :: "int list \<Rightarrow> u64" where
  "buffer_frames b = of_nat (length b div kChannels)"

definition queued_frames :: "audio \<Rightarrow> u64" where
  "queued_frames x =
     (case au_buffers x of
        [] \<Rightarrow> 0
      | b # bs \<Rightarrow> buffer_frames b - au_front_offset x + sum_list (map buffer_frames bs))"

text \<open>The pointer overload; \<open>pcm\<close> is \<open>None\<close> for \<open>nullptr\<close>, otherwise the samples behind the pointer.\<close>

definition submit_frames :: "int list option \<Rightarrow> u64 \<Rightarrow> audio \<Rightarrow> bool \<times> audio" where
  "submit_frames pcm frames x =
     (case pcm of
        None \<Rightarrow> (False, x)
      | Some samples \<Rightarrow>
          if frames = 0 then (False, x)
          else if length (au_buffers x) \<ge> kMaxQueuedBuffers then (False, x)
          else if queued_frames x + frames > kMaxQueuedFrames then (False, x)
          else (True, x\<lparr>au_buffers := au_buffers x @ [take (unat (frames * of_nat kChannels)) samples], au_submitted := au_submitted x + 1\<rparr>))"

definition submit_buffer :: "int list \<Rightarrow> audio \<Rightarrow> bool \<times> audio" where
  "submit_buffer pcm x =
     (if pcm = [] \<or> length pcm mod kChannels \<noteq> 0 then (False, x)
      else submit_frames (Some pcm) (buffer_frames pcm) x)"

text \<open>The loop of \<open>consume_frames\<close>: \<open>want\<close> frames are still wanted, \<open>got\<close> were delivered. A round
  delivers all that is wanted or removes the front buffer.\<close>

function consume_loop :: "u64 \<Rightarrow> u64 \<Rightarrow> audio \<Rightarrow> u64 \<times> u64 \<times> audio" where
  "consume_loop want got x =
     (case au_buffers x of
        [] \<Rightarrow> (want, got, x)
      | b # bs \<Rightarrow>
          if \<not> want > 0 then (want, got, x)
          else let front_frames = buffer_frames b - au_front_offset x;
                   take_n = (if want < front_frames then want else front_frames);
                   x1 = x\<lparr>au_front_offset := au_front_offset x + take_n, au_played := au_played x + take_n\<rparr>;
                   x2 = (if au_front_offset x1 = buffer_frames b then x1\<lparr>au_buffers := bs, au_front_offset := 0\<rparr> else x1)
            in consume_loop (want - take_n) (got + take_n) x2)"
  by pat_completeness auto
termination
  by (relation "measures [\<lambda>(w, g, x). length (au_buffers x), \<lambda>(w, g, x). unat w]")
    (auto simp: Let_def word_greater_zero_iff unat_gt_0)

declare consume_loop.simps [simp del]

definition consume_frames :: "u64 \<Rightarrow> audio \<Rightarrow> u64 \<times> audio" where
  "consume_frames frames x =
     (case consume_loop frames 0 x of (want, got, x1) \<Rightarrow> (got, x1\<lparr>au_underrun := au_underrun x1 + want\<rparr>))"

definition set_volume :: "f32 \<Rightarrow> audio \<Rightarrow> audio" where
  "set_volume v x =
     (let v1 = (if flt v 0 then 0 else v); v2 = (if flt f1 v1 then f1 else v1) in x\<lparr>au_volume := v2\<rparr>)"

definition reset :: "audio \<Rightarrow> audio" where
  "reset x = x\<lparr>au_buffers := [], au_front_offset := 0, au_played := 0, au_underrun := 0, au_submitted := 0, au_volume := f1\<rparr>"

text \<open>One frame of the sine helper: sample and next phase; \<open>None\<close> for an undefined conversion.\<close>

definition sine_frame :: "libm \<Rightarrow> f32 \<Rightarrow> f32 \<Rightarrow> f32 \<Rightarrow> (int \<times> f32) option" where
  "sine_frame lm step amplitude phase =
     map_option (\<lambda>v. (v, let p = fadd phase step in if fge p kTwoPi then fsub p kTwoPi else p))
       (f_to_int 16 (fmul (fmul (lm_sin lm phase) amplitude) 0x46FFFE00))"

fun sine_frames :: "libm \<Rightarrow> f32 \<Rightarrow> f32 \<Rightarrow> nat \<Rightarrow> f32 \<Rightarrow> (int list \<times> f32) option" where
  "sine_frames lm step amplitude 0 phase = Some ([], phase)"
| "sine_frames lm step amplitude (Suc n) phase =
     (case sine_frame lm step amplitude phase of
        None \<Rightarrow> None
      | Some (v, p) \<Rightarrow> map_option (\<lambda>(out, q). (v # v # out, q)) (sine_frames lm step amplitude n p))"

definition render_sine :: "libm \<Rightarrow> f32 \<Rightarrow> nat \<Rightarrow> f32 \<Rightarrow> f32 \<Rightarrow> (int list \<times> f32) option" where
  "render_sine lm freq frames phase amplitude =
     (let a1 = (if flt amplitude 0 then 0 else amplitude); a2 = (if flt f1 a1 then f1 else a1);
          step = fdiv (fmul kTwoPi freq) kSampleRate
      in sine_frames lm step a2 frames phase)"

section \<open>Accounting\<close>

text \<open>The number of queued frames as a natural number, and the states in which it is exact.\<close>

definition frames_left :: "int list list \<Rightarrow> nat" where
  "frames_left bs = sum_list (map (\<lambda>b. length b div 2) bs)"

definition queued :: "audio \<Rightarrow> nat" where
  "queued x = frames_left (au_buffers x) - unat (au_front_offset x)"

definition queue_ok :: "int list list \<Rightarrow> u64 \<Rightarrow> bool" where
  "queue_ok bs off \<longleftrightarrow> frames_left bs < 2 ^ 63 \<and> list_all (\<lambda>b. 0 < length b div 2) bs \<and>
     (case bs of [] \<Rightarrow> off = 0 | b # _ \<Rightarrow> unat off < length b div 2)"

definition audio_wf :: "audio \<Rightarrow> bool" where
  "audio_wf x \<longleftrightarrow> length (au_buffers x) \<le> kMaxQueuedBuffers \<and> queued x \<le> unat kMaxQueuedFrames \<and>
     queue_ok (au_buffers x) (au_front_offset x)"

lemma frames_left_simps [simp]: "frames_left [] = 0" "frames_left (b # bs) = length b div 2 + frames_left bs"
  by (simp_all add: frames_left_def)

lemma unat_buffer_frames: "frames_left (b # bs) < 2 ^ 63 \<Longrightarrow> unat (buffer_frames b) = length b div 2"
  by (simp add: buffer_frames_def kChannels_def unat_of_nat_lt)

text \<open>One round of the loop on a proper queue: everything wanted is taken from the front buffer, or
  the rest of that buffer is.\<close>

lemma consume_round:
  assumes "queue_ok (b # bs) off"
  shows "off < buffer_frames b" "unat (buffer_frames b - off) = length b div 2 - unat off"
    "w < buffer_frames b - off \<Longrightarrow> unat (off + w) = unat off + unat w \<and> unat off + unat w < length b div 2"
    "off + (buffer_frames b - off) = buffer_frames b" "queue_ok bs 0"
proof -
  have f: "unat (buffer_frames b) = length b div 2" "length b div 2 < 2 ^ 63"
    using assms unat_buffer_frames [of b bs] by (auto simp: queue_ok_def)
  show lt: "off < buffer_frames b" using assms f by (simp add: queue_ok_def word_less_nat_alt)
  then show d: "unat (buffer_frames b - off) = length b div 2 - unat off" using f by (simp add: unat_diff_le)
  show "unat (off + w) = unat off + unat w \<and> unat off + unat w < length b div 2" if "w < buffer_frames b - off"
  proof -
    have "unat off + unat w < length b div 2" using that d lt f by (simp add: word_less_nat_alt)
    then show ?thesis using f(2) by (simp add: unat_add_lt)
  qed
  show "off + (buffer_frames b - off) = buffer_frames b" by simp
  show "queue_ok bs 0" using assms by (cases bs) (auto simp: queue_ok_def)
qed

lemma consume_loop_effect:
  "queue_ok (au_buffers x) (au_front_offset x) \<Longrightarrow> consume_loop w g x = (w', g', x') \<Longrightarrow>
     queue_ok (au_buffers x') (au_front_offset x') \<and> unat w' = unat w - queued x \<and> g' = g + (w - w') \<and>
     queued x' = queued x - unat w \<and> length (au_buffers x') \<le> length (au_buffers x) \<and>
     au_played x' = au_played x + (w - w') \<and> au_underrun x' = au_underrun x"
proof (induction w g x rule: consume_loop.induct)
  case (1 w g x)
  show ?case
  proof (cases "au_buffers x")
    case Nil
    with 1(2,3) show ?thesis by (auto simp: consume_loop.simps [of w g x] queued_def)
  next
    case (Cons b bs)
    let ?off = "au_front_offset x" let ?ff = "buffer_frames b - ?off"
    have q: "queue_ok (b # bs) ?off" using 1(2) Cons by simp
    note r = consume_round [OF q]
    show ?thesis
    proof (cases "w > 0")
      case False
      then have "consume_loop w g x = (w, g, x)" by (simp add: consume_loop.simps [of w g x] Cons)
      with 1(2,3) False show ?thesis by (auto simp: word_greater_zero_iff)
    next
      case w: True
      show ?thesis
      proof (cases "w < ?ff")
        case True
        let ?x = "x\<lparr>au_front_offset := ?off + w, au_played := au_played x + w\<rparr>"
        have ne: "?off + w \<noteq> buffer_frames b" using r(3) [OF True] unat_buffer_frames [of b bs] q by (auto simp: queue_ok_def)
        have "consume_loop w g x = consume_loop (w - w) (g + w) ?x"
          using w True ne by (subst consume_loop.simps) (simp add: Cons Let_def)
        also have "\<dots> = (0, g + w, ?x)" by (simp add: consume_loop.simps Cons)
        finally have e: "w' = 0" "g' = g + w" "x' = ?x" using 1(3) by auto
        have "queue_ok (b # bs) (?off + w)" using q r(3) [OF True] by (simp add: queue_ok_def)
        moreover have "unat w \<le> queued x" using r(3) [OF True] by (simp add: queued_def Cons) linarith
        ultimately show ?thesis using r(3) [OF True] by (simp add: e Cons queued_def)
      next
        case False
        let ?x = "x\<lparr>au_played := au_played x + ?ff, au_buffers := bs, au_front_offset := 0\<rparr>"
        have "consume_loop w g x = consume_loop (w - ?ff) (g + ?ff) ?x"
          using w False r(4) by (subst consume_loop.simps) (simp add: Cons Let_def)
        then have l: "consume_loop (w - ?ff) (g + ?ff) ?x = (w', g', x')" using 1(3) by simp
        have "queue_ok (au_buffers ?x) (au_front_offset ?x)" using r(5) by simp
        from 1(1) [OF Cons _ refl refl refl refl] w False r(4) l this have
          "queue_ok (au_buffers x') (au_front_offset x') \<and> unat w' = unat (w - ?ff) - queued ?x \<and> g' = g + ?ff + (w - ?ff - w') \<and>
           queued x' = queued ?x - unat (w - ?ff) \<and> length (au_buffers x') \<le> length (au_buffers ?x) \<and>
           au_played x' = au_played ?x + (w - ?ff - w') \<and> au_underrun x' = au_underrun ?x"
          by simp
        moreover have "unat (w - ?ff) = unat w - unat ?ff" using False by (intro unat_diff_le) simp
        moreover have "queued x = unat ?ff + queued ?x" using r(2) q by (simp add: queued_def Cons queue_ok_def)
        moreover have "unat ?ff \<le> unat w" using False unfolding word_less_nat_alt by linarith
        ultimately show ?thesis using Cons by simp
      qed
    qed
  qed
qed

section \<open>Properties\<close>

text \<open>Mixing loses no frame. On a proper queue \<open>consume_frames\<close> returns the wanted
  number of frames or all that are queued, removes exactly those from the queue, adds them to the
  played counter and the shortfall to the underrun counter, and leaves a proper queue.\<close>

lemma audio_consume_exact:
  assumes "audio_wf x" "consume_frames n x = (got, x')"
  shows "audio_wf x' \<and> unat got = min (unat n) (queued x) \<and> queued x' = queued x - unat got \<and>
    au_played x' = au_played x + got \<and> au_underrun x' = au_underrun x + (n - got)"
proof -
  obtain w g x1 where l: "consume_loop n 0 x = (w, g, x1)" by (metis prod.exhaust)
  have q: "queue_ok (au_buffers x) (au_front_offset x)" using assms(1) by (simp add: audio_wf_def)
  note e = consume_loop_effect [OF q l]
  have r: "got = g" "x' = x1\<lparr>au_underrun := au_underrun x1 + w\<rparr>" using assms(2) l by (auto simp: consume_frames_def)
  have "w \<le> n" using e by (simp add: word_le_nat_alt)
  then have d: "unat (n - w) = unat n - unat w" by (rule unat_diff_le)
  have same: "queued x' = queued x1" "au_buffers x' = au_buffers x1" "au_front_offset x' = au_front_offset x1"
    "au_played x' = au_played x1" "au_underrun x' = au_underrun x1 + w" using r(2) by (simp_all add: queued_def)
  have got: "got = n - w" using e r(1) by simp
  have g: "unat got = min (unat n) (queued x)" using e d got by (simp add: min_def)
  then have qd: "queued x' = queued x - unat got" using e same(1) by (simp add: min_def)
  have "audio_wf x'" using e assms(1) same(1-3) unfolding audio_wf_def by (metis diff_le_self le_trans)
  with e same got g qd show ?thesis by simp
qed

definition demo_audio :: audio where
  "demo_audio = snd (submit_buffer [5, 6, 7, 8] (snd (submit_buffer [1, 2, 3, 4, 5, 6] XboxAudio)))"

lemma demo_audio_eq: "demo_audio = XboxAudio\<lparr>au_buffers := [[1, 2, 3, 4, 5, 6], [5, 6, 7, 8]], au_submitted := 2\<rparr>"
  by (simp add: demo_audio_def XboxAudio_def submit_buffer_def submit_frames_def kChannels_def buffer_frames_def
      kMaxQueuedBuffers_def kMaxQueuedFrames_def queued_frames_def)

lemma audio_consume_exact_witness:
  "queued demo_audio = 5 \<and> (\<exists>got x'. consume_frames 9 demo_audio = (got, x') \<and> unat got = 5 \<and> au_underrun x' = 4)"
proof -
  have wf: "audio_wf demo_audio" and q: "queued demo_audio = 5"
    by (simp_all add: demo_audio_eq XboxAudio_def audio_wf_def queue_ok_def queued_def kMaxQueuedBuffers_def kMaxQueuedFrames_def)
  obtain got x' where c: "consume_frames 9 demo_audio = (got, x')" by fastforce
  from audio_consume_exact [OF wf c] q have "unat got = 5" "au_underrun x' = au_underrun demo_audio + (9 - got)" by simp_all
  moreover from this(1) have "got = 5" by (metis of_nat_numeral of_nat_unat ucast_id)
  ultimately show ?thesis using q c by (auto simp: demo_audio_eq XboxAudio_def)
qed

end
