(* ===== verification/Xbox_Sys.thy ===== *)
theory Xbox_Sys
  imports Krnl_Call
begin

text \<open>
  The processor description and clocks (\<open>src/src/cpu_native.cpp\<close>, \<open>src/include/cpu_native.h\<close>) and
  the system services built on them (\<open>src/src/xbox_sys.cpp\<close>, \<open>src/include/xbox_sys.h\<close>). The two
  host clocks are arguments: \<open>ns\<close> is the nanosecond count of the steady clock or of the system
  clock. All arithmetic is the 64-bit arithmetic of the sources.
\<close>

section \<open>Processor topology and clocks\<close>

datatype sys_id = SysLog | GpuFlush | GetTopology | GetQpcFreq | GetQpc | GetRdtsc | SysYield

fun sys_code :: "sys_id \<Rightarrow> u32" where
  "sys_code SysLog = 1"
| "sys_code GpuFlush = 2"
| "sys_code GetTopology = 10"
| "sys_code GetQpcFreq = 11"
| "sys_code GetQpc = 12"
| "sys_code GetRdtsc = 13"
| "sys_code SysYield = 14"

record topology =
  tp_phys :: u32
  tp_logical :: u32
  tp_game_cores :: u32
  tp_l1i :: u32
  tp_l1d :: u32
  tp_l2_per_core :: u32
  tp_l3_per_ccx :: u32
  tp_freq_smt_off :: u64
  tp_freq_smt_on :: u64
  tp_smt_enabled :: bool

definition CpuTopology :: topology where
  "CpuTopology = \<lparr>tp_phys = 8, tp_logical = 8, tp_game_cores = 7, tp_l1i = push_bit 10 32, tp_l1d = push_bit 10 32,
     tp_l2_per_core = push_bit 10 512, tp_l3_per_ccx = push_bit 20 4, tp_freq_smt_off = 3800000000,
     tp_freq_smt_on = 3600000000, tp_smt_enabled = False\<rparr>"

text \<open>\<open>cpu_topology\<close> after \<open>ensure_init\<close>: the two constant descriptions.\<close>

definition cpu_topology :: "bool \<Rightarrow> topology" where
  "cpu_topology smt_on =
     (if smt_on then CpuTopology\<lparr>tp_smt_enabled := True, tp_logical := 16\<rparr>
      else CpuTopology\<lparr>tp_smt_enabled := False, tp_logical := 8\<rparr>)"

definition cpu_game_threads :: "topology \<Rightarrow> u32" where
  "cpu_game_threads t = (if tp_smt_enabled t then tp_game_cores t * 2 else tp_game_cores t)"

definition cpu_qpc_now :: "u64 \<Rightarrow> u64" where
  "cpu_qpc_now ns = ns * kQpcFreq div 1000000000"

definition cpu_rdtsc_scaled :: "u64 \<Rightarrow> topology \<Rightarrow> u64" where
  "cpu_rdtsc_scaled ns t =
     (let freq = (if tp_smt_enabled t then tp_freq_smt_on t else tp_freq_smt_off t) in ns * freq div 1000000000)"

text \<open>The demo payload: the traps it raises, in order, when a handler is given; \<open>ns1\<close> and \<open>ns2\<close>
  are the two readings of the clock.\<close>

definition guest_demo_entry :: "bool \<Rightarrow> u64 \<Rightarrow> u64 \<Rightarrow> (u32 \<times> u64) list" where
  "guest_demo_entry trap ns1 ns2 =
     (let acc = fold (\<lambda>i acc. acc + of_nat i) [0..<1000] 0; topo = cpu_topology False in
      if trap then
        [(sys_code SysLog, acc), (sys_code GpuFlush, 0), (sys_code GetTopology, ucast (tp_game_cores topo)),
         (sys_code GetQpcFreq, kQpcFreq), (sys_code GetQpc, cpu_qpc_now ns1), (sys_code GetRdtsc, cpu_rdtsc_scaled ns2 topo)]
      else [])"

definition cpu_run_native :: "bool \<Rightarrow> u64 \<Rightarrow> u64 \<Rightarrow> (u32 \<times> u64) list" where
  "cpu_run_native = guest_demo_entry"

section \<open>System services\<close>

record affinity =
  af_game_mask :: u64
  af_system_mask :: u64
  af_game_threads :: u32

record mem_status =
  ms_total_bytes :: u64
  ms_gpu_optimal_bytes :: u64
  ms_standard_bytes :: u64
  ms_committed_pages :: u64
  ms_committed_bytes :: u64

definition core_mask :: "nat list \<Rightarrow> u64" where
  "core_mask cs = fold (\<lambda>c m. m OR push_bit c 1) cs 0"

definition xbox_game_affinity :: "bool \<Rightarrow> affinity" where
  "xbox_game_affinity smt_on =
     (let t = cpu_topology smt_on; games = unat (tp_game_cores t); phys = unat (tp_phys t) in
      \<lparr>af_game_mask = core_mask [0..<min games phys], af_system_mask = core_mask [games..<phys],
       af_game_threads = cpu_game_threads t\<rparr>)"

definition xbox_affinity_is_game_core :: "u32 \<Rightarrow> bool \<Rightarrow> bool" where
  "xbox_affinity_is_game_core core smt_on =
     (let t = cpu_topology smt_on; c = (if smt_on then core div 2 else core) in c < tp_game_cores t)"

definition xbox_mem_status :: "u64 \<Rightarrow> u64 \<Rightarrow> mem_status" where
  "xbox_mem_status committed_pages page_size =
     \<lparr>ms_total_bytes = push_bit 30 16, ms_gpu_optimal_bytes = push_bit 30 10, ms_standard_bytes = push_bit 30 6,
      ms_committed_pages = committed_pages, ms_committed_bytes = committed_pages * page_size\<rparr>"

definition kXboxHomebrewTitleId :: u32 where "kXboxHomebrewTitleId = 0xFFFF0001"

definition xbox_title_name :: string where "xbox_title_name = ''HOME-BREW''"

definition kFiletimeEpochDelta100ns :: u64 where
  "kFiletimeEpochDelta100ns = 11644473600 * 10000000"

definition xbox_system_time_filetime :: "u64 \<Rightarrow> u64" where
  "xbox_system_time_filetime unix_ns = unix_ns div 100 + kFiletimeEpochDelta100ns"

definition xbox_filetime_to_unix100ns :: "u64 \<Rightarrow> u64" where
  "xbox_filetime_to_unix100ns filetime =
     (if filetime \<ge> kFiletimeEpochDelta100ns then filetime - kFiletimeEpochDelta100ns else 0)"

section \<open>Lemmas\<close>

lemma unat_mult_lt: "unat a * unat b < 2 ^ LENGTH('a) \<Longrightarrow> unat (a * b :: 'a::len word) = unat a * unat b"
  by (simp add: unat_word_ariths)

text \<open>A scaled clock is exact while the product fits.\<close>

lemma scaled_clock_exact:
  assumes "unat ns * unat f < 2 ^ 64"
  shows "unat (ns * f div 1000000000 :: u64) = unat ns * unat f div 1000000000"
  using assms by (simp add: unat_div unat_mult_lt)

text \<open>The game and system cores split the physical cores, and the title time round trips.\<close>

lemma affinity_partition:
  "af_game_mask (xbox_game_affinity smt) AND af_system_mask (xbox_game_affinity smt) = 0"
  "af_game_mask (xbox_game_affinity smt) OR af_system_mask (xbox_game_affinity smt) = mask 8"
  "bit (af_game_mask (xbox_game_affinity smt)) 7 = False"
  by (cases smt; simp add: xbox_game_affinity_def cpu_topology_def CpuTopology_def core_mask_def upt_rec Let_def mask_eq_exp_minus_1)+

lemma filetime_round_trip:
  "xbox_filetime_to_unix100ns (xbox_system_time_filetime ns) = ns div 100"
proof -
  have "unat (ns div 100) \<le> 2 ^ 64 div 100" using unat_lt2p [of ns] by (simp add: unat_div)
  then have "unat (ns div 100) + unat kFiletimeEpochDelta100ns < 2 ^ 64"
    by (simp add: kFiletimeEpochDelta100ns_def)
  then have "unat (xbox_system_time_filetime ns) = unat (ns div 100) + unat kFiletimeEpochDelta100ns"
    unfolding xbox_system_time_filetime_def by (intro unat_add_lt) simp
  then show ?thesis
    by (simp add: xbox_filetime_to_unix100ns_def word_le_nat_alt) (simp add: xbox_system_time_filetime_def)
qed

section \<open>Properties\<close>

text \<open>The performance counter counts 100 ns ticks of the steady clock exactly as long as the
  host has been up for less than about half an hour (1844674407371 ns), and is monotone until
  then; at that moment the 64-bit product wraps and the counter falls back to zero.\<close>

lemma qpc_exact_until_wrap:
  shows "(unat ns < 1844674407371 \<longrightarrow> unat (cpu_qpc_now ns) = unat ns div 100) \<and>
    (unat ns < 1844674407371 \<and> ms \<le> ns \<longrightarrow> cpu_qpc_now ms \<le> cpu_qpc_now ns) \<and>
    cpu_qpc_now 1844674407370 = 18446744073 \<and> cpu_qpc_now 1844674407371 = 0"
proof (intro conjI impI)
  have exact: "unat (cpu_qpc_now x) = unat x div 100" if "unat x < 1844674407371" for x
  proof -
    have "unat x * unat kQpcFreq < 2 ^ 64" using that by (simp add: kQpcFreq_def)
    then have "unat (cpu_qpc_now x) = unat x * unat kQpcFreq div 1000000000"
      unfolding cpu_qpc_now_def by (rule scaled_clock_exact)
    also have "\<dots> = unat x div 100"
      using div_mult_mult1 [of "10000000 :: nat" "unat x" 100] by (simp add: kQpcFreq_def mult.commute)
    finally show ?thesis .
  qed
  show "unat (cpu_qpc_now ns) = unat ns div 100" if "unat ns < 1844674407371" using exact that .
  show "cpu_qpc_now ms \<le> cpu_qpc_now ns" if "unat ns < 1844674407371 \<and> ms \<le> ns"
    using that exact [of ns] exact [of ms] by (simp add: word_le_nat_alt div_le_mono)
  show "cpu_qpc_now 1844674407370 = 18446744073" "cpu_qpc_now 1844674407371 = 0" by code_simp+
qed

lemma qpc_exact_until_wrap_witness:
  "unat (cpu_qpc_now 5000) = 50 \<and> cpu_qpc_now 4000 \<le> cpu_qpc_now 5000"
  using qpc_exact_until_wrap [of 5000 4000] by simp

end
