(* ===== verification/Fiber_Tls.thy ===== *)
theory Fiber_Tls
  imports Cpu_Sched Bytes
begin

text \<open>
  Guest thread-local storage on fibers (\<open>src/src/fiber_tls.cpp\<close>, \<open>src/include/fiber_tls.h\<close>). The
  storage of a fiber is carved from the top of its stack, so the state has, beside the fields of
  \<open>FiberTls\<close>, the scheduler and the host memory that holds the stacks; a \<open>void*\<close> is a 64-bit host
  address. As in the scheduler model, \<open>mmap_ok h\<close> is the address of the stack mapping of the thread
  with handle \<open>h\<close>, and the result \<open>None\<close> stands for an access past the end of \<open>threads_\<close>. The
  finish hook is the value \<open>TlsDetach\<close> in the scheduler's hook list; \<open>tls_detach\<close> is its body.
\<close>

section \<open>State\<close>

record tls_event =
  te_fiber :: u64
  te_callback :: u32
  te_reason :: u32

record tls_init =
  ti_raw :: "u8 list"
  ti_zero_fill :: u32
  ti_index :: u32
  ti_callbacks :: "u32 list"

record tls_block =
  tb_array :: u64
  tb_data :: u64
  tb_size :: u64

definition kReasonProcessAttach :: u32 where "kReasonProcessAttach = 1"
definition kReasonThreadAttach :: u32 where "kReasonThreadAttach = 2"
definition kReasonThreadDetach :: u32 where "kReasonThreadDetach = 3"
definition kSlots :: nat where "kSlots = 64"

record 'c fiber_tls =
  ft_sched :: "'c guest_scheduler"
  ft_mem :: "64 mem"
  ft_init :: "tls_init option"
  ft_events :: "tls_event list"
  ft_blocks :: "(u64 \<times> tls_block) list"
  ft_main_seen :: bool
  ft_hook_installed :: bool

definition FiberTls :: "'c guest_scheduler \<Rightarrow> 64 mem \<Rightarrow> 'c fiber_tls" where
  "FiberTls sched mem = \<lparr>ft_sched = sched, ft_mem = mem, ft_init = None, ft_events = [], ft_blocks = [],
     ft_main_seen = False, ft_hook_installed = False\<rparr>"

section \<open>Operations\<close>

definition set_init :: "tls_init \<Rightarrow> 'c fiber_tls \<Rightarrow> 'c fiber_tls" where
  "set_init init x = (if unat (ti_index init) \<ge> kSlots then x else x\<lparr>ft_init := Some init\<rparr>)"

definition init_empty :: "tls_init \<Rightarrow> bool" where
  "init_empty i \<longleftrightarrow> ti_raw i = [] \<and> ti_zero_fill i = 0"

definition init_size :: "tls_init \<Rightarrow> u64" where
  "init_size i = of_nat (length (ti_raw i)) + ucast (ti_zero_fill i)"

definition data_size :: "'c fiber_tls \<Rightarrow> u64" where
  "data_size x = (case ft_init x of None \<Rightarrow> 0 | Some i \<Rightarrow> init_size i)"

definition array_bytes :: u64 where "array_bytes = of_nat (kSlots * 8)"

definition tls_record :: "u64 \<Rightarrow> u32 \<Rightarrow> u32 \<Rightarrow> 'c fiber_tls \<Rightarrow> 'c fiber_tls" where
  "tls_record fiber callback reason x =
     x\<lparr>ft_events := ft_events x @ [\<lparr>te_fiber = fiber, te_callback = callback, te_reason = reason\<rparr>]\<rparr>"

definition tls_detach :: "u64 \<Rightarrow> 'c fiber_tls \<Rightarrow> 'c fiber_tls" where
  "tls_detach fiber x = tls_record fiber 0 kReasonThreadDetach x"

text \<open>The bytes written into a fresh block: the null slots, the slot of the index, the template
  and the zero fill, in the order of \<open>install\<close>.\<close>

definition write_block :: "tls_init \<Rightarrow> u64 \<Rightarrow> 64 mem \<Rightarrow> 64 mem" where
  "write_block i tp m =
     (let d = tp + array_bytes;
          m1 = store_bytes tp (replicate (kSlots * 8) 0) m;
          m2 = store_bytes (tp + 8 * ucast (ti_index i)) (le_bytes 8 d) m1;
          m3 = (if ti_raw i \<noteq> [] then store_bytes d (ti_raw i) m2 else m2)
      in if ti_zero_fill i \<noteq> 0
         then store_bytes (d + of_nat (length (ti_raw i))) (replicate (unat (ti_zero_fill i)) 0) m3 else m3)"

definition tls_install :: "u64 \<Rightarrow> tls_init \<Rightarrow> 'c fiber_tls \<Rightarrow> (bool \<times> 'c fiber_tls) option" where
  "tls_install fiber i x =
     (case stack_top_reserve fiber (ft_sched x) of
        None \<Rightarrow> None
      | Some None \<Rightarrow> Some (False, x)
      | Some (Some tp) \<Rightarrow>
          Some (True, x\<lparr>ft_mem := write_block i tp (ft_mem x),
            ft_blocks := ft_blocks x @
              [(fiber, \<lparr>tb_array = tp, tb_data = tp + array_bytes, tb_size = init_size i\<rparr>)]\<rparr>))"

definition reserve_bytes :: "tls_init \<Rightarrow> u64" where
  "reserve_bytes i = (array_bytes + init_size i + 15) AND NOT 15"

definition hook_once :: "'c fiber_tls \<Rightarrow> 'c fiber_tls" where
  "hook_once x =
     (if ft_hook_installed x then x
      else x\<lparr>ft_sched := set_on_finish (Some TlsDetach) (ft_sched x), ft_hook_installed := True\<rparr>)"

definition record_attach :: "u64 \<Rightarrow> u32 \<Rightarrow> tls_init \<Rightarrow> 'c fiber_tls \<Rightarrow> 'c fiber_tls" where
  "record_attach fiber reason i x =
     (if ti_callbacks i = [] then tls_record fiber 0 reason x
      else fold (\<lambda>cb. tls_record fiber cb reason) (ti_callbacks i) x)"

definition spawn_with_tls ::
  "(u64 \<Rightarrow> u64 option) \<Rightarrow> string \<Rightarrow> 'c \<Rightarrow> 'c fiber_tls \<Rightarrow> (u64 \<times> 'c fiber_tls) option" where
  "spawn_with_tls mmap_ok name fn x =
     (case ft_init x of
        None \<Rightarrow> Some (0, x)
      | Some i \<Rightarrow>
          let x1 = hook_once x;
              (fiber, s) = spawn_reserved mmap_ok name fn (reserve_bytes i) (ft_sched x1);
              x2 = x1\<lparr>ft_sched := s\<rparr>;
              reason = (if ft_main_seen x2 then kReasonThreadAttach else kReasonProcessAttach)
          in if fiber = 0 then Some (0, x2)
             else (case tls_install fiber i x2 of
                     None \<Rightarrow> None
                   | Some (_, x3) \<Rightarrow> Some (fiber, record_attach fiber reason i (x3\<lparr>ft_main_seen := True\<rparr>))))"

fun find_block :: "u64 \<Rightarrow> (u64 \<times> tls_block) list \<Rightarrow> tls_block option" where
  "find_block fiber [] = None"
| "find_block fiber ((h, b) # bs) = (if h = fiber then Some b else find_block fiber bs)"

definition data_of :: "'c fiber_tls \<Rightarrow> u64 \<Rightarrow> u64 \<Rightarrow> u64 \<Rightarrow> u64 option" where
  "data_of x fiber offset n =
     (case find_block fiber (ft_blocks x) of
        None \<Rightarrow> None
      | Some b \<Rightarrow> if offset + n > tb_size b then None else Some (tb_data b + offset))"

definition current_data :: "'c fiber_tls \<Rightarrow> u64 \<Rightarrow> u64 \<Rightarrow> u64 option" where
  "current_data x offset n = data_of x (current_handle (ft_sched x)) offset n"

definition array_of :: "'c fiber_tls \<Rightarrow> u64 \<Rightarrow> u64 option" where
  "array_of x fiber = map_option tb_array (find_block fiber (ft_blocks x))"

definition current_array :: "'c fiber_tls \<Rightarrow> u64 option" where
  "current_array x = array_of x (current_handle (ft_sched x))"

definition has_tls :: "'c fiber_tls \<Rightarrow> u64 \<Rightarrow> bool" where
  "has_tls x fiber \<longleftrightarrow> find_block fiber (ft_blocks x) \<noteq> None"

section \<open>Block contents\<close>

lemma kSlots_bytes: "kSlots * 8 = 512" "array_bytes = 512" "unat array_bytes = 512"
  by (simp_all add: kSlots_def array_bytes_def)

lemma unat_init_size:
  assumes "length (ti_raw i) < 2 ^ 63"
  shows "unat (init_size i) = length (ti_raw i) + unat (ti_zero_fill i)"
proof -
  have "unat (ucast (ti_zero_fill i) :: u64) = unat (ti_zero_fill i)"
    using unat_lt2p [of "ti_zero_fill i"] by (simp add: unsigned_ucast_eq take_bit_nat_eq_self)
  moreover have "unat (ti_zero_fill i) < 2 ^ 32" using unat_lt2p [of "ti_zero_fill i"] by simp
  ultimately show ?thesis using assms unfolding init_size_def by (subst unat_add_lt) (simp_all add: unat_of_nat_lt)
qed

text \<open>What a block holds after \<open>install\<close>: the slot of the index points at the data area, every
  other slot is null, and the data area is the template followed by zeros.\<close>

definition block_holds :: "tls_init \<Rightarrow> tls_block \<Rightarrow> 64 mem \<Rightarrow> bool" where
  "block_holds i b m \<longleftrightarrow> tb_data b = tb_array b + 512 \<and>
     (\<forall>k < kSlots. le_word (load_bytes 8 (tb_array b + of_nat (8 * k)) m) = (if k = unat (ti_index i) then tb_data b else 0)) \<and>
     load_bytes (unat (tb_size b)) (tb_data b) m = ti_raw i @ replicate (unat (ti_zero_fill i)) 0"

definition block_end :: "tls_block \<Rightarrow> nat" where
  "block_end b = unat (tb_array b) + 512 + unat (tb_size b)"

lemma write_block_stores:
  "write_block i tp m = store_bytes (tp + 512) (ti_raw i @ replicate (unat (ti_zero_fill i)) 0)
     (store_bytes (tp + of_nat (8 * unat (ti_index i))) (le_bytes 8 (tp + 512)) (store_bytes tp (replicate 512 0) m))"
proof -
  have "(8 :: u64) * ucast (ti_index i) = of_nat (8 * unat (ti_index i))" by simp
  then show ?thesis by (simp add: write_block_def Let_def kSlots_bytes store_bytes_append)
qed

lemma le_word_zeros: "le_word (replicate n 0) = 0"
  by (induction n) simp_all

lemma take_drop_zeros: "k + n \<le> N \<Longrightarrow> take n (drop k (replicate N x)) = replicate n x"
  by (simp add: min_def)

lemma write_block_holds:
  assumes len: "length (ti_raw i) < 2 ^ 63" and idx: "unat (ti_index i) < kSlots"
    and fit: "unat tp + 512 + unat (init_size i) \<le> 2 ^ 64" and sz: "init_size i \<noteq> 0 \<or> unat tp + 512 < 2 ^ 64"
  shows "block_holds i \<lparr>tb_array = tp, tb_data = tp + array_bytes, tb_size = init_size i\<rparr> (write_block i tp m)"
    "unat c + n \<le> unat tp \<or> unat tp + 512 + unat (init_size i) \<le> unat c \<Longrightarrow> unat c + n \<le> 2 ^ 64 \<Longrightarrow>
       load_bytes n c (write_block i tp m) = load_bytes n c m"
proof -
  let ?data = "ti_raw i @ replicate (unat (ti_zero_fill i)) 0" let ?idx = "unat (ti_index i)"
  let ?m1 = "store_bytes tp (replicate 512 0) m"
  let ?m2 = "store_bytes (tp + of_nat (8 * ?idx)) (le_bytes 8 (tp + 512)) ?m1"
  have size: "length ?data = unat (init_size i)" by (simp add: unat_init_size [OF len])
  have idx8: "8 * ?idx + 8 \<le> 512" using idx by (simp add: kSlots_def)
  have d: "unat (tp + 512) = unat tp + 512"
    using fit sz by (subst unat_add_lt) (auto simp: word_neq_0_conv word_less_nat_alt)
  have slot: "unat (tp + of_nat (8 * k)) = unat tp + 8 * k" if "8 * k + 8 \<le> 512" for k
    using that fit by (subst unat_add_lt) (auto simp: unat_of_nat_lt simp del: of_nat_mult)
  have w: "write_block i tp m = store_bytes (tp + 512) ?data ?m2" by (rule write_block_stores)
  have slots: "load_bytes 8 (tp + of_nat (8 * k)) (write_block i tp m) =
      (if k = ?idx then le_bytes 8 (tp + 512) else replicate 8 0)" if "k < kSlots" for k
  proof -
    have k8: "8 * k + 8 \<le> 512" using that by (simp add: kSlots_def)
    have "load_bytes 8 (tp + of_nat (8 * k)) (write_block i tp m) = load_bytes 8 (tp + of_nat (8 * k)) ?m2"
      unfolding w using slot [OF k8] d k8 fit size by (intro load_store_disjoint) simp_all
    also have "\<dots> = (if k = ?idx then le_bytes 8 (tp + 512) else replicate 8 0)"
    proof (cases "k = ?idx")
      case True
      with load_store_same [of "tp + of_nat (8 * k)" "le_bytes 8 (tp + 512)" ?m1] slot [OF k8] k8 fit show ?thesis by simp
    next
      case False
      have "load_bytes 8 (tp + of_nat (8 * k)) ?m2 = load_bytes 8 (tp + of_nat (8 * k)) ?m1"
        using slot [OF k8] slot [OF idx8] k8 idx8 fit False by (intro load_store_disjoint) (simp_all, linarith)
      also have "\<dots> = take 8 (drop (8 * k) (replicate 512 0))"
        using k8 fit by (intro load_store_inside) simp_all
      finally show ?thesis using False k8 by (simp add: take_drop_zeros)
    qed
    finally show ?thesis .
  qed
  moreover have "load_bytes (length ?data) (tp + 512) (write_block i tp m) = ?data"
    unfolding w using d fit size by (intro load_store_same) simp
  ultimately show "block_holds i \<lparr>tb_array = tp, tb_data = tp + array_bytes, tb_size = init_size i\<rparr> (write_block i tp m)"
    unfolding size by (simp add: block_holds_def kSlots_bytes le_word_le_bytes_full le_word_zeros del: of_nat_mult)
  show "load_bytes n c (write_block i tp m) = load_bytes n c m"
    if c: "unat c + n \<le> unat tp \<or> unat tp + 512 + unat (init_size i) \<le> unat c" "unat c + n \<le> 2 ^ 64"
  proof -
    have "load_bytes n c (store_bytes (tp + 512) ?data ?m2) = load_bytes n c ?m2"
      using c d fit size by (intro load_store_disjoint) auto
    also have "\<dots> = load_bytes n c ?m1" using c slot [OF idx8] idx8 fit by (intro load_store_disjoint) auto
    also have "\<dots> = load_bytes n c m" using c fit by (intro load_store_disjoint) auto
    finally show ?thesis by (simp only: w)
  qed
qed

section \<open>Invariant\<close>

text \<open>A block lies inside the stack mapping of its fiber, above the guard page and the minimum of
  usable stack. A fresh mapping does not meet the stacks in use.\<close>

definition in_stack :: "'c guest_thread \<Rightarrow> tls_block \<Rightarrow> bool" where
  "in_stack g b \<longleftrightarrow> (\<exists>base. gt_stack_base g = Some base \<and> unat base + unat (kGuardSize + kStackSize) < 2 ^ 64 \<and>
     unat base + unat kGuardSize + unat kMinUsable \<le> unat (tb_array b) \<and>
     block_end b \<le> unat base + unat (kGuardSize + kStackSize))"

definition tls_wf :: "'c fiber_tls \<Rightarrow> bool" where
  "tls_wf x \<longleftrightarrow> sched_wf (ft_sched x) \<and> distinct (map fst (ft_blocks x)) \<and>
     (\<forall>i. ft_init x = Some i \<longrightarrow> unat (ti_index i) < kSlots \<and> length (ti_raw i) < 2 ^ 63) \<and>
     (\<forall>(h, b)\<in>set (ft_blocks x). \<exists>g\<in>set (gs_threads (ft_sched x)). gt_handle g = h \<and> in_stack g b)"

definition stack_fresh :: "u64 \<Rightarrow> 'c guest_scheduler \<Rightarrow> bool" where
  "stack_fresh region s \<longleftrightarrow> unat region + unat (kGuardSize + kStackSize) < 2 ^ 64 \<and>
     (\<forall>g\<in>set (gs_threads s). \<forall>base. gt_stack_base g = Some base \<longrightarrow>
        unat base + unat (kGuardSize + kStackSize) \<le> unat region \<or> unat region + unat (kGuardSize + kStackSize) \<le> unat base)"

lemmas stack_sizes = kGuardSize_def kStackSize_def kMinUsable_def

lemma find_block_mem: "find_block h bs = Some b \<Longrightarrow> (h, b) \<in> set bs"
  by (induction h bs rule: find_block.induct) (auto split: if_splits)

lemma find_block_snoc:
  "h \<notin> fst ` set bs \<Longrightarrow> find_block f (bs @ [(h, b)]) = (if f = h then Some b else find_block f bs)"
  by (induction f bs rule: find_block.induct) auto

lemma tls_record_fold:
  "fold (\<lambda>cb. tls_record h cb r) cbs x =
     x\<lparr>ft_events := ft_events x @ map (\<lambda>cb. \<lparr>te_fiber = h, te_callback = cb, te_reason = r\<rparr>) cbs\<rparr>"
  by (induction cbs arbitrary: x) (simp_all add: tls_record_def)

lemma record_attach_eq:
  "record_attach h r i x = x\<lparr>ft_events := ft_events x @
     map (\<lambda>cb. \<lparr>te_fiber = h, te_callback = cb, te_reason = r\<rparr>) (if ti_callbacks i = [] then [0] else ti_callbacks i)\<rparr>"
  by (simp add: record_attach_def tls_record_fold) (simp add: tls_record_def)

lemma reserve_bounds:
  assumes "length (ti_raw i) < 2 ^ 63"
  shows "512 + unat (init_size i) \<le> unat (reserve_bytes i)" "reserve_bytes i \<noteq> 0"
proof -
  let ?n = "512 + unat (init_size i) + 15"
  have "unat (init_size i) < 2 ^ 63 + 2 ^ 32" using assms unat_lt2p [of "ti_zero_fill i"] by (simp add: unat_init_size)
  then have "unat (array_bytes + init_size i + 15) = ?n" by (simp add: unat_add_lt kSlots_bytes)
  then have "unat (reserve_bytes i) = ?n div 16 * 16"
    using unat_and_not_mask [of "array_bytes + init_size i + 15" 4] by (simp add: reserve_bytes_def mask_eq_exp_minus_1)
  then show "512 + unat (init_size i) \<le> unat (reserve_bytes i)" by linarith
  then show "reserve_bytes i \<noteq> 0" by auto
qed

lemma hook_once_frame:
  "ft_mem (hook_once x) = ft_mem x" "ft_init (hook_once x) = ft_init x" "ft_events (hook_once x) = ft_events x"
  "ft_blocks (hook_once x) = ft_blocks x" "ft_main_seen (hook_once x) = ft_main_seen x" "ft_hook_installed (hook_once x)"
  "gs_threads (ft_sched (hook_once x)) = gs_threads (ft_sched x)"
  "gs_next_handle (ft_sched (hook_once x)) = gs_next_handle (ft_sched x)"
  "sched_wf (ft_sched (hook_once x)) \<longleftrightarrow> sched_wf (ft_sched x)"
  by (simp_all add: hook_once_def set_on_finish_def sched_wf_def)

text \<open>Spawning in a well-formed scheduler: the new thread is the last one, its handle is found,
  and its reserved area is where \<open>stack_top_reserve\<close> says.\<close>

lemma spawn_top:
  assumes "sched_wf s" "mm (gs_next_handle s) = Some region" "Suc (Suc (length (gs_threads s))) < 2 ^ 64"
    "reserve \<le> kStackSize - kMinUsable" "reserve \<noteq> 0"
    "unat region + unat (kGuardSize + kStackSize) < 2 ^ 64"
  obtains g s' where "spawn_reserved mm name fn reserve s = (gs_next_handle s, s')" "sched_wf s'"
    "gs_threads s' = gs_threads s @ [g]" "gt_handle g = gs_next_handle s" "gt_stack_base g = Some region"
    "stack_top_reserve (gs_next_handle s) s' = Some (Some (region + (kGuardSize + kStackSize) - reserve))"
    "unat (region + (kGuardSize + kStackSize) - reserve) = unat region + unat (kGuardSize + kStackSize) - unat reserve"
    "gs_next_handle s \<noteq> 0" "\<forall>g\<in>set (gs_threads s). gt_handle g \<noteq> gs_next_handle s"
proof -
  obtain h s' where sp: "spawn_reserved mm name fn reserve s = (h, s')" by fastforce
  have wf': "sched_wf s'" using sched_wf_spawn [OF assms(1) sp] assms(2,3) by simp
  obtain g where g: "h = gs_next_handle s" "gs_threads s' = gs_threads s @ [g]" "gt_handle g = gs_next_handle s" "gt_stack_base g = Some region"
    "gt_stack_map_size g = kGuardSize + kStackSize" "gt_stack_top_reserve g = reserve"
    using sp assms(2,4) by (auto simp: spawn_reserved_def Let_def not_less [symmetric])
  have len: "length (gs_threads s') = Suc (length (gs_threads s))" by (simp add: g)
  have nh: "gs_next_handle s = of_nat (Suc (length (gs_threads s)))"
    using assms(1) by (intro unat_eq_SucD) (simp add: sched_wf_def)
  have "find_thread s' (gs_next_handle s) = Some (length (gs_threads s))"
    unfolding nh using find_thread_handle [OF wf', of "length (gs_threads s)"] len by simp
  then have top': "stack_top_reserve (gs_next_handle s) s' = Some (Some (region + (kGuardSize + kStackSize) - reserve))"
    using assms(5) g by (simp add: stack_top_reserve_def deref_def nth_append)
  have "unat reserve \<le> unat kStackSize" using assms(4) by (simp add: word_le_nat_alt stack_sizes)
  then have "unat (region + (kGuardSize + kStackSize)) = unat region + unat (kGuardSize + kStackSize)"
    "reserve \<le> region + (kGuardSize + kStackSize)"
    using assms(6) by (simp_all add: unat_add_lt word_le_nat_alt stack_sizes)
  then have u: "unat (region + (kGuardSize + kStackSize) - reserve) = unat region + unat (kGuardSize + kStackSize) - unat reserve"
    by (simp add: unat_diff_le)
  have fresh: "gt_handle g' \<noteq> gs_next_handle s" if "g' \<in> set (gs_threads s)" for g'
  proof -
    from that obtain j where j: "j < length (gs_threads s)" "g' = gs_threads s ! j" by (metis in_set_conv_nth)
    then have "unat (gt_handle g') = Suc j"
      using handle_nth [OF assms(1)] handles_less [OF assms(1)] by (simp only:) (intro unat_of_nat_lt, simp)
    moreover have "unat (gs_next_handle s) = Suc (length (gs_threads s))" using assms(1) by (simp add: sched_wf_def)
    ultimately show ?thesis using j(1) by auto
  qed
  have "gs_next_handle s \<noteq> 0" using assms(1) by (auto simp: sched_wf_def)
  then show ?thesis using that [OF _ wf' g(2-4) top' u] sp g(1) fresh by simp
qed

text \<open>The effect of \<open>spawn_with_tls\<close> when the payload fits and the stack can be mapped.\<close>

lemma spawn_with_tls_effect:
  assumes wf: "tls_wf x" and init: "ft_init x = Some i" and fits: "reserve_bytes i \<le> kStackSize - kMinUsable"
    and map: "mm (gs_next_handle (ft_sched x)) = Some region" "stack_fresh region (ft_sched x)"
    and room: "Suc (Suc (length (gs_threads (ft_sched x)))) < 2 ^ 64"
  obtains x' b g h where "spawn_with_tls mm name fn x = Some (h, x')" "h = gs_next_handle (ft_sched x)"
    "sched_wf (ft_sched x')" "gs_threads (ft_sched x') = gs_threads (ft_sched x) @ [g]" "gt_handle g = h" "in_stack g b"
    "\<forall>g\<in>set (gs_threads (ft_sched x)). gt_handle g \<noteq> h"
    "ft_mem x' = write_block i (tb_array b) (ft_mem x)" "ft_blocks x' = ft_blocks x @ [(h, b)]" "ft_init x' = Some i"
    "b = \<lparr>tb_array = tb_array b, tb_data = tb_array b + array_bytes, tb_size = init_size i\<rparr>"
    "unat region \<le> unat (tb_array b)" "block_end b \<le> unat region + unat (kGuardSize + kStackSize)"
    "ft_events x' = ft_events x @ map (\<lambda>cb. \<lparr>te_fiber = h, te_callback = cb,
       te_reason = (if ft_main_seen x then kReasonThreadAttach else kReasonProcessAttach)\<rparr>)
       (if ti_callbacks i = [] then [0] else ti_callbacks i)"
proof -
  let ?x1 = "hook_once x" let ?h = "gs_next_handle (ft_sched x)" let ?S = "unat (kGuardSize + kStackSize)"
  have ok: "length (ti_raw i) < 2 ^ 63" "sched_wf (ft_sched x)" using wf init by (auto simp: tls_wf_def)
  note rb = reserve_bounds [OF ok(1)]
  have region: "unat region + ?S < 2 ^ 64" using map(2) by (simp add: stack_fresh_def)
  obtain g s' where sp: "spawn_reserved mm name fn (reserve_bytes i) (ft_sched ?x1) = (?h, s')" "sched_wf s'"
    "gs_threads s' = gs_threads (ft_sched x) @ [g]" "gt_handle g = ?h" "gt_stack_base g = Some region"
    "stack_top_reserve ?h s' = Some (Some (region + (kGuardSize + kStackSize) - reserve_bytes i))"
    "unat (region + (kGuardSize + kStackSize) - reserve_bytes i) = unat region + ?S - unat (reserve_bytes i)"
    "?h \<noteq> 0" "\<forall>g\<in>set (gs_threads (ft_sched x)). gt_handle g \<noteq> ?h"
    by (rule spawn_top [where s = "ft_sched ?x1" and mm = mm, unfolded hook_once_frame, OF ok(2) map(1) room fits rb(2) region])
  define tp where "tp = region + (kGuardSize + kStackSize) - reserve_bytes i"
  define b where "b = \<lparr>tb_array = tp, tb_data = tp + array_bytes, tb_size = init_size i\<rparr>"
  define x' where "x' = record_attach ?h (if ft_main_seen x then kReasonThreadAttach else kReasonProcessAttach) i
    (?x1\<lparr>ft_sched := s', ft_mem := write_block i tp (ft_mem x), ft_blocks := ft_blocks x @ [(?h, b)], ft_main_seen := True\<rparr>)"
  have run: "spawn_with_tls mm name fn x = Some (?h, x')"
    using sp(1,6,8) by (simp add: spawn_with_tls_def init Let_def tls_install_def hook_once_frame x'_def b_def tp_def)
  have tp: "unat tp = unat region + ?S - unat (reserve_bytes i)" using sp(7) by (simp add: tp_def)
  have small: "unat (reserve_bytes i) \<le> unat kStackSize - unat kMinUsable" using fits by (simp add: word_le_nat_alt stack_sizes)
  have bounds: "unat region \<le> unat tp" "block_end b \<le> unat region + ?S"
    using rb(1) small by (simp_all add: tp block_end_def b_def stack_sizes)
  have "in_stack g b" using sp(5) region small bounds(2) by (auto simp: in_stack_def b_def tp stack_sizes)
  with bounds show ?thesis
    by (intro that [of ?h x' g b, OF run refl] sp(9) sp(4))
      (simp_all add: x'_def record_attach_eq hook_once_frame init sp(2,3) b_def)
qed

text \<open>The first \<open>spawn_with_tls\<close> leaves the detach recorder as the only finish hook: an observer
  installed before, such as the kernel's, is no longer called.\<close>

lemma spawn_drops_other_hooks:
  assumes "\<not> ft_hook_installed x" "ft_init x = Some i" "spawn_with_tls mm name fn x = Some (h, x')"
  shows "gs_finish_hooks (ft_sched x') = [TlsDetach]"
proof -
  have hooks: "gs_finish_hooks (snd (spawn_reserved mm name fn r s)) = gs_finish_hooks s" for r and s :: "'a guest_scheduler"
    by (auto simp: spawn_reserved_def Let_def split: option.splits)
  have "gs_finish_hooks (ft_sched (hook_once x)) = [TlsDetach]" using assms(1) by (simp add: hook_once_def set_on_finish_def)
  moreover obtain f s where "spawn_reserved mm name fn (reserve_bytes i) (ft_sched (hook_once x)) = (f, s)" by fastforce
  ultimately show ?thesis using assms(2,3) hooks [of "reserve_bytes i" "ft_sched (hook_once x)"]
    by (auto simp: spawn_with_tls_def Let_def tls_install_def record_attach_eq split: if_splits option.splits)
qed

section \<open>Properties\<close>

text \<open>(C23) Every fiber gets its own storage. When the payload fits and the host
  maps a fresh stack, \<open>spawn_with_tls\<close> returns the new fiber; its block lies inside that fiber's own
  stack mapping, above the guard page and the minimum of usable stack; slot \<open>index\<close> of the array
  holds the address of the data area and the other 63 slots are null; the data area is the template
  followed by zeros; no byte of the block of an earlier fiber changes; the notifications are recorded
  in table order, as process attach for the first fiber and thread attach afterwards.\<close>

theorem tls_spawn_isolated:
  assumes wf: "tls_wf x" and init: "ft_init x = Some i" and fits: "reserve_bytes i \<le> kStackSize - kMinUsable"
    and map: "mm (gs_next_handle (ft_sched x)) = Some region" "stack_fresh region (ft_sched x)"
    and room: "Suc (Suc (length (gs_threads (ft_sched x)))) < 2 ^ 64"
  shows "\<exists>x' h b g. spawn_with_tls mm name fn x = Some (h, x') \<and> h = gs_next_handle (ft_sched x) \<and> tls_wf x' \<and>
    find_block h (ft_blocks x') = Some b \<and> block_holds i b (ft_mem x') \<and>
    g \<in> set (gs_threads (ft_sched x')) \<and> gt_handle g = h \<and> in_stack g b \<and>
    (\<forall>f c. find_block f (ft_blocks x) = Some c \<longrightarrow> find_block f (ft_blocks x') = Some c \<and>
       load_bytes (512 + unat (tb_size c)) (tb_array c) (ft_mem x') = load_bytes (512 + unat (tb_size c)) (tb_array c) (ft_mem x)) \<and>
    ft_events x' = ft_events x @ map (\<lambda>cb. \<lparr>te_fiber = h, te_callback = cb,
       te_reason = (if ft_main_seen x then kReasonThreadAttach else kReasonProcessAttach)\<rparr>)
       (if ti_callbacks i = [] then [0] else ti_callbacks i)"
proof (rule spawn_with_tls_effect [where name = name and fn = fn and mm = mm, OF assms], goal_cases)
  case (1 x' b g h)
  let ?S = "unat (kGuardSize + kStackSize)"
  have ok: "unat (ti_index i) < kSlots" "length (ti_raw i) < 2 ^ 63" using wf init by (auto simp: tls_wf_def)
  have region: "unat region + ?S < 2 ^ 64" using map(2) by (simp add: stack_fresh_def)
  have size: "tb_size b = init_size i" using 1(11) by (metis tls_block.select_convs(3))
  have fit: "unat (tb_array b) + 512 + unat (init_size i) \<le> unat region + ?S" using 1(13) by (simp add: block_end_def size)
  note wb = write_block_holds [OF ok(2,1), where tp = "tb_array b" and m = "ft_mem x"]
  have holds: "block_holds i b (ft_mem x')" using wb(1) fit region 1(8,11) by simp
  have new: "h \<notin> fst ` set (ft_blocks x)" using wf 1(7) by (fastforce simp: tls_wf_def)
  have "load_bytes (512 + unat (tb_size c)) (tb_array c) (ft_mem x') = load_bytes (512 + unat (tb_size c)) (tb_array c) (ft_mem x)"
    if fc: "(f, c) \<in> set (ft_blocks x)" for f c
  proof -
    from wf fc obtain g' where "g' \<in> set (gs_threads (ft_sched x))" "in_stack g' c" by (fastforce simp: tls_wf_def)
    then obtain base where "gt_stack_base g' = Some base" "unat base + ?S < 2 ^ 64" "unat base \<le> unat (tb_array c)"
      "block_end c \<le> unat base + ?S" "unat base + ?S \<le> unat region \<or> unat region + ?S \<le> unat base"
      using map(2) by (fastforce simp: in_stack_def stack_fresh_def)
    then have "unat (tb_array c) + (512 + unat (tb_size c)) \<le> unat (tb_array b) \<or> unat (tb_array b) + 512 + unat (init_size i) \<le> unat (tb_array c)"
      "unat (tb_array c) + (512 + unat (tb_size c)) \<le> 2 ^ 64" using fit 1(12) by (auto simp: block_end_def)
    then show ?thesis using wb(2) fit region by (simp add: 1(8))
  qed
  then have others: "\<forall>f c. find_block f (ft_blocks x) = Some c \<longrightarrow> find_block f (ft_blocks x') = Some c \<and>
      load_bytes (512 + unat (tb_size c)) (tb_array c) (ft_mem x') = load_bytes (512 + unat (tb_size c)) (tb_array c) (ft_mem x)"
    using new by (auto simp: 1(9) find_block_snoc dest: find_block_mem intro: rev_image_eqI)
  have "tls_wf x'" using wf 1(3-6) new ok by (auto simp: tls_wf_def 1(9,10))
  moreover have "find_block h (ft_blocks x') = Some b" using new by (simp add: 1(9) find_block_snoc)
  ultimately show ?thesis using 1(1,2,4-6,14) holds others
    by (intro exI [of _ x'] exI [of _ h] exI [of _ b] exI [of _ g]) simp
qed

definition demo_tls :: "unit fiber_tls" where
  "demo_tls = set_init \<lparr>ti_raw = [1, 2, 3], ti_zero_fill = 5, ti_index = 0, ti_callbacks = [0x11000, 0x12000]\<rparr>
     (FiberTls (add_finish_hook (Some KrnlFinish) GuestScheduler) (\<lambda>_. 0xCC))"

theorem tls_spawn_isolated_witness:
  "\<exists>x' b. spawn_with_tls (\<lambda>_. Some 0x7F0000000000) ''main'' () demo_tls = Some (1, x') \<and>
     find_block 1 (ft_blocks x') = Some b \<and> load_bytes (unat (tb_size b)) (tb_data b) (ft_mem x') = [1, 2, 3, 0, 0, 0, 0, 0]"
proof -
  let ?i = "\<lparr>ti_raw = [1, 2, 3], ti_zero_fill = 5, ti_index = 0, ti_callbacks = [0x11000, 0x12000]\<rparr>"
  have x: "ft_init demo_tls = Some ?i" "ft_blocks demo_tls = []" "gs_threads (ft_sched demo_tls) = []"
    "gs_next_handle (ft_sched demo_tls) = 1" "sched_wf (ft_sched demo_tls)"
    by (simp_all add: demo_tls_def set_init_def FiberTls_def kSlots_def GuestScheduler_def add_finish_hook_def sched_wf_def)
  have wf: "tls_wf demo_tls" using x by (simp add: tls_wf_def kSlots_def)
  have r: "reserve_bytes ?i \<le> kStackSize - kMinUsable" by code_simp
  have f: "stack_fresh 0x7F0000000000 (ft_sched demo_tls)" using x by (simp add: stack_fresh_def stack_sizes)
  have z: "replicate (unat (5 :: u32)) (0 :: u8) = [0, 0, 0, 0, 0]" by code_simp
  from tls_spawn_isolated [where mm = "\<lambda>_. Some 0x7F0000000000", OF wf x(1) r refl f, of "''main''" "()"] show ?thesis
    using x z by (auto simp: block_holds_def)
qed

end
