(* ===== verification/Vk_Host.thy ===== *)
theory Vk_Host
  imports Prelude "HOL-Library.State_Monad"
begin

text \<open>
  The Vulkan loader and driver as the renderer sources use them. They are not part of the
  repository: what a call returns is the parameter \<open>vk_results\<close>, the outcome of the \<open>n\<close>-th fallible
  call (\<open>None\<close> an error, \<open>Some h\<close> success, with the handle \<open>h\<close> where the call creates an object), and
  \<open>vk_gpus\<close> describes the physical devices and \<open>vk_queue_of\<close> gives the queue of a device. The state keeps a ledger of the objects that are alive,
  the commands recorded in command buffers, the commands submitted to the queue, and whether an
  object was destroyed that is not alive. A failing creation leaves the output handle null.
  \<open>vk_ok\<close> states the documented behaviour the sources rely on: handles are not null and name
  objects uniquely.
\<close>

named_theorems vk_wps \<open>weakest precondition rules of host calls\<close>

section \<open>State\<close>

datatype vk_kind = VkInstance | VkDevice | VkCommandPool | VkBuffer | VkImage | VkDeviceMemory | VkCommandBuffer | VkFence
  | VkDescriptorSetLayout | VkDescriptorPool | VkPipelineLayout | VkSurface | VkSwapchain | VkSemaphore | GlfwWindow

type_synonym vk_obj = "vk_kind \<times> u64"

datatype vk_layout = LayoutUndefined | LayoutTransferDst | LayoutTransferSrc | LayoutShaderRead | LayoutPresent | LayoutOther

datatype vk_stage = StageTop | StageTransfer | StageFragment | StageBottom

datatype vk_cmd = CmdFill u64 u64 u32 | CmdCopy u64 u64 u64 | CmdUpdateSet u32 u64 u64
  | CmdBarrier u64 vk_layout vk_layout "bool \<times> bool \<times> bool" "bool \<times> bool \<times> bool" vk_stage vk_stage
  | CmdClear u64 "u32 list" | CmdCopyImage u64 u64 u32 u32 | CmdCopyToImage u64 u64 u32 u32

record phys_dev =
  pd_handle :: u64
  pd_discrete :: bool
  pd_vendor :: u32
  pd_name :: string
  pd_graphics :: "bool list"
  pd_types :: "u32 list"
  pd_heaps :: "(bool \<times> u64) list"

record vk =
  vk_results :: "nat \<Rightarrow> u64 option"
  vk_gpus :: "phys_dev list"
  vk_queue_of :: "u64 \<Rightarrow> u64"
  vk_calls :: nat
  vk_live :: "vk_obj list"
  vk_misuse :: bool
  vk_recorded :: "u64 \<Rightarrow> vk_cmd list"
  vk_submitted :: "vk_cmd list"
  vk_memory :: "u64 \<Rightarrow> u32 list"

section \<open>Calls\<close>

text \<open>\<open>vk_call k\<close> makes a fallible call that creates an object of kind \<open>k\<close> (\<open>None\<close>: no object).\<close>

definition vk_call :: "vk_kind option \<Rightarrow> 'z vk_scheme \<Rightarrow> u64 option \<times> 'z vk_scheme" where
  "vk_call k v =
     (let r = vk_results v (vk_calls v); v1 = v\<lparr>vk_calls := Suc (vk_calls v)\<rparr> in
      (r, case (k, r) of (Some kind, Some h) \<Rightarrow> v1\<lparr>vk_live := (kind, h) # vk_live v\<rparr> | _ \<Rightarrow> v1))"

definition vk_create :: "vk_kind \<Rightarrow> ('z vk_scheme, u64 option) state" where
  "vk_create k = State (vk_call (Some k))"

text \<open>A call that returns a handle whose object is freed with its pool.\<close>

definition vk_handle :: "('z vk_scheme, u64 option) state" where
  "vk_handle = State (vk_call None)"

definition vk_try :: "('z vk_scheme, bool) state" where
  "vk_try = State (\<lambda>v. case vk_call None v of (r, v1) \<Rightarrow> (r \<noteq> None, v1))"

definition vk_destroy :: "vk_kind \<Rightarrow> u64 \<Rightarrow> ('z vk_scheme, unit) state" where
  "vk_destroy k h = State (\<lambda>v. ((), v\<lparr>vk_live := removeAll (k, h) (vk_live v),
     vk_misuse := (vk_misuse v \<or> (k, h) \<notin> set (vk_live v))\<rparr>))"

definition vk_when :: "bool \<Rightarrow> ('z vk_scheme, unit) state \<Rightarrow> ('z vk_scheme, unit) state" where
  "vk_when b m = (if b then m else State_Monad.return ())"

text \<open>Queries that cannot fail: what the host knows is read, never changed.\<close>

definition vk_ask :: "('z vk_scheme \<Rightarrow> 'a) \<Rightarrow> ('z vk_scheme, 'a) state" where
  "vk_ask f = State (\<lambda>v. (f v, v))"

text \<open>Writes of the program to mapped memory.\<close>

definition vk_store :: "u64 \<Rightarrow> u32 list \<Rightarrow> ('z vk_scheme, unit) state" where
  "vk_store mem ws = State (\<lambda>v. ((), v\<lparr>vk_memory := (vk_memory v)(mem := ws)\<rparr>))"

definition vk_record :: "u64 \<Rightarrow> vk_cmd \<Rightarrow> ('z vk_scheme, unit) state" where
  "vk_record cb c = State (\<lambda>v. ((), v\<lparr>vk_recorded := (vk_recorded v)(cb := vk_recorded v cb @ [c])\<rparr>))"

text \<open>\<open>vkUpdateDescriptorSets\<close> takes effect at once.\<close>

definition vk_update_set :: "u32 \<Rightarrow> u64 \<Rightarrow> u64 \<Rightarrow> ('z vk_scheme, unit) state" where
  "vk_update_set binding buf n = State (\<lambda>v. ((), v\<lparr>vk_submitted := vk_submitted v @ [CmdUpdateSet binding buf n]\<rparr>))"

text \<open>\<open>vkBeginCommandBuffer\<close> empties the buffer; \<open>vkQueueSubmit\<close> hands its commands to the queue.\<close>

definition vk_begin :: "u64 \<Rightarrow> ('z vk_scheme, bool) state" where
  "vk_begin cb = do { ok \<leftarrow> vk_try; if ok then State (\<lambda>v. (True, v\<lparr>vk_recorded := (vk_recorded v)(cb := [])\<rparr>)) else State_Monad.return False }"

definition vk_queue_submit :: "u64 \<Rightarrow> ('z vk_scheme, bool) state" where
  "vk_queue_submit cb = do { ok \<leftarrow> vk_try;
     if ok then State (\<lambda>v. (True, v\<lparr>vk_submitted := vk_submitted v @ vk_recorded v cb\<rparr>)) else State_Monad.return False }"

section \<open>Sound host states\<close>

definition vk_ok :: "'z vk_scheme \<Rightarrow> bool" where
  "vk_ok v \<longleftrightarrow> \<not> vk_misuse v \<and>
     (\<forall>n h. vk_calls v \<le> n \<and> vk_results v n = Some h \<longrightarrow> h \<noteq> 0 \<and> (\<forall>k. (k, h) \<notin> set (vk_live v)) \<and>
        (\<forall>m. vk_calls v \<le> m \<and> vk_results v m = Some h \<longrightarrow> m = n))"

lemma vk_ok_fresh:
  assumes "vk_ok v" "vk_calls v \<le> n" "vk_results v n = Some h"
  shows "h \<noteq> 0" "(k, h) \<notin> set (vk_live v)" "vk_calls v \<le> m \<Longrightarrow> vk_results v m = Some h \<Longrightarrow> m = n"
  using assms unfolding vk_ok_def by blast+

lemma vk_ok_fewer:
  "vk_ok v \<Longrightarrow> (\<And>n h. r n = Some h \<Longrightarrow> vk_results v n = Some h) \<Longrightarrow> vk_ok (v\<lparr>vk_results := r\<rparr>)"
  by (auto simp: vk_ok_def; blast)

text \<open>The ledger after later calls: what is known of future handles survives when the live objects
  shrink or grow by an object whose handle has been used up.\<close>

lemma vk_ok_step:
  assumes "vk_ok v" "vk_calls v \<le> vk_calls v1" "vk_results v1 = vk_results v" "\<not> vk_misuse v1"
    "\<And>k h n. (k, h) \<in> set (vk_live v1) \<Longrightarrow> vk_calls v1 \<le> n \<Longrightarrow> vk_results v n = Some h \<Longrightarrow> (k, h) \<in> set (vk_live v)"
  shows "vk_ok v1"
  unfolding vk_ok_def
proof (intro conjI allI impI)
  show "\<not> vk_misuse v1" by (fact assms(4))
  fix n h assume nh: "vk_calls v1 \<le> n \<and> vk_results v1 n = Some h"
  then have n: "vk_calls v \<le> n" "vk_results v n = Some h" using assms(2,3) by auto
  show "h \<noteq> 0" by (rule vk_ok_fresh(1) [OF assms(1) n])
  show "(k, h) \<notin> set (vk_live v1)" for k
    using vk_ok_fresh(2) [OF assms(1) n, of k] assms(5) [of k h n] nh n(2) by blast
  show "m = n" if "vk_calls v1 \<le> m \<and> vk_results v1 m = Some h" for m
    using vk_ok_fresh(3) [OF assms(1) n, of m] that assms(2,3) by auto
qed

section \<open>Weakest preconditions\<close>

text \<open>\<open>vk_wp m Q v\<close>: run from a sound host state \<open>v\<close>, \<open>m\<close> leaves a sound state in which the result
  satisfies \<open>Q\<close>. In particular no object is destroyed that is not alive. The rules compute the
  precondition of a program from its text.\<close>

definition vk_wp :: "('z vk_scheme, 'a) state \<Rightarrow> ('a \<Rightarrow> 'z vk_scheme \<Rightarrow> bool) \<Rightarrow> 'z vk_scheme \<Rightarrow> bool" where
  "vk_wp m Q v \<longleftrightarrow> (vk_ok v \<longrightarrow> (\<forall>a v1. run_state m v = (a, v1) \<longrightarrow> vk_ok v1 \<and> Q a v1))"

lemma vk_wpI: "(\<And>a v1. vk_ok v \<Longrightarrow> run_state m v = (a, v1) \<Longrightarrow> vk_ok v1 \<and> Q a v1) \<Longrightarrow> vk_wp m Q v"
  unfolding vk_wp_def by (intro allI impI)

lemma vk_wpD:
  assumes "vk_wp m Q v" "vk_ok v" "run_state m v = (a, v1)"
  shows "vk_ok v1 \<and> Q a v1"
  by (rule assms(1) [unfolded vk_wp_def, THEN mp, OF assms(2), THEN spec, THEN spec, THEN mp, OF assms(3)])

lemma vk_wp_return [vk_wps]: "Q a v \<Longrightarrow> vk_wp (State_Monad.return a) Q v"
  by (rule vk_wpI) simp

lemma vk_wp_bind [vk_wps]:
  assumes "vk_wp m (\<lambda>a. vk_wp (f a) Q) v" shows "vk_wp (State_Monad.bind m f) Q v"
proof (rule vk_wpI)
  fix b v2 assume ok: "vk_ok v" and run: "run_state (State_Monad.bind m f) v = (b, v2)"
  obtain a v1 where a: "run_state m v = (a, v1)" by fastforce
  with run have b: "run_state (f a) v1 = (b, v2)" by (simp add: State_Monad.bind_def)
  note 1 = vk_wpD [OF assms ok a]
  show "vk_ok v2 \<and> Q b v2" by (rule vk_wpD [OF conjunct2 [OF 1] conjunct1 [OF 1] b])
qed

lemma vk_wp_mono:
  assumes "vk_wp m P v" "\<And>a v1. P a v1 \<Longrightarrow> Q a v1" shows "vk_wp m Q v"
proof (rule vk_wpI)
  fix a v1 assume "vk_ok v" "run_state m v = (a, v1)"
  from vk_wpD [OF assms(1) this] assms(2) show "vk_ok v1 \<and> Q a v1" by blast
qed

lemma vk_wp_if [vk_wps]:
  "(b \<Longrightarrow> vk_wp m Q v) \<Longrightarrow> (\<not> b \<Longrightarrow> vk_wp n Q v) \<Longrightarrow> vk_wp (if b then m else n) Q v"
  by simp

lemma vk_wp_when [vk_wps]: "(b \<Longrightarrow> vk_wp m Q v) \<Longrightarrow> (\<not> b \<Longrightarrow> Q () v) \<Longrightarrow> vk_wp (vk_when b m) Q v"
  by (auto simp: vk_when_def intro: vk_wp_return)

lemma vk_wp_option [vk_wps]:
  "(r = None \<Longrightarrow> vk_wp m Q v) \<Longrightarrow> (\<And>h. r = Some h \<Longrightarrow> vk_wp (n h) Q v) \<Longrightarrow>
     vk_wp (case r of None \<Rightarrow> m | Some h \<Rightarrow> n h) Q v"
  by (cases r) simp_all

lemma vk_wp_create [vk_wps]:
  assumes "Q None (v\<lparr>vk_calls := Suc (vk_calls v)\<rparr>)"
    "\<And>h. h \<noteq> 0 \<Longrightarrow> \<forall>k. (k, h) \<notin> set (vk_live v) \<Longrightarrow> Q (Some h) (v\<lparr>vk_calls := Suc (vk_calls v), vk_live := (k, h) # vk_live v\<rparr>)"
  shows "vk_wp (vk_create k) Q v"
proof (rule vk_wpI)
  fix r v1 assume ok: "vk_ok v" and run: "run_state (vk_create k) v = (r, v1)"
  show "vk_ok v1 \<and> Q r v1"
  proof (cases "vk_results v (vk_calls v)")
    case None
    with run have e: "r = None" "v1 = v\<lparr>vk_calls := Suc (vk_calls v)\<rparr>" by (auto simp: vk_create_def vk_call_def Let_def)
    have "vk_ok v1" by (rule vk_ok_step [OF ok]) (use ok e in \<open>auto simp: vk_ok_def\<close>)
    then show ?thesis using assms(1) e by simp
  next
    case (Some h)
    with run have e: "r = Some h" "v1 = v\<lparr>vk_calls := Suc (vk_calls v), vk_live := (k, h) # vk_live v\<rparr>"
      by (auto simp: vk_create_def vk_call_def Let_def)
    note f = vk_ok_fresh [OF ok order_refl Some]
    have "vk_ok v1"
    proof (rule vk_ok_step [OF ok])
      fix k' h' n assume n: "(k', h') \<in> set (vk_live v1)" "vk_calls v1 \<le> n" "vk_results v n = Some h'"
      then have "h' \<noteq> h" using f(3) [of n] by (auto simp: e)
      then show "(k', h') \<in> set (vk_live v)" using n(1) by (simp add: e)
    qed (use ok in \<open>simp_all add: e vk_ok_def\<close>)
    then show ?thesis using assms(2) f(1,2) e by simp
  qed
qed

lemma vk_wp_quiet:
  assumes "\<And>a v1. run_state m v = (a, v1) \<Longrightarrow> vk_calls v \<le> vk_calls v1 \<and> vk_results v1 = vk_results v \<and>
      vk_misuse v1 = vk_misuse v \<and> set (vk_live v1) \<subseteq> set (vk_live v) \<and> Q a v1"
  shows "vk_wp m Q v"
proof (rule vk_wpI)
  fix a v1 assume ok: "vk_ok v" and "run_state m v = (a, v1)"
  note f = assms [OF this(2)]
  have "vk_ok v1" by (rule vk_ok_step [OF ok]) (use f ok in \<open>auto simp: vk_ok_def\<close>)
  then show "vk_ok v1 \<and> Q a v1" using f by simp
qed

lemma vk_wp_try [vk_wps]: "(\<And>b. Q b (v\<lparr>vk_calls := Suc (vk_calls v)\<rparr>)) \<Longrightarrow> vk_wp vk_try Q v"
  by (rule vk_wp_quiet) (auto simp: vk_try_def vk_call_def Let_def)

lemma vk_wp_handle [vk_wps]:
  assumes "Q None (v\<lparr>vk_calls := Suc (vk_calls v)\<rparr>)" "\<And>h. h \<noteq> 0 \<Longrightarrow> Q (Some h) (v\<lparr>vk_calls := Suc (vk_calls v)\<rparr>)"
  shows "vk_wp vk_handle Q v"
proof (rule vk_wpI)
  fix r v1 assume ok: "vk_ok v" and run: "run_state vk_handle v = (r, v1)"
  then have e: "r = vk_results v (vk_calls v)" "v1 = v\<lparr>vk_calls := Suc (vk_calls v)\<rparr>" by (auto simp: vk_handle_def vk_call_def Let_def)
  have "vk_ok v1" by (rule vk_ok_step [OF ok]) (use ok e in \<open>auto simp: vk_ok_def\<close>)
  then show "vk_ok v1 \<and> Q r v1"
    using assms vk_ok_fresh(1) [OF ok order_refl] e by (cases "vk_results v (vk_calls v)") simp_all
qed

lemma vk_wp_record [vk_wps]:
  "Q () (v\<lparr>vk_recorded := (vk_recorded v)(cb := vk_recorded v cb @ [c])\<rparr>) \<Longrightarrow> vk_wp (vk_record cb c) Q v"
  by (rule vk_wp_quiet) (auto simp: vk_record_def)

lemma vk_wp_update_set [vk_wps]:
  "Q () (v\<lparr>vk_submitted := vk_submitted v @ [CmdUpdateSet b bf n]\<rparr>) \<Longrightarrow> vk_wp (vk_update_set b bf n) Q v"
  by (rule vk_wp_quiet) (auto simp: vk_update_set_def)

lemma vk_wp_begin [vk_wps]:
  "Q False (v\<lparr>vk_calls := Suc (vk_calls v)\<rparr>) \<Longrightarrow>
   Q True (v\<lparr>vk_calls := Suc (vk_calls v), vk_recorded := (vk_recorded v)(cb := [])\<rparr>) \<Longrightarrow> vk_wp (vk_begin cb) Q v"
  by (rule vk_wp_quiet) (auto simp: vk_begin_def State_Monad.bind_def vk_try_def vk_call_def Let_def split: if_splits)

lemma vk_wp_queue_submit [vk_wps]:
  "Q False (v\<lparr>vk_calls := Suc (vk_calls v)\<rparr>) \<Longrightarrow>
   Q True (v\<lparr>vk_calls := Suc (vk_calls v), vk_submitted := vk_submitted v @ vk_recorded v cb\<rparr>) \<Longrightarrow> vk_wp (vk_queue_submit cb) Q v"
  by (rule vk_wp_quiet) (auto simp: vk_queue_submit_def State_Monad.bind_def vk_try_def vk_call_def Let_def split: if_splits)

lemma vk_wp_destroy [vk_wps]:
  "(k, h) \<in> set (vk_live v) \<Longrightarrow> Q () (v\<lparr>vk_live := removeAll (k, h) (vk_live v), vk_misuse := vk_misuse v\<rparr>) \<Longrightarrow> vk_wp (vk_destroy k h) Q v"
  by (rule vk_wp_quiet) (auto simp: vk_destroy_def)

lemma vk_wp_ask [vk_wps]: "Q (f v) v \<Longrightarrow> vk_wp (vk_ask f) Q v"
  by (rule vk_wp_quiet) (auto simp: vk_ask_def)

lemma vk_wp_store [vk_wps]: "Q () (v\<lparr>vk_memory := (vk_memory v)(mem := ws)\<rparr>) \<Longrightarrow> vk_wp (vk_store mem ws) Q v"
  by (rule vk_wp_quiet) (auto simp: vk_store_def)

end
