(* ===== verification/Vulkan_Dev.thy ===== *)
theory Vulkan_Dev
  imports Vk_Host
begin

text \<open>
  Device selection, creation and raw allocation (\<open>src/src/vulkan_alloc.cpp\<close>,
  \<open>src/include/vulkan_alloc.h\<close>) and the heap query (\<open>src/src/vulkan_heaps.cpp\<close>,
  \<open>src/include/vulkan_heaps.h\<close>) over the host model of \<open>Vk_Host\<close>. The structures the sources fill in
  through pointers are returned. \<open>vkEnumeratePhysicalDevices\<close> with an array smaller than the number
  of devices returns \<open>VK_INCOMPLETE\<close>, which is not \<open>VK_SUCCESS\<close>.
\<close>

section \<open>Data\<close>

definition U32_MAX :: u32 where "U32_MAX = 0xFFFFFFFF"
definition DEVICE_LOCAL :: u32 where "DEVICE_LOCAL = 1"
definition HOST_VISIBLE :: u32 where "HOST_VISIBLE = 2"
definition HOST_COHERENT :: u32 where "HOST_COHERENT = 4"

definition has_flag :: "u32 \<Rightarrow> u32 \<Rightarrow> bool" where
  "has_flag f b \<longleftrightarrow> f AND b \<noteq> 0"

record vulkan_dev =
  vd_inst :: u64
  vd_phys :: "phys_dev option"
  vd_dev :: u64
  vd_queue :: u64
  vd_cmd_pool :: u64
  vd_queue_family :: u32
  vd_fast_type :: u32
  vd_slow_type :: u32
  vd_fast_mappable :: bool
  vd_device_name :: string
  vd_valid :: bool

definition VulkanDev :: vulkan_dev where
  "VulkanDev = \<lparr>vd_inst = 0, vd_phys = None, vd_dev = 0, vd_queue = 0, vd_cmd_pool = 0, vd_queue_family = 0,
     vd_fast_type = U32_MAX, vd_slow_type = U32_MAX, vd_fast_mappable = False, vd_device_name = [], vd_valid = False\<rparr>"

definition dev_types :: "vulkan_dev \<Rightarrow> u32 list" where
  "dev_types d = (case vd_phys d of None \<Rightarrow> [] | Some p \<Rightarrow> pd_types p)"

section \<open>Choosing a device\<close>

definition better_gpu :: "phys_dev \<Rightarrow> phys_dev option \<Rightarrow> phys_dev option" where
  "better_gpu p c =
     (if pd_discrete p \<and> (case c of None \<Rightarrow> True | Some q \<Rightarrow> pd_vendor p = 0x1002 \<and> pd_vendor q \<noteq> 0x1002)
      then Some p else c)"

definition choose_gpu :: "phys_dev list \<Rightarrow> phys_dev" where
  "choose_gpu devs = (case fold better_gpu devs None of None \<Rightarrow> devs ! 0 | Some p \<Rightarrow> p)"

definition enumerate_gpus :: "(vk, phys_dev list option) state" where
  "enumerate_gpus = do {
     ok \<leftarrow> vk_try;
     devs \<leftarrow> vk_ask vk_gpus;
     if \<not> ok \<or> devs = [] then State_Monad.return None
     else do {
       ok2 \<leftarrow> vk_try;
       let query_count = (if length devs > 8 then 8 else length devs);
       State_Monad.return (if ok2 \<and> query_count = length devs then Some (take query_count devs) else None)
     } }"

definition pick_gpu :: "(vk, phys_dev option) state" where
  "pick_gpu = do {
     devs \<leftarrow> enumerate_gpus;
     State_Monad.return (map_option choose_gpu devs) }"

fun first_index :: "('a \<Rightarrow> bool) \<Rightarrow> nat \<Rightarrow> 'a list \<Rightarrow> nat option" where
  "first_index P i [] = None"
| "first_index P i (x # xs) = (if P x then Some i else first_index P (Suc i) xs)"

definition find_queue_family :: "phys_dev \<Rightarrow> u32" where
  "find_queue_family p =
     (case first_index id 0 (take 16 (pd_graphics p)) of None \<Rightarrow> 0 | Some i \<Rightarrow> of_nat i)"

section \<open>Choosing memory types\<close>

definition fast_type :: "u32 list \<Rightarrow> u32" where
  "fast_type ts =
     (case first_index (\<lambda>f. has_flag f DEVICE_LOCAL \<and> \<not> has_flag f HOST_VISIBLE) 0 ts of
        Some i \<Rightarrow> of_nat i
      | None \<Rightarrow> (case first_index (\<lambda>f. has_flag f DEVICE_LOCAL \<and> has_flag f HOST_VISIBLE) 0 ts of
          Some i \<Rightarrow> of_nat i | None \<Rightarrow> U32_MAX))"

fun slow_scan :: "nat \<Rightarrow> u32 \<Rightarrow> u32 list \<Rightarrow> u32" where
  "slow_scan i cur [] = cur"
| "slow_scan i cur (f # fs) =
     (if has_flag f HOST_VISIBLE \<and> has_flag f HOST_COHERENT then
        if \<not> has_flag f DEVICE_LOCAL then of_nat i
        else slow_scan (Suc i) (if cur = U32_MAX then of_nat i else cur) fs
      else slow_scan (Suc i) cur fs)"

definition slow_type :: "u32 list \<Rightarrow> u32" where
  "slow_type ts = slow_scan 0 U32_MAX ts"

section \<open>Device creation and destruction\<close>

definition vulkan_dev_init :: "(vk, bool \<times> vulkan_dev) state" where
  "vulkan_dev_init = do {
     let d = VulkanDev;
     inst \<leftarrow> vk_create VkInstance;
     case inst of None \<Rightarrow> State_Monad.return (False, d)
     | Some i \<Rightarrow> do {
         phys \<leftarrow> pick_gpu;
         case phys of
           None \<Rightarrow> do { vk_destroy VkInstance i; State_Monad.return (False, d) }
         | Some p \<Rightarrow> do {
             let d1 = d\<lparr>vd_inst := i, vd_phys := Some p, vd_device_name := pd_name p, vd_queue_family := find_queue_family p\<rparr>;
             dev \<leftarrow> vk_create VkDevice;
             case dev of
               None \<Rightarrow> do { vk_destroy VkInstance i; State_Monad.return (False, d1\<lparr>vd_inst := 0\<rparr>) }
             | Some g \<Rightarrow> do {
                 q \<leftarrow> vk_ask (\<lambda>v. vk_queue_of v g);
                 let d2 = d1\<lparr>vd_dev := g, vd_queue := q\<rparr>;
                 pool \<leftarrow> vk_create VkCommandPool;
                 case pool of
                   None \<Rightarrow> do { vk_destroy VkDevice g; vk_destroy VkInstance i; State_Monad.return (False, d2\<lparr>vd_dev := 0, vd_inst := 0\<rparr>) }
                 | Some c \<Rightarrow> do {
                     let ft = fast_type (pd_types p);
                     let st = slow_type (pd_types p);
                     let d3 = d2\<lparr>vd_cmd_pool := c, vd_fast_type := ft, vd_slow_type := st\<rparr>;
                     if ft = U32_MAX \<or> st = U32_MAX then do {
                       vk_destroy VkDevice g; vk_destroy VkInstance i;
                       State_Monad.return (False, d3\<lparr>vd_dev := 0, vd_inst := 0\<rparr>) }
                     else State_Monad.return (True, d3\<lparr>vd_fast_mappable := has_flag (pd_types p ! unat ft) HOST_VISIBLE, vd_valid := True\<rparr>)
                   } } } } }"

definition vulkan_dev_shutdown :: "vulkan_dev \<Rightarrow> (vk, vulkan_dev) state" where
  "vulkan_dev_shutdown d = do {
     vk_when (vd_dev d \<noteq> 0 \<and> vd_cmd_pool d \<noteq> 0) (vk_destroy VkCommandPool (vd_cmd_pool d));
     vk_when (vd_dev d \<noteq> 0) (vk_destroy VkDevice (vd_dev d));
     vk_when (vd_inst d \<noteq> 0) (vk_destroy VkInstance (vd_inst d));
     State_Monad.return VulkanDev }"

definition vulkan_alloc :: "vulkan_dev \<Rightarrow> (vk, u64 option) state" where
  "vulkan_alloc d = (if \<not> vd_valid d then State_Monad.return None else vk_create VkDeviceMemory)"

text \<open>Writing a pattern through a mapping and reading it back; the flushes for memory that is not
  coherent make host writes visible to host reads, which they are anyway.\<close>

definition vulkan_write_read :: "vulkan_dev \<Rightarrow> u64 \<Rightarrow> u64 \<Rightarrow> u32 \<Rightarrow> u32 \<Rightarrow> (vk, bool) state" where
  "vulkan_write_read d mem n type_index pattern =
     (if unat type_index \<ge> length (dev_types d) then State_Monad.return False
      else if \<not> has_flag (dev_types d ! unat type_index) HOST_VISIBLE then State_Monad.return False
      else do {
        ok \<leftarrow> vk_try;
        if \<not> ok then State_Monad.return False
        else do {
          let want = map (\<lambda>i. pattern XOR of_nat i) [0..<unat (n div 4)];
          vk_store mem want;
          got \<leftarrow> vk_ask (\<lambda>v. vk_memory v mem);
          State_Monad.return (got = want)
        } })"

section \<open>Heap query\<close>

record heap_info =
  hi_device_name :: string
  hi_vram_bytes :: u64
  hi_gtt_bytes :: u64
  hi_rebar :: bool
  hi_found :: bool

definition VulkanHeapInfo :: heap_info where
  "VulkanHeapInfo = \<lparr>hi_device_name = [], hi_vram_bytes = 0, hi_gtt_bytes = 0, hi_rebar = False, hi_found = False\<rparr>"

definition vulkan_device_available :: "(vk, bool) state" where
  "vulkan_device_available = do {
     inst \<leftarrow> vk_create VkInstance;
     case inst of None \<Rightarrow> State_Monad.return False
     | Some i \<Rightarrow> do {
         ok \<leftarrow> vk_try;
         devs \<leftarrow> vk_ask vk_gpus;
         vk_destroy VkInstance i;
         State_Monad.return (ok \<and> devs \<noteq> []) } }"

definition add_heap :: "bool \<times> u64 \<Rightarrow> heap_info \<Rightarrow> heap_info" where
  "add_heap h x =
     (case h of (device_local, sz) \<Rightarrow>
        if device_local then (if sz > hi_vram_bytes x then x\<lparr>hi_vram_bytes := sz\<rparr> else x)
        else (if sz > hi_gtt_bytes x then x\<lparr>hi_gtt_bytes := sz\<rparr> else x))"

definition query_vulkan_heaps :: "(vk, bool \<times> heap_info) state" where
  "query_vulkan_heaps = do {
     let out = VulkanHeapInfo;
     inst \<leftarrow> vk_create VkInstance;
     case inst of None \<Rightarrow> State_Monad.return (False, out)
     | Some i \<Rightarrow> do {
         devs \<leftarrow> enumerate_gpus;
         vk_destroy VkInstance i;
         State_Monad.return (case devs of
           None \<Rightarrow> (False, out)
         | Some ds \<Rightarrow>
             let p = choose_gpu ds; x = fold add_heap (pd_heaps p) (out\<lparr>hi_device_name := pd_name p\<rparr>) in
             (True, x\<lparr>hi_rebar := list_ex (\<lambda>f. has_flag f DEVICE_LOCAL \<and> has_flag f HOST_VISIBLE) (pd_types p), hi_found := True\<rparr>)) } }"

definition xbox_split_fits :: "heap_info \<Rightarrow> bool" where
  "xbox_split_fits h \<longleftrightarrow> hi_found h \<and> hi_vram_bytes h \<ge> push_bit 30 10 \<and> hi_gtt_bytes h \<ge> push_bit 30 6"

section \<open>Choices\<close>

lemma better_gpu_simps:
  "better_gpu p None = (if pd_discrete p then Some p else None)"
  "better_gpu p (Some q) = (if pd_discrete p \<and> pd_vendor p = 0x1002 \<and> pd_vendor q \<noteq> 0x1002 then Some p else Some q)"
  by (simp_all add: better_gpu_def)

lemma fold_better_gpu:
  "fold better_gpu ds c =
     (case c of
        None \<Rightarrow> (case find (\<lambda>p. pd_discrete p \<and> pd_vendor p = 0x1002) ds of Some p \<Rightarrow> Some p | None \<Rightarrow> find pd_discrete ds)
      | Some q \<Rightarrow> if pd_vendor q = 0x1002 then Some q
          else (case find (\<lambda>p. pd_discrete p \<and> pd_vendor p = 0x1002) ds of Some p \<Rightarrow> Some p | None \<Rightarrow> Some q))"
  by (induction ds arbitrary: c) (auto simp: better_gpu_simps split: option.split)

lemma choose_gpu_mem: "ds \<noteq> [] \<Longrightarrow> choose_gpu ds \<in> set ds"
  by (auto simp: choose_gpu_def fold_better_gpu find_Some_iff split: option.split)

lemma first_index_Some:
  "first_index P i xs = Some j \<Longrightarrow> i \<le> j \<and> j < i + length xs \<and> P (xs ! (j - i)) \<and> (\<forall>k < j - i. \<not> P (xs ! k))"
proof (induction P i xs rule: first_index.induct)
  case (2 P i x xs)
  show ?case
  proof (cases "P x")
    case False
    with 2 have ih: "Suc i \<le> j" "j < Suc i + length xs" "P (xs ! (j - Suc i))" "\<forall>k < j - Suc i. \<not> P (xs ! k)" by auto
    then have e: "j - i = Suc (j - Suc i)" by simp
    have "\<not> P ((x # xs) ! k)" if "k < j - i" for k using that ih(4) False unfolding e by (cases k) simp_all
    then show ?thesis using ih e by simp
  qed (use 2 in simp)
qed simp

lemma first_index_None: "first_index P i xs = None \<longleftrightarrow> (\<forall>x\<in>set xs. \<not> P x)"
  by (induction P i xs rule: first_index.induct) auto

lemma small_index: "i < 2 ^ 32 - 1 \<Longrightarrow> unat (of_nat i :: u32) = i \<and> (of_nat i :: u32) \<noteq> U32_MAX"
proof -
  assume i: "i < 2 ^ 32 - 1"
  then have u: "unat (of_nat i :: u32) = i" by (intro unat_of_nat_lt) simp
  moreover have "unat U32_MAX = 2 ^ 32 - 1" by (simp add: U32_MAX_def)
  ultimately show ?thesis using i by (metis nat_neq_iff)
qed

lemma fast_type_ok:
  assumes "length ts < 2 ^ 32 - 1" "fast_type ts \<noteq> U32_MAX"
  shows "unat (fast_type ts) < length ts \<and> has_flag (ts ! unat (fast_type ts)) DEVICE_LOCAL"
proof -
  obtain P i where i: "first_index P 0 ts = Some i" "fast_type ts = of_nat i" "\<And>f. P f \<Longrightarrow> has_flag f DEVICE_LOCAL"
    using assms(2) by (auto simp: fast_type_def split: option.splits)
  note f = first_index_Some [OF i(1)]
  have "unat (of_nat i :: u32) = i" using f assms(1) small_index [of i] by simp
  then show ?thesis using f i(2,3) by simp
qed

lemma slow_scan_ok:
  assumes "length (us @ fs) < 2 ^ 32 - 1" "slow_scan (length us) cur fs \<noteq> U32_MAX"
    "cur \<noteq> U32_MAX \<longrightarrow> unat cur < length (us @ fs) \<and> has_flag ((us @ fs) ! unat cur) HOST_VISIBLE \<and> has_flag ((us @ fs) ! unat cur) HOST_COHERENT"
  shows "unat (slow_scan (length us) cur fs) < length (us @ fs) \<and>
    has_flag ((us @ fs) ! unat (slow_scan (length us) cur fs)) HOST_VISIBLE \<and> has_flag ((us @ fs) ! unat (slow_scan (length us) cur fs)) HOST_COHERENT"
  using assms
proof (induction fs arbitrary: us cur)
  case (Cons f fs)
  have i: "unat (of_nat (length us) :: u32) = length us" using Cons.prems(1) small_index [of "length us"] by simp
  note ih = Cons.IH [of "us @ [f]", simplified]
  show ?case
    using Cons.prems i ih [of cur] ih [of "of_nat (length us)"] by (auto split: if_splits)
qed simp

lemma slow_type_ok:
  assumes "length ts < 2 ^ 32 - 1" "slow_type ts \<noteq> U32_MAX"
  shows "unat (slow_type ts) < length ts \<and> has_flag (ts ! unat (slow_type ts)) HOST_VISIBLE \<and> has_flag (ts ! unat (slow_type ts)) HOST_COHERENT"
  using slow_scan_ok [of "[]" ts U32_MAX] assms by (simp add: slow_type_def)

section \<open>Ledger\<close>

lemma enumerate_wp [vk_wps]:
  assumes "\<And>r n. (r = None \<or> r = Some (vk_gpus v) \<and> vk_gpus v \<noteq> []) \<Longrightarrow> Q r (v\<lparr>vk_calls := n\<rparr>)"
  shows "vk_wp enumerate_gpus Q v"
  unfolding enumerate_gpus_def Let_def by (intro vk_wps) (auto intro!: assms)

lemma pick_gpu_wp [vk_wps]:
  assumes "\<And>r n. (r = None \<or> r = Some (choose_gpu (vk_gpus v)) \<and> vk_gpus v \<noteq> []) \<Longrightarrow> Q r (v\<lparr>vk_calls := n\<rparr>)"
  shows "vk_wp pick_gpu Q v"
  unfolding pick_gpu_def by (intro vk_wps) (auto intro!: assms)

text \<open>The objects a device description owns, and what \<open>vulkan_dev_init\<close> leaves behind when no
  suitable memory type exists.\<close>

definition dev_objects :: "vulkan_dev \<Rightarrow> vk_obj list" where
  "dev_objects d = [(VkCommandPool, vd_cmd_pool d), (VkDevice, vd_dev d), (VkInstance, vd_inst d)]"

definition dev_ready :: "vulkan_dev \<Rightarrow> bool" where
  "dev_ready d \<longleftrightarrow> vd_valid d \<and> vd_inst d \<noteq> 0 \<and> vd_dev d \<noteq> 0 \<and> vd_cmd_pool d \<noteq> 0 \<and>
     (\<exists>p. vd_phys d = Some p \<and> vd_fast_type d = fast_type (pd_types p) \<and> vd_slow_type d = slow_type (pd_types p)) \<and>
     vd_fast_type d \<noteq> U32_MAX \<and> vd_slow_type d \<noteq> U32_MAX"

definition pool_leaked :: "vulkan_dev \<Rightarrow> vk_obj list \<Rightarrow> vk_obj list \<Rightarrow> bool" where
  "pool_leaked d L M \<longleftrightarrow> (\<exists>p. vd_phys d = Some p \<and> (fast_type (pd_types p) = U32_MAX \<or> slow_type (pd_types p) = U32_MAX)) \<and>
     vd_dev d = 0 \<and> vd_cmd_pool d \<noteq> 0 \<and> M = (VkCommandPool, vd_cmd_pool d) # L"

lemma dev_init_wp:
  "vk_wp vulkan_dev_init (\<lambda>(ok, d) v1.
     if ok then dev_ready d \<and> vd_phys d = Some (choose_gpu (vk_gpus v)) \<and> vk_gpus v \<noteq> [] \<and> vk_live v1 = dev_objects d @ vk_live v \<and> distinct (dev_objects d) \<and> set (dev_objects d) \<inter> set (vk_live v) = {}
     else vk_live v1 = vk_live v \<or> pool_leaked d (vk_live v) (vk_live v1)) v"
  unfolding vulkan_dev_init_def Let_def
  by (intro vk_wps) (auto simp: dev_ready_def dev_objects_def pool_leaked_def VulkanDev_def)

lemma dev_shutdown_wp:
  assumes "vk_live v = dev_objects d @ L" "distinct (dev_objects d)" "set (dev_objects d) \<inter> set L = {}" "dev_ready d"
  shows "vk_wp (vulkan_dev_shutdown d) (\<lambda>d' v1. d' = VulkanDev \<and> vk_live v1 = L) v"
  unfolding vulkan_dev_shutdown_def using assms
  by (intro vk_wps) (auto simp: dev_ready_def dev_objects_def)

section \<open>Properties\<close>

text \<open>(C37) Creating and destroying a device keeps the books, with one exception. A successful
  \<open>vulkan_dev_init\<close> leaves exactly an instance, a device and a command pool alive beside what was
  alive before, with a fast memory type that is device local and a slow one that is host visible
  and coherent, and \<open>vulkan_dev_shutdown\<close> destroys exactly these. A failed one leaves nothing behind,
  except when the device offers no suitable memory type: then the command pool stays alive, and
  since the device handle is cleared, no later shutdown can destroy it.\<close>

theorem device_lifecycle:
  assumes ok: "vk_ok v" and run: "run_state vulkan_dev_init v = ((r, d), v1)"
    and types: "\<forall>p\<in>set (vk_gpus v). length (pd_types p) < 2 ^ 32 - 1"
  shows "vk_ok v1 \<and> (if r then vk_live v1 = dev_objects d @ vk_live v \<and>
      (has_flag (dev_types d ! unat (vd_fast_type d)) DEVICE_LOCAL \<and> unat (vd_fast_type d) < length (dev_types d)) \<and>
      (has_flag (dev_types d ! unat (vd_slow_type d)) HOST_VISIBLE \<and> has_flag (dev_types d ! unat (vd_slow_type d)) HOST_COHERENT) \<and>
      (\<forall>d' v2. run_state (vulkan_dev_shutdown d) v1 = (d', v2) \<longrightarrow> d' = VulkanDev \<and> vk_ok v2 \<and> vk_live v2 = vk_live v)
    else vk_live v1 = vk_live v \<or> pool_leaked d (vk_live v) (vk_live v1))"
proof -
  have w: "vk_ok v1 \<and> (if r then dev_ready d \<and> vd_phys d = Some (choose_gpu (vk_gpus v)) \<and> vk_gpus v \<noteq> [] \<and>
      vk_live v1 = dev_objects d @ vk_live v \<and> distinct (dev_objects d) \<and> set (dev_objects d) \<inter> set (vk_live v) = {}
    else vk_live v1 = vk_live v \<or> pool_leaked d (vk_live v) (vk_live v1))"
    using vk_wpD [OF dev_init_wp ok run] by simp
  show ?thesis
  proof (cases r)
    case True
    with w have d: "dev_ready d" "vd_phys d = Some (choose_gpu (vk_gpus v))" "vk_gpus v \<noteq> []" "vk_ok v1"
      "vk_live v1 = dev_objects d @ vk_live v" "distinct (dev_objects d)" "set (dev_objects d) \<inter> set (vk_live v) = {}" by simp_all
    have "length (dev_types d) < 2 ^ 32 - 1" using types d(2,3) choose_gpu_mem [of "vk_gpus v"] by (simp add: dev_types_def)
    moreover have "vd_fast_type d = fast_type (dev_types d)" "vd_slow_type d = slow_type (dev_types d)"
      "vd_fast_type d \<noteq> U32_MAX" "vd_slow_type d \<noteq> U32_MAX" using d(1) by (auto simp: dev_ready_def dev_types_def)
    ultimately have t: "unat (vd_fast_type d) < length (dev_types d) \<and> has_flag (dev_types d ! unat (vd_fast_type d)) DEVICE_LOCAL"
      "has_flag (dev_types d ! unat (vd_slow_type d)) HOST_VISIBLE \<and> has_flag (dev_types d ! unat (vd_slow_type d)) HOST_COHERENT"
      using fast_type_ok [of "dev_types d"] slow_type_ok [of "dev_types d"] by simp_all
    have "d' = VulkanDev \<and> vk_ok v2 \<and> vk_live v2 = vk_live v" if "run_state (vulkan_dev_shutdown d) v1 = (d', v2)" for d' v2
      using vk_wpD [OF dev_shutdown_wp [OF d(5-7,1)] d(4) that] by simp
    then show ?thesis using True t d(4,5) by simp
  qed (use w in simp)
qed

definition demo_gpu :: phys_dev where
  "demo_gpu = \<lparr>pd_handle = 7, pd_discrete = False, pd_vendor = 0x8086, pd_name = ''sw'', pd_graphics = [True], pd_types = [6], pd_heaps = [(False, 1)]\<rparr>"

definition demo_vk :: "phys_dev list \<Rightarrow> vk" where
  "demo_vk gpus = \<lparr>vk_results = (\<lambda>n. if n < 20 then Some (of_nat (Suc n)) else None), vk_gpus = gpus, vk_queue_of = (\<lambda>_. 9), vk_calls = 0,
     vk_live = [], vk_misuse = False, vk_recorded = (\<lambda>_. []), vk_submitted = [], vk_memory = (\<lambda>_. [])\<rparr>"

lemma demo_vk_ok: "vk_ok (demo_vk gpus)"
proof -
  have u: "unat (of_nat (Suc n) :: u64) = Suc n" if "n < 20" for n
    using that by (intro unat_of_nat_lt) simp
  have "h \<noteq> 0 \<and> m = n" if "vk_results (demo_vk gpus) n = Some h" "vk_results (demo_vk gpus) m = Some h" for m n h
  proof -
    from that have "n < 20" "m < 20" "h = of_nat (Suc n)" "h = of_nat (Suc m)" by (auto simp: demo_vk_def split: if_splits)
    with u [of n] u [of m] have "unat h = Suc n" "unat h = Suc m" by metis+
    then show ?thesis by auto
  qed
  then show ?thesis by (auto simp: vk_ok_def demo_vk_def)
qed

theorem device_lifecycle_witness:
  "\<exists>d v1. run_state vulkan_dev_init (demo_vk [demo_gpu]) = ((False, d), v1) \<and> pool_leaked d [] (vk_live v1) \<and> vk_ok v1"
proof -
  obtain r d v1 where run: "run_state vulkan_dev_init (demo_vk [demo_gpu]) = ((r, d), v1)" by (metis prod.exhaust)
  have res: "r = False \<and> vk_live v1 = [(VkCommandPool, 5)]"
    using run by (auto simp: vulkan_dev_init_def pick_gpu_def enumerate_gpus_def vk_create_def vk_try_def vk_call_def vk_ask_def vk_destroy_def
        demo_vk_def demo_gpu_def VulkanDev_def choose_gpu_def better_gpu_def find_queue_family_def fast_type_def has_flag_def
        DEVICE_LOCAL_def HOST_VISIBLE_def U32_MAX_def Let_def)
  have "\<forall>p\<in>set (vk_gpus (demo_vk [demo_gpu])). length (pd_types p) < 2 ^ 32 - 1" by (simp add: demo_vk_def demo_gpu_def)
  from device_lifecycle [OF demo_vk_ok run this] res show ?thesis using run by (auto simp: demo_vk_def)
qed

end
