(* ===== verification/Vulkan_Buffer.thy ===== *)
theory Vulkan_Buffer
  imports Vulkan_Dev
begin

text \<open>
  GPU buffers and images (\<open>src/src/vulkan_buffer.cpp\<close>, \<open>src/include/vulkan_buffer.h\<close>,
  \<open>src/src/vulkan_image.cpp\<close>, \<open>src/include/vulkan_image.h\<close>). The memory requirements of a buffer or
  image are an argument; a description filled in through a pointer is returned, \<open>None\<close> when the
  function leaves it alone. Commands go to the command buffer and reach the queue when it is
  submitted.
\<close>

section \<open>Data\<close>

record vulkan_buffer =
  vb_buf :: u64
  vb_mem :: u64
  vb_size :: u64
  vb_mem_type :: u32
  vb_fast :: bool
  vb_valid :: bool

definition VulkanBuffer :: vulkan_buffer where
  "VulkanBuffer = \<lparr>vb_buf = 0, vb_mem = 0, vb_size = 0, vb_mem_type = U32_MAX, vb_fast = False, vb_valid = False\<rparr>"

record vulkan_image =
  vi_img :: u64
  vi_mem :: u64
  vi_w :: u32
  vi_h :: u32
  vi_format :: u32
  vi_layout :: vk_layout
  vi_mem_type :: u32
  vi_fast :: bool
  vi_valid :: bool

definition VulkanImage :: vulkan_image where
  "VulkanImage = \<lparr>vi_img = 0, vi_mem = 0, vi_w = 0, vi_h = 0, vi_format = 37, vi_layout = LayoutUndefined,
     vi_mem_type = U32_MAX, vi_fast = False, vi_valid = False\<rparr>"

section \<open>Memory types\<close>

definition type_bit :: "u32 \<Rightarrow> nat \<Rightarrow> bool" where
  "type_bit bits i \<longleftrightarrow> bits AND push_bit i 1 \<noteq> 0"

fun first_type :: "(u32 \<Rightarrow> bool) \<Rightarrow> u32 \<Rightarrow> nat \<Rightarrow> u32 list \<Rightarrow> u32 option" where
  "first_type P bits i [] = None"
| "first_type P bits i (f # fs) = (if type_bit bits i \<and> P f then Some (of_nat i) else first_type P bits (Suc i) fs)"

definition preferred_type :: "vulkan_dev \<Rightarrow> u32 \<Rightarrow> bool \<Rightarrow> u32 option" where
  "preferred_type d bits fast =
     (let p = (if fast then vd_fast_type d else vd_slow_type d) in
      if p \<noteq> U32_MAX \<and> type_bit bits (unat p) then Some p else None)"

definition or_else :: "'a option \<Rightarrow> 'a option \<Rightarrow> 'a option" where
  "or_else x y = (case x of None \<Rightarrow> y | Some _ \<Rightarrow> x)"

definition pick_mem_type :: "vulkan_dev \<Rightarrow> u32 \<Rightarrow> bool \<Rightarrow> u32 option" where
  "pick_mem_type d bits fast =
     (let ts = dev_types d in
      or_else (preferred_type d bits fast)
     (or_else (first_type (\<lambda>f. if fast then has_flag f DEVICE_LOCAL else has_flag f HOST_VISIBLE \<and> has_flag f HOST_COHERENT) bits 0 ts)
     (or_else (first_type (\<lambda>f. \<not> fast \<and> has_flag f HOST_VISIBLE) bits 0 ts)
              (first_type (\<lambda>_. True) bits 0 ts))))"

definition pick_image_mem_type :: "vulkan_dev \<Rightarrow> u32 \<Rightarrow> bool \<Rightarrow> u32 option" where
  "pick_image_mem_type d bits fast =
     (let ts = dev_types d in
      or_else (preferred_type d bits fast)
     (or_else (first_type (\<lambda>f. \<not> fast \<or> has_flag f DEVICE_LOCAL) bits 0 ts)
              (first_type (\<lambda>_. True) bits 0 ts)))"

section \<open>Submission\<close>

definition submit_one_time :: "u64 \<Rightarrow> (vk, bool) state" where
  "submit_one_time cb = do {
     fence \<leftarrow> vk_create VkFence;
     case fence of None \<Rightarrow> State_Monad.return False
     | Some f \<Rightarrow> do {
         sent \<leftarrow> vk_queue_submit cb;
         ok \<leftarrow> (if sent then vk_try else State_Monad.return False);
         vk_destroy VkFence f;
         State_Monad.return ok } }"

text \<open>The frame the one-submit helpers share: allocate a command buffer, record, end, submit, free.
  The recording threads the description \<open>x\<close> of what it works on; when the command buffer cannot be
  allocated or begun the description is the one of before.\<close>

definition with_cmd :: "(u64 \<Rightarrow> 'a \<Rightarrow> (vk, 'a) state) \<Rightarrow> 'a \<Rightarrow> (vk, bool \<times> 'a) state" where
  "with_cmd rec x = do {
     cmd \<leftarrow> vk_create VkCommandBuffer;
     case cmd of None \<Rightarrow> State_Monad.return (False, x)
     | Some cb \<Rightarrow> do {
         begun \<leftarrow> vk_begin cb;
         r \<leftarrow> (if begun then do {
                   x1 \<leftarrow> rec cb x;
                   ended \<leftarrow> vk_try;
                   ok \<leftarrow> (if ended then submit_one_time cb else State_Monad.return False);
                   State_Monad.return (ok, x1) }
                else State_Monad.return (False, x));
         vk_destroy VkCommandBuffer cb;
         State_Monad.return r } }"

section \<open>Buffers\<close>

definition vulkan_buffer_create :: "vulkan_dev \<Rightarrow> u32 \<Rightarrow> u64 \<Rightarrow> bool \<Rightarrow> (vk, vulkan_buffer option) state" where
  "vulkan_buffer_create d type_bits n fast =
     (if \<not> vd_valid d \<or> n = 0 then State_Monad.return None
      else do {
        buf \<leftarrow> vk_create VkBuffer;
        case buf of None \<Rightarrow> State_Monad.return None
        | Some b \<Rightarrow>
            (case pick_mem_type d type_bits fast of
               None \<Rightarrow> do { vk_destroy VkBuffer b; State_Monad.return None }
             | Some t \<Rightarrow> do {
                 mem \<leftarrow> vk_create VkDeviceMemory;
                 case mem of
                   None \<Rightarrow> do { vk_destroy VkBuffer b; State_Monad.return None }
                 | Some m \<Rightarrow> do {
                     bound \<leftarrow> vk_try;
                     if \<not> bound then do { vk_destroy VkDeviceMemory m; vk_destroy VkBuffer b; State_Monad.return None }
                     else State_Monad.return (Some \<lparr>vb_buf = b, vb_mem = m, vb_size = n, vb_mem_type = t, vb_fast = fast, vb_valid = True\<rparr>)
                   } }) })"

definition vulkan_buffer_destroy :: "vulkan_buffer \<Rightarrow> (vk, vulkan_buffer) state" where
  "vulkan_buffer_destroy b = do {
     vk_when (vb_buf b \<noteq> 0) (vk_destroy VkBuffer (vb_buf b));
     vk_when (vb_mem b \<noteq> 0) (vk_destroy VkDeviceMemory (vb_mem b));
     State_Monad.return VulkanBuffer }"

definition vulkan_buffer_fill_gpu :: "vulkan_dev \<Rightarrow> vulkan_buffer \<Rightarrow> u32 \<Rightarrow> (vk, bool) state" where
  "vulkan_buffer_fill_gpu d b pattern =
     (if \<not> vd_valid d \<or> \<not> vb_valid b \<or> vb_size b mod 4 \<noteq> 0 then State_Monad.return False
      else do { r \<leftarrow> with_cmd (\<lambda>cb _. vk_record cb (CmdFill (vb_buf b) (vb_size b) pattern)) (); State_Monad.return (fst r) })"

definition vulkan_buffer_verify_mapped :: "vulkan_dev \<Rightarrow> vulkan_buffer \<Rightarrow> u32 \<Rightarrow> (vk, bool) state" where
  "vulkan_buffer_verify_mapped d b pattern =
     (if \<not> vd_valid d \<or> \<not> vb_valid b \<or> unat (vb_mem_type b) \<ge> length (dev_types d) then State_Monad.return False
      else if \<not> has_flag (dev_types d ! unat (vb_mem_type b)) HOST_VISIBLE then State_Monad.return False
      else do {
        ok \<leftarrow> vk_try;
        if \<not> ok then State_Monad.return False
        else do { ws \<leftarrow> vk_ask (\<lambda>v. vk_memory v (vb_mem b)); State_Monad.return (list_all (\<lambda>w. w = pattern) (take (unat (vb_size b div 4)) ws)) } })"

definition vulkan_buffer_copy :: "vulkan_dev \<Rightarrow> vulkan_buffer \<Rightarrow> vulkan_buffer \<Rightarrow> (vk, bool) state" where
  "vulkan_buffer_copy d dst src =
     (if \<not> vd_valid d \<or> \<not> vb_valid dst \<or> \<not> vb_valid src \<or> vb_size dst \<noteq> vb_size src then State_Monad.return False
      else do { r \<leftarrow> with_cmd (\<lambda>cb _. vk_record cb (CmdCopy (vb_buf src) (vb_buf dst) (vb_size src))) (); State_Monad.return (fst r) })"

section \<open>Images\<close>

text \<open>Access masks are the triples (transfer write, transfer read, shader read).\<close>

definition barrier_stage ::
  "vk_layout \<Rightarrow> vk_layout \<Rightarrow> (bool \<times> bool \<times> bool) \<times> (bool \<times> bool \<times> bool) \<times> vk_stage \<times> vk_stage" where
  "barrier_stage old new =
     (let none = (False, False, False); wr = (True, False, False); rd = (False, True, False); sh = (False, False, True) in
      if old = LayoutUndefined \<and> new = LayoutTransferDst then (none, wr, StageTop, StageTransfer)
      else if old = LayoutTransferDst \<and> new = LayoutTransferSrc then (wr, rd, StageTransfer, StageTransfer)
      else if old = LayoutTransferSrc \<and> new = LayoutShaderRead then (rd, sh, StageTransfer, StageFragment)
      else if old = LayoutTransferDst \<and> new = LayoutShaderRead then (wr, sh, StageTransfer, StageFragment)
      else if old = LayoutShaderRead \<and> new = LayoutTransferSrc then (sh, rd, StageFragment, StageTransfer)
      else if old = LayoutTransferSrc \<and> new = LayoutTransferDst then (rd, wr, StageTransfer, StageTransfer)
      else if new = LayoutShaderRead then (none, sh, StageTransfer, StageFragment)
      else if new = LayoutTransferDst then (none, wr, StageTop, StageTransfer)
      else if new = LayoutTransferSrc then (none, rd, StageTop, StageTransfer)
      else (none, none, StageTop, StageTransfer))"

definition vulkan_image_create_2d :: "vulkan_dev \<Rightarrow> u32 \<Rightarrow> u32 \<Rightarrow> u32 \<Rightarrow> u32 \<Rightarrow> bool \<Rightarrow> (vk, vulkan_image option) state" where
  "vulkan_image_create_2d d type_bits w h format fast =
     (if \<not> vd_valid d \<or> w = 0 \<or> h = 0 then State_Monad.return None
      else do {
        img \<leftarrow> vk_create VkImage;
        case img of None \<Rightarrow> State_Monad.return None
        | Some i \<Rightarrow>
            (case pick_image_mem_type d type_bits fast of
               None \<Rightarrow> do { vk_destroy VkImage i; State_Monad.return None }
             | Some t \<Rightarrow> do {
                 mem \<leftarrow> vk_create VkDeviceMemory;
                 case mem of
                   None \<Rightarrow> do { vk_destroy VkImage i; State_Monad.return None }
                 | Some m \<Rightarrow> do {
                     bound \<leftarrow> vk_try;
                     if \<not> bound then do { vk_destroy VkDeviceMemory m; vk_destroy VkImage i; State_Monad.return None }
                     else State_Monad.return (Some \<lparr>vi_img = i, vi_mem = m, vi_w = w, vi_h = h, vi_format = format,
                            vi_layout = LayoutUndefined, vi_mem_type = t, vi_fast = fast, vi_valid = True\<rparr>)
                   } }) })"

definition vulkan_image_destroy :: "vulkan_image \<Rightarrow> (vk, vulkan_image) state" where
  "vulkan_image_destroy im = do {
     vk_when (vi_img im \<noteq> 0) (vk_destroy VkImage (vi_img im));
     vk_when (vi_mem im \<noteq> 0) (vk_destroy VkDeviceMemory (vi_mem im));
     State_Monad.return VulkanImage }"

definition barrier_cmd :: "vulkan_image \<Rightarrow> vk_layout \<Rightarrow> vk_cmd" where
  "barrier_cmd im new =
     (case barrier_stage (vi_layout im) new of (sa, da, ss, ds) \<Rightarrow> CmdBarrier (vi_img im) (vi_layout im) new sa da ss ds)"

definition vulkan_cmd_transition_image :: "u64 \<Rightarrow> vulkan_image \<Rightarrow> vk_layout \<Rightarrow> (vk, vulkan_image) state" where
  "vulkan_cmd_transition_image cb im new = do {
     vk_record cb (barrier_cmd im new);
     State_Monad.return (im\<lparr>vi_layout := new\<rparr>) }"

text \<open>The two helpers on an image. The description is changed by the recorded transitions, that is, as
  soon as \<open>vkBeginCommandBuffer\<close> has succeeded.\<close>

definition clear_recording :: "u32 list \<Rightarrow> u64 \<Rightarrow> vulkan_image \<Rightarrow> (vk, vulkan_image) state" where
  "clear_recording color cb im = do {
     im1 \<leftarrow> vulkan_cmd_transition_image cb im LayoutTransferDst;
     vk_record cb (CmdClear (vi_img im1) color);
     vulkan_cmd_transition_image cb im1 LayoutShaderRead }"

definition vulkan_image_clear_color :: "vulkan_dev \<Rightarrow> vulkan_image \<Rightarrow> u32 list \<Rightarrow> (vk, bool \<times> vulkan_image) state" where
  "vulkan_image_clear_color d im color =
     (if \<not> vd_valid d \<or> \<not> vi_valid im then State_Monad.return (False, im) else with_cmd (clear_recording color) im)"

definition copy_recording :: "vulkan_buffer \<Rightarrow> u64 \<Rightarrow> vulkan_image \<Rightarrow> (vk, vulkan_image) state" where
  "copy_recording dst cb im = do {
     im1 \<leftarrow> vulkan_cmd_transition_image cb im LayoutTransferSrc;
     vk_record cb (CmdCopyImage (vi_img im1) (vb_buf dst) (vi_w im1) (vi_h im1));
     State_Monad.return im1 }"

definition vulkan_image_copy_to_buffer :: "vulkan_dev \<Rightarrow> vulkan_image \<Rightarrow> vulkan_buffer \<Rightarrow> (vk, bool \<times> vulkan_image) state" where
  "vulkan_image_copy_to_buffer d im dst =
     (if \<not> vd_valid d \<or> \<not> vi_valid im \<or> \<not> vb_valid dst then State_Monad.return (False, im)
      else if vb_size dst < ucast (vi_w im) * ucast (vi_h im) * 4 then State_Monad.return (False, im)
      else with_cmd (copy_recording dst) im)"

section \<open>Ledger and queue\<close>

text \<open>\<open>submits v cs ok v1\<close>: the same objects are alive, and the queue received nothing or exactly the
  commands \<open>cs\<close>, the latter when the result is true.\<close>

definition submits :: "vk \<Rightarrow> vk_cmd list \<Rightarrow> bool \<Rightarrow> vk \<Rightarrow> bool" where
  "submits v cs ok v1 \<longleftrightarrow> vk_live v1 = vk_live v \<and> vk_memory v1 = vk_memory v \<and>
     (vk_submitted v1 = vk_submitted v @ cs \<or> \<not> ok \<and> vk_submitted v1 = vk_submitted v)"

lemma submit_one_time_wp [vk_wps]:
  assumes "\<And>ok v1. vk_live v1 = vk_live v \<Longrightarrow> vk_memory v1 = vk_memory v \<Longrightarrow> vk_submitted v1 = vk_submitted v @ vk_recorded v cb \<or> \<not> ok \<and> vk_submitted v1 = vk_submitted v \<Longrightarrow> Q ok v1"
  shows "vk_wp (submit_one_time cb) Q v"
  unfolding submit_one_time_def by (intro vk_wps) (auto intro!: assms)

definition records :: "(u64 \<Rightarrow> 'a \<Rightarrow> (vk, 'a) state) \<Rightarrow> 'a \<Rightarrow> 'a \<Rightarrow> vk_cmd list \<Rightarrow> bool" where
  "records rec x x' cs \<longleftrightarrow> (\<forall>cb v. run_state (rec cb x) v = (x', v\<lparr>vk_recorded := (vk_recorded v)(cb := vk_recorded v cb @ cs)\<rparr>))"

lemma with_cmd_wp:
  assumes rec: "records rec x x' cs"
    and Q: "\<And>ok v1. submits v cs ok v1 \<Longrightarrow> Q (ok, x') v1" "\<And>v1. submits v cs False v1 \<Longrightarrow> vk_submitted v1 = vk_submitted v \<Longrightarrow> Q (False, x) v1"
  shows "vk_wp (with_cmd rec x) Q v"
proof -
  have r: "vk_wp (rec cb x) P v0" if "P x' (v0\<lparr>vk_recorded := (vk_recorded v0)(cb := vk_recorded v0 cb @ cs)\<rparr>)" for cb P v0
    using rec that by (intro vk_wp_quiet) (auto simp: records_def)
  show ?thesis unfolding with_cmd_def
    by (intro vk_wps r) (auto intro!: Q simp: submits_def)
qed

text \<open>The commands of the image helpers, and that the helpers record them.\<close>

definition clear_cmds :: "vulkan_image \<Rightarrow> u32 list \<Rightarrow> vk_cmd list" where
  "clear_cmds im color = [barrier_cmd im LayoutTransferDst, CmdClear (vi_img im) color,
     barrier_cmd (im\<lparr>vi_layout := LayoutTransferDst\<rparr>) LayoutShaderRead]"

definition copy_image_cmds :: "vulkan_image \<Rightarrow> vulkan_buffer \<Rightarrow> vk_cmd list" where
  "copy_image_cmds im dst = [barrier_cmd im LayoutTransferSrc, CmdCopyImage (vi_img im) (vb_buf dst) (vi_w im) (vi_h im)]"

lemma records_helpers:
  "records (\<lambda>cb _. vk_record cb c) () () [c]"
  "records (clear_recording color) im (im\<lparr>vi_layout := LayoutShaderRead\<rparr>) (clear_cmds im color)"
  "records (copy_recording dst) im (im\<lparr>vi_layout := LayoutTransferSrc\<rparr>) (copy_image_cmds im dst)"
  by (simp_all add: records_def vk_record_def vulkan_cmd_transition_image_def clear_recording_def copy_recording_def
    clear_cmds_def copy_image_cmds_def State_Monad.bind_def)

lemma submits_refl: "submits v cs False v"
  by (simp add: submits_def)

lemma fill_wp: "vk_wp (vulkan_buffer_fill_gpu d b pattern) (submits v [CmdFill (vb_buf b) (vb_size b) pattern]) v"
  unfolding vulkan_buffer_fill_gpu_def by (intro vk_wps with_cmd_wp [OF records_helpers(1)]) (auto simp: submits_refl)

lemma copy_wp: "vk_wp (vulkan_buffer_copy d dst src) (submits v [CmdCopy (vb_buf src) (vb_buf dst) (vb_size src)]) v"
  unfolding vulkan_buffer_copy_def by (intro vk_wps with_cmd_wp [OF records_helpers(1)]) (auto simp: submits_refl)

text \<open>The tracked layout after a helper: changed exactly when the recording was begun.\<close>

definition layout_after :: "vulkan_image \<Rightarrow> vk_layout \<Rightarrow> bool \<Rightarrow> vulkan_image \<Rightarrow> bool \<Rightarrow> bool" where
  "layout_after im l ok im' same \<longleftrightarrow> im' = im\<lparr>vi_layout := l\<rparr> \<or> \<not> ok \<and> im' = im \<and> same"

lemma clear_wp:
  "vk_wp (vulkan_image_clear_color d im color) (\<lambda>(ok, im') v1. submits v (clear_cmds im color) ok v1 \<and>
     layout_after im LayoutShaderRead ok im' (vk_submitted v1 = vk_submitted v)) v"
  unfolding vulkan_image_clear_color_def
  by (intro vk_wps with_cmd_wp [OF records_helpers(2)]) (auto simp: submits_refl layout_after_def)

lemma copy_image_wp:
  "vk_wp (vulkan_image_copy_to_buffer d im dst) (\<lambda>(ok, im') v1. submits v (copy_image_cmds im dst) ok v1 \<and>
     layout_after im LayoutTransferSrc ok im' (vk_submitted v1 = vk_submitted v)) v"
  unfolding vulkan_image_copy_to_buffer_def
  by (intro vk_wps with_cmd_wp [OF records_helpers(3)]) (auto simp: submits_refl layout_after_def)

lemma buffer_create_wp:
  "vk_wp (vulkan_buffer_create d bits n fast) (\<lambda>r v1. case r of
     None \<Rightarrow> vk_live v1 = vk_live v
   | Some b \<Rightarrow> vk_submitted v1 = vk_submitted v \<and> vb_valid b \<and> vb_size b = n \<and> vb_buf b \<noteq> 0 \<and> vb_mem b \<noteq> 0 \<and> pick_mem_type d bits fast = Some (vb_mem_type b) \<and>
       vk_live v1 = [(VkDeviceMemory, vb_mem b), (VkBuffer, vb_buf b)] @ vk_live v \<and>
       (VkDeviceMemory, vb_mem b) \<notin> set (vk_live v) \<and> (VkBuffer, vb_buf b) \<notin> set (vk_live v)) v"
  unfolding vulkan_buffer_create_def by (intro vk_wps) auto

lemma buffer_destroy_wp:
  assumes "vk_live v = [(VkDeviceMemory, vb_mem b), (VkBuffer, vb_buf b)] @ L" "vb_buf b \<noteq> 0" "vb_mem b \<noteq> 0"
    "(VkDeviceMemory, vb_mem b) \<notin> set L" "(VkBuffer, vb_buf b) \<notin> set L"
  shows "vk_wp (vulkan_buffer_destroy b) (\<lambda>b' v1. b' = VulkanBuffer \<and> vk_live v1 = L \<and> vk_submitted v1 = vk_submitted v) v"
  unfolding vulkan_buffer_destroy_def using assms by (intro vk_wps) auto

lemma copy_guard:
  assumes "run_state (vulkan_buffer_copy d dst src) v = (True, v1)"
  shows "vd_valid d \<and> vb_valid dst \<and> vb_valid src \<and> vb_size dst = vb_size src"
  using assms by (auto simp: vulkan_buffer_copy_def split: if_splits)

section \<open>Layouts\<close>

text \<open>The layout an image has after the submitted barriers, and that every barrier starts from the
  layout the image has at that point.\<close>

fun real_layout :: "u64 \<Rightarrow> vk_layout \<Rightarrow> vk_cmd list \<Rightarrow> vk_layout" where
  "real_layout img l [] = l"
| "real_layout img l (CmdBarrier i old new sa da ss ds # cs) = real_layout img (if i = img then new else l) cs"
| "real_layout img l (_ # cs) = real_layout img l cs"

fun barriers_match :: "u64 \<Rightarrow> vk_layout \<Rightarrow> vk_cmd list \<Rightarrow> bool" where
  "barriers_match img l [] \<longleftrightarrow> True"
| "barriers_match img l (CmdBarrier i old new sa da ss ds # cs) \<longleftrightarrow>
     (i = img \<longrightarrow> old = l) \<and> barriers_match img (if i = img then new else l) cs"
| "barriers_match img l (_ # cs) \<longleftrightarrow> barriers_match img l cs"

lemma layout_append:
  "real_layout img l (xs @ ys) = real_layout img (real_layout img l xs) ys"
  "barriers_match img l (xs @ ys) \<longleftrightarrow> barriers_match img l xs \<and> barriers_match img (real_layout img l xs) ys"
  by (induction img l xs rule: real_layout.induct) auto

definition tracked :: "vulkan_image \<Rightarrow> vk \<Rightarrow> bool" where
  "tracked im v \<longleftrightarrow> vi_layout im = real_layout (vi_img im) LayoutUndefined (vk_submitted v) \<and>
     barriers_match (vi_img im) LayoutUndefined (vk_submitted v)"

lemma tracked_step:
  assumes "tracked im v" "vk_submitted v1 = vk_submitted v @ cs" "barriers_match (vi_img im) (vi_layout im) cs"
  shows "tracked (im\<lparr>vi_layout := real_layout (vi_img im) (vi_layout im) cs\<rparr>) v1"
  using assms by (simp add: tracked_def layout_append)

lemma image_cmds_layout:
  "barriers_match (vi_img im) (vi_layout im) (clear_cmds im color)"
  "real_layout (vi_img im) (vi_layout im) (clear_cmds im color) = LayoutShaderRead"
  "barriers_match (vi_img im) (vi_layout im) (copy_image_cmds im dst)"
  "real_layout (vi_img im) (vi_layout im) (copy_image_cmds im dst) = LayoutTransferSrc"
  by (simp_all add: clear_cmds_def copy_image_cmds_def barrier_cmd_def split: prod.split)

section \<open>Properties\<close>

text \<open>A buffer is created, used as the source of a copy and destroyed. Afterwards exactly the
  objects of before are alive: command buffer, fence, buffer and memory are all destroyed, each
  once, whatever call fails in between. The copy sends one command for the whole size, and only
  between valid buffers of one size; if it reports success the command has been submitted.\<close>

lemma buffer_lifecycle:
  assumes ok: "vk_ok v" and create: "run_state (vulkan_buffer_create d bits n fast) v = (Some b, v1)"
    and copy: "run_state (vulkan_buffer_copy d dst b) v1 = (r, v2)" and destroy: "run_state (vulkan_buffer_destroy b) v2 = (b', v3)"
  shows "vk_ok v3 \<and> vk_live v3 = vk_live v \<and> b' = VulkanBuffer \<and>
    (vk_submitted v3 = vk_submitted v @ [CmdCopy (vb_buf b) (vb_buf dst) n] \<or> \<not> r \<and> vk_submitted v3 = vk_submitted v) \<and>
    (r \<longrightarrow> vd_valid d \<and> vb_valid dst \<and> vb_size dst = n)"
proof -
  have b: "vk_ok v1" "vk_submitted v1 = vk_submitted v" "vb_valid b" "vb_size b = n" "vb_buf b \<noteq> 0" "vb_mem b \<noteq> 0"
    "vk_live v1 = [(VkDeviceMemory, vb_mem b), (VkBuffer, vb_buf b)] @ vk_live v"
    "(VkDeviceMemory, vb_mem b) \<notin> set (vk_live v)" "(VkBuffer, vb_buf b) \<notin> set (vk_live v)"
    using vk_wpD [OF buffer_create_wp ok create] by simp_all
  have c: "vk_ok v2" "submits v1 [CmdCopy (vb_buf b) (vb_buf dst) n] r v2" using vk_wpD [OF copy_wp b(1) copy] b(4) by simp_all
  then have live: "vk_live v2 = [(VkDeviceMemory, vb_mem b), (VkBuffer, vb_buf b)] @ vk_live v" using b(7) by (simp add: submits_def)
  have "vk_ok v3 \<and> b' = VulkanBuffer \<and> vk_live v3 = vk_live v \<and> vk_submitted v3 = vk_submitted v2"
    by (rule vk_wpD [OF buffer_destroy_wp [OF live b(5,6,8,9)] c(1) destroy])
  then show ?thesis using c(2) b(2,4) copy copy_guard [of d dst b v1 v2] by (auto simp: submits_def)
qed

definition demo_dev :: vulkan_dev where
  "demo_dev = VulkanDev\<lparr>vd_dev := 100, vd_cmd_pool := 101, vd_phys := Some (demo_gpu\<lparr>pd_types := [1, 6]\<rparr>),
     vd_fast_type := 0, vd_slow_type := 1, vd_valid := True\<rparr>"

lemmas demo_run = vulkan_buffer_create_def vulkan_buffer_copy_def vulkan_image_clear_color_def vulkan_image_copy_to_buffer_def
  clear_recording_def copy_recording_def
  vulkan_cmd_transition_image_def with_cmd_def submit_one_time_def vk_create_def vk_try_def vk_call_def vk_begin_def vk_queue_submit_def
  vk_record_def vk_destroy_def demo_vk_def demo_dev_def demo_gpu_def VulkanDev_def pick_mem_type_def preferred_type_def or_else_def type_bit_def U32_MAX_def Let_def

lemma buffer_lifecycle_witness:
  "\<exists>b v1 v2 b' v3. run_state (vulkan_buffer_create demo_dev 3 16 True) (demo_vk []) = (Some b, v1) \<and>
     run_state (vulkan_buffer_copy demo_dev (VulkanBuffer\<lparr>vb_buf := 55, vb_size := 16, vb_valid := True\<rparr>) b) v1 = (True, v2) \<and>
     run_state (vulkan_buffer_destroy b) v2 = (b', v3) \<and> vk_live v3 = [] \<and> vk_submitted v3 = [CmdCopy (vb_buf b) 55 16]"
proof -
  let ?dst = "VulkanBuffer\<lparr>vb_buf := 55, vb_size := 16, vb_valid := True\<rparr>"
  obtain r v1 where c: "run_state (vulkan_buffer_create demo_dev 3 16 True) (demo_vk []) = (r, v1)" by fastforce
  then obtain b where r: "r = Some b" by (auto simp: demo_run)
  obtain q v2 where cp: "run_state (vulkan_buffer_copy demo_dev ?dst b) v1 = (q, v2)" by fastforce
  obtain b' v3 where ds: "run_state (vulkan_buffer_destroy b) v2 = (b', v3)" by fastforce
  have q: "q" using c cp r by (auto simp: demo_run VulkanBuffer_def)
  note l = buffer_lifecycle [OF demo_vk_ok c [unfolded r] cp ds]
  have "vk_live (demo_vk []) = []" "vk_submitted (demo_vk []) = []" by (simp_all add: demo_vk_def)
  with l q have "vk_live v3 = []" "vk_submitted v3 = [CmdCopy (vb_buf b) 55 16]" by simp_all
  then show ?thesis using c r cp ds q by (intro exI [of _ b] exI [of _ v1] exI [of _ v2] exI [of _ b'] exI [of _ v3]) simp
qed

text \<open>(C36) The tracked layout is the real one while submissions succeed. If the layout in the
  description is the one the submitted barriers lead to, a successful clear or copy keeps it so and
  every barrier starts from the layout the image has; the objects alive are unchanged. But a clear
  that fails after the recording has begun changes the description although nothing reached the
  queue, and then the tracked layout is wrong.\<close>

theorem image_layout_tracked:
  assumes ok: "vk_ok v" and tr: "tracked im v"
    and clear: "run_state (vulkan_image_clear_color d im color) v = ((r, im1), v1)"
    and copy: "run_state (vulkan_image_copy_to_buffer d im1 dst) v1 = ((q, im2), v2)"
  shows "vk_ok v2 \<and> vk_live v2 = vk_live v \<and> (r \<longrightarrow> tracked im1 v1) \<and> (r \<and> q \<longrightarrow> tracked im2 v2 \<and> vi_layout im2 = LayoutTransferSrc) \<and>
    (\<not> r \<and> im1 \<noteq> im \<and> vk_submitted v1 = vk_submitted v \<longrightarrow> \<not> tracked im1 v1)"
proof -
  have c: "vk_ok v1" "submits v (clear_cmds im color) r v1" "layout_after im LayoutShaderRead r im1 (vk_submitted v1 = vk_submitted v)"
    using vk_wpD [OF clear_wp ok clear] by simp_all
  have d: "vk_ok v2" "submits v1 (copy_image_cmds im1 dst) q v2" "layout_after im1 LayoutTransferSrc q im2 (vk_submitted v2 = vk_submitted v1)"
    using vk_wpD [OF copy_image_wp c(1) copy] by simp_all
  have t1: "tracked im1 v1" if r
    using that c(2,3) tracked_step [OF tr _ image_cmds_layout(1), of v1 color]
    by (simp add: submits_def layout_after_def image_cmds_layout)
  have t2: "tracked im2 v2 \<and> vi_layout im2 = LayoutTransferSrc" if r q
    using that d(2,3) tracked_step [OF t1 [OF that(1)] _ image_cmds_layout(3), of v2 dst]
    by (simp add: submits_def layout_after_def image_cmds_layout)
  have "\<not> tracked im1 v1" if "\<not> r" "im1 \<noteq> im" "vk_submitted v1 = vk_submitted v"
  proof -
    have "im1 = im\<lparr>vi_layout := LayoutShaderRead\<rparr>" using that c(3) by (simp add: layout_after_def)
    moreover from this have "vi_layout im \<noteq> LayoutShaderRead" using that(2) by auto
    ultimately show ?thesis using tr that(3) by (simp add: tracked_def)
  qed
  then show ?thesis using c d t1 t2 by (auto simp: submits_def)
qed

text \<open>A host on which the command buffer can be allocated and begun but not ended.\<close>

definition demo_failing :: vk where
  "demo_failing = (demo_vk [])\<lparr>vk_results := (\<lambda>n. if n < 2 then Some (of_nat (Suc n)) else None)\<rparr>"

theorem image_layout_tracked_witness:
  "\<exists>im1 v1. run_state (vulkan_image_clear_color demo_dev (VulkanImage\<lparr>vi_img := 8, vi_valid := True\<rparr>) [0, 0, 0, 0]) demo_failing = ((False, im1), v1) \<and>
     vi_layout im1 = LayoutShaderRead \<and> vk_submitted v1 = [] \<and> \<not> tracked im1 v1"
proof -
  let ?im = "VulkanImage\<lparr>vi_img := 8, vi_valid := True\<rparr>"
  have ok: "vk_ok demo_failing"
    unfolding demo_failing_def by (rule vk_ok_fewer [OF demo_vk_ok]) (auto simp: demo_vk_def split: if_splits)
  have tr: "tracked ?im demo_failing" by (simp add: tracked_def demo_failing_def demo_vk_def VulkanImage_def)
  obtain r im1 v1 where c: "run_state (vulkan_image_clear_color demo_dev ?im [0, 0, 0, 0]) demo_failing = ((r, im1), v1)" by (metis prod.exhaust)
  obtain q im2 v2 where d: "run_state (vulkan_image_copy_to_buffer demo_dev im1 VulkanBuffer) v1 = ((q, im2), v2)" by (metis prod.exhaust)
  have e: "\<not> r" "im1 = ?im\<lparr>vi_layout := LayoutShaderRead\<rparr>" "vk_submitted v1 = []"
    using c by (auto simp: demo_run demo_failing_def VulkanImage_def)
  moreover have "im1 \<noteq> ?im" by (simp add: e(2) VulkanImage_def)
  moreover have "vk_submitted demo_failing = []" by (simp add: demo_failing_def demo_vk_def)
  ultimately have "\<not> tracked im1 v1" using image_layout_tracked [OF ok tr c d] by simp
  then show ?thesis using c e by simp
qed

end
