(* ===== verification/Gpu_Batch.thy ===== *)
theory Gpu_Batch
  imports Vulkan_Buffer Gpu_Stub
begin

text \<open>
  The root-signature batch (\<open>src/src/gpu_batch.cpp\<close>, \<open>src/include/gpu_batch.h\<close>): root parameters laid
  out over push constants and descriptor bindings, buffers registered by guest address, and command
  recording with monotone fences. Devices and buffers are held by pointer: a pointer is a number,
  and the operations take the devices and buffers as they are at the time of the call. \<open>gb_mem\<close> says
  whether guest memory is attached; its current contents are an argument.
\<close>

section \<open>State\<close>

datatype root_type = Constants32 | Cbv | Table

record root_param =
  rp_type :: root_type
  rp_count :: u32

record gpu_batch =
  gb_dev :: "nat option"
  gb_mem :: bool
  gb_bindings :: "(u64 \<times> nat) list"
  gb_params :: "root_param list"
  gb_set_layout :: u64
  gb_pipeline_layout :: u64
  gb_pool :: u64
  gb_set :: u64
  gb_cmd :: u64
  gb_push_data :: "u32 list"
  gb_push_size :: u32
  gb_uniform_bindings :: u32
  gb_submits :: u64
  gb_fence_signalled :: u64
  gb_valid :: bool

definition GpuBatch :: gpu_batch where
  "GpuBatch = \<lparr>gb_dev = None, gb_mem = False, gb_bindings = [], gb_params = [], gb_set_layout = 0, gb_pipeline_layout = 0, gb_pool = 0,
     gb_set = 0, gb_cmd = 0, gb_push_data = [], gb_push_size = 0, gb_uniform_bindings = 0, gb_submits = 0, gb_fence_signalled = 0, gb_valid = False\<rparr>"

definition attach_mem :: "bool \<Rightarrow> gpu_batch \<Rightarrow> gpu_batch" where
  "attach_mem m b = b\<lparr>gb_mem := m\<rparr>"

section \<open>Set-up\<close>

text \<open>The validation loop: the number of push constants and of descriptor bindings.\<close>

fun count_params :: "root_param list \<Rightarrow> u32 \<Rightarrow> u32 \<Rightarrow> (u32 \<times> u32) option" where
  "count_params [] push bindings = Some (push, bindings)"
| "count_params (p # ps) push bindings =
     (if rp_type p = Constants32 then
        if rp_count p = 0 \<or> rp_count p > 32 then None else count_params ps (push + rp_count p) bindings
      else if rp_count p = 0 \<or> rp_count p > 16 then None else count_params ps push (bindings + rp_count p))"

definition layout_bindings :: "root_param list \<Rightarrow> u32 list" where
  "layout_bindings ps = map of_nat [0..<sum_list (map (\<lambda>p. if rp_type p = Constants32 then 0 else unat (rp_count p)) ps)]"

definition clear_batch :: "gpu_batch \<Rightarrow> gpu_batch" where
  "clear_batch b = b\<lparr>gb_cmd := 0, gb_pool := 0, gb_set_layout := 0, gb_pipeline_layout := 0, gb_set := 0, gb_dev := None, gb_mem := False,
     gb_bindings := [], gb_params := [], gb_push_data := [], gb_push_size := 0, gb_uniform_bindings := 0, gb_fence_signalled := 0, gb_valid := False\<rparr>"

definition batch_shutdown :: "(nat \<Rightarrow> vulkan_dev) \<Rightarrow> gpu_batch \<Rightarrow> (vk, gpu_batch) state" where
  "batch_shutdown devs b = do {
     vk_when (case gb_dev b of None \<Rightarrow> False | Some k \<Rightarrow> vd_dev (devs k) \<noteq> 0) (do {
       vk_when (gb_cmd b \<noteq> 0) (vk_destroy VkCommandBuffer (gb_cmd b));
       vk_when (gb_pool b \<noteq> 0) (vk_destroy VkDescriptorPool (gb_pool b));
       vk_when (gb_set_layout b \<noteq> 0) (vk_destroy VkDescriptorSetLayout (gb_set_layout b));
       vk_when (gb_pipeline_layout b \<noteq> 0) (vk_destroy VkPipelineLayout (gb_pipeline_layout b)) });
     State_Monad.return (clear_batch b) }"

definition fail_init :: "(nat \<Rightarrow> vulkan_dev) \<Rightarrow> gpu_batch \<Rightarrow> (vk, bool \<times> gpu_batch) state" where
  "fail_init devs b = do { b' \<leftarrow> batch_shutdown devs b; State_Monad.return (False, b') }"

definition finish_init :: "(nat \<Rightarrow> vulkan_dev) \<Rightarrow> u32 \<Rightarrow> u32 \<Rightarrow> gpu_batch \<Rightarrow> (vk, bool \<times> gpu_batch) state" where
  "finish_init devs push bindings b = do {
     pipe \<leftarrow> vk_create VkPipelineLayout;
     case pipe of None \<Rightarrow> fail_init devs b
     | Some p \<Rightarrow> State_Monad.return (True, b\<lparr>gb_pipeline_layout := p, gb_push_data := replicate (unat push) 0, gb_push_size := push,
         gb_uniform_bindings := bindings, gb_valid := True\<rparr>) }"

definition init_pool :: "(nat \<Rightarrow> vulkan_dev) \<Rightarrow> u32 \<Rightarrow> u32 \<Rightarrow> gpu_batch \<Rightarrow> (vk, bool \<times> gpu_batch) state" where
  "init_pool devs push bindings b = do {
     pool \<leftarrow> vk_create VkDescriptorPool;
     case pool of None \<Rightarrow> fail_init devs b
     | Some q \<Rightarrow> do {
         dset \<leftarrow> vk_handle;
         case dset of None \<Rightarrow> fail_init devs (b\<lparr>gb_pool := q\<rparr>)
         | Some s \<Rightarrow> finish_init devs push bindings (b\<lparr>gb_pool := q, gb_set := s\<rparr>) } }"

definition init_layout :: "(nat \<Rightarrow> vulkan_dev) \<Rightarrow> u32 \<Rightarrow> u32 \<Rightarrow> gpu_batch \<Rightarrow> (vk, bool \<times> gpu_batch) state" where
  "init_layout devs push bindings b = do {
     layout \<leftarrow> vk_create VkDescriptorSetLayout;
     case layout of None \<Rightarrow> fail_init devs b
     | Some l \<Rightarrow> init_pool devs push bindings (b\<lparr>gb_set_layout := l\<rparr>) }"

definition batch_init :: "(nat \<Rightarrow> vulkan_dev) \<Rightarrow> nat \<Rightarrow> root_param list \<Rightarrow> gpu_batch \<Rightarrow> (vk, bool \<times> gpu_batch) state" where
  "batch_init devs k params b = do {
     b0 \<leftarrow> batch_shutdown devs b;
     if \<not> vd_valid (devs k) \<or> params = [] \<or> length params > 16 then State_Monad.return (False, b0)
     else (case count_params params 0 0 of
       None \<Rightarrow> State_Monad.return (False, b0)
     | Some (push, bindings) \<Rightarrow>
         if push > 32 \<or> bindings > 16 then State_Monad.return (False, b0)
         else let b1 = b0\<lparr>gb_dev := Some k, gb_params := params\<rparr> in
           if layout_bindings params = [] then finish_init devs push bindings b1
           else init_layout devs push bindings b1) }"

section \<open>Registration\<close>

definition find_binding :: "u64 \<Rightarrow> gpu_batch \<Rightarrow> nat option" where
  "find_binding gpa b = map_of (gb_bindings b) gpa"

definition register_buffer :: "(nat \<Rightarrow> vulkan_buffer) \<Rightarrow> mem_map \<Rightarrow> u64 \<Rightarrow> nat \<Rightarrow> gpu_batch \<Rightarrow> bool \<times> gpu_batch" where
  "register_buffer bufs mem gpa k b =
     (let buf = bufs k in
      if \<not> vb_valid buf \<or> vb_size buf = 0 then (False, b)
      else if vb_size buf > 0xFFFFFFFF then (False, b)
      else if gb_mem b \<and> (\<not> mem_in_range gpa (vb_size buf) \<or> \<not> mem_is_committed mem gpa (vb_size buf)) then (False, b)
      else if gb_mem b \<and> vb_fast buf \<and> \<not> is_fast gpa then (False, b)
      else if find_binding gpa b \<noteq> None then (False, b)
      else (True, b\<lparr>gb_bindings := gb_bindings b @ [(gpa, k)]\<rparr>))"

fun erase_binding :: "u64 \<Rightarrow> (u64 \<times> nat) list \<Rightarrow> (u64 \<times> nat) list" where
  "erase_binding gpa [] = []"
| "erase_binding gpa ((g, k) # bs) = (if g = gpa then bs else (g, k) # erase_binding gpa bs)"

definition unregister_buffer :: "u64 \<Rightarrow> gpu_batch \<Rightarrow> gpu_batch" where
  "unregister_buffer gpa b = b\<lparr>gb_bindings := erase_binding gpa (gb_bindings b)\<rparr>"

section \<open>Recording\<close>

definition batch_begin :: "gpu_batch \<Rightarrow> (vk, bool \<times> gpu_batch) state" where
  "batch_begin b =
     (if \<not> gb_valid b \<or> gb_cmd b \<noteq> 0 then State_Monad.return (False, b)
      else do {
        cmd \<leftarrow> vk_create VkCommandBuffer;
        case cmd of None \<Rightarrow> State_Monad.return (False, b)
        | Some c \<Rightarrow> do {
            ok \<leftarrow> vk_begin c;
            if ok then State_Monad.return (True, b\<lparr>gb_cmd := c\<rparr>)
            else do { vk_destroy VkCommandBuffer c; State_Monad.return (False, b) } } })"

text \<open>The position of a root parameter: the counts of the preceding parameters of its class.\<close>

definition preceding :: "(root_type \<Rightarrow> bool) \<Rightarrow> nat \<Rightarrow> root_param list \<Rightarrow> u32" where
  "preceding P i ps = fold (\<lambda>p n. if P (rp_type p) then n + rp_count p else n) (take i ps) 0"

definition batch_bind :: "u32 \<Rightarrow> vulkan_buffer \<Rightarrow> gpu_batch \<Rightarrow> (vk, bool) state" where
  "batch_bind root buf b =
     (if \<not> gb_valid b \<or> unat root \<ge> length (gb_params b) \<or> \<not> vb_valid buf then State_Monad.return False
      else if rp_type (gb_params b ! unat root) = Constants32 \<or> gb_set b = 0 then State_Monad.return False
      else let binding = preceding (\<lambda>t. t \<noteq> Constants32) (unat root) (gb_params b) in
        if binding \<ge> gb_uniform_bindings b then State_Monad.return False
        else do { vk_update_set binding (vb_buf buf) (vb_size buf); State_Monad.return True })"

definition batch_push :: "u32 \<Rightarrow> u32 list option \<Rightarrow> gpu_batch \<Rightarrow> bool \<times> gpu_batch" where
  "batch_push root vals b =
     (case vals of
        None \<Rightarrow> (False, b)
      | Some vs \<Rightarrow>
          if \<not> gb_valid b \<or> unat root \<ge> length (gb_params b) then (False, b)
          else let p = gb_params b ! unat root; count = of_nat (length vs) in
            if rp_type p \<noteq> Constants32 \<or> count \<noteq> rp_count p then (False, b)
            else let offset = preceding (\<lambda>t. t = Constants32) (unat root) (gb_params b) in
              if unat (offset + count) > length (gb_push_data b) then (False, b)
              else (True, b\<lparr>gb_push_data := take (unat offset) (gb_push_data b) @ vs @ drop (unat offset + length vs) (gb_push_data b)\<rparr>))"

definition batch_copy :: "vulkan_buffer \<Rightarrow> vulkan_buffer \<Rightarrow> gpu_batch \<Rightarrow> (vk, bool) state" where
  "batch_copy dst src b =
     (if \<not> gb_valid b \<or> gb_cmd b = 0 \<or> \<not> vb_valid dst \<or> \<not> vb_valid src \<or> vb_size dst \<noteq> vb_size src then State_Monad.return False
      else do { vk_record (gb_cmd b) (CmdCopy (vb_buf src) (vb_buf dst) (vb_size src)); State_Monad.return True })"

definition bind_gpa :: "(nat \<Rightarrow> vulkan_buffer) \<Rightarrow> u32 \<Rightarrow> u64 \<Rightarrow> gpu_batch \<Rightarrow> (vk, bool) state" where
  "bind_gpa bufs root gpa b =
     (case find_binding gpa b of None \<Rightarrow> State_Monad.return False | Some k \<Rightarrow> batch_bind root (bufs k) b)"

definition copy_gpa :: "(nat \<Rightarrow> vulkan_buffer) \<Rightarrow> u64 \<Rightarrow> u64 \<Rightarrow> u32 \<Rightarrow> gpu_batch \<Rightarrow> (vk, bool) state" where
  "copy_gpa bufs dst_gpa src_gpa n b =
     (if n = 0 then State_Monad.return False
      else (case (find_binding dst_gpa b, find_binding src_gpa b) of
        (Some d, Some s) \<Rightarrow>
          if vb_size (bufs d) \<noteq> vb_size (bufs s) \<or> ucast n \<noteq> vb_size (bufs d) then State_Monad.return False
          else batch_copy (bufs d) (bufs s) b
      | _ \<Rightarrow> State_Monad.return False))"

definition submit_fence :: "u64 \<Rightarrow> gpu_stub option \<Rightarrow> gpu_batch \<Rightarrow> (vk, bool \<times> gpu_stub option \<times> gpu_batch) state" where
  "submit_fence fence_value log b =
     (if fence_value \<le> gb_fence_signalled b then State_Monad.return (False, log, b)
      else if \<not> gb_valid b \<or> gb_cmd b = 0 then State_Monad.return (False, log, b)
      else do {
        ended \<leftarrow> vk_try;
        if \<not> ended then State_Monad.return (False, log, b)
        else do {
          ok \<leftarrow> submit_one_time (gb_cmd b);
          vk_destroy VkCommandBuffer (gb_cmd b);
          let b1 = b\<lparr>gb_cmd := 0\<rparr>;
          if \<not> ok then State_Monad.return (False, log, b1)
          else (let b2 = b1\<lparr>gb_submits := gb_submits b1 + 1, gb_fence_signalled := fence_value\<rparr> in
            State_Monad.return (True,
              map_option (submit_legacy \<lparr>gp_type = 10, gp_addr = ucast (gb_push_size b2), gp_size = ucast (gb_submits b2)\<rparr>) log, b2)) } })"

definition batch_submit :: "gpu_stub option \<Rightarrow> gpu_batch \<Rightarrow> (vk, bool \<times> gpu_stub option \<times> gpu_batch) state" where
  "batch_submit log b = submit_fence (gb_fence_signalled b + 1) log b"

section \<open>Ownership\<close>

text \<open>The objects a batch holds, and that the objects alive are exactly these and a given rest.\<close>

definition handle_obj :: "vk_kind \<Rightarrow> u64 \<Rightarrow> vk_obj set" where
  "handle_obj k h = (if h = 0 then {} else {(k, h)})"

definition held :: "gpu_batch \<Rightarrow> vk_obj set" where
  "held b = handle_obj VkCommandBuffer (gb_cmd b) \<union> handle_obj VkDescriptorPool (gb_pool b) \<union>
     handle_obj VkDescriptorSetLayout (gb_set_layout b) \<union> handle_obj VkPipelineLayout (gb_pipeline_layout b)"

definition owns :: "(nat \<Rightarrow> vulkan_dev) \<Rightarrow> vk_obj set \<Rightarrow> gpu_batch \<Rightarrow> vk \<Rightarrow> bool" where
  "owns devs L b v \<longleftrightarrow> set (vk_live v) = held b \<union> L \<and> held b \<inter> L = {} \<and>
     (gb_valid b \<or> held b \<noteq> {} \<longrightarrow> gb_dev b \<noteq> None) \<and> (\<forall>k. gb_dev b = Some k \<longrightarrow> vd_dev (devs k) \<noteq> 0)"

lemmas owns_simps = owns_def held_def handle_obj_def

lemma shutdown_wp [vk_wps]:
  assumes "owns devs L b v"
    "\<And>v1. set (vk_live v1) = L \<Longrightarrow> vk_submitted v1 = vk_submitted v \<Longrightarrow> Q (clear_batch b) v1"
  shows "vk_wp (batch_shutdown devs b) Q v"
  unfolding batch_shutdown_def using assms(1)
  by (intro vk_wps) (auto simp: owns_simps intro!: assms(2) split: option.splits if_splits)

lemma owns_cleared: "set (vk_live v) = L \<Longrightarrow> owns devs L (clear_batch b) v"
  by (simp add: owns_simps clear_batch_def)

lemma owns_gain:
  assumes "owns devs L b v" "vk_live v1 = x # vk_live v" "x \<notin> set (vk_live v)" "held b1 = insert x (held b)"
    "gb_dev b1 = Some k" "vd_dev (devs k) \<noteq> 0"
  shows "owns devs L b1 v1"
  using assms unfolding owns_def by auto

lemma owns_same:
  assumes "owns devs L b v" "vk_live v1 = vk_live v" "held b1 = held b" "gb_dev b1 = gb_dev b" "gb_valid b1 = gb_valid b"
  shows "owns devs L b1 v1"
  using assms unfolding owns_def by simp

lemma owns_lose:
  assumes "owns devs L b v" "vk_live v1 = removeAll x (vk_live v)" "x \<in> held b" "held b1 = held b - {x}"
    "gb_dev b1 = gb_dev b" "gb_valid b1 = gb_valid b"
  shows "owns devs L b1 v1"
  using assms unfolding owns_def by auto

lemma held_gain:
  "gb_cmd b = 0 \<Longrightarrow> h \<noteq> 0 \<Longrightarrow> held (b\<lparr>gb_cmd := h\<rparr>) = insert (VkCommandBuffer, h) (held b)"
  "gb_pool b = 0 \<Longrightarrow> h \<noteq> 0 \<Longrightarrow> held (b\<lparr>gb_pool := h\<rparr>) = insert (VkDescriptorPool, h) (held b)"
  "gb_set_layout b = 0 \<Longrightarrow> h \<noteq> 0 \<Longrightarrow> held (b\<lparr>gb_set_layout := h\<rparr>) = insert (VkDescriptorSetLayout, h) (held b)"
  "gb_pipeline_layout b = 0 \<Longrightarrow> h \<noteq> 0 \<Longrightarrow> held (b\<lparr>gb_pipeline_layout := h, gb_push_data := d, gb_push_size := n, gb_uniform_bindings := u,
     gb_valid := True\<rparr>) = insert (VkPipelineLayout, h) (held b)"
  by (auto simp: held_def handle_obj_def)

lemma held_lose: "gb_cmd b \<noteq> 0 \<Longrightarrow> held (b\<lparr>gb_cmd := 0\<rparr>) = held b - {(VkCommandBuffer, gb_cmd b)} \<and> (VkCommandBuffer, gb_cmd b) \<in> held b"
  by (auto simp: held_def handle_obj_def)

lemma held_other: "held (b\<lparr>gb_set := s\<rparr>) = held b" "held (b\<lparr>gb_cmd := 0, gb_submits := m, gb_fence_signalled := f\<rparr>) = held (b\<lparr>gb_cmd := 0\<rparr>)"
  by (simp_all add: held_def)

lemma fail_init_wp:
  assumes "owns devs L b v" "\<And>b1 v1. owns devs L b1 v1 \<Longrightarrow> Q (False, b1) v1"
  shows "vk_wp (fail_init devs b) Q v"
  unfolding fail_init_def by (intro vk_wp_bind shutdown_wp [OF assms(1)] vk_wp_return) (auto intro: assms(2) owns_cleared)

lemma finish_init_wp:
  assumes "owns devs L b v" "gb_pipeline_layout b = 0" "gb_dev b = Some k" "vd_dev (devs k) \<noteq> 0"
    "\<And>r b1 v1. owns devs L b1 v1 \<Longrightarrow> (r \<longrightarrow> gb_params b1 = gb_params b \<and> gb_push_data b1 = replicate (unat push) 0 \<and> gb_uniform_bindings b1 = bindings) \<Longrightarrow> Q (r, b1) v1"
  shows "vk_wp (finish_init devs push bindings b) Q v"
  unfolding finish_init_def
proof (intro vk_wp_bind vk_wp_create vk_wp_option vk_wp_return fail_init_wp [where L = L])
  show "owns devs L b (v\<lparr>vk_calls := Suc (vk_calls v)\<rparr>)" by (rule owns_same [OF assms(1)]) simp_all
qed (use assms in \<open>auto intro!: assms(5) owns_gain [OF assms(1)] simp: held_gain\<close>)

lemma init_pool_wp:
  assumes "owns devs L b v" "gb_pool b = 0" "gb_pipeline_layout b = 0" "gb_dev b = Some k" "vd_dev (devs k) \<noteq> 0"
    "\<And>r b1 v1. owns devs L b1 v1 \<Longrightarrow> (r \<longrightarrow> gb_params b1 = gb_params b \<and> gb_push_data b1 = replicate (unat push) 0 \<and> gb_uniform_bindings b1 = bindings) \<Longrightarrow> Q (r, b1) v1"
  shows "vk_wp (init_pool devs push bindings b) Q v"
  unfolding init_pool_def
proof (intro vk_wp_bind vk_wp_create vk_wp_option, goal_cases)
  case 1 show ?case by (rule fail_init_wp [OF owns_same [OF assms(1)]]) (simp_all add: assms(6))
next
  case (4 h q)
  then have o: "owns devs L (b\<lparr>gb_pool := q\<rparr>) (v\<lparr>vk_calls := Suc (vk_calls v), vk_live := (VkDescriptorPool, h) # vk_live v\<rparr>)"
    using assms(2,4,5) by (intro owns_gain [OF assms(1)]) (auto simp: held_gain)
  show ?case
  proof (intro vk_wp_bind vk_wp_handle vk_wp_option, goal_cases)
    case 1 show ?case by (rule fail_init_wp [OF owns_same [OF o]]) (simp_all add: assms(6))
  next
    case (4 h s) show ?case
      by (rule finish_init_wp [OF owns_same [OF o], where k = k]) (use assms in \<open>simp_all add: held_other held_def\<close>)
  qed simp_all
qed simp_all

lemma init_layout_wp:
  assumes "owns devs L b v" "gb_set_layout b = 0" "gb_pool b = 0" "gb_pipeline_layout b = 0" "gb_dev b = Some k" "vd_dev (devs k) \<noteq> 0"
    "\<And>r b1 v1. owns devs L b1 v1 \<Longrightarrow> (r \<longrightarrow> gb_params b1 = gb_params b \<and> gb_push_data b1 = replicate (unat push) 0 \<and> gb_uniform_bindings b1 = bindings) \<Longrightarrow> Q (r, b1) v1"
  shows "vk_wp (init_layout devs push bindings b) Q v"
  unfolding init_layout_def
proof (intro vk_wp_bind vk_wp_create vk_wp_option, goal_cases)
  case 1 show ?case by (rule fail_init_wp [OF owns_same [OF assms(1)]]) (simp_all add: assms(7))
next
  case (4 h l)
  then have "owns devs L (b\<lparr>gb_set_layout := l\<rparr>) (v\<lparr>vk_calls := Suc (vk_calls v), vk_live := (VkDescriptorSetLayout, h) # vk_live v\<rparr>)"
    using assms(2,5,6) by (intro owns_gain [OF assms(1)]) (auto simp: held_gain)
  then show ?case by (rule init_pool_wp [where k = k]) (use assms in simp_all)
qed simp_all

lemma init_wp:
  assumes "owns devs L b v" "vd_valid (devs k) \<longrightarrow> vd_dev (devs k) \<noteq> 0"
  shows "vk_wp (batch_init devs k ps b) (\<lambda>(r, b1) v1. owns devs L b1 v1 \<and>
     (r \<longrightarrow> gb_params b1 = ps \<and> (\<exists>push binds. count_params ps 0 0 = Some (push, binds) \<and> length ps \<le> 16 \<and> push \<le> 32 \<and> binds \<le> 16 \<and>
        gb_push_data b1 = replicate (unat push) 0 \<and> gb_uniform_bindings b1 = binds))) v"
  unfolding batch_init_def Let_def
proof (intro vk_wp_bind shutdown_wp [OF assms(1)], goal_cases)
  case (1 v0)
  note c = owns_cleared [OF 1(1), of devs b]
  have o: "owns devs L (clear_batch b\<lparr>gb_dev := Some k, gb_params := ps\<rparr>) v0" if "vd_dev (devs k) \<noteq> 0"
    using 1(1) that by (auto simp: owns_simps clear_batch_def)
  have z: "gb_set_layout (clear_batch b) = 0" "gb_pool (clear_batch b) = 0" "gb_pipeline_layout (clear_batch b) = 0" by (simp_all add: clear_batch_def)
  show ?case
  proof (intro vk_wp_if vk_wp_return vk_wp_option, goal_cases)
    case (3 pb)
    then have d: "vd_dev (devs k) \<noteq> 0" using assms(2) by simp
    show ?case using 3 z d
      by (auto split: prod.split simp: not_less c intro!: vk_wp_return finish_init_wp [OF o [OF d], where k = k] init_layout_wp [OF o [OF d], where k = k])
  qed (use c in simp_all)
qed

lemma begin_wp:
  assumes "owns devs L b v"
  shows "vk_wp (batch_begin b) (\<lambda>(r, b1) v1. owns devs L b1 v1 \<and> (gb_cmd b \<noteq> 0 \<longrightarrow> \<not> r)) v"
proof (cases "gb_valid b")
  case True
  then obtain k where "gb_dev b = Some k" "vd_dev (devs k) \<noteq> 0" using assms by (auto simp: owns_def)
  then show ?thesis unfolding batch_begin_def
    by (intro vk_wps) (auto intro: owns_same [OF assms(1)] owns_gain [OF assms(1)] simp: held_gain)
qed (use assms in \<open>auto simp: batch_begin_def intro!: vk_wp_return\<close>)

lemma owns_cmd: "owns devs L b v \<Longrightarrow> gb_cmd b \<noteq> 0 \<Longrightarrow> (VkCommandBuffer, gb_cmd b) \<in> set (vk_live v)"
  using held_lose [of b] unfolding owns_def by blast

lemma owns_freed:
  assumes "owns devs L b v" "gb_cmd b \<noteq> 0" "vk_live v1 = removeAll (VkCommandBuffer, gb_cmd b) (vk_live v)"
  shows "owns devs L (b\<lparr>gb_cmd := 0\<rparr>) v1" "owns devs L (b\<lparr>gb_cmd := 0, gb_submits := m, gb_fence_signalled := f\<rparr>) v1"
proof -
  note h = held_lose [OF assms(2)]
  show "owns devs L (b\<lparr>gb_cmd := 0\<rparr>) v1" by (rule owns_lose [OF assms(1,3)]) (simp_all add: h)
  show "owns devs L (b\<lparr>gb_cmd := 0, gb_submits := m, gb_fence_signalled := f\<rparr>) v1"
    by (rule owns_lose [OF assms(1,3)]) (simp_all add: h held_other)
qed

lemma submit_wp:
  assumes "owns devs L b v"
  shows "vk_wp (submit_fence fv log b) (\<lambda>(r, log', b1) v1. owns devs L b1 v1 \<and>
     (if r then gb_fence_signalled b < fv \<and> gb_fence_signalled b1 = fv else gb_fence_signalled b1 = gb_fence_signalled b)) v"
  unfolding submit_fence_def Let_def
  by (intro vk_wps) (use owns_cmd [OF assms] in \<open>auto intro: owns_same [OF assms] owns_freed [OF assms]\<close>)

section \<open>Arbitrary use\<close>

text \<open>A client of the batch: any sequence of calls.\<close>

datatype batch_op = OInit nat "root_param list" | OShutdown | OAttach bool | ORegister mem_map u64 nat | OUnregister u64 | OBegin
  | OBind u32 nat | OPush u32 "u32 list option" | OCopy nat nat | OBindGpa u32 u64 | OCopyGpa u64 u64 u32 | OSubmitFence u64 | OSubmit

definition quietly :: "gpu_batch \<Rightarrow> (vk, bool) state \<Rightarrow> (vk, gpu_batch) state" where
  "quietly b m = do { _ \<leftarrow> m; State_Monad.return b }"

fun exec_op :: "(nat \<Rightarrow> vulkan_dev) \<Rightarrow> (nat \<Rightarrow> vulkan_buffer) \<Rightarrow> batch_op \<Rightarrow> gpu_batch \<Rightarrow> (vk, gpu_batch) state" where
  "exec_op devs bufs (OInit k ps) b = do { r \<leftarrow> batch_init devs k ps b; State_Monad.return (snd r) }"
| "exec_op devs bufs OShutdown b = batch_shutdown devs b"
| "exec_op devs bufs (OAttach m) b = State_Monad.return (attach_mem m b)"
| "exec_op devs bufs (ORegister mem gpa k) b = State_Monad.return (snd (register_buffer bufs mem gpa k b))"
| "exec_op devs bufs (OUnregister gpa) b = State_Monad.return (unregister_buffer gpa b)"
| "exec_op devs bufs OBegin b = do { r \<leftarrow> batch_begin b; State_Monad.return (snd r) }"
| "exec_op devs bufs (OBind root k) b = quietly b (batch_bind root (bufs k) b)"
| "exec_op devs bufs (OPush root vs) b = State_Monad.return (snd (batch_push root vs b))"
| "exec_op devs bufs (OCopy d s) b = quietly b (batch_copy (bufs d) (bufs s) b)"
| "exec_op devs bufs (OBindGpa root gpa) b = quietly b (bind_gpa bufs root gpa b)"
| "exec_op devs bufs (OCopyGpa d s n) b = quietly b (copy_gpa bufs d s n b)"
| "exec_op devs bufs (OSubmitFence fv) b = do { r \<leftarrow> submit_fence fv None b; State_Monad.return (snd (snd r)) }"
| "exec_op devs bufs OSubmit b = do { r \<leftarrow> batch_submit None b; State_Monad.return (snd (snd r)) }"

fun run_ops :: "(nat \<Rightarrow> vulkan_dev) \<Rightarrow> (nat \<Rightarrow> vulkan_buffer) \<Rightarrow> batch_op list \<Rightarrow> gpu_batch \<Rightarrow> (vk, gpu_batch) state" where
  "run_ops devs bufs [] b = State_Monad.return b"
| "run_ops devs bufs (x # xs) b = do { b1 \<leftarrow> exec_op devs bufs x b; run_ops devs bufs xs b1 }"

definition devices_live :: "(nat \<Rightarrow> vulkan_dev) \<Rightarrow> bool" where
  "devices_live devs \<longleftrightarrow> (\<forall>k. vd_valid (devs k) \<longrightarrow> vd_dev (devs k) \<noteq> 0)"

lemma quietly_wp:
  assumes "owns devs L b v" "vk_wp m (\<lambda>_ v1. vk_live v1 = vk_live v) v"
  shows "vk_wp (quietly b m) (owns devs L) v"
  unfolding quietly_def
  by (intro vk_wp_bind vk_wp_mono [OF assms(2)] vk_wp_return) (auto intro: owns_same [OF assms(1)])

lemma quiet_ops_wp:
  "vk_wp (batch_bind root buf b) (\<lambda>_ v1. vk_live v1 = vk_live v) v"
  "vk_wp (batch_copy dst src b) (\<lambda>_ v1. vk_live v1 = vk_live v) v"
  "vk_wp (bind_gpa bufs root gpa b) (\<lambda>_ v1. vk_live v1 = vk_live v) v"
  "vk_wp (copy_gpa bufs dg sg n b) (\<lambda>_ v1. vk_live v1 = vk_live v) v"
proof -
  show bind: "vk_wp (batch_bind root buf b) (\<lambda>_ v1. vk_live v1 = vk_live v) v" for root buf
    unfolding batch_bind_def Let_def by (intro vk_wps) auto
  show copy: "vk_wp (batch_copy dst src b) (\<lambda>_ v1. vk_live v1 = vk_live v) v" for dst src
    unfolding batch_copy_def by (intro vk_wps) auto
  show "vk_wp (bind_gpa bufs root gpa b) (\<lambda>_ v1. vk_live v1 = vk_live v) v"
    unfolding bind_gpa_def by (auto split: option.split intro: bind vk_wp_return)
  show "vk_wp (copy_gpa bufs dg sg n b) (\<lambda>_ v1. vk_live v1 = vk_live v) v"
    unfolding copy_gpa_def by (auto split: option.split intro: copy vk_wp_return)
qed

lemma pure_ops_held:
  "held (attach_mem m b) = held b" "held (snd (register_buffer bufs mem gpa k b)) = held b" "held (unregister_buffer gpa b) = held b"
  "held (snd (batch_push root vs b)) = held b"
  "gb_dev (attach_mem m b) = gb_dev b" "gb_dev (snd (register_buffer bufs mem gpa k b)) = gb_dev b" "gb_dev (unregister_buffer gpa b) = gb_dev b"
  "gb_dev (snd (batch_push root vs b)) = gb_dev b"
  "gb_valid (attach_mem m b) = gb_valid b" "gb_valid (snd (register_buffer bufs mem gpa k b)) = gb_valid b" "gb_valid (unregister_buffer gpa b) = gb_valid b"
  "gb_valid (snd (batch_push root vs b)) = gb_valid b"
  by (simp_all add: held_def attach_mem_def register_buffer_def unregister_buffer_def batch_push_def Let_def split: option.split)

lemma exec_op_wp:
  assumes "owns devs L b v" "devices_live devs"
  shows "vk_wp (exec_op devs bufs x b) (owns devs L) v"
proof (cases x)
  case (OInit k ps)
  have d: "vd_valid (devs k) \<longrightarrow> vd_dev (devs k) \<noteq> 0" using assms(2) by (simp add: devices_live_def)
  show ?thesis unfolding OInit exec_op.simps
    by (intro vk_wp_bind vk_wp_mono [OF init_wp [OF assms(1) d]] vk_wp_return) auto
next
  case OBegin
  show ?thesis unfolding OBegin exec_op.simps by (intro vk_wp_bind vk_wp_mono [OF begin_wp [OF assms(1)]] vk_wp_return) auto
next
  case (OSubmitFence fv)
  show ?thesis unfolding OSubmitFence exec_op.simps by (intro vk_wp_bind vk_wp_mono [OF submit_wp [OF assms(1)]] vk_wp_return) auto
next
  case OSubmit
  show ?thesis unfolding OSubmit exec_op.simps batch_submit_def by (intro vk_wp_bind vk_wp_mono [OF submit_wp [OF assms(1)]] vk_wp_return) auto
next
  case OShutdown
  show ?thesis unfolding OShutdown exec_op.simps by (rule shutdown_wp [OF assms(1)]) (rule owns_cleared)
qed (simp_all only: exec_op.simps, (rule vk_wp_return owns_same [OF assms(1)] quietly_wp [OF assms(1)] quiet_ops_wp refl pure_ops_held)+)

lemma run_ops_wp: "owns devs L b v \<Longrightarrow> devices_live devs \<Longrightarrow> vk_wp (run_ops devs bufs xs b) (owns devs L) v"
proof (induction xs arbitrary: b v)
  case (Cons x xs)
  show ?case unfolding run_ops.simps
    by (rule vk_wp_bind, rule vk_wp_mono [OF exec_op_wp [OF Cons.prems]], rule Cons.IH [OF _ Cons.prems(2)])
qed (simp add: vk_wp_return)

section \<open>Root layout\<close>

definition class_sum :: "(root_type \<Rightarrow> bool) \<Rightarrow> root_param list \<Rightarrow> nat" where
  "class_sum P ps = sum_list (map (\<lambda>p. if P (rp_type p) then unat (rp_count p) else 0) ps)"

abbreviation is_const :: "root_type \<Rightarrow> bool" where "is_const t \<equiv> t = Constants32"
abbreviation is_buf :: "root_type \<Rightarrow> bool" where "is_buf t \<equiv> t \<noteq> Constants32"

text \<open>What \<open>init\<close> establishes and every operation keeps.\<close>

definition laid_out :: "gpu_batch \<Rightarrow> bool" where
  "laid_out b \<longleftrightarrow> (\<exists>push binds. count_params (gb_params b) 0 0 = Some (push, binds) \<and> length (gb_params b) \<le> 16 \<and>
     length (gb_push_data b) = unat push \<and> gb_uniform_bindings b = binds)"

lemma class_sum_simps [simp]:
  "class_sum P [] = 0" "class_sum P (p # ps) = (if P (rp_type p) then unat (rp_count p) else 0) + class_sum P ps"
  "class_sum P (xs @ ys) = class_sum P xs + class_sum P ys"
  by (simp_all add: class_sum_def)

lemma class_sum_split:
  assumes "i < length ps"
  shows "class_sum P ps = class_sum P (take i ps) + (if P (rp_type (ps ! i)) then unat (rp_count (ps ! i)) else 0) + class_sum P (drop (Suc i) ps)"
proof -
  have "ps = take i ps @ ps ! i # drop (Suc i) ps" using assms by (rule id_take_nth_drop)
  then show ?thesis using class_sum_simps(2,3) by (metis add.assoc)
qed

lemma class_sum_below:
  assumes "i < j" "j \<le> length ps" "P (rp_type (ps ! i))"
  shows "class_sum P (take i ps) + unat (rp_count (ps ! i)) \<le> class_sum P (take j ps)"
  using class_sum_split [of i "take j ps" P] assms by simp

lemma count_params_sums:
  assumes "count_params ps a c = Some (x, y)" "unat a + 32 * length ps < 2 ^ 32" "unat c + 32 * length ps < 2 ^ 32"
  shows "unat x = unat a + class_sum is_const ps" "unat y = unat c + class_sum is_buf ps" "\<forall>p\<in>set ps. 0 < unat (rp_count p)"
proof -
  have "unat x = unat a + class_sum is_const ps \<and> unat y = unat c + class_sum is_buf ps \<and> (\<forall>p\<in>set ps. 0 < unat (rp_count p))"
    using assms
  proof (induction ps arbitrary: a c)
    case (Cons p ps)
    have n: "rp_count p \<noteq> 0" "unat (rp_count p) \<le> 32"
      using Cons.prems(1) by (auto simp: word_le_nat_alt not_less split: if_splits)
    then have pos: "0 < unat (rp_count p)" by (simp add: unat_gt_0)
    have add: "unat (a + rp_count p) = unat a + unat (rp_count p)" "unat (c + rp_count p) = unat c + unat (rp_count p)"
      using Cons.prems(2,3) n(2) by (simp_all add: unat_add_lt)
    show ?case
    proof (cases "rp_type p = Constants32")
      case True
      with Cons.prems(1) have "count_params ps (a + rp_count p) c = Some (x, y)" by (auto split: if_splits)
      from Cons.IH [OF this] Cons.prems(2,3) n(2) add True pos show ?thesis by simp
    next
      case False
      with Cons.prems(1) have "count_params ps a (c + rp_count p) = Some (x, y)" by (auto split: if_splits)
      from Cons.IH [OF this] Cons.prems(2,3) n(2) add False pos show ?thesis by simp
    qed
  qed simp
  then show "unat x = unat a + class_sum is_const ps" "unat y = unat c + class_sum is_buf ps" "\<forall>p\<in>set ps. 0 < unat (rp_count p)" by simp_all
qed

lemma preceding_sum: "class_sum P (take i ps) < 2 ^ 32 \<Longrightarrow> unat (preceding P i ps) = class_sum P (take i ps)"
proof -
  have "unat n + class_sum P xs < 2 ^ 32 \<Longrightarrow> unat (fold (\<lambda>p n. if P (rp_type p) then n + rp_count p else n) xs n) = unat n + class_sum P xs" for xs n
  proof (induction xs arbitrary: n)
    case (Cons p xs)
    show ?case
    proof (cases "P (rp_type p)")
      case True
      then have "unat (n + rp_count p) = unat n + unat (rp_count p)" using Cons.prems by (simp add: unat_add_lt)
      with True Cons.prems Cons.IH [of "n + rp_count p"] show ?thesis by simp
    qed (use Cons in simp)
  qed simp
  from this [of 0 "take i ps"] show "class_sum P (take i ps) < 2 ^ 32 \<Longrightarrow> ?thesis" by (simp add: preceding_def)
qed

lemma laid_outD:
  assumes "laid_out b"
  shows "length (gb_push_data b) = class_sum is_const (gb_params b)" "unat (gb_uniform_bindings b) = class_sum is_buf (gb_params b)"
    "i \<le> length (gb_params b) \<Longrightarrow> unat (preceding is_const i (gb_params b)) = class_sum is_const (take i (gb_params b))"
    "i \<le> length (gb_params b) \<Longrightarrow> unat (preceding is_buf i (gb_params b)) = class_sum is_buf (take i (gb_params b))"
    "\<forall>p\<in>set (gb_params b). 0 < unat (rp_count p)"
proof -
  from assms obtain push binds where p: "count_params (gb_params b) 0 0 = Some (push, binds)" "length (gb_params b) \<le> 16"
    "length (gb_push_data b) = unat push" "gb_uniform_bindings b = binds" by (auto simp: laid_out_def)
  note c = count_params_sums [OF p(1)]
  show s: "length (gb_push_data b) = class_sum is_const (gb_params b)" "unat (gb_uniform_bindings b) = class_sum is_buf (gb_params b)"
    "\<forall>p\<in>set (gb_params b). 0 < unat (rp_count p)" using c p by simp_all
  have "class_sum P (take i (gb_params b)) \<le> class_sum P (gb_params b)" for P
    using class_sum_simps(3) [of P "take i (gb_params b)" "drop i (gb_params b)"] by simp
  moreover have "class_sum is_const (gb_params b) < 2 ^ 32" "class_sum is_buf (gb_params b) < 2 ^ 32"
    using c(1,2) p(2) unat_lt2p [of push] unat_lt2p [of binds] by simp_all
  ultimately show "unat (preceding is_const i (gb_params b)) = class_sum is_const (take i (gb_params b))"
    "unat (preceding is_buf i (gb_params b)) = class_sum is_buf (take i (gb_params b))"
    by (meson preceding_sum le_less_trans)+
qed

text \<open>The constants of a root parameter, and its first descriptor binding.\<close>

definition const_slot :: "gpu_batch \<Rightarrow> nat \<Rightarrow> u32 list" where
  "const_slot b i = take (unat (rp_count (gb_params b ! i))) (drop (class_sum is_const (take i (gb_params b))) (gb_push_data b))"

definition first_binding :: "gpu_batch \<Rightarrow> nat \<Rightarrow> u32" where
  "first_binding b i = preceding is_buf i (gb_params b)"

lemma bindings_apart:
  assumes "laid_out b" "q < length (gb_params b)" "rp_type (gb_params b ! q) \<noteq> Constants32"
  shows "first_binding b q < gb_uniform_bindings b \<and>
    (\<forall>p < q. rp_type (gb_params b ! p) \<noteq> Constants32 \<longrightarrow> first_binding b p < first_binding b q)"
proof -
  let ?ps = "gb_params b"
  note l = laid_outD [OF assms(1)]
  have pos: "0 < unat (rp_count (?ps ! p))" if "p < length ?ps" for p using l(5) that by simp
  have "class_sum is_buf (take q ?ps) < class_sum is_buf ?ps"
    using class_sum_split [OF assms(2), of is_buf] assms(3) pos [OF assms(2)] by simp
  moreover have "class_sum is_buf (take p ?ps) < class_sum is_buf (take q ?ps)" if "p < q" "rp_type (?ps ! p) \<noteq> Constants32" for p
    using class_sum_below [of p q ?ps is_buf] that assms(2) pos [of p] by simp
  ultimately show ?thesis using assms(2) l(2) l(4) by (simp add: first_binding_def word_less_nat_alt)
qed

lemma slice_splice:
  assumes "n = length vs" "o1 + n \<le> length xs"
  shows "take n (drop o1 (take o1 xs @ vs @ drop (o1 + n) xs)) = vs"
    "o2 + m \<le> o1 \<or> o1 + n \<le> o2 \<Longrightarrow> o2 + m \<le> length xs \<Longrightarrow>
       take m (drop o2 (take o1 xs @ vs @ drop (o1 + n) xs)) = take m (drop o2 xs)"
  using assms by (auto simp: min_def take_drop not_le intro!: nth_equalityI simp: nth_append)

section \<open>Properties\<close>

text \<open>(C30) A batch never leaks and never destroys twice. Whatever calls a client makes, in whatever
  order and with whatever results of the Vulkan calls: afterwards the live objects are those of
  before together with the command buffer, descriptor pool, set layout and pipeline layout whose
  handles the batch holds, none of which was alive before; no object was destroyed twice or used
  after its destruction; and a \<open>shutdown\<close> leaves exactly the objects of before. The devices that are
  passed in are fixed during the calls and stay alive.\<close>

theorem batch_no_leak:
  assumes ok: "vk_ok v" and devs: "devices_live devs"
    and run: "run_state (run_ops devs bufs xs GpuBatch) v = (b, v1)" and stop: "run_state (batch_shutdown devs b) v1 = (b', v2)"
  shows "\<not> vk_misuse v1 \<and> set (vk_live v1) = set (vk_live v) \<union> held b \<and> held b \<inter> set (vk_live v) = {} \<and>
    \<not> vk_misuse v2 \<and> set (vk_live v2) = set (vk_live v) \<and> b' = clear_batch b \<and> held b' = {}"
proof -
  have "owns devs (set (vk_live v)) GpuBatch v" by (simp add: owns_simps GpuBatch_def)
  note r = vk_wpD [OF run_ops_wp [OF this devs] ok run]
  have "vk_wp (batch_shutdown devs b) (\<lambda>b1 v2. set (vk_live v2) = set (vk_live v) \<and> b1 = clear_batch b) v1"
    by (rule shutdown_wp [OF conjunct2 [OF r]]) simp
  moreover have "held (clear_batch b) = {}" by (simp add: held_def handle_obj_def clear_batch_def)
  ultimately show ?thesis using vk_wpD [OF _ conjunct1 [OF r] stop] r by (auto simp: vk_ok_def owns_def)
qed

theorem batch_no_leak_witness:
  "\<exists>b v1 b' v2. run_state (run_ops (\<lambda>_. demo_dev) (\<lambda>_. VulkanBuffer) [OInit 0 [\<lparr>rp_type = Cbv, rp_count = 1\<rparr>], OBegin] GpuBatch) (demo_vk []) = (b, v1) \<and>
     run_state (batch_shutdown (\<lambda>_. demo_dev) b) v1 = (b', v2) \<and> set (vk_live v1) = held b \<and> set (vk_live v2) = {}"
proof -
  obtain b v1 where run: "run_state (run_ops (\<lambda>_. demo_dev) (\<lambda>_. VulkanBuffer) [OInit 0 [\<lparr>rp_type = Cbv, rp_count = 1\<rparr>], OBegin] GpuBatch) (demo_vk []) = (b, v1)"
    by fastforce
  obtain b' v2 where stop: "run_state (batch_shutdown (\<lambda>_. demo_dev) b) v1 = (b', v2)" by fastforce
  have "devices_live (\<lambda>_. demo_dev)" by (simp add: devices_live_def demo_dev_def)
  moreover have "vk_live (demo_vk []) = []" by (simp add: demo_vk_def)
  ultimately show ?thesis using batch_no_leak [OF demo_vk_ok _ run stop] run stop
    by (intro exI [of _ b] exI [of _ v1] exI [of _ b'] exI [of _ v2]) simp
qed

text \<open>Root parameters do not overlap. In an initialised batch, pushing the constants of a root
  parameter is accepted exactly with the right number of values, stores them in the parameter's own
  range and leaves the constants of every other parameter alone; the descriptor bindings of
  distinct buffer parameters are distinct and inside the layout. The layout facts stay true.\<close>

lemma root_slots_exact:
  assumes b: "laid_out b" "gb_valid b" and r: "r < length (gb_params b)" "rp_type (gb_params b ! r) = Constants32" "length vs < 2 ^ 32"
  shows "\<exists>b'. batch_push (of_nat r) (Some vs) b = (length vs = unat (rp_count (gb_params b ! r)), b') \<and> laid_out b' \<and>
    (length vs = unat (rp_count (gb_params b ! r)) \<longrightarrow> const_slot b' r = vs) \<and>
    (\<forall>q < length (gb_params b). q \<noteq> r \<and> rp_type (gb_params b ! q) = Constants32 \<longrightarrow> const_slot b' q = const_slot b q) \<and>
    (\<forall>q < length (gb_params b). rp_type (gb_params b ! q) \<noteq> Constants32 \<longrightarrow> first_binding b q < gb_uniform_bindings b \<and>
       (\<forall>p < q. rp_type (gb_params b ! p) \<noteq> Constants32 \<longrightarrow> first_binding b p < first_binding b q))"
proof -
  let ?ps = "gb_params b" let ?n = "unat (rp_count (?ps ! r))" let ?o = "class_sum is_const (take r ?ps)"
  note l = laid_outD [OF b(1)]
  have len: "length ?ps \<le> 16" using b(1) by (auto simp: laid_out_def)
  then have ur: "unat (of_nat r :: u32) = r" using r(1) by (intro unat_of_nat_lt) simp
  have uv: "unat (of_nat (length vs) :: u32) = length vs" using r(3) by (intro unat_of_nat_lt) simp
  have o: "unat (preceding is_const r ?ps) = ?o" using l(3) r(1) by simp
  have fit: "?o + ?n \<le> length (gb_push_data b)" using class_sum_split [OF r(1), of is_const] r(2) l(1) by simp
  have small: "length (gb_push_data b) < 2 ^ 32" using b(1) unat_lt2p [where 'a = 32] by (auto simp: laid_out_def)
  note binding = bindings_apart [OF b(1)]
  show ?thesis
  proof (cases "length vs = ?n")
    case True
    let ?b = "b\<lparr>gb_push_data := take ?o (gb_push_data b) @ vs @ drop (?o + ?n) (gb_push_data b)\<rparr>"
    have c: "(of_nat (length vs) :: u32) = rp_count (?ps ! r)" using True by simp
    have "unat (preceding is_const r ?ps + rp_count (?ps ! r)) = ?o + ?n"
      using fit o small by (subst unat_add_lt) simp_all
    then have push: "batch_push (of_nat r) (Some vs) b = (True, ?b)"
      using True b(2) r(1,2) ur c o fit by (simp add: batch_push_def Let_def)
    have out: "laid_out ?b" using b(1) fit True by (auto simp: laid_out_def)
    have own: "const_slot ?b r = vs" using slice_splice(1) [of ?n vs ?o "gb_push_data b"] True fit by (simp add: const_slot_def)
    have "const_slot ?b q = const_slot b q" if q: "q < length ?ps" "q \<noteq> r" "rp_type (?ps ! q) = Constants32" for q
    proof -
      have "class_sum is_const (take q ?ps) + unat (rp_count (?ps ! q)) \<le> ?o \<or> ?o + ?n \<le> class_sum is_const (take q ?ps)"
        using class_sum_below [of q r ?ps is_const] class_sum_below [of r q ?ps is_const] q r(1,2) by (cases "q < r") auto
      moreover have "class_sum is_const (take q ?ps) + unat (rp_count (?ps ! q)) \<le> length (gb_push_data b)"
        using class_sum_split [OF q(1), of is_const] q(3) l(1) by simp
      ultimately show ?thesis using slice_splice(2) [of ?n vs ?o "gb_push_data b"] True fit by (simp add: const_slot_def)
    qed
    then show ?thesis using push out own binding True by (intro exI [of _ ?b]) auto
  next
    case False
    then have "(of_nat (length vs) :: u32) \<noteq> rp_count (?ps ! r)" using uv by metis
    then have "batch_push (of_nat r) (Some vs) b = (False, b)" using b(2) r(1) ur by (simp add: batch_push_def Let_def)
    then show ?thesis using b(1) binding False by (intro exI [of _ b]) simp
  qed
qed

definition demo_batch :: gpu_batch where
  "demo_batch = GpuBatch\<lparr>gb_dev := Some 0, gb_valid := True, gb_push_data := [0, 0, 0], gb_push_size := 3, gb_uniform_bindings := 2,
     gb_params := [\<lparr>rp_type = Constants32, rp_count = 1\<rparr>, \<lparr>rp_type = Table, rp_count = 2\<rparr>, \<lparr>rp_type = Constants32, rp_count = 2\<rparr>]\<rparr>"

lemma root_slots_exact_witness:
  "\<exists>b'. batch_push 2 (Some [7, 8]) demo_batch = (True, b') \<and> const_slot b' 2 = [7, 8] \<and> const_slot b' 0 = [0]"
proof -
  have b: "laid_out demo_batch" "gb_valid demo_batch" "length (gb_params demo_batch) = 3"
    "rp_type (gb_params demo_batch ! 2) = Constants32" "rp_type (gb_params demo_batch ! 0) = Constants32" "rp_count (gb_params demo_batch ! 2) = 2"
    by (simp_all add: laid_out_def demo_batch_def GpuBatch_def)
  have "const_slot demo_batch 0 = [0]" by (simp add: const_slot_def demo_batch_def GpuBatch_def)
  with root_slots_exact [OF b(1,2), of 2 "[7, 8]"] b show ?thesis by fastforce
qed

end
