(* ===== verification/Xbox_Cpu.thy ===== *)
theory Xbox_Cpu
  imports Krnl_Dispatch Xbe_Load
begin

text \<open>
  The guest processor (\<open>src/src/xbox_cpu.cpp\<close>, \<open>src/include/xbox_cpu.h\<close>): the runtime with its
  top-down page allocator and thread environment blocks, the processors that mirror the guest RAM
  window into an emulation engine, and the loop that runs guest code and serves its kernel calls.

  The engine (Unicorn) is not part of the sources. Its registers and the page table that successful
  mapping calls have built are the record \<open>uc_engine\<close>; what its calls answer, and what a stretch of
  emulation does, are the fields of the argument \<open>uc_host\<close>. A stretch is described by the hook calls
  it makes, the registers and memory it leaves and its error code. The window and the kernel's
  window are one object, \<open>kr_ram\<close>; the processors live in a heap, so that a pointer is an index.
\<close>

section \<open>The engine\<close>

datatype uc_reg = EAX | ECX | EDX | EBX | ESP | EBP | ESI | EDI | EIP | CS | DS | ES | SS | FS

record uc_engine =
  ue_regs :: "uc_reg \<Rightarrow> u32"
  ue_gdtr :: "u32 \<times> u32"
  ue_pages :: "nat \<rightharpoonup> u32"

datatype uc_mem_type = ReadUnmapped | WriteUnmapped | FetchUnmapped | WriteProtected | ReadProtected | OtherFault

text \<open>Hook calls: an instruction at an address, or a memory fault of a kind at an address with the
  instruction pointer the hook reads.\<close>

datatype emu_event = CodeAt u64 | FaultAt uc_mem_type u64 u32

record emu_result =
  er_events :: "emu_event list"
  er_regs :: "uc_reg \<Rightarrow> u32"
  er_mem :: "32 mem"
  er_err :: u32

record uc_host =
  uh_open :: "uc_engine option"
  uh_map :: "uc_engine \<Rightarrow> u32 \<Rightarrow> u32 \<Rightarrow> bool"
  uh_unmap :: "uc_engine \<Rightarrow> u32 \<Rightarrow> u32 \<Rightarrow> bool"
  uh_hooks :: bool
  uh_emu :: "uc_engine \<Rightarrow> xbe_ram \<Rightarrow> u64 \<Rightarrow> u64 \<Rightarrow> emu_result"
  uh_strerror :: "u32 \<Rightarrow> string"

definition UC_PROT_READ :: u32 where "UC_PROT_READ = 1"
definition UC_PROT_WRITE :: u32 where "UC_PROT_WRITE = 2"
definition UC_PROT_EXEC :: u32 where "UC_PROT_EXEC = 4"

text \<open>The pages of a range of engine addresses, which are not reduced to 32 bits.\<close>

definition span :: "u32 \<Rightarrow> u32 \<Rightarrow> nat set" where
  "span va len = {unat va div 4096 ..< (unat va + unat len) div 4096}"

definition uc_mem_map_ptr :: "uc_host \<Rightarrow> u32 \<Rightarrow> u32 \<Rightarrow> u32 \<Rightarrow> uc_engine \<Rightarrow> bool \<times> uc_engine" where
  "uc_mem_map_ptr h va len perms e =
     (if uh_map h e va len
      then (True, e\<lparr>ue_pages := (\<lambda>p. if p \<in> span va len then Some perms else ue_pages e p)\<rparr>)
      else (False, e))"

definition uc_mem_unmap :: "uc_host \<Rightarrow> u32 \<Rightarrow> u32 \<Rightarrow> uc_engine \<Rightarrow> bool \<times> uc_engine" where
  "uc_mem_unmap h va len e =
     (if uh_unmap h e va len
      then (True, e\<lparr>ue_pages := (\<lambda>p. if p \<in> span va len then None else ue_pages e p)\<rparr>)
      else (False, e))"

section \<open>State\<close>

definition kPage :: u32 where "kPage = 0x1000"
definition kGdtVa :: u32 where "kGdtVa = kHleMarker + kPage"
definition kExitVa :: u32 where "kExitVa = kHleMarker OR 0x0FFF"
definition kSelCs :: u32 where "kSelCs = 0x08"
definition kSelDs :: u32 where "kSelDs = 0x10"
definition kSelFs :: u32 where "kSelFs = 0x18"

definition page_round :: "u32 \<Rightarrow> u32" where
  "page_round v = (v + kPage - 1) AND NOT (kPage - 1)"

datatype fault_kind = NoFault | UnmappedRead | UnmappedWrite | UnmappedFetch | WriteProt | ReadProt
  | UnimplementedImport | InstructionLimit | EmuError

definition kind_name :: "fault_kind \<Rightarrow> string" where
  "kind_name k = (case k of
     NoFault \<Rightarrow> ''none'' | UnmappedRead \<Rightarrow> ''unmapped-read'' | UnmappedWrite \<Rightarrow> ''unmapped-write''
   | UnmappedFetch \<Rightarrow> ''unmapped-fetch'' | WriteProt \<Rightarrow> ''write-to-readonly'' | ReadProt \<Rightarrow> ''read-protected''
   | UnimplementedImport \<Rightarrow> ''unimplemented-import'' | InstructionLimit \<Rightarrow> ''instruction-limit'' | EmuError \<Rightarrow> ''emu-error'')"

record guest_fault =
  fa_kind :: fault_kind
  fa_va :: u32
  fa_eip :: u32
  fa_ordinal :: u32
  fa_detail :: string

definition GuestFault :: guest_fault where
  "GuestFault = \<lparr>fa_kind = NoFault, fa_va = 0, fa_eip = 0, fa_ordinal = 0, fa_detail = []\<rparr>"

record guest_cpu =
  gc_uc :: "uc_engine option"
  gc_teb_va :: u32
  gc_stub_buf :: "u8 list"
  gc_gdt_buf :: "u8 list"
  gc_mapped :: "(u32 \<times> u32) list"
  gc_pending_ordinal :: u32
  gc_pending_addr :: u32
  gc_pending_ret :: u32
  gc_pending_esp :: u32
  gc_fault :: guest_fault
  gc_instructions :: u64
  gc_served :: "u32 list"

definition GuestCpu :: guest_cpu where
  "GuestCpu = \<lparr>gc_uc = None, gc_teb_va = 0, gc_stub_buf = [], gc_gdt_buf = [], gc_mapped = [],
     gc_pending_ordinal = 0, gc_pending_addr = 0, gc_pending_ret = 0, gc_pending_esp = 0,
     gc_fault = GuestFault, gc_instructions = 0, gc_served = []\<rparr>"

record runtime =
  rt_krnl :: krnl
  rt_tls_raw :: "u8 list"
  rt_tls_zerofill :: u32
  rt_tls_index_written :: u32
  rt_top :: u32
  rt_cpus :: "nat list"
  rt_heap :: "nat \<Rightarrow> guest_cpu"

abbreviation rt_ram :: "runtime \<Rightarrow> xbe_ram" where
  "rt_ram rt \<equiv> kr_ram (rt_krnl rt)"

definition upd_ram :: "(xbe_ram \<Rightarrow> xbe_ram) \<Rightarrow> runtime \<Rightarrow> runtime" where
  "upd_ram f rt = rt\<lparr>rt_krnl := (rt_krnl rt)\<lparr>kr_ram := f (rt_ram rt)\<rparr>\<rparr>"

definition upd_cpu :: "nat \<Rightarrow> (guest_cpu \<Rightarrow> guest_cpu) \<Rightarrow> runtime \<Rightarrow> runtime" where
  "upd_cpu i f rt = rt\<lparr>rt_heap := (rt_heap rt)(i := f (rt_heap rt i))\<rparr>"

section \<open>Registers and faults\<close>

definition reg :: "uc_reg \<Rightarrow> guest_cpu \<Rightarrow> u32" where
  "reg r c = (case gc_uc c of None \<Rightarrow> 0 | Some e \<Rightarrow> ue_regs e r)"

definition uc_reg_write :: "uc_reg \<Rightarrow> u32 \<Rightarrow> guest_cpu \<Rightarrow> guest_cpu" where
  "uc_reg_write r v c = c\<lparr>gc_uc := map_option (\<lambda>e. e\<lparr>ue_regs := (ue_regs e)(r := v)\<rparr>) (gc_uc c)\<rparr>"

text \<open>The first fault is kept; \<open>eip\<close> is the instruction pointer read at that moment.\<close>

definition record_fault :: "fault_kind \<Rightarrow> u32 \<Rightarrow> string \<Rightarrow> u32 \<Rightarrow> guest_cpu \<Rightarrow> guest_cpu" where
  "record_fault kind va why eip c =
     (if fa_kind (gc_fault c) = NoFault
      then c\<lparr>gc_fault := (gc_fault c)\<lparr>fa_kind := kind, fa_va := va, fa_eip := eip, fa_detail := why\<rparr>\<rparr>
      else c)"

section \<open>Mapping guest RAM\<close>

text \<open>Results of operations with an error text; \<open>Err None\<close> is failure without a message.\<close>

datatype status = Okay | Err "string option"

definition covered :: "u32 \<Rightarrow> u32 \<Rightarrow> (u32 \<times> u32) list \<Rightarrow> bool" where
  "covered lo hi rs \<longleftrightarrow> (\<exists>(va, sz)\<in>set rs. lo \<ge> va \<and> hi \<le> va + sz)"

definition map_perms :: "bool \<Rightarrow> u32" where
  "map_perms ro = (if ro then UC_PROT_READ OR UC_PROT_EXEC else UC_PROT_READ OR UC_PROT_WRITE OR UC_PROT_EXEC)"

definition map_range :: "uc_host \<Rightarrow> xbe_ram \<Rightarrow> u32 \<Rightarrow> u32 \<Rightarrow> bool \<Rightarrow> guest_cpu \<Rightarrow> status \<times> guest_cpu" where
  "map_range h r va sz ro c =
     (case gc_uc c of
        None \<Rightarrow> (Err None, c)
      | Some e \<Rightarrow>
          let lo = va AND NOT (kPage - 1); hi = page_round (va + sz); len = hi - lo in
          if covered lo hi (gc_mapped c) then (Okay, c)
          else if host_ptr r lo = None then (Err (Some ''map_range: pages not committed''), c)
          else (case uc_mem_map_ptr h lo len (map_perms ro) e of (ok, e') \<Rightarrow>
                  if \<not> ok then (Err (Some ''uc_mem_map_ptr failed''), c)
                  else (Okay, c\<lparr>gc_uc := Some e', gc_mapped := gc_mapped c @ [(lo, len)]\<rparr>)))"

definition trim :: "u32 \<Rightarrow> u32 \<Rightarrow> u32 \<times> u32 \<Rightarrow> (u32 \<times> u32) list" where
  "trim lo hi = (\<lambda>(va, sz).
     let r_end = va + sz in
     if r_end \<le> lo \<or> va \<ge> hi then [(va, sz)]
     else (if va < lo then [(va, lo - va)] else []) @ (if r_end > hi then [(hi, r_end - hi)] else []))"

definition unmap_range :: "uc_host \<Rightarrow> u32 \<Rightarrow> u32 \<Rightarrow> guest_cpu \<Rightarrow> bool \<times> guest_cpu" where
  "unmap_range h va sz c =
     (case gc_uc c of
        None \<Rightarrow> (False, c)
      | Some e \<Rightarrow>
          let lo = va AND NOT (kPage - 1); hi = page_round (va + sz); len = hi - lo in
          (case uc_mem_unmap h lo len e of (ok, e') \<Rightarrow>
             if \<not> ok then (False, c)
             else (True, c\<lparr>gc_uc := Some e', gc_mapped := concat (map (trim lo hi) (gc_mapped c))\<rparr>)))"

section \<open>Attaching a processor\<close>

text \<open>The inner loop of \<open>attach\<close>: from \<open>end\<close> on, pages are added as long as they are committed and
  \<open>writable(end) == ro\<close>. \<open>fuel\<close> bounds the number of pages.\<close>

fun class_end :: "nat \<Rightarrow> xbe_ram \<Rightarrow> u32 \<Rightarrow> bool \<Rightarrow> u32 \<Rightarrow> u32" where
  "class_end 0 r ram_size ro e = e"
| "class_end (Suc n) r ram_size ro e =
     (if e < ram_size \<and> is_committed r e 1 \<and> writable r e 1 = ro then class_end n r ram_size ro (e + kPage) else e)"

fun attach_ranges :: "nat \<Rightarrow> uc_host \<Rightarrow> xbe_ram \<Rightarrow> u32 \<Rightarrow> u32 \<Rightarrow> guest_cpu \<Rightarrow> status \<times> guest_cpu" where
  "attach_ranges 0 h r ram_size addr c = (Okay, c)"
| "attach_ranges (Suc n) h r ram_size addr c =
     (if \<not> addr < ram_size then (Okay, c)
      else if \<not> is_committed r addr 1 then attach_ranges n h r ram_size (addr + kPage) c
      else let ro = (\<not> writable r addr 1); e = class_end (unat ram_size div 4096 + 1) r ram_size ro (addr + kPage) in
        (case map_range h r addr (e - addr) ro c of (st, c') \<Rightarrow>
           if st \<noteq> Okay then (st, c'\<lparr>gc_uc := None\<rparr>)
           else attach_ranges n h r ram_size e c'))"

definition put_desc :: "u32 \<Rightarrow> u32 \<Rightarrow> u8 \<Rightarrow> u8 \<Rightarrow> u8 list" where
  "put_desc base limit access flags =
     [ucast (limit AND 0xFF), ucast (drop_bit 8 limit AND 0xFF), ucast (base AND 0xFF), ucast (drop_bit 8 base AND 0xFF),
      ucast (drop_bit 16 base AND 0xFF), access,
      push_bit 4 (flags AND 0x0F) OR ucast (drop_bit 16 limit AND 0x0F), ucast (drop_bit 24 base AND 0xFF)]"

definition build_gdt :: "guest_cpu \<Rightarrow> guest_cpu" where
  "build_gdt c = c\<lparr>
     gc_gdt_buf := put_desc 0 0 0 0 @ put_desc 0 0xFFFFF 0x9A 0xC @ put_desc 0 0xFFFFF 0x92 0xC @
       put_desc (gc_teb_va c) 0xFFF 0x92 0x4 @ drop 32 (gc_gdt_buf c),
     gc_uc := map_option (\<lambda>e. e\<lparr>ue_gdtr := (kGdtVa, 4 * 8 - 1)\<rparr>) (gc_uc c)\<rparr>"

definition load_selectors :: "guest_cpu \<Rightarrow> guest_cpu" where
  "load_selectors c = uc_reg_write FS kSelFs (uc_reg_write SS kSelDs (uc_reg_write ES kSelDs
     (uc_reg_write DS kSelDs (uc_reg_write CS kSelCs c))))"

text \<open>Mapping the marker page and the page of the descriptor table.\<close>

definition map_service_pages :: "uc_host \<Rightarrow> guest_cpu \<Rightarrow> bool \<times> guest_cpu" where
  "map_service_pages h c =
     (case gc_uc c of
        None \<Rightarrow> (False, c)
      | Some e \<Rightarrow>
          (case uc_mem_map_ptr h kHleMarker kPage (UC_PROT_READ OR UC_PROT_EXEC) e of (ok1, e1) \<Rightarrow>
             if \<not> ok1 then (False, c\<lparr>gc_uc := None\<rparr>)
             else (case uc_mem_map_ptr h kGdtVa kPage UC_PROT_READ e1 of (ok2, e2) \<Rightarrow>
                if \<not> ok2 then (False, c\<lparr>gc_uc := None\<rparr>)
                else (True, c\<lparr>gc_uc := Some e2, gc_mapped := gc_mapped c @ [(kHleMarker, kPage), (kGdtVa, kPage)]\<rparr>))))"

definition register_cpu :: "nat \<Rightarrow> runtime \<Rightarrow> runtime" where
  "register_cpu i rt = rt\<lparr>rt_cpus := rt_cpus rt @ [i]\<rparr>"

definition unregister_cpu :: "nat \<Rightarrow> runtime \<Rightarrow> runtime" where
  "unregister_cpu i rt = rt\<lparr>rt_cpus := remove1 i (rt_cpus rt)\<rparr>"

definition attach_cpu :: "uc_host \<Rightarrow> xbe_ram \<Rightarrow> guest_cpu \<Rightarrow> status \<times> guest_cpu" where
  "attach_cpu h r c =
     (case uh_open h of
        None \<Rightarrow> (Err (Some ''uc_open(x86, 32) failed''), c)
      | Some e \<Rightarrow>
          let ram_size = of_nat (xr_size r) in
          (case attach_ranges (unat ram_size div 4096 + 1) h r ram_size 0 (c\<lparr>gc_uc := Some e\<rparr>) of (st, c1) \<Rightarrow>
             if st \<noteq> Okay then (st, c1)
             else (case map_service_pages h (c1\<lparr>gc_stub_buf := replicate 4096 0xC3, gc_gdt_buf := replicate 4096 0\<rparr>) of (ok, c2) \<Rightarrow>
                if \<not> ok then (Err (Some ''mapping HLE/GDT pages failed''), c2)
                else let c3 = load_selectors (build_gdt c2) in
                  if \<not> uh_hooks h then (Err (Some ''uc_hook_add failed''), c3\<lparr>gc_uc := None\<rparr>)
                  else (Okay, c3))))"

definition attach :: "uc_host \<Rightarrow> nat \<Rightarrow> runtime \<Rightarrow> status \<times> runtime" where
  "attach h i rt =
     (if gc_uc (rt_heap rt i) \<noteq> None then (Okay, rt)
      else (case attach_cpu h (rt_ram rt) (rt_heap rt i) of (st, c) \<Rightarrow>
        let rt' = upd_cpu i (\<lambda>_. c) rt in
        (st, if st = Okay then register_cpu i rt' else rt')))"

definition attached :: "guest_cpu \<Rightarrow> bool" where
  "attached c \<longleftrightarrow> gc_uc c \<noteq> None"

definition set_teb :: "u32 \<Rightarrow> guest_cpu \<Rightarrow> guest_cpu" where
  "set_teb va c = c\<lparr>gc_teb_va := va\<rparr>"

text \<open>The destructor of a processor.\<close>

definition destroy_cpu :: "nat \<Rightarrow> runtime \<Rightarrow> runtime" where
  "destroy_cpu i rt =
     (if gc_uc (rt_heap rt i) = None then rt
      else upd_cpu i (\<lambda>c. c\<lparr>gc_uc := None\<rparr>) (unregister_cpu i rt))"

section \<open>The runtime\<close>

definition UnicornRuntime :: "krnl \<Rightarrow> runtime" where
  "UnicornRuntime k =
     \<lparr>rt_krnl = k\<lparr>kr_mem_obs := True, kr_thread_runner := True\<rparr>, rt_tls_raw = [], rt_tls_zerofill = 0,
      rt_tls_index_written = 0,
      rt_top = (if kr_kernel_data_va k \<noteq> 0 then kr_kernel_data_va k else of_nat (xr_size (kr_ram k)) - kPage),
      rt_cpus = [], rt_heap = (\<lambda>_. GuestCpu)\<rparr>"

definition destroy_runtime :: "runtime \<Rightarrow> runtime" where
  "destroy_runtime rt =
     rt\<lparr>rt_krnl := (rt_krnl rt)\<lparr>kr_mem_obs := False, kr_thread_runner := False\<rparr>, rt_cpus := [],
        rt_heap := (\<lambda>i. if i \<in> set (rt_cpus rt) then (rt_heap rt i)\<lparr>gc_uc := None\<rparr> else rt_heap rt i)\<rparr>"

definition map_on_all :: "uc_host \<Rightarrow> u32 \<Rightarrow> u32 \<Rightarrow> bool \<Rightarrow> runtime \<Rightarrow> runtime" where
  "map_on_all h va sz ro rt = fold (\<lambda>i. upd_cpu i (\<lambda>c. snd (map_range h (rt_ram rt) va sz ro c))) (rt_cpus rt) rt"

definition unmap_on_all :: "uc_host \<Rightarrow> u32 \<Rightarrow> u32 \<Rightarrow> runtime \<Rightarrow> runtime" where
  "unmap_on_all h va sz rt = fold (\<lambda>i. upd_cpu i (\<lambda>c. snd (unmap_range h va sz c))) (rt_cpus rt) rt"

text \<open>The memory observer that the constructor installs, and the new kernel state of a call together
  with the observer calls it has made.\<close>

definition mirror :: "uc_host \<Rightarrow> bool \<times> u32 \<times> u32 \<times> bool \<Rightarrow> runtime \<Rightarrow> runtime" where
  "mirror h = (\<lambda>(freed, va, sz, ro). if freed then unmap_on_all h va sz else map_on_all h va sz ro)"

definition absorb :: "uc_host \<Rightarrow> krnl \<Rightarrow> runtime \<Rightarrow> runtime" where
  "absorb h k rt = fold (mirror h) (drop (length (kr_mem_log (rt_krnl rt))) (kr_mem_log k)) (rt\<lparr>rt_krnl := k\<rparr>)"

text \<open>\<open>set_image\<close>; the outer \<open>None\<close> is the overrun of the template buffer.\<close>

definition set_image :: "xbe_image \<Rightarrow> runtime \<Rightarrow> (status \<times> runtime) option" where
  "set_image img rt =
     (if \<not> xi_tls_present img then Some (Err (Some ''image has no TLS directory''), rt)
      else let lx = \<lparr>lx_image = img, lx_ram = rt_ram rt\<rparr> in
        map_option (\<lambda>raw.
          let lx' = snd (write_tls_index 0 lx) in
          (Okay, upd_ram (\<lambda>_. lx_ram lx') (rt\<lparr>rt_tls_raw := raw, rt_tls_zerofill := t_zero_fill (xi_tls img),
             rt_tls_index_written := 0\<rparr>))) (tls_template lx))"

definition has_tls_template :: "runtime \<Rightarrow> bool" where
  "has_tls_template rt \<longleftrightarrow> rt_tls_raw rt \<noteq> [] \<or> rt_tls_zerofill rt \<noteq> 0"

text \<open>The top-down allocator; \<open>None\<close> stands for \<open>memset\<close> into pages that are not writable.\<close>

definition alloc_pages :: "uc_host \<Rightarrow> u32 \<Rightarrow> runtime \<Rightarrow> (u32 \<times> runtime) option" where
  "alloc_pages h bytes rt =
     (let sz = page_round bytes; flr = rt_top rt - 0x800000; base = rt_top rt - sz in
      if bytes = 0 \<or> sz > rt_top rt \<or> base < flr then Some (0, rt)
      else (case commit base sz (rt_ram rt) of (ok, r) \<Rightarrow>
        let rt1 = upd_ram (\<lambda>_. r) rt in
        if \<not> ok then Some (0, rt1)
        else if \<not> writable r base sz then None
        else Some (base, map_on_all h base sz False
               (upd_ram (\<lambda>r. r\<lparr>xr_mem := store_bytes base (replicate (unat sz) 0) (xr_mem r)\<rparr>) (rt1\<lparr>rt_top := base\<rparr>)))))"

definition alloc_stack :: "uc_host \<Rightarrow> u32 \<Rightarrow> runtime \<Rightarrow> ((u32 \<times> u32) \<times> runtime) option" where
  "alloc_stack h bytes rt = map_option (\<lambda>(base, rt').
     ((if base = 0 then 0 else base + page_round bytes, base), rt')) (alloc_pages h bytes rt)"

text \<open>\<open>build_teb\<close>; \<open>None\<close> also when \<open>0x200 + data_size\<close> wraps, so that the copy leaves the block.\<close>

definition teb_bytes :: "u32 \<Rightarrow> u8 list \<Rightarrow> 32 mem \<Rightarrow> 32 mem" where
  "teb_bytes base raw m =
     store_bytes (base + 0x200) raw (store_bytes (base + 0x100) (le_bytes 4 (base + 0x200))
       (store_bytes (base + 0x04) (le_bytes 4 (base + 0x100)) (store_bytes (base + 0x18) (le_bytes 4 base) m)))"

definition build_teb :: "uc_host \<Rightarrow> runtime \<Rightarrow> (u32 \<times> runtime) option" where
  "build_teb h rt =
     (let data_size = of_nat (length (rt_tls_raw rt)); total = 0x200 + data_size in
      case alloc_pages h total rt of
        None \<Rightarrow> None
      | Some (base, rt1) \<Rightarrow>
          if base = 0 then Some (0, rt1)
          else if host_ptr (rt_ram rt1) base = None then Some (0, rt1)
          else if total < data_size then None
          else Some (base, upd_ram (\<lambda>r. r\<lparr>xr_mem := teb_bytes base (take (unat data_size) (rt_tls_raw rt)) (xr_mem r)\<rparr>) rt1))"

end
