(* ===== verification/Xbox_Cpu_Run.thy ===== *)
theory Xbox_Cpu_Run
  imports Xbox_Cpu
begin

text \<open>
  Running guest code (\<open>src/src/xbox_cpu.cpp\<close>): the two hooks, \<open>handle_hle_call\<close> with the three
  calling conventions and the virtual return, the loop of \<open>GuestCpu::run\<close>, and the body of a system
  thread. A kernel call may block its fiber: the loop then stops with the frame of the suspended
  \<open>handle_hle_call\<close>, and \<open>run_resume\<close> continues it with the outcome of the resumed kernel call.
\<close>

section \<open>Hooks\<close>

definition is_marker :: "u32 \<Rightarrow> bool" where
  "is_marker a \<longleftrightarrow> a AND NOT (kPage * 16 - 1) = kHleMarker"

definition code_hook :: "u64 \<Rightarrow> guest_cpu \<Rightarrow> guest_cpu" where
  "code_hook addr c =
     (let a = ucast addr in
      if is_marker a then c\<lparr>gc_pending_ordinal := a AND 0xFFFF, gc_pending_addr := a\<rparr>
      else c\<lparr>gc_instructions := gc_instructions c + 1\<rparr>)"

definition mem_hook :: "uc_mem_type \<Rightarrow> u64 \<Rightarrow> u32 \<Rightarrow> guest_cpu \<Rightarrow> guest_cpu" where
  "mem_hook ty addr eip c =
     (let va = ucast addr in
      case ty of
        ReadUnmapped \<Rightarrow> record_fault UnmappedRead va ''guest read of unmapped memory'' eip c
      | WriteUnmapped \<Rightarrow> record_fault UnmappedWrite va ''guest write to unmapped memory'' eip c
      | FetchUnmapped \<Rightarrow>
          if addr \<ge> 0x80000000
          then let ord = va AND 0x7FFFFFFF in
            c\<lparr>gc_fault := (gc_fault c)\<lparr>fa_kind := UnimplementedImport, fa_va := va, fa_ordinal := ord,
               fa_detail := ''call through unimplemented kernel import: '' @ name_of ord\<rparr>\<rparr>
          else record_fault UnmappedFetch va ''guest fetch from unmapped memory'' eip c
      | WriteProtected \<Rightarrow> record_fault WriteProt va ''guest write to read-only memory'' eip c
      | ReadProtected \<Rightarrow> record_fault ReadProt va ''guest read of protected memory'' eip c
      | OtherFault \<Rightarrow> record_fault EmuError va ''guest memory fault'' eip c)"

definition deliver :: "emu_event \<Rightarrow> guest_cpu \<Rightarrow> guest_cpu" where
  "deliver ev = (case ev of CodeAt addr \<Rightarrow> code_hook addr | FaultAt ty addr eip \<Rightarrow> mem_hook ty addr eip)"

text \<open>\<open>uc_emu_start\<close>: the hooks are called in order, then the engine has its final registers and the
  window its final contents. \<open>max - instructions\<close> is the remaining budget.\<close>

definition emu_start :: "uc_host \<Rightarrow> nat \<Rightarrow> u64 \<Rightarrow> u64 \<Rightarrow> runtime \<Rightarrow> u32 \<times> runtime" where
  "emu_start h i eip budget rt =
     (case gc_uc (rt_heap rt i) of
        None \<Rightarrow> (0, rt)
      | Some e \<Rightarrow>
          let res = uh_emu h e (rt_ram rt) eip budget in
          (er_err res,
           upd_ram (\<lambda>r. r\<lparr>xr_mem := er_mem res\<rparr>)
            (upd_cpu i (\<lambda>c. (fold deliver (er_events res) c)\<lparr>gc_uc := Some (e\<lparr>ue_regs := er_regs res\<rparr>)\<rparr>) rt)))"

section \<open>Kernel calls\<close>

definition stack_arg :: "xbe_ram \<Rightarrow> u32 \<Rightarrow> nat \<Rightarrow> u32" where
  "stack_arg r esp j = (case read32 r (esp + 4 + 4 * of_nat j) of None \<Rightarrow> 0 | Some v \<Rightarrow> v)"

text \<open>The arguments a handler receives and the number of stack bytes the callee pops. The array of
  arguments has 14 entries.\<close>

definition hle_args :: "kexport \<Rightarrow> xbe_ram \<Rightarrow> guest_cpu \<Rightarrow> u32 list \<times> u32" where
  "hle_args exp r c =
     (let esp = reg ESP c; total = ex_arg_bytes exp in
      case ex_conv exp of
        Stdcall \<Rightarrow> (map (stack_arg r esp) [0..<min 14 (unat (total div 4))], total)
      | Fastcall \<Rightarrow>
          let regs = reg ECX c # (if total > 4 then [reg EDX c] else []);
            bytes = (if total > 8 then total - 8 else 0) in
          (regs @ map (stack_arg r esp) [0..<min (14 - length regs) ((unat bytes + 3) div 4)], bytes)
      | Cdecl \<Rightarrow> (map (stack_arg r esp) [0..<13], 0)
      | Data \<Rightarrow> ([], 0))"

definition import_fault :: "u32 \<Rightarrow> guest_cpu \<Rightarrow> guest_cpu" where
  "import_fault ordinal c = c\<lparr>gc_fault :=
     \<lparr>fa_kind = UnimplementedImport, fa_va = gc_pending_addr c, fa_eip = reg EIP c, fa_ordinal = ordinal,
      fa_detail = ''kernel import not implemented: '' @ name_of ordinal\<rparr>\<rparr>"

text \<open>The locals of \<open>handle_hle_call\<close> that survive the kernel call.\<close>

record hle_frame =
  hf_ordinal :: u32
  hf_esp :: u32
  hf_stack_bytes :: u32

datatype hle_result = Handled runtime | Waiting hle_frame runtime | Gone runtime | Undefined

text \<open>The virtual return: \<open>EAX\<close>, \<open>EDX\<close> for 64-bit results, the return address popped, \<open>ESP\<close> past the
  arguments the callee removes.\<close>

definition virtual_return :: "hle_frame \<Rightarrow> u32 \<Rightarrow> u32 \<Rightarrow> xbe_ram \<Rightarrow> guest_cpu \<Rightarrow> guest_cpu" where
  "virtual_return f eax edx r c =
     (let c1 = uc_reg_write EAX eax c;
        c2 = (if returns_64 (hf_ordinal f) then uc_reg_write EDX edx c1 else c1);
        ra = (case read32 r (hf_esp f) of None \<Rightarrow> 0 | Some v \<Rightarrow> v);
        sp = hf_esp f + 4 + hf_stack_bytes f in
      uc_reg_write EIP ra (uc_reg_write ESP sp (c2\<lparr>gc_pending_ret := ra, gc_pending_esp := sp\<rparr>)))"

definition hle_finish :: "uc_host \<Rightarrow> nat \<Rightarrow> hle_frame \<Rightarrow> outcome \<Rightarrow> runtime \<Rightarrow> hle_result" where
  "hle_finish h i f out rt =
     (case out of
        Ret eax ok edx k \<Rightarrow>
          let rt1 = absorb h k rt in
          if \<not> ok then Handled (upd_cpu i (import_fault (hf_ordinal f)) rt1)
          else Handled (upd_cpu i (virtual_return f eax (case edx of None \<Rightarrow> 0 | Some v \<Rightarrow> v) (rt_ram rt1)) rt1)
      | Block k \<Rightarrow> Waiting f (absorb h k rt)
      | Exit k \<Rightarrow> Gone (absorb h k rt)
      | RunGuest _ _ \<Rightarrow> Undefined
      | Crash \<Rightarrow> Undefined)"

definition handle_hle_call ::
  "uc_host \<Rightarrow> (u8 list \<Rightarrow> u32 \<Rightarrow> u8 list) \<Rightarrow> (u64 \<Rightarrow> u64 option) \<Rightarrow> nat \<Rightarrow> u32 \<Rightarrow> runtime \<Rightarrow> hle_result" where
  "handle_hle_call h fmt mm i ordinal rt =
     (case find_export ordinal of
        None \<Rightarrow> Handled (upd_cpu i (import_fault ordinal) rt)
      | Some exp \<Rightarrow>
          if ex_conv exp = Data then Handled (upd_cpu i (import_fault ordinal) rt)
          else let c = rt_heap rt i; (args, bytes) = hle_args exp (rt_ram rt) c in
            hle_finish h i \<lparr>hf_ordinal = ordinal, hf_esp = reg ESP c, hf_stack_bytes = bytes\<rparr>
              (call fmt mm ordinal args (rt_krnl rt)) rt)"

section \<open>The run loop\<close>

datatype round = Next u64 runtime | Return bool runtime | Suspend hle_frame runtime | Ended runtime | Wild

definition after_hle :: "nat \<Rightarrow> u32 \<Rightarrow> hle_result \<Rightarrow> round" where
  "after_hle i ordinal res =
     (case res of
        Handled rt \<Rightarrow>
          let rt1 = upd_cpu i (\<lambda>c. c\<lparr>gc_served := gc_served c @ [ordinal]\<rparr>) rt in
          if fa_kind (gc_fault (rt_heap rt1 i)) \<noteq> NoFault then Return False rt1
          else Next (ucast (gc_pending_ret (rt_heap rt1 i))) rt1
      | Waiting f rt \<Rightarrow> Suspend f rt
      | Gone rt \<Rightarrow> Ended rt
      | Undefined \<Rightarrow> Wild)"

definition budget_fault :: "u32 \<Rightarrow> guest_cpu \<Rightarrow> guest_cpu" where
  "budget_fault va c = record_fault InstructionLimit va ''did not exit within the instruction budget'' (reg EIP c) c"

definition emu_error :: "string \<Rightarrow> guest_cpu \<Rightarrow> guest_cpu" where
  "emu_error why c = (if fa_kind (gc_fault c) = NoFault
     then c\<lparr>gc_fault := (gc_fault c)\<lparr>fa_kind := EmuError, fa_va := reg EIP c, fa_eip := reg EIP c, fa_detail := why\<rparr>\<rparr>
     else c)"

definition run_round ::
  "uc_host \<Rightarrow> (u8 list \<Rightarrow> u32 \<Rightarrow> u8 list) \<Rightarrow> (u64 \<Rightarrow> u64 option) \<Rightarrow> nat \<Rightarrow> u64 \<Rightarrow> u64 \<Rightarrow> runtime \<Rightarrow> round" where
  "run_round h fmt mm i max_instructions eip rt =
     (let used = gc_instructions (rt_heap rt i) in
      if used \<ge> max_instructions then Return False (upd_cpu i (budget_fault (ucast eip)) rt)
      else case emu_start h i eip (max_instructions - used) rt of (err, rt1) \<Rightarrow>
        let c = rt_heap rt1 i in
        if fa_kind (gc_fault c) \<noteq> NoFault then Return False rt1
        else if err \<noteq> 0 then Return False (upd_cpu i (emu_error (uh_strerror h err)) rt1)
        else if reg EIP c = kExitVa then Return True rt1
        else if gc_pending_ordinal c \<noteq> 0
        then after_hle i (gc_pending_ordinal c)
               (handle_hle_call h fmt mm i (gc_pending_ordinal c) (upd_cpu i (\<lambda>c. c\<lparr>gc_pending_ordinal := 0\<rparr>) rt1))
        else Return False (upd_cpu i (budget_fault (reg EIP c)) rt1))"

text \<open>The loop with a bound on the number of rounds; \<open>None\<close> when it is used up.\<close>

fun run_loop ::
  "nat \<Rightarrow> uc_host \<Rightarrow> (u8 list \<Rightarrow> u32 \<Rightarrow> u8 list) \<Rightarrow> (u64 \<Rightarrow> u64 option) \<Rightarrow> nat \<Rightarrow> u64 \<Rightarrow> u64 \<Rightarrow> runtime \<Rightarrow> round option" where
  "run_loop 0 h fmt mm i max_instructions eip rt = None"
| "run_loop (Suc n) h fmt mm i max_instructions eip rt =
     (case run_round h fmt mm i max_instructions eip rt of
        Next eip' rt' \<Rightarrow> run_loop n h fmt mm i max_instructions eip' rt'
      | r \<Rightarrow> Some r)"

definition run_reset :: "u32 \<Rightarrow> guest_cpu \<Rightarrow> guest_cpu" where
  "run_reset esp c = uc_reg_write ESP esp (c\<lparr>gc_fault := GuestFault, gc_served := [], gc_instructions := 0, gc_pending_ordinal := 0\<rparr>)"

definition run ::
  "nat \<Rightarrow> uc_host \<Rightarrow> (u8 list \<Rightarrow> u32 \<Rightarrow> u8 list) \<Rightarrow> (u64 \<Rightarrow> u64 option) \<Rightarrow> nat \<Rightarrow> u32 \<Rightarrow> u32 \<Rightarrow> u64 \<Rightarrow> runtime \<Rightarrow> round option" where
  "run n h fmt mm i entry_eip esp max_instructions rt =
     (if gc_uc (rt_heap rt i) = None then Some (Return False rt)
      else run_loop n h fmt mm i max_instructions (ucast entry_eip) (upd_cpu i (run_reset esp) rt))"

text \<open>A suspended run goes on when its kernel call is resumed with an outcome.\<close>

definition run_resume ::
  "nat \<Rightarrow> uc_host \<Rightarrow> (u8 list \<Rightarrow> u32 \<Rightarrow> u8 list) \<Rightarrow> (u64 \<Rightarrow> u64 option) \<Rightarrow> nat \<Rightarrow> u64 \<Rightarrow> hle_frame \<Rightarrow> outcome \<Rightarrow> runtime \<Rightarrow> round option" where
  "run_resume n h fmt mm i max_instructions f out rt =
     (case after_hle i (hf_ordinal f) (hle_finish h i f out rt) of
        Next eip rt' \<Rightarrow> run_loop n h fmt mm i max_instructions eip rt'
      | r \<Rightarrow> Some r)"

section \<open>System threads\<close>

definition push32 :: "u32 \<Rightarrow> u32 \<times> runtime \<Rightarrow> u32 \<times> runtime" where
  "push32 v = (\<lambda>(esp, rt). (esp - 4, upd_ram (\<lambda>r. snd (write32 (esp - 4) v r)) rt))"

definition push_frame :: "thread_start \<Rightarrow> u32 \<times> runtime \<Rightarrow> u32 \<times> runtime" where
  "push_frame info s =
     (let s1 = push32 kExitVa s in
      if si_system_routine info \<noteq> 0 then push32 (si_start_routine info) (push32 (si_start_context info) s1)
      else push32 (si_start_context info) s1)"

text \<open>\<open>run_system_thread\<close> up to the run of the thread's code on the new processor \<open>i\<close>: nothing to run,
  or the entry point and the stack pointer. \<open>None\<close> is a host fault in an allocation.\<close>

datatype boot = NoRun runtime | Boot u32 u32 runtime

definition boot_system_thread :: "uc_host \<Rightarrow> u32 \<Rightarrow> nat \<Rightarrow> runtime \<Rightarrow> boot option" where
  "boot_system_thread h thread_handle i rt =
     (case thread_start_info (rt_krnl rt) thread_handle of
        None \<Rightarrow> Some (NoRun rt)
      | Some info \<Rightarrow>
          if si_start_routine info = 0 then Some (NoRun rt)
          else (case build_teb h (upd_cpu i (\<lambda>_. GuestCpu) rt) of
             None \<Rightarrow> None
           | Some (teb, rt1) \<Rightarrow>
               (case attach h i (upd_cpu i (set_teb teb) rt1) of (st, rt2) \<Rightarrow>
                  if st \<noteq> Okay then Some (NoRun (destroy_cpu i rt2))
                  else (case alloc_stack h (if si_kernel_stack_size info \<ge> 0x2000 then si_kernel_stack_size info else 0x10000) rt2 of
                     None \<Rightarrow> None
                   | Some ((esp, _), rt3) \<Rightarrow>
                       if esp = 0 then Some (NoRun (destroy_cpu i rt3))
                       else (case push_frame info (esp, rt3) of (esp', rt4) \<Rightarrow>
                          Some (Boot (if si_system_routine info \<noteq> 0 then si_system_routine info else si_start_routine info) esp' rt4))))))"

definition run_system_thread ::
  "nat \<Rightarrow> uc_host \<Rightarrow> (u8 list \<Rightarrow> u32 \<Rightarrow> u8 list) \<Rightarrow> (u64 \<Rightarrow> u64 option) \<Rightarrow> u32 \<Rightarrow> nat \<Rightarrow> runtime \<Rightarrow> round option" where
  "run_system_thread n h fmt mm thread_handle i rt =
     (case boot_system_thread h thread_handle i rt of
        None \<Rightarrow> Some Wild
      | Some (NoRun rt') \<Rightarrow> Some (Return False rt')
      | Some (Boot entry esp rt') \<Rightarrow>
          map_option (\<lambda>r. case r of Return b rt'' \<Rightarrow> Return b (destroy_cpu i rt'') | _ \<Rightarrow> r)
            (run n h fmt mm i entry esp 100000000 rt'))"

end
