(* ===== verification/Krnl_Thunks.thy ===== *)
theory Krnl_Thunks
  imports Krnl_Props Xbox_Cpu_Run
begin

text \<open>
  Kernel imports from the thunk table of the image to the dispatcher: what \<open>install_thunks\<close>
  (\<open>src/src/xbox_krnl.cpp\<close>) leaves in the table, what it leaves alone, where the hooks of
  \<open>src/src/xbox_cpu.cpp\<close> lead when guest code calls through a slot, and what a second installation
  over the same window does, as in \<open>src/src/main.cpp\<close>, where two kernels use one loaded image.
\<close>

section \<open>Windows that differ in their contents\<close>

definition same_access :: "xbe_ram \<Rightarrow> xbe_ram \<Rightarrow> bool" where
  "same_access r r' \<longleftrightarrow> ram_wf r' \<and> xr_base r' = xr_base r \<and> xr_size r' = xr_size r \<and>
     xr_page_size r' = xr_page_size r \<and> xr_mprotect r' = xr_mprotect r \<and> page_access r' = page_access r"

lemma same_access_refl: "ram_wf r \<Longrightarrow> same_access r r"
  by (simp add: same_access_def)

lemma same_access_trans: "same_access r r' \<Longrightarrow> same_access r' r'' \<Longrightarrow> same_access r r''"
  by (simp add: same_access_def)

lemma same_access_mem: "ram_wf r \<Longrightarrow> same_access r (r\<lparr>xr_mem := m\<rparr>)"
  by (auto simp: same_access_def ram_simps page_access_def)

lemma same_access_ranges:
  assumes "ram_wf r" "same_access r r'"
  shows "is_committed r' = is_committed r" "writable r' = writable r" "range_ok r' = range_ok r"
proof -
  have pl: "page_list r' = page_list r" using assms(2) by (intro page_list_cong) (simp add: same_access_def)
  show rng: "range_ok r' = range_ok r" using assms(2) by (simp add: fun_eq_iff same_access_def range_ok_def)
  have wf: "ram_wf r'" using assms(2) by (simp add: same_access_def)
  show "is_committed r' = is_committed r" "writable r' = writable r"
    using assms(2) pl rng
    by (simp_all add: fun_eq_iff is_committed_access [OF assms(1)] is_committed_access [OF wf]
        writable_access [OF assms(1)] writable_access [OF wf] same_access_def)
qed

lemma read32_range: "ram_wf r \<Longrightarrow> read32 r a = Some v \<Longrightarrow> is_committed r a 4 \<and> unat a + 4 \<le> xr_size r"
  using range_ok_end(2) [of r a 4] by (auto simp: read32_def read_bytes_def readable_def is_committed_def split: if_splits)

lemma read32_cong:
  assumes "ram_wf r" "same_access r r'" "\<And>x. in_range a 4 x \<Longrightarrow> xr_mem r' x = xr_mem r x"
  shows "read32 r' a = read32 r a"
proof (cases "is_committed r a 4")
  case True
  then have "unat a + 4 \<le> 2 ^ 32" using range_ok_end(3) [OF assms(1), of a 4] by (simp add: is_committed_def)
  then have "load_bytes 4 a (xr_mem r') = load_bytes 4 a (xr_mem r)" using assms(3) by (intro load_bytes_cong) auto
  then show ?thesis by (simp add: read32_def read_bytes_def readable_def same_access_ranges [OF assms(1,2)])
qed (simp add: read32_def read_bytes_def readable_def same_access_ranges [OF assms(1,2)])

lemma read32_stored:
  assumes "ram_wf r" "is_committed r a 4" "xr_mem r' = store_bytes a (le_bytes 4 v) m" "same_access r r'"
  shows "read32 r' a = Some v"
proof -
  have "unat a + 4 \<le> 2 ^ 32" using assms(2) range_ok_end(3) [OF assms(1), of a 4] by (simp add: is_committed_def)
  then have "load_bytes 4 a (xr_mem r') = le_bytes 4 v" using load_store_same [of a "le_bytes 4 v" m] assms(3) by simp
  then show ?thesis using assms(2) by (simp add: read32_def read_bytes_def readable_def same_access_ranges [OF assms(1,4)] byte_simps)
qed

section \<open>Patching a slot\<close>

text \<open>An aligned slot lies on one page, so that lifting its protection and restoring it cancel out.\<close>

lemma slot_page:
  assumes "ram_wf r" "xr_page_size r = 4096" "range_ok r va 4" "4 dvd unat va"
  shows "set (page_list r va 4) = {unat va div 4096}"
proof -
  obtain q where q: "unat va = 4 * q" using assms(4) by (rule dvdE)
  have "4096 * p < unat va + 4 \<longleftrightarrow> p \<le> unat va div 4096" for p
  proof -
    have "p \<le> q div 1024 \<longleftrightarrow> p * 1024 \<le> q" by (simp add: less_eq_div_iff_mult_less_eq)
    moreover have "4 * q div 4096 = q div 1024" using div_mult_mult1 [of 4 q 1024] by simp
    ultimately show ?thesis unfolding q by auto
  qed
  then show ?thesis using pages_of [OF assms(1-3)] by auto
qed

definition paged_window :: "xbe_ram \<Rightarrow> bool" where
  "paged_window r \<longleftrightarrow> ram_wf r \<and> xr_page_size r = 4096 \<and> (\<forall>p. xr_mprotect r p) \<and> xr_size r \<le> 2 ^ 31"

lemma paged_same: "paged_window r \<Longrightarrow> same_access r r' \<Longrightarrow> paged_window r'"
  by (simp add: paged_window_def same_access_def)

lemma protect_slot:
  fixes ro :: bool
  assumes "paged_window r" "is_committed r va 4" "4 dvd unat va"
  defines "r' \<equiv> snd (if ro then protect_ro va 4 r else protect_rw va 4 r)"
  shows "ram_wf r'" "xr_base r' = xr_base r" "xr_size r' = xr_size r" "xr_page_size r' = xr_page_size r" "xr_mprotect r' = xr_mprotect r"
    "xr_mem r' = xr_mem r" "page_access r' = (page_access r)(unat va div 4096 := if ro then ReadOnly else ReadWrite)"
proof -
  have w: "ram_wf r" "\<forall>p. xr_mprotect r p" "xr_page_size r = 4096" using assms(1) by (simp_all add: paged_window_def)
  obtain b r2 where r2: "(if ro then protect_ro va 4 r else protect_rw va 4 r) = (b, r2)" by fastforce
  then have r': "r' = r2" by (simp add: r'_def)
  have "b" using r2 page_ops_total(3) [OF w(2), of ro "page_list r va 4"] assms(2)
    by (cases ro) (auto simp: protect_ro_def protect_rw_def prod_eq_iff)
  moreover have "set (page_list r va 4) = {unat va div 4096}" using slot_page [OF w(1,3)] assms(2,3) by (simp add: is_committed_def)
  ultimately have pa: "page_access r2 = (page_access r)(unat va div 4096 := if ro then ReadOnly else ReadWrite)"
    using protect_wf [OF w(1) r2] by (auto simp: fun_eq_iff)
  show "xr_mprotect r' = xr_mprotect r" unfolding r'_def using page_ops_mprotect(3,4) [of va 4 r] by simp
  show "ram_wf r'" "xr_base r' = xr_base r" "xr_size r' = xr_size r" "xr_page_size r' = xr_page_size r"
    "xr_mem r' = xr_mem r" "page_access r' = (page_access r)(unat va div 4096 := if ro then ReadOnly else ReadWrite)"
    using protect_wf [OF w(1) r2] pa by (simp_all add: r')
qed

lemma write_slot:
  "writable r va 4 \<Longrightarrow> snd (write32 va v r) = r\<lparr>xr_mem := store_bytes va (le_bytes 4 v) (xr_mem r)\<rparr>"
  by (simp add: write32_def write_bytes_def)

lemma patch_slot_effect:
  assumes "paged_window r" "is_committed r (ts_slot_va s) 4" "4 dvd unat (ts_slot_va s)"
  shows "same_access r (patch_slot s r) \<and> xr_mem (patch_slot s r) =
    (if ts_implemented s then store_bytes (ts_slot_va s) (le_bytes 4 (ts_new_value s)) (xr_mem r) else xr_mem r)"
proof -
  let ?va = "ts_slot_va s" let ?pg = "unat ?va div 4096"
  let ?m = "store_bytes ?va (le_bytes 4 (ts_new_value s)) (xr_mem r)"
  have w: "ram_wf r" "xr_page_size r = 4096" using assms(1) by (simp_all add: paged_window_def)
  have rng: "range_ok r ?va 4" "xr_base r" using assms(2) by (simp_all add: is_committed_def)
  note pg = slot_page [OF w rng(1) assms(3)]
  consider "\<not> ts_implemented s" | "ts_implemented s" "writable r ?va 4" | "ts_implemented s" "\<not> writable r ?va 4" by blast
  then show ?thesis
  proof cases
    case 1 then show ?thesis using same_access_refl [OF w(1)] by (simp add: patch_slot_def)
  next
    case 2 then show ?thesis using same_access_mem [OF w(1)] by (simp add: patch_slot_def write_slot)
  next
    case 3
    have ro: "page_access r ?pg = ReadOnly"
      using 3(2) assms(2) pg writable_access [OF w(1)] is_committed_access [OF w(1)] by (cases "page_access r ?pg") auto
    define r1 where "r1 = snd (protect_rw ?va 4 r)"
    note p1 = protect_slot [where ro = False, OF assms, simplified, folded r1_def]
    have wr: "writable r1 ?va 4" using writable_access [OF p1(1)] rng pg p1 page_list_cong [of r1 r] by (simp add: range_ok_def)
    define r2 where "r2 = r1\<lparr>xr_mem := ?m\<rparr>"
    have c2: "paged_window r2" "is_committed r2 ?va 4"
      using assms(1) p1 wr by (simp_all add: paged_window_def r2_def ram_simps writable_def)
    note p2 = protect_slot [where ro = True, OF c2 assms(3), simplified]
    have "patch_slot s r = snd (protect_ro ?va 4 r2)"
      using 3 write_slot [OF wr] p1(6) by (simp add: patch_slot_def r1_def [symmetric] r2_def)
    moreover have "page_access r2 = page_access r1" by (simp add: fun_eq_iff r2_def page_access_def)
    moreover have "(page_access r)(?pg := ReadOnly) = page_access r" using ro by (simp add: fun_eq_iff)
    ultimately show ?thesis using 3(1) p1 p2 by (simp add: same_access_def r2_def)
  qed
qed

section \<open>What a slot becomes\<close>

lemma exports_ordinals: "list_all (\<lambda>e. ex_ordinal e < 0xFFF) kExports"
  unfolding kExports_rows by simp

lemma find_export_ordinal: "find_export n = Some e \<Longrightarrow> ex_ordinal e = n \<and> unat n < 0xFFF"
  using exports_ordinals by (auto simp: find_export_def find_Some_iff list_all_iff word_less_nat_alt dest: nth_mem)

lemma high_bit: "bit (x :: u32) 31 \<longleftrightarrow> 2 ^ 31 \<le> unat x"
proof -
  have "odd d \<longleftrightarrow> d \<noteq> 0" if "d < 2" for d :: nat using that by presburger
  moreover have "unat x div 2 ^ 31 < 2" using unat_lt2p [of x] by (intro less_mult_imp_div_less) simp
  ultimately have "odd (unat x div 2 ^ 31) \<longleftrightarrow> unat x div 2 ^ 31 \<noteq> 0" by blast
  moreover have "bit x 31 \<longleftrightarrow> bit (unat x) 31" by (simp add: bit_unsigned_iff)
  ultimately show ?thesis unfolding bit_iff_odd [of "unat x"] by (simp add: div_eq_0_iff not_less)
qed

lemma import_flag: "x AND 0x80000000 = 0 \<longleftrightarrow> unat (x :: u32) < 2 ^ 31"
  using and_exp_eq_0_iff_not_bit [of x 31] high_bit [of x] by (simp add: not_le)

lemma narrow_widen [simp]: "ucast (ucast (x :: u32) :: u64) = x"
  by (rule bit_word_eqI) (auto simp: bit_simps)

text \<open>The addresses of the page of kernel entry points.\<close>

lemma small_ordinal: "unat (ord :: u32) < 0xFFF \<Longrightarrow> take_bit 12 ord = ord"
  by (rule word_unat_eq_iff [THEN iffD2]) (simp add: unsigned_take_bit_eq take_bit_nat_eq_self)

lemma marker_bits: "(0xFFFF :: u32) = mask 16"
  by (simp add: mask_eq_exp_minus_1)

lemma marker_entry:
  assumes "unat ord < 0xFFF"
  shows "is_marker (kHleMarker OR ord)" "(kHleMarker OR ord) AND 0xFFFF = ord" "kHleMarker OR ord \<noteq> kExitVa"
    "2 ^ 31 \<le> unat (kHleMarker OR ord)" "find_export ((kHleMarker OR ord) AND 0x7FFFFFFF) = None"
proof -
  have b: "i < 12" if "bit ord i" for i using that small_ordinal [OF assms] by (metis bit_take_bit_iff)
  show "is_marker (kHleMarker OR ord)"
  proof -
    have "kHleMarker AND NOT 0xFFFF = kHleMarker" "kPage * 16 - 1 = 0xFFFF" by (simp_all add: kHleMarker_def kPage_def)
    moreover have "ord AND NOT 0xFFFF = 0" unfolding marker_bits by (rule bit_word_eqI) (auto simp: bit_simps dest: b)
    ultimately show ?thesis by (simp add: is_marker_def bit.conj_disj_distrib2)
  qed
  show low: "(kHleMarker OR ord) AND 0xFFFF = ord"
  proof -
    have "kHleMarker AND 0xFFFF = 0" by (simp add: kHleMarker_def)
    moreover have "ord AND 0xFFFF = ord" unfolding marker_bits by (rule bit_word_eqI) (auto simp: bit_simps dest: b)
    ultimately show ?thesis by (simp add: bit.conj_disj_distrib2)
  qed
  have "kExitVa AND 0xFFFF = 0xFFF" by (simp add: kExitVa_def kHleMarker_def)
  then show "kHleMarker OR ord \<noteq> kExitVa" using low assms by auto
  have "bit (kHleMarker OR ord) 31" by (simp add: kHleMarker_def bit_or_iff)
  then show "2 ^ 31 \<le> unat (kHleMarker OR ord)" by (simp only: high_bit)
  have "bit ((kHleMarker OR ord) AND 0x7FFFFFFF) 30" by (simp add: kHleMarker_def bit_or_iff bit_and_iff)
  moreover have "\<not> bit n 30" if "unat n < 0xFFF" for n :: u32
    using small_ordinal [OF that] bit_take_bit_iff [of 12 n 30] by simp
  ultimately show "find_export ((kHleMarker OR ord) AND 0x7FFFFFFF) = None"
    using find_export_ordinal by (metis not_None_eq)
qed

text \<open>Where guest code gets when it uses the value of a slot: the code hook asks for exactly the export of
  the slot; a data export is an address in the kernel's data page; a fetch from an import that is not
  served is a fault that names the import. Everything else keeps its value.\<close>

definition resolved :: "u32 \<Rightarrow> thunk_slot \<Rightarrow> bool" where
  "resolved kd s = (case ts_exp s of
     None \<Rightarrow> ts_new_value s = ts_raw s
   | Some e \<Rightarrow>
       if ts_implemented s \<and> ex_conv e \<noteq> Data
       then ts_new_value s \<noteq> kExitVa \<and> (\<forall>c. gc_pending_ordinal (code_hook (ucast (ts_new_value s)) c) = ex_ordinal e)
       else if ts_implemented s then unat kd \<le> unat (ts_new_value s) \<and> unat (ts_new_value s) < unat kd + 0x1000
       else ts_new_value s = ts_raw s \<and>
         (\<forall>eip c. let f = gc_fault (mem_hook FetchUnmapped (ucast (ts_new_value s)) eip c) in
            fa_kind f = UnimplementedImport \<and> fa_ordinal f = ex_ordinal e))"

lemma thunk_of_fields [simp]:
  "ts_slot_va (thunk_of kd va raw) = va" "ts_raw (thunk_of kd va raw) = raw"
  "ts_exp (thunk_of kd va raw) = (if unat raw < 2 ^ 31 then None else find_export (raw AND 0x7FFFFFFF))"
  "\<not> ts_implemented (thunk_of kd va raw) \<Longrightarrow> ts_new_value (thunk_of kd va raw) = raw"
  by (auto simp: thunk_of_def Let_def import_flag split: option.splits)

lemma data_thunk_in_page:
  assumes "implemented_data ord" "unat kd + 0x1000 \<le> 2 ^ 31"
  shows "unat kd \<le> unat (data_thunk kd ord raw)" "unat (data_thunk kd ord raw) < unat kd + 0x1000"
proof -
  have "unat (kd + 0x08) = unat kd + 8" "unat (kd + 0x120) = unat kd + 0x120" "unat (kd + 0x10) = unat kd + 0x10"
    using assms(2) by (simp_all add: unat_add_lt)
  then show "unat kd \<le> unat (data_thunk kd ord raw)" "unat (data_thunk kd ord raw) < unat kd + 0x1000"
    using assms(1) by (auto simp: data_thunk_def implemented_data_def)
qed

lemma thunk_cases:
  assumes "unat kd + 0x1000 \<le> 2 ^ 31" "s = thunk_of kd va raw"
  obtains (kept) "\<not> ts_implemented s" "ts_new_value s = raw"
  | (entry) e where "ts_implemented s" "ts_exp s = Some e" "ex_conv e \<noteq> Data" "ex_ordinal e = ts_ordinal s" "unat (ts_ordinal s) < 0xFFF"
      "ts_new_value s = kHleMarker OR ts_ordinal s"
  | (data) e where "ts_implemented s" "ts_exp s = Some e" "ex_conv e = Data" "unat kd \<le> unat (ts_new_value s)" "unat (ts_new_value s) < unat kd + 0x1000"
proof (cases "ts_implemented s")
  case False then show ?thesis using kept assms(2) by simp
next
  case True
  let ?ord = "raw AND 0x7FFFFFFF"
  have "(raw AND 0x80000000 \<noteq> 0 \<and> find_export ?ord \<noteq> None)"
    using True unfolding assms(2) thunk_of_def Let_def by (cases "raw AND 0x80000000 = 0"; cases "find_export ?ord") simp_all
  then obtain e where f: "raw AND 0x80000000 \<noteq> 0" "find_export ?ord = Some e" by blast
  note o = find_export_ordinal [OF f(2)]
  consider "ex_conv e \<noteq> Data" "implemented_function ?ord" | "ex_conv e = Data" "implemented_data ?ord"
    using True f unfolding assms(2) thunk_of_def Let_def by (auto split: if_splits)
  then show ?thesis
  proof cases
    case 1 show ?thesis by (rule entry [of e]) (use 1 f o True in \<open>simp_all add: assms(2) thunk_of_def Let_def\<close>)
  next
    case 2 show ?thesis by (rule data [of e]) (use 2 f data_thunk_in_page [OF 2(2) assms(1), of raw] True in \<open>simp_all add: assms(2) thunk_of_def Let_def\<close>)
  qed
qed

lemma thunk_resolved:
  assumes "unat kd + 0x1000 \<le> 2 ^ 31" "s = thunk_of kd va raw"
  shows "resolved kd s"
proof (rule thunk_cases [OF assms])
  assume k: "\<not> ts_implemented s" "ts_new_value s = raw"
  show ?thesis
  proof (cases "ts_exp s")
    case (Some e)
    then have "2 ^ 31 \<le> unat raw" "find_export (raw AND 0x7FFFFFFF) = Some e" using assms(2) by (auto split: if_splits)
    moreover from this have "(0x80000000 :: u64) \<le> ucast raw" by (simp add: word_le_nat_alt unsigned_ucast_eq take_bit_nat_eq_self less_le_trans [OF unat_lt2p])
    ultimately show ?thesis using Some k assms(2) find_export_ordinal
      by (auto simp: resolved_def mem_hook_def Let_def)
  qed (use k assms(2) in \<open>simp add: resolved_def\<close>)
next
  fix e assume e: "ts_implemented s" "ts_exp s = Some e" "ex_conv e \<noteq> Data" "ex_ordinal e = ts_ordinal s" "unat (ts_ordinal s) < 0xFFF"
    "ts_new_value s = kHleMarker OR ts_ordinal s"
  then show ?thesis using marker_entry(1-3) [OF e(5)] by (simp add: resolved_def code_hook_def Let_def)
next
  fix e assume "ts_implemented s" "ts_exp s = Some e" "ex_conv e = Data" "unat kd \<le> unat (ts_new_value s)" "unat (ts_new_value s) < unat kd + 0x1000"
  then show ?thesis by (simp add: resolved_def)
qed

text \<open>A patched slot is not an import any more, so that it is not patched again.\<close>

lemma thunk_settled:
  assumes "unat kd + 0x1000 \<le> 2 ^ 31" "kd \<noteq> 0" "s = thunk_of kd va raw" "raw \<noteq> 0"
  shows "\<not> ts_implemented (thunk_of kd' va' (ts_new_value s))" "ts_new_value s \<noteq> 0"
proof -
  have "\<not> ts_implemented (thunk_of kd' va' (ts_new_value s)) \<and> ts_new_value s \<noteq> 0"
  proof (rule thunk_cases [OF assms(1,3)])
    assume "\<not> ts_implemented s" "ts_new_value s = raw"
    then show ?thesis using assms(3,4) by (auto simp: thunk_of_def Let_def split: option.splits if_splits)
  next
    fix e assume e: "unat (ts_ordinal s) < 0xFFF" "ts_new_value s = kHleMarker OR ts_ordinal s"
    then show ?thesis using marker_entry(4,5) [OF e(1)] by (auto simp: thunk_of_def Let_def unat_eq_zero)
  next
    fix e assume e: "unat kd \<le> unat (ts_new_value s)" "unat (ts_new_value s) < unat kd + 0x1000"
    then have "ts_new_value s AND 0x80000000 = 0" using assms(1) by (simp add: import_flag)
    then show ?thesis using e(1) assms(2) by (auto simp: thunk_of_def Let_def unat_eq_zero)
  qed
  then show "\<not> ts_implemented (thunk_of kd' va' (ts_new_value s))" "ts_new_value s \<noteq> 0" by blast+
qed

section \<open>Walking the table\<close>

text \<open>The address of entry \<open>i\<close>.\<close>

abbreviation entry_at :: "u32 \<Rightarrow> nat \<Rightarrow> u32" where
  "entry_at va i \<equiv> va + 4 * of_nat i"

lemma entry_step: "entry_at (va + 4) i = entry_at va (Suc i)"
  by (simp add: algebra_simps)

lemma unat_entry: "unat va + 4 * i < 2 ^ 32 \<Longrightarrow> unat (entry_at va i) = unat va + 4 * i"
proof -
  assume i: "unat va + 4 * i < 2 ^ 32"
  have "unat (of_nat (4 * i) :: u32) = 4 * i" using i by (intro unat_of_nat_lt) simp
  then show ?thesis using i by (subst unat_add_lt) simp_all
qed

text \<open>What the walk has done when it has passed the slots \<open>ss\<close>.\<close>

definition walked :: "nat \<Rightarrow> u32 \<Rightarrow> u32 \<Rightarrow> xbe_ram \<Rightarrow> thunk_slot list \<Rightarrow> xbe_ram \<Rightarrow> bool" where
  "walked n kd va r ss r' \<longleftrightarrow> same_access r r' \<and> (ss \<noteq> [] \<longrightarrow> unat va + 4 * length ss \<le> xr_size r) \<and>
     (\<forall>x. \<not> in_range va (4 * length ss) x \<longrightarrow> xr_mem r' x = xr_mem r x) \<and>
     (\<forall>i<length ss. ts_raw (ss ! i) \<noteq> 0 \<and> read32 r (entry_at va i) = Some (ts_raw (ss ! i)) \<and>
        ss ! i = thunk_of kd (entry_at va i) (ts_raw (ss ! i)) \<and> read32 r' (entry_at va i) = Some (ts_new_value (ss ! i))) \<and>
     length ss \<le> n \<and> (length ss < n \<longrightarrow> read32 r (entry_at va (length ss)) \<in> {None, Some 0})"

lemma walked_step:
  assumes win: "paged_window r" "4 dvd unat va" and raw: "read32 r va = Some raw" "raw \<noteq> 0"
    and w: "walked n kd (va + 4) (patch_slot (thunk_of kd va raw) r) ss r'"
  shows "walked (Suc n) kd va r (thunk_of kd va raw # ss) r'"
proof -
  let ?s = "thunk_of kd va raw" and ?r1 = "patch_slot (thunk_of kd va raw) r"
  have wf: "ram_wf r" "xr_size r \<le> 2 ^ 31" using win(1) by (simp_all add: paged_window_def)
  note c = read32_range [OF wf(1) raw(1)]
  note p = patch_slot_effect [of r ?s, simplified, OF win(1) conjunct1 [OF c] win(2)]
  have wf1: "ram_wf ?r1" "xr_size ?r1 = xr_size r" using p by (simp_all add: same_access_def)
  have n4: "unat (va + 4) = unat va + 4" using c wf(2) by (subst unat_add_lt) simp_all
  have near: "unat va + 4 + 4 * length ss \<le> 2 ^ 31" using w c wf wf1 n4 by (cases ss) (auto simp: walked_def)
  have m1: "xr_mem ?r1 x = xr_mem r x" if "\<not> in_range va 4 x" for x
    using p that c wf(2) by (auto intro!: store_bytes_other)
  have other: "read32 ?r1 (entry_at (va + 4) i) = read32 r (entry_at va (Suc i))" if "i \<le> length ss" for i
  proof -
    have "unat (entry_at va (Suc i)) = unat va + 4 + 4 * i" using near that by (subst unat_entry) simp_all
    then show ?thesis unfolding entry_step using p m1 by (intro read32_cong [OF wf(1)]) (auto simp: in_range_def)
  qed
  have new: "read32 ?r1 va = Some (ts_new_value ?s)"
  proof (cases "ts_implemented ?s")
    case True then show ?thesis using p c by (intro read32_stored [OF wf(1)]) auto
  next
    case False then show ?thesis using p raw(1) by (subst read32_cong [OF wf(1)]) auto
  qed
  have first: "read32 r' va = Some (ts_new_value ?s)"
    unfolding new [symmetric] using w near n4 by (intro read32_cong [OF wf1(1)]) (auto simp: walked_def in_range_def)
  have mem: "xr_mem r' x = xr_mem r x" if "\<not> in_range va (4 * length (?s # ss)) x" for x
    using w that m1 [of x] n4 by (auto simp: walked_def in_range_def)
  have rest: "ts_raw (ss ! i) \<noteq> 0 \<and> read32 r (entry_at va (Suc i)) = Some (ts_raw (ss ! i)) \<and>
      ss ! i = thunk_of kd (entry_at va (Suc i)) (ts_raw (ss ! i)) \<and> read32 r' (entry_at va (Suc i)) = Some (ts_new_value (ss ! i))"
    if "i < length ss" for i
    using w that other [of i] unfolding walked_def entry_step by auto
  have stop: "length ss < n \<longrightarrow> read32 r (entry_at va (Suc (length ss))) \<in> {None, Some 0}"
    using w other [of "length ss"] unfolding walked_def by auto
  have sz: "unat va + 4 * length (?s # ss) \<le> xr_size r" using w c wf1(2) n4 by (cases "ss = []") (auto simp: walked_def)
  have "same_access r r'" using w p same_access_trans by (auto simp: walked_def)
  then show ?thesis unfolding walked_def using first raw rest stop sz mem w
    by (auto simp: nth_Cons walked_def split: nat.splits)
qed

lemma walk_thunks_walked:
  assumes "paged_window r" "4 dvd unat va" "walk_thunks n kd va r = (ss, r')"
  shows "walked n kd va r ss r'"
  using assms
proof (induction n arbitrary: va r ss r')
  case 0
  then show ?case by (auto simp: walked_def paged_window_def same_access_refl)
next
  case (Suc n)
  have wf: "ram_wf r" "xr_size r \<le> 2 ^ 31" using Suc.prems(1) by (simp_all add: paged_window_def)
  show ?case
  proof (cases "read32 r va \<in> {None, Some 0}")
    case True
    then show ?thesis using Suc.prems(3) same_access_refl [OF wf(1)] by (auto simp: walked_def)
  next
    case False
    then obtain raw where raw: "read32 r va = Some raw" "raw \<noteq> 0" by auto
    obtain ss' r2 where w: "walk_thunks n kd (va + 4) (patch_slot (thunk_of kd va raw) r) = (ss', r2)" by fastforce
    have ss: "ss = thunk_of kd va raw # ss'" "r' = r2" using Suc.prems(3) raw w by (auto simp: Let_def)
    note c = read32_range [OF wf(1) raw(1)]
    have "unat (va + 4) = unat va + 4" using c wf(2) by (subst unat_add_lt) simp_all
    then have al: "4 dvd unat (va + 4)" using Suc.prems(2) by simp
    have "paged_window (patch_slot (thunk_of kd va raw) r)"
      using paged_same [OF Suc.prems(1)] patch_slot_effect [of r "thunk_of kd va raw"] c Suc.prems(1,2) by simp
    from walked_step [OF Suc.prems(1,2) raw Suc.IH [OF this al w]] show ?thesis by (simp add: ss)
  qed
qed

text \<open>A table without imports to patch is left as it is.\<close>

lemma walk_thunks_settled:
  "(\<And>i. i < m \<Longrightarrow> \<exists>raw. read32 r (entry_at va i) = Some raw \<and> raw \<noteq> 0 \<and> \<not> ts_implemented (thunk_of kd (entry_at va i) raw)) \<Longrightarrow>
     m \<le> n \<Longrightarrow> (m < n \<Longrightarrow> read32 r (entry_at va m) \<in> {None, Some 0}) \<Longrightarrow>
     \<exists>ss. walk_thunks n kd va r = (ss, r) \<and> length ss = m \<and> (\<forall>s\<in>set ss. \<not> ts_implemented s)"
proof (induction m arbitrary: n va)
  case 0
  then show ?case by (cases n) auto
next
  case (Suc m)
  then obtain n' where n: "n = Suc n'" by (cases n) auto
  obtain raw where raw: "read32 r va = Some raw" "raw \<noteq> 0" "\<not> ts_implemented (thunk_of kd va raw)"
    using Suc.prems(1) [of 0] by auto
  have "\<exists>ss. walk_thunks n' kd (va + 4) r = (ss, r) \<and> length ss = m \<and> (\<forall>s\<in>set ss. \<not> ts_implemented s)"
    using Suc.prems n by (intro Suc.IH) (auto simp: entry_step simp del: of_nat_Suc)
  moreover have "patch_slot (thunk_of kd va raw) r = r" using raw(3) by (simp add: patch_slot_def)
  ultimately show ?case using raw n by (auto simp: Let_def)
qed

section \<open>Installation\<close>

text \<open>The window without changes below the address \<open>kd\<close>.\<close>

definition kept_below :: "u32 \<Rightarrow> xbe_ram \<Rightarrow> xbe_ram \<Rightarrow> bool" where
  "kept_below kd r r' \<longleftrightarrow> same_access r r' \<and> (\<forall>x. unat x < unat kd \<longrightarrow> xr_mem r' x = xr_mem r x)"

lemma kept_below_refl: "ram_wf r \<Longrightarrow> kept_below kd r r"
  by (simp add: kept_below_def same_access_refl)

lemma kept_below_trans: "kept_below kd r r' \<Longrightarrow> kept_below kd r' r'' \<Longrightarrow> kept_below kd r r''"
  using same_access_trans by (auto simp: kept_below_def)

lemma kept_below_wf: "kept_below kd r r' \<Longrightarrow> ram_wf r'"
  by (simp add: kept_below_def same_access_def)

lemma kept_below_store:
  assumes "ram_wf r" "unat kd + off + length bs \<le> 2 ^ 31"
  shows "kept_below kd r (r\<lparr>xr_mem := store_bytes (kd + of_nat off) bs (xr_mem r)\<rparr>)"
proof -
  have "unat (of_nat off :: u32) = off" using assms(2) by (intro unat_of_nat_lt) simp
  then have "unat (kd + of_nat off) = unat kd + off" using assms(2) by (subst unat_add_lt) simp_all
  then show ?thesis using assms(2) same_access_mem [OF assms(1)]
    by (auto simp: kept_below_def in_range_def intro!: store_bytes_other)
qed

lemma kept_below_write:
  assumes "ram_wf r" "unat kd + off + length bs \<le> 2 ^ 31"
  shows "kept_below kd r (snd (write_bytes (kd + of_nat off) bs r))"
  using kept_below_store [OF assms] kept_below_refl [OF assms(1)] by (simp add: write_bytes_def)

lemma kept_below_name:
  assumes "ram_wf r" "unat kd + 0x1000 \<le> 2 ^ 31" shows "kept_below kd r (write_image_name kd nm r)"
proof (cases "nm = [] \<or> length nm \<ge> 0xE0")
  case False
  define r1 where "r1 = snd (write32 (kd + 0x10) (of_nat (length nm) OR push_bit 16 (of_nat (length nm) + 1)) r)"
  define r2 where "r2 = snd (write32 (kd + 0x14) (kd + 0x20) r1)"
  have 1: "kept_below kd r r1" unfolding r1_def write32_def using kept_below_write [OF assms(1), of kd 16] assms(2) by simp
  have 2: "kept_below kd r1 r2" unfolding r2_def write32_def using kept_below_write [OF kept_below_wf [OF 1], of kd 20] assms(2) by simp
  have "kept_below kd r2 (snd (write_bytes (kd + 0x20) (nm @ [0]) r2))"
    using kept_below_write [OF kept_below_wf [OF 2], of kd 32 "nm @ [0]"] assms(2) False by simp
  from kept_below_trans [OF kept_below_trans [OF 1 2] this] show ?thesis
    using False unfolding write_image_name_def r1_def [symmetric] r2_def [symmetric] by simp
qed (simp add: write_image_name_def kept_below_refl [OF assms(1)])

lemma kept_below_refresh:
  assumes "ram_wf (kr_ram k)" "unat (kr_kernel_data_va k) + 0x1000 \<le> 2 ^ 31"
  shows "kept_below (kr_kernel_data_va k) (kr_ram k) (kr_ram (refresh_data k))"
  using kept_below_write [OF assms(1), of "kr_kernel_data_va k" 8 "le_bytes 4 (ucast (gs_tick (kr_sched k)) :: u32)"] assms(2) kept_below_refl [OF assms(1)]
  by (simp add: refresh_data_def poke32_def write32_def)

text \<open>The last page holds the kernel's data.\<close>

definition data_page :: "xbe_ram \<Rightarrow> u32" where
  "data_page r = of_nat (xr_size r) - 0x1000"

definition boot_window :: "xbe_ram \<Rightarrow> bool" where
  "boot_window r \<longleftrightarrow> paged_window r \<and> xr_base r \<and> 4096 dvd xr_size r \<and> 4096 \<le> xr_size r \<and>
     page_access r (unat (data_page r) div 4096) \<noteq> ReadOnly"

lemma data_page_range:
  assumes "boot_window r"
  shows "unat (data_page r) + 4096 = xr_size r" "range_ok r (data_page r) 0x1000" "unat (data_page r) + 0x1000 \<le> 2 ^ 31"
    "set (page_list r (data_page r) 0x1000) = {unat (data_page r) div 4096}" "4096 dvd unat (data_page r)"
proof -
  have w: "ram_wf r" "xr_page_size r = 4096" "4096 dvd xr_size r" "xr_size r \<le> 2 ^ 31" "4096 \<le> xr_size r"
    using assms by (simp_all add: boot_window_def paged_window_def)
  have "data_page r = of_nat (xr_size r - 4096)" using w(5) by (simp add: data_page_def of_nat_diff)
  then have u: "unat (data_page r) = xr_size r - 4096" using w(4) by (simp only:) (intro unat_of_nat_lt, simp)
  then show s: "unat (data_page r) + 4096 = xr_size r" using w(5) by simp
  then show rng: "range_ok r (data_page r) 0x1000" "unat (data_page r) + 0x1000 \<le> 2 ^ 31" using w(4,5) by (simp_all add: range_ok_def)
  show dv: "4096 dvd unat (data_page r)" unfolding u using w(3) by (rule dvd_diff_nat) simp
  obtain q where q: "unat (data_page r) = 4096 * q" using dv by (rule dvdE)
  show "set (page_list r (data_page r) 0x1000) = {unat (data_page r) div 4096}"
  proof (rule set_eqI)
    fix p
    have "p \<in> set (page_list r (data_page r) 0x1000) \<longleftrightarrow> q \<le> p \<and> p < q + 1"
      unfolding pages_of [OF w(1,2) rng(1)] q by auto
    then show "p \<in> set (page_list r (data_page r) 0x1000) \<longleftrightarrow> p \<in> {unat (data_page r) div 4096}" unfolding q by auto
  qed
qed

lemma install_walk:
  assumes "boot_window (kr_ram k)"
  defines "r \<equiv> kr_ram k"
  shows "\<exists>k' r4. install_thunks img k = Some k' \<and>
    walk_thunks 100000 (data_page r) (xi_kernel_thunk_va img) r4 = (kr_slots k', kr_ram k') \<and> paged_window r4 \<and>
    xr_base r4 \<and> xr_mprotect r4 = xr_mprotect r \<and> xr_size r4 = xr_size r \<and> page_access r4 = (page_access r)(unat (data_page r) div 4096 := ReadWrite) \<and>
    (\<forall>x. unat x < unat (data_page r) \<longrightarrow> xr_mem r4 x = xr_mem r x)"
proof -
  define kd where "kd = data_page r"
  note dp = data_page_range [OF assms(1), folded r_def, folded kd_def]
  have w: "ram_wf r" "\<forall>p. xr_mprotect r p" "xr_base r" "xr_page_size r = 4096" "page_access r (unat kd div 4096) \<noteq> ReadOnly"
    using assms(1) by (simp_all add: boot_window_def paged_window_def r_def kd_def)
  obtain r1 where r1: "commit kd 0x1000 r = (True, r1)"
    using commit_total [OF w(3) dp(2) w(2)] by (metis prod.collapse)
  have acc: "page_access r1 = (page_access r)(unat kd div 4096 := ReadWrite)"
    using commit_wf [OF w(1) r1] dp(4) w(5) by (cases "page_access r (unat kd div 4096)") (auto simp: fun_eq_iff)
  have c: "ram_wf r1" "xr_base r1" "xr_page_size r1 = 4096" "xr_size r1 = xr_size r" "xr_mem r1 = xr_mem r" "xr_mprotect r1 = xr_mprotect r"
    using commit_wf [OF w(1) r1] w page_ops_mprotect(1) [of kd "0x1000" r] r1 by auto
  have "page_list r1 = page_list r" using c w by (intro page_list_cong) simp
  then have wr: "writable r1 kd 0x1000" using writable_access [OF c(1)] c(2,4) dp(2,4) acc by (simp add: range_ok_def)
  define r2 where "r2 = (if host_ptr r1 kd \<noteq> None then r1\<lparr>xr_mem := store_bytes kd (replicate 0x1000 0) (xr_mem r1)\<rparr> else r1)"
  have a2: "kept_below kd r1 r2" using kept_below_store [OF c(1), of kd 0 "replicate 0x1000 0"] kept_below_refl [OF c(1)] dp(3) by (simp add: r2_def)
  obtain nm where nm: "image_name img = Some nm" by (rule image_nameE)
  define r3 where "r3 = write_image_name kd nm r2"
  have a3: "kept_below kd r2 r3" unfolding r3_def by (rule kept_below_name [OF kept_below_wf [OF a2] dp(3)])
  define lo where "lo = (xi_image_end_abs img + 4096 - 1) AND NOT (4096 - 1)"
  define k1 where "k1 = (clear_registries k)\<lparr>kr_mm_lo := (if lo \<ge> kd then kd else lo), kr_kernel_data_va := kd,
    kr_mm_hi := kd, kr_ram := r3\<rparr>"
  define r4 where "r4 = kr_ram (refresh_data k1)"
  have a4: "kept_below kd r3 r4" using kept_below_refresh [of k1] kept_below_wf [OF a3] dp(3) by (simp add: k1_def r4_def)
  have a: "kept_below kd r1 r4" by (rule kept_below_trans [OF kept_below_trans [OF a2 a3] a4])
  obtain ss r5 where r5: "walk_thunks 100000 kd (xi_kernel_thunk_va img) r4 = (ss, r5)" by fastforce
  have "kr_ram (clear_registries k) = r" by (simp add: clear_registries_def r_def)
  then have "install_thunks img k = (if host_ptr r1 kd \<noteq> None \<and> \<not> writable r1 kd 0x1000 then None
      else Some ((refresh_data k1)\<lparr>kr_slots := ss, kr_ram := r5\<rparr>))"
    by (simp only: install_thunks_def Let_def data_page_def [symmetric] kd_def [symmetric] lo_def [symmetric] r1 snd_conv r2_def [symmetric]
        r3_def [symmetric] k1_def [symmetric] r4_def [symmetric] r5 prod.case nm option.case)
  then show ?thesis unfolding kd_def [symmetric] using wr a r5 c acc w(2) data_page_range(3) [OF assms(1)] assms(1)
    by (intro exI [of _ "(refresh_data k1)\<lparr>kr_slots := ss, kr_ram := r5\<rparr>"] exI [of _ r4])
      (auto simp: kept_below_def same_access_def paged_window_def boot_window_def r_def)
qed

lemma fresh_boot_window: "window_fresh r e \<Longrightarrow> boot_window r"
proof -
  assume f: "window_fresh r e"
  note d = data_window [OF f, folded data_page_def]
  have w: "4096 dvd xr_size r" "e + 4096 \<le> xr_size r" "\<And>p. e \<le> 4096 * p \<Longrightarrow> page_access r p = NoAccess" using f by (simp_all add: window_fresh_def)
  have "4096 dvd unat (data_page r)" unfolding d(1) using w(1) by (rule dvd_diff_nat) simp
  then have "4096 * (unat (data_page r) div 4096) = unat (data_page r)" by simp
  then have "page_access r (unat (data_page r) div 4096) = NoAccess" using w(2,3) d(1) by simp
  then show ?thesis using f by (auto simp: boot_window_def paged_window_def window_fresh_def)
qed

text \<open>The words of a table and of its end are the same in windows that agree below the data page.\<close>

lemma table_cong:
  fixes kd :: u32
  assumes "ram_wf r" "same_access r r'" "\<And>x. unat x < unat kd \<Longrightarrow> \<not> in_range va m x \<Longrightarrow> xr_mem r' x = xr_mem r x"
    and "unat va + 4 * i + 4 \<le> unat kd" "m \<le> 4 * i"
  shows "read32 r' (entry_at va i) = read32 r (entry_at va i)"
proof -
  have "unat (entry_at va i) = unat va + 4 * i" using assms(4) unat_lt2p [of kd] by (intro unat_entry) (simp del: unsigned_less)
  then show ?thesis using assms by (intro read32_cong) (auto simp: in_range_def)
qed

lemma read32_below:
  fixes kd :: u32
  assumes "paged_window r" "paged_window r'" "xr_base r' = xr_base r" "xr_size r' = xr_size r"
    and "\<And>p. 4096 * p < unat kd \<Longrightarrow> page_access r' p = page_access r p" "\<And>x. unat x < unat kd \<Longrightarrow> xr_mem r' x = xr_mem r x"
    and "unat a + 4 \<le> unat kd"
  shows "read32 r' a = read32 r a"
proof -
  have w: "ram_wf r" "ram_wf r'" "xr_page_size r = 4096" "xr_page_size r' = 4096" using assms(1,2) by (simp_all add: paged_window_def)
  have pl: "page_list r' = page_list r" using w by (intro page_list_cong) simp
  have rng: "range_ok r' a 4 = range_ok r a 4" using assms(4) by (simp add: range_ok_def)
  have "page_access r' p = page_access r p" if "range_ok r a 4" "p \<in> set (page_list r a 4)" for p
    using pages_of [OF w(1,3) that(1)] that(2) assms(7) by (intro assms(5)) simp
  then have c: "is_committed r' a 4 = is_committed r a 4"
    using assms(3) rng pl by (auto simp: is_committed_access [OF w(1)] is_committed_access [OF w(2)])
  have "load_bytes 4 a (xr_mem r') = load_bytes 4 a (xr_mem r)"
    using assms(6,7) unat_lt2p [of kd] by (intro load_bytes_cong) (auto simp: in_range_def simp del: unsigned_less)
  with c show ?thesis by (simp add: read32_def read_bytes_def readable_def)
qed

lemma reinstall:
  assumes win: "boot_window r" "paged_window r4" "xr_base r4" "xr_size r4 = xr_size r" "page_access r4 (unat (data_page r) div 4096) = ReadWrite"
    and w: "walked 100000 (data_page r) va r4 ss (kr_ram k)" and va: "va = xi_kernel_thunk_va img" "unat va + 4 * length ss + 4 \<le> unat (data_page r)"
  shows "\<exists>k'. install_thunks img k = Some k' \<and> kept_below (data_page r) (kr_ram k) (kr_ram k') \<and>
    length (kr_slots k') = length ss \<and> (\<forall>s\<in>set (kr_slots k'). \<not> ts_implemented s)"
proof -
  let ?kd = "data_page r" and ?r = "kr_ram k"
  have sa: "same_access r4 ?r" using w by (simp add: walked_def)
  have wf4: "ram_wf r4" "ram_wf ?r" using win(2) sa by (simp_all add: paged_window_def same_access_def)
  have kd: "data_page ?r = ?kd" using sa win(4) by (simp add: data_page_def same_access_def)
  have bw: "boot_window ?r" using paged_same [OF win(2) sa] win(1,3,4,5) sa kd by (simp add: boot_window_def same_access_def)
  note dp = data_page_range [OF bw, unfolded kd]
  obtain k' r5 where i: "install_thunks img k = Some k'" "walk_thunks 100000 ?kd va r5 = (kr_slots k', kr_ram k')" "paged_window r5"
    "xr_base r5" "xr_mprotect r5 = xr_mprotect ?r" "xr_size r5 = xr_size ?r" "page_access r5 = (page_access ?r)(unat ?kd div 4096 := ReadWrite)"
    "\<And>x. unat x < unat ?kd \<Longrightarrow> xr_mem r5 x = xr_mem ?r x"
    using install_walk [OF bw, of img] unfolding kd va(1) by blast
  have "page_access r5 = page_access ?r" using i(7) win(5) sa by (simp add: fun_eq_iff same_access_def)
  then have s5: "same_access ?r r5" using i(3-6) bw by (simp add: same_access_def paged_window_def boot_window_def)
  have rd: "read32 r5 (entry_at va j) = read32 ?r (entry_at va j)" if "j \<le> length ss" for j
    using i(8) va(2) that by (intro table_cong [OF wf4(2) s5, of ?kd va 0 j]) auto
  have "\<exists>ss'. walk_thunks 100000 ?kd va r5 = (ss', r5) \<and> length ss' = length ss \<and> (\<forall>s\<in>set ss'. \<not> ts_implemented s)"
  proof (rule walk_thunks_settled)
    fix j assume j: "j < length ss"
    have s: "ts_raw (ss ! j) \<noteq> 0" "ss ! j = thunk_of ?kd (entry_at va j) (ts_raw (ss ! j))" "read32 ?r (entry_at va j) = Some (ts_new_value (ss ! j))"
      using w j by (auto simp: walked_def)
    have "?kd \<noteq> 0" using va(2) by auto
    from thunk_settled [OF dp(3) this s(2,1)] s(3) rd [of j] j
    show "\<exists>raw. read32 r5 (entry_at va j) = Some raw \<and> raw \<noteq> 0 \<and> \<not> ts_implemented (thunk_of ?kd (entry_at va j) raw)" by auto
  next
    assume "length ss < 100000"
    then have "read32 r4 (entry_at va (length ss)) \<in> {None, Some 0}" using w by (simp add: walked_def)
    moreover have "read32 ?r (entry_at va (length ss)) = read32 r4 (entry_at va (length ss))"
      using w va(2) by (intro table_cong [OF wf4(1) sa, of ?kd va "4 * length ss"]) (auto simp: walked_def)
    ultimately show "read32 r5 (entry_at va (length ss)) \<in> {None, Some 0}" using rd by simp
  qed (use w in \<open>simp add: walked_def\<close>)
  then show ?thesis using i(1,2,8) s5 by (auto simp: kept_below_def)
qed

text \<open>The table of an image in memory: imports up to a zero word.\<close>

definition thunk_table :: "xbe_ram \<Rightarrow> u32 \<Rightarrow> u32 list \<Rightarrow> bool" where
  "thunk_table r va es \<longleftrightarrow> length es < 100000 \<and> 4 dvd unat va \<and> read32 r (entry_at va (length es)) = Some 0 \<and>
     (\<forall>i<length es. read32 r (entry_at va i) = Some (es ! i) \<and> es ! i \<noteq> 0)"

lemma table_addresses:
  assumes "ram_wf r" "xr_size r \<le> 2 ^ 31" "thunk_table r va es" "i \<le> length es"
  shows "unat (entry_at va i) = unat va + 4 * i"
  using assms(4)
proof (induction i)
  case (Suc i)
  obtain v where "read32 r (entry_at va i) = Some v" using assms(3) Suc.prems by (auto simp: thunk_table_def)
  from read32_range [OF assms(1) this] Suc assms(2) show ?case by (intro unat_entry) simp
qed simp

lemma table_below:
  assumes fresh: "window_fresh r e" and t: "thunk_table r va es"
  shows "unat va + 4 * length es + 4 \<le> unat (data_page r)"
proof -
  have w: "ram_wf r" "xr_page_size r = 4096" "xr_size r \<le> 2 ^ 31" "e + 4096 \<le> xr_size r" "\<And>p. e \<le> 4096 * p \<Longrightarrow> page_access r p = NoAccess"
    using fresh by (simp_all add: window_fresh_def)
  note dp = data_page_range [OF fresh_boot_window [OF fresh]]
  let ?a = "entry_at va (length es)"
  have u: "unat ?a = unat va + 4 * length es" by (rule table_addresses [OF w(1,3) t order_refl])
  then have al: "4 dvd unat ?a" using t by (simp add: thunk_table_def)
  have c: "is_committed r ?a 4" using read32_range [OF w(1)] t by (auto simp: thunk_table_def)
  then have "page_access r (unat ?a div 4096) \<noteq> NoAccess"
    using is_committed_access [OF w(1)] slot_page [OF w(1,2) _ al] by (auto simp: is_committed_def)
  then have "4096 * (unat ?a div 4096) < e" using w(5) not_less by blast
  then have "4096 * (unat ?a div 4096) < unat (data_page r)" using w(4) dp(1) by simp
  then have "unat ?a < unat (data_page r)" using dp(5) by (auto elim!: dvdE simp: div_less_iff_less_mult mult.commute)
  moreover have "4 dvd unat (data_page r)" using dp(5) by (rule dvd_trans [rotated]) simp
  ultimately show ?thesis using al unfolding u by (auto elim!: dvdE)
qed

lemma install_table:
  assumes fresh: "window_fresh (kr_ram k) e" and t: "thunk_table (kr_ram k) (xi_kernel_thunk_va img) es"
  defines "r \<equiv> kr_ram k" and "va \<equiv> xi_kernel_thunk_va img"
  shows "\<exists>k' r4. install_thunks img k = Some k' \<and> walked 100000 (data_page r) va r4 (kr_slots k') (kr_ram k') \<and> paged_window r4 \<and>
    xr_base r4 \<and> xr_size r4 = xr_size r \<and> page_access r4 = (page_access r)(unat (data_page r) div 4096 := ReadWrite) \<and>
    (\<forall>x. unat x < unat (data_page r) \<longrightarrow> xr_mem r4 x = xr_mem r x) \<and> map ts_raw (kr_slots k') = es"
proof -
  let ?kd = "data_page r"
  have bw: "boot_window r" unfolding r_def by (rule fresh_boot_window [OF fresh])
  note dp = data_page_range [OF bw]
  have wf: "ram_wf r" "xr_size r \<le> 2 ^ 31" using bw by (simp_all add: boot_window_def paged_window_def)
  obtain k' r4 where i: "install_thunks img k = Some k'" "walk_thunks 100000 ?kd va r4 = (kr_slots k', kr_ram k')" "paged_window r4" "xr_base r4"
    "xr_size r4 = xr_size r" "page_access r4 = (page_access r)(unat ?kd div 4096 := ReadWrite)" "\<And>x. unat x < unat ?kd \<Longrightarrow> xr_mem r4 x = xr_mem r x"
    using install_walk [of k img] bw unfolding r_def va_def by blast
  have al: "4 dvd unat va" using t by (simp add: thunk_table_def va_def)
  note w = walk_thunks_walked [OF i(3) al i(2)]
  have rd: "read32 r4 (entry_at va j) = read32 r (entry_at va j)" if "j \<le> length es" for j
  proof (rule read32_below)
    show "unat (entry_at va j) + 4 \<le> unat ?kd"
      using table_addresses [OF wf t [folded r_def va_def] that] table_below [OF fresh t, folded r_def va_def] that by simp
    show "page_access r4 p = page_access r p" if "4096 * p < unat ?kd" for p using i(6) that dp(5) by auto
  qed (use i bw in \<open>simp_all add: boot_window_def\<close>)
  let ?ss = "kr_slots k'"
  have "\<not> length ?ss < length es"
    using w rd [of "length ?ss"] t by (auto simp: walked_def thunk_table_def r_def va_def)
  moreover have "\<not> length es < length ?ss"
    using w rd [of "length es"] t by (auto simp: walked_def thunk_table_def r_def va_def)
  ultimately have len: "length ?ss = length es" by simp
  have "map ts_raw ?ss = es"
    using w rd t len by (intro nth_equalityI) (auto simp: walked_def thunk_table_def r_def va_def)
  then show ?thesis using i(1,3-7) w by blast
qed

text \<open>(C9) The thunk table is resolved exactly. Over a freshly loaded image whose aligned
  table holds the entries \<open>es\<close> and then zero, \<open>install_thunks\<close> gives one slot for each entry, and the slot's
  word in memory is the value its import calls for: guest code that calls through an implemented
  function makes the code hook ask for that very export, an implemented data export points into the
  data page, and a fetch through any other known import is a fault with its ordinal. Below the data page
  no other byte and no page right changes, although the table may be read-only. A further installation
  over the same window, by this or another kernel, leaves everything below the data page as it is, but
  reports no slot as implemented.\<close>

theorem thunks_installed:
  assumes "window_fresh (kr_ram k) (unat (xi_image_end_abs img))" "thunk_table (kr_ram k) (xi_kernel_thunk_va img) es"
  shows "\<exists>k'. install_thunks img k = Some k' \<and>
    (let kd = data_page (kr_ram k); va = xi_kernel_thunk_va img; ss = kr_slots k'; r = kr_ram k; r' = kr_ram k' in
     length ss = length es \<and>
     (\<forall>i<length es. ss ! i = thunk_of kd (entry_at va i) (es ! i) \<and> resolved kd (ss ! i) \<and>
        read32 r' (entry_at va i) = Some (ts_new_value (ss ! i))) \<and>
     (\<forall>x. unat x < unat kd \<and> \<not> in_range va (4 * length es) x \<longrightarrow> xr_mem r' x = xr_mem r x) \<and>
     (\<forall>p. p \<noteq> unat kd div 4096 \<longrightarrow> page_access r' p = page_access r p) \<and>
     (\<forall>k2. kr_ram k2 = r' \<longrightarrow> (\<exists>k3. install_thunks img k2 = Some k3 \<and> kept_below kd r' (kr_ram k3) \<and>
        length (kr_slots k3) = length es \<and> (\<forall>s\<in>set (kr_slots k3). \<not> ts_implemented s))))"
proof -
  define va where "va = xi_kernel_thunk_va img"
  let ?r = "kr_ram k" let ?kd = "data_page ?r"
  note t = assms(2) [folded va_def]
  have bw: "boot_window ?r" by (rule fresh_boot_window [OF assms(1)])
  note dp = data_page_range [OF bw]
  obtain k' r4 where k': "install_thunks img k = Some k'" and w: "walked 100000 ?kd va r4 (kr_slots k') (kr_ram k')"
    and r4: "paged_window r4" "xr_base r4" "xr_size r4 = xr_size ?r" "page_access r4 = (page_access ?r)(unat ?kd div 4096 := ReadWrite)"
      "\<And>x. unat x < unat ?kd \<Longrightarrow> xr_mem r4 x = xr_mem ?r x" and es: "map ts_raw (kr_slots k') = es"
    using install_table [OF assms] unfolding va_def by blast
  let ?ss = "kr_slots k'" and ?r' = "kr_ram k'"
  have len: "length ?ss = length es" using es by auto
  have slots: "\<forall>i<length es. ?ss ! i = thunk_of ?kd (entry_at va i) (es ! i) \<and> resolved ?kd (?ss ! i) \<and>
      read32 ?r' (entry_at va i) = Some (ts_new_value (?ss ! i))"
  proof (intro allI impI)
    fix i assume i: "i < length es"
    have "i < length ?ss" using i len by (simp only:)
    then have raw: "ts_raw (?ss ! i) = es ! i" using nth_map [of i ?ss ts_raw] by (simp only: es)
    have s: "?ss ! i = thunk_of ?kd (entry_at va i) (es ! i)" "read32 ?r' (entry_at va i) = Some (ts_new_value (?ss ! i))"
      using w i len raw by (auto simp: walked_def)
    from s thunk_resolved [OF dp(3) s(1)]
    show "?ss ! i = thunk_of ?kd (entry_at va i) (es ! i) \<and> resolved ?kd (?ss ! i) \<and>
      read32 ?r' (entry_at va i) = Some (ts_new_value (?ss ! i))" by blast
  qed
  have mem: "\<forall>x. unat x < unat ?kd \<and> \<not> in_range va (4 * length es) x \<longrightarrow> xr_mem ?r' x = xr_mem ?r x"
    using w r4(5) len by (simp add: walked_def)
  have rights: "\<forall>p. p \<noteq> unat ?kd div 4096 \<longrightarrow> page_access ?r' p = page_access ?r p" using w r4(4) by (simp add: walked_def same_access_def)
  have again: "\<exists>k3. install_thunks img k2 = Some k3 \<and> kept_below ?kd ?r' (kr_ram k3) \<and>
      length (kr_slots k3) = length es \<and> (\<forall>s\<in>set (kr_slots k3). \<not> ts_implemented s)" if "kr_ram k2 = ?r'" for k2
    using reinstall [OF bw r4(1-3), of va ?ss k2 img] w r4(4) that len table_below [OF assms(1) t] by (simp add: va_def)
  show ?thesis unfolding Let_def va_def [symmetric]
  proof (intro exI [of _ k'] conjI)
    show "\<forall>k2. kr_ram k2 = ?r' \<longrightarrow> (\<exists>k3. install_thunks img k2 = Some k3 \<and> kept_below ?kd ?r' (kr_ram k3) \<and>
        length (kr_slots k3) = length es \<and> (\<forall>s\<in>set (kr_slots k3). \<not> ts_implemented s))" using again by blast
  qed (fact k' len slots mem rights)+
qed

text \<open>A read-only table with a function, a data export and an import that is not served.\<close>

definition thunk_bytes :: "32 mem" where
  "thunk_bytes = store_bytes 0x1000 (le_bytes 4 (0x80000008 :: u32) @ le_bytes 4 (0x80000144 :: u32) @ le_bytes 4 (0x80000001 :: u32)) (\<lambda>_. 0)"

definition thunk_ram :: xbe_ram where
  "thunk_ram = (XbeRam 4096 True (\<lambda>_. True) 0x8000)\<lparr>xr_committed := (replicate 8 False)[1 := True], xr_ro := (replicate 8 False)[1 := True],
     xr_mem := thunk_bytes\<rparr>"

lemma thunk_ram_fresh: "window_fresh thunk_ram 0x2000"
  by (auto simp: window_fresh_def ram_wf_def page_access_def thunk_ram_def XbeRam_def nth_list_update)

lemma thunk_ram_read:
  assumes "unat a div 4096 = 1" "unat (3 + a) div 4096 = 1" "unat a < 0x2000"
  shows "read32 thunk_ram a = Some (le_word (load_bytes 4 a thunk_bytes))"
proof -
  have "page_list thunk_ram a 4 = [1]" using assms by (simp add: page_list_def thunk_ram_def XbeRam_def)
  then show ?thesis using assms(3)
    by (simp add: read32_def read_bytes_def readable_def is_committed_def pages_committed_def range_ok_def)
      (simp add: thunk_ram_def XbeRam_def)
qed

lemma thunk_ram_table: "thunk_table thunk_ram 0x1000 [0x80000008, 0x80000144, 0x80000001]"
proof -
  have "le_word (load_bytes 4 0x1000 thunk_bytes) = (0x80000008 :: u32)" "le_word (load_bytes 4 0x1004 thunk_bytes) = (0x80000144 :: u32)"
    "le_word (load_bytes 4 0x1008 thunk_bytes) = (0x80000001 :: u32)" "le_word (load_bytes 4 0x100C thunk_bytes) = (0 :: u32)" by code_simp+
  then show ?thesis using thunk_ram_read [of "0x1000"] thunk_ram_read [of "0x1004"] thunk_ram_read [of "0x1008"] thunk_ram_read [of "0x100C"]
    by (auto simp: thunk_table_def less_Suc_eq nth_Cons')
qed

theorem thunks_installed_witness:
  "\<exists>k'. install_thunks (undefined\<lparr>xi_kernel_thunk_va := 0x1000, xi_image_end_abs := 0x2000\<rparr>) (XboxKrnl thunk_ram GuestScheduler) = Some k' \<and>
     read32 (kr_ram k') 0x1000 = Some 0xF00F0008 \<and> page_access (kr_ram k') 1 = ReadOnly"
proof -
  let ?img = "undefined\<lparr>xi_kernel_thunk_va := 0x1000, xi_image_end_abs := 0x2000\<rparr>" and ?k = "XboxKrnl thunk_ram GuestScheduler"
  have r: "kr_ram ?k = thunk_ram" by (simp add: XboxKrnl_def)
  have "\<exists>e. find_export 8 = Some e \<and> ex_conv e \<noteq> Data"
    using find_export_member [of "export_row 8 ''DbgPrint'' Cdecl 0"] by (auto simp: kExports_rows)
  then have s: "ts_new_value (thunk_of kd 0x1000 0x80000008) = 0xF00F0008" for kd
    by (auto simp: thunk_of_def implemented_function_def implemented_functions_def kHleMarker_def)
  have pg: "unat (data_page thunk_ram) div 4096 = 7" "page_access thunk_ram 1 = ReadOnly"
    by (simp_all add: data_page_def thunk_ram_def XbeRam_def page_access_def)
  from thunks_installed [of ?k ?img "[0x80000008, 0x80000144, 0x80000001]"] thunk_ram_table thunk_ram_fresh r
  obtain k' where k': "install_thunks ?img ?k = Some k'" "read32 (kr_ram k') 0x1000 = Some (ts_new_value (thunk_of (data_page thunk_ram) 0x1000 0x80000008))"
    "\<forall>p. p \<noteq> unat (data_page thunk_ram) div 4096 \<longrightarrow> page_access (kr_ram k') p = page_access thunk_ram p"
    by (auto simp: Let_def)
  then show ?thesis using s pg by auto
qed

text \<open>The ordinals of the slots are those the loader lists for the image.\<close>

lemma slots_match_loader:
  assumes "window_fresh (lx_ram lx) (unat (xi_image_end_abs (lx_image lx)))" "thunk_table (lx_ram lx) (xi_kernel_thunk_va (lx_image lx)) es"
    and "length es < 4096" "unat (xi_kernel_thunk_va (lx_image lx)) + 4 * length es + 4 \<le> unat (xi_image_end_abs (lx_image lx))"
    and "h_base_addr (xi_header (lx_image lx)) \<le> xi_kernel_thunk_va (lx_image lx)"
    and "install_thunks (lx_image lx) (XboxKrnl (lx_ram lx) sch) = Some k"
  shows "map ts_ordinal (kr_slots k) = kernel_thunk_ordinals lx"
proof -
  let ?va = "xi_kernel_thunk_va (lx_image lx)"
  have "kr_ram (XboxKrnl (lx_ram lx) sch) = lx_ram lx" by (simp add: XboxKrnl_def)
  from install_table [of "XboxKrnl (lx_ram lx) sch", unfolded this, OF assms(1,2)] assms(6)
  obtain r4 where w: "walked 100000 (data_page (lx_ram lx)) ?va r4 (kr_slots k) (kr_ram k)" and es: "map ts_raw (kr_slots k) = es" by auto
  have "ts_ordinal (thunk_of kd va raw) = raw AND 0x7FFFFFFF" for kd va raw by (simp add: thunk_of_def Let_def split: option.splits)
  then have "ts_ordinal (kr_slots k ! i) = ts_raw (kr_slots k ! i) AND 0x7FFFFFFF" if "i < length (kr_slots k)" for i
    using w that unfolding walked_def by metis
  then have "map ts_ordinal (kr_slots k) = map (\<lambda>e. e AND 0x7FFFFFFF) es"
    unfolding es [symmetric] by (intro nth_equalityI) simp_all
  also have "\<dots> = kernel_thunk_ordinals lx"
    using assms(2) by (intro thunk_walk_exact [symmetric] assms(3-5)) (auto simp: thunk_table_def)
  finally show ?thesis .
qed

end
