(* ===== verification/Krnl_Host.thy ===== *)
theory Krnl_Host
  imports Krnl_Props
begin

text \<open>
  Kernel calls from outside every fiber, as \<open>src/src/main.cpp\<close> makes them when it runs the entry point
  of the title on the host's stack: no export suspends or ends its caller there, and the scheduler
  stays outside its fibers. Waits that would have to block are refused instead.
\<close>

section \<open>What the helpers leave alone\<close>

text \<open>No fiber is running and there are at most \<open>n\<close> of them.\<close>

definition idle :: "nat \<Rightarrow> krnl \<Rightarrow> bool" where
  "idle n k \<longleftrightarrow> gs_current (kr_sched k) = None \<and> length (gs_threads (kr_sched k)) \<le> n"

named_theorems idle_simps \<open>operations that leave the running fiber and the number of fibers alone\<close>

lemma idle_fields [idle_simps]:
  "idle n (k\<lparr>kr_ram := r\<rparr>) = idle n k" "idle n (k\<lparr>kr_heap := h\<rparr>) = idle n k" "idle n (k\<lparr>kr_objects := os\<rparr>) = idle n k"
  "idle n (k\<lparr>kr_free_slots := fs\<rparr>) = idle n k" "idle n (k\<lparr>kr_va_objects := vs\<rparr>) = idle n k" "idle n (k\<lparr>kr_fiber_threads := ft\<rparr>) = idle n k"
  "idle n (k\<lparr>kr_next_thread_id := i\<rparr>) = idle n k" "idle n (k\<lparr>kr_mem_allocs := ma\<rparr>) = idle n k" "idle n (k\<lparr>kr_mem_log := ml\<rparr>) = idle n k"
  "idle n (k\<lparr>kr_next_obj := no\<rparr>) = idle n k" "idle n (k\<lparr>kr_dbg_lines := dl\<rparr>) = idle n k" "idle n (k\<lparr>kr_sink_log := sl\<rparr>) = idle n k"
  by (simp_all add: idle_def)

lemma idle_outside: "idle n k \<Longrightarrow> current_handle (kr_sched k) = 0 \<and> \<not> in_fiber k \<and> current_thread_token k = (0, k)"
  by (simp add: idle_def current_handle_def in_fiber_def current_thread_token_def)

lemma idle_pokes [idle_simps]:
  "idle n (poke32 va v k) = idle n k" "idle n (poke8 va b k) = idle n k" "idle n (opt_poke va v k) = idle n k"
  "idle n (snd (write64 va w k)) = idle n k" "idle n (set_obj ob d k) = idle n k" "idle n (upd_obj ob f k) = idle n k"
  "idle n (write_signal_state d k) = idle n k" "idle n (set_obj_mirrored ob d k) = idle n k" "idle n (write_dispatcher_header d k) = idle n k"
  "idle n (dbg_out l k) = idle n k" "idle n (refresh_data k) = idle n k" "idle n (snd (insert_object ob k)) = idle n k" "idle n (snd (alloc_obj d k)) = idle n k"
  by (auto simp: idle_simps poke32_def poke8_def opt_poke_def write64_def set_obj_def upd_obj_def write_signal_state_def set_obj_mirrored_def
      write_dispatcher_header_def dbg_out_def refresh_data_def insert_object_def alloc_obj_def Let_def split: prod.splits kind.splits list.splits)

lemma idle_krnl_signal [idle_simps]: "idle n (snd (krnl_signal tok al k)) = idle n k"
proof -
  have "length (snd (signal_list tok al gs)) = length gs" for gs :: "kctx guest_thread list"
    by (induction gs) (simp_all add: Let_def case_prod_unfold)
  then show ?thesis by (simp add: krnl_signal_def signal_def Let_def case_prod_unfold idle_def)
qed

lemma idle_units [idle_simps]: "idle n (signal_units m tok k) = idle n k"
proof (induction m tok k rule: signal_units.induct)
  case (2 m tok k)
  then show ?case using idle_krnl_signal [of n tok False k] by (auto split: prod.splits)
qed simp

lemma idle_wake [idle_simps]: "idle n (wake_object ob m k) = idle n k"
proof -
  have "idle n (fold (\<lambda>t k. snd (krnl_signal t False k)) ts k) = idle n k" for ts k
    by (induction ts arbitrary: k) (simp_all add: idle_simps)
  then show ?thesis by (auto simp: wake_object_def idle_simps split: option.splits)
qed

lemma idle_objects [idle_simps]:
  "idle n (snd (ke_set_event ob d k)) = idle n k" "idle n (snd (ke_reset_event ob d k)) = idle n k" "idle n (snd (nt_pulse_event ob d k)) = idle n k"
  "idle n (snd (release_mutant ob d k)) = idle n k" "idle n (abandon tok ob k) = idle n k" "idle n (snd (resume_thread ob d k)) = idle n k"
  by (auto simp: ke_set_event_def ke_reset_event_def nt_pulse_event_def release_mutant_def abandon_def resume_thread_def Let_def idle_simps
      case_prod_unfold split: option.splits)

lemma idle_semaphore: "release_semaphore ob d rel k = Some (prev, k') \<Longrightarrow> idle n k' = idle n k"
  by (auto simp: release_semaphore_def Let_def idle_simps split: if_splits)

lemma idle_finish [idle_simps]: "idle n (finish_thread_object ob k) = idle n k"
proof -
  have "idle n (fold (abandon tok) obs k) = idle n k" for tok obs k
    by (induction obs arbitrary: k) (simp_all add: idle_simps)
  then show ?thesis by (auto simp: finish_thread_object_def Let_def idle_simps split: option.splits)
qed

lemma idle_memory:
  "mm_alloc sz lo hi al pr k = Some (va, k') \<Longrightarrow> idle n k' = idle n k" "mm_free va k = (b, k') \<Longrightarrow> idle n k' = idle n k"
  by (auto simp: mm_alloc_def mm_commit_def mm_free_def Let_def idle_simps split: option.splits prod.splits if_splits)

section \<open>Calls return at once\<close>

text \<open>The outcome is a return to the caller, with the scheduler still idle.\<close>

definition prompt :: "nat \<Rightarrow> outcome \<Rightarrow> bool" where
  "prompt n out = (case out of Ret v b e k \<Rightarrow> idle n k | Crash \<Rightarrow> True | _ \<Rightarrow> False)"

lemma prompt_simps [simp]:
  "prompt n (Ret v b e k) = idle n k" "\<not> prompt n (Block k)" "\<not> prompt n (Exit k)" "\<not> prompt n (RunGuest x k)" "prompt n Crash"
  "prompt n (ret v k) = idle n k" "prompt n (reject k) = idle n k" "prompt n (void_fail k) = idle n k" "prompt n (wait_result st k) = idle n k"
  by (simp_all add: prompt_def ret_def reject_def void_fail_def wait_result_def)

lemma prompt_object: "idle n k \<Longrightarrow> (\<And>ob d. prompt n (f ob d)) \<Longrightarrow> prompt n (on_object obo P k f)"
  by (simp add: on_object_def split: option.splits)

lemma prompt_plain:
  assumes "idle n k"
  shows "prompt n (DbgBreakPoint args k)" "prompt n (DbgPrint fmt args k)" "prompt n (interlocked f va k)"
    "prompt n (KeQueryPerformanceCounter args k)" "prompt n (KeQueryPerformanceFrequency args k)" "prompt n (KeDelayExecutionThread args k)"
    "prompt n (RtlTimeToTimeFields args k)" "prompt n (KeGetCurrentThread args k)" "prompt n (NtClose args k)" "prompt n (NtYieldExecution args k)"
    "prompt n (MmQueryAllocationSize args k)" "prompt n (fill_memory va m c k)" "prompt n (RtlMoveMemory args k)" "prompt n (PsTerminateSystemThread args k)"
  using assms idle_outside [OF assms]
  by (auto simp: DbgBreakPoint_def DbgPrint_def interlocked_def KeQueryPerformanceCounter_def KeQueryPerformanceFrequency_def
      KeDelayExecutionThread_def RtlTimeToTimeFields_def KeGetCurrentThread_def NtClose_def NtYieldExecution_def find_thread_def
      MmQueryAllocationSize_def fill_memory_def RtlMoveMemory_def PsTerminateSystemThread_def find_thread_by_fiber_def Let_def idle_simps
      split: option.splits prod.splits)

lemma prompt_time: "idle n k \<Longrightarrow> prompt n (KeQuerySystemTime args k)"
  using idle_pokes(4) [of n "args ! 0" "kr_filetime k" k] by (auto simp: KeQuerySystemTime_def split: prod.splits)

lemma prompt_events:
  assumes "idle n k"
  shows "prompt n (KeInitializeEvent args k)" "prompt n (KeSetEvent args k)" "prompt n (KeResetEvent args k)" "prompt n (NtSetEvent args k)"
    "prompt n (NtClearEvent args k)" "prompt n (NtPulseEvent args k)"
proof -
  have e: "prompt n (case p of (prev, k') \<Rightarrow> ret (f prev) (opt_poke a prev k'))" "prompt n (case p of (prev, k') \<Rightarrow> ret (f prev) k')"
    if "idle n (snd p)" for p f a using that by (auto simp: idle_simps split: prod.splits)
  show "prompt n (KeSetEvent args k)" "prompt n (KeResetEvent args k)" "prompt n (NtSetEvent args k)"
    "prompt n (NtClearEvent args k)" "prompt n (NtPulseEvent args k)"
    unfolding KeSetEvent_def KeResetEvent_def NtSetEvent_def NtClearEvent_def NtPulseEvent_def
    by (intro prompt_object assms e; simp add: idle_simps assms)+
  show "prompt n (KeInitializeEvent args k)"
    using assms by (auto simp: KeInitializeEvent_def Let_def alloc_obj_def idle_simps split: option.splits)
qed

lemma idle_satisfied: "idle n k \<Longrightarrow> dispatcher_satisfied d k = (sat, k1) \<Longrightarrow> idle n k1"
  using idle_outside [of n k] by (auto simp: dispatcher_satisfied_def split: kind.splits if_splits)

lemma idle_acquire: "idle n k \<Longrightarrow> dispatcher_acquire ob d k = (st, k1) \<Longrightarrow> idle n k1"
  using idle_outside [of n k] by (auto simp: dispatcher_acquire_def Let_def idle_simps split: kind.splits if_splits)

lemma idle_all_satisfied: "all_satisfied obs k = Some (b, k') \<Longrightarrow> idle n k \<Longrightarrow> idle n k'"
  by (induction obs k rule: all_satisfied.induct) (auto split: option.splits prod.splits if_splits dest: idle_satisfied)

lemma idle_acquire_all: "acquire_all i obs w k = Some (st, k') \<Longrightarrow> idle n k \<Longrightarrow> idle n k'"
  by (induction i obs w k rule: acquire_all.induct) (auto split: option.splits prod.splits dest: idle_acquire)

lemma idle_acquire_any: "acquire_any i obs k = Some (st, k') \<Longrightarrow> idle n k \<Longrightarrow> idle n k'"
  by (induction i obs k rule: acquire_any.induct) (auto split: option.splits prod.splits if_splits dest: idle_satisfied idle_acquire)

lemma idle_multi: "multi_try obs wa k = Some (st, k') \<Longrightarrow> idle n k \<Longrightarrow> idle n k'"
  by (auto simp: multi_try_def split: if_splits option.splits bool.splits dest: idle_acquire_any)
    (meson idle_all_satisfied idle_acquire_all)+

lemma prompt_wait_dispatch: "idle n k \<Longrightarrow> prompt n (wait_dispatch ob imm ticks k)"
  by (auto simp: wait_dispatch_def split: option.splits prod.splits dest: idle_satisfied idle_acquire idle_outside)

lemma prompt_waits:
  assumes "idle n k"
  shows "prompt n (KeWaitForSingleObject args k)" "prompt n (NtWaitForSingleObject args k)" "prompt n (NtWaitForSingleObjectEx args k)"
    "prompt n (NtWaitForMultipleObjectsEx args k)"
proof -
  have m: "prompt n (wait_multiple obs wa imm ticks k)" for obs wa imm ticks
    using assms by (auto simp: wait_multiple_def split: option.splits dest: idle_multi idle_outside)
  show "prompt n (KeWaitForSingleObject args k)" "prompt n (NtWaitForSingleObject args k)" "prompt n (NtWaitForSingleObjectEx args k)"
    "prompt n (NtWaitForMultipleObjectsEx args k)"
    using assms m prompt_wait_dispatch [OF assms]
    by (simp_all add: KeWaitForSingleObject_def NtWaitForSingleObject_def NtWaitForSingleObjectEx_def NtWaitForMultipleObjectsEx_def wait_export_def
        Let_def split: option.splits)
qed

lemma prompt_create: "idle n k \<Longrightarrow> prompt n (create_pool out d k)" "idle n k \<Longrightarrow> prompt n (create_at_va d k)"
  by (simp_all add: create_pool_def create_at_va_def case_prod_unfold idle_simps)

lemma prompt_mutants:
  assumes "idle n k"
  shows "prompt n (NtCreateMutant args k)" "prompt n (NtReleaseMutant args k)" "prompt n (NtQueryMutant args k)" "prompt n (KeInitializeMutant args k)"
    "prompt n (KeReleaseMutant args k)"
proof -
  note o = idle_outside [OF assms]
  have "new_mutant va i k = Some (m, k1) \<Longrightarrow> idle n k1" for va i m k1 using assms o by (auto simp: new_mutant_def Let_def split: if_splits)
  then show "prompt n (NtCreateMutant args k)" "prompt n (KeInitializeMutant args k)"
    using assms by (auto simp: NtCreateMutant_def KeInitializeMutant_def prompt_create split: option.splits)
  show "prompt n (NtReleaseMutant args k)" "prompt n (KeReleaseMutant args k)"
    unfolding NtReleaseMutant_def KeReleaseMutant_def
    by (intro prompt_object assms; simp add: o case_prod_unfold idle_simps assms)+
  show "prompt n (NtQueryMutant args k)"
    unfolding NtQueryMutant_def using o idle_outside [of n "poke32 (args ! 1) v k" for v] assms
    by (intro prompt_object assms) (auto simp: Let_def idle_simps)
qed

lemma prompt_semaphores:
  assumes "idle n k"
  shows "prompt n (NtCreateSemaphore args k)" "prompt n (NtReleaseSemaphore args k)" "prompt n (NtQuerySemaphore args k)"
    "prompt n (KeInitializeSemaphore args k)" "prompt n (KeReleaseSemaphore args k)"
proof -
  show "prompt n (NtCreateSemaphore args k)" "prompt n (KeInitializeSemaphore args k)"
    using assms by (simp_all add: NtCreateSemaphore_def KeInitializeSemaphore_def prompt_create Let_def)
  show "prompt n (NtReleaseSemaphore args k)" "prompt n (KeReleaseSemaphore args k)" "prompt n (NtQuerySemaphore args k)"
    unfolding NtReleaseSemaphore_def KeReleaseSemaphore_def NtQuerySemaphore_def using assms
    by (intro prompt_object assms; auto simp: idle_simps idle_semaphore split: option.splits)+
qed

lemma prompt_threads:
  assumes "idle n k"
  shows "prompt n (KeSetBasePriorityThread args k)" "prompt n (NtResumeThread args k)" "prompt n (KeResumeThread args k)"
    "prompt n (NtSuspendThread args k)" "prompt n (KeSuspendThread args k)"
proof -
  have "gs_current (kr_sched k) = None" using assms by (simp add: idle_def)
  then show "prompt n (KeSetBasePriorityThread args k)" "prompt n (NtResumeThread args k)" "prompt n (KeResumeThread args k)"
    "prompt n (NtSuspendThread args k)" "prompt n (KeSuspendThread args k)"
    unfolding KeSetBasePriorityThread_def NtResumeThread_def KeResumeThread_def NtSuspendThread_def KeSuspendThread_def suspend_thread_def
    using assms idle_outside [OF assms]
    by (intro prompt_object assms; simp add: case_prod_unfold idle_simps Let_def; simp add: set_obj_def)+
qed

lemma prompt_memory:
  assumes "idle n k"
  shows "prompt n (MmAllocateContiguousMemory args k)" "prompt n (MmAllocateContiguousMemoryEx args k)" "prompt n (MmFreeContiguousMemory args k)"
  using assms by (auto simp: MmAllocateContiguousMemory_def MmAllocateContiguousMemoryEx_def MmFreeContiguousMemory_def idle_memory
      split: option.splits prod.splits)

lemma prompt_sections:
  assumes "idle n k"
  shows "prompt n (RtlInitializeCriticalSection args k)" "prompt n (RtlEnterCriticalSection args k)" "prompt n (RtlLeaveCriticalSection args k)"
    "prompt n (RtlTryEnterCriticalSection args k)"
  using assms idle_outside [OF assms]
  by (auto simp: RtlInitializeCriticalSection_def RtlEnterCriticalSection_def RtlLeaveCriticalSection_def RtlTryEnterCriticalSection_def
      void_status_def enter_round_def cs_init_def cs_enter_def cs_leave_def cs_try_enter_def Let_def idle_simps split: option.splits prod.splits)

lemma idle_mono: "idle n k \<Longrightarrow> n \<le> m \<Longrightarrow> idle m k"
  by (simp add: idle_def)

lemma prompt_mono: "prompt n out \<Longrightarrow> n \<le> m \<Longrightarrow> prompt m out"
  using idle_mono by (auto simp: prompt_def split: outcome.splits)

lemma prompt_create_thread: "idle n k \<Longrightarrow> prompt (Suc n) (PsCreateSystemThreadEx mm args k)"
  by (auto simp: PsCreateSystemThreadEx_def Let_def case_prod_unfold idle_simps idle_mono)
    (auto simp: idle_def spawn_reserved_def Let_def split: option.splits)

lemma handler_table_prompt:
  assumes "idle n k" shows "list_all (\<lambda>(m, h). prompt (Suc n) (h args k)) (handlers fmt mm)"
proof -
  have "idle (Suc n) k" using assms by (rule idle_mono) simp
  note p = prompt_plain [OF this] prompt_time [OF this] prompt_events [OF this] prompt_waits [OF this] prompt_mutants [OF this]
    prompt_semaphores [OF this] prompt_threads [OF this] prompt_memory [OF this] prompt_sections [OF this] prompt_create(1) [OF this] this
  show ?thesis unfolding handlers_def
    by (simp add: need_def p prompt_create_thread [OF assms] NtCreateEvent_def InterlockedIncrement_def InterlockedDecrement_def InterlockedExchange_def
        InterlockedCompareExchange_def InterlockedExchangeAdd_def RtlZeroMemory_def RtlFillMemory_def)
qed

lemma host_call_prompt:
  assumes "idle n k" shows "prompt (Suc n) (call fmt mm ordinal args k)"
proof -
  have i: "idle n (refresh_data k)" "idle (Suc n) (refresh_data k)" using assms idle_mono [of n k "Suc n"] by (simp_all add: idle_simps)
  have "prompt (Suc n) (h args (refresh_data k))" if "map_of (handlers fmt mm) m = Some h" for m h
    using handler_table_prompt [OF i(1), of args fmt mm] map_of_SomeD [OF that] by (auto simp: list_all_iff)
  with i(2) show ?thesis by (simp add: call_def Let_def split: option.splits)
qed

end
