(* ===== verification/Xbox_Cpu_Map.thy ===== *)
theory Xbox_Cpu_Map
  imports Xbox_Cpu Krnl_Mm_Props
begin

text \<open>
  What a processor has mapped (\<open>map_range\<close>, \<open>unmap_range\<close>, \<open>attach\<close>). The list \<open>mapped_\<close> always
  denotes exactly the pages of the engine, whatever the engine answers. Attaching maps exactly the
  committed pages and two service pages; the permissions are those of the reference function
  \<open>grouped\<close>, which agree with the window's protection exactly when no two neighbouring committed
  pages differ. An attachment that fails leaves entries behind that make a second one skip the RAM.
\<close>

section \<open>Page arithmetic\<close>

lemma kPage_nat [simp]: "unat kPage = 4096"
  by (simp add: kPage_def)

lemma unat_floor: "unat (va AND NOT (kPage - 1)) = unat va div 4096 * 4096"
  using unat_page_floor [of kPage 12 va] by simp

lemma unat_page_round: "unat v + 4095 < 2 ^ 32 \<Longrightarrow> unat (page_round v) = (unat v + 4095) div 4096 * 4096"
proof -
  assume b: "unat v + 4095 < 2 ^ 32"
  have "v + kPage - 1 = v + 4095" by (simp add: kPage_def)
  moreover have "unat (v + 4095) = unat v + 4095" using b by (subst unat_add_lt) simp_all
  ultimately show ?thesis by (simp only: page_round_def unat_floor)
qed

text \<open>A request whose end, rounded up to a page, does not wrap; the list entries it leads to.\<close>

definition fits :: "u32 \<Rightarrow> u32 \<Rightarrow> bool" where
  "fits va sz \<longleftrightarrow> unat va + unat sz + 4095 < 2 ^ 32"

definition paged :: "u32 \<times> u32 \<Rightarrow> bool" where
  "paged = (\<lambda>(va, sz). 4096 dvd unat va \<and> 4096 dvd unat sz \<and> unat va + unat sz < 2 ^ 32)"

definition spans :: "(u32 \<times> u32) list \<Rightarrow> nat set" where
  "spans rs = (\<Union>(va, sz)\<in>set rs. span va sz)"

lemma spans_simps [simp]:
  "spans [] = {}" "spans (r # rs) = span (fst r) (snd r) \<union> spans rs" "spans (xs @ ys) = spans xs \<union> spans ys"
  by (auto simp: spans_def split: prod.splits)

lemma spans_concat: "spans (concat xss) = (\<Union>xs\<in>set xss. spans xs)"
  by (induction xss) auto

text \<open>The page numbers of a request.\<close>

definition req_pages :: "u32 \<Rightarrow> u32 \<Rightarrow> nat set" where
  "req_pages va sz = {unat va div 4096 ..< (unat va + unat sz + 4095) div 4096}"

lemma request_bounds:
  assumes "fits va sz"
  defines "lo \<equiv> va AND NOT (kPage - 1)" and "hi \<equiv> page_round (va + sz)"
  shows "unat lo = unat va div 4096 * 4096" "unat hi = (unat va + unat sz + 4095) div 4096 * 4096"
    "lo \<le> hi" "paged (lo, hi - lo)" "span lo (hi - lo) = req_pages va sz"
proof -
  have s: "unat (va + sz) = unat va + unat sz" using assms(1) by (subst unat_add_lt) (auto simp: fits_def)
  show l: "unat lo = unat va div 4096 * 4096" unfolding lo_def by (rule unat_floor)
  show u: "unat hi = (unat va + unat sz + 4095) div 4096 * 4096"
    unfolding hi_def using assms(1) by (subst unat_page_round) (auto simp: fits_def s)
  have "unat va div 4096 \<le> (unat va + unat sz + 4095) div 4096" by (intro div_le_mono) simp
  then have "unat lo \<le> unat hi" unfolding l u by simp
  then show le: "lo \<le> hi" by (simp add: word_le_nat_alt)
  have "unat (hi - lo) = unat hi - unat lo" using le by (rule unat_diff_le)
  moreover have "unat hi < 2 ^ 32" using unat_lt2p [of hi] by simp
  ultimately show "paged (lo, hi - lo)" "span lo (hi - lo) = req_pages va sz"
    using \<open>unat lo \<le> unat hi\<close> unfolding paged_def span_def req_pages_def by (auto simp: l u intro: dvd_diff_nat)
qed

lemma paged_end: "paged (va, sz) \<Longrightarrow> unat (va + sz) = unat va + unat sz"
  by (auto simp: paged_def intro!: unat_add_lt)

lemma span_pages: "paged (va, sz) \<Longrightarrow> p \<in> span va sz \<longleftrightarrow> unat va \<le> 4096 * p \<and> 4096 * p < unat va + unat sz"
  by (auto simp: paged_def span_def elim!: dvdE)

section \<open>The list of mapped ranges\<close>

lemma dom_override [simp]:
  "dom (\<lambda>p. if p \<in> S then Some x else m p) = dom m \<union> S" "dom (\<lambda>p. if p \<in> S then None else m p) = dom m - S"
  by (auto split: if_splits)

text \<open>The invariant: the entries are page ranges, and together they are the pages of the engine.\<close>

definition mirrors :: "guest_cpu \<Rightarrow> bool" where
  "mirrors c \<longleftrightarrow> list_all paged (gc_mapped c) \<and>
     (case gc_uc c of None \<Rightarrow> True | Some e \<Rightarrow> dom (ue_pages e) = spans (gc_mapped c))"

lemma covered_spans:
  assumes "covered lo hi rs" "list_all paged rs" "paged (lo, hi - lo)" "lo \<le> hi"
  shows "span lo (hi - lo) \<subseteq> spans rs"
proof -
  obtain va sz where r: "(va, sz) \<in> set rs" "va \<le> lo" "hi \<le> va + sz" using assms(1) by (auto simp: covered_def)
  then have p: "paged (va, sz)" using assms(2) by (auto simp: list_all_iff)
  have d: "unat (hi - lo) = unat hi - unat lo" "unat lo \<le> unat hi" using assms(4) by (simp_all add: unat_diff_le word_le_nat_alt)
  have "unat va \<le> unat lo" "unat hi \<le> unat va + unat sz" using r(2,3) paged_end [OF p] by (simp_all add: word_le_nat_alt)
  then have "span lo (hi - lo) \<subseteq> span va sz" using d by (auto simp: span_pages [OF p] span_pages [OF assms(3)])
  also have "\<dots> \<subseteq> spans rs" using r(1) by (auto simp: spans_def)
  finally show ?thesis .
qed

lemma map_range_mirrors:
  assumes "mirrors c" "fits va sz" "map_range h r va sz ro c = (st, c')"
  shows "mirrors c' \<and> (st = Okay \<longrightarrow> (\<exists>e. gc_uc c' = Some e \<and> dom (ue_pages e) = dom (ue_pages (the (gc_uc c))) \<union> req_pages va sz)) \<and>
    (st \<noteq> Okay \<longrightarrow> c' = c)"
proof (cases "gc_uc c")
  case None
  then show ?thesis using assms by (auto simp: map_range_def)
next
  case (Some e)
  let ?lo = "va AND NOT (kPage - 1)" and ?hi = "page_round (va + sz)"
  note b = request_bounds [OF assms(2)]
  have m: "list_all paged (gc_mapped c)" "dom (ue_pages e) = spans (gc_mapped c)" using assms(1) Some by (auto simp: mirrors_def)
  show ?thesis
  proof (cases "covered ?lo ?hi (gc_mapped c)")
    case True
    then have "req_pages va sz \<subseteq> spans (gc_mapped c)" using covered_spans [OF True m(1) b(4,3)] b(5) by simp
    then show ?thesis using assms(1,3) Some True m by (auto simp: map_range_def Let_def)
  next
    case False
    then show ?thesis using assms(1,3) Some m b(4,5)
      by (auto simp: map_range_def Let_def uc_mem_map_ptr_def mirrors_def split: if_splits)
  qed
qed

lemma trim_spans:
  assumes "paged r" "paged (lo, hi - lo)" "lo \<le> hi"
  shows "list_all paged (trim lo hi r)" "spans (trim lo hi r) = span (fst r) (snd r) - span lo (hi - lo)"
proof -
  obtain va sz where r: "r = (va, sz)" by (cases r)
  then have p: "paged (va, sz)" using assms(1) by simp
  note e = paged_end [OF p]
  have d: "unat (hi - lo) = unat hi - unat lo" "unat lo \<le> unat hi" using assms(3) by (simp_all add: unat_diff_le word_le_nat_alt)
  have al: "4096 dvd unat va" "4096 dvd unat sz" "4096 dvd unat lo" "4096 dvd unat hi" "unat va + unat sz < 2 ^ 32"
    using p assms(2) d dvd_diffD [of 4096 "unat hi" "unat lo"] by (auto simp: paged_def)
  have left: "unat (lo - va) = unat lo - unat va" "paged (va, lo - va)" if "va < lo"
    using that al d unat_diff_le [of va lo] less_trans [OF _ unat_lt2p [of lo]] unat_lt2p [of lo]
    by (auto simp: paged_def word_less_nat_alt word_le_nat_alt intro: dvd_diff_nat)
  have right: "unat (va + sz - hi) = unat va + unat sz - unat hi" "paged (hi, va + sz - hi)" if "hi < va + sz"
    using that al e unat_diff_le [of hi "va + sz"]
    by (auto simp: paged_def word_less_nat_alt word_le_nat_alt intro: dvd_diff_nat)
  show "list_all paged (trim lo hi r)" using p left right by (auto simp: r trim_def Let_def)
  have "q \<in> spans (trim lo hi (va, sz)) \<longleftrightarrow> q \<in> span va sz \<and> q \<notin> span lo (hi - lo)" for q
    using e d left right
    by (auto simp: trim_def Let_def span_pages p assms(2) word_less_nat_alt word_le_nat_alt not_le not_less split: if_splits)
  then show "spans (trim lo hi r) = span (fst r) (snd r) - span lo (hi - lo)" by (auto simp: r)
qed

lemma unmap_range_mirrors:
  assumes "mirrors c" "fits va sz" "unmap_range h va sz c = (b, c')"
  shows "mirrors c' \<and> (b \<longrightarrow> (\<exists>e. gc_uc c' = Some e \<and> dom (ue_pages e) = dom (ue_pages (the (gc_uc c))) - req_pages va sz)) \<and>
    (\<not> b \<longrightarrow> c' = c)"
proof (cases "gc_uc c")
  case None
  then show ?thesis using assms by (auto simp: unmap_range_def)
next
  case (Some e)
  let ?lo = "va AND NOT (kPage - 1)" and ?hi = "page_round (va + sz)"
  note q = request_bounds [OF assms(2)]
  have m: "list_all paged (gc_mapped c)" "dom (ue_pages e) = spans (gc_mapped c)" using assms(1) Some by (auto simp: mirrors_def)
  let ?rs = "concat (map (trim ?lo ?hi) (gc_mapped c))"
  have t: "list_all paged (trim ?lo ?hi r) \<and> spans (trim ?lo ?hi r) = span (fst r) (snd r) - req_pages va sz"
    if "r \<in> set (gc_mapped c)" for r
    using trim_spans [OF _ q(4,3), of r] m(1) that q(5) by (auto simp: list_all_iff)
  have "list_all paged ?rs" using t by (auto simp: list_all_iff)
  moreover have "spans ?rs = spans (gc_mapped c) - req_pages va sz"
    using t by (auto simp: spans_concat spans_def split: prod.splits)
  ultimately show ?thesis using assms(1,3) Some m q(5)
    by (auto simp: unmap_range_def Let_def uc_mem_unmap_def mirrors_def split: if_splits)
qed

section \<open>All processors\<close>

lemma upd_cpu_simps [simp]:
  "rt_krnl (upd_cpu i f rt) = rt_krnl rt" "rt_cpus (upd_cpu i f rt) = rt_cpus rt" "rt_top (upd_cpu i f rt) = rt_top rt"
  "rt_heap (upd_cpu i f rt) j = (if j = i then f (rt_heap rt i) else rt_heap rt j)"
  by (simp_all add: upd_cpu_def)

lemma fold_upd_cpu:
  "distinct is \<Longrightarrow> rt_heap (fold (\<lambda>i. upd_cpu i f) is rt) j = (if j \<in> set is then f (rt_heap rt j) else rt_heap rt j)"
  "rt_krnl (fold (\<lambda>i. upd_cpu i f) is rt) = rt_krnl rt" "rt_cpus (fold (\<lambda>i. upd_cpu i f) is rt) = rt_cpus rt"
  "rt_top (fold (\<lambda>i. upd_cpu i f) is rt) = rt_top rt"
  by (induction "is" arbitrary: rt) auto

lemma fold_upd_cpu_keeps:
  "(\<And>c. P c \<Longrightarrow> P (f c)) \<Longrightarrow> \<forall>j. P (rt_heap rt j) \<Longrightarrow> P (rt_heap (fold (\<lambda>i. upd_cpu i f) is rt) j)"
  by (induction "is" arbitrary: rt) auto

lemma mirror_frame [simp]: "rt_krnl (mirror h x rt) = rt_krnl rt" "rt_cpus (mirror h x rt) = rt_cpus rt" "rt_top (mirror h x rt) = rt_top rt"
  by (auto simp: mirror_def map_on_all_def unmap_on_all_def fold_upd_cpu split: prod.splits)

lemma mirror_mirrors:
  assumes "\<forall>j. mirrors (rt_heap rt j)" "fits va sz"
  shows "mirrors (rt_heap (mirror h (freed, va, sz, ro) rt) j)"
proof (cases freed)
  case True
  have "mirrors c \<Longrightarrow> mirrors (snd (unmap_range h va sz c))" for c
    using unmap_range_mirrors [OF _ assms(2)] by (metis prod.collapse)
  then show ?thesis using True assms(1) by (simp add: mirror_def unmap_on_all_def fold_upd_cpu_keeps [where P = mirrors])
next
  case False
  have "mirrors c \<Longrightarrow> mirrors (snd (map_range h (rt_ram rt) va sz ro c))" for c
    using map_range_mirrors [OF _ assms(2)] by (metis prod.collapse)
  then show ?thesis using False assms(1) by (simp add: mirror_def map_on_all_def fold_upd_cpu_keeps [where P = mirrors])
qed

section \<open>Processors see the committed pages\<close>

text \<open>What the documentation of the engine promises: it accepts to map a page range that meets no
  mapped page, and to unmap a page range that is mapped.\<close>

definition honest :: "uc_host \<Rightarrow> bool" where
  "honest h \<longleftrightarrow> (\<forall>e va len. paged (va, len) \<and> len \<noteq> 0 \<longrightarrow>
     (span va len \<inter> dom (ue_pages e) = {} \<longrightarrow> uh_map h e va len) \<and>
     (span va len \<subseteq> dom (ue_pages e) \<longrightarrow> uh_unmap h e va len))"

definition committed_pages :: "xbe_ram \<Rightarrow> nat set" where
  "committed_pages r = {p. page_access r p \<noteq> NoAccess}"

definition service_pages :: "nat set" where
  "service_pages = {0xF00F0, 0xF00F1}"

text \<open>Every registered processor has an engine whose pages are the committed pages of the window and
  the two service pages, which lie above it.\<close>

definition coherent :: "runtime \<Rightarrow> bool" where
  "coherent rt \<longleftrightarrow> distinct (rt_cpus rt) \<and> (\<forall>i\<in>set (rt_cpus rt). mirrors (rt_heap rt i) \<and>
     (\<exists>e. gc_uc (rt_heap rt i) = Some e \<and> dom (ue_pages e) = committed_pages (rt_ram rt) \<union> service_pages))"

lemma ceil_page: "0 < n \<Longrightarrow> (n + 4095) div 4096 = Suc ((n - 1) div (4096 :: nat))"
  by (cases n) simp_all

lemma req_pages_list:
  assumes "ram_wf r" "range_ok r va sz" "xr_page_size r = 4096"
  shows "set (page_list r va sz) = req_pages va sz"
proof -
  have "0 < unat sz" using assms(2) by (auto simp: range_ok_def unat_gt_0)
  then have "(unat va + unat sz + 4095) div 4096 = Suc ((unat va + unat sz - 1) div 4096)" by (intro ceil_page) simp
  then show ?thesis using range_ok_end(1) [OF assms(1,2)] assms(3) by (auto simp: page_list_def req_pages_def)
qed

lemma req_pages_head: "sz \<noteq> 0 \<Longrightarrow> unat va div 4096 \<in> req_pages va sz"
proof -
  assume "sz \<noteq> 0"
  then have "0 < unat sz" by (simp add: unat_gt_0)
  then have "unat va div 4096 < (unat va + unat sz + 4095) div 4096"
    using ceil_page [of "unat va + unat sz"] div_le_mono [of "unat va" "unat va + unat sz - 1" 4096] by simp
  then show ?thesis by (simp add: req_pages_def)
qed

lemma request_len:
  assumes "fits va sz" "sz \<noteq> 0"
  shows "page_round (va + sz) - (va AND NOT (kPage - 1)) \<noteq> 0"
  using req_pages_head [OF assms(2), of va] request_bounds(5) [OF assms(1)] by (auto simp: span_def)

lemma map_range_accepts:
  assumes "honest h" "mirrors c" "fits va sz" "sz \<noteq> 0" "gc_uc c = Some e" "req_pages va sz \<inter> dom (ue_pages e) = {}"
    "host_ptr r (va AND NOT (kPage - 1)) \<noteq> None"
  shows "\<exists>c' e'. map_range h r va sz ro c = (Okay, c') \<and> mirrors c' \<and> gc_uc c' = Some e' \<and>
    ue_pages e' = (\<lambda>p. if p \<in> req_pages va sz then Some (map_perms ro) else ue_pages e p) \<and>
    gc_mapped c' = gc_mapped c @ [(va AND NOT (kPage - 1), page_round (va + sz) - (va AND NOT (kPage - 1)))]"
proof -
  let ?lo = "va AND NOT (kPage - 1)" and ?hi = "page_round (va + sz)"
  note b = request_bounds [OF assms(3)] and m = assms(2) [unfolded mirrors_def assms(5) option.case]
  have "\<not> covered ?lo ?hi (gc_mapped c)"
    using covered_spans [OF _ conjunct1 [OF m] b(4,3)] b(5) m assms(6) req_pages_head [OF assms(4), of va] by auto
  moreover have "uh_map h e ?lo (?hi - ?lo)"
    using assms(1,6) b(4,5) request_len [OF assms(3,4)] by (auto simp: honest_def)
  ultimately show ?thesis using assms(5,7) map_range_mirrors [OF assms(2,3), of h r ro Okay]
    by (auto simp: map_range_def Let_def uc_mem_map_ptr_def b(5))
qed

lemma unmap_range_accepts:
  assumes "honest h" "mirrors c" "fits va sz" "sz \<noteq> 0" "gc_uc c = Some e" "req_pages va sz \<subseteq> dom (ue_pages e)"
  shows "\<exists>c' e'. unmap_range h va sz c = (True, c') \<and> mirrors c' \<and> gc_uc c' = Some e' \<and>
    ue_pages e' = (\<lambda>p. if p \<in> req_pages va sz then None else ue_pages e p)"
proof -
  let ?lo = "va AND NOT (kPage - 1)" and ?hi = "page_round (va + sz)"
  note b = request_bounds [OF assms(3)]
  have "uh_unmap h e ?lo (?hi - ?lo)"
    using assms(1,6) b(4,5) request_len [OF assms(3,4)] by (auto simp: honest_def)
  then show ?thesis using assms(5) unmap_range_mirrors [OF assms(2,3), of h True]
    by (auto simp: unmap_range_def Let_def uc_mem_unmap_def b(5))
qed

lemma absorb_none: "kr_mem_log k = kr_mem_log (rt_krnl rt) \<Longrightarrow> absorb h k rt = rt\<lparr>rt_krnl := k\<rparr>"
  by (simp add: absorb_def)

lemma absorb_one: "kr_mem_log k = kr_mem_log (rt_krnl rt) @ [x] \<Longrightarrow> absorb h k rt = mirror h x (rt\<lparr>rt_krnl := k\<rparr>)"
  by (simp add: absorb_def)

lemma coherent_commit:
  assumes "honest h" "coherent rt" "kr_mem_log k = kr_mem_log (rt_krnl rt) @ [(False, va, sz, ro)]" "fits va sz" "sz \<noteq> 0"
    "committed_pages (kr_ram k) = committed_pages (rt_ram rt) \<union> req_pages va sz"
    "req_pages va sz \<inter> (committed_pages (rt_ram rt) \<union> service_pages) = {}" "host_ptr (kr_ram k) (va AND NOT (kPage - 1)) \<noteq> None"
  shows "coherent (absorb h k rt)"
    "i \<in> set (rt_cpus rt) \<Longrightarrow> p \<in> req_pages va sz \<Longrightarrow> ue_pages (the (gc_uc (rt_heap (absorb h k rt) i))) p = Some (map_perms ro)"
proof -
  let ?f = "\<lambda>c. snd (map_range h (kr_ram k) va sz ro c)"
  have a: "absorb h k rt = fold (\<lambda>i. upd_cpu i ?f) (rt_cpus rt) (rt\<lparr>rt_krnl := k\<rparr>)"
    using absorb_one [OF assms(3)] by (simp add: mirror_def map_on_all_def)
  have d: "distinct (rt_cpus rt)" using assms(2) by (simp add: coherent_def)
  have hp: "rt_heap (absorb h k rt) i = ?f (rt_heap rt i)" if "i \<in> set (rt_cpus rt)" for i
    using fold_upd_cpu(1) [OF d, of ?f "rt\<lparr>rt_krnl := k\<rparr>" i] that by (simp add: a)
  have one: "\<exists>e'. mirrors (?f (rt_heap rt i)) \<and> gc_uc (?f (rt_heap rt i)) = Some e' \<and>
      dom (ue_pages e') = committed_pages (kr_ram k) \<union> service_pages \<and> (\<forall>p\<in>req_pages va sz. ue_pages e' p = Some (map_perms ro))"
    if i: "i \<in> set (rt_cpus rt)" for i
  proof -
    obtain e where e: "mirrors (rt_heap rt i)" "gc_uc (rt_heap rt i) = Some e"
      "dom (ue_pages e) = committed_pages (rt_ram rt) \<union> service_pages" using assms(2) i by (auto simp: coherent_def)
    from map_range_accepts [OF assms(1) e(1) assms(4,5) e(2), of "kr_ram k" ro] e(3) assms(7,8) show ?thesis
      by (fastforce simp: assms(6))
  qed
  show "coherent (absorb h k rt)" using one d hp by (fastforce simp: coherent_def a fold_upd_cpu(2,3))
  show "ue_pages (the (gc_uc (rt_heap (absorb h k rt) i))) p = Some (map_perms ro)" if "i \<in> set (rt_cpus rt)" "p \<in> req_pages va sz"
    using one [OF that(1)] hp [OF that(1)] that(2) by auto
qed

lemma coherent_uncommit:
  assumes "honest h" "coherent rt" "kr_mem_log k = kr_mem_log (rt_krnl rt) @ [(True, va, sz, ro)]" "fits va sz" "sz \<noteq> 0"
    "committed_pages (kr_ram k) = committed_pages (rt_ram rt) - req_pages va sz"
    "req_pages va sz \<subseteq> committed_pages (rt_ram rt)" "req_pages va sz \<inter> service_pages = {}"
  shows "coherent (absorb h k rt)"
proof -
  let ?f = "\<lambda>c. snd (unmap_range h va sz c)"
  have a: "absorb h k rt = fold (\<lambda>i. upd_cpu i ?f) (rt_cpus rt) (rt\<lparr>rt_krnl := k\<rparr>)"
    using absorb_one [OF assms(3)] by (simp add: mirror_def unmap_on_all_def)
  have d: "distinct (rt_cpus rt)" using assms(2) by (simp add: coherent_def)
  have hp: "rt_heap (absorb h k rt) i = ?f (rt_heap rt i)" if "i \<in> set (rt_cpus rt)" for i
    using fold_upd_cpu(1) [OF d, of ?f "rt\<lparr>rt_krnl := k\<rparr>" i] that by (simp add: a)
  have "\<exists>e'. mirrors (?f (rt_heap rt i)) \<and> gc_uc (?f (rt_heap rt i)) = Some e' \<and>
      dom (ue_pages e') = committed_pages (kr_ram k) \<union> service_pages"
    if i: "i \<in> set (rt_cpus rt)" for i
  proof -
    obtain e where e: "mirrors (rt_heap rt i)" "gc_uc (rt_heap rt i) = Some e"
      "dom (ue_pages e) = committed_pages (rt_ram rt) \<union> service_pages" using assms(2) i by (auto simp: coherent_def)
    from unmap_range_accepts [OF assms(1) e(1) assms(4,5) e(2)] e(3) assms(7,8) show ?thesis
      by (fastforce simp: assms(6))
  qed
  then show ?thesis using d hp by (fastforce simp: coherent_def a fold_upd_cpu(2,3))
qed

section \<open>Attaching\<close>

text \<open>The ranges that the scan of \<open>attach\<close> maps, as a list.\<close>

fun class_ranges :: "nat \<Rightarrow> xbe_ram \<Rightarrow> u32 \<Rightarrow> u32 \<Rightarrow> (u32 \<times> u32 \<times> bool) list" where
  "class_ranges 0 r ram_size addr = []"
| "class_ranges (Suc n) r ram_size addr =
     (if \<not> addr < ram_size then []
      else if \<not> is_committed r addr 1 then class_ranges n r ram_size (addr + kPage)
      else let ro = (\<not> writable r addr 1); e = class_end (unat ram_size div 4096 + 1) r ram_size ro (addr + kPage) in
        (addr, e - addr, ro) # class_ranges n r ram_size e)"

fun map_all :: "uc_host \<Rightarrow> xbe_ram \<Rightarrow> (u32 \<times> u32 \<times> bool) list \<Rightarrow> guest_cpu \<Rightarrow> status \<times> guest_cpu" where
  "map_all h r [] c = (Okay, c)"
| "map_all h r ((va, sz, ro) # rs) c =
     (case map_range h r va sz ro c of (st, c') \<Rightarrow> if st \<noteq> Okay then (st, c'\<lparr>gc_uc := None\<rparr>) else map_all h r rs c')"

lemma attach_ranges_eq: "attach_ranges n h r ram_size addr c = map_all h r (class_ranges n r ram_size addr) c"
  by (induction n arbitrary: addr c) (simp_all add: Let_def split: prod.splits)

text \<open>The reference: a committed page starts a group with its own access, which the following
  committed pages of the \<^emph>\<open>other\<close> access join.\<close>

definition joins :: "access \<Rightarrow> access \<Rightarrow> bool" where
  "joins a b \<longleftrightarrow> b \<noteq> NoAccess \<and> b \<noteq> a"

function grouped :: "access list \<Rightarrow> access list" where
  "grouped [] = []"
| "grouped (NoAccess # as) = NoAccess # grouped as"
| "a \<noteq> NoAccess \<Longrightarrow> grouped (a # as) = replicate (Suc (length (takeWhile (joins a) as))) a @ grouped (dropWhile (joins a) as)"
  by (auto, metis neq_Nil_conv)
termination by (relation "measure length") (auto simp: less_Suc_eq_le length_dropWhile_le)

lemma length_grouped [simp]: "length (grouped as) = length as"
proof (induction as rule: grouped.induct)
  case (3 a as)
  have "length (takeWhile (joins a) as) + length (dropWhile (joins a) as) = length as"
    by (metis length_append takeWhile_dropWhile_id)
  then show ?case using 3 by simp
qed simp_all

text \<open>Grouping keeps the accesses exactly when no two neighbours differ.\<close>

fun uniform :: "access list \<Rightarrow> bool" where
  "uniform (a # b # as) \<longleftrightarrow> \<not> (a \<noteq> NoAccess \<and> joins a b) \<and> uniform (b # as)"
| "uniform as \<longleftrightarrow> True"

lemma grouped_uniform: "grouped as = as \<longleftrightarrow> uniform as"
proof (induction as rule: grouped.induct)
  case (2 as)
  then show ?case by (cases as) (auto simp: joins_def)
next
  case (3 a as)
  show ?case
  proof (cases as)
    case (Cons b bs)
    show ?thesis
    proof (cases "joins a b")
      case True
      then show ?thesis using 3(1) Cons by (auto simp: joins_def)
    next
      case False
      then show ?thesis using 3 Cons by simp
    qed
  qed (use 3 in simp)
qed simp

lemma uniform_nth: "uniform as \<longleftrightarrow> (\<forall>p. Suc p < length as \<longrightarrow> \<not> (as ! p \<noteq> NoAccess \<and> joins (as ! p) (as ! Suc p)))"
proof (induction as rule: uniform.induct)
  case (1 a b as)
  then show ?case by (auto simp: nth_Cons split: nat.splits) (metis Suc_less_eq not0_implies_Suc nth_Cons_0 nth_Cons_Suc)+
qed auto

lemma grouped_NoAccess: "i < length as \<Longrightarrow> grouped as ! i = NoAccess \<longleftrightarrow> as ! i = NoAccess"
proof (induction as arbitrary: i rule: grouped.induct)
  case (2 as)
  then show ?case by (cases i) auto
next
  case (3 a as)
  let ?k = "length (takeWhile (joins a) as)"
  have split: "(a # as) ! i = (dropWhile (joins a) as) ! (i - Suc ?k)" if "Suc ?k \<le> i"
    using that by (simp add: nth_Cons' dropWhile_nth 3 dropWhile_eq_drop) (use 3(3) in \<open>auto simp: le_Suc_eq\<close>)
  have inside: "(a # as) ! i \<noteq> NoAccess" if "i < Suc ?k"
    using that 3(1) set_takeWhileD [of _ "joins a" as] nth_mem [of "i - 1" "takeWhile (joins a) as"]
    by (cases i) (auto simp: takeWhile_nth joins_def)
  show ?case
  proof (cases "i < Suc ?k")
    case True
    then show ?thesis using 3(1) inside by (simp add: nth_append del: replicate_Suc)
  next
    case False
    have "?k + length (dropWhile (joins a) as) = length as" by (metis length_append takeWhile_dropWhile_id)
    then have "i - Suc ?k < length (dropWhile (joins a) as)" using 3(3) False by simp
    then show ?thesis using 3(1,2) False split by (simp add: nth_append del: replicate_Suc)
  qed
qed simp

text \<open>The window as \<open>attach\<close> finds it: \<open>N\<close> whole pages of 4096 bytes in the lower half of the address space.\<close>

definition window :: "xbe_ram \<Rightarrow> nat \<Rightarrow> bool" where
  "window r N \<longleftrightarrow> ram_wf r \<and> xr_base r \<and> xr_page_size r = 4096 \<and> xr_size r = 4096 * N \<and> N \<le> 2 ^ 19"

definition pg :: "nat \<Rightarrow> u32" where
  "pg q = of_nat (4096 * q)"

definition accesses :: "xbe_ram \<Rightarrow> nat \<Rightarrow> nat \<Rightarrow> access list" where
  "accesses r N q = map (page_access r) [q..<N]"

lemma unat_pg: "q \<le> 2 ^ 19 \<Longrightarrow> unat (pg q) = 4096 * q"
  unfolding pg_def by (rule unat_of_nat_lt) simp

lemma pg_step: "pg q + kPage = pg (Suc q)" "pg 0 = 0"
  by (simp_all add: pg_def kPage_def)

lemma pg_less: "q \<le> 2 ^ 19 \<Longrightarrow> N \<le> 2 ^ 19 \<Longrightarrow> pg q < pg N \<longleftrightarrow> q < N"
  by (simp add: word_less_nat_alt unat_pg)

lemma pg_diff: "q \<le> m \<Longrightarrow> pg m - pg q = pg (m - q)"
  by (simp add: pg_def of_nat_diff diff_mult_distrib2)

lemma pg_floor: "q \<le> 2 ^ 19 \<Longrightarrow> pg q AND NOT (kPage - 1) = pg q"
proof -
  assume "q \<le> 2 ^ 19"
  then have "unat (pg q AND NOT (kPage - 1)) = unat (pg q)" by (simp add: unat_floor unat_pg)
  then show ?thesis by (rule unsigned_word_eqI)
qed

lemma page_state:
  assumes "window r N" "q < N"
  shows "is_committed r (pg q) 1 \<longleftrightarrow> page_access r q \<noteq> NoAccess" "writable r (pg q) 1 \<longleftrightarrow> page_access r q = ReadWrite"
    "host_ptr r (pg q) \<noteq> None \<longleftrightarrow> page_access r q \<noteq> NoAccess"
proof -
  have w: "ram_wf r" "xr_base r" "xr_page_size r = 4096" "xr_size r = 4096 * N" "q \<le> 2 ^ 19" using assms by (auto simp: window_def)
  have "range_ok r (pg q) 1" using w(4) assms(2) by (auto simp: range_ok_def unat_pg [OF w(5)])
  moreover have "page_list r (pg q) 1 = [q]" by (simp add: page_list_def w(3) unat_pg [OF w(5)])
  ultimately show "is_committed r (pg q) 1 \<longleftrightarrow> page_access r q \<noteq> NoAccess" "writable r (pg q) 1 \<longleftrightarrow> page_access r q = ReadWrite"
    by (simp_all add: is_committed_access [OF w(1)] writable_access [OF w(1)] w(2))
  then show "host_ptr r (pg q) \<noteq> None \<longleftrightarrow> page_access r q \<noteq> NoAccess" by (simp add: host_ptr_def)
qed

lemma accesses_step:
  "q < N \<Longrightarrow> accesses r N q = page_access r q # accesses r N (Suc q)" "N \<le> q \<Longrightarrow> accesses r N q = []"
  by (simp_all add: accesses_def upt_conv_Cons)

lemma class_end_pages:
  assumes "window r N" "a \<noteq> NoAccess" "q \<le> N" "N - q < n"
  shows "class_end n r (pg N) (a = ReadOnly) (pg q) = pg (q + length (takeWhile (joins a) (accesses r N q)))"
  using assms(3,4)
proof (induction n arbitrary: q)
  case (Suc n)
  have N: "N \<le> 2 ^ 19" "q \<le> 2 ^ 19" using assms(1) Suc.prems by (auto simp: window_def)
  show ?case
  proof (cases "q < N")
    case True
    have "is_committed r (pg q) 1 \<and> writable r (pg q) 1 = (a = ReadOnly) \<longleftrightarrow> joins a (page_access r q)"
      using page_state [OF assms(1) True] assms(2) by (cases a; cases "page_access r q") (auto simp: joins_def)
    then show ?thesis using Suc.IH [of "Suc q"] Suc.prems True pg_less [OF N(2,1)]
      by (auto simp: accesses_step(1) pg_step)
  qed (use Suc.prems pg_less [OF N(2,1)] in \<open>simp add: accesses_step(2)\<close>)
qed simp

lemma accesses_drop:
  "dropWhile (joins a) (accesses r N q) = accesses r N (q + length (takeWhile (joins a) (accesses r N q)))"
  by (simp add: accesses_def dropWhile_eq_drop drop_map drop_upt)

lemma length_joins: "q \<le> N \<Longrightarrow> q + length (takeWhile (joins a) (accesses r N q)) \<le> N"
  using length_takeWhile_le [of "joins a" "accesses r N q"] by (simp add: accesses_def)

lemma req_pages_pg:
  assumes "q < m" "m \<le> 2 ^ 19"
  shows "fits (pg q) (pg (m - q))" "pg (m - q) \<noteq> 0" "req_pages (pg q) (pg (m - q)) = {q..<m}"
    "page_round (pg q + pg (m - q)) = pg m"
proof -
  have u: "unat (pg q) = 4096 * q" "unat (pg (m - q)) = 4096 * (m - q)" using assms by (auto intro: unat_pg)
  have s: "4096 * q + 4096 * (m - q) = 4096 * m" using assms(1) by simp
  show f: "fits (pg q) (pg (m - q))" using assms s by (simp add: fits_def u)
  have "unat (pg (m - q)) \<noteq> 0" using assms(1) by (simp add: u)
  then show "pg (m - q) \<noteq> 0" by auto
  have d: "(4096 * m + 4095) div 4096 = m" by simp
  show "req_pages (pg q) (pg (m - q)) = {q..<m}" unfolding req_pages_def u s d by simp
  have "unat (page_round (pg q + pg (m - q))) = unat (pg m)"
    using request_bounds(2) [OF f] unfolding u s d unat_pg [OF assms(2)] by simp
  then show "page_round (pg q + pg (m - q)) = pg m" by (rule unsigned_word_eqI)
qed

lemma class_ranges_skip:
  assumes "window r N" "q < N" "page_access r q = NoAccess"
  shows "class_ranges (Suc n) r (pg N) (pg q) = class_ranges n r (pg N) (pg (Suc q))"
  using page_state(1) [OF assms(1,2)] assms pg_less [of q N] by (simp add: pg_step window_def)

lemma class_ranges_done: "window r N \<Longrightarrow> class_ranges n r (pg N) (pg N) = []"
  by (cases n) simp_all

text \<open>One range: the group that a committed page starts.\<close>

lemma class_ranges_step:
  assumes "window r N" "q < N" "page_access r q \<noteq> NoAccess"
  defines "m \<equiv> Suc q + length (takeWhile (joins (page_access r q)) (accesses r N (Suc q)))"
  shows "q < m" "m \<le> N"
    "class_ranges (Suc n) r (pg N) (pg q) = (pg q, pg (m - q), page_access r q = ReadOnly) # class_ranges n r (pg N) (pg m)"
proof -
  let ?a = "page_access r q"
  have N: "N \<le> 2 ^ 19" "q \<le> 2 ^ 19" using assms(1,2) by (auto simp: window_def)
  show m: "q < m" "m \<le> N" using length_joins [of "Suc q" N ?a r] assms(2) by (auto simp: m_def)
  have "N - Suc q < unat (pg N) div 4096 + 1" by (simp add: unat_pg [OF N(1)])
  from class_end_pages [OF assms(1,3) _ this] assms(2)
  have ce: "class_end (unat (pg N) div 4096 + 1) r (pg N) (?a = ReadOnly) (pg (Suc q)) = pg m" by (simp add: m_def)
  have ro: "(\<not> writable r (pg q) 1) = (?a = ReadOnly)" using page_state(2) [OF assms(1,2)] assms(3) by (cases ?a) auto
  show "class_ranges (Suc n) r (pg N) (pg q) = (pg q, pg (m - q), ?a = ReadOnly) # class_ranges n r (pg N) (pg m)"
    using assms(2,3) page_state(1) [OF assms(1,2)] ro ce pg_less [OF N(2,1)] m by (simp add: pg_step pg_diff Let_def del: class_end.simps)
qed

lemma class_ranges_form:
  "window r N \<Longrightarrow> q \<le> N \<Longrightarrow> (va, sz, ro) \<in> set (class_ranges n r (pg N) (pg q)) \<Longrightarrow>
     \<exists>a b. a < b \<and> b \<le> N \<and> va = pg a \<and> sz = pg (b - a)"
proof (induction n arbitrary: q)
  case (Suc n)
  show ?case
  proof (cases "q < N")
    case True
    show ?thesis
    proof (cases "page_access r q = NoAccess")
      case na: True
      then show ?thesis using class_ranges_skip [OF Suc.prems(1) True na, of n] Suc.IH [of "Suc q"] Suc.prems True by simp
    next
      case False
      define m where "m = Suc q + length (takeWhile (joins (page_access r q)) (accesses r N (Suc q)))"
      note st = class_ranges_step [OF Suc.prems(1) True False, folded m_def]
      from Suc.prems(3) consider "va = pg q \<and> sz = pg (m - q)" | "(va, sz, ro) \<in> set (class_ranges n r (pg N) (pg m))"
        unfolding st(3) by auto
      then show ?thesis using st(1,2) Suc.IH [OF Suc.prems(1) st(2)] by cases auto
    qed
  qed (use Suc.prems class_ranges_done [OF Suc.prems(1), of "Suc n"] in simp)
qed simp

lemma map_classes:
  assumes "honest h" "window r N"
  shows "N - q < n \<Longrightarrow> q \<le> N \<Longrightarrow> mirrors c \<Longrightarrow> gc_uc c = Some e \<Longrightarrow> dom (ue_pages e) \<inter> {q..<N} = {} \<Longrightarrow>
    \<exists>c' e'. map_all h r (class_ranges n r (pg N) (pg q)) c = (Okay, c') \<and> mirrors c' \<and> gc_uc c' = Some e' \<and>
      ue_pages e' = (\<lambda>p. if q \<le> p \<and> p < N \<and> page_access r p \<noteq> NoAccess
        then Some (map_perms (grouped (accesses r N q) ! (p - q) = ReadOnly)) else ue_pages e p) \<and>
      gc_mapped c' = gc_mapped c @ map (\<lambda>(va, sz, ro). (va, sz)) (class_ranges n r (pg N) (pg q))"
proof (induction n arbitrary: q c e)
  case (Suc n)
  have N: "N \<le> 2 ^ 19" "q \<le> 2 ^ 19" using assms(2) Suc.prems(2) by (auto simp: window_def)
  show ?case
  proof (cases "q < N")
    case False
    then show ?thesis using Suc.prems(3,4) pg_less [OF N(2,1)] by (intro exI [of _ c] exI [of _ e]) (auto simp: fun_eq_iff)
  next
    case True
    let ?a = "page_access r q"
    note st = page_state [OF assms(2) True] and ac = accesses_step(1) [OF True, of r]
    show ?thesis
    proof (cases "?a = NoAccess")
      case na: True
      note cr = class_ranges_skip [OF assms(2) True na, of n]
      have shift: "(\<lambda>p. if Suc q \<le> p \<and> p < N \<and> page_access r p \<noteq> NoAccess
          then Some (map_perms (grouped (accesses r N (Suc q)) ! (p - Suc q) = ReadOnly)) else ue_pages e p) =
        (\<lambda>p. if q \<le> p \<and> p < N \<and> page_access r p \<noteq> NoAccess
          then Some (map_perms (grouped (accesses r N q) ! (p - q) = ReadOnly)) else ue_pages e p)" (is "?L = ?R")
      proof (rule ext)
        fix p
        show "?L p = ?R p" using na by (cases "p = q") (auto simp: ac nth_Cons' le_Suc_eq Suc_diff_Suc less_eq_Suc_le)
      qed
      show ?thesis unfolding cr using Suc.IH [of "Suc q" c e] Suc.prems True shift by fastforce
    next
      case co: False
      define m where "m = Suc q + length (takeWhile (joins ?a) (accesses r N (Suc q)))"
      note m = class_ranges_step(1,2) [OF assms(2) True co, folded m_def]
        and cr = class_ranges_step(3) [OF assms(2) True co, folded m_def, of n]
      note rq = req_pages_pg [OF m(1) order_trans [OF m(2) N(1)]]
      have dj: "req_pages (pg q) (pg (m - q)) \<inter> dom (ue_pages e) = {}" using Suc.prems(5) m by (auto simp: rq(3))
      have hp: "host_ptr r (pg q AND NOT (kPage - 1)) \<noteq> None" using st(3) co pg_floor [OF N(2)] by simp
      from map_range_accepts [OF assms(1) Suc.prems(3) rq(1,2) Suc.prems(4) dj hp, of "?a = ReadOnly"]
      obtain c1 e1 where c1: "map_range h r (pg q) (pg (m - q)) (?a = ReadOnly) c = (Okay, c1)" "mirrors c1" "gc_uc c1 = Some e1"
        "ue_pages e1 = (\<lambda>p. if p \<in> {q..<m} then Some (map_perms (?a = ReadOnly)) else ue_pages e p)"
        "gc_mapped c1 = gc_mapped c @ [(pg q, pg (m - q))]"
        by (auto simp: pg_floor [OF N(2)] rq(3,4) pg_diff less_imp_le [OF m(1)])
      have dj1: "dom (ue_pages e1) \<inter> {m..<N} = {}" using Suc.prems(5) m by (fastforce simp: c1(4) disjoint_iff)
      have "N - m < n" using Suc.prems(1) m by linarith
      from Suc.IH [OF this m(2) c1(2,3) dj1] obtain c2 e2 where
        c2: "map_all h r (class_ranges n r (pg N) (pg m)) c1 = (Okay, c2)" "mirrors c2" "gc_uc c2 = Some e2"
        "ue_pages e2 = (\<lambda>p. if m \<le> p \<and> p < N \<and> page_access r p \<noteq> NoAccess
          then Some (map_perms (grouped (accesses r N m) ! (p - m) = ReadOnly)) else ue_pages e1 p)"
        "gc_mapped c2 = gc_mapped c1 @ map (\<lambda>(va, sz, ro). (va, sz)) (class_ranges n r (pg N) (pg m))" by blast
      have gr: "grouped (accesses r N q) = replicate (m - q) ?a @ grouped (accesses r N m)"
        using co by (simp add: ac accesses_drop m_def)
      have "page_access r p \<noteq> NoAccess" if p: "p \<in> {q..<m}" for p
      proof -
        have "grouped (accesses r N q) ! (p - q) \<noteq> NoAccess" using p m co by (auto simp: gr nth_append)
        moreover have "p - q < length (accesses r N q)" "accesses r N q ! (p - q) = page_access r p" using p m by (auto simp: accesses_def)
        ultimately show ?thesis using grouped_NoAccess by metis
      qed
      then have "ue_pages e2 = (\<lambda>p. if q \<le> p \<and> p < N \<and> page_access r p \<noteq> NoAccess
          then Some (map_perms (grouped (accesses r N q) ! (p - q) = ReadOnly)) else ue_pages e p)"
        using m by (auto simp: c2(4) c1(4) gr nth_append fun_eq_iff)
      then show ?thesis unfolding cr using c1 c2 by (intro exI [of _ c2] exI [of _ e2]) simp
    qed
  qed
qed simp

text \<open>The rest of \<open>attach\<close>: the service pages, the descriptor table and the selectors.\<close>

lemma load_selectors_uc:
  "gc_mapped (load_selectors (build_gdt c)) = gc_mapped c"
  "gc_uc (load_selectors (build_gdt c)) = map_option (\<lambda>e. e\<lparr>ue_gdtr := (kGdtVa, 31),
     ue_regs := (ue_regs e)(CS := kSelCs, DS := kSelDs, ES := kSelDs, SS := kSelDs, FS := kSelFs)\<rparr>) (gc_uc c)"
  by (simp_all add: load_selectors_def build_gdt_def uc_reg_write_def option.map_comp comp_def)

lemma service_spans: "span kHleMarker kPage = {0xF00F0}" "span kGdtVa kPage = {0xF00F1}" "paged (kHleMarker, kPage)" "paged (kGdtVa, kPage)"
  by (auto simp: span_def paged_def kHleMarker_def kPage_def kGdtVa_def)

lemma map_service_pages_accepts:
  assumes "honest h" "gc_uc c = Some e" "dom (ue_pages e) \<inter> service_pages = {}"
  shows "\<exists>c' e'. map_service_pages h c = (True, c') \<and> (mirrors c \<longrightarrow> mirrors c') \<and> gc_uc c' = Some e' \<and>
    gc_mapped c' = gc_mapped c @ [(kHleMarker, kPage), (kGdtVa, kPage)] \<and>
    ue_pages e' = (ue_pages e)(0xF00F0 \<mapsto> UC_PROT_READ OR UC_PROT_EXEC, 0xF00F1 \<mapsto> UC_PROT_READ)"
proof -
  have nz: "kPage \<noteq> 0" by (simp add: kPage_def)
  let ?e1 = "e\<lparr>ue_pages := (ue_pages e)(0xF00F0 \<mapsto> UC_PROT_READ OR UC_PROT_EXEC)\<rparr>"
  have "uh_map h e kHleMarker kPage" "uh_map h ?e1 kGdtVa kPage"
    using assms(1,3) nz service_spans by (auto simp: honest_def service_pages_def)
  then have m: "uc_mem_map_ptr h kHleMarker kPage (UC_PROT_READ OR UC_PROT_EXEC) e = (True, ?e1)"
    "uc_mem_map_ptr h kGdtVa kPage UC_PROT_READ ?e1 = (True, ?e1\<lparr>ue_pages := (ue_pages ?e1)(0xF00F1 \<mapsto> UC_PROT_READ)\<rparr>)"
    by (auto simp: uc_mem_map_ptr_def service_spans fun_upd_def fun_eq_iff)
  show ?thesis using assms(2) m service_spans
    by (auto simp: map_service_pages_def mirrors_def)
qed

text \<open>All of \<open>attach\<close> on an engine that accepts: the pages it leaves, and the entries.\<close>

lemma attach_cpu_pages:
  assumes "honest h" "window r N" "uh_open h = Some e0" "ue_pages e0 = Map.empty" "gc_mapped c = []"
  shows "\<exists>c' e. attach_cpu h r c = (if uh_hooks h then (Okay, c') else (Err (Some ''uc_hook_add failed''), c'\<lparr>gc_uc := None\<rparr>)) \<and>
    mirrors c' \<and> gc_uc c' = Some e \<and>
    gc_mapped c' = map (\<lambda>(va, sz, ro). (va, sz)) (class_ranges (Suc N) r (pg N) 0) @ [(kHleMarker, kPage), (kGdtVa, kPage)] \<and>
    ue_pages e = (\<lambda>p. if p < N \<and> page_access r p \<noteq> NoAccess then Some (map_perms (grouped (accesses r N 0) ! p = ReadOnly)) else None)
      (0xF00F0 \<mapsto> UC_PROT_READ OR UC_PROT_EXEC, 0xF00F1 \<mapsto> UC_PROT_READ)"
proof -
  have N: "N \<le> 2 ^ 19" "xr_size r = 4096 * N" using assms(2) by (auto simp: window_def)
  have sz: "of_nat (xr_size r) = pg N" "unat (pg N) div 4096 + 1 = Suc N"
    using N(2) by (simp add: pg_def) (simp add: unat_pg [OF N(1)])
  let ?c0 = "c\<lparr>gc_uc := Some e0\<rparr>"
  have m0: "mirrors ?c0" using assms(4,5) by (simp add: mirrors_def)
  have u0: "gc_uc ?c0 = Some e0" by simp
  have d0: "dom (ue_pages e0) \<inter> {0..<N} = {}" using assms(4) by simp
  have "N - 0 < Suc N" by simp
  from map_classes [OF assms(1,2) this le0 m0 u0 d0] obtain c1 e1 where
    c1: "map_all h r (class_ranges (Suc N) r (pg N) (pg 0)) ?c0 = (Okay, c1)" "mirrors c1" "gc_uc c1 = Some e1"
      "ue_pages e1 = (\<lambda>p. if p < N \<and> page_access r p \<noteq> NoAccess then Some (map_perms (grouped (accesses r N 0) ! p = ReadOnly)) else None)"
      "gc_mapped c1 = map (\<lambda>(va, sz, ro). (va, sz)) (class_ranges (Suc N) r (pg N) (pg 0))"
    using assms(4,5) by (auto simp del: class_ranges.simps cong: if_cong)
  let ?c1 = "c1\<lparr>gc_stub_buf := replicate 4096 0xC3, gc_gdt_buf := replicate 4096 0\<rparr>"
  have "dom (ue_pages e1) \<inter> service_pages = {}" using N(1) by (auto simp: c1(4) service_pages_def split: if_splits)
  from map_service_pages_accepts [OF assms(1), of ?c1, OF _ this] c1(2,3) obtain c2 e2 where
    c2: "map_service_pages h ?c1 = (True, c2)" "mirrors c2" "gc_uc c2 = Some e2"
      "gc_mapped c2 = gc_mapped c1 @ [(kHleMarker, kPage), (kGdtVa, kPage)]"
      "ue_pages e2 = (ue_pages e1)(0xF00F0 \<mapsto> UC_PROT_READ OR UC_PROT_EXEC, 0xF00F1 \<mapsto> UC_PROT_READ)"
    by (auto simp: mirrors_def)
  let ?c3 = "load_selectors (build_gdt c2)"
  have "mirrors ?c3" using c2(2,3) by (simp add: mirrors_def load_selectors_uc)
  moreover have "attach_cpu h r c = (if uh_hooks h then (Okay, ?c3) else (Err (Some ''uc_hook_add failed''), ?c3\<lparr>gc_uc := None\<rparr>))"
    using c1(1) c2(1) by (simp add: attach_cpu_def assms(3) sz(1) unat_pg [OF N(1)] attach_ranges_eq pg_step(2) Let_def del: class_ranges.simps)
  ultimately show ?thesis using c1(4,5) c2(3,4,5)
    by (intro exI [of _ ?c3] exI [of _ "the (gc_uc ?c3)"]) (auto simp: load_selectors_uc pg_step(2) simp del: class_ranges.simps)
qed

lemma map_perms_inject [simp]: "map_perms a = map_perms b \<longleftrightarrow> a = b"
  by (auto simp: map_perms_def UC_PROT_READ_def UC_PROT_WRITE_def UC_PROT_EXEC_def)

lemma accesses_nth: "p < N \<Longrightarrow> accesses r N 0 ! p = page_access r p" "length (accesses r N 0) = N"
  by (simp_all add: accesses_def)

lemma window_committed: "window r N \<Longrightarrow> page_access r p \<noteq> NoAccess \<Longrightarrow> p < N"
  by (auto simp: window_def ram_wf_def page_access_def split: if_splits)

lemma grouped_correct:
  assumes "window r N"
  shows "(\<forall>p\<in>committed_pages r. (grouped (accesses r N 0) ! p = ReadOnly) = (page_access r p = ReadOnly)) \<longleftrightarrow>
    (\<forall>p. p \<in> committed_pages r \<and> Suc p \<in> committed_pages r \<longrightarrow> page_access r p = page_access r (Suc p))"
proof -
  let ?A = "accesses r N 0"
  have c: "p \<in> committed_pages r \<longleftrightarrow> p < N \<and> ?A ! p \<noteq> NoAccess" for p
    using window_committed [OF assms, of p] accesses_nth(1) [of p N r] by (auto simp: committed_pages_def)
  have two: "(a = ReadOnly) = (b = ReadOnly) \<longleftrightarrow> a = b" if "a \<noteq> NoAccess" "b \<noteq> NoAccess" for a b
    using that by (cases a; cases b) auto
  have eq: "((grouped ?A ! p = ReadOnly) = (page_access r p = ReadOnly)) \<longleftrightarrow> grouped ?A ! p = ?A ! p" if "p < N" "?A ! p \<noteq> NoAccess" for p
    using two [of "grouped ?A ! p" "?A ! p"] grouped_NoAccess [of p ?A] that by (simp add: accesses_nth)
  have "(\<forall>p\<in>committed_pages r. (grouped ?A ! p = ReadOnly) = (page_access r p = ReadOnly)) \<longleftrightarrow> grouped ?A = ?A"
    using eq grouped_NoAccess [of _ ?A] by (auto simp: c list_eq_iff_nth_eq accesses_nth(2))
  also have "\<dots> \<longleftrightarrow> (\<forall>p. p \<in> committed_pages r \<and> Suc p \<in> committed_pages r \<longrightarrow> page_access r p = page_access r (Suc p))"
  proof -
    have "Suc p < N \<and> ?A ! p \<noteq> NoAccess \<and> joins (?A ! p) (?A ! Suc p) \<longleftrightarrow>
        p \<in> committed_pages r \<and> Suc p \<in> committed_pages r \<and> page_access r p \<noteq> page_access r (Suc p)" for p
      using accesses_nth(1) [of p N r] accesses_nth(1) [of "Suc p" N r] by (auto simp: c joins_def)
    then show ?thesis unfolding grouped_uniform uniform_nth accesses_nth(2) by blast
  qed
  finally show ?thesis .
qed

text \<open>(C25) Attaching a new processor to an engine that accepts well-formed requests
  succeeds and maps exactly the committed pages of the window and the two service pages, and the
  list of ranges denotes them. The permissions mirror the protection recorded in the window exactly
  when no two neighbouring committed pages differ in it: at every boundary between a read-only and
  a writable page the test \<open>writable(end) == ro\<close> extends a range over pages of the other class, so
  that a read-only page becomes writable for the guest or a writable page read-only.\<close>

theorem attach_protection:
  assumes "honest h" "window r N" "uh_open h = Some e0" "ue_pages e0 = Map.empty" "uh_hooks h" "gc_mapped c = []"
  shows "\<exists>c' e. attach_cpu h r c = (Okay, c') \<and> gc_uc c' = Some e \<and> mirrors c' \<and>
    dom (ue_pages e) = committed_pages r \<union> service_pages \<and>
    ((\<forall>p\<in>committed_pages r. ue_pages e p = Some (map_perms (page_access r p = ReadOnly))) \<longleftrightarrow>
     (\<forall>p. p \<in> committed_pages r \<and> Suc p \<in> committed_pages r \<longrightarrow> page_access r p = page_access r (Suc p)))"
proof -
  from attach_cpu_pages [OF assms(1-4,6)] assms(5) obtain c' e where a: "attach_cpu h r c = (Okay, c')" "mirrors c'" "gc_uc c' = Some e"
    "ue_pages e = (\<lambda>p. if p < N \<and> page_access r p \<noteq> NoAccess then Some (map_perms (grouped (accesses r N 0) ! p = ReadOnly)) else None)
      (0xF00F0 \<mapsto> UC_PROT_READ OR UC_PROT_EXEC, 0xF00F1 \<mapsto> UC_PROT_READ)" by auto
  have N: "N \<le> 2 ^ 19" using assms(2) by (simp add: window_def)
  have p: "p < N \<and> p \<noteq> 0xF00F0 \<and> p \<noteq> 0xF00F1" if "p \<in> committed_pages r" for p
    using window_committed [OF assms(2), of p] N that by (auto simp: committed_pages_def)
  have "dom (ue_pages e) = committed_pages r \<union> service_pages"
    using window_committed [OF assms(2)] by (auto simp: a(4) committed_pages_def service_pages_def split: if_splits)
  moreover have "ue_pages e p = Some (map_perms (page_access r p = ReadOnly)) \<longleftrightarrow>
      (grouped (accesses r N 0) ! p = ReadOnly) = (page_access r p = ReadOnly)" if "p \<in> committed_pages r" for p
    using p [OF that] that by (auto simp: a(4) committed_pages_def)
  ultimately show ?thesis using a(1-3) grouped_correct [OF assms(2)] by (intro exI [of _ c'] exI [of _ e]) auto
qed

text \<open>A second attachment after a failed one: all ranges count as mapped, so the new engine gets only
  the service pages although \<open>attach\<close> reports success.\<close>

lemma map_all_covered:
  "gc_uc c \<noteq> None \<Longrightarrow> (\<And>va sz ro. (va, sz, ro) \<in> set rs \<Longrightarrow> covered (va AND NOT (kPage - 1)) (page_round (va + sz)) (gc_mapped c)) \<Longrightarrow>
     map_all h r rs c = (Okay, c)"
proof (induction rs)
  case (Cons x rs)
  obtain va sz ro where x: "x = (va, sz, ro)" by (cases x)
  have "covered (va AND NOT (kPage - 1)) (page_round (va + sz)) (gc_mapped c)" using Cons.prems(2) [of va sz ro] by (simp add: x)
  then have "map_range h r va sz ro c = (Okay, c)" using Cons.prems(1) by (auto simp: map_range_def Let_def)
  moreover have "map_all h r rs c = (Okay, c)" using Cons.prems by (intro Cons.IH) auto
  ultimately show ?case by (simp add: x)
qed simp

lemma failed_attach_blinds:
  assumes "honest h" "window r N" "uh_open h = Some e0" "ue_pages e0 = Map.empty" "gc_mapped c = []"
  shows "\<exists>c1 c2 e. attach_cpu (h\<lparr>uh_hooks := False\<rparr>) r c = (Err (Some ''uc_hook_add failed''), c1) \<and>
    attach_cpu (h\<lparr>uh_hooks := True\<rparr>) r c1 = (Okay, c2) \<and> gc_uc c2 = Some e \<and> dom (ue_pages e) = service_pages"
proof -
  let ?h1 = "h\<lparr>uh_hooks := False\<rparr>" and ?h2 = "h\<lparr>uh_hooks := True\<rparr>"
  have h: "honest ?h1" "honest ?h2" "uh_open ?h1 = Some e0" using assms(1,3) by (simp_all add: honest_def)
  have N: "N \<le> 2 ^ 19" "xr_size r = 4096 * N" using assms(2) by (auto simp: window_def)
  have sz: "of_nat (xr_size r) = pg N" "unat (pg N) div 4096 + 1 = Suc N"
    using N(2) by (simp add: pg_def) (simp add: unat_pg [OF N(1)])
  let ?rs = "class_ranges (Suc N) r (pg N) 0"
  from attach_cpu_pages [OF h(1) assms(2) h(3) assms(4,5)] obtain c' where
    c1: "attach_cpu ?h1 r c = (Err (Some ''uc_hook_add failed''), c'\<lparr>gc_uc := None\<rparr>)"
    and m: "list_all paged (gc_mapped c')" "gc_mapped c' = map (\<lambda>(va, sz, ro). (va, sz)) ?rs @ [(kHleMarker, kPage), (kGdtVa, kPage)]"
    by (auto simp: mirrors_def)
  let ?c1 = "c'\<lparr>gc_uc := Some e0\<rparr>"
  have cov: "covered (va AND NOT (kPage - 1)) (page_round (va + sz)) (gc_mapped ?c1)" if s: "(va, sz, ro) \<in> set ?rs" for va sz ro
  proof -
    obtain a b where ab: "a < b" "b \<le> N" "va = pg a" "sz = pg (b - a)"
      using class_ranges_form [OF assms(2) le0, of va sz ro "Suc N"] s unfolding pg_step(2) by blast
    have le: "b \<le> 2 ^ 19" "a \<le> 2 ^ 19" using ab N(1) by linarith+
    have "pg a + pg (b - a) = pg b" using pg_diff [of a b] ab(1) by (simp add: algebra_simps)
    then have "va AND NOT (kPage - 1) = va" "page_round (va + sz) = va + sz"
      using req_pages_pg(4) [OF ab(1) le(1)] pg_floor [OF le(2)] by (simp_all add: ab)
    moreover have "(va, sz) \<in> set (gc_mapped c')" using s by (force simp: m(2) simp del: class_ranges.simps)
    ultimately show ?thesis by (auto simp: covered_def)
  qed
  have r: "attach_ranges (unat (pg N) div 4096 + 1) ?h2 r (pg N) 0 ?c1 = (Okay, ?c1)"
    unfolding sz(2) attach_ranges_eq by (rule map_all_covered [OF _ cov]) simp_all
  let ?c2 = "?c1\<lparr>gc_stub_buf := replicate 4096 0xC3, gc_gdt_buf := replicate 4096 0\<rparr>"
  have "gc_uc ?c2 = Some e0" "dom (ue_pages e0) \<inter> service_pages = {}" using assms(4) by simp_all
  from map_service_pages_accepts [OF h(2) this] obtain c4 e4 where
    c4: "map_service_pages ?h2 ?c2 = (True, c4)" "gc_uc c4 = Some e4"
    "ue_pages e4 = (ue_pages e0)(0xF00F0 \<mapsto> UC_PROT_READ OR UC_PROT_EXEC, 0xF00F1 \<mapsto> UC_PROT_READ)" by blast
  have "attach_cpu ?h2 r (c'\<lparr>gc_uc := None\<rparr>) = (Okay, load_selectors (build_gdt c4))"
    using r c4(1) by (simp add: attach_cpu_def assms(3) sz(1) Let_def unat_pg [OF N(1)] del: attach_ranges.simps)
  then show ?thesis using c1 c4(2,3) assms(4) by (intro exI [of _ "c'\<lparr>gc_uc := None\<rparr>"] exI [of _ "load_selectors (build_gdt c4)"] exI [of _ "the (gc_uc (load_selectors (build_gdt c4)))"])
      (auto simp: load_selectors_uc service_pages_def)
qed

definition demo_uc :: uc_host where
  "demo_uc = \<lparr>uh_open = Some \<lparr>ue_regs = (\<lambda>_. 0), ue_gdtr = (0, 0), ue_pages = Map.empty\<rparr>,
     uh_map = (\<lambda>e va len. span va len \<inter> dom (ue_pages e) = {}), uh_unmap = (\<lambda>e va len. span va len \<subseteq> dom (ue_pages e)),
     uh_hooks = True, uh_emu = (\<lambda>e r eip n. \<lparr>er_events = [], er_regs = (ue_regs e)(EIP := kExitVa), er_mem = xr_mem r, er_err = 0\<rparr>),
     uh_strerror = (\<lambda>_. [])\<rparr>"

lemma demo_uc_honest: "honest demo_uc"
  by (auto simp: honest_def demo_uc_def)

text \<open>Four pages, the second read-only and the third writable.\<close>

definition mixed_ram :: xbe_ram where
  "mixed_ram = (XbeRam 4096 True (\<lambda>_. True) 0x4000)\<lparr>xr_committed := [False, True, True, False], xr_ro := [False, True, False, False]\<rparr>"

lemma mixed_ram_facts: "window mixed_ram 4" "page_access mixed_ram 1 = ReadOnly" "page_access mixed_ram 2 = ReadWrite"
  by (auto simp: window_def mixed_ram_def XbeRam_def ram_wf_def page_access_def less_Suc_eq)

theorem attach_protection_witness:
  "\<exists>c' e. attach_cpu demo_uc mixed_ram GuestCpu = (Okay, c') \<and> gc_uc c' = Some e \<and>
     (\<exists>p\<in>committed_pages mixed_ram. ue_pages e p \<noteq> Some (map_perms (page_access mixed_ram p = ReadOnly)))"
proof -
  let ?e0 = "\<lparr>ue_regs = (\<lambda>_. 0), ue_gdtr = (0, 0), ue_pages = Map.empty\<rparr>"
  have "uh_open demo_uc = Some ?e0" "ue_pages ?e0 = Map.empty" "uh_hooks demo_uc" "gc_mapped GuestCpu = []"
    by (simp_all add: demo_uc_def GuestCpu_def)
  note a = attach_protection [OF demo_uc_honest mixed_ram_facts(1) this]
  have "1 \<in> committed_pages mixed_ram \<and> Suc 1 \<in> committed_pages mixed_ram \<and> page_access mixed_ram 1 \<noteq> page_access mixed_ram (Suc 1)"
    using mixed_ram_facts(2,3) by (simp add: committed_pages_def numeral_2_eq_2)
  then show ?thesis using a by blast
qed

section \<open>Kernel blocks\<close>

lemma is_committed_head: "ram_wf r \<Longrightarrow> is_committed r va sz \<Longrightarrow> is_committed r va 1"
proof -
  assume w: "ram_wf r" and c: "is_committed r va sz"
  then have rng: "range_ok r va sz" by (simp add: is_committed_def)
  then have "0 < unat sz" by (auto simp: range_ok_def unat_gt_0)
  then have "unat va div xr_page_size r \<le> (unat va + unat sz - 1) div xr_page_size r" by (intro div_le_mono) linarith
  then have "unat va div xr_page_size r \<in> set (page_list r va sz)"
    using range_ok_end(1) [OF w rng] by (auto simp: page_list_def)
  then show ?thesis using c \<open>0 < unat sz\<close> by (auto simp: is_committed_def pages_committed_def list_all_iff range_ok_def page_list_def)
qed

lemma pool_request:
  assumes "mm_inv k" "pool_block k a"
  shows "fits (ma_va a) (ma_size a)" "ma_size a \<noteq> 0" "ma_va a AND NOT (kPage - 1) = ma_va a"
    "set (page_list (kr_ram k) (ma_va a) (ma_size a)) = req_pages (ma_va a) (ma_size a)"
    "req_pages (ma_va a) (ma_size a) \<inter> service_pages = {}"
proof -
  have b: "unat (ma_va a) + unat (ma_size a) \<le> 2 ^ 31" "4096 dvd unat (ma_va a)" "ma_size a \<noteq> 0"
    using assms by (auto simp: mm_inv_def pool_block_def)
  show f: "fits (ma_va a) (ma_size a)" "ma_size a \<noteq> 0" using b by (simp_all add: fits_def)
  have "unat (ma_va a AND NOT (kPage - 1)) = unat (ma_va a)" using b(2) by (simp add: unat_floor)
  then show "ma_va a AND NOT (kPage - 1) = ma_va a" by (rule unsigned_word_eqI)
  show "set (page_list (kr_ram k) (ma_va a) (ma_size a)) = req_pages (ma_va a) (ma_size a)"
    using assms(1) pool_block_range [OF assms] by (intro req_pages_list) (auto simp: mm_inv_def)
  have "(unat (ma_va a) + unat (ma_size a) + 4095) div 4096 \<le> (2 ^ 31 + 4095) div 4096" using b(1) by (intro div_le_mono) simp
  then show "req_pages (ma_va a) (ma_size a) \<inter> service_pages = {}" by (auto simp: req_pages_def service_pages_def)
qed

lemma alloc_mirrored:
  assumes "honest h" "coherent rt" "mm_inv (rt_krnl rt)" "kr_mem_obs (rt_krnl rt)"
    "mm_spec (rt_krnl rt) sz lowest highest alignment = Some c" "\<forall>p\<in>req_pages (of_nat c) sz. page_access (rt_ram rt) p = NoAccess"
  shows "\<exists>va k'. mm_alloc sz lowest highest alignment pr (rt_krnl rt) = Some (va, k') \<and> unat va = c \<and> coherent (absorb h k' rt) \<and>
    (\<forall>i\<in>set (rt_cpus rt). \<forall>p\<in>req_pages va sz. ue_pages (the (gc_uc (rt_heap (absorb h k' rt) i))) p =
       Some (map_perms (pr AND NOT kPageNocache = kPageReadonly)))"
proof -
  let ?k = "rt_krnl rt" and ?ro = "pr AND NOT kPageNocache = kPageReadonly"
  from mm_alloc_exact [OF assms(3,5), of pr] assms(4) obtain va r where va: "unat va = c"
    and al: "mm_alloc sz lowest highest alignment pr ?k = Some (va, ?k\<lparr>kr_ram := r,
      kr_mem_allocs := kr_mem_allocs ?k @ [\<lparr>ma_va = va, ma_size = sz, ma_protect = pr\<rparr>],
      kr_mem_log := kr_mem_log ?k @ [(False, va, sz, ?ro)]\<rparr>)" (is "_ = Some (va, ?k')")
    and r: "ram_wf r" "xr_base r" "xr_page_size r = 4096"
      "\<forall>p. page_access r p = (if p \<in> set (page_list (kr_ram ?k) va sz) then if ?ro then ReadOnly else ReadWrite else page_access (kr_ram ?k) p)"
    by auto
  have vc: "of_nat c = va" using va by (metis of_nat_unat ucast_id)
  have "pool_block ?k \<lparr>ma_va = va, ma_size = sz, ma_protect = pr\<rparr>"
    using mm_spec_Some [of ?k sz lowest highest alignment va pr] assms(5) va by simp
  note q = pool_request [OF assms(3) this, simplified]
  have "readable r va sz" using mm_alloc_effect [OF assms(3), of sz lowest highest alignment pr] al assms(5) by simp
  then have hp: "host_ptr r (va AND NOT (kPage - 1)) \<noteq> None"
    using is_committed_head [OF r(1)] by (simp add: readable_def host_ptr_def q(3))
  have com: "committed_pages r = committed_pages (rt_ram rt) \<union> req_pages va sz" using r(4) q(4) by (auto simp: committed_pages_def)
  have dj: "req_pages va sz \<inter> (committed_pages (rt_ram rt) \<union> service_pages) = {}"
    using q(5) assms(6) by (auto simp: vc committed_pages_def)
  have "kr_mem_log ?k' = kr_mem_log ?k @ [(False, va, sz, ?ro)]" "kr_ram ?k' = r" by simp_all
  note cc = coherent_commit [OF assms(1,2) this(1) q(1,2), unfolded this(2), OF com dj hp]
  show ?thesis using al va cc by blast
qed

lemma free_mirrored:
  assumes "honest h" "coherent rt" "mm_inv (rt_krnl rt)" "kr_mem_obs (rt_krnl rt)" "mm_free va (rt_krnl rt) = (b, k')"
  shows "coherent (absorb h k' rt)"
proof (cases "remove_alloc va (kr_mem_allocs (rt_krnl rt))")
  case None
  then have "k' = rt_krnl rt" using assms(5) by (simp add: mm_free_def)
  then show ?thesis using assms(2) by (simp add: absorb_none)
next
  case (Some aas)
  let ?k = "rt_krnl rt"
  obtain a as where a: "remove_alloc va (kr_mem_allocs ?k) = Some (a, as)" using Some by (cases aas) auto
  from mm_free_exact [OF assms(3) a] assms(4,5) obtain r where
    k': "k' = ?k\<lparr>kr_mem_allocs := as, kr_ram := r, kr_mem_log := kr_mem_log ?k @ [(True, va, ma_size a, ma_protect a = kPageReadonly)]\<rparr>"
    and r: "\<forall>p. page_access r p = (if p \<in> set (block_pages ?k a) then NoAccess else page_access (kr_ram ?k) p)" by auto
  from remove_alloc_Some [OF a] have m: "a \<in> set (kr_mem_allocs ?k)" "ma_va a = va" by auto
  then have blk: "pool_block ?k a" "\<forall>p\<in>set (block_pages ?k a). page_access (rt_ram rt) p \<noteq> NoAccess"
    using assms(3) by (auto simp: mm_inv_def)
  note q = pool_request [OF assms(3) blk(1), unfolded m(2)]
  have log: "kr_mem_log k' = kr_mem_log ?k @ [(True, va, ma_size a, ma_protect a = kPageReadonly)]" by (simp add: k')
  have "committed_pages (kr_ram k') = committed_pages (rt_ram rt) - req_pages va (ma_size a)"
    "req_pages va (ma_size a) \<subseteq> committed_pages (rt_ram rt)"
    using r blk(2) q(4) m(2) by (auto simp: k' committed_pages_def block_pages_def)
  from coherent_uncommit [OF assms(1,2) log q(1,2) this q(5)] show ?thesis .
qed


text \<open>A runtime with one processor that has only the service pages.\<close>

definition demo_engine :: uc_engine where
  "demo_engine = \<lparr>ue_regs = (\<lambda>_. 0), ue_gdtr = (0, 0), ue_pages = (\<lambda>p. if p \<in> service_pages then Some 5 else None)\<rparr>"

definition demo_rt :: runtime where
  "demo_rt = (UnicornRuntime (demo_pool GuestScheduler))\<lparr>rt_cpus := [0],
     rt_heap := (\<lambda>_. GuestCpu\<lparr>gc_uc := Some demo_engine, gc_mapped := [(kHleMarker, kPage), (kGdtVa, kPage)]\<rparr>)\<rparr>"

lemma demo_rt_krnl: "rt_krnl demo_rt = (demo_pool GuestScheduler)\<lparr>kr_mem_obs := True, kr_thread_runner := True\<rparr>"
  by (simp add: demo_rt_def UnicornRuntime_def)

lemma demo_rt_facts: "coherent demo_rt" "mm_inv (rt_krnl demo_rt)" "kr_mem_obs (rt_krnl demo_rt)" "mm_spec (rt_krnl demo_rt) 0x100 0 0 0 = Some 4096"
proof -
  have "committed_pages (rt_ram demo_rt) = {}"
    by (auto simp: demo_rt_krnl demo_pool_def XbeRam_def committed_pages_def page_access_def)
  moreover have "dom (ue_pages demo_engine) = service_pages" by (auto simp: demo_engine_def split: if_splits)
  moreover have "spans [(kHleMarker, kPage), (kGdtVa, kPage)] = service_pages" by (auto simp: service_spans service_pages_def)
  ultimately show "coherent demo_rt" using service_spans(3,4)
    by (simp add: coherent_def mirrors_def demo_rt_def UnicornRuntime_def demo_pool_def del: spans_simps)
  show "mm_inv (rt_krnl demo_rt)" using demo_pool_inv [of GuestScheduler]
    by (simp add: demo_rt_krnl mm_inv_def pool_block_def block_pages_def)
  show "mm_spec (rt_krnl demo_rt) 0x100 0 0 0 = Some 4096"
    using demo_pool_spec [of GuestScheduler] by (simp add: demo_rt_krnl mm_spec_def cong: if_cong)
qed (simp add: demo_rt_krnl)


end
