(* ===== verification/Xbox_Cpu_Mem.thy ===== *)
theory Xbox_Cpu_Mem
  imports Xbox_Cpu_Map Xbox_Cpu_Run
begin

text \<open>
  Guest memory that the runtime sets up for a thread: the top-down page allocator, the thread
  environment block with its TLS array, and the first stack frame of a system thread.
\<close>

section \<open>Parts of committed ranges\<close>

lemma upd_ram_simps [simp]:
  "rt_ram (upd_ram f rt) = f (rt_ram rt)" "rt_top (upd_ram f rt) = rt_top rt" "rt_cpus (upd_ram f rt) = rt_cpus rt"
  "rt_tls_raw (upd_ram f rt) = rt_tls_raw rt" "rt_heap (upd_ram f rt) = rt_heap rt"
  by (simp_all add: upd_ram_def)

lemma committed_sub:
  assumes "ram_wf r" "range_ok r a sz" "k + n \<le> unat sz" "0 < n"
  shows "range_ok r (a + of_nat k) (of_nat n)" "set (page_list r (a + of_nat k) (of_nat n)) \<subseteq> set (page_list r a sz)"
    "unat (a + of_nat k) = unat a + k"
proof -
  note e = range_ok_end [OF assms(1,2)]
  have u: "unat (of_nat k :: u32) = k" "unat (of_nat n :: u32) = n"
    using assms(3,4) e(3) unat_lt2p [of sz] by (simp_all add: unat_of_nat_lt)
  show ak: "unat (a + of_nat k) = unat a + k" using e(3) assms(3,4) by (subst unat_add_lt) (simp_all add: u)
  have nz: "(of_nat n :: u32) \<noteq> 0" using u(2) assms(4) by (metis unat_0 less_irrefl)
  show r: "range_ok r (a + of_nat k) (of_nat n)" using assms(2-4) e(2) nz by (simp add: range_ok_def ak u(2))
  have "unat (a + of_nat k + of_nat n - 1) = unat a + k + n - 1" using range_ok_end(1) [OF assms(1) r] by (simp add: ak u(2))
  moreover have "unat a div xr_page_size r \<le> (unat a + k) div xr_page_size r"
    "(unat a + k + n - 1) div xr_page_size r \<le> (unat a + unat sz - 1) div xr_page_size r" using assms(3) by (auto intro: div_le_mono)
  ultimately show "set (page_list r (a + of_nat k) (of_nat n)) \<subseteq> set (page_list r a sz)"
    unfolding page_list_def by (simp only: e(1) ak set_upt) (simp add: ivl_subset)
qed

lemma writable_sub:
  assumes "ram_wf r" "writable r a sz" "k + n \<le> unat sz" "0 < n"
  shows "writable r (a + of_nat k) (of_nat n)"
  using assms(2) committed_sub [OF assms(1) _ assms(3,4), of a] by (auto simp: writable_access [OF assms(1)])

lemma read32_part:
  assumes "ram_wf r" "writable r a sz" "k + 4 \<le> unat sz"
  shows "read32 r (a + of_nat k) = Some (le_word (load_bytes 4 (a + of_nat k) (xr_mem r)))"
proof -
  have "writable r (a + of_nat k) (of_nat 4)" by (rule writable_sub [OF assms]) simp
  then show ?thesis by (simp add: read32_def read_bytes_def readable_def writable_def)
qed

section \<open>The allocator\<close>

lemma map_on_all_frame [simp]:
  "rt_krnl (map_on_all h va sz ro rt) = rt_krnl rt" "rt_top (map_on_all h va sz ro rt) = rt_top rt" "rt_cpus (map_on_all h va sz ro rt) = rt_cpus rt"
  by (simp_all add: map_on_all_def fold_upd_cpu)

text \<open>A successful allocation: the block lies directly below the previous one, is committed, writable and zero.\<close>

lemma alloc_pages_effect:
  assumes "alloc_pages h bytes rt = Some (base, rt')" "base \<noteq> 0" "ram_wf (rt_ram rt)"
  defines "sz \<equiv> page_round bytes"
  shows "\<exists>r. commit base sz (rt_ram rt) = (True, r) \<and> ram_wf r \<and> writable r base sz \<and>
    rt_ram rt' = r\<lparr>xr_mem := store_bytes base (replicate (unat sz) 0) (xr_mem (rt_ram rt))\<rparr> \<and>
    rt_top rt' = base \<and> unat base + unat sz = unat (rt_top rt) \<and> unat sz \<le> 0x800000 \<and> 0 < unat sz"
proof -
  let ?b = "rt_top rt - sz"
  obtain ok r where c: "commit ?b sz (rt_ram rt) = (ok, r)" by fastforce
  have a: "\<not> sz > rt_top rt" "\<not> ?b < rt_top rt - 0x800000" ok "writable r ?b sz" "base = ?b"
    and rt': "rt' = map_on_all h ?b sz False (upd_ram (\<lambda>r. r\<lparr>xr_mem := store_bytes ?b (replicate (unat sz) 0) (xr_mem r)\<rparr>)
      ((upd_ram (\<lambda>_. r) rt)\<lparr>rt_top := ?b\<rparr>))"
    using assms(1,2) c by (auto simp: alloc_pages_def Let_def sz_def [symmetric] split: if_splits)
  note w = commit_wf [OF assms(3) c]
  have le: "unat sz \<le> unat (rt_top rt)" "unat ?b = unat (rt_top rt) - unat sz" using a(1) by (simp_all add: word_le_nat_alt not_less unat_diff_le)
  have "0x800000 \<le> rt_top rt"
  proof (rule ccontr)
    assume "\<not> 0x800000 \<le> rt_top rt"
    then have "unat (rt_top rt) < 0x800000" by (simp add: word_le_nat_alt)
    then have "unat (rt_top rt - 0x800000) = 2 ^ 32 + unat (rt_top rt) - 0x800000" by (subst unat_sub_if') (simp add: word_le_nat_alt)
    then show False using a(2) le \<open>unat (rt_top rt) < 0x800000\<close> by (simp add: word_less_nat_alt)
  qed
  then have "unat (rt_top rt - 0x800000) = unat (rt_top rt) - 0x800000" by (simp add: unat_diff_le)
  then have small: "unat sz \<le> 0x800000" using a(2) le by (simp add: word_less_nat_alt)
  have "0 < unat sz" using w a(3) by (auto simp: range_ok_def unat_gt_0)
  then show ?thesis using c a(3,4,5) w le small by (auto simp: rt' upd_ram_def)
qed

text \<open>The limit of an allocation does not depend on the kernel's pool: every request of at most 8 MiB is
  granted as long as the cursor has not come below 8 MiB.\<close>

lemma alloc_pages_grants:
  assumes "0x800000 \<le> rt_top rt" "0 < unat (page_round bytes)" "unat (page_round bytes) \<le> 0x800000"
    "commit (rt_top rt - page_round bytes) (page_round bytes) (rt_ram rt) = (True, r)"
    "writable r (rt_top rt - page_round bytes) (page_round bytes)"
  shows "alloc_pages h bytes rt = Some (rt_top rt - page_round bytes, map_on_all h (rt_top rt - page_round bytes) (page_round bytes) False
    (upd_ram (\<lambda>r. r\<lparr>xr_mem := store_bytes (rt_top rt - page_round bytes) (replicate (unat (page_round bytes)) 0) (xr_mem r)\<rparr>)
      ((upd_ram (\<lambda>_. r) rt)\<lparr>rt_top := rt_top rt - page_round bytes\<rparr>)))"
proof -
  have t: "unat (0x800000 :: u32) \<le> unat (rt_top rt)" using assms(1) by (simp only: word_le_nat_alt)
  have "bytes \<noteq> 0" using assms(2) by (auto simp: page_round_def kPage_def)
  moreover have "\<not> page_round bytes > rt_top rt" using t assms(3) by (simp add: word_less_nat_alt)
  moreover have "\<not> rt_top rt - page_round bytes < rt_top rt - 0x800000"
    using t assms(3) by (simp add: word_less_nat_alt word_le_nat_alt unat_diff_le)
  ultimately show ?thesis using assms(4,5) by (auto simp: alloc_pages_def Let_def)
qed

section \<open>The thread environment block\<close>

lemma teb_bytes_read:
  assumes "unat base + 0x200 + length raw \<le> 2 ^ 32"
  shows "load_bytes 4 (base + 0x18) (teb_bytes base raw m) = le_bytes 4 base"
    "load_bytes 4 (base + 0x04) (teb_bytes base raw m) = le_bytes 4 (base + 0x100)"
    "load_bytes 4 (base + 0x100) (teb_bytes base raw m) = le_bytes 4 (base + 0x200)"
    "0 < j \<Longrightarrow> j < 64 \<Longrightarrow> load_bytes 4 (base + of_nat (0x100 + 4 * j)) (teb_bytes base raw m) = load_bytes 4 (base + of_nat (0x100 + 4 * j)) m"
    "load_bytes (length raw) (base + 0x200) (teb_bytes base raw m) = raw"
proof -
  have off: "unat (base + of_nat k) = unat base + k" if "k < 0x200" for k
    using assms that by (subst unat_add_lt) (simp_all add: unat_of_nat_lt)
  have u: "unat (base + 0x18) = unat base + 0x18" "unat (base + 0x04) = unat base + 4" "unat (base + 0x100) = unat base + 0x100"
    using off [of "0x18"] off [of 4] off [of "0x100"] by simp_all
  have raw: "load_bytes 4 (base + of_nat k) (store_bytes (base + 0x200) raw M) = load_bytes 4 (base + of_nat k) M" if "k + 4 \<le> 0x200" for k M
  proof (cases "raw = []")
    case False
    then have "unat (base + 0x200) = unat base + 0x200" using assms by (subst unat_add_lt) (cases raw; simp)+
    then show ?thesis using assms that off [of k] by (intro load_store_disjoint) simp_all
  qed simp
  have d: "load_bytes 4 x (store_bytes y (le_bytes 4 v) M) = load_bytes 4 x M"
    if "unat y + 4 \<le> 2 ^ 32" "unat x + 4 \<le> 2 ^ 32" "unat y + 4 \<le> unat x \<or> unat x + 4 \<le> unat y" for x y v :: u32 and M
    using that by (intro load_store_disjoint) simp_all
  have s: "load_bytes 4 y (store_bytes y (le_bytes 4 v) M) = le_bytes 4 v" if "unat y + 4 \<le> 2 ^ 32" for y v :: u32 and M
    using load_store_same [of y "le_bytes 4 v" M] that by simp
  note raws = raw [of "0x18"] raw [of 4] raw [of "0x100"]
  show "load_bytes 4 (base + 0x18) (teb_bytes base raw m) = le_bytes 4 base"
    "load_bytes 4 (base + 0x04) (teb_bytes base raw m) = le_bytes 4 (base + 0x100)"
    "load_bytes 4 (base + 0x100) (teb_bytes base raw m) = le_bytes 4 (base + 0x200)"
    unfolding teb_bytes_def using raws assms u by (simp_all add: s d)
  show "load_bytes 4 (base + of_nat (0x100 + 4 * j)) (teb_bytes base raw m) = load_bytes 4 (base + of_nat (0x100 + 4 * j)) m" if "0 < j" "j < 64"
    unfolding teb_bytes_def using that raw [of "0x100 + 4 * j"] off [of "0x100 + 4 * j"] assms u by (simp add: d del: of_nat_add of_nat_mult)
  show "load_bytes (length raw) (base + 0x200) (teb_bytes base raw m) = raw"
  proof (cases "raw = []")
    case False
    then have "unat (base + 0x200) = unat base + 0x200" using assms by (subst unat_add_lt) (cases raw; simp)+
    then show ?thesis unfolding teb_bytes_def using assms by (intro load_store_same) simp
  qed simp
qed

lemma page_round_ge: "unat v + 4095 < 2 ^ 32 \<Longrightarrow> unat v \<le> unat (page_round v)"
  by (subst unat_page_round) (use div_mult_mod_eq [of "unat v + 4095" 4096] in \<open>simp_all\<close>)

text \<open>The block that \<open>build_teb\<close> leaves behind, and the window around it.\<close>

lemma build_teb_effect:
  assumes "build_teb h rt = Some (base, rt')" "base \<noteq> 0" "ram_wf (rt_ram rt)" "length (rt_tls_raw rt) < 0x800000"
  defines "raw \<equiv> rt_tls_raw rt"
  shows "\<exists>sz. ram_wf (rt_ram rt') \<and> writable (rt_ram rt') base sz \<and> 0x200 + length raw \<le> unat sz \<and> unat base + unat sz = unat (rt_top rt) \<and>
    rt_top rt' = base \<and> xr_mem (rt_ram rt') = teb_bytes base raw (store_bytes base (replicate (unat sz) 0) (xr_mem (rt_ram rt)))"
proof -
  let ?d = "of_nat (length raw) :: u32"
  have ud: "unat ?d = length raw" using assms(4) by (simp add: raw_def unat_of_nat_lt)
  have ut: "unat (0x200 + ?d) = 0x200 + length raw" using assms(4) ud by (subst unat_add_lt) (simp_all add: raw_def)
  from assms(1,2) obtain rt1 where al: "alloc_pages h (0x200 + ?d) rt = Some (base, rt1)"
    and rt': "rt' = upd_ram (\<lambda>r. r\<lparr>xr_mem := teb_bytes base (take (unat ?d) raw) (xr_mem r)\<rparr>) rt1"
    by (auto simp: build_teb_def Let_def raw_def split: option.splits if_splits)
  let ?sz = "page_round (0x200 + ?d)"
  from alloc_pages_effect [OF al assms(2,3)] obtain r where r: "ram_wf r" "writable r base ?sz"
    "rt_ram rt1 = r\<lparr>xr_mem := store_bytes base (replicate (unat ?sz) 0) (xr_mem (rt_ram rt))\<rparr>" "rt_top rt1 = base"
    "unat base + unat ?sz = unat (rt_top rt)" by blast
  have "0x200 + length raw \<le> unat ?sz" using page_round_ge [of "0x200 + ?d"] assms(4) ut by (simp add: raw_def)
  then show ?thesis using r by (intro exI [of _ ?sz]) (simp add: rt' ud ram_simps)
qed

text \<open>A thread environment block built by the runtime is what guest TLS code expects:
  \<open>fs:[0x18]\<close> is the block's own address, \<open>fs:[4]\<close> the address of the TLS array, slot 0 of the array the
  address of the thread's data, slots 1 to 63 are null, and the data area holds the image's
  template. All of it lies inside the pages just allocated, below the previous allocation.\<close>

lemma teb_layout:
  assumes "build_teb h rt = Some (base, rt')" "base \<noteq> 0" "ram_wf (rt_ram rt)" "length (rt_tls_raw rt) < 0x800000"
  shows "read32 (rt_ram rt') (base + 0x18) = Some base \<and> read32 (rt_ram rt') (base + 0x04) = Some (base + 0x100) \<and>
    read32 (rt_ram rt') (base + 0x100) = Some (base + 0x200) \<and>
    (\<forall>j. 0 < j \<and> j < 64 \<longrightarrow> read32 (rt_ram rt') (base + of_nat (0x100 + 4 * j)) = Some 0) \<and>
    (rt_tls_raw rt \<noteq> [] \<longrightarrow> read_bytes (rt_ram rt') (base + 0x200) (of_nat (length (rt_tls_raw rt))) = Some (rt_tls_raw rt)) \<and>
    rt_top rt' = base \<and> base < rt_top rt"
proof -
  let ?raw = "rt_tls_raw rt"
  from build_teb_effect [OF assms] obtain sz where t: "ram_wf (rt_ram rt')" "writable (rt_ram rt') base sz" "0x200 + length ?raw \<le> unat sz"
    "unat base + unat sz = unat (rt_top rt)" "rt_top rt' = base"
    "xr_mem (rt_ram rt') = teb_bytes base ?raw (store_bytes base (replicate (unat sz) 0) (xr_mem (rt_ram rt)))" by blast
  have fit: "unat base + 0x200 + length ?raw \<le> 2 ^ 32" using t(3,4) unat_lt2p [of "rt_top rt"] by simp
  note m = teb_bytes_read [OF fit] and rd = read32_part [OF t(1,2)]
  have full: "le_word (le_bytes 4 (v :: u32)) = v" for v by (simp add: byte_simps)
  have zero: "le_word (replicate 4 (0 :: u8)) = (0 :: u32)" by (simp add: numeral_eq_Suc)
  have "read32 (rt_ram rt') (base + of_nat (0x100 + 4 * j)) = Some 0" if "0 < j" "j < 64" for j
  proof -
    have in_block: "0x100 + 4 * j + 4 \<le> unat sz" using that t(3) by simp
    have "load_bytes 4 (base + of_nat (0x100 + 4 * j)) (store_bytes base (replicate (unat sz) 0) (xr_mem (rt_ram rt))) = replicate 4 0"
      using in_block t(4) unat_lt2p [of "rt_top rt"] by (subst load_store_inside) (simp_all del: of_nat_add of_nat_mult)
    then show ?thesis using rd [OF in_block] m(4) [OF that] zero by (simp only: t(6))
  qed
  moreover have "read_bytes (rt_ram rt') (base + 0x200) (of_nat (length ?raw)) = Some ?raw" if "?raw \<noteq> []"
    using writable_sub [OF t(1,2) t(3)] that m(5) assms(4) by (simp add: read_bytes_def readable_def writable_def unat_of_nat_lt t(6))
  moreover have "base < rt_top rt" using t(3,4) by (simp add: word_less_nat_alt)
  ultimately show ?thesis using rd [of "0x18"] rd [of 4] rd [of "0x100"] t(3,5) m(1-3) full by (simp add: t(6))
qed

definition teb_rt :: runtime where
  "teb_rt = (UnicornRuntime ((demo_pool GuestScheduler)\<lparr>kr_ram := XbeRam 4096 True (\<lambda>_. True) 0x1000000, kr_kernel_data_va := 0xFFF000\<rparr>))
     \<lparr>rt_tls_raw := [1, 2, 3]\<rparr>"

lemma teb_rt_facts: "rt_ram teb_rt = XbeRam 4096 True (\<lambda>_. True) 0x1000000" "rt_top teb_rt = 0xFFF000" "rt_tls_raw teb_rt = [1, 2, 3]"
  by (simp_all add: teb_rt_def UnicornRuntime_def)

lemma teb_rt_commit:
  "commit 0xFFE000 0x1000 (XbeRam 4096 True (\<lambda>_. True) 0x1000000) = (True, r) \<Longrightarrow> writable r 0xFFE000 0x1000 \<and> host_ptr r 0xFFE000 \<noteq> None"
  by (auto simp: commit_def XbeRam_def range_ok_def page_list_def writable_def is_committed_def pages_committed_def host_ptr_def)

lemma teb_rt_built: "\<exists>rt'. build_teb demo_uc teb_rt = Some (0xFFE000, rt')"
proof -
  let ?r = "XbeRam 4096 True (\<lambda>_. True) 0x1000000"
  obtain r where c: "commit 0xFFE000 0x1000 ?r = (True, r)"
    by (simp add: commit_def XbeRam_def range_ok_def page_list_def)
  note w = teb_rt_commit [OF this]
  have p: "page_round 0x203 = 0x1000" by code_simp
  obtain rt1 where al: "alloc_pages demo_uc 0x203 teb_rt = Some (0xFFE000, rt1)"
    using alloc_pages_grants [of teb_rt "0x203" r demo_uc] c w unfolding p teb_rt_facts by auto
  have "ram_wf (rt_ram teb_rt)" by (simp add: teb_rt_facts XbeRam_def ram_wf_def)
  from alloc_pages_effect [OF al _ this, unfolded p] c have "rt_ram rt1 = r\<lparr>xr_mem := store_bytes 0xFFE000 (replicate 4096 0) (xr_mem (rt_ram teb_rt))\<rparr>"
    by (auto simp: teb_rt_facts)
  then have "host_ptr (rt_ram rt1) 0xFFE000 \<noteq> None" using w by (simp add: host_ptr_def ram_simps)
  then show ?thesis using al by (simp add: build_teb_def Let_def teb_rt_facts)
qed

lemma teb_layout_witness:
  "\<exists>rt'. build_teb demo_uc teb_rt = Some (0xFFE000, rt') \<and> read32 (rt_ram rt') 0xFFE018 = Some 0xFFE000 \<and>
     read_bytes (rt_ram rt') 0xFFE200 3 = Some [1, 2, 3]"
proof -
  obtain rt' where b: "build_teb demo_uc teb_rt = Some (0xFFE000, rt')" using teb_rt_built ..
  have "ram_wf (rt_ram teb_rt)" "length (rt_tls_raw teb_rt) < 0x800000" by (simp_all add: teb_rt_facts XbeRam_def ram_wf_def)
  from teb_layout [OF b _ this] show ?thesis using b by (simp add: teb_rt_facts)
qed

section \<open>The first frame of a system thread\<close>

lemma write32_inside:
  assumes "ram_wf r" "writable r a sz" "k + 4 \<le> unat sz"
  shows "\<exists>r'. write32 (a + of_nat k) v r = (True, r') \<and> ram_wf r' \<and> writable r' a sz \<and> read32 r' (a + of_nat k) = Some v \<and>
    (\<forall>j. j + 4 \<le> unat sz \<and> (j + 4 \<le> k \<or> k + 4 \<le> j) \<longrightarrow> read32 r' (a + of_nat j) = read32 r (a + of_nat j))"
proof -
  have rng: "range_ok r a sz" using assms(2) by (simp add: writable_def is_committed_def)
  have w: "writable r (a + of_nat k) (of_nat (length (le_bytes 4 v)))" using writable_sub [OF assms] by simp
  obtain r' where r': "write32 (a + of_nat k) v r = (True, r')" and s: "r' = r\<lparr>xr_mem := store_bytes (a + of_nat k) (le_bytes 4 v) (xr_mem r)\<rparr>"
    using w by (simp add: write32_def write_bytes_def)
  have u: "unat (a + of_nat j) = unat a + j" if "j + 4 \<le> unat sz" for j using committed_sub(3) [OF assms(1) rng that] by simp
  have "read32 r' (a + of_nat j) = read32 r (a + of_nat j)" if "j + 4 \<le> unat sz" "j + 4 \<le> k \<or> k + 4 \<le> j" for j
    using ram.rd32_wr32_other [OF assms(1) write32_wr32 [OF r'], of "a + of_nat j"] that u [of j] u [OF assms(3)] by (auto simp: read32_rd32)
  moreover have "read32 r' (a + of_nat k) = Some v" using ram.rd32_wr32 [OF assms(1) write32_wr32 [OF r']] by (simp add: read32_rd32)
  ultimately show ?thesis using r' assms(1,2) by (auto simp: s ram_simps)
qed

text \<open>The words of the frame from the stack pointer up.\<close>

definition frame_words :: "thread_start \<Rightarrow> u32 list" where
  "frame_words info = (if si_system_routine info \<noteq> 0 then [si_start_routine info, si_start_context info, kExitVa]
     else [si_start_context info, kExitVa])"

lemma push_frame_words:
  assumes "ram_wf (rt_ram rt)" "writable (rt_ram rt) base sz" "12 \<le> unat sz" "esp = base + sz" "push_frame info (esp, rt) = (esp', rt')"
  shows "esp' = esp - 4 * of_nat (length (frame_words info)) \<and>
    (\<forall>j<length (frame_words info). read32 (rt_ram rt') (esp' + of_nat (4 * j)) = Some (frame_words info ! j))"
proof -
  let ?n = "unat sz"
  have at: "base + of_nat (?n - 4) = esp - 4" "base + of_nat (?n - 8) = esp - 4 - 4" "base + of_nat (?n - 12) = esp - 4 - 4 - 4"
    using assms(3,4) by (simp_all add: of_nat_diff)
  have k: "?n - 4 + 4 \<le> ?n" "?n - 8 + 4 \<le> ?n" "?n - 12 + 4 \<le> ?n" "?n - 8 + 4 \<le> ?n - 4" "?n - 12 + 4 \<le> ?n - 4" "?n - 12 + 4 \<le> ?n - 8"
    using assms(3) by linarith+
  from write32_inside [OF assms(1,2) k(1), of kExitVa] obtain r1 where r1: "write32 (esp - 4) kExitVa (rt_ram rt) = (True, r1)"
    "ram_wf r1" "writable r1 base sz" "read32 r1 (esp - 4) = Some kExitVa" unfolding at by blast
  from write32_inside [OF r1(2,3) k(2), of "si_start_context info"] obtain r2 where
    r2: "write32 (esp - 4 - 4) (si_start_context info) r1 = (True, r2)" "ram_wf r2" "writable r2 base sz"
    "read32 r2 (esp - 4 - 4) = Some (si_start_context info)" "read32 r2 (esp - 4) = read32 r1 (esp - 4)" using k(1,4) at by metis
  from write32_inside [OF r2(2,3) k(3), of "si_start_routine info"] obtain r3 where
    r3: "write32 (esp - 4 - 4 - 4) (si_start_routine info) r2 = (True, r3)" "read32 r3 (esp - 4 - 4 - 4) = Some (si_start_routine info)"
    "read32 r3 (esp - 4 - 4) = read32 r2 (esp - 4 - 4)" "read32 r3 (esp - 4) = read32 r2 (esp - 4)" using k at by metis
  show ?thesis
  proof (cases "si_system_routine info = 0")
    case True
    then have "esp' = esp - 4 - 4" "rt_ram rt' = r2"
      using assms(5) r1(1) r2(1) by (auto simp: push_frame_def push32_def Let_def upd_ram_def)
    then show ?thesis using True r1(4) r2(4,5) by (auto simp: frame_words_def less_Suc_eq algebra_simps)
  next
    case False
    then have "esp' = esp - 4 - 4 - 4" "rt_ram rt' = r3"
      using assms(5) r1(1) r2(1) r3(1) by (auto simp: push_frame_def push32_def Let_def upd_ram_def)
    then show ?thesis using False r1(4) r2(4,5) r3(2-4) by (auto simp: frame_words_def less_Suc_eq algebra_simps)
  qed
qed

lemma alloc_pages_wf: "alloc_pages h bytes rt = Some (b, rt') \<Longrightarrow> ram_wf (rt_ram rt) \<Longrightarrow> ram_wf (rt_ram rt')"
proof -
  assume a: "alloc_pages h bytes rt = Some (b, rt')" and w: "ram_wf (rt_ram rt)"
  obtain ok r where c: "commit (rt_top rt - page_round bytes) (page_round bytes) (rt_ram rt) = (ok, r)" by fastforce
  have "ram_wf r" using commit_wf [OF w c] by blast
  then show ?thesis using a c w by (auto simp: alloc_pages_def Let_def ram_simps upd_ram_def split: if_splits)
qed

lemma build_teb_wf: "build_teb h rt = Some (b, rt') \<Longrightarrow> ram_wf (rt_ram rt) \<Longrightarrow> ram_wf (rt_ram rt')"
  using alloc_pages_wf by (fastforce simp: build_teb_def Let_def ram_simps split: option.splits if_splits)

lemma attach_krnl: "attach h i rt = (st, rt') \<Longrightarrow> rt_krnl rt' = rt_krnl rt"
  by (auto simp: attach_def register_cpu_def Let_def split: if_splits prod.splits)

lemma page_round_block: "0 < unat (page_round v) \<Longrightarrow> 4096 \<le> unat (page_round v)"
  by (simp add: page_round_def unat_floor)

text \<open>The stack of a new thread: a writable block that ends at the stack pointer.\<close>

lemma alloc_stack_block:
  assumes "alloc_stack h bytes rt = Some ((esp, b), rt')" "esp \<noteq> 0" "ram_wf (rt_ram rt)"
  shows "\<exists>sz. ram_wf (rt_ram rt') \<and> writable (rt_ram rt') b sz \<and> 4096 \<le> unat sz \<and> esp = b + sz"
proof -
  have al: "alloc_pages h bytes rt = Some (b, rt')" "b \<noteq> 0" "esp = b + page_round bytes"
    using assms(1,2) by (auto simp: alloc_stack_def split: if_splits)
  from alloc_pages_effect [OF al(1,2) assms(3)] page_round_block [of bytes] al(3) show ?thesis by (fastforce simp: ram_simps)
qed

text \<open>(C39) The stack on which a new system thread starts. From \<open>ESP\<close> up it holds the
  start routine (when a system routine is given), the start context and the exit address. The
  routine is entered as if called, so it takes the word at \<open>ESP\<close> as its return address: that is its
  first argument and not the exit address, which the source's comment places there.\<close>

theorem system_thread_frame:
  assumes "boot_system_thread h thread_handle i rt = Some (Boot entry esp rt')" "ram_wf (rt_ram rt)"
  shows "\<exists>info. thread_start_info (rt_krnl rt) thread_handle = Some info \<and> si_start_routine info \<noteq> 0 \<and>
    (if si_system_routine info \<noteq> 0
     then entry = si_system_routine info \<and> read32 (rt_ram rt') esp = Some (si_start_routine info) \<and>
       read32 (rt_ram rt') (esp + 4) = Some (si_start_context info) \<and> read32 (rt_ram rt') (esp + 8) = Some kExitVa
     else entry = si_start_routine info \<and> read32 (rt_ram rt') esp = Some (si_start_context info) \<and>
       read32 (rt_ram rt') (esp + 4) = Some kExitVa)"
proof -
  from assms(1) obtain info teb rt1 rt2 s b rt3 bytes where i: "thread_start_info (rt_krnl rt) thread_handle = Some info" "si_start_routine info \<noteq> 0"
    and steps: "build_teb h (upd_cpu i (\<lambda>_. GuestCpu) rt) = Some (teb, rt1)" "attach h i (upd_cpu i (set_teb teb) rt1) = (Okay, rt2)"
      "alloc_stack h bytes rt2 = Some ((s, b), rt3)" "s \<noteq> 0" "push_frame info (s, rt3) = (esp, rt')"
    and e: "entry = (if si_system_routine info \<noteq> 0 then si_system_routine info else si_start_routine info)"
    by (auto simp: boot_system_thread_def split: option.splits if_splits prod.splits)
  have "ram_wf (rt_ram rt2)" using build_teb_wf [OF steps(1)] attach_krnl [OF steps(2)] assms(2) by simp
  from alloc_stack_block [OF steps(3,4) this] obtain sz where sz: "ram_wf (rt_ram rt3)" "writable (rt_ram rt3) b sz" "12 \<le> unat sz" "s = b + sz"
    by force
  from push_frame_words [OF sz steps(5)]
  have w: "\<forall>j<length (frame_words info). read32 (rt_ram rt') (esp + of_nat (4 * j)) = Some (frame_words info ! j)" by blast
  show ?thesis using i e w [rule_format, of 0] w [rule_format, of 1] w [rule_format, of 2]
    by (intro exI [of _ info]) (auto simp: frame_words_def split: if_splits)
qed

text \<open>A system thread that boots: a window of 16 MiB and a thread object with handle 4.\<close>

lemma commit_fresh:
  assumes "ram_wf r" "xr_base r" "\<forall>p. xr_mprotect r p" "range_ok r a sz" "\<forall>p\<in>set (page_list r a sz). page_access r p \<noteq> ReadOnly"
  shows "\<exists>r'. commit a sz r = (True, r') \<and> writable r' a sz"
proof -
  have "fst (commit a sz r)" using assms(2,4) page_ops_total(1) [OF assms(3)] by (simp add: commit_def)
  then obtain r' where c: "commit a sz r = (True, r')" by (metis prod.collapse)
  note w = commit_wf [OF assms(1) c]
  have "page_list r' a sz = page_list r a sz" "range_ok r' a sz" using w assms(4) by (simp_all add: page_list_def range_ok_def)
  moreover have "page_access r' p = ReadWrite" if "p \<in> set (page_list r a sz)" for p
    using w assms(5) that by (cases "page_access r p") auto
  ultimately show ?thesis using c w assms(2) by (auto simp: writable_access)
qed

definition boot_thread :: dispatcher_object where
  "boot_thread = new_object\<lparr>do_kind := KThread, th_start_routine := 0x11000, th_start_context := 0x42, th_system_routine := 0x12000\<rparr>"

definition boot_rt :: runtime where
  "boot_rt = UnicornRuntime ((demo_pool GuestScheduler)\<lparr>kr_ram := XbeRam 4096 True (\<lambda>_. True) 0x1000000, kr_kernel_data_va := 0xFFF000,
     kr_objects := [Some 0], kr_heap := [0 \<mapsto> boot_thread]\<rparr>)"

lemma boot_rt_facts: "rt_ram boot_rt = XbeRam 4096 True (\<lambda>_. True) 0x1000000" "rt_top boot_rt = 0xFFF000" "rt_tls_raw boot_rt = []"
  "thread_start_info (rt_krnl boot_rt) 4 = Some \<lparr>si_start_routine = 0x11000, si_start_context = 0x42, si_system_routine = 0x12000,
     si_kernel_stack_size = 0, si_tls_data_size = 0\<rparr>"
  by (simp_all add: boot_rt_def UnicornRuntime_def thread_start_info_def handle_obj_def find_object_by_handle_def boot_thread_def new_object_def)

definition roomy :: "runtime \<Rightarrow> bool" where
  "roomy rt \<longleftrightarrow> window (rt_ram rt) 4096 \<and> (\<forall>p. xr_mprotect (rt_ram rt) p \<and> page_access (rt_ram rt) p \<noteq> ReadOnly)"

lemma page_access_mem: "page_access (r\<lparr>xr_mem := m\<rparr>) p = page_access r p"
  by (simp add: page_access_def)

lemma roomy_mem: "roomy (upd_ram (\<lambda>r. r\<lparr>xr_mem := f r\<rparr>) rt) = roomy rt"
  by (simp add: roomy_def window_def ram_simps page_access_def)

lemma alloc_roomy:
  assumes "roomy rt" "0x800000 \<le> rt_top rt" "unat (rt_top rt) \<le> 0x1000000" "page_round bytes = sz" "0 < unat sz" "unat sz \<le> 0x800000"
  shows "\<exists>rt'. alloc_pages h bytes rt = Some (rt_top rt - sz, rt') \<and> roomy rt' \<and> rt_top rt' = rt_top rt - sz \<and>
    host_ptr (rt_ram rt') (rt_top rt - sz) \<noteq> None \<and> (rt_cpus rt = [] \<longrightarrow> rt_heap rt' = rt_heap rt \<and> rt_cpus rt' = [])"
proof -
  let ?b = "rt_top rt - sz"
  have w: "ram_wf (rt_ram rt)" "xr_base (rt_ram rt)" "xr_page_size (rt_ram rt) = 4096" "xr_size (rt_ram rt) = 0x1000000"
    "\<forall>p. xr_mprotect (rt_ram rt) p" "\<And>p. page_access (rt_ram rt) p \<noteq> ReadOnly" using assms(1) by (auto simp: roomy_def window_def)
  have t: "unat (0x800000 :: u32) \<le> unat (rt_top rt)" using assms(2) by (simp only: word_le_nat_alt)
  then have b: "unat ?b = unat (rt_top rt) - unat sz" using assms(6) by (intro unat_diff_le) (simp add: word_le_nat_alt)
  have rng: "range_ok (rt_ram rt) ?b sz" using assms(3,5,6) b t w(4) by (auto simp: range_ok_def)
  from commit_fresh [OF w(1,2,5) rng] w(6) obtain r where c: "commit ?b sz (rt_ram rt) = (True, r)" "writable r ?b sz" by blast
  note cw = commit_wf [OF w(1) c(1)]
  have mp: "xr_mprotect r = xr_mprotect (rt_ram rt)" using page_ops_mprotect(1) [of ?b sz "rt_ram rt"] c(1) by simp
  let ?rt' = "map_on_all h ?b sz False (upd_ram (\<lambda>r. r\<lparr>xr_mem := store_bytes ?b (replicate (unat sz) 0) (xr_mem r)\<rparr>)
    ((upd_ram (\<lambda>_. r) rt)\<lparr>rt_top := ?b\<rparr>))"
  have "alloc_pages h bytes rt = Some (?b, ?rt')"
    using alloc_pages_grants [of rt bytes r h] assms(2,4-6) c by simp
  moreover have "page_access r p \<noteq> ReadOnly" for p using cw w(6) [of p] by auto
  then have "roomy ?rt'" using cw mp w by (simp add: roomy_def window_def ram_simps upd_ram_def page_access_mem)
  moreover have "host_ptr (rt_ram ?rt') ?b \<noteq> None"
    using c(2) is_committed_head [of r ?b sz] cw by (simp add: host_ptr_def ram_simps writable_def upd_ram_def)
  moreover have "rt_cpus rt = [] \<longrightarrow> rt_heap ?rt' = rt_heap rt" by (simp add: map_on_all_def upd_ram_def)
  ultimately show ?thesis by (intro exI [of _ ?rt']) simp
qed

lemma boot_rt_boots: "\<exists>entry esp rt'. boot_system_thread demo_uc 4 0 boot_rt = Some (Boot entry esp rt')"
proof -
  let ?rt = "upd_cpu 0 (\<lambda>_. GuestCpu) boot_rt"
  have h: "rt_heap boot_rt = (\<lambda>_. GuestCpu)" "rt_cpus boot_rt = []" by (simp_all add: boot_rt_def UnicornRuntime_def)
  have "roomy ?rt" by (auto simp: roomy_def window_def boot_rt_facts XbeRam_def ram_wf_def page_access_def)
  moreover have p: "page_round 0x200 = 0x1000" "page_round 0x10000 = 0x10000" by code_simp+
  ultimately obtain rt1 where al: "alloc_pages demo_uc 0x200 ?rt = Some (0xFFE000, rt1)" "roomy rt1" "rt_top rt1 = 0xFFE000"
    "host_ptr (rt_ram rt1) 0xFFE000 \<noteq> None" "rt_heap rt1 = rt_heap ?rt" "rt_cpus rt1 = []"
    using alloc_roomy [of ?rt "0x200" "0x1000" demo_uc] h by (auto simp: boot_rt_facts)
  let ?rt2 = "upd_ram (\<lambda>r. r\<lparr>xr_mem := teb_bytes 0xFFE000 [] (xr_mem r)\<rparr>) rt1"
  have tls: "rt_tls_raw ?rt = []" using boot_rt_facts(3) by (simp add: upd_cpu_def)
  have teb: "build_teb demo_uc ?rt = Some (0xFFE000, ?rt2)" using al tls by (simp add: build_teb_def Let_def)
  have rm2: "roomy ?rt2" using al(2) by (simp only: roomy_mem)
  let ?rt3 = "upd_cpu 0 (set_teb 0xFFE000) ?rt2" and ?c = "set_teb 0xFFE000 GuestCpu"
  have c0: "rt_heap ?rt3 0 = ?c" using al(5) by simp
  obtain e0 where e0: "uh_open demo_uc = Some e0" "ue_pages e0 = Map.empty" "uh_hooks demo_uc" by (simp add: demo_uc_def)
  have win: "window (rt_ram ?rt3) 4096" using rm2 by (simp add: roomy_def)
  from attach_cpu_pages [OF demo_uc_honest win e0(1,2), of ?c] e0(3) obtain c1 where c1: "attach_cpu demo_uc (rt_ram ?rt3) ?c = (Okay, c1)"
    by (auto simp: set_teb_def GuestCpu_def)
  have "gc_uc ?c = None" by (simp add: set_teb_def GuestCpu_def)
  then obtain rt4 where at: "attach demo_uc 0 ?rt3 = (Okay, rt4)"
    by (simp only: attach_def c0 c1 simp_thms if_False Let_def prod.case if_True status.simps)
  have k4: "rt_krnl rt4 = rt_krnl ?rt3" "rt_top rt4 = 0xFFE000" using attach_krnl [OF at] at al(3)
    by (auto simp: attach_def register_cpu_def Let_def split: if_splits prod.splits)
  have "roomy rt4" using rm2 k4(1) by (simp add: roomy_def)
  then obtain rt5 where "alloc_pages demo_uc 0x10000 rt4 = Some (0xFEE000, rt5)"
    using alloc_roomy [of rt4 "0x10000" "0x10000" demo_uc] p(2) k4(2) by auto
  then have st: "alloc_stack demo_uc 0x10000 rt4 = Some ((0xFFE000, 0xFEE000), rt5)" by (simp add: alloc_stack_def p)
  show ?thesis using teb at st by (simp add: boot_system_thread_def boot_rt_facts split: prod.splits)
qed

theorem system_thread_frame_witness:
  "\<exists>esp rt'. boot_system_thread demo_uc 4 0 boot_rt = Some (Boot 0x12000 esp rt') \<and> read32 (rt_ram rt') esp = Some 0x11000 \<and>
     read32 (rt_ram rt') (esp + 8) = Some kExitVa"
proof -
  obtain entry esp rt' where b: "boot_system_thread demo_uc 4 0 boot_rt = Some (Boot entry esp rt')" using boot_rt_boots by blast
  have "ram_wf (rt_ram boot_rt)" by (simp add: boot_rt_facts XbeRam_def ram_wf_def)
  from system_thread_frame [OF b this] show ?thesis using b by (simp add: boot_rt_facts)
qed

end
