(* ===== verification/Xbox_Cpu_Props.thy ===== *)
theory Xbox_Cpu_Props
  imports Xbox_Cpu_Mem
begin

text \<open>
  Properties of running guest code: a served kernel call receives the arguments its calling
  convention prescribes and returns as a real callee would; a run always ends, within its
  instruction budget, and reports failure exactly with a recorded fault; descriptors of the
  table encode the bases and limits that were asked for.
\<close>

section \<open>What mapping leaves alone\<close>

text \<open>Everything of a processor but the engine's page table and the list of ranges.\<close>

definition same_cpu :: "guest_cpu \<Rightarrow> guest_cpu \<Rightarrow> bool" where
  "same_cpu c c' \<longleftrightarrow> (\<exists>u ms. c' = c\<lparr>gc_uc := u, gc_mapped := ms\<rparr> \<and> map_option ue_regs u = map_option ue_regs (gc_uc c))"

lemma same_cpu_refl: "same_cpu c c"
  unfolding same_cpu_def by (rule exI [of _ "gc_uc c"], rule exI [of _ "gc_mapped c"]) simp

lemma same_cpu_step:
  "same_cpu c d \<Longrightarrow> gc_uc d = Some e \<Longrightarrow> ue_regs e' = ue_regs e \<Longrightarrow> same_cpu c (d\<lparr>gc_uc := Some e', gc_mapped := ms\<rparr>)"
  unfolding same_cpu_def by (rule exI [of _ "Some e'"], rule exI [of _ ms]) auto

lemma same_cpu_trans: "same_cpu a b \<Longrightarrow> same_cpu b c \<Longrightarrow> same_cpu a c"
proof -
  assume "same_cpu a b" "same_cpu b c"
  then obtain u ms where "c = a\<lparr>gc_uc := u, gc_mapped := ms\<rparr>" "map_option ue_regs u = map_option ue_regs (gc_uc a)"
    by (auto simp: same_cpu_def)
  then show ?thesis unfolding same_cpu_def by blast
qed

lemma same_cpu_map: "same_cpu c d \<Longrightarrow> same_cpu c (snd (map_range h r va sz ro d))"
  by (cases "gc_uc d") (auto simp: map_range_def Let_def uc_mem_map_ptr_def intro: same_cpu_step)

lemma same_cpu_unmap: "same_cpu c d \<Longrightarrow> same_cpu c (snd (unmap_range h va sz d))"
  by (cases "gc_uc d") (auto simp: unmap_range_def Let_def uc_mem_unmap_def intro: same_cpu_step)

lemma same_cpu_mirror: "same_cpu c (rt_heap rt i) \<Longrightarrow> same_cpu c (rt_heap (mirror h x rt) i)"
proof -
  have f: "same_cpu c (rt_heap (fold (\<lambda>i. upd_cpu i f) is rt) i)"
    if "\<And>d. same_cpu c d \<Longrightarrow> same_cpu c (f d)" "same_cpu c (rt_heap rt i)" for f "is" rt
    using that(2)
  proof (induction "is" arbitrary: rt)
    case (Cons j js)
    have "same_cpu c (rt_heap (upd_cpu j f rt) i)" using Cons.prems that(1) by (cases "j = i") auto
    then show ?case using Cons.IH by simp
  qed simp
  assume "same_cpu c (rt_heap rt i)"
  then show ?thesis using f [OF same_cpu_map] f [OF same_cpu_unmap]
    by (auto simp: mirror_def map_on_all_def unmap_on_all_def split: prod.splits)
qed

lemma same_cpu_absorb: "same_cpu (rt_heap rt i) (rt_heap (absorb h k rt) i)"
proof -
  have "same_cpu c (rt_heap (fold (mirror h) xs rt) i)" if "same_cpu c (rt_heap rt i)" for c xs rt
    using that by (induction xs arbitrary: rt) (auto intro: same_cpu_mirror)
  then show ?thesis by (simp add: absorb_def same_cpu_refl)
qed

lemma absorb_krnl [simp]: "rt_krnl (absorb h k rt) = k"
proof -
  have "rt_krnl (fold (mirror h) xs rt) = rt_krnl rt" for xs rt by (induction xs arbitrary: rt) auto
  then show ?thesis by (simp add: absorb_def)
qed

lemma same_cpuD:
  assumes "same_cpu c c'"
  shows "reg x c' = reg x c" "gc_fault c' = gc_fault c" "gc_instructions c' = gc_instructions c" "gc_served c' = gc_served c"
    "gc_pending_ordinal c' = gc_pending_ordinal c" "gc_pending_addr c' = gc_pending_addr c" "gc_uc c' = None \<longleftrightarrow> gc_uc c = None"
  using assms by (auto simp: same_cpu_def reg_def split: option.splits)

section \<open>Calling conventions\<close>

text \<open>The reference: argument \<open>j\<close> of a call as the Microsoft conventions place it. On entry to the
  callee \<open>[ESP]\<close> holds the return address and the stack arguments follow from \<open>[ESP + 4]\<close>, one word
  each; a fastcall takes its first two words from \<open>ECX\<close> and \<open>EDX\<close>. A word that cannot be read counts as 0.\<close>

definition abi_arg :: "conv \<Rightarrow> xbe_ram \<Rightarrow> guest_cpu \<Rightarrow> nat \<Rightarrow> u32" where
  "abi_arg cv r c j = (if cv = Fastcall \<and> j = 0 then reg ECX c else if cv = Fastcall \<and> j = 1 then reg EDX c
     else let slot = (if cv = Fastcall then j - 1 else j + 1) in
       case read32 r (reg ESP c + word_of_nat (4 * slot)) of None \<Rightarrow> 0 | Some v \<Rightarrow> v)"

text \<open>The number of argument words and the bytes the callee removes from the stack.\<close>

definition abi_words :: "kexport \<Rightarrow> nat" where
  "abi_words e = (if ex_conv e = Cdecl then 13 else unat (ex_arg_bytes e) div 4)"

definition abi_pop :: "kexport \<Rightarrow> u32" where
  "abi_pop e = (case ex_conv e of Stdcall \<Rightarrow> ex_arg_bytes e | Fastcall \<Rightarrow> if ex_arg_bytes e > 8 then ex_arg_bytes e - 8 else 0 | _ \<Rightarrow> 0)"

lemma exports_args:
  "list_all (\<lambda>e. ex_arg_bytes e \<le> 40 \<and> (ex_conv e = Fastcall \<longrightarrow> ex_arg_bytes e \<in> {4, 8, 12})) kExports"
  unfolding kExports_rows by simp

lemma find_export_args:
  assumes "find_export ordinal = Some e"
  shows "unat (ex_arg_bytes e) \<le> 40" "ex_conv e = Fastcall \<Longrightarrow> ex_arg_bytes e \<in> {4, 8, 12}" "ex_ordinal e = ordinal"
proof -
  have e: "e \<in> set kExports" "ex_ordinal e = ordinal" using assms by (auto simp: find_export_def find_Some_iff)
  then show "unat (ex_arg_bytes e) \<le> 40" "ex_conv e = Fastcall \<Longrightarrow> ex_arg_bytes e \<in> {4, 8, 12}"
    using exports_args by (auto simp: list_all_iff word_le_nat_alt)
  show "ex_ordinal e = ordinal" by (fact e(2))
qed

lemma stack_arg_abi: "stack_arg r (reg ESP c) j = abi_arg Cdecl r c j" "abi_arg Stdcall r c j = abi_arg Cdecl r c j"
  by (simp_all add: stack_arg_def abi_arg_def add.assoc)

lemma hle_args_abi:
  assumes "find_export ordinal = Some e" "ex_conv e \<noteq> Data"
  shows "hle_args e r c = (map (abi_arg (ex_conv e) r c) [0..<abi_words e], abi_pop e)"
proof (cases "ex_conv e")
  case Stdcall
  have "unat (ex_arg_bytes e div 4) = unat (ex_arg_bytes e) div 4" by (simp add: unat_div)
  moreover have "unat (ex_arg_bytes e) div 4 \<le> 14" using find_export_args(1) [OF assms(1)] div_le_mono [of "unat (ex_arg_bytes e)" 40 4] by simp
  ultimately show ?thesis using Stdcall
    by (simp add: hle_args_def Let_def abi_words_def abi_pop_def stack_arg_abi min_absorb2)
next
  case Fastcall
  then have "ex_arg_bytes e \<in> {4, 8, 12}" using find_export_args(2) [OF assms(1)] by blast
  moreover have "[0..<1] = [0 :: nat]" "[0..<2] = [0, 1 :: nat]" "[0..<3] = [0, 1, 2 :: nat]" by code_simp+
  ultimately show ?thesis using Fastcall
    by (elim insertE) (simp_all add: hle_args_def Let_def abi_words_def abi_pop_def abi_arg_def stack_arg_def)
next
  case Cdecl
  then show ?thesis by (simp add: hle_args_def Let_def abi_words_def abi_pop_def stack_arg_abi)
qed (use assms in simp)

section \<open>The virtual return\<close>

lemma reg_write [simp]:
  "gc_uc c \<noteq> None \<Longrightarrow> reg x (uc_reg_write y v c) = (if x = y then v else reg x c)"
  "gc_uc (uc_reg_write y v c) = None \<longleftrightarrow> gc_uc c = None"
  "(\<exists>z. gc_uc (uc_reg_write y v c) = Some z) \<longleftrightarrow> (\<exists>z. gc_uc c = Some z)" "gc_fault (uc_reg_write y v c) = gc_fault c"
  "gc_instructions (uc_reg_write y v c) = gc_instructions c" "gc_pending_ordinal (uc_reg_write y v c) = gc_pending_ordinal c"
  "gc_pending_ret (uc_reg_write y v c) = gc_pending_ret c" "gc_served (uc_reg_write y v c) = gc_served c"
  by (auto simp: uc_reg_write_def reg_def)

lemma reg_pending [simp]:
  "reg x (c\<lparr>gc_pending_ret := a, gc_pending_esp := b\<rparr>) = reg x c"
  by (simp add: reg_def)

lemma virtual_return_regs:
  fixes f :: hle_frame and eax edx :: u32 and r :: xbe_ram
  assumes "gc_uc c \<noteq> None"
  defines "c' \<equiv> virtual_return f eax edx r c" and "ra \<equiv> case read32 r (hf_esp f) of None \<Rightarrow> 0 | Some v \<Rightarrow> v"
  shows "reg x c' = (case x of EAX \<Rightarrow> eax | EDX \<Rightarrow> if returns_64 (hf_ordinal f) then edx else reg EDX c
      | ESP \<Rightarrow> hf_esp f + 4 + hf_stack_bytes f | EIP \<Rightarrow> ra | _ \<Rightarrow> reg x c)"
    "gc_pending_ret c' = ra" "gc_fault c' = gc_fault c" "gc_instructions c' = gc_instructions c" "gc_pending_ordinal c' = gc_pending_ordinal c"
    "gc_uc c' \<noteq> None" "gc_served c' = gc_served c"
  using assms(1) by (auto simp: c'_def ra_def virtual_return_def Let_def split: uc_reg.splits)

text \<open>(C8) A kernel call from guest code. The handler receives exactly the argument words
  that the export's calling convention places in registers and on the guest stack. When it returns
  with success, \<open>EAX\<close> is its result, \<open>EDX\<close> changes only for exports with a 64-bit result, execution goes
  on at the return address found at the old \<open>ESP\<close>, the callee's arguments are popped as the
  convention requires, and no other register changes. When it is refused, the fault names the
  ordinal and the registers are those of the call.\<close>

theorem kernel_call_abi:
  assumes "find_export ordinal = Some e" "ex_conv e \<noteq> Data" "gc_uc (rt_heap rt i) \<noteq> None"
    "call fmt mm ordinal (map (abi_arg (ex_conv e) (rt_ram rt) (rt_heap rt i)) [0..<abi_words e]) (rt_krnl rt) = Ret eax ok edx k"
  shows "\<exists>rt'. handle_hle_call h fmt mm i ordinal rt = Handled rt' \<and> rt_krnl rt' = k \<and>
    (let c = rt_heap rt i; c' = rt_heap rt' i; ra = (case read32 (kr_ram k) (reg ESP c) of None \<Rightarrow> 0 | Some v \<Rightarrow> v) in
     if ok then gc_fault c' = gc_fault c \<and> gc_pending_ret c' = ra \<and>
       (\<forall>x. reg x c' = (case x of EAX \<Rightarrow> eax | EDX \<Rightarrow> if returns_64 ordinal then (case edx of None \<Rightarrow> 0 | Some v \<Rightarrow> v) else reg EDX c
          | ESP \<Rightarrow> reg ESP c + 4 + abi_pop e | EIP \<Rightarrow> ra | _ \<Rightarrow> reg x c))
     else fa_kind (gc_fault c') = UnimplementedImport \<and> fa_ordinal (gc_fault c') = ordinal \<and>
       fa_detail (gc_fault c') = ''kernel import not implemented: '' @ name_of ordinal \<and> (\<forall>x. reg x c' = reg x c))"
proof -
  let ?c = "rt_heap rt i" and ?rt1 = "absorb h k rt"
  let ?f = "\<lparr>hf_ordinal = ordinal, hf_esp = reg ESP ?c, hf_stack_bytes = abi_pop e\<rparr>"
  note sc = same_cpu_absorb [of rt i h k, THEN same_cpuD(1)] same_cpu_absorb [of rt i h k, THEN same_cpuD(2)]
    same_cpu_absorb [of rt i h k, THEN same_cpuD(7)]
  have hc: "handle_hle_call h fmt mm i ordinal rt = hle_finish h i ?f (Ret eax ok edx k) rt"
    using assms(1,2,4) by (simp add: handle_hle_call_def hle_args_abi [OF assms(1,2)])
  show ?thesis
  proof (cases ok)
    case True
    have u: "gc_uc (rt_heap ?rt1 i) \<noteq> None" using sc(3) assms(3) by simp
    show ?thesis unfolding hc using True virtual_return_regs [OF u, where f = ?f and eax = eax and edx = "case edx of None \<Rightarrow> 0 | Some v \<Rightarrow> v" and r = "kr_ram k"] sc(1,2)
      by (auto simp: hle_finish_def Let_def split: uc_reg.splits)
  next
    case False
    have "reg x (import_fault ordinal (rt_heap ?rt1 i)) = reg x ?c" for x
      using sc(1) [of x] by (simp add: import_fault_def reg_def)
    then show ?thesis unfolding hc using False by (auto simp: hle_finish_def Let_def import_fault_def)
  qed
qed

section \<open>Runs end\<close>

text \<open>Guest instructions of a stretch of emulation, without the stops at markers.\<close>

definition executed :: "emu_event list \<Rightarrow> nat" where
  "executed evs = length (filter (\<lambda>ev. case ev of CodeAt a \<Rightarrow> \<not> is_marker (ucast a) | FaultAt _ _ _ \<Rightarrow> False) evs)"

definition at_marker :: "emu_event list \<Rightarrow> bool" where
  "at_marker evs \<longleftrightarrow> (\<exists>a. CodeAt a \<in> set evs \<and> is_marker (ucast a))"

text \<open>The engine executes at most the number of instructions it is given, and guest code comes to a
  marker by executing an instruction.\<close>

definition disciplined :: "uc_host \<Rightarrow> bool" where
  "disciplined h \<longleftrightarrow> (\<forall>e r eip n. let evs = er_events (uh_emu h e r eip n) in
     executed evs \<le> unat n \<and> (at_marker evs \<longrightarrow> 0 < executed evs))"

lemma record_fault_keeps [simp]:
  "gc_instructions (record_fault kd va why eip c) = gc_instructions c" "gc_pending_ordinal (record_fault kd va why eip c) = gc_pending_ordinal c"
  "gc_uc (record_fault kd va why eip c) = gc_uc c"
  by (simp_all add: record_fault_def)

lemma mem_hook_keeps [simp]:
  "gc_instructions (mem_hook ty a eip c) = gc_instructions c" "gc_pending_ordinal (mem_hook ty a eip c) = gc_pending_ordinal c"
  "gc_uc (mem_hook ty a eip c) = gc_uc c"
  by (auto simp: mem_hook_def Let_def split: uc_mem_type.splits)

lemma at_marker_simps [simp]:
  "\<not> at_marker []" "at_marker (ev # evs) \<longleftrightarrow> (case ev of CodeAt a \<Rightarrow> is_marker (ucast a) | FaultAt _ _ _ \<Rightarrow> False) \<or> at_marker evs"
  by (auto simp: at_marker_def split: emu_event.splits)

lemma deliver_effect:
  "gc_instructions (fold deliver evs c) = gc_instructions c + of_nat (executed evs)" "gc_uc (fold deliver evs c) = gc_uc c"
  "\<not> at_marker evs \<Longrightarrow> gc_pending_ordinal (fold deliver evs c) = gc_pending_ordinal c"
proof -
  show "gc_instructions (fold deliver evs c) = gc_instructions c + of_nat (executed evs)" "gc_uc (fold deliver evs c) = gc_uc c"
    by (induction evs arbitrary: c) (auto simp: executed_def deliver_def code_hook_def Let_def split: emu_event.splits)
  show "gc_pending_ordinal (fold deliver evs c) = gc_pending_ordinal c" if "\<not> at_marker evs"
    using that by (induction evs arbitrary: c) (auto simp: deliver_def code_hook_def Let_def split: emu_event.splits)
qed

text \<open>A processor between two rounds: attached, no fault, no call pending, within the budget.\<close>

definition ready :: "u64 \<Rightarrow> guest_cpu \<Rightarrow> bool" where
  "ready mx c \<longleftrightarrow> gc_uc c \<noteq> None \<and> fa_kind (gc_fault c) = NoFault \<and> gc_pending_ordinal c = 0 \<and> gc_instructions c \<le> mx"

text \<open>How a run ends: at the exit address without a fault, or with a recorded fault, or suspended in a kernel call.\<close>

definition settled :: "u64 \<Rightarrow> nat \<Rightarrow> round \<Rightarrow> bool" where
  "settled mx i r = (case r of
     Next _ _ \<Rightarrow> False
   | Return b rt \<Rightarrow> gc_instructions (rt_heap rt i) \<le> mx \<and> (fa_kind (gc_fault (rt_heap rt i)) = NoFault \<longleftrightarrow> b) \<and> (b \<longrightarrow> reg EIP (rt_heap rt i) = kExitVa)
   | Suspend f rt \<Rightarrow> ready mx (rt_heap rt i)
   | Ended rt \<Rightarrow> True
   | Wild \<Rightarrow> True)"

text \<open>After a round the run has ended or goes on with more instructions used.\<close>

definition advances :: "u64 \<Rightarrow> nat \<Rightarrow> u64 \<Rightarrow> round \<Rightarrow> bool" where
  "advances mx i used r = (case r of Next _ rt \<Rightarrow> ready mx (rt_heap rt i) \<and> used \<le> gc_instructions (rt_heap rt i) | _ \<Rightarrow> settled mx i r)"

lemma after_hle_finish:
  assumes "ready mx (rt_heap rt i)" "gc_instructions (rt_heap rt i) = used"
  shows "advances mx i used (after_hle i ordinal (hle_finish h i f out rt))"
proof -
  have sc: "ready mx (rt_heap (absorb h k rt) i) \<and> gc_instructions (rt_heap (absorb h k rt) i) = used" for k
    using same_cpu_absorb [of rt i h k, THEN same_cpuD(2)] same_cpu_absorb [of rt i h k, THEN same_cpuD(3)]
      same_cpu_absorb [of rt i h k, THEN same_cpuD(5)] same_cpu_absorb [of rt i h k, THEN same_cpuD(7)] assms by (simp add: ready_def)
  show ?thesis
  proof (cases out)
    case (Ret eax ok edx k)
    let ?c = "rt_heap (absorb h k rt) i"
    have "gc_uc ?c \<noteq> None" using sc [of k] by (simp add: ready_def)
    note v = virtual_return_regs(3-6) [OF this, where f = f and eax = eax and edx = "case edx of None \<Rightarrow> 0 | Some v \<Rightarrow> v" and r = "kr_ram k"]
    show ?thesis using Ret sc [of k] v
      by (auto simp: hle_finish_def after_hle_def Let_def advances_def settled_def ready_def import_fault_def)
  qed (use sc in \<open>auto simp: hle_finish_def after_hle_def advances_def settled_def\<close>)
qed

lemma after_hle_call:
  assumes "ready mx (rt_heap rt i)" "gc_instructions (rt_heap rt i) = used"
  shows "advances mx i used (after_hle i ordinal (handle_hle_call h fmt mm i ordinal rt))"
proof -
  have "advances mx i used (after_hle i ordinal (Handled (upd_cpu i (import_fault ordinal) rt)))"
    using assms by (simp add: after_hle_def advances_def settled_def import_fault_def ready_def)
  then show ?thesis using after_hle_finish [OF assms] by (auto simp: handle_hle_call_def Let_def split: option.splits prod.splits)
qed

lemma instructions_add:
  fixes used mx :: u64
  assumes "used \<le> mx" "n \<le> unat (mx - used)"
  shows "unat (used + of_nat n) = unat used + n" "used + of_nat n \<le> mx"
proof -
  have d: "unat (mx - used) = unat mx - unat used" "unat used \<le> unat mx" using assms(1) by (simp_all add: unat_diff_le word_le_nat_alt)
  have n: "unat (of_nat n :: u64) = n" using assms(2) unat_lt2p [of "mx - used"] by (intro unat_of_nat_lt) simp
  show u: "unat (used + of_nat n) = unat used + n" using assms(2) d unat_lt2p [of mx] by (subst unat_add_lt) (simp_all add: n)
  show "used + of_nat n \<le> mx" using u assms(2) d by (simp add: word_le_nat_alt)
qed

lemma run_round_advances:
  assumes "disciplined h" "ready mx (rt_heap rt i)"
  defines "used \<equiv> gc_instructions (rt_heap rt i)"
  shows "case run_round h fmt mm i mx eip rt of
      Next _ rt' \<Rightarrow> ready mx (rt_heap rt' i) \<and> unat used < unat (gc_instructions (rt_heap rt' i))
    | r \<Rightarrow> settled mx i r"
proof (cases "used \<ge> mx")
  case True
  then show ?thesis using assms(2) unfolding used_def
    by (simp add: run_round_def Let_def settled_def ready_def budget_fault_def record_fault_def)
next
  case False
  obtain e where e: "gc_uc (rt_heap rt i) = Some e" using assms(2) by (auto simp: ready_def)
  let ?res = "uh_emu h e (rt_ram rt) eip (mx - used)"
  let ?evs = "er_events ?res"
  let ?c = "(fold deliver ?evs (rt_heap rt i))\<lparr>gc_uc := Some (e\<lparr>ue_regs := er_regs ?res\<rparr>)\<rparr>"
  obtain rt1 where em: "emu_start h i eip (mx - used) rt = (er_err ?res, rt1)" and c1: "rt_heap rt1 i = ?c"
    using e by (simp add: emu_start_def Let_def)
  have ex: "executed ?evs \<le> unat (mx - used)" "at_marker ?evs \<Longrightarrow> 0 < executed ?evs"
    using assms(1) unfolding disciplined_def Let_def by blast+
  note ad = instructions_add [OF _ ex(1)]
  have lim: "unat (gc_instructions ?c) = unat used + executed ?evs" "gc_instructions ?c \<le> mx"
    using ad False by (simp_all add: deliver_effect used_def)
  show ?thesis
  proof (cases "fa_kind (gc_fault ?c) = NoFault \<and> er_err ?res = 0 \<and> reg EIP ?c \<noteq> kExitVa \<and> gc_pending_ordinal ?c \<noteq> 0")
    case True
    let ?rt2 = "upd_cpu i (\<lambda>c. c\<lparr>gc_pending_ordinal := 0\<rparr>) rt1"
    have "at_marker ?evs" using True deliver_effect(3) [of ?evs "rt_heap rt i"] assms(2) by (auto simp: ready_def)
    then have more: "unat used < unat (gc_instructions ?c)" using ex(2) lim(1) by simp
    have rd: "ready mx (rt_heap ?rt2 i)" "gc_instructions (rt_heap ?rt2 i) = gc_instructions ?c"
      using True lim(2) by (simp_all add: ready_def c1)
    have "run_round h fmt mm i mx eip rt = after_hle i (gc_pending_ordinal ?c) (handle_hle_call h fmt mm i (gc_pending_ordinal ?c) ?rt2)"
      using True \<open>\<not> used \<ge> mx\<close> em c1 unfolding run_round_def used_def [symmetric] by (simp add: Let_def)
    then show ?thesis using after_hle_call [OF rd, of "gc_pending_ordinal ?c" h fmt mm] more
      by (auto simp: advances_def word_le_nat_alt split: round.splits)
  next
    case False
    have "reg EIP (emu_error why ?c) = reg EIP ?c" for why by (simp add: emu_error_def reg_def)
    then show ?thesis using False \<open>\<not> used \<ge> mx\<close> em c1 lim(2) unfolding run_round_def used_def [symmetric]
      by (auto simp: Let_def settled_def budget_fault_def record_fault_def emu_error_def split: if_splits)
  qed
qed

lemma run_loop_returns:
  assumes "disciplined h"
  shows "ready mx (rt_heap rt i) \<Longrightarrow> unat mx - unat (gc_instructions (rt_heap rt i)) < n \<Longrightarrow>
    \<exists>r. run_loop n h fmt mm i mx eip rt = Some r \<and> settled mx i r"
proof (induction n arbitrary: eip rt)
  case (Suc n)
  note rr = run_round_advances [OF assms Suc.prems(1), of fmt mm eip]
  show ?case
  proof (cases "run_round h fmt mm i mx eip rt")
    case (Next eip' rt')
    then have n: "ready mx (rt_heap rt' i)" "unat (gc_instructions (rt_heap rt i)) < unat (gc_instructions (rt_heap rt' i))" using rr by auto
    moreover have "unat (gc_instructions (rt_heap rt' i)) \<le> unat mx" using n(1) by (simp add: ready_def word_le_nat_alt)
    ultimately show ?thesis using Suc.IH [of rt' eip'] Suc.prems(2) Next by simp
  qed (use rr in auto)
qed simp


text \<open>An engine that executes one instruction and leaves the guest at the exit address.\<close>

definition exit_uc :: uc_host where
  "exit_uc = demo_uc\<lparr>uh_emu := (\<lambda>e r eip n. \<lparr>er_events = (if n = 0 then [] else [CodeAt 0x11000]),
     er_regs = (ue_regs e)(EIP := kExitVa), er_mem = xr_mem r, er_err = 0\<rparr>)\<rparr>"

lemma exit_uc_disciplined: "disciplined exit_uc"
proof -
  have "\<not> is_marker 0x11000" by (simp add: is_marker_def kHleMarker_def kPage_def)
  then show ?thesis by (auto simp: disciplined_def exit_uc_def executed_def at_marker_def Let_def Suc_le_eq unat_gt_0)
qed


text \<open>\<open>DbgPrint\<close> (ordinal 8) called by the only processor of \<open>demo_rt\<close>.\<close>

theorem kernel_call_abi_witness:
  "\<exists>rt' eax ok edx k. handle_hle_call demo_uc (\<lambda>_ _. []) (\<lambda>_. None) 0 8 demo_rt = Handled rt' \<and>
     call (\<lambda>_ _. []) (\<lambda>_. None) 8 (map (abi_arg Cdecl (rt_ram demo_rt) (rt_heap demo_rt 0)) [0..<13]) (rt_krnl demo_rt) = Ret eax ok edx k \<and>
     rt_krnl rt' = k"
proof -
  obtain e where e: "find_export 8 = Some e" "ex_conv e = Cdecl"
    using find_export_member [of "export_row 8 ''DbgPrint'' Cdecl 0"] by (auto simp: kExports_rows)
  have w: "abi_words e = 13" by (simp add: abi_words_def e)
  let ?args = "map (abi_arg Cdecl (rt_ram demo_rt) (rt_heap demo_rt 0)) [0..<13]"
  obtain eax ok edx k where c: "call (\<lambda>_ _. []) (\<lambda>_. None) 8 ?args (rt_krnl demo_rt) = Ret eax ok edx k"
    using e by (auto simp: call_def handlers_def need_def DbgPrint_def ret_def reject_def Let_def split: if_splits)
  have u: "gc_uc (rt_heap demo_rt 0) \<noteq> None" by (simp add: demo_rt_def)
  from kernel_call_abi [OF e(1) _ u, of "\<lambda>_ _. []" "\<lambda>_. None" eax ok edx k demo_uc] c w e(2) show ?thesis by auto
qed

section \<open>Segment descriptors\<close>

text \<open>What the processor reads from a descriptor: the base, the limit and the flags.\<close>

definition desc_base :: "u8 list \<Rightarrow> u32" where
  "desc_base d = le_word [d ! 2, d ! 3, d ! 4, d ! 7]"

definition desc_limit :: "u8 list \<Rightarrow> u32" where
  "desc_limit d = le_word [d ! 0, d ! 1, d ! 6 AND 0x0F]"

text \<open>The access byte, the flags nibble, and the number of bytes the segment spans: the limit counts
  4 KiB pages when the granularity bit (bit 7 of byte 6) is set and bytes otherwise.\<close>

definition desc_access :: "u8 list \<Rightarrow> u8" where
  "desc_access d = d ! 5"

definition desc_flags :: "u8 list \<Rightarrow> u8" where
  "desc_flags d = drop_bit 4 (d ! 6)"

definition desc_span :: "u8 list \<Rightarrow> nat" where
  "desc_span d = (if bit (d ! 6) 7 then 4096 * Suc (unat (desc_limit d)) else Suc (unat (desc_limit d)))"

lemma low_bits: "x AND 0xFF = take_bit 8 (x :: 'a::len word)" "x AND 0x0F = take_bit 4 x"
  by (simp_all add: take_bit_eq_mask mask_eq_exp_minus_1)

lemma byte_mask: "ucast (x AND 0xFF :: u32) = (ucast x :: u8)"
  unfolding low_bits by (rule bit_word_eqI) (auto simp: bit_simps)

lemma desc_fields:
  "desc_base (put_desc base limit access flags) = base"
  "limit < 0x100000 \<Longrightarrow> desc_limit (put_desc base limit access flags) = limit"
  "put_desc base limit access flags ! 5 = access" "drop_bit 4 (put_desc base limit access flags ! 6) = flags AND 0x0F"
proof -
  have "desc_base (put_desc base limit access flags) = le_word (le_bytes 4 base)"
    by (simp add: desc_base_def put_desc_def byte_mask numeral_eq_Suc drop_bit_drop_bit)
  then show "desc_base (put_desc base limit access flags) = base" by (simp add: byte_simps)
  show "put_desc base limit access flags ! 5 = access" by (simp add: put_desc_def)
  show "drop_bit 4 (put_desc base limit access flags ! 6) = flags AND 0x0F"
    by (rule bit_word_eqI) (auto simp: put_desc_def low_bits bit_simps)
  assume l: "limit < 0x100000"
  have hi: "\<not> bit limit n" if "20 \<le> n" for n
  proof -
    have "unat (take_bit 20 limit) = unat limit" using l by (simp add: unsigned_take_bit_eq take_bit_nat_eq_self word_less_nat_alt)
    then have "take_bit 20 limit = limit" by (rule unsigned_word_eqI)
    then show ?thesis using that by (metis bit_take_bit_iff not_le)
  qed
  have "(put_desc base limit access flags ! 6) AND 0x0F = ucast (drop_bit 16 limit)"
    using hi by (intro bit_word_eqI) (auto simp: put_desc_def low_bits bit_simps not_less)
  moreover have "put_desc base limit access flags ! 0 = ucast limit" "put_desc base limit access flags ! 1 = ucast (drop_bit 8 limit)"
    by (simp_all add: put_desc_def byte_mask)
  moreover have "le_bytes 3 limit = [ucast limit, ucast (drop_bit 8 limit), ucast (drop_bit 16 limit)]"
    by (simp add: numeral_3_eq_3 drop_bit_drop_bit)
  ultimately have "desc_limit (put_desc base limit access flags) = le_word (le_bytes 3 limit)" by (simp only: desc_limit_def)
  also have "\<dots> = take_bit 24 limit" by (simp add: le_word_le_bytes)
  also have "\<dots> = limit"
  proof (rule bit_word_eqI)
    fix n show "bit (take_bit 24 limit) n \<longleftrightarrow> bit limit n" using hi [of n] by (cases "n < 20") (auto simp: bit_simps)
  qed
  finally show "desc_limit (put_desc base limit access flags) = limit" .
qed

lemma desc_fields_span:
  "limit < 0x100000 \<Longrightarrow> desc_span (put_desc base limit access flags) = (if bit flags 3 then 4096 else 1) * Suc (unat limit)"
  "desc_access (put_desc base limit access flags) = access" "desc_flags (put_desc base limit access flags) = flags AND 0x0F"
proof -
  have "bit (put_desc base limit access flags ! 6) 7 = bit (desc_flags (put_desc base limit access flags)) 3"
    by (simp add: desc_flags_def bit_simps)
  also have "\<dots> = bit flags 3" unfolding desc_flags_def desc_fields(4) by (simp add: low_bits bit_simps)
  finally show "desc_span (put_desc base limit access flags) = (if bit flags 3 then 4096 else 1) * Suc (unat limit)" if "limit < 0x100000"
    using that by (simp add: desc_span_def desc_fields(2))
qed (simp_all add: desc_access_def desc_flags_def desc_fields)

lemma gdt_descriptors:
  "take 8 (drop 24 (gc_gdt_buf (build_gdt c))) = put_desc (gc_teb_va c) 0xFFF 0x92 0x4"
  "take 8 (drop 8 (gc_gdt_buf (build_gdt c))) = put_desc 0 0xFFFFF 0x9A 0xC"
  "take 8 (drop 16 (gc_gdt_buf (build_gdt c))) = put_desc 0 0xFFFFF 0x92 0xC"
  by (simp_all add: build_gdt_def put_desc_def)

lemma map_all_keeps: "map_all h r rs c = (Okay, c') \<Longrightarrow> same_cpu c c'"
proof (induction rs arbitrary: c)
  case (Cons x rs)
  obtain va sz ro where x: "x = (va, sz, ro)" by (cases x)
  obtain st d where d: "map_range h r va sz ro c = (st, d)" by fastforce
  have "same_cpu c d" using same_cpu_map [OF same_cpu_refl, of c h r va sz ro] d by simp
  moreover have "same_cpu d c'" using Cons d by (auto simp: x split: if_splits)
  ultimately show ?case by (rule same_cpu_trans)
qed (simp add: same_cpu_refl)

text \<open>(C27) On an attached processor the segment registers select descriptors that the
  processor decodes to what the guest needs: a code segment (access \<open>0x9A\<close>: present, ring 0,
  executable and readable) and a data segment (access \<open>0x92\<close>: present, ring 0, writable), both with
  base 0, the 32-bit and granularity flags (\<open>0xC\<close>) and a span of all 4 GiB, and a 32-bit writable \<open>FS\<close> data
  segment whose base is the thread environment block and which spans exactly one page of bytes. The
  descriptor table register covers exactly the four descriptors.\<close>

theorem fs_base_is_teb:
  assumes "attach_cpu h r c = (Okay, c')"
  defines "desc \<equiv> \<lambda>sel. take 8 (drop (unat sel) (gc_gdt_buf c'))"
  shows "desc_base (desc (reg FS c')) = gc_teb_va c \<and> desc_span (desc (reg FS c')) = 4096 \<and>
      desc_access (desc (reg FS c')) = 0x92 \<and> desc_flags (desc (reg FS c')) = 0x4 \<and>
    desc_base (desc (reg CS c')) = 0 \<and> desc_span (desc (reg CS c')) = 2 ^ 32 \<and>
      desc_access (desc (reg CS c')) = 0x9A \<and> desc_flags (desc (reg CS c')) = 0xC \<and>
    desc_base (desc (reg DS c')) = 0 \<and> desc_span (desc (reg DS c')) = 2 ^ 32 \<and>
      desc_access (desc (reg DS c')) = 0x92 \<and> desc_flags (desc (reg DS c')) = 0xC \<and>
    reg SS c' = reg DS c' \<and> reg ES c' = reg DS c' \<and> map_option ue_gdtr (gc_uc c') = Some (kGdtVa, 31)"
proof -
  from assms(1) obtain e c1 c2 where at: "map_all h r (class_ranges (unat (of_nat (xr_size r) :: u32) div 4096 + 1) r (of_nat (xr_size r)) 0) (c\<lparr>gc_uc := Some e\<rparr>) = (Okay, c1)"
      "map_service_pages h (c1\<lparr>gc_stub_buf := replicate 4096 0xC3, gc_gdt_buf := replicate 4096 0\<rparr>) = (True, c2)"
      "c' = load_selectors (build_gdt c2)"
    by (auto simp: attach_cpu_def Let_def attach_ranges_eq simp del: class_ranges.simps split: option.splits prod.splits if_splits)
  have "gc_teb_va c1 = gc_teb_va c" using map_all_keeps [OF at(1)] by (auto simp: same_cpu_def)
  moreover have "gc_teb_va c2 = gc_teb_va c1" "gc_uc c2 \<noteq> None"
    using at(2) by (auto simp: map_service_pages_def split: option.splits prod.splits if_splits)
  moreover have "gc_gdt_buf c' = gc_gdt_buf (build_gdt c2)" by (simp add: at(3) load_selectors_def uc_reg_write_def)
  moreover have "reg FS c' = 0x18" "reg CS c' = 8" "reg DS c' = 0x10" "reg SS c' = 0x10" "reg ES c' = 0x10" "map_option ue_gdtr (gc_uc c') = Some (kGdtVa, 31)"
    using calculation(3) by (auto simp: at(3) reg_def load_selectors_uc kSelFs_def kSelCs_def kSelDs_def)
  ultimately show ?thesis by (simp add: desc_def gdt_descriptors desc_fields desc_fields_span bit_numeral_rec)
qed

theorem fs_base_is_teb_witness:
  "\<exists>c'. attach_cpu demo_uc mixed_ram (set_teb 0x3000 GuestCpu) = (Okay, c') \<and>
     desc_base (take 8 (drop (unat (reg FS c')) (gc_gdt_buf c'))) = 0x3000 \<and>
     desc_span (take 8 (drop (unat (reg CS c')) (gc_gdt_buf c'))) = 2 ^ 32"
proof -
  obtain e0 where e0: "uh_open demo_uc = Some e0" "ue_pages e0 = Map.empty" "uh_hooks demo_uc" by (simp add: demo_uc_def)
  from attach_cpu_pages [OF demo_uc_honest mixed_ram_facts(1) e0(1,2), of "set_teb 0x3000 GuestCpu"] e0(3)
  obtain c' where a: "attach_cpu demo_uc mixed_ram (set_teb 0x3000 GuestCpu) = (Okay, c')" by (auto simp: set_teb_def GuestCpu_def)
  from fs_base_is_teb [OF this] a show ?thesis by (simp add: set_teb_def)
qed

end
