(* ===== verification/Guest_Boot.thy ===== *)
theory Guest_Boot
  imports Krnl_Thunks Krnl_Host Xbox_Cpu_Props
begin

text \<open>
  The guest run of \<open>src/src/main.cpp\<close>: over a loaded image it builds a scheduler, a kernel, a runtime and
  one processor, and runs the entry point of the title on the host's stack, outside of every fiber. The
  processor is number 0 of the runtime.
\<close>

section \<open>Model\<close>

text \<open>How the block ends: a host fault in one of the steps before the run, the message about a failed
  attachment, or the run. The stack address is passed on untested.\<close>

datatype verdict = HostFault | NotRun status runtime | Ran round

definition guest_setup :: "uc_host \<Rightarrow> loaded_xbe \<Rightarrow> (status \<times> runtime) option" where
  "guest_setup h lx =
     (case install_thunks (lx_image lx) (XboxKrnl (lx_ram lx) GuestScheduler) of
        None \<Rightarrow> None
      | Some k \<Rightarrow> (case set_image (lx_image lx) (UnicornRuntime k) of
            None \<Rightarrow> None
          | Some (_, rt) \<Rightarrow> (case build_teb h rt of
                None \<Rightarrow> None
              | Some (teb, rt1) \<Rightarrow> Some (attach h 0 (upd_cpu 0 (set_teb teb) rt1)))))"

definition guest_run ::
  "nat \<Rightarrow> uc_host \<Rightarrow> (u8 list \<Rightarrow> u32 \<Rightarrow> u8 list) \<Rightarrow> (u64 \<Rightarrow> u64 option) \<Rightarrow> loaded_xbe \<Rightarrow> verdict option" where
  "guest_run n h fmt mm lx =
     (case guest_setup h lx of
        None \<Rightarrow> Some HostFault
      | Some (st, rt) \<Rightarrow>
          if st = Okay \<and> has_tls_template rt
          then (case alloc_stack h 0x40000 rt of
              None \<Rightarrow> Some HostFault
            | Some ((stack, _), rt1) \<Rightarrow> map_option Ran (run n h fmt mm 0 (xi_entry_va (lx_image lx)) stack 2000000 rt1))
          else Some (NotRun st rt))"

section \<open>Runs outside of fibers\<close>

lemma host_call_returns:
  assumes "kr_inv k" "idle n k" "n + 2 < 2 ^ 64" "\<forall>x. mm x \<noteq> None"
  shows "\<exists>v b e k'. call fmt mm ordinal args k = Ret v b e k' \<and> kr_inv k' \<and> idle (Suc n) k'"
proof -
  have "length (gs_threads (kr_sched k)) + 2 < 2 ^ 64" using assms(2,3) by (simp add: idle_def)
  from call_safe_inv [OF assms(1,4) this, of fmt ordinal args] host_call_prompt [OF assms(2), of fmt mm ordinal args]
  show ?thesis by (cases "call fmt mm ordinal args k") auto
qed

text \<open>A round of the run loop returns or goes on in the host's context.\<close>

lemma host_round:
  assumes "kr_inv (rt_krnl rt)" "idle n (rt_krnl rt)" "n + 2 < 2 ^ 64" "\<forall>x. mm x \<noteq> None"
  shows "case run_round h fmt mm i mx eip rt of
      Next _ rt' \<Rightarrow> kr_inv (rt_krnl rt') \<and> idle (Suc n) (rt_krnl rt') | Return b rt' \<Rightarrow> True | _ \<Rightarrow> False"
proof -
  obtain err rt1 where em: "emu_start h i eip (mx - gc_instructions (rt_heap rt i)) rt = (err, rt1)" by fastforce
  have "\<exists>m. rt_krnl rt1 = (rt_krnl rt)\<lparr>kr_ram := (rt_ram rt)\<lparr>xr_mem := m\<rparr>\<rparr>"
    using em by (auto simp: emu_start_def Let_def upd_ram_def split: option.splits intro: exI [of _ "xr_mem (rt_ram rt)"])
  then have k1: "kr_inv (rt_krnl rt1)" "idle n (rt_krnl rt1)" using kr_inv_mem [OF assms(1)] assms(2) by (auto simp: idle_simps)
  let ?rt2 = "upd_cpu i (\<lambda>c. c\<lparr>gc_pending_ordinal := 0\<rparr>) rt1"
  have "case after_hle i ord (handle_hle_call h fmt mm i ord ?rt2) of
      Next _ rt' \<Rightarrow> kr_inv (rt_krnl rt') \<and> idle (Suc n) (rt_krnl rt') | Return b rt' \<Rightarrow> True | _ \<Rightarrow> False" for ord
  proof -
    have k2: "kr_inv (rt_krnl ?rt2)" "idle (Suc n) (rt_krnl ?rt2)" using k1 idle_mono [of n _ "Suc n"] by simp_all
    have "case after_hle i ord (hle_finish h i f (call fmt mm ord args (rt_krnl ?rt2)) ?rt2) of
      Next _ rt' \<Rightarrow> kr_inv (rt_krnl rt') \<and> idle (Suc n) (rt_krnl rt') | Return b rt' \<Rightarrow> True | _ \<Rightarrow> False" for f args
      using host_call_returns [OF k1 assms(3,4), of fmt ord args] by (auto simp: hle_finish_def after_hle_def Let_def)
    moreover have "case after_hle i ord (Handled (upd_cpu i (import_fault ord) ?rt2)) of
      Next _ rt' \<Rightarrow> kr_inv (rt_krnl rt') \<and> idle (Suc n) (rt_krnl rt') | Return b rt' \<Rightarrow> True | _ \<Rightarrow> False"
      using k2 by (simp add: after_hle_def Let_def)
    ultimately show ?thesis by (auto simp: handle_hle_call_def Let_def case_prod_unfold split: option.splits)
  qed
  then show ?thesis unfolding run_round_def Let_def em prod.case by (auto split: if_splits)
qed

lemma host_loop:
  assumes "\<forall>x. mm x \<noteq> None"
  shows "run_loop m h fmt mm i mx eip rt = Some r \<Longrightarrow> kr_inv (rt_krnl rt) \<Longrightarrow> idle n (rt_krnl rt) \<Longrightarrow> n + m + 1 < 2 ^ 64 \<Longrightarrow>
    \<exists>b rt'. r = Return b rt'"
proof (induction m arbitrary: n eip rt)
  case (Suc m)
  note rr = host_round [OF Suc.prems(2,3) _ assms, of h fmt i mx eip]
  show ?case
  proof (cases "run_round h fmt mm i mx eip rt")
    case (Next eip' rt')
    then show ?thesis using rr Suc.prems(1,4) by (intro Suc.IH [of eip' rt' "Suc n"]) auto
  next
    case (Return b rt')
    then show ?thesis using Suc.prems(1) by (intro exI [of _ b] exI [of _ rt']) simp
  qed (use rr Suc.prems in auto)
qed simp

section \<open>Setting up\<close>

lemma install_fields:
  assumes "install_thunks img k = Some k'"
  shows "kr_mem_allocs k' = []" "kr_kernel_data_va k' = data_page (kr_ram k)" "kr_mm_hi k' = data_page (kr_ram k)" "kr_sched k' = kr_sched k"
    "kr_mm_lo k' = min ((xi_image_end_abs img + 4096 - 1) AND NOT (4096 - 1)) (data_page (kr_ram k))"
  using assms by (auto simp: install_thunks_def Let_def clear_registries_def refresh_data_def poke32_def data_page_def min_def
      split: if_splits prod.splits option.splits)

lemma kr_inv_commit: "kr_inv k \<Longrightarrow> kr_inv (k\<lparr>kr_ram := snd (commit a n (kr_ram k))\<rparr>)"
proof -
  assume inv: "kr_inv k"
  let ?r = "kr_ram k" and ?r' = "snd (commit a n (kr_ram k))"
  have mm: "mm_inv k" "ram_wf ?r" "xr_base ?r" "\<forall>p. xr_mprotect ?r p" using inv by (simp_all add: kr_inv_def mm_inv_def)
  obtain b r' where c: "commit a n ?r = (b, r')" by fastforce
  have acc: "page_access r' p = ReadOnly \<longleftrightarrow> page_access ?r p = ReadOnly" "page_access ?r p \<noteq> NoAccess \<Longrightarrow> page_access r' p \<noteq> NoAccess" for p
  proof -
    have "page_access r' p = page_access ?r p \<or> page_access ?r p = NoAccess \<and> page_access r' p = ReadWrite"
    proof (cases "range_ok ?r a n")
      case True
      then have b using commit_total [OF mm(3) _ mm(4), of a n] c by simp
      then show ?thesis using commit_wf [OF mm(2) c] by simp
    qed (use c in \<open>auto simp: commit_def\<close>)
    then show "page_access r' p = ReadOnly \<longleftrightarrow> page_access ?r p = ReadOnly" "page_access ?r p \<noteq> NoAccess \<Longrightarrow> page_access r' p \<noteq> NoAccess" by auto
  qed
  have f: "ram_wf r'" "xr_base r'" "xr_size r' = xr_size ?r" "xr_page_size r' = xr_page_size ?r" using commit_wf [OF mm(2) c] mm(3) by simp_all
  have "xr_mprotect r' = xr_mprotect ?r" using page_ops_mprotect(1) [of a n ?r] c by simp
  moreover have "page_list r' = page_list ?r" using f(4) by (rule page_list_cong)
  ultimately have "mm_inv (k\<lparr>kr_ram := r'\<rparr>)"
    using mm(1) f acc by (auto simp: mm_inv_def pool_block_def block_pages_def)
  moreover have "reg_inv (k\<lparr>kr_ram := r'\<rparr>) = reg_inv k" by (simp add: reg_inv_def registered_def live_objects_def)
  ultimately show ?thesis using inv c by (simp add: kr_inv_def)
qed

text \<open>The state of the kernel and of the allocator between the steps: the pool is empty, and \<open>n\<close> bytes
  below the cursor belong to it.\<close>

definition setup_inv :: "nat \<Rightarrow> runtime \<Rightarrow> bool" where
  "setup_inv n rt \<longleftrightarrow> kr_inv (rt_krnl rt) \<and> idle 0 (rt_krnl rt) \<and> kr_mem_allocs (rt_krnl rt) = [] \<and> 4096 dvd unat (rt_top rt) \<and>
     rt_top rt \<le> kr_mm_hi (rt_krnl rt) \<and> unat (kr_mm_lo (rt_krnl rt)) + n \<le> unat (rt_top rt)"

lemma page_round_dvd: "4096 dvd unat (page_round v)"
  by (simp add: page_round_def unat_floor)

lemma setup_inv_mem: "setup_inv n rt \<Longrightarrow> setup_inv n (upd_ram (\<lambda>r. r\<lparr>xr_mem := f r\<rparr>) rt)"
  by (auto simp: setup_inv_def upd_ram_def idle_simps intro: kr_inv_mem)

lemma setup_inv_mono: "setup_inv n rt \<Longrightarrow> m \<le> n \<Longrightarrow> setup_inv m rt"
  by (simp add: setup_inv_def)

lemma alloc_pages_setup:
  assumes inv: "setup_inv n rt" and sz: "unat (page_round bytes) + m \<le> n"
  shows "\<exists>b rt'. alloc_pages h bytes rt = Some (b, rt') \<and> setup_inv m rt' \<and> rt_tls_raw rt' = rt_tls_raw rt \<and>
    (\<forall>i. gc_uc (rt_heap rt' i) = None \<longleftrightarrow> gc_uc (rt_heap rt i) = None)"
proof -
  let ?k = "rt_krnl rt" and ?sz = "page_round bytes" let ?b = "rt_top rt - ?sz"
  have mm: "kr_inv ?k" "mm_inv ?k" "ram_wf (rt_ram rt)" "xr_page_size (rt_ram rt) = 4096"
    using inv by (auto simp: setup_inv_def kr_inv_def mm_inv_def)
  obtain ok r where c: "commit ?b ?sz (rt_ram rt) = (ok, r)" by fastforce
  let ?rt1 = "upd_ram (\<lambda>_. r) rt"
  have i1: "setup_inv n ?rt1" using inv kr_inv_commit [OF mm(1), of ?b ?sz] c by (simp add: setup_inv_def upd_ram_def idle_simps)
  have le: "?sz \<le> rt_top rt" using inv sz by (simp add: setup_inv_def word_le_nat_alt)
  then have b: "unat ?b = unat (rt_top rt) - unat ?sz" by (rule unat_diff_le)
  then have al: "4096 dvd unat ?b" using inv page_round_dvd [of bytes] by (simp add: setup_inv_def dvd_diff_nat)
  have wr: "writable r ?b ?sz" if ok
  proof -
    note w = commit_wf [OF mm(3) c]
    have rng: "range_ok (rt_ram rt) ?b ?sz" using w that by simp
    have "page_access r p = ReadWrite" if p: "p \<in> set (page_list (rt_ram rt) ?b ?sz)" for p
    proof -
      have "unat ?b div 4096 \<le> p" "4096 * p < unat ?b + unat ?sz" using pages_of [OF mm(3,4) rng] p by simp_all
      then have "unat ?b \<le> 4096 * p" "4096 * p < unat (rt_top rt)" using al b le by (auto elim!: dvdE simp: word_le_nat_alt)
      then have "unat (kr_mm_lo ?k) \<le> 4096 * p" "4096 * p < unat (kr_mm_hi ?k)" using inv sz b by (auto simp: setup_inv_def word_le_nat_alt)
      then have "page_access (rt_ram rt) p \<noteq> ReadOnly" using inv by (auto simp: setup_inv_def kr_inv_def mm_inv_def)
      then show ?thesis using w \<open>ok\<close> p by (cases "page_access (rt_ram rt) p") auto
    qed
    then show ?thesis using w that rng page_list_cong [of r "rt_ram rt"] mm by (simp add: writable_access mm_inv_def range_ok_def)
  qed
  let ?rt2 = "upd_ram (\<lambda>r. r\<lparr>xr_mem := store_bytes ?b (replicate (unat ?sz) 0) (xr_mem r)\<rparr>) (?rt1\<lparr>rt_top := ?b\<rparr>)"
  have "setup_inv m (?rt1\<lparr>rt_top := ?b\<rparr>)" using i1 al b sz le by (auto simp: setup_inv_def word_le_nat_alt upd_ram_def)
  then have i2: "setup_inv m ?rt2" by (rule setup_inv_mem)
  have uc: "gc_uc (rt_heap (map_on_all h ?b ?sz False ?rt2) i) = None \<longleftrightarrow> gc_uc (rt_heap rt i) = None" for i
    using same_cpu_mirror [OF same_cpu_refl, of ?rt2 i h "(False, ?b, ?sz, False)", THEN same_cpuD(7)] by (simp add: mirror_def upd_ram_def)
  have tls: "rt_tls_raw (map_on_all h va s ro x) = rt_tls_raw x" for va s ro x
  proof -
    have "rt_tls_raw (fold (\<lambda>i. upd_cpu i f) is x) = rt_tls_raw x" for f "is" x by (induction "is" arbitrary: x) (simp_all add: upd_cpu_def)
    then show ?thesis by (simp add: map_on_all_def)
  qed
  have i3: "setup_inv m (map_on_all h ?b ?sz False ?rt2)" using i2 by (simp add: setup_inv_def)
  have "alloc_pages h bytes rt \<in> {Some (0, rt), Some (0, ?rt1), Some (?b, map_on_all h ?b ?sz False ?rt2)}"
    using wr by (cases ok) (simp_all add: alloc_pages_def Let_def c)
  then consider "alloc_pages h bytes rt = Some (0, rt)" | "alloc_pages h bytes rt = Some (0, ?rt1)"
    | "alloc_pages h bytes rt = Some (?b, map_on_all h ?b ?sz False ?rt2)" by blast
  then show ?thesis
    using inv i1 i3 uc tls sz setup_inv_mono [of n _ m] by cases (auto simp: upd_ram_def)
qed

text \<open>An image that can be booted: its window is fresh and leaves five megabytes above the image, and its
  thread-local data, if any, has at most four.\<close>

definition bootable :: "loaded_xbe \<Rightarrow> bool" where
  "bootable lx \<longleftrightarrow> window_fresh (lx_ram lx) (unat (xi_image_end_abs (lx_image lx))) \<and>
     unat (xi_image_end_abs (lx_image lx)) + 0x500000 \<le> xr_size (lx_ram lx) \<and>
     (xi_tls_present (lx_image lx) \<longrightarrow> unat (tls_raw_size (xi_tls (lx_image lx))) + unat (t_zero_fill (xi_tls (lx_image lx))) \<le> 0x400000)"

lemma booted_runtime:
  assumes "bootable lx"
  shows "\<exists>k. install_thunks (lx_image lx) (XboxKrnl (lx_ram lx) GuestScheduler) = Some k \<and> setup_inv 0x4FD000 (UnicornRuntime k)"
proof -
  let ?img = "lx_image lx" and ?k0 = "XboxKrnl (lx_ram lx) GuestScheduler" let ?e = "unat (xi_image_end_abs ?img)" let ?kd = "data_page (lx_ram lx)"
  have f: "window_fresh (lx_ram lx) ?e" "?e + 0x500000 \<le> xr_size (lx_ram lx)" using assms by (simp_all add: bootable_def)
  have r0: "kr_ram ?k0 = lx_ram lx" "gs_current (kr_sched ?k0) = None" "gs_threads (kr_sched ?k0) = []"
    by (simp_all add: XboxKrnl_def add_finish_hook_def GuestScheduler_def)
  have "sch_inv GuestScheduler" using sched_wf_init by (simp add: sch_inv_def GuestScheduler_def)
  then have "sch_inv (kr_sched ?k0)" by (auto simp: XboxKrnl_def sch_inv_def add_finish_hook_def intro: sched_wf_frame)
  then obtain k where k: "install_thunks ?img ?k0 = Some k" "kr_inv k" using boot_inv [of ?k0 ?img] f(1) r0(1) by auto
  note fl = install_fields [OF k(1), unfolded r0(1)]
  note dp = data_page_range [OF fresh_boot_window [OF f(1)]]
  have "unat ((xi_image_end_abs ?img + 4096 - 1) AND NOT (4096 - 1)) \<le> ?e + 4095"
  proof -
    have "unat ((xi_image_end_abs ?img + 4096 - 1) AND NOT (4096 - 1)) = unat (xi_image_end_abs ?img + 4096 - 1) div 4096 * 4096"
      using unat_page_floor [of "4096 :: u32" 12 "xi_image_end_abs ?img + 4096 - 1"] by simp
    also have "\<dots> \<le> unat (xi_image_end_abs ?img + 4095)" by (simp add: algebra_simps)
    also have "\<dots> = ?e + 4095" using f(2) dp(1,3) by (subst unat_add_lt) simp_all
    finally show ?thesis .
  qed
  moreover have "unat (min a b) \<le> unat a" for a b :: u32 by (simp add: word_le_nat_alt [symmetric])
  ultimately have "unat (kr_mm_lo k) \<le> ?e + 4095" unfolding fl(5) by (meson le_trans)
  then have lo: "unat (kr_mm_lo k) + 0x4FD000 \<le> unat ?kd" using f(2) dp(1) by simp
  have kd: "?kd \<noteq> 0" using lo by auto
  have "kr_inv (k\<lparr>kr_mem_obs := True, kr_thread_runner := True\<rparr>)" by (rule kr_inv_cong [OF k(2)]) (use kr_inv_sch [OF k(2)] in simp_all)
  then have "setup_inv 0x4FD000 (UnicornRuntime k)"
    using lo fl kd r0 dp(5) by (simp add: setup_inv_def UnicornRuntime_def idle_def)
  with k(1) show ?thesis by blast
qed

lemma set_image_setup:
  assumes "setup_inv n rt" "xi_tls_present img \<longrightarrow> unat (tls_raw_size (xi_tls img)) + unat (t_zero_fill (xi_tls img)) \<le> 0x400000" "rt_tls_raw rt = []"
  shows "\<exists>st rt'. set_image img rt = Some (st, rt') \<and> setup_inv n rt' \<and> length (rt_tls_raw rt') \<le> 0x400000 \<and> rt_heap rt' = rt_heap rt"
proof (cases "xi_tls_present img")
  case True
  let ?t = "xi_tls img" and ?lx = "\<lparr>lx_image = img, lx_ram = rt_ram rt\<rparr>"
  have sum: "unat (tls_raw_size ?t + t_zero_fill ?t) = unat (tls_raw_size ?t) + unat (t_zero_fill ?t)"
    using assms(2) True by (intro unat_add_lt) simp
  then have "tls_raw_size ?t \<le> tls_raw_size ?t + t_zero_fill ?t" by (simp add: word_le_nat_alt)
  then have "tls_template ?lx \<noteq> None" by (simp add: tls_template_def Let_def True split: option.splits)
  then obtain raw where raw: "tls_template ?lx = Some raw" by blast
  then have len: "length raw \<le> 0x400000"
    using sum assms(2) True by (auto simp: tls_template_def Let_def read_bytes_def split: option.splits if_splits)
  obtain m where m: "lx_ram (snd (write_tls_index 0 ?lx)) = (rt_ram rt)\<lparr>xr_mem := m\<rparr>"
    using write_bytes_mem [of "t_index_addr ?t" "le_bytes 4 (0 :: u32)" "rt_ram rt"]
    by (auto simp: write_tls_index_def True write32_def case_prod_unfold)
  let ?rt1 = "rt\<lparr>rt_tls_raw := raw, rt_tls_zerofill := t_zero_fill ?t, rt_tls_index_written := 0\<rparr>"
  have "setup_inv n ?rt1" using assms(1) by (simp add: setup_inv_def)
  from setup_inv_mem [OF this, of "\<lambda>_. m"] have "setup_inv n (upd_ram (\<lambda>_. (rt_ram rt)\<lparr>xr_mem := m\<rparr>) ?rt1)" by (simp add: upd_ram_def)
  then show ?thesis using raw len m True by (auto simp: set_image_def Let_def upd_ram_def)
qed (use assms in \<open>simp add: set_image_def\<close>)

lemma page_round_le: "unat v + 4095 < 2 ^ 32 \<Longrightarrow> unat (page_round v) \<le> unat v + 4095"
  by (simp add: unat_page_round)

lemma build_teb_setup:
  assumes "setup_inv 0x4FD000 rt" "length (rt_tls_raw rt) \<le> 0x400000"
  shows "\<exists>teb rt'. build_teb h rt = Some (teb, rt') \<and> setup_inv 0xF0000 rt' \<and> (\<forall>i. gc_uc (rt_heap rt' i) = None \<longleftrightarrow> gc_uc (rt_heap rt i) = None)"
proof -
  let ?d = "of_nat (length (rt_tls_raw rt)) :: u32"
  have d: "unat ?d \<le> 0x400000" using assms(2) by (subst unat_of_nat_lt) simp_all
  then have t: "unat (0x200 + ?d) = 0x200 + unat ?d" by (subst unat_add_lt) simp_all
  then have nw: "\<not> 0x200 + ?d < ?d" by (simp add: word_less_nat_alt)
  have "unat (page_round (0x200 + ?d)) + 0xF0000 \<le> 0x4FD000" using page_round_le [of "0x200 + ?d"] t d by simp
  from alloc_pages_setup [OF assms(1) this, of h] obtain b rt1 where al: "alloc_pages h (0x200 + ?d) rt = Some (b, rt1)" "setup_inv 0xF0000 rt1"
    "\<forall>i. gc_uc (rt_heap rt1 i) = None \<longleftrightarrow> gc_uc (rt_heap rt i) = None" by blast
  let ?rt2 = "upd_ram (\<lambda>r. r\<lparr>xr_mem := teb_bytes b (take (unat ?d) (rt_tls_raw rt)) (xr_mem r)\<rparr>) rt1"
  have "setup_inv 0xF0000 ?rt2" by (rule setup_inv_mem [OF al(2)])
  moreover have "build_teb h rt \<in> {Some (0, rt1), Some (b, ?rt2)}" using al(1) nw by (auto simp: build_teb_def Let_def)
  ultimately show ?thesis using al(2,3) by (auto simp: upd_ram_def)
qed

lemma attach_attached: "attach h i rt = (Okay, rt') \<Longrightarrow> gc_uc (rt_heap rt' i) \<noteq> None"
proof -
  assume at: "attach h i rt = (Okay, rt')"
  have "gc_uc c' \<noteq> None" if "attach_cpu h r c = (Okay, c')" for r c c'
    using that by (auto simp: attach_cpu_def Let_def map_service_pages_def load_selectors_uc
        split: option.splits prod.splits if_splits)
  then show ?thesis using at by (auto simp: attach_def register_cpu_def Let_def split: if_splits prod.splits)
qed

lemma attach_setup: "setup_inv n rt \<Longrightarrow> attach h i rt = (st, rt') \<Longrightarrow> setup_inv n rt'"
  by (auto simp: attach_def register_cpu_def setup_inv_def Let_def split: if_splits prod.splits)

lemma guest_setup_ok:
  assumes "bootable lx"
  shows "\<exists>st rt. guest_setup h lx = Some (st, rt) \<and> setup_inv 0xF0000 rt \<and> (st = Okay \<longrightarrow> gc_uc (rt_heap rt 0) \<noteq> None)"
proof -
  from booted_runtime [OF assms] obtain k where k: "install_thunks (lx_image lx) (XboxKrnl (lx_ram lx) GuestScheduler) = Some k"
    "setup_inv 0x4FD000 (UnicornRuntime k)" by blast
  have "rt_tls_raw (UnicornRuntime k) = []" by (simp add: UnicornRuntime_def)
  from set_image_setup [OF k(2) _ this, of "lx_image lx"] assms obtain st rt where rt: "set_image (lx_image lx) (UnicornRuntime k) = Some (st, rt)"
    "setup_inv 0x4FD000 rt" "length (rt_tls_raw rt) \<le> 0x400000" by (auto simp: bootable_def)
  from build_teb_setup [OF rt(2,3), of h] obtain teb rt1 where teb: "build_teb h rt = Some (teb, rt1)" "setup_inv 0xF0000 rt1" by blast
  have s: "setup_inv 0xF0000 (upd_cpu 0 (set_teb teb) rt1)" using teb(2) by (simp add: setup_inv_def)
  obtain st' rt2 where at: "attach h 0 (upd_cpu 0 (set_teb teb) rt1) = (st', rt2)" by fastforce
  then show ?thesis using k rt teb attach_setup [OF s at] attach_attached [of h 0 "upd_cpu 0 (set_teb teb) rt1" rt2]
    by (auto simp: guest_setup_def)
qed

section \<open>The verdict\<close>


text \<open>An image of one page with sixteen bytes of thread-local data in a window of 16 MiB.\<close>

definition boot_lx :: loaded_xbe where
  "boot_lx = \<lparr>lx_image = undefined\<lparr>xi_image_end_abs := 0x1000, xi_entry_va := 0x100, xi_kernel_thunk_va := 0, xi_tls_present := True,
       xi_tls := undefined\<lparr>t_data_start := 0, t_data_end := 0, t_zero_fill := 16, t_index_addr := 0\<rparr>\<rparr>,
     lx_ram = XbeRam 4096 True (\<lambda>_. True) 0x1000000\<rparr>"

lemma boot_lx_bootable: "bootable boot_lx"
  by (auto simp: bootable_def boot_lx_def window_fresh_def XbeRam_def ram_wf_def page_access_def tls_raw_size_def)


section \<open>Stacks and the kernel's pool\<close>

text \<open>The runtime takes stacks and thread environment blocks out of the kernel's pool without entering them
  in the kernel's list of blocks: a guest allocation that asks for the address of the stack gets it.\<close>

lemma stack_in_pool:
  assumes "setup_inv n rt" "alloc_stack h bytes rt = Some ((esp, b), rt')" "b \<noteq> 0" "unat (page_round bytes) \<le> n"
  shows "mm_find (rt_krnl rt') 4096 b 0 0 = Some (Some b)"
proof -
  have al: "alloc_pages h bytes rt = Some (b, rt')" using assms(2) by (auto simp: alloc_stack_def)
  have i: "setup_inv 0 rt'" using alloc_pages_setup [OF assms(1), of bytes 0 h] assms(4) al by auto
  have wf: "ram_wf (rt_ram rt)" using assms(1) by (auto simp: setup_inv_def kr_inv_def mm_inv_def)
  note e = alloc_pages_effect [OF al assms(3) wf]
  let ?k = "rt_krnl rt'"
  have top: "unat b + 4096 \<le> unat (kr_mm_hi ?k)"
  proof -
    have "4096 \<le> unat (page_round bytes)" using e page_round_block by auto
    moreover have "kr_mm_hi ?k = kr_mm_hi (rt_krnl rt)" using al by (auto simp: alloc_pages_def Let_def upd_ram_def split: if_splits prod.splits)
    ultimately show ?thesis using e assms(1) by (auto simp: setup_inv_def word_le_nat_alt)
  qed
  have lo: "kr_mm_lo ?k \<le> b" "kr_mem_allocs ?k = []" "4096 dvd unat b" using i e by (auto simp: setup_inv_def word_le_nat_alt)
  have hi: "unat (kr_mm_hi ?k - 1) = unat (kr_mm_hi ?k) - 1" using top by (subst unat_diff_le) (auto simp: word_le_nat_alt)
  have "b \<le> kr_mm_hi ?k - 1" using top hi by (simp add: word_le_nat_alt)
  then have "unat (kr_mm_hi ?k - 1 - b + 1) = unat (kr_mm_hi ?k) - unat b"
    using top hi assms(3) unat_lt2p [of "kr_mm_hi ?k"] by (subst unat_add_lt) (auto simp: unat_diff_le unat_gt_0 [symmetric] simp del: unsigned_less)
  then have sz: "\<not> 4096 > kr_mm_hi ?k - 1 - b + 1" using top by (simp add: word_less_nat_alt)
  have "unat b + 4096 \<le> 2 ^ 32" using top unat_lt2p [of "kr_mm_hi ?k"] by (simp del: unsigned_less)
  then have al': "align_up b 4096 = b"
    using align_up_least(1) [of 4096 12 b] align_up_least(3) [of 4096 12 b "unat b"] lo(3)
    by (cases "unat b < unat (align_up b 4096)") (auto simp: word_unat_eq_iff)
  have "\<not> kr_mm_hi ?k - 1 < b" "\<not> kr_mm_hi ?k \<le> kr_mm_lo ?k" using lo(1) top hi by (auto simp: word_less_nat_alt word_le_nat_alt)
  then show ?thesis using lo(1,2) sz al'
    by (simp add: mm_find_def mm_range_def Let_def max_def)
qed

end
