(* ===== verification/Vk_Present.thy ===== *)
theory Vk_Present
  imports Vulkan_Buffer
begin

text \<open>
  The window and swapchain presenter (\<open>src/src/vulkan_present.cpp\<close>, \<open>src/include/vulkan_present.h\<close>) over
  the host model of \<open>Vk_Host\<close>, which is extended by the window library. GLFW, the surface queries and
  \<open>std::sort\<close> (which may order devices of the same score in any way) are the parameter
  \<open>present_host\<close>; their answers may depend on the whole history. The process-wide count
  \<open>g_glfw_refs\<close> is kept with the host state, since all presenters share it. A call returns \<open>None\<close>
  where the C++ is undefined: an empty range in \<open>std::clamp\<close>, \<open>modes[0]\<close> or \<open>images[idx]\<close> out of
  range, pixels read past their end. The count of GLFW references is an \<open>int\<close> in the source; it equals the
  number of live presenters (\<open>Vk_Present_Props\<close>), so it is kept unbounded: its overflow would need
  \<open>2 ^ 31\<close> open windows. Using GLFW while it is not initialised is recorded as misuse of
  the host.
\<close>

section \<open>Host\<close>

datatype vk_format = R8G8B8A8_UNORM | B8G8R8A8_UNORM | R8G8B8A8_SRGB | B8G8R8A8_SRGB | FORMAT_UNDEFINED | FormatOther u32

datatype present_mode = FIFO | ModeOther u32

datatype vk_result = VK_SUCCESS | VK_SUBOPTIMAL | VK_ERROR_OUT_OF_DATE | VK_ERROR_OTHER

record surface_caps =
  sc_min_w :: u32
  sc_min_h :: u32
  sc_max_w :: u32
  sc_max_h :: u32
  sc_min_count :: u32
  sc_max_count :: u32
  sc_transform :: u32

record swapchain_info =
  si_surface :: u64
  si_count :: u32
  si_format :: vk_format
  si_space :: u32
  si_w :: u32
  si_h :: u32
  si_transform :: u32
  si_mode :: present_mode
  si_old :: u64

record wsi = vk +
  g_glfw_refs :: int
  ws_glfw :: bool
  ws_signalled :: "u64 set"
  ws_resignalled :: bool
  ws_bytes :: "u64 \<Rightarrow> u8 list"
  ws_swapchains :: "u64 \<Rightarrow> swapchain_info option"
  ws_presented :: "(u64 \<times> u32 \<times> vk_result) list"
  ws_acquired :: "(u64 \<times> vk_result \<times> u32) list"

record present_host =
  ph_instance_exts :: "wsi \<Rightarrow> nat"
  ph_sort :: "phys_dev list \<Rightarrow> phys_dev list"
  ph_device_exts :: "u64 \<Rightarrow> string list"
  ph_support :: "u64 \<Rightarrow> u32 \<Rightarrow> u64 \<Rightarrow> bool option"
  ph_caps :: "wsi \<Rightarrow> u64 \<Rightarrow> surface_caps"
  ph_formats :: "wsi \<Rightarrow> u64 \<Rightarrow> (vk_format \<times> u32) list"
  ph_modes :: "wsi \<Rightarrow> u64 \<Rightarrow> present_mode list"
  ph_images :: "u64 \<Rightarrow> u64 list"
  ph_type_bits :: "u64 \<Rightarrow> u32"
  ph_acquire :: "wsi \<Rightarrow> u64 \<Rightarrow> vk_result \<times> u32"
  ph_present :: "wsi \<Rightarrow> u64 \<Rightarrow> u32 \<Rightarrow> vk_result"
  ph_should_close :: "wsi \<Rightarrow> u64 \<Rightarrow> bool"

text \<open>An update of the extended part of the host state, and the use of GLFW.\<close>

definition ws_put :: "(wsi \<Rightarrow> wsi) \<Rightarrow> (wsi, unit) state" where
  "ws_put f = State (\<lambda>v. ((), f v))"

definition glfw_use :: "(wsi, unit) state" where
  "glfw_use = State (\<lambda>v. ((), v\<lparr>vk_misuse := (vk_misuse v \<or> \<not> ws_glfw v)\<rparr>))"

definition glfwInit :: "(wsi, bool) state" where
  "glfwInit = do { ok \<leftarrow> vk_try; if ok then do { ws_put (\<lambda>v. v\<lparr>ws_glfw := True\<rparr>); State_Monad.return True } else State_Monad.return False }"

text \<open>\<open>glfwTerminate\<close> destroys all remaining windows.\<close>

definition glfwTerminate :: "(wsi, unit) state" where
  "glfwTerminate = ws_put (\<lambda>v. v\<lparr>ws_glfw := False, vk_live := filter (\<lambda>x. fst x \<noteq> GlfwWindow) (vk_live v)\<rparr>)"

definition create_swapchain :: "swapchain_info \<Rightarrow> (wsi, u64 option) state" where
  "create_swapchain si = do {
     fresh \<leftarrow> vk_create VkSwapchain;
     case fresh of None \<Rightarrow> State_Monad.return None
     | Some s \<Rightarrow> do { ws_put (\<lambda>v. v\<lparr>ws_swapchains := (ws_swapchains v)(s \<mapsto> si)\<rparr>); State_Monad.return (Some s) } }"

text \<open>Acquiring an image signals the semaphore, which must not be signalled already; a submission that
  waits for it takes the signal back. The answers to acquisitions and presentations are logged.\<close>

definition acquired :: "vk_result \<Rightarrow> bool" where
  "acquired r \<longleftrightarrow> r = VK_SUCCESS \<or> r = VK_SUBOPTIMAL"

definition acquire_image :: "present_host \<Rightarrow> u64 \<Rightarrow> u64 \<Rightarrow> (wsi, vk_result \<times> u32) state" where
  "acquire_image H swap sem = do {
     res \<leftarrow> vk_ask (\<lambda>v. ph_acquire H v swap);
     tick \<leftarrow> vk_try;
     ws_put (\<lambda>v. v\<lparr>ws_acquired := ws_acquired v @ [(swap, fst res, snd res)]\<rparr>);
     ws_put (\<lambda>v. if acquired (fst res)
       then v\<lparr>ws_signalled := insert sem (ws_signalled v), ws_resignalled := (ws_resignalled v \<or> sem \<in> ws_signalled v)\<rparr> else v);
     State_Monad.return res }"

definition submit_wait :: "u64 \<Rightarrow> u64 \<Rightarrow> (wsi, bool) state" where
  "submit_wait cb sem = do {
     sent \<leftarrow> vk_queue_submit cb;
     if sent then do { ws_put (\<lambda>v. v\<lparr>ws_signalled := ws_signalled v - {sem}\<rparr>); State_Monad.return True } else State_Monad.return False }"

definition queue_present :: "present_host \<Rightarrow> u64 \<Rightarrow> u32 \<Rightarrow> (wsi, vk_result) state" where
  "queue_present H swap idx = do {
     r \<leftarrow> vk_ask (\<lambda>v. ph_present H v swap idx);
     tick \<leftarrow> vk_try;
     ws_put (\<lambda>v. v\<lparr>ws_presented := ws_presented v @ [(swap, idx, r)]\<rparr>);
     State_Monad.return r }"

section \<open>Data\<close>

record impl =
  im_win :: u64
  im_inst :: u64
  im_surf :: u64
  im_phys :: "phys_dev option"
  im_dev :: u64
  im_queue :: u64
  im_qfam :: u32
  im_swap :: u64
  im_format :: vk_format
  im_swizzle_rb :: bool
  im_w :: u32
  im_h :: u32
  im_images :: "u64 list"
  im_pool :: u64
  im_cmd :: u64
  im_staging :: u64
  im_staging_mem :: u64
  im_staging_size :: u64
  im_frame_fence :: u64
  im_acquire_sem :: u64
  im_glfw_inited :: bool

definition Impl :: impl where
  "Impl = \<lparr>im_win = 0, im_inst = 0, im_surf = 0, im_phys = None, im_dev = 0, im_queue = 0, im_qfam = 0, im_swap = 0,
     im_format = FORMAT_UNDEFINED, im_swizzle_rb = False, im_w = 0, im_h = 0, im_images = [], im_pool = 0, im_cmd = 0,
     im_staging = 0, im_staging_mem = 0, im_staging_size = 0, im_frame_fence = 0, im_acquire_sem = 0, im_glfw_inited = False\<rparr>"

record presenter =
  pr_valid :: bool
  pr_width :: u32
  pr_height :: u32
  pr_presents :: u64
  pr_errors :: u64
  pr_impl :: "impl option"

definition VulkanPresenter :: presenter where
  "VulkanPresenter = \<lparr>pr_valid = False, pr_width = 0, pr_height = 0, pr_presents = 0, pr_errors = 0, pr_impl = None\<rparr>"

section \<open>Choosing the device\<close>

definition SWAPCHAIN_EXT :: string where "SWAPCHAIN_EXT = ''VK_KHR_swapchain''"

definition has_dev_ext :: "present_host \<Rightarrow> phys_dev \<Rightarrow> string \<Rightarrow> bool" where
  "has_dev_ext H p name \<longleftrightarrow> list_ex (\<lambda>e. e = name) (ph_device_exts H (pd_handle p))"

definition gpu_score :: "phys_dev \<Rightarrow> int" where
  "gpu_score p = (if pd_discrete p then (if pd_vendor p = 0x1002 then 2 else 1) else 0)"

fun scan_families :: "present_host \<Rightarrow> u64 \<Rightarrow> phys_dev \<Rightarrow> nat \<Rightarrow> bool list \<Rightarrow> u32 option" where
  "scan_families H surf p i [] = None"
| "scan_families H surf p i (g # gs) =
     (if g \<and> ph_support H (pd_handle p) (of_nat i) surf = Some True then Some (of_nat i) else scan_families H surf p (Suc i) gs)"

fun scan_devices :: "present_host \<Rightarrow> u64 \<Rightarrow> phys_dev list \<Rightarrow> (phys_dev \<times> u32) option" where
  "scan_devices H surf [] = None"
| "scan_devices H surf (p # ps) =
     (case (if has_dev_ext H p SWAPCHAIN_EXT then scan_families H surf p 0 (pd_graphics p) else None) of
        Some q \<Rightarrow> Some (p, q) | None \<Rightarrow> scan_devices H surf ps)"

definition pick_physical :: "present_host \<Rightarrow> u64 \<Rightarrow> (wsi, (phys_dev \<times> u32) option) state" where
  "pick_physical H surf = do {
     ok \<leftarrow> vk_try;
     devs \<leftarrow> vk_ask vk_gpus;
     if \<not> ok \<or> devs = [] then State_Monad.return None
     else do {
       tick \<leftarrow> vk_try;
       State_Monad.return (scan_devices H surf (ph_sort H devs)) } }"

section \<open>Swapchain and staging buffer\<close>

definition clamp32 :: "u32 \<Rightarrow> u32 \<Rightarrow> u32 \<Rightarrow> u32 option" where
  "clamp32 x lo hi = (if hi < lo then None else Some (if x < lo then lo else if hi < x then hi else x))"

definition kWant :: "vk_format list" where
  "kWant = [R8G8B8A8_UNORM, B8G8R8A8_UNORM, R8G8B8A8_SRGB, B8G8R8A8_SRGB]"

fun choose_format :: "vk_format list \<Rightarrow> (vk_format \<times> u32) list \<Rightarrow> (vk_format \<times> u32) option" where
  "choose_format [] fmts = None"
| "choose_format (want # ws) fmts =
     (case find (\<lambda>f. fst f = want) fmts of Some f \<Rightarrow> Some f | None \<Rightarrow> choose_format ws fmts)"

definition is_bgra :: "vk_format \<Rightarrow> bool" where
  "is_bgra f \<longleftrightarrow> f = B8G8R8A8_UNORM \<or> f = B8G8R8A8_SRGB"

definition choose_mode :: "present_mode list \<Rightarrow> present_mode option" where
  "choose_mode modes = (if FIFO \<in> set modes then Some FIFO else case modes of [] \<Rightarrow> None | m # _ \<Rightarrow> Some m)"

definition image_count :: "surface_caps \<Rightarrow> u32" where
  "image_count c = (let n = sc_min_count c + 1 in if 0 < sc_max_count c \<and> sc_max_count c < n then sc_max_count c else n)"

text \<open>From the choice of the format on, and the whole function.\<close>

definition replace_swapchain ::
  "present_host \<Rightarrow> surface_caps \<Rightarrow> vk_format \<times> u32 \<Rightarrow> impl \<Rightarrow> (wsi, bool option \<times> impl) state" where
  "replace_swapchain H caps chosen im0 = do {
     let im = im0\<lparr>im_format := fst chosen, im_swizzle_rb := is_bgra (fst chosen)\<rparr>;
     modes \<leftarrow> vk_ask (\<lambda>v. ph_modes H v (im_surf im));
     case choose_mode modes of
       None \<Rightarrow> State_Monad.return (None, im)
     | Some mode \<Rightarrow> do {
         fresh \<leftarrow> create_swapchain \<lparr>si_surface = im_surf im, si_count = image_count caps, si_format = im_format im, si_space = snd chosen,
            si_w = im_w im, si_h = im_h im, si_transform = sc_transform caps, si_mode = mode, si_old = im_swap im\<rparr>;
         case fresh of
           None \<Rightarrow> State_Monad.return (Some False, im)
         | Some s \<Rightarrow> do {
             vk_when (im_swap im \<noteq> 0) (vk_destroy VkSwapchain (im_swap im));
             let imgs = ph_images H s;
             State_Monad.return (Some (imgs \<noteq> []), im\<lparr>im_swap := s, im_images := imgs\<rparr>) } } }"

definition make_swapchain :: "present_host \<Rightarrow> impl \<Rightarrow> (wsi, bool option \<times> impl) state" where
  "make_swapchain H im0 = do {
     caps \<leftarrow> vk_ask (\<lambda>v. ph_caps H v (im_surf im0));
     case (clamp32 (im_w im0) (sc_min_w caps) (sc_max_w caps), clamp32 (im_h im0) (sc_min_h caps) (sc_max_h caps)) of
       (Some w, Some h) \<Rightarrow> do {
         let im = im0\<lparr>im_w := w, im_h := h\<rparr>;
         fmts \<leftarrow> vk_ask (\<lambda>v. ph_formats H v (im_surf im));
         case choose_format kWant fmts of
           None \<Rightarrow> State_Monad.return (Some False, im)
         | Some chosen \<Rightarrow> replace_swapchain H caps chosen im }
     | _ \<Rightarrow> State_Monad.return (None, im0) }"

definition make_staging :: "present_host \<Rightarrow> u64 \<Rightarrow> impl \<Rightarrow> (wsi, bool \<times> impl) state" where
  "make_staging H sz im = do {
     buf \<leftarrow> vk_create VkBuffer;
     case buf of None \<Rightarrow> State_Monad.return (False, im)
     | Some b \<Rightarrow> do {
         let im1 = im\<lparr>im_staging := b\<rparr>;
         case first_type (\<lambda>f. has_flag f HOST_VISIBLE \<and> has_flag f HOST_COHERENT) (ph_type_bits H b) 0
                (case im_phys im of None \<Rightarrow> [] | Some p \<Rightarrow> pd_types p) of
           None \<Rightarrow> State_Monad.return (False, im1)
         | Some type \<Rightarrow> do {
             mem \<leftarrow> vk_create VkDeviceMemory;
             case mem of None \<Rightarrow> State_Monad.return (False, im1)
             | Some m \<Rightarrow> do {
                 let im2 = im1\<lparr>im_staging_mem := m\<rparr>;
                 bound \<leftarrow> vk_try;
                 State_Monad.return (if bound then (True, im2\<lparr>im_staging_size := sz\<rparr>) else (False, im2)) } } } }"

section \<open>Construction and destruction\<close>

definition glfw_acquire :: "(wsi, bool) state" where
  "glfw_acquire = do {
     refs \<leftarrow> vk_ask g_glfw_refs;
     up \<leftarrow> (if refs = 0 then glfwInit else State_Monad.return True);
     if \<not> up then State_Monad.return False
     else do { ws_put (\<lambda>v. v\<lparr>g_glfw_refs := g_glfw_refs v + 1\<rparr>); State_Monad.return True } }"

definition glfw_release :: "(wsi, unit) state" where
  "glfw_release = do {
     refs \<leftarrow> vk_ask g_glfw_refs;
     if refs > 0 then do {
       ws_put (\<lambda>v. v\<lparr>g_glfw_refs := g_glfw_refs v - 1\<rparr>);
       vk_when (refs - 1 = 0) glfwTerminate }
     else State_Monad.return () }"

definition teardown :: "impl \<Rightarrow> (wsi, unit) state" where
  "teardown im = do {
     vk_when (im_dev im \<noteq> 0) (do { idle \<leftarrow> vk_try; State_Monad.return () });
     vk_when (im_dev im \<noteq> 0 \<and> im_acquire_sem im \<noteq> 0) (vk_destroy VkSemaphore (im_acquire_sem im));
     vk_when (im_dev im \<noteq> 0 \<and> im_frame_fence im \<noteq> 0) (vk_destroy VkFence (im_frame_fence im));
     vk_when (im_dev im \<noteq> 0 \<and> im_staging im \<noteq> 0) (vk_destroy VkBuffer (im_staging im));
     vk_when (im_dev im \<noteq> 0 \<and> im_staging_mem im \<noteq> 0) (vk_destroy VkDeviceMemory (im_staging_mem im));
     vk_when (im_dev im \<noteq> 0 \<and> im_pool im \<noteq> 0) (vk_destroy VkCommandPool (im_pool im));
     vk_when (im_dev im \<noteq> 0 \<and> im_swap im \<noteq> 0) (vk_destroy VkSwapchain (im_swap im));
     vk_when (im_dev im \<noteq> 0) (vk_destroy VkDevice (im_dev im));
     vk_when (im_inst im \<noteq> 0 \<and> im_surf im \<noteq> 0) (vk_destroy VkSurface (im_surf im));
     vk_when (im_inst im \<noteq> 0) (vk_destroy VkInstance (im_inst im));
     vk_when (im_win im \<noteq> 0) (do { glfw_use; vk_destroy GlfwWindow (im_win im) });
     vk_when (im_glfw_inited im) glfw_release }"

definition presenter_shutdown :: "presenter \<Rightarrow> (wsi, presenter) state" where
  "presenter_shutdown p = do {
     (case pr_impl p of None \<Rightarrow> State_Monad.return () | Some im \<Rightarrow> teardown im);
     State_Monad.return (p\<lparr>pr_impl := None, pr_valid := False, pr_width := 0, pr_height := 0\<rparr>) }"

text \<open>\<open>init\<close> in its stages. A stage that fails tears everything down; the last one publishes the
  object.\<close>

definition init_fail :: "impl \<Rightarrow> presenter \<Rightarrow> (wsi, bool option \<times> presenter) state" where
  "init_fail im p = do { teardown im; State_Monad.return (Some False, p) }"

definition init_sync :: "impl \<Rightarrow> presenter \<Rightarrow> (wsi, bool option \<times> presenter) state" where
  "init_sync im p = do {
     fence \<leftarrow> vk_create VkFence;
     case fence of None \<Rightarrow> init_fail im p
     | Some f \<Rightarrow> do {
         let im1 = im\<lparr>im_frame_fence := f\<rparr>;
         sem \<leftarrow> vk_create VkSemaphore;
         case sem of None \<Rightarrow> init_fail im1 p
         | Some s \<Rightarrow> do {
             let im2 = im1\<lparr>im_acquire_sem := s\<rparr>;
             State_Monad.return (Some True, p\<lparr>pr_impl := Some im2, pr_width := im_w im2, pr_height := im_h im2, pr_valid := True\<rparr>) } } }"

definition frame_bytes :: "u32 \<Rightarrow> u32 \<Rightarrow> u64" where
  "frame_bytes w h = ucast w * ucast h * 4"

definition init_commands :: "present_host \<Rightarrow> u32 \<Rightarrow> u32 \<Rightarrow> impl \<Rightarrow> presenter \<Rightarrow> (wsi, bool option \<times> presenter) state" where
  "init_commands H w h im p = do {
     pool \<leftarrow> vk_create VkCommandPool;
     case pool of None \<Rightarrow> init_fail im p
     | Some c \<Rightarrow> do {
         let im1 = im\<lparr>im_pool := c\<rparr>;
         cmd \<leftarrow> vk_handle;
         case cmd of None \<Rightarrow> init_fail im1 p
         | Some cb \<Rightarrow> do {
             (staged, im2) \<leftarrow> make_staging H (frame_bytes w h) (im1\<lparr>im_cmd := cb\<rparr>);
             if \<not> staged then init_fail im2 p else init_sync im2 p } } }"

definition init_device :: "present_host \<Rightarrow> u32 \<Rightarrow> u32 \<Rightarrow> impl \<Rightarrow> presenter \<Rightarrow> (wsi, bool option \<times> presenter) state" where
  "init_device H w h im p = do {
     picked \<leftarrow> pick_physical H (im_surf im);
     case picked of None \<Rightarrow> init_fail im p
     | Some pq \<Rightarrow> do {
         let im1 = im\<lparr>im_phys := Some (fst pq), im_qfam := snd pq\<rparr>;
         dev \<leftarrow> vk_create VkDevice;
         case dev of None \<Rightarrow> init_fail im1 p
         | Some d \<Rightarrow> do {
             q \<leftarrow> vk_ask (\<lambda>v. vk_queue_of v d);
             (made, im2) \<leftarrow> make_swapchain H (im1\<lparr>im_dev := d, im_queue := q\<rparr>);
             case made of
               None \<Rightarrow> State_Monad.return (None, p)
             | Some ok \<Rightarrow> if \<not> ok then init_fail im2 p else init_commands H w h im2 p } } }"

definition init_window :: "present_host \<Rightarrow> u32 \<Rightarrow> u32 \<Rightarrow> impl \<Rightarrow> presenter \<Rightarrow> (wsi, bool option \<times> presenter) state" where
  "init_window H w h im p = do {
     glfw_use;
     win \<leftarrow> vk_create GlfwWindow;
     case win of None \<Rightarrow> init_fail im p
     | Some n \<Rightarrow> do {
         let im1 = im\<lparr>im_win := n\<rparr>;
         exts \<leftarrow> vk_ask (ph_instance_exts H);
         if exts = 0 then init_fail im1 p
         else do {
           inst \<leftarrow> vk_create VkInstance;
           case inst of None \<Rightarrow> init_fail im1 p
           | Some i \<Rightarrow> do {
               let im2 = im1\<lparr>im_inst := i\<rparr>;
               glfw_use;
               surf \<leftarrow> vk_create VkSurface;
               case surf of None \<Rightarrow> init_fail im2 p
               | Some s \<Rightarrow> init_device H w h (im2\<lparr>im_surf := s\<rparr>) p } } } }"

definition presenter_init :: "present_host \<Rightarrow> u32 \<Rightarrow> u32 \<Rightarrow> presenter \<Rightarrow> (wsi, bool option \<times> presenter) state" where
  "presenter_init H w h p0 = do {
     p \<leftarrow> presenter_shutdown p0;
     if w = 0 \<or> h = 0 \<or> w > 1920 \<or> h > 1080 then State_Monad.return (Some False, p)
     else do {
       got \<leftarrow> glfw_acquire;
       if \<not> got then State_Monad.return (Some False, p)
       else init_window H w h (Impl\<lparr>im_w := w, im_h := h, im_glfw_inited := True\<rparr>) p } }"

section \<open>Events\<close>

definition presenter_poll :: "present_host \<Rightarrow> presenter \<Rightarrow> (wsi, bool) state" where
  "presenter_poll H p =
     (case pr_impl p of
        Some im \<Rightarrow>
          if \<not> pr_valid p \<or> im_win im = 0 then State_Monad.return False
          else do { glfw_use; tick \<leftarrow> vk_try; closed \<leftarrow> vk_ask (\<lambda>v. ph_should_close H v (im_win im)); State_Monad.return (\<not> closed) }
      | None \<Rightarrow> State_Monad.return False)"

definition presenter_should_close :: "present_host \<Rightarrow> presenter \<Rightarrow> (wsi, bool) state" where
  "presenter_should_close H p =
     (case pr_impl p of
        Some im \<Rightarrow>
          if \<not> pr_valid p \<or> im_win im = 0 then State_Monad.return True
          else do { glfw_use; vk_ask (\<lambda>v. ph_should_close H v (im_win im)) }
      | None \<Rightarrow> State_Monad.return True)"

section \<open>Frames\<close>

fun swizzle :: "u8 list \<Rightarrow> u8 list" where
  "swizzle (r # g # b # a # xs) = b # g # r # a # swizzle xs"
| "swizzle _ = []"

definition upload_bytes :: "bool \<Rightarrow> nat \<Rightarrow> u8 list \<Rightarrow> u8 list" where
  "upload_bytes swizzle_rb need pixels = (if swizzle_rb then swizzle (take need pixels) else take need pixels)"

definition count_error :: "presenter \<Rightarrow> (wsi, bool option \<times> presenter) state" where
  "count_error p = State_Monad.return (Some False, p\<lparr>pr_errors := pr_errors p + 1\<rparr>)"

definition present_transition :: "u64 \<Rightarrow> u64 \<Rightarrow> vk_layout \<Rightarrow> vk_layout \<Rightarrow> bool \<times> bool \<times> bool \<Rightarrow> bool \<times> bool \<times> bool \<Rightarrow>
    vk_stage \<Rightarrow> vk_stage \<Rightarrow> (wsi, unit) state" where
  "present_transition cb img old_l new_l src dst ss ds = vk_record cb (CmdBarrier img old_l new_l src dst ss ds)"

definition present_frame :: "present_host \<Rightarrow> u32 \<Rightarrow> impl \<Rightarrow> presenter \<Rightarrow> (wsi, bool option \<times> presenter) state" where
  "present_frame H idx im p = do {
     pr \<leftarrow> queue_present H (im_swap im) idx;
     if pr = VK_ERROR_OUT_OF_DATE \<or> pr = VK_SUBOPTIMAL then do {
       idle \<leftarrow> vk_try;
       (made, im1) \<leftarrow> make_swapchain H im;
       State_Monad.return (case made of
         None \<Rightarrow> (None, p\<lparr>pr_impl := Some im1\<rparr>)
       | Some _ \<Rightarrow> (Some True, p\<lparr>pr_impl := Some im1, pr_presents := pr_presents p + 1\<rparr>)) }
     else if pr \<noteq> VK_SUCCESS then count_error p
     else State_Monad.return (Some True, p\<lparr>pr_presents := pr_presents p + 1\<rparr>) }"

definition record_frame :: "u64 \<Rightarrow> impl \<Rightarrow> presenter \<Rightarrow> (wsi, unit) state" where
  "record_frame img im p = do {
     present_transition (im_cmd im) img LayoutUndefined LayoutTransferDst (False, False, False) (True, False, False) StageTop StageTransfer;
     vk_record (im_cmd im) (CmdCopyToImage (im_staging im) img (pr_width p) (pr_height p));
     present_transition (im_cmd im) img LayoutTransferDst LayoutPresent (True, False, False) (False, False, False) StageTransfer StageBottom }"

definition draw_frame :: "present_host \<Rightarrow> u32 \<Rightarrow> impl \<Rightarrow> presenter \<Rightarrow> (wsi, bool option \<times> presenter) state" where
  "draw_frame H idx im p = do {
     reset \<leftarrow> vk_try;
     begun \<leftarrow> vk_begin (im_cmd im);
     if \<not> begun then count_error p
     else if unat idx \<ge> length (im_images im) then State_Monad.return (None, p)
     else do {
       record_frame (im_images im ! unat idx) im p;
       ended \<leftarrow> vk_try;
       if \<not> ended then count_error p
       else do {
         fences \<leftarrow> vk_try;
         sent \<leftarrow> submit_wait (im_cmd im) (im_acquire_sem im);
         if \<not> sent then count_error p
         else do {
           done \<leftarrow> vk_try;
           if \<not> done then count_error p else present_frame H idx im p } } } }"

definition upload_frame :: "present_host \<Rightarrow> u8 list \<Rightarrow> u32 \<Rightarrow> u32 \<Rightarrow> impl \<Rightarrow> presenter \<Rightarrow> (wsi, bool option \<times> presenter) state" where
  "upload_frame H px w h im p =
     (if w \<noteq> pr_width p \<or> h \<noteq> pr_height p then count_error p
      else if frame_bytes w h > im_staging_size im then count_error p
      else do {
        mapped \<leftarrow> vk_try;
        if \<not> mapped then count_error p
        else if length px < unat (frame_bytes w h) then State_Monad.return (None, p)
        else do {
          ws_put (\<lambda>v. v\<lparr>ws_bytes := (ws_bytes v)(im_staging_mem im :=
            upload_bytes (im_swizzle_rb im) (unat (frame_bytes w h)) px @ drop (unat (frame_bytes w h)) (ws_bytes v (im_staging_mem im)))\<rparr>);
          (acq, idx) \<leftarrow> acquire_image H (im_swap im) (im_acquire_sem im);
          if acq = VK_ERROR_OUT_OF_DATE then do {
            idle \<leftarrow> vk_try;
            (made, im1) \<leftarrow> make_swapchain H im;
            let p1 = p\<lparr>pr_impl := Some im1\<rparr>;
            case made of
              None \<Rightarrow> State_Monad.return (None, p1)
            | Some ok \<Rightarrow> if \<not> ok then count_error p1 else State_Monad.return (Some False, p1) }
          else if \<not> acquired acq then count_error p
          else draw_frame H idx im p } })"

definition upload_and_present ::
  "present_host \<Rightarrow> u8 list option \<Rightarrow> u32 \<Rightarrow> u32 \<Rightarrow> presenter \<Rightarrow> (wsi, bool option \<times> presenter) state" where
  "upload_and_present H pixels w h p =
     (case (pr_impl p, pixels) of
        (Some im, Some px) \<Rightarrow> if \<not> pr_valid p then count_error p else upload_frame H px w h im p
      | _ \<Rightarrow> count_error p)"

text \<open>The overload on vectors: the data pointer of an empty vector is null.\<close>

definition upload_vector :: "present_host \<Rightarrow> u8 list \<Rightarrow> u32 \<Rightarrow> u32 \<Rightarrow> presenter \<Rightarrow> (wsi, bool option \<times> presenter) state" where
  "upload_vector H px = upload_and_present H (if px = [] then None else Some px)"

text \<open>The build without GLFW.\<close>

definition stub_init :: "presenter \<Rightarrow> bool \<times> presenter" where
  "stub_init p = (False, p)"

definition stub_upload :: "presenter \<Rightarrow> bool \<times> presenter" where
  "stub_upload p = (False, p\<lparr>pr_errors := pr_errors p + 1\<rparr>)"

end
