(* ===== verification/Vk_Present_Props.thy ===== *)
theory Vk_Present_Props
  imports Vk_Present
begin

text \<open>
  The presenter keeps its books: a small logic on what the host state shows of them (the live
  objects, the reference count of GLFW and whether GLFW is initialised), the invariant of any number
  of presenters sharing one process, and the outcome of a frame.
\<close>

named_theorems vts \<open>rules of the logic on views\<close>

section \<open>Views\<close>

text \<open>A logic on part of the host state. \<open>triple m P V\<close>: from a sound state that shows \<open>V\<close>, \<open>m\<close> leads to a
  sound state whose view satisfies \<open>P\<close>. The rules for the program constructs hold for every view.\<close>

locale view_logic =
  fixes sound :: "'s \<Rightarrow> bool" and view :: "'s \<Rightarrow> 'v"
begin

definition triple :: "('s, 'a) state \<Rightarrow> ('a \<Rightarrow> 'v \<Rightarrow> bool) \<Rightarrow> 'v \<Rightarrow> bool" where
  "triple m P V \<longleftrightarrow> (\<forall>s a t. view s = V \<and> sound s \<and> run_state m s = (a, t) \<longrightarrow> sound t \<and> P a (view t))"

lemma tripleI:
  "(\<And>s a t. view s = V \<Longrightarrow> sound s \<Longrightarrow> run_state m s = (a, t) \<Longrightarrow> sound t \<and> P a (view t)) \<Longrightarrow> triple m P V"
  unfolding triple_def by blast

lemma tripleD: "triple m P (view s) \<Longrightarrow> sound s \<Longrightarrow> run_state m s = (a, t) \<Longrightarrow> sound t \<and> P a (view t)"
  by (simp add: triple_def)

lemma mono: "triple m P V \<Longrightarrow> (\<And>a V1. P a V1 \<Longrightarrow> Q a V1) \<Longrightarrow> triple m Q V"
  unfolding triple_def by blast

lemma return: "P a V \<Longrightarrow> triple (State_Monad.return a) P V"
  by (auto intro!: tripleI)

lemma bind:
  assumes "triple m (\<lambda>a. triple (f a) P) V" shows "triple (State_Monad.bind m f) P V"
proof (rule tripleI)
  fix s b u assume s: "view s = V" "sound s" and run: "run_state (State_Monad.bind m f) s = (b, u)"
  obtain a t where a: "run_state m s = (a, t)" by fastforce
  with run have b: "run_state (f a) t = (b, u)" by (simp add: State_Monad.bind_def)
  have "sound t \<and> triple (f a) P (view t)" using tripleD [OF _ s(2) a] assms s(1) by blast
  then show "sound u \<and> P b (view u)" using tripleD [OF _ _ b] by blast
qed

lemma cond: "(b \<Longrightarrow> triple m P V) \<Longrightarrow> (\<not> b \<Longrightarrow> triple n P V) \<Longrightarrow> triple (if b then m else n) P V"
  by simp

lemma option:
  "(r = None \<Longrightarrow> triple m P V) \<Longrightarrow> (\<And>h. r = Some h \<Longrightarrow> triple (n h) P V) \<Longrightarrow> triple (case r of None \<Rightarrow> m | Some h \<Rightarrow> n h) P V"
  by (cases r) simp_all

lemma pair: "(\<And>a b. x = (a, b) \<Longrightarrow> triple (f a b) P V) \<Longrightarrow> triple (case x of (a, b) \<Rightarrow> f a b) P V"
  by (cases x) simp

end

text \<open>The books: what is alive, how many references GLFW has, and whether it is initialised.\<close>

type_synonym view = "vk_obj set \<times> int \<times> bool"

definition ws_view :: "wsi \<Rightarrow> view" where
  "ws_view v = (set (vk_live v), g_glfw_refs v, ws_glfw v)"

interpretation books: view_logic "vk_ok :: wsi \<Rightarrow> bool" ws_view .

abbreviation vt :: "(wsi, 'a) state \<Rightarrow> ('a \<Rightarrow> view \<Rightarrow> bool) \<Rightarrow> view \<Rightarrow> bool" where
  "vt \<equiv> books.triple"

lemmas vt_mono = books.mono
lemmas vt_return [vts] = books.return
lemmas vt_bind [vts] = books.bind
lemmas vt_if [vts] = books.cond
lemmas vt_option [vts] = books.option
lemmas vt_prod [vts] = books.pair

lemma vtI: "(\<And>v. ws_view v = V \<Longrightarrow> vk_wp m (\<lambda>a v1. P a (ws_view v1)) v) \<Longrightarrow> vt m P V"
  by (rule books.tripleI) (auto simp: vk_wp_def)

lemma vt_when [vts]: "(b \<Longrightarrow> vt m P V) \<Longrightarrow> (\<not> b \<Longrightarrow> P () V) \<Longrightarrow> vt (vk_when b m) P V"
  by (auto simp: vk_when_def intro: vt_return)

lemma vt_try [vts]: "(\<And>b. P b V) \<Longrightarrow> vt vk_try P V"
  by (rule vtI) (auto intro!: vk_wp_try simp: ws_view_def)

lemma vt_handle [vts]: "P None V \<Longrightarrow> (\<And>h. h \<noteq> 0 \<Longrightarrow> P (Some h) V) \<Longrightarrow> vt vk_handle P V"
  by (rule vtI) (auto intro!: vk_wp_handle simp: ws_view_def)

lemma vt_ask [vts]: "(\<And>v. P (f v) V) \<Longrightarrow> vt (vk_ask f) P V"
  by (rule vtI) (auto intro!: vk_wp_ask)

lemma vt_begin [vts]: "(\<And>b. P b V) \<Longrightarrow> vt (vk_begin cb) P V"
  by (rule vtI) (auto intro!: vk_wp_begin simp: ws_view_def)

lemma vt_record [vts]: "P () V \<Longrightarrow> vt (vk_record cb c) P V"
  by (rule vtI) (auto intro!: vk_wp_record simp: ws_view_def)

lemma vt_queue_submit [vts]: "(\<And>b. P b V) \<Longrightarrow> vt (vk_queue_submit cb) P V"
  by (rule vtI) (auto intro!: vk_wp_queue_submit simp: ws_view_def)

lemma vt_create [vts]:
  "P None (S, r, g) \<Longrightarrow> (\<And>h. h \<noteq> 0 \<Longrightarrow> \<forall>k. (k, h) \<notin> S \<Longrightarrow> P (Some h) (insert (k, h) S, r, g)) \<Longrightarrow> vt (vk_create k) P (S, r, g)"
  by (rule vtI) (auto intro!: vk_wp_create simp: ws_view_def)

lemma vt_destroy [vts]: "(k, h) \<in> S \<Longrightarrow> P () (S - {(k, h)}, r, g) \<Longrightarrow> vt (vk_destroy k h) P (S, r, g)"
  by (rule vtI) (auto intro!: vk_wp_destroy simp: ws_view_def)

lemma wp_put:
  "vk_calls (f v) = vk_calls v \<Longrightarrow> vk_results (f v) = vk_results v \<Longrightarrow> vk_misuse (f v) = vk_misuse v \<Longrightarrow>
     set (vk_live (f v)) \<subseteq> set (vk_live v) \<Longrightarrow> Q () (f v) \<Longrightarrow> vk_wp (ws_put f) Q v"
  by (rule vk_wp_quiet) (auto simp: ws_put_def)

lemma vt_put:
  assumes "\<And>v. vk_calls (f v) = vk_calls v \<and> vk_results (f v) = vk_results v \<and> vk_misuse (f v) = vk_misuse v \<and>
    set (vk_live (f v)) \<subseteq> set (vk_live v)" "\<And>v. ws_view v = V \<Longrightarrow> P () (ws_view (f v))"
  shows "vt (ws_put f) P V"
  by (rule vtI, rule wp_put) (use assms in auto)

lemma vt_use [vts]: "P () (S, r, True) \<Longrightarrow> vt glfw_use P (S, r, True)"
  by (rule vtI, rule vk_wp_quiet) (auto simp: glfw_use_def ws_view_def)

lemma vt_glfwInit: "P False (S, r, g) \<Longrightarrow> P True (S, r, True) \<Longrightarrow> vt glfwInit P (S, r, g)"
  unfolding glfwInit_def by (intro vts vt_put) (auto simp: ws_view_def)

lemma vt_ask_refs: "P r (S, r, g) \<Longrightarrow> vt (vk_ask g_glfw_refs) P (S, r, g)"
  by (rule vtI) (auto intro!: vk_wp_ask simp: ws_view_def)

lemma vt_acquire:
  assumes "P False (S, r, g)" "P True (S, r + 1, True)" "g = (0 < r)" "0 \<le> r"
  shows "vt glfw_acquire P (S, r, g)"
  unfolding glfw_acquire_def
  by (rule vt_bind, rule vt_ask_refs, intro vts vt_glfwInit vt_put) (use assms in \<open>auto simp: ws_view_def\<close>)

text \<open>Releasing the last reference is only harmless when no other window is alive.\<close>

lemma vt_release:
  assumes "0 < r" "r = 1 \<longrightarrow> (\<forall>x\<in>S. fst x \<noteq> GlfwWindow)" "P () (S, r - 1, 0 < r - 1)"
  shows "vt glfw_release P (S, r, True)"
  unfolding glfw_release_def glfwTerminate_def
  by (rule vt_bind, rule vt_ask_refs, intro vts vt_put) (use assms in \<open>auto simp: ws_view_def\<close>)

section \<open>Objects of a presenter\<close>

definition obj :: "vk_kind \<Rightarrow> u64 \<Rightarrow> vk_obj set" where
  "obj k h = (if h = 0 then {} else {(k, h)})"

definition held_im :: "impl \<Rightarrow> vk_obj set" where
  "held_im im = obj VkSemaphore (im_acquire_sem im) \<union> obj VkFence (im_frame_fence im) \<union> obj VkBuffer (im_staging im) \<union>
     obj VkDeviceMemory (im_staging_mem im) \<union> obj VkCommandPool (im_pool im) \<union> obj VkSwapchain (im_swap im) \<union>
     obj VkDevice (im_dev im) \<union> obj VkSurface (im_surf im) \<union> obj VkInstance (im_inst im) \<union> obj GlfwWindow (im_win im)"

definition built :: "impl \<Rightarrow> bool" where
  "built im \<longleftrightarrow> im_glfw_inited im \<and> (im_inst im = 0 \<longrightarrow> im_surf im = 0) \<and>
     (im_dev im = 0 \<longrightarrow> im_acquire_sem im = 0 \<and> im_frame_fence im = 0 \<and> im_staging im = 0 \<and> im_staging_mem im = 0 \<and> im_pool im = 0 \<and> im_swap im = 0)"

lemma obj_diff [simp]: "k \<noteq> k' \<Longrightarrow> obj k h \<subseteq> A - obj k' h' \<longleftrightarrow> obj k h \<subseteq> A"
  by (auto simp: obj_def)

lemma vt_drop:
  assumes "c \<longleftrightarrow> h \<noteq> 0" "obj k h \<subseteq> S" "P () (S - obj k h, r, g)"
  shows "vt (vk_when c (vk_destroy k h)) P (S, r, g)"
  using assms by (intro vts) (auto simp: obj_def)

lemma vt_drop_window:
  assumes "obj GlfwWindow h \<subseteq> S" "P () (S - obj GlfwWindow h, r, True)"
  shows "vt (vk_when (h \<noteq> 0) (do { glfw_use; vk_destroy GlfwWindow h })) P (S, r, True)"
  using assms by (intro vts) (auto simp: obj_def)

lemma vt_idle: "P () V \<Longrightarrow> vt (vk_when c (do { idle \<leftarrow> vk_try; State_Monad.return () })) P V"
  by (intro vts) simp_all

lemma vt_teardown:
  assumes "built im" "held_im im \<inter> R = {}" "0 < r" "r = 1 \<longrightarrow> (\<forall>x\<in>R. fst x \<noteq> GlfwWindow)" "P () (R, r - 1, 0 < r - 1)"
  shows "vt (teardown im) P (held_im im \<union> R, r, True)"
proof -
  have sub: "obj VkSemaphore (im_acquire_sem im) \<subseteq> held_im im \<union> R" "obj VkFence (im_frame_fence im) \<subseteq> held_im im \<union> R"
    "obj VkBuffer (im_staging im) \<subseteq> held_im im \<union> R" "obj VkDeviceMemory (im_staging_mem im) \<subseteq> held_im im \<union> R"
    "obj VkCommandPool (im_pool im) \<subseteq> held_im im \<union> R" "obj VkSwapchain (im_swap im) \<subseteq> held_im im \<union> R"
    "obj VkDevice (im_dev im) \<subseteq> held_im im \<union> R" "obj VkSurface (im_surf im) \<subseteq> held_im im \<union> R"
    "obj VkInstance (im_inst im) \<subseteq> held_im im \<union> R" "obj GlfwWindow (im_win im) \<subseteq> held_im im \<union> R"
    by (auto simp: held_im_def)
  have rest: "held_im im \<union> R - obj VkSemaphore (im_acquire_sem im) - obj VkFence (im_frame_fence im) - obj VkBuffer (im_staging im) -
     obj VkDeviceMemory (im_staging_mem im) - obj VkCommandPool (im_pool im) - obj VkSwapchain (im_swap im) -
     obj VkDevice (im_dev im) - obj VkSurface (im_surf im) - obj VkInstance (im_inst im) - obj GlfwWindow (im_win im) = R"
    using assms(2) unfolding held_im_def by blast
  note b = assms(1) [unfolded built_def]
  show ?thesis
    unfolding teardown_def
    by (rule vt_bind, rule vt_idle, (rule vt_bind, rule vt_drop, use b in blast, simp add: sub)+,
        rule vt_bind, rule vt_drop_window, simp add: sub, unfold rest, rule vt_when, rule vt_release)
      (use assms b in simp_all)
qed

section \<open>What the host promises\<close>

definition surface_ok :: "present_host \<Rightarrow> bool" where
  "surface_ok H \<longleftrightarrow>
     (\<forall>v s. sc_min_w (ph_caps H v s) \<le> sc_max_w (ph_caps H v s) \<and> sc_min_h (ph_caps H v s) \<le> sc_max_h (ph_caps H v s)) \<and>
     (\<forall>v s. ph_modes H v s \<noteq> []) \<and>
     (\<forall>v s. acquired (fst (ph_acquire H v s)) \<longrightarrow> unat (snd (ph_acquire H v s)) < length (ph_images H s))"

lemma clamp32_ok: "lo \<le> hi \<Longrightarrow> \<exists>y. clamp32 x lo hi = Some y \<and> lo \<le> y \<and> y \<le> hi \<and> (lo \<le> x \<and> x \<le> hi \<longrightarrow> y = x)"
  by (auto simp: clamp32_def)

lemma choose_mode_ok: "modes \<noteq> [] \<Longrightarrow> \<exists>m. choose_mode modes = Some m \<and> m \<in> set modes"
  by (cases modes) (auto simp: choose_mode_def)

section \<open>Re-creating the swapchain\<close>

text \<open>What a new swapchain changes of the object: its extent, its format and the swapchain with its
  images, which are replaced together.\<close>

definition respun :: "present_host \<Rightarrow> bool \<Rightarrow> impl \<Rightarrow> impl \<Rightarrow> bool" where
  "respun H b im im1 \<longleftrightarrow>
     im1 = im\<lparr>im_w := im_w im1, im_h := im_h im1, im_format := im_format im1, im_swizzle_rb := im_swizzle_rb im1,
       im_swap := im_swap im1, im_images := im_images im1\<rparr> \<and>
     (im_swap im1 = im_swap im \<and> im_images im1 = im_images im \<and> \<not> b \<or>
      im_swap im1 \<noteq> 0 \<and> im_images im1 = ph_images H (im_swap im1) \<and> b = (im_images im1 \<noteq> []))"

lemma respun_fields:
  assumes "respun H b im im1"
  shows "im_glfw_inited im1 = im_glfw_inited im"
    "im_win im1 = im_win im"
    "im_inst im1 = im_inst im"
    "im_surf im1 = im_surf im"
    "im_phys im1 = im_phys im"
    "im_dev im1 = im_dev im"
    "im_queue im1 = im_queue im"
    "im_qfam im1 = im_qfam im"
    "im_pool im1 = im_pool im"
    "im_cmd im1 = im_cmd im"
    "im_staging im1 = im_staging im"
    "im_staging_mem im1 = im_staging_mem im"
    "im_staging_size im1 = im_staging_size im"
    "im_frame_fence im1 = im_frame_fence im"
    "im_acquire_sem im1 = im_acquire_sem im"
    "im_swap im1 = im_swap im \<and> im_images im1 = im_images im \<and> \<not> b \<or>
     im_swap im1 \<noteq> 0 \<and> im_images im1 = ph_images H (im_swap im1) \<and> b = (im_images im1 \<noteq> [])"
proof -
  note e = arg_cong [OF conjunct1 [OF assms [unfolded respun_def]]]
  show "im_glfw_inited im1 = im_glfw_inited im" using e [of im_glfw_inited] by simp
  show "im_win im1 = im_win im" using e [of im_win] by simp
  show "im_inst im1 = im_inst im" using e [of im_inst] by simp
  show "im_surf im1 = im_surf im" using e [of im_surf] by simp
  show "im_phys im1 = im_phys im" using e [of im_phys] by simp
  show "im_dev im1 = im_dev im" using e [of im_dev] by simp
  show "im_queue im1 = im_queue im" using e [of im_queue] by simp
  show "im_qfam im1 = im_qfam im" using e [of im_qfam] by simp
  show "im_pool im1 = im_pool im" using e [of im_pool] by simp
  show "im_cmd im1 = im_cmd im" using e [of im_cmd] by simp
  show "im_staging im1 = im_staging im" using e [of im_staging] by simp
  show "im_staging_mem im1 = im_staging_mem im" using e [of im_staging_mem] by simp
  show "im_staging_size im1 = im_staging_size im" using e [of im_staging_size] by simp
  show "im_frame_fence im1 = im_frame_fence im" using e [of im_frame_fence] by simp
  show "im_acquire_sem im1 = im_acquire_sem im" using e [of im_acquire_sem] by simp
qed (use assms in \<open>simp add: respun_def\<close>)

lemma held_swap:
  "held_im (im\<lparr>im_w := w, im_h := h, im_format := f, im_swizzle_rb := s, im_swap := sw, im_images := imgs\<rparr>) =
     (held_im im - obj VkSwapchain (im_swap im)) \<union> obj VkSwapchain sw"
  by (auto simp: held_im_def obj_def)

lemma vt_create_swapchain:
  "P None (S, r, g) \<Longrightarrow> (\<And>h. h \<noteq> 0 \<Longrightarrow> \<forall>k. (k, h) \<notin> S \<Longrightarrow> P (Some h) (insert (VkSwapchain, h) S, r, g)) \<Longrightarrow>
     vt (create_swapchain si) P (S, r, g)"
  unfolding create_swapchain_def by (intro vts vt_put) (auto simp: ws_view_def)

lemma held_same:
  "held_im (im\<lparr>im_w := w, im_h := h\<rparr>) = held_im im"
  "held_im (im\<lparr>im_w := w, im_h := h, im_format := f, im_swizzle_rb := s\<rparr>) = held_im im"
  by (simp_all add: held_im_def)

lemma vt_replace_swapchain:
  assumes "surface_ok H" "held_im im \<inter> R = {}"
    "\<And>b im1. respun H b im im1 \<Longrightarrow> held_im im1 \<inter> R = {} \<Longrightarrow> P (Some b, im1) (held_im im1 \<union> R, r, g)"
  shows "vt (replace_swapchain H caps chosen (im\<lparr>im_w := w, im_h := h\<rparr>)) P (held_im im \<union> R, r, g)"
  unfolding replace_swapchain_def Let_def
proof (intro vt_bind vt_ask vt_option vt_return vt_create_swapchain, goal_cases)
  case (1 v)
  then show ?case using choose_mode_ok [of "ph_modes H v (im_surf im)"] assms(1) by (auto simp: surface_ok_def)
next
  case (2 v m)
  show ?case
    using assms(3) [of False "im\<lparr>im_w := w, im_h := h, im_format := fst chosen, im_swizzle_rb := is_bgra (fst chosen)\<rparr>"] assms(2)
    by (simp add: respun_def held_same)
next
  case (5 v m s0 s)
  let ?im = "im\<lparr>im_w := w, im_h := h, im_format := fst chosen, im_swizzle_rb := is_bgra (fst chosen), im_swap := s, im_images := ph_images H s\<rparr>"
  have held: "held_im ?im = held_im im - obj VkSwapchain (im_swap im) \<union> obj VkSwapchain s" by (rule held_swap)
  have s: "obj VkSwapchain s = {(VkSwapchain, s)}" "(VkSwapchain, s) \<notin> held_im im \<union> R" "s \<noteq> im_swap im"
    using 5 by (auto simp: obj_def held_im_def)
  have o: "obj VkSwapchain (im_swap im) \<subseteq> held_im im" by (auto simp: held_im_def)
  have e: "insert (VkSwapchain, s) (held_im im \<union> R) - obj VkSwapchain (im_swap im) = held_im ?im \<union> R"
    unfolding held using assms(2) s o by (auto simp: obj_def split: if_splits)
  have d: "held_im ?im \<inter> R = {}" unfolding held s(1) using assms(2) s(2) by auto
  have "respun H (ph_images H s \<noteq> []) im ?im" using 5 by (simp add: respun_def)
  moreover have "s0 = s" using 5 by simp
  ultimately show ?case using assms(3) [OF _ d] e o by (intro vt_drop vt_return) auto
qed simp_all

lemma vt_make_swapchain:
  assumes "surface_ok H" "held_im im \<inter> R = {}"
    "\<And>b im1. respun H b im im1 \<Longrightarrow> held_im im1 \<inter> R = {} \<Longrightarrow> P (Some b, im1) (held_im im1 \<union> R, r, g)"
  shows "vt (make_swapchain H im) P (held_im im \<union> R, r, g)"
  unfolding make_swapchain_def Let_def
proof (intro vt_bind vt_ask, goal_cases)
  case (1 v)
  let ?c = "ph_caps H v (im_surf im)"
  obtain w h where "clamp32 (im_w im) (sc_min_w ?c) (sc_max_w ?c) = Some w" "clamp32 (im_h im) (sc_min_h ?c) (sc_max_h ?c) = Some h"
    using clamp32_ok assms(1) unfolding surface_ok_def by metis
  moreover have "P (Some False, im\<lparr>im_w := w, im_h := h\<rparr>) (held_im im \<union> R, r, g)"
    using assms(3) [of False "im\<lparr>im_w := w, im_h := h\<rparr>"] assms(2) by (simp add: respun_def held_same)
  ultimately show ?case by (auto intro!: vt_bind vt_ask vt_option vt_return vt_replace_swapchain assms)
qed

section \<open>Building a presenter\<close>

text \<open>The invariant of one presenter among \<open>n\<close> others: \<open>R\<close> are the objects it does not own.\<close>

definition full_im :: "present_host \<Rightarrow> impl \<Rightarrow> bool" where
  "full_im H im \<longleftrightarrow> im_glfw_inited im \<and> im_win im \<noteq> 0 \<and> im_inst im \<noteq> 0 \<and> im_surf im \<noteq> 0 \<and> im_dev im \<noteq> 0 \<and> im_swap im \<noteq> 0 \<and>
     im_pool im \<noteq> 0 \<and> im_staging im \<noteq> 0 \<and> im_staging_mem im \<noteq> 0 \<and> im_frame_fence im \<noteq> 0 \<and> im_acquire_sem im \<noteq> 0 \<and>
     im_images im = ph_images H (im_swap im)"

definition alive :: "presenter \<Rightarrow> int" where
  "alive p = (if pr_impl p = None then 0 else 1)"

definition held :: "presenter \<Rightarrow> vk_obj set" where
  "held p = (case pr_impl p of None \<Rightarrow> {} | Some im \<Rightarrow> held_im im)"

definition frame_ok :: "vk_obj set \<Rightarrow> int \<Rightarrow> bool" where
  "frame_ok R n \<longleftrightarrow> 0 \<le> n \<and> (n = 0 \<longrightarrow> (\<forall>x\<in>R. fst x \<noteq> GlfwWindow))"

definition p_inv :: "present_host \<Rightarrow> vk_obj set \<Rightarrow> int \<Rightarrow> presenter \<Rightarrow> view \<Rightarrow> bool" where
  "p_inv H R n p V \<longleftrightarrow> 0 \<le> n \<and> pr_valid p = (pr_impl p \<noteq> None) \<and> (\<forall>im. pr_impl p = Some im \<longrightarrow> full_im H im) \<and>
     held p \<inter> R = {} \<and> V = (held p \<union> R, n + alive p, 0 < n + alive p)"

lemma full_built: "full_im H im \<Longrightarrow> built im"
  by (simp add: full_im_def built_def)

lemma vt_shutdown:
  assumes "p_inv H R n p V" "frame_ok R n"
    "\<And>p1. p1 = p\<lparr>pr_impl := None, pr_valid := False, pr_width := 0, pr_height := 0\<rparr> \<Longrightarrow> P p1 (R, n, 0 < n)"
  shows "vt (presenter_shutdown p) P V"
proof (cases "pr_impl p")
  case None
  then show ?thesis using assms unfolding presenter_shutdown_def by (auto simp: p_inv_def held_def alive_def intro!: vts)
next
  case (Some im)
  then have i: "built im" "held_im im \<inter> R = {}" "V = (held_im im \<union> R, n + 1, True)"
    using assms(1,2) full_built by (auto simp: p_inv_def held_def alive_def frame_ok_def)
  show ?thesis unfolding presenter_shutdown_def Some i(3) option.case
    by (intro vt_bind vt_teardown vt_return) (use assms i in \<open>auto simp: frame_ok_def\<close>)
qed

text \<open>A stage of \<open>init\<close> that fails leaves what was there before.\<close>

definition cleared :: "presenter \<Rightarrow> bool" where
  "cleared p \<longleftrightarrow> pr_impl p = None \<and> \<not> pr_valid p"

definition init_post :: "present_host \<Rightarrow> vk_obj set \<Rightarrow> int \<Rightarrow> bool option \<times> presenter \<Rightarrow> view \<Rightarrow> bool" where
  "init_post H R n = (\<lambda>(r, p) V. r \<in> {Some True, Some False} \<and> p_inv H R n p V \<and> (r = Some True \<longleftrightarrow> pr_impl p \<noteq> None))"

lemma vt_init_fail:
  assumes "built im" "held_im im \<inter> R = {}" "frame_ok R n" "cleared p" "V = (held_im im \<union> R, n + 1, True)"
  shows "vt (init_fail im p) (init_post H R n) V"
  unfolding init_fail_def assms(5)
  by (intro vt_bind vt_teardown vt_return) (use assms in \<open>auto simp: frame_ok_def init_post_def p_inv_def held_def alive_def cleared_def\<close>)

lemma held_im_gain:
  "im_frame_fence im = 0 \<Longrightarrow> h \<noteq> 0 \<Longrightarrow> held_im (im\<lparr>im_frame_fence := h\<rparr>) = insert (VkFence, h) (held_im im)"
  "im_acquire_sem im = 0 \<Longrightarrow> h \<noteq> 0 \<Longrightarrow> held_im (im\<lparr>im_acquire_sem := h\<rparr>) = insert (VkSemaphore, h) (held_im im)"
  "im_staging im = 0 \<Longrightarrow> h \<noteq> 0 \<Longrightarrow> held_im (im\<lparr>im_staging := h\<rparr>) = insert (VkBuffer, h) (held_im im)"
  "im_staging_mem im = 0 \<Longrightarrow> h \<noteq> 0 \<Longrightarrow> held_im (im\<lparr>im_staging_mem := h\<rparr>) = insert (VkDeviceMemory, h) (held_im im)"
  "im_pool im = 0 \<Longrightarrow> h \<noteq> 0 \<Longrightarrow> held_im (im\<lparr>im_pool := h\<rparr>) = insert (VkCommandPool, h) (held_im im)"
  "im_dev im = 0 \<Longrightarrow> h \<noteq> 0 \<Longrightarrow> held_im (im\<lparr>im_dev := h\<rparr>) = insert (VkDevice, h) (held_im im)"
  "im_surf im = 0 \<Longrightarrow> h \<noteq> 0 \<Longrightarrow> held_im (im\<lparr>im_surf := h\<rparr>) = insert (VkSurface, h) (held_im im)"
  "im_inst im = 0 \<Longrightarrow> h \<noteq> 0 \<Longrightarrow> held_im (im\<lparr>im_inst := h\<rparr>) = insert (VkInstance, h) (held_im im)"
  "im_win im = 0 \<Longrightarrow> h \<noteq> 0 \<Longrightarrow> held_im (im\<lparr>im_win := h\<rparr>) = insert (GlfwWindow, h) (held_im im)"
  by (auto simp: held_im_def obj_def)

lemma held_neutral:
  "held_im (im\<lparr>im_phys := a\<rparr>) = held_im im" "held_im (im\<lparr>im_qfam := b\<rparr>) = held_im im" "held_im (im\<lparr>im_queue := c\<rparr>) = held_im im"
  "held_im (im\<lparr>im_cmd := d\<rparr>) = held_im im" "held_im (im\<lparr>im_staging_size := e\<rparr>) = held_im im"
  by (simp_all add: held_im_def)

lemmas held_ims = held_im_gain held_neutral

lemma vt_make:
  "vt m P (S, r, g) \<Longrightarrow> (\<And>h. h \<noteq> 0 \<Longrightarrow> \<forall>k. (k, h) \<notin> S \<Longrightarrow> vt (f h) P (insert (k, h) S, r, g)) \<Longrightarrow>
     vt (State_Monad.bind (vk_create k) (\<lambda>x. case x of None \<Rightarrow> m | Some h \<Rightarrow> f h)) P (S, r, g)"
  by (rule vt_bind, rule vt_create) simp_all

definition with_surface :: "impl \<Rightarrow> bool" where
  "with_surface im \<longleftrightarrow> im_glfw_inited im \<and> im_win im \<noteq> 0 \<and> im_inst im \<noteq> 0 \<and> im_surf im \<noteq> 0"

definition with_swapchain :: "present_host \<Rightarrow> impl \<Rightarrow> bool" where
  "with_swapchain H im \<longleftrightarrow> with_surface im \<and> im_dev im \<noteq> 0 \<and> im_swap im \<noteq> 0 \<and> im_images im = ph_images H (im_swap im)"

definition with_staging :: "present_host \<Rightarrow> impl \<Rightarrow> bool" where
  "with_staging H im \<longleftrightarrow> with_swapchain H im \<and> im_pool im \<noteq> 0 \<and> im_staging im \<noteq> 0 \<and> im_staging_mem im \<noteq> 0"

lemmas stages = with_staging_def with_swapchain_def with_surface_def

lemma vt_init_sync:
  assumes "with_staging H im" "im_frame_fence im = 0" "im_acquire_sem im = 0" "held_im im \<inter> R = {}" "frame_ok R n" "cleared p"
  shows "vt (init_sync im p) (init_post H R n) (held_im im \<union> R, n + 1, True)"
  unfolding init_sync_def Let_def
  by (intro vt_make vt_return vt_init_fail)
    (use assms in \<open>auto simp: built_def stages held_ims init_post_def p_inv_def full_im_def held_def alive_def cleared_def frame_ok_def\<close>)

lemma vt_make_staging:
  assumes "im_staging im = 0" "im_staging_mem im = 0" "held_im im \<inter> R = {}"
    "\<And>b m. held_im (im\<lparr>im_staging := b, im_staging_mem := m\<rparr>) \<inter> R = {} \<Longrightarrow>
      P (False, im\<lparr>im_staging := b, im_staging_mem := m\<rparr>) (held_im (im\<lparr>im_staging := b, im_staging_mem := m\<rparr>) \<union> R, r, g)"
    "\<And>b m. b \<noteq> 0 \<Longrightarrow> m \<noteq> 0 \<Longrightarrow> held_im (im\<lparr>im_staging := b, im_staging_mem := m, im_staging_size := sz\<rparr>) \<inter> R = {} \<Longrightarrow>
      P (True, im\<lparr>im_staging := b, im_staging_mem := m, im_staging_size := sz\<rparr>)
        (held_im (im\<lparr>im_staging := b, im_staging_mem := m, im_staging_size := sz\<rparr>) \<union> R, r, g)"
  shows "vt (make_staging H sz im) P (held_im im \<union> R, r, g)"
proof -
  have u: "im = im\<lparr>im_staging := 0, im_staging_mem := 0\<rparr>" "\<And>b. im\<lparr>im_staging := b\<rparr> = im\<lparr>im_staging := b, im_staging_mem := 0\<rparr>"
    using assms(1,2) by simp_all
  have 0: "P (False, im) (held_im im \<union> R, r, g)" using assms(4) [where b = 0 and m = 0] assms(3) u(1) by simp
  have b: "P (False, im\<lparr>im_staging := b\<rparr>) (insert (VkBuffer, b) (held_im im \<union> R), r, g)"
    if "b \<noteq> 0" "\<forall>k. (k, b) \<notin> held_im im \<union> R" for b
    using assms(4) [where b = b and m = 0] assms(1,3) that u(2) [of b] held_im_gain(3) [OF assms(1) that(1)] by simp
  have m: "P (False, im\<lparr>im_staging := b, im_staging_mem := m\<rparr>) (insert (VkDeviceMemory, m) (insert (VkBuffer, b) (held_im im \<union> R)), r, g) \<and>
      P (True, im\<lparr>im_staging := b, im_staging_mem := m, im_staging_size := sz\<rparr>) (insert (VkDeviceMemory, m) (insert (VkBuffer, b) (held_im im \<union> R)), r, g)"
    if "b \<noteq> 0" "\<forall>k. (k, b) \<notin> held_im im \<union> R" "m \<noteq> 0" "\<forall>k. (k, m) \<notin> insert (VkBuffer, b) (held_im im \<union> R)" for b m
    using assms(4) [where b = b and m = m] assms(5) [where b = b and m = m] assms(1-3) that by (simp add: held_ims)
  show ?thesis
    unfolding make_staging_def Let_def
    by (intro vt_make vt_option vt_bind vt_try vt_return) (use 0 b m in auto)
qed

lemma vt_init_commands:
  assumes "with_swapchain H im" "im_frame_fence im = 0" "im_acquire_sem im = 0" "im_staging im = 0" "im_staging_mem im = 0" "im_pool im = 0"
    "held_im im \<inter> R = {}" "frame_ok R n" "cleared p"
  shows "vt (init_commands H w h im p) (init_post H R n) (held_im im \<union> R, n + 1, True)"
  unfolding init_commands_def Let_def
proof (intro vt_make, goal_cases)
  case 1
  show ?case by (rule vt_init_fail) (use assms in \<open>auto simp: built_def stages\<close>)
next
  case (2 c)
  have d: "held_im (im\<lparr>im_pool := c\<rparr>) \<inter> R = {}" "insert (VkCommandPool, c) (held_im im \<union> R) = held_im (im\<lparr>im_pool := c\<rparr>) \<union> R"
    using 2 assms by (auto simp: held_ims)
  have fail: "vt (init_fail im1 p) (init_post H R n) (held_im im1 \<union> R, n + 1, True)"
    if "im1 = im\<lparr>im_pool := c, im_cmd := cb, im_staging := b, im_staging_mem := m\<rparr>" "held_im im1 \<inter> R = {}" for im1 b m cb
    by (rule vt_init_fail) (use assms that in \<open>auto simp: built_def stages\<close>)
  have fail0: "vt (init_fail (im\<lparr>im_pool := c\<rparr>) p) (init_post H R n) (held_im (im\<lparr>im_pool := c\<rparr>) \<union> R, n + 1, True)"
    by (rule vt_init_fail) (use assms d in \<open>auto simp: built_def stages\<close>)
  have e: "held_im (im\<lparr>im_pool := c\<rparr>) = held_im (im\<lparr>im_pool := c, im_cmd := cb\<rparr>)" for cb by (simp add: held_im_def)
  have sync: "vt (init_sync im1 p) (init_post H R n) (held_im im1 \<union> R, n + 1, True)"
    if "im1 = im\<lparr>im_pool := c, im_cmd := cb, im_staging := b, im_staging_mem := m, im_staging_size := sz\<rparr>" "b \<noteq> 0" "m \<noteq> 0" "held_im im1 \<inter> R = {}"
    for im1 b m cb sz
    by (rule vt_init_sync) (use assms that 2 in \<open>auto simp: stages\<close>)
  show ?case unfolding d(2)
  proof (intro vt_bind vt_handle vt_option, goal_cases)
    case (4 h cb)
    show ?case unfolding e [of cb]
      by (rule vt_make_staging) (use assms d e [of cb] in \<open>auto intro!: fail sync\<close>)
  qed (use fail0 in simp_all)
qed

lemma vt_pick_physical: "(\<And>r. P r V) \<Longrightarrow> vt (pick_physical H surf) P V"
  unfolding pick_physical_def by (intro vts)

lemma vt_init_device:
  assumes "surface_ok H" "with_surface im" "im_dev im = 0" "im_swap im = 0" "im_frame_fence im = 0" "im_acquire_sem im = 0"
    "im_staging im = 0" "im_staging_mem im = 0" "im_pool im = 0" "held_im im \<inter> R = {}" "frame_ok R n" "cleared p"
  shows "vt (init_device H w h im p) (init_post H R n) (held_im im \<union> R, n + 1, True)"
  unfolding init_device_def Let_def
proof (rule vt_bind, rule vt_pick_physical, intro vt_option vt_make, goal_cases)
  case (1 r)
  show ?case by (rule vt_init_fail) (use assms in \<open>auto simp: built_def stages\<close>)
next
  case (2 r pq)
  show ?case by (rule vt_init_fail) (use assms in \<open>auto simp: built_def stages held_neutral\<close>)
next
  case (3 r pq d)
  let ?im = "\<lambda>q. im\<lparr>im_phys := Some (fst pq), im_qfam := snd pq, im_dev := d, im_queue := q\<rparr>"
  have h: "held_im (?im q) \<inter> R = {}" "insert (VkDevice, d) (held_im im \<union> R) = held_im (?im q) \<union> R" for q
    using 3 assms by (auto simp: held_ims)
  have fail: "vt (init_fail im2 p) (init_post H R n) (held_im im2 \<union> R, n + 1, True)"
    if "respun H b (?im q) im2" "held_im im2 \<inter> R = {}" for im2 b q
    by (rule vt_init_fail) (use 3 assms that(2) respun_fields [OF that(1)] in \<open>auto simp: built_def stages\<close>)
  have go: "vt (init_commands H w h im2 p) (init_post H R n) (held_im im2 \<union> R, n + 1, True)"
    if "respun H True (?im q) im2" "held_im im2 \<inter> R = {}" for im2 q
    by (rule vt_init_commands) (use 3 assms that(2) respun_fields [OF that(1)] in \<open>auto simp: stages\<close>)
  show ?case
  proof (intro vt_bind vt_ask, goal_cases)
    case (1 v)
    show ?case unfolding h(2) [of "vk_queue_of v d"]
      by (rule vt_make_swapchain [OF assms(1) h(1)]) (use fail go in auto)
  qed
qed

lemma vt_init_window:
  assumes "surface_ok H" "frame_ok R n" "cleared p"
  shows "vt (init_window H w h (Impl\<lparr>im_w := w, im_h := h, im_glfw_inited := True\<rparr>) p) (init_post H R n) (R, n + 1, True)"
proof -
  let ?im = "Impl\<lparr>im_w := w, im_h := h, im_glfw_inited := True\<rparr>"
  have e: "held_im ?im = {}" by (simp add: held_im_def obj_def Impl_def)
  have win: "held_im (?im\<lparr>im_win := a\<rparr>) = {(GlfwWindow, a)}" if "a \<noteq> 0" for a
    using that by (simp add: held_im_def obj_def Impl_def)
  have inst: "held_im (?im\<lparr>im_win := a, im_inst := b\<rparr>) = {(VkInstance, b), (GlfwWindow, a)}" if "a \<noteq> 0" "b \<noteq> 0" for a b
    using that by (auto simp: held_im_def obj_def Impl_def)
  have surf: "held_im (?im\<lparr>im_win := a, im_inst := b, im_surf := c\<rparr>) = {(VkSurface, c), (VkInstance, b), (GlfwWindow, a)}"
    if "a \<noteq> 0" "b \<noteq> 0" "c \<noteq> 0" for a b c using that by (auto simp: held_im_def obj_def Impl_def)
  have dev: "vt (init_device H w h (?im\<lparr>im_win := a, im_inst := b, im_surf := c\<rparr>) p) (init_post H R n)
      (insert (VkSurface, c) (insert (VkInstance, b) (insert (GlfwWindow, a) R)), n + 1, True)"
    if "a \<noteq> 0" "b \<noteq> 0" "c \<noteq> 0" "\<forall>k. (k, a) \<notin> R" "\<forall>k. (k, b) \<notin> insert (GlfwWindow, a) R"
      "\<forall>k. (k, c) \<notin> insert (VkInstance, b) (insert (GlfwWindow, a) R)" for a b c
    using vt_init_device [OF assms(1), where im = "?im\<lparr>im_win := a, im_inst := b, im_surf := c\<rparr>" and R = R] assms that surf [of a b c]
    by (auto simp: with_surface_def Impl_def)
  have fail: "vt (init_fail im1 p) (init_post H R n) (S, n + 1, True)" if "built im1" "held_im im1 \<inter> R = {}" "S = held_im im1 \<union> R" for im1 S
    by (rule vt_init_fail) (use assms that in auto)
  have bu: "built ?im" "\<And>a. built (?im\<lparr>im_win := a\<rparr>)" "\<And>a b. b \<noteq> 0 \<Longrightarrow> built (?im\<lparr>im_win := a, im_inst := b\<rparr>)"
    by (simp_all add: built_def Impl_def)
  show ?thesis
    unfolding init_window_def Let_def
  proof (rule vt_bind, rule vt_use, rule vt_make, goal_cases)
    case 1
    show ?case using bu(1) by (rule fail) (simp_all only: e Int_empty_left Un_empty_left)
  next
    case a: (2 a)
    have fa: "vt (init_fail (?im\<lparr>im_win := a\<rparr>) p) (init_post H R n) (insert (GlfwWindow, a) R, n + 1, True)"
      using bu(2) by (rule fail) (simp_all only: win [OF a(1)], use a in auto)
    show ?case
    proof (rule vt_bind, rule vt_ask, intro vt_if vt_make, goal_cases)
      case (3 v b)
      show ?case
      proof (rule vt_bind, rule vt_use, rule vt_make, goal_cases)
        case 1
        show ?case using bu(3) [OF 3(2)] by (rule fail) (simp_all only: inst [OF a(1) 3(2)], use a 3 in auto)
      next
        case (2 c)
        then show ?case using a 3 by (intro dev) auto
      qed
    qed (rule fa)+
  qed
qed

lemma vt_init:
  assumes "surface_ok H" "frame_ok R n" "p_inv H R n p V"
  shows "vt (presenter_init H w h p) (init_post H R n) V"
  unfolding presenter_init_def
proof (rule vt_bind, rule vt_shutdown [OF assms(3,2)], goal_cases)
  case (1 p1)
  then have c: "cleared p1" by (simp add: cleared_def)
  then have post: "init_post H R n (Some False, p1) (R, n, 0 < n)"
    using assms(2) by (auto simp: init_post_def p_inv_def held_def alive_def cleared_def frame_ok_def)
  have "vt (init_window H w h (Impl\<lparr>im_w := w, im_h := h, im_glfw_inited := True\<rparr>) p1) (init_post H R n) (R, n + 1, True)"
    by (rule vt_init_window) (use assms c in simp_all)
  then show ?case
    by (intro vt_if vt_return vt_bind vt_acquire) (use post assms(2) in \<open>auto simp: frame_ok_def intro!: vt_return\<close>)
qed

section \<open>Frames keep the books\<close>

definition op_post :: "present_host \<Rightarrow> vk_obj set \<Rightarrow> int \<Rightarrow> bool option \<times> presenter \<Rightarrow> view \<Rightarrow> bool" where
  "op_post H R n = (\<lambda>(r, p) V. r \<in> {Some True, Some False} \<and> p_inv H R n p V)"

lemma op_post_Some [simp]: "op_post H R n (Some b, p) V \<longleftrightarrow> p_inv H R n p V"
  by (cases b) (simp_all add: op_post_def)

lemma full_respun:
  assumes "full_im H im" "respun H b im im1" shows "full_im H im1"
  using assms(1) respun_fields [OF assms(2)] by (auto simp: full_im_def)

lemma p_inv_counters [simp]:
  "p_inv H R n (p\<lparr>pr_errors := e\<rparr>) V = p_inv H R n p V" "p_inv H R n (p\<lparr>pr_presents := e\<rparr>) V = p_inv H R n p V"
  by (simp_all add: p_inv_def held_def alive_def)

lemma p_inv_impl:
  assumes "p_inv H R n p V" "pr_impl p = Some im" "full_im H im1" "held_im im1 \<inter> R = {}"
  shows "p_inv H R n (p\<lparr>pr_impl := Some im1\<rparr>) (held_im im1 \<union> R, n + 1, True)" "V = (held_im im \<union> R, n + 1, True)"
    "held_im im \<inter> R = {}" "full_im H im"
  using assms by (auto simp: p_inv_def held_def alive_def)

lemma vt_count_error: "p_inv H R n p V \<Longrightarrow> vt (count_error p) (op_post H R n) V"
  unfolding count_error_def by (intro vt_return) (simp add: op_post_def)

lemma vt_respin:
  assumes "surface_ok H" "p_inv H R n p V" "pr_impl p = Some im"
    "\<And>b im1. p_inv H R n (p\<lparr>pr_impl := Some im1\<rparr>) (held_im im1 \<union> R, n + 1, True) \<Longrightarrow> P (Some b, im1) (held_im im1 \<union> R, n + 1, True)"
  shows "vt (make_swapchain H im) P V"
proof -
  have i: "V = (held_im im \<union> R, n + 1, True)" "held_im im \<inter> R = {}" "full_im H im"
    using assms(2,3) by (auto simp: p_inv_def held_def alive_def)
  show ?thesis unfolding i(1)
    by (rule vt_make_swapchain [OF assms(1) i(2)]) (auto intro!: assms(4) p_inv_impl(1) [OF assms(2,3)] full_respun [OF i(3)])
qed

lemma vt_put_quiet:
  assumes "\<And>v. vk_calls (f v) = vk_calls v \<and> vk_results (f v) = vk_results v \<and> vk_misuse (f v) = vk_misuse v \<and>
    vk_live (f v) = vk_live v \<and> g_glfw_refs (f v) = g_glfw_refs v \<and> ws_glfw (f v) = ws_glfw v" "P () V"
  shows "vt (ws_put f) P V"
  by (rule vt_put) (use assms in \<open>auto simp: ws_view_def\<close>)

lemma vt_queue_present: "(\<And>r. P r V) \<Longrightarrow> vt (queue_present H swap idx) P V"
  unfolding queue_present_def by (intro vts vt_put_quiet) auto

lemma vt_submit_wait: "(\<And>b. P b V) \<Longrightarrow> vt (submit_wait cb sem) P V"
  unfolding submit_wait_def by (intro vts vt_put_quiet) auto

lemma vt_acquire_image: "(\<And>v. P (ph_acquire H v swap) V) \<Longrightarrow> vt (acquire_image H swap sem) P V"
  unfolding acquire_image_def by (intro vts vt_put_quiet) auto

lemma vt_present_frame:
  assumes "surface_ok H" "p_inv H R n p V" "pr_impl p = Some im"
  shows "vt (present_frame H idx im p) (op_post H R n) V"
  unfolding present_frame_def
  by (intro vt_bind vt_queue_present vt_if vt_try vt_respin [OF assms] vt_count_error vt_prod vt_return)
    (use assms in \<open>auto simp: op_post_def\<close>)

lemma vt_record_frame: "P () V \<Longrightarrow> vt (record_frame img im p) P V"
  unfolding record_frame_def present_transition_def by (intro vts)

lemma vt_draw_frame:
  assumes "surface_ok H" "p_inv H R n p V" "pr_impl p = Some im" "unat idx < length (im_images im)"
  shows "vt (draw_frame H idx im p) (op_post H R n) V"
  unfolding draw_frame_def using assms
  by (intro vt_bind vt_try vt_begin vt_if vt_count_error vt_record_frame vt_submit_wait vt_present_frame vt_return) auto

lemma vt_upload_frame:
  assumes "surface_ok H" "p_inv H R n p V" "pr_impl p = Some im" "unat (frame_bytes w h) \<le> length px"
  shows "vt (upload_frame H px w h im p) (op_post H R n) V"
  unfolding upload_frame_def Let_def
proof (intro vt_if vt_count_error [OF assms(2)] vt_bind vt_try vt_return vt_put_quiet vt_acquire_image vt_prod, goal_cases)
  case (1 b)
  then show ?case using assms(4) by simp
next
  case (3 b v a idx)
  show ?case
    by (rule vt_respin [OF assms(1-3)]) (auto intro!: vt_return vt_count_error)
next
  case (4 b v a idx)
  have "im_images im = ph_images H (im_swap im)" using assms(2,3) by (simp add: p_inv_def full_im_def)
  moreover have "acquired a" "ph_acquire H v (im_swap im) = (a, idx)" using 4 by simp_all
  ultimately have "unat idx < length (im_images im)" using assms(1) unfolding surface_ok_def by (metis fst_conv snd_conv)
  then show ?case by (rule vt_draw_frame [OF assms(1-3)])
qed simp_all

lemma vt_upload:
  assumes "surface_ok H" "p_inv H R n p V" "\<And>px. pixels = Some px \<Longrightarrow> unat (frame_bytes w h) \<le> length px"
  shows "vt (upload_and_present H pixels w h p) (op_post H R n) V"
  unfolding upload_and_present_def prod.case
  by (cases "pr_impl p"; cases pixels) (auto intro!: vt_if vt_count_error vt_upload_frame assms)

lemma vt_poll:
  assumes "p_inv H R n p V" "\<And>b. P b V"
  shows "vt (presenter_poll H p) P V" "vt (presenter_should_close H p) P V"
proof -
  obtain S r where V: "pr_impl p \<noteq> None \<Longrightarrow> V = (S, r, True)" using assms(1) by (auto simp: p_inv_def alive_def)
  show "vt (presenter_poll H p) P V" "vt (presenter_should_close H p) P V"
    unfolding presenter_poll_def presenter_should_close_def
    using assms(2) V by (auto split: option.split intro!: vts)
qed

section \<open>Presenters that share a process\<close>

text \<open>A client with any number of presenters, which it names by position. A call on a position that
  does not exist is no call. The log keeps what the calls returned.\<close>

datatype present_op = PInit nat u32 u32 | PShutdown nat | PUpload nat "u8 list option" u32 u32 | PPoll nat

fun op_index :: "present_op \<Rightarrow> nat" where
  "op_index (PInit i w h) = i" | "op_index (PShutdown i) = i" | "op_index (PUpload i px w h) = i" | "op_index (PPoll i) = i"

fun exec_op :: "present_host \<Rightarrow> present_op \<Rightarrow> presenter \<Rightarrow> (wsi, bool option \<times> presenter) state" where
  "exec_op H (PInit i w h) p = presenter_init H w h p"
| "exec_op H (PShutdown i) p = do { p1 \<leftarrow> presenter_shutdown p; State_Monad.return (Some True, p1) }"
| "exec_op H (PUpload i px w h) p = upload_and_present H px w h p"
| "exec_op H (PPoll i) p = do { b \<leftarrow> presenter_poll H p; State_Monad.return (Some b, p) }"

fun exec_ops :: "present_host \<Rightarrow> present_op list \<Rightarrow> presenter list \<Rightarrow> (wsi, bool option list \<times> presenter list) state" where
  "exec_ops H [] ps = State_Monad.return ([], ps)"
| "exec_ops H (x # xs) ps =
     (if op_index x < length ps then do {
        (r, p) \<leftarrow> exec_op H x (ps ! op_index x);
        (rs, ps1) \<leftarrow> exec_ops H xs (ps[op_index x := p]);
        State_Monad.return (r # rs, ps1) }
      else exec_ops H xs ps)"

text \<open>The caller's side of \<open>upload_and_present\<close>: the array has the size it says.\<close>

fun op_ok :: "present_op \<Rightarrow> bool" where
  "op_ok (PUpload i (Some px) w h) \<longleftrightarrow> unat (frame_bytes w h) \<le> length px"
| "op_ok _ \<longleftrightarrow> True"

definition others :: "vk_obj set \<Rightarrow> presenter list \<Rightarrow> nat \<Rightarrow> vk_obj set" where
  "others L ps i = L \<union> (\<Union>j\<in>{..<length ps} - {i}. held (ps ! j))"

definition count_others :: "presenter list \<Rightarrow> nat \<Rightarrow> int" where
  "count_others ps i = (\<Sum>j\<in>{..<length ps} - {i}. alive (ps ! j))"

definition all_inv :: "present_host \<Rightarrow> vk_obj set \<Rightarrow> presenter list \<Rightarrow> view \<Rightarrow> bool" where
  "all_inv H L ps V \<longleftrightarrow> (\<forall>x\<in>L. fst x \<noteq> GlfwWindow) \<and> (\<forall>i<length ps. p_inv H (others L ps i) (count_others ps i) (ps ! i) V)"

lemma alive_range: "0 \<le> alive p" "alive p = 0 \<longleftrightarrow> pr_impl p = None"
  by (auto simp: alive_def)

lemma frame_others:
  assumes "all_inv H L ps V" shows "frame_ok (others L ps i) (count_others ps i)"
  unfolding frame_ok_def
proof (intro conjI impI ballI)
  show "0 \<le> count_others ps i" by (simp add: count_others_def sum_nonneg alive_range)
  fix x assume z: "count_others ps i = 0" and x: "x \<in> others L ps i"
  have "\<forall>j\<in>{..<length ps} - {i}. alive (ps ! j) = 0"
    using z by (subst (asm) count_others_def) (simp add: sum_nonneg_eq_0_iff alive_range)
  then have "others L ps i = L" by (auto simp: others_def held_def alive_range)
  then show "fst x \<noteq> GlfwWindow" using x assms by (auto simp: all_inv_def)
qed

lemma all_inv_update:
  assumes "all_inv H L ps V" "i < length ps" "p_inv H (others L ps i) (count_others ps i) p V1"
  shows "all_inv H L (ps[i := p]) V1"
  unfolding all_inv_def
proof (intro conjI allI impI)
  show "\<forall>x\<in>L. fst x \<noteq> GlfwWindow" using assms(1) by (simp add: all_inv_def)
  fix j assume "j < length (ps[i := p])"
  then have j: "j < length ps" by simp
  have same: "others L (ps[i := p]) i = others L ps i" "count_others (ps[i := p]) i = count_others ps i"
    by (auto simp: others_def count_others_def intro!: sum.cong)
  show "p_inv H (others L (ps[i := p]) j) (count_others (ps[i := p]) j) (ps[i := p] ! j) V1"
  proof (cases "j = i")
    case True
    then show ?thesis using assms(2,3) same by simp
  next
    case False
    let ?A = "{..<length ps} - {i, j}"
    have a: "{..<length ps} - {i} = insert j ?A" "{..<length ps} - {j} = insert i ?A" using j assms(2) False by auto
    have o: "others L ps i = held (ps ! j) \<union> (L \<union> (\<Union>k\<in>?A. held (ps ! k)))" unfolding others_def a(1) by auto
    have o': "others L (ps[i := p]) j = held p \<union> (L \<union> (\<Union>k\<in>?A. held (ps ! k)))"
      unfolding others_def length_list_update a(2) using assms(2) by (auto simp: nth_list_update)
    have c: "count_others ps i = alive (ps ! j) + (\<Sum>k\<in>?A. alive (ps ! k))" unfolding count_others_def a(1) by simp
    have c': "count_others (ps[i := p]) j = alive p + (\<Sum>k\<in>?A. alive (ps ! k))"
      unfolding count_others_def length_list_update a(2) using assms(2) by (simp add: nth_list_update)
    have old: "p_inv H (others L ps j) (count_others ps j) (ps ! j) V" using assms(1) j by (simp add: all_inv_def)
    have "held (ps ! j) \<inter> others L ps j = {}" using old by (simp add: p_inv_def)
    moreover have "(L \<union> (\<Union>k\<in>?A. held (ps ! k))) \<subseteq> others L ps j" by (auto simp: others_def)
    ultimately have d: "held (ps ! j) \<inter> (L \<union> (\<Union>k\<in>?A. held (ps ! k))) = {}" by auto
    have n: "0 \<le> (\<Sum>k\<in>?A. alive (ps ! k))" by (simp add: sum_nonneg alive_range)
    show ?thesis using old assms(3) d n alive_range(1) [of p] False
      unfolding p_inv_def o o' c c' by (auto simp: add.commute add.left_commute)
  qed
qed

lemma vt_exec_op:
  assumes "surface_ok H" "op_ok x" "frame_ok R n" "p_inv H R n p V"
  shows "vt (exec_op H x p) (op_post H R n) V"
proof (cases x)
  case (PInit i w h)
  show ?thesis unfolding PInit exec_op.simps
    by (rule vt_mono [OF vt_init [OF assms(1,3,4)]]) (auto simp: init_post_def op_post_def)
next
  case (PShutdown i)
  show ?thesis unfolding PShutdown exec_op.simps
    by (intro vt_bind vt_shutdown [OF assms(4,3)] vt_return) (use assms(3) in \<open>auto simp: p_inv_def held_def alive_def frame_ok_def\<close>)
next
  case (PUpload i px w h)
  show ?thesis unfolding PUpload exec_op.simps
    by (rule vt_upload [OF assms(1,4)]) (use assms(2) PUpload in auto)
next
  case (PPoll i)
  show ?thesis unfolding PPoll exec_op.simps
    by (intro vt_bind vt_poll(1) [OF assms(4)] vt_return) (use assms(4) in simp)
qed

lemma vt_step:
  assumes "surface_ok H" "op_ok x" "all_inv H L ps V" "op_index x < length ps"
    "\<And>r p V1. r \<noteq> None \<Longrightarrow> all_inv H L (ps[op_index x := p]) V1 \<Longrightarrow> vt (f r p) P V1"
  shows "vt (do { (r, p) \<leftarrow> exec_op H x (ps ! op_index x); f r p }) P V"
proof (rule vt_bind, rule vt_mono [OF vt_exec_op [OF assms(1,2) frame_others [OF assms(3)]]])
  show "p_inv H (others L ps (op_index x)) (count_others ps (op_index x)) (ps ! op_index x) V"
    using assms(3,4) by (simp add: all_inv_def)
  fix rp V1 assume "op_post H (others L ps (op_index x)) (count_others ps (op_index x)) rp V1"
  then show "vt (case rp of (r, p) \<Rightarrow> f r p) P V1"
    by (intro vt_prod assms(5) all_inv_update [OF assms(3,4)]) (auto simp: op_post_def)
qed

lemma vt_exec_ops:
  assumes "surface_ok H" "all_inv H L ps V" "\<forall>x\<in>set xs. op_ok x"
  shows "vt (exec_ops H xs ps) (\<lambda>(rs, ps1) V1. None \<notin> set rs \<and> length ps1 = length ps \<and> all_inv H L ps1 V1) V"
  using assms(2,3)
proof (induction xs arbitrary: ps V)
  case (Cons x xs)
  show ?case unfolding exec_ops.simps
  proof (intro vt_if, goal_cases)
    case 1
    show ?case
      by (rule vt_step [OF assms(1) _ Cons.prems(1) 1])
        (use Cons.prems(2) in \<open>auto intro!: vt_bind vt_return intro: vt_mono [OF Cons.IH]\<close>)
  qed (use Cons in simp)
qed (auto intro!: vt_return)

lemma vt_shutdown_all:
  assumes "surface_ok H" "all_inv H L ps V"
  shows "vt (exec_ops H (map PShutdown is) ps)
    (\<lambda>(rs, ps1) V1. length ps1 = length ps \<and> all_inv H L ps1 V1 \<and>
      (\<forall>j < length ps. j \<in> set is \<or> pr_impl (ps ! j) = None \<longrightarrow> pr_impl (ps1 ! j) = None)) V"
  using assms(2)
proof (induction "is" arbitrary: ps V)
  case (Cons i "is")
  show ?case unfolding list.map exec_ops.simps op_index.simps exec_op.simps
  proof (intro vt_if, goal_cases)
    case 1
    note p = Cons.prems [unfolded all_inv_def, THEN conjunct2, rule_format, OF 1]
    let ?p = "(ps ! i)\<lparr>pr_impl := None, pr_valid := False, pr_width := 0, pr_height := 0\<rparr>"
    have inv: "p_inv H (others L ps i) (count_others ps i) ?p (others L ps i, count_others ps i, 0 < count_others ps i)"
      using frame_others [OF Cons.prems, of i] by (simp add: p_inv_def held_def alive_def frame_ok_def)
    have k: "pr_impl (ps[i := ?p] ! j) = None \<longleftrightarrow> j = i \<or> pr_impl (ps ! j) = None" if "j < length ps" for j
      using that 1 by (simp add: nth_list_update)
    show ?case
      by (intro vt_bind vt_shutdown [OF p frame_others [OF Cons.prems]] vt_return)
        (auto intro!: vt_bind vt_return vt_mono [OF Cons.IH [OF all_inv_update [OF Cons.prems 1 inv]]] simp: k)
  qed (use Cons in \<open>auto intro!: vt_mono [OF Cons.IH]\<close>)
qed (auto intro!: vt_return)

lemma alive_sum: "\<forall>p\<in>set ps. pr_valid p = (pr_impl p \<noteq> None) \<Longrightarrow> (\<Sum>j<length ps. alive (ps ! j)) = int (length (filter pr_valid ps))"
proof (induction ps rule: rev_induct)
  case (snoc p ps)
  then show ?case by (simp add: nth_append alive_def)
qed simp

lemma all_inv_valid: "all_inv H L ps V \<Longrightarrow> p \<in> set ps \<Longrightarrow> pr_valid p = (pr_impl p \<noteq> None)"
  by (auto simp: all_inv_def p_inv_def in_set_conv_nth)

lemma all_inv_view:
  assumes "all_inv H L ps V" "ps \<noteq> []"
  shows "V = (L \<union> (\<Union>p\<in>set ps. held p), int (length (filter pr_valid ps)), \<exists>p\<in>set ps. pr_valid p)"
proof -
  have 0: "p_inv H (others L ps 0) (count_others ps 0) (ps ! 0) V" and all: "\<forall>p\<in>set ps. pr_valid p = (pr_impl p \<noteq> None)"
    using assms all_inv_valid [OF assms(1)] by (auto simp: all_inv_def)
  have i: "{..<length ps} = insert 0 ({..<length ps} - {0})" using assms(2) by auto
  have "(\<Union>p\<in>set ps. held p) = (\<Union>j\<in>{..<length ps}. held (ps ! j))" by (auto simp: in_set_conv_nth) (metis nth_mem)
  also have "\<dots> = held (ps ! 0) \<union> (\<Union>j\<in>{..<length ps} - {0}. held (ps ! j))" by (subst i) (simp only: UN_insert)
  finally have s: "L \<union> (\<Union>p\<in>set ps. held p) = held (ps ! 0) \<union> others L ps 0" by (auto simp: others_def)
  have "(\<Sum>j<length ps. alive (ps ! j)) = alive (ps ! 0) + count_others ps 0"
    unfolding count_others_def by (rule sum.remove) (use assms(2) in auto)
  then have c: "count_others ps 0 + alive (ps ! 0) = int (length (filter pr_valid ps))" using alive_sum [OF all] by simp
  have "0 < length (filter pr_valid ps) \<longleftrightarrow> (\<exists>p\<in>set ps. pr_valid p)" by (auto simp: filter_empty_conv)
  then show ?thesis using 0 s c by (simp add: p_inv_def)
qed

section \<open>Property\<close>

text \<open>(C31) Presenters keep the books, together. Whatever calls a client makes on any number of
  presenters, with whatever results of GLFW and Vulkan, no call is undefined, no object is destroyed
  twice and GLFW is never used while it is not initialised. The live objects are those of before and
  those of the valid presenters, GLFW has one reference per valid presenter and is initialised as
  long as there is one, so a failing or closing presenter never takes away the window of another.
  Shutting all presenters down restores the state of before.\<close>

theorem presenters_share_host:
  assumes host: "surface_ok H" "vk_ok v" "\<forall>x\<in>set (vk_live v). fst x \<noteq> GlfwWindow" "g_glfw_refs v = 0" "\<not> ws_glfw v"
    and ops: "\<forall>x\<in>set xs. op_ok x" and run: "run_state (exec_ops H xs (replicate (Suc n) VulkanPresenter)) v = ((rs, ps), v1)"
  shows "None \<notin> set rs \<and> vk_ok v1 \<and> set (vk_live v1) = set (vk_live v) \<union> (\<Union>p\<in>set ps. held p) \<and>
    g_glfw_refs v1 = int (length (filter pr_valid ps)) \<and> ws_glfw v1 = (\<exists>p\<in>set ps. pr_valid p) \<and>
    (\<forall>rs' ps' v2. run_state (exec_ops H (map PShutdown [0..<Suc n]) ps) v1 = ((rs', ps'), v2) \<longrightarrow>
       vk_ok v2 \<and> set (vk_live v2) = set (vk_live v) \<and> g_glfw_refs v2 = 0 \<and> \<not> ws_glfw v2)"
proof -
  let ?L = "set (vk_live v)"
  have e: "held VulkanPresenter = {}" "alive VulkanPresenter = 0" by (simp_all add: held_def alive_def VulkanPresenter_def)
  then have "others ?L (replicate (Suc n) VulkanPresenter) i = ?L" "count_others (replicate (Suc n) VulkanPresenter) i = 0" for i
    by (auto simp: others_def count_others_def simp del: replicate_Suc)
  then have init: "all_inv H ?L (replicate (Suc n) VulkanPresenter) (ws_view v)"
    using host e by (auto simp: all_inv_def p_inv_def ws_view_def VulkanPresenter_def simp del: replicate_Suc)
  have r: "vk_ok v1" "None \<notin> set rs" "length ps = Suc n" "all_inv H ?L ps (ws_view v1)"
    using books.tripleD [OF vt_exec_ops [OF host(1) init ops] host(2) run] by simp_all
  then have w: "ws_view v1 = (?L \<union> (\<Union>p\<in>set ps. held p), int (length (filter pr_valid ps)), \<exists>p\<in>set ps. pr_valid p)"
    by (intro all_inv_view) auto
  have "vk_ok v2 \<and> set (vk_live v2) = ?L \<and> g_glfw_refs v2 = 0 \<and> \<not> ws_glfw v2"
    if stop: "run_state (exec_ops H (map PShutdown [0..<Suc n]) ps) v1 = ((rs', ps'), v2)" for rs' ps' v2
  proof -
    have s: "vk_ok v2" "length ps' = Suc n" "all_inv H ?L ps' (ws_view v2)" "\<forall>p\<in>set ps'. pr_impl p = None"
      using books.tripleD [OF vt_shutdown_all [OF host(1) r(4)] r(1) stop] r(3) by (auto simp: in_set_conv_nth simp del: upt_Suc)
    then have "\<forall>p\<in>set ps'. \<not> pr_valid p \<and> held p = {}" using all_inv_valid [OF s(3)] by (auto simp: held_def)
    moreover have "ws_view v2 = (?L \<union> (\<Union>p\<in>set ps'. held p), int (length (filter pr_valid ps')), \<exists>p\<in>set ps'. pr_valid p)"
      by (rule all_inv_view [OF s(3)]) (use s(2) in auto)
    ultimately show ?thesis using s(1) by (auto simp: ws_view_def)
  qed
  then show ?thesis using r w by (simp add: ws_view_def)
qed

definition demo_host :: present_host where
  "demo_host = \<lparr>ph_instance_exts = (\<lambda>_. 2), ph_sort = id, ph_device_exts = (\<lambda>_. [SWAPCHAIN_EXT]), ph_support = (\<lambda>_ _ _. Some True),
     ph_caps = (\<lambda>_ _. \<lparr>sc_min_w = 1, sc_min_h = 1, sc_max_w = 4096, sc_max_h = 4096, sc_min_count = 2, sc_max_count = 0, sc_transform = 1\<rparr>),
     ph_formats = (\<lambda>_ _. [(B8G8R8A8_UNORM, 0)]), ph_modes = (\<lambda>_ _. [FIFO]), ph_images = (\<lambda>_. [101, 102]), ph_type_bits = (\<lambda>_. 1),
     ph_acquire = (\<lambda>_ _. (VK_SUCCESS, 1)), ph_present = (\<lambda>_ _ _. VK_SUCCESS), ph_should_close = (\<lambda>_ _. False)\<rparr>"

definition demo_wsi :: wsi where
  "demo_wsi = vk.extend (demo_vk [demo_gpu]) \<lparr>g_glfw_refs = 0, ws_glfw = False, ws_signalled = {}, ws_resignalled = False,
     ws_bytes = (\<lambda>_. []), ws_swapchains = (\<lambda>_. None), ws_presented = [], ws_acquired = []\<rparr>"

lemma demo_host_ok: "surface_ok demo_host"
  by (simp add: surface_ok_def demo_host_def acquired_def)

lemma demo_wsi_ok: "vk_ok demo_wsi" "vk_live demo_wsi = []" "g_glfw_refs demo_wsi = 0" "\<not> ws_glfw demo_wsi"
proof -
  have "vk_ok (demo_vk [demo_gpu])" by (rule demo_vk_ok)
  then show "vk_ok demo_wsi" by (simp add: vk_ok_def demo_wsi_def vk.defs)
qed (simp_all add: demo_wsi_def vk.defs demo_vk_def)

theorem presenters_share_host_witness:
  "\<exists>rs ps v1. run_state (exec_ops demo_host [PInit 0 4 2, PUpload 0 (Some (replicate 32 7)) 4 2, PInit 1 8 8] (replicate (Suc 1) VulkanPresenter)) demo_wsi = ((rs, ps), v1) \<and>
     None \<notin> set rs \<and> vk_ok v1 \<and> g_glfw_refs v1 = int (length (filter pr_valid ps)) \<and>
     (\<forall>rs' ps' v2. run_state (exec_ops demo_host (map PShutdown [0..<Suc 1]) ps) v1 = ((rs', ps'), v2) \<longrightarrow> vk_live v2 = [] \<and> \<not> ws_glfw v2)"
proof -
  let ?xs = "[PInit 0 4 2, PUpload 0 (Some (replicate 32 7)) 4 2, PInit 1 8 8]"
  obtain rs ps v1 where run: "run_state (exec_ops demo_host ?xs (replicate (Suc 1) VulkanPresenter)) demo_wsi = ((rs, ps), v1)"
    by (metis prod.exhaust)
  have "\<forall>x\<in>set ?xs. op_ok x" by (simp add: frame_bytes_def)
  from presenters_share_host [OF demo_host_ok demo_wsi_ok(1) _ demo_wsi_ok(3,4) this run] show ?thesis
    using run demo_wsi_ok(2) by auto
qed

end
