(* ===== verification/Vk_Frame.thy ===== *)
theory Vk_Frame
  imports Vk_Present_Props "HOL-Library.Multiset"
begin

text \<open>
  What a frame does (\<open>VulkanPresenter::upload_and_present\<close>, \<open>src/src/vulkan_present.cpp\<close>): the second
  view of the logic of \<open>Vk_Present_Props\<close>, on the commands, the presented images, the staging memory
  and the semaphore; the byte order of the upload; the choice of the device.
\<close>

named_theorems fts \<open>rules of the logic on frames\<close>

section \<open>The view of a frame\<close>

record frame =
  fr_submitted :: "vk_cmd list"
  fr_recorded :: "u64 \<Rightarrow> vk_cmd list"
  fr_presented :: "(u64 \<times> u32 \<times> vk_result) list"
  fr_acquired :: "(u64 \<times> vk_result \<times> u32) list"
  fr_swapchains :: "u64 \<Rightarrow> swapchain_info option"
  fr_bytes :: "u64 \<Rightarrow> u8 list"
  fr_signalled :: "u64 set"

definition frame_view :: "wsi \<Rightarrow> frame" where
  "frame_view v = \<lparr>fr_submitted = vk_submitted v, fr_recorded = vk_recorded v, fr_presented = ws_presented v,
     fr_acquired = ws_acquired v, fr_swapchains = ws_swapchains v, fr_bytes = ws_bytes v, fr_signalled = ws_signalled v\<rparr>"

interpretation frames: view_logic "\<lambda>v :: wsi. True" frame_view .

abbreviation ft :: "(wsi, 'a) state \<Rightarrow> ('a \<Rightarrow> frame \<Rightarrow> bool) \<Rightarrow> frame \<Rightarrow> bool" where
  "ft \<equiv> frames.triple"

lemmas ft_mono = frames.mono
lemmas [fts] = frames.return frames.bind frames.cond frames.option frames.pair

lemma ft_silent:
  assumes "\<And>v a t. run_state m v = (a, t) \<Longrightarrow> frame_view t = frame_view v" "\<And>a. P a F"
  shows "ft m P F"
  by (rule frames.tripleI) (use assms in auto)

lemma ft_try [fts]: "(\<And>b. P b F) \<Longrightarrow> ft vk_try P F"
  by (rule ft_silent) (auto simp: vk_try_def vk_call_def Let_def frame_view_def split: option.splits)

lemma ft_create [fts]: "(\<And>r. P r F) \<Longrightarrow> ft (vk_create k) P F"
  by (rule ft_silent) (auto simp: vk_create_def vk_call_def Let_def frame_view_def split: option.splits)

lemma ft_destroy [fts]: "P () F \<Longrightarrow> ft (vk_destroy k h) P F"
  by (rule ft_silent) (auto simp: vk_destroy_def frame_view_def)

lemma ft_when [fts]: "(b \<Longrightarrow> ft m P F) \<Longrightarrow> (\<not> b \<Longrightarrow> P () F) \<Longrightarrow> ft (vk_when b m) P F"
  by (auto simp: vk_when_def intro: fts)

lemma ft_ask [fts]: "(\<And>v. P (f v) F) \<Longrightarrow> ft (vk_ask f) P F"
  by (rule frames.tripleI) (auto simp: vk_ask_def)

lemma ft_put: "(\<And>v. frame_view (f v) = g (frame_view v)) \<Longrightarrow> P () (g F) \<Longrightarrow> ft (ws_put f) P F"
  by (rule frames.tripleI) (auto simp: ws_put_def)

lemma ft_begin [fts]:
  "P False F \<Longrightarrow> P True (F\<lparr>fr_recorded := (fr_recorded F)(cb := [])\<rparr>) \<Longrightarrow> ft (vk_begin cb) P F"
  by (rule frames.tripleI) (auto simp: vk_begin_def vk_try_def vk_call_def Let_def frame_view_def State_Monad.bind_def split: if_splits option.splits)

lemma ft_record [fts]:
  "P () (F\<lparr>fr_recorded := (fr_recorded F)(cb := fr_recorded F cb @ [c])\<rparr>) \<Longrightarrow> ft (vk_record cb c) P F"
  by (rule frames.tripleI) (auto simp: vk_record_def frame_view_def)

lemma ft_queue_submit [fts]:
  "P False F \<Longrightarrow> P True (F\<lparr>fr_submitted := fr_submitted F @ fr_recorded F cb\<rparr>) \<Longrightarrow> ft (vk_queue_submit cb) P F"
  by (rule frames.tripleI)
    (auto simp: vk_queue_submit_def vk_try_def vk_call_def Let_def frame_view_def State_Monad.bind_def split: if_splits option.splits)

lemma ft_submit_wait:
  "P False F \<Longrightarrow> P True (F\<lparr>fr_submitted := fr_submitted F @ fr_recorded F cb, fr_signalled := fr_signalled F - {sem}\<rparr>) \<Longrightarrow>
     ft (submit_wait cb sem) P F"
  unfolding submit_wait_def
  by (intro fts ft_put [where g = "\<lambda>F. F\<lparr>fr_signalled := fr_signalled F - {sem}\<rparr>"]) (auto simp: frame_view_def)

lemma ft_queue_present:
  "(\<And>r. P r (F\<lparr>fr_presented := fr_presented F @ [(swap, idx, r)]\<rparr>)) \<Longrightarrow> ft (queue_present H swap idx) P F"
  unfolding queue_present_def
  by (rule fts, rule ft_ask, rule fts, rule ft_try, rule fts)
    (rule ft_put [where g = "\<lambda>F. F\<lparr>fr_presented := fr_presented F @ [(swap, idx, r)]\<rparr>" for r], auto simp: frame_view_def intro: fts)

definition after_acquire :: "u64 \<Rightarrow> u64 \<Rightarrow> vk_result \<times> u32 \<Rightarrow> frame \<Rightarrow> frame" where
  "after_acquire swap sem res F = F\<lparr>fr_acquired := fr_acquired F @ [(swap, fst res, snd res)],
     fr_signalled := if acquired (fst res) then insert sem (fr_signalled F) else fr_signalled F\<rparr>"

lemma ft_acquire_image:
  assumes "\<And>v. P (ph_acquire H v swap) (after_acquire swap sem (ph_acquire H v swap) F)"
  shows "ft (acquire_image H swap sem) P F"
  unfolding acquire_image_def
proof (intro frames.bind ft_ask ft_try, goal_cases)
  case (1 v b)
  let ?r = "ph_acquire H v swap" and ?g = "\<lambda>F. F\<lparr>fr_acquired := fr_acquired F @ [(swap, fst (ph_acquire H v swap), snd (ph_acquire H v swap))]\<rparr>"
  let ?h = "\<lambda>F. if acquired (fst ?r) then F\<lparr>fr_signalled := insert sem (fr_signalled F)\<rparr> else F"
  have "ft (State_Monad.return ?r) P (?h (?g F))" using assms [of v] by (intro fts) (simp add: after_acquire_def split: if_splits)
  then show ?case
    by (intro ft_put [where g = ?g] frames.bind ft_put [where g = ?h]) (auto simp: frame_view_def)
qed

section \<open>Swapchains\<close>

text \<open>The formats in which blue is the first byte of a pixel.\<close>

fun blue_first :: "vk_format \<Rightarrow> bool" where
  "blue_first B8G8R8A8_UNORM = True"
| "blue_first B8G8R8A8_SRGB = True"
| "blue_first _ = False"

lemma is_bgra_blue_first: "is_bgra f = blue_first f"
  by (cases f) (simp_all add: is_bgra_def)

text \<open>The description of a presenter agrees with its swapchain: it swaps red and blue exactly when the
  images were created with a format that has blue first, and it lists their images.\<close>

definition matched :: "present_host \<Rightarrow> impl \<Rightarrow> (u64 \<Rightarrow> swapchain_info option) \<Rightarrow> bool" where
  "matched H im S \<longleftrightarrow> (\<exists>si. S (im_swap im) = Some si \<and> im_swizzle_rb im = blue_first (si_format si)) \<and> im_images im = ph_images H (im_swap im)"

text \<open>What an attempt to replace the swapchain leads to: a new swapchain in the place of the old one,
  which is usable when it has images, or nothing.\<close>

definition remade :: "present_host \<Rightarrow> impl \<Rightarrow> bool \<Rightarrow> impl \<Rightarrow> (u64 \<Rightarrow> swapchain_info option) \<Rightarrow> (u64 \<Rightarrow> swapchain_info option) \<Rightarrow> bool" where
  "remade H im ok im1 S S1 \<longleftrightarrow>
     (\<exists>si. S1 = S(im_swap im1 \<mapsto> si) \<and> si_old si = im_swap im \<and> matched H im1 S1 \<and> ok = (im_images im1 \<noteq> [])) \<or>
     \<not> ok \<and> S1 = S \<and> im_swap im1 = im_swap im \<and> im_images im1 = im_images im"

lemma ft_create_swapchain:
  assumes "P None F" "\<And>s. P (Some s) (F\<lparr>fr_swapchains := (fr_swapchains F)(s \<mapsto> si)\<rparr>)"
  shows "ft (create_swapchain si) P F"
  unfolding create_swapchain_def
proof (intro frames.bind ft_create frames.option, goal_cases)
  case (2 r s)
  show ?case by (rule ft_put [where g = "\<lambda>F. F\<lparr>fr_swapchains := (fr_swapchains F)(s \<mapsto> si)\<rparr>"]) (auto simp: frame_view_def intro!: frames.return assms)
qed (auto intro!: frames.return assms)

lemma ft_replace_swapchain:
  assumes "surface_ok H" "im_swap im0 = im_swap im" "im_images im0 = im_images im"
    "\<And>ok im1 S1. remade H im ok im1 (fr_swapchains F) S1 \<Longrightarrow> P (Some ok, im1) (F\<lparr>fr_swapchains := S1\<rparr>)"
  shows "ft (replace_swapchain H caps chosen im0) P F"
  unfolding replace_swapchain_def Let_def
proof (intro frames.bind ft_ask, goal_cases)
  case (1 v)
  obtain mode where mode: "choose_mode (ph_modes H v (im_surf im0)) = Some mode" using choose_mode_ok assms(1) by (metis surface_ok_def)
  let ?im = "im0\<lparr>im_format := fst chosen, im_swizzle_rb := is_bgra (fst chosen)\<rparr>"
  have none: "P (Some False, ?im) F"
    using assms(4) [of False ?im "fr_swapchains F"] assms(2,3) by (simp add: remade_def)
  have some: "P (Some (ph_images H s \<noteq> []), ?im\<lparr>im_swap := s, im_images := ph_images H s\<rparr>) (F\<lparr>fr_swapchains := (fr_swapchains F)(s \<mapsto> si)\<rparr>)"
    if "si_old si = im_swap im0" "si_format si = fst chosen" for s si
    using that assms(2) by (intro assms(4)) (simp add: remade_def matched_def is_bgra_blue_first, blast)
  show ?case using mode none some
    by (auto intro!: frames.bind ft_create_swapchain frames.option frames.return ft_when ft_destroy)
qed

lemma ft_make_swapchain:
  assumes "surface_ok H" "\<And>ok im1 S1. remade H im ok im1 (fr_swapchains F) S1 \<Longrightarrow> P (Some ok, im1) (F\<lparr>fr_swapchains := S1\<rparr>)"
  shows "ft (make_swapchain H im) P F"
  unfolding make_swapchain_def Let_def
proof (intro frames.bind ft_ask, goal_cases)
  case (1 v)
  let ?c = "ph_caps H v (im_surf im)"
  obtain w h where wh: "clamp32 (im_w im) (sc_min_w ?c) (sc_max_w ?c) = Some w" "clamp32 (im_h im) (sc_min_h ?c) (sc_max_h ?c) = Some h"
    using clamp32_ok assms(1) unfolding surface_ok_def by metis
  have "P (Some False, im\<lparr>im_w := w, im_h := h\<rparr>) F"
    using assms(2) [of False "im\<lparr>im_w := w, im_h := h\<rparr>" "fr_swapchains F"] by (simp add: remade_def)
  moreover have "remade H (im\<lparr>im_w := w, im_h := h\<rparr>) = remade H im" by (simp add: fun_eq_iff remade_def)
  ultimately show ?case using wh assms(2)
    by (auto intro!: frames.bind ft_ask frames.option frames.return ft_replace_swapchain [OF assms(1)])
qed

section \<open>Pixels\<close>

text \<open>Where byte \<open>i\<close> of the staging memory comes from: red and blue change places, or nothing does.\<close>

definition source_index :: "bool \<Rightarrow> nat \<Rightarrow> nat" where
  "source_index swizzle_rb i =
     (if \<not> swizzle_rb then i else if i mod 4 = 0 then i + 2 else if i mod 4 = 2 then i - 2 else i)"

definition staged :: "bool \<Rightarrow> u8 list \<Rightarrow> nat \<Rightarrow> u8 list \<Rightarrow> bool" where
  "staged swizzle_rb px n bytes \<longleftrightarrow> n \<le> length bytes \<and> (\<forall>i < n. bytes ! i = px ! source_index swizzle_rb i)"

lemma source_index_step: "source_index b (Suc (Suc (Suc (Suc i)))) = Suc (Suc (Suc (Suc (source_index b i))))"
  by (auto simp: source_index_def)

lemma source_index_small: "source_index True 0 = 2" "source_index True (Suc 0) = 1" "source_index True 2 = 0" "source_index True 3 = 3"
  by (simp_all add: source_index_def)

lemma swizzle_nth:
  "length xs mod 4 = 0 \<Longrightarrow> length (swizzle xs) = length xs \<and> (\<forall>i < length xs. swizzle xs ! i = xs ! source_index True i)"
proof (induction xs rule: swizzle.induct)
  case (1 r g b a xs)
  then have ih: "length (swizzle xs) = length xs" "\<forall>i < length xs. swizzle xs ! i = xs ! source_index True i" by simp_all
  have "swizzle (r # g # b # a # xs) ! i = (r # g # b # a # xs) ! source_index True i" if "i < length (r # g # b # a # xs)" for i
  proof (cases "i < 4")
    case True
    then consider "i = 0" | "i = 1" | "i = 2" | "i = 3" by linarith
    then show ?thesis by cases (simp_all add: source_index_small)
  next
    case False
    then obtain j where "i = 4 + j" using le_Suc_ex by (metis not_less)
    then have j: "i = Suc (Suc (Suc (Suc j)))" by simp
    then show ?thesis using ih that by (simp add: source_index_step)
  qed
  then show ?case using ih(1) by (simp del: swizzle.simps(1) add: swizzle.simps(1) [THEN arg_cong [where f = length]])
qed simp_all

lemma frame_bytes_mod: "unat (frame_bytes w h) mod 4 = 0"
proof -
  have "unat (frame_bytes w h) = unat (ucast w * ucast h :: u64) * 4 mod 2 ^ 64"
    unfolding frame_bytes_def by (subst unat_word_ariths) simp
  moreover have "4 dvd unat (ucast w * ucast h :: u64) * 4 mod 2 ^ 64" by (rule dvd_mod) simp_all
  ultimately show ?thesis by simp
qed

lemma upload_staged:
  assumes "n \<le> length px" "n mod 4 = 0"
  shows "staged b px n (upload_bytes b n px @ rest)"
proof (cases b)
  case True
  have l: "length (take n px) = n" using assms(1) by simp
  have *: "source_index True i < n" if "i < n" for i
  proof -
    obtain k where k: "n = 4 * k" using assms(2) by auto
    have "i div 4 < k" "i = 4 * (i div 4) + i mod 4" using that k by simp_all
    then have "i mod 4 = 0 \<Longrightarrow> i + 2 < n" using k by linarith
    then show ?thesis using that by (auto simp: source_index_def)
  qed
  show ?thesis
    using True swizzle_nth [of "take n px"] assms(2) * unfolding l by (simp add: staged_def upload_bytes_def nth_append l)
next
  case False
  then show ?thesis using assms(1) by (auto simp: staged_def upload_bytes_def nth_append source_index_def)
qed

section \<open>Outcomes\<close>

definition frame_cmds :: "u64 \<Rightarrow> impl \<Rightarrow> presenter \<Rightarrow> vk_cmd list" where
  "frame_cmds img im p =
     [CmdBarrier img LayoutUndefined LayoutTransferDst (False, False, False) (True, False, False) StageTop StageTransfer,
      CmdCopyToImage (im_staging im) img (pr_width p) (pr_height p),
      CmdBarrier img LayoutTransferDst LayoutPresent (True, False, False) (False, False, False) StageTransfer StageBottom]"

text \<open>The results of a call: a frame counted, or an error counted.\<close>

definition counted :: "presenter \<Rightarrow> bool option \<Rightarrow> presenter \<Rightarrow> bool" where
  "counted p r p1 \<longleftrightarrow> r = Some True \<and> pr_presents p1 = pr_presents p + 1 \<and> pr_errors p1 = pr_errors p"

definition failed :: "presenter \<Rightarrow> bool option \<Rightarrow> presenter \<Rightarrow> bool" where
  "failed p r p1 \<longleftrightarrow> r = Some False \<and> pr_presents p1 = pr_presents p \<and> pr_errors p1 = pr_errors p + 1"

text \<open>The description and the swapchains are untouched, or an attempt was made to replace the swapchain.\<close>

definition kept :: "presenter \<Rightarrow> presenter \<Rightarrow> frame \<Rightarrow> frame \<Rightarrow> bool" where
  "kept p p1 F F1 \<longleftrightarrow> pr_impl p1 = pr_impl p \<and> fr_swapchains F1 = fr_swapchains F"

definition renewed :: "present_host \<Rightarrow> impl \<Rightarrow> bool \<Rightarrow> presenter \<Rightarrow> frame \<Rightarrow> frame \<Rightarrow> bool" where
  "renewed H im ok p1 F F1 \<longleftrightarrow> (\<exists>im1. pr_impl p1 = Some im1 \<and> remade H im ok im1 (fr_swapchains F) (fr_swapchains F1))"

text \<open>The staging memory holds the frame in the byte order of the swapchain's format.\<close>

definition right_bytes :: "u8 list \<Rightarrow> impl \<Rightarrow> presenter \<Rightarrow> frame \<Rightarrow> frame \<Rightarrow> bool" where
  "right_bytes px im p F F1 \<longleftrightarrow> (\<exists>si. fr_swapchains F (im_swap im) = Some si \<and>
     staged (blue_first (si_format si)) px (unat (frame_bytes (pr_width p) (pr_height p))) (fr_bytes F1 (im_staging_mem im)))"

text \<open>What the answer \<open>pres\<close> to the request to present leads to; \<open>None\<close> when the request was not made.\<close>

definition presented_with :: "present_host \<Rightarrow> vk_result option \<Rightarrow> impl \<Rightarrow> presenter \<Rightarrow> frame \<Rightarrow> bool option \<times> presenter \<Rightarrow> frame \<Rightarrow> bool" where
  "presented_with H pres im p F = (\<lambda>(r, p1) F1. case pres of
      Some VK_SUCCESS \<Rightarrow> counted p r p1 \<and> kept p p1 F F1
    | Some VK_SUBOPTIMAL \<Rightarrow> counted p r p1 \<and> (\<exists>ok. renewed H im ok p1 F F1)
    | Some VK_ERROR_OUT_OF_DATE \<Rightarrow> counted p r p1 \<and> (\<exists>ok. renewed H im ok p1 F F1)
    | _ \<Rightarrow> failed p r p1 \<and> kept p p1 F F1)"

text \<open>After the pixels were copied, by the answer to the acquisition.\<close>

definition outcome :: "present_host \<Rightarrow> u8 list \<Rightarrow> impl \<Rightarrow> presenter \<Rightarrow> frame \<Rightarrow> bool option \<times> presenter \<Rightarrow> frame \<Rightarrow> bool" where
  "outcome H px im p F = (\<lambda>(r, p1) F1. pr_valid p1 = pr_valid p \<and> pr_width p1 = pr_width p \<and> pr_height p1 = pr_height p \<and>
    (\<exists>acq idx. fr_acquired F1 = fr_acquired F @ [(im_swap im, acq, idx)] \<and>
      (if \<not> acquired acq then
         fr_submitted F1 = fr_submitted F \<and> fr_presented F1 = fr_presented F \<and> fr_signalled F1 = fr_signalled F \<and>
         (if acq = VK_ERROR_OUT_OF_DATE
          then \<exists>ok. renewed H im ok p1 F F1 \<and> (if ok then r = Some False \<and> pr_presents p1 = pr_presents p \<and> pr_errors p1 = pr_errors p else failed p r p1)
          else failed p r p1 \<and> kept p p1 F F1)
       else unat idx < length (im_images im) \<and> right_bytes px im p F F1 \<and>
         (fr_submitted F1 = fr_submitted F \<and> fr_presented F1 = fr_presented F \<and>
            fr_signalled F1 = insert (im_acquire_sem im) (fr_signalled F) \<and> failed p r p1 \<and> kept p p1 F F1 \<or>
          fr_submitted F1 = fr_submitted F @ frame_cmds (im_images im ! unat idx) im p \<and>
            fr_signalled F1 = fr_signalled F - {im_acquire_sem im} \<and>
            (\<exists>pres. fr_presented F1 = fr_presented F @ (case pres of None \<Rightarrow> [] | Some x \<Rightarrow> [(im_swap im, idx, x)]) \<and>
               presented_with H pres im p F (r, p1) F1)))))"

text \<open>The states of a frame that has acquired image \<open>idx\<close>: before and after the submission.\<close>

definition entered :: "u8 list \<Rightarrow> impl \<Rightarrow> presenter \<Rightarrow> u32 \<Rightarrow> frame \<Rightarrow> frame \<Rightarrow> bool" where
  "entered px im p idx F F1 \<longleftrightarrow> (\<exists>acq. acquired acq \<and> fr_acquired F1 = fr_acquired F @ [(im_swap im, acq, idx)]) \<and>
     fr_submitted F1 = fr_submitted F \<and> fr_presented F1 = fr_presented F \<and> fr_swapchains F1 = fr_swapchains F \<and>
     fr_signalled F1 = insert (im_acquire_sem im) (fr_signalled F) \<and> unat idx < length (im_images im) \<and> right_bytes px im p F F1"

definition sent_off :: "u8 list \<Rightarrow> impl \<Rightarrow> presenter \<Rightarrow> u32 \<Rightarrow> frame \<Rightarrow> frame \<Rightarrow> bool" where
  "sent_off px im p idx F F1 \<longleftrightarrow> (\<exists>acq. acquired acq \<and> fr_acquired F1 = fr_acquired F @ [(im_swap im, acq, idx)]) \<and>
     fr_submitted F1 = fr_submitted F @ frame_cmds (im_images im ! unat idx) im p \<and> fr_presented F1 = fr_presented F \<and>
     fr_swapchains F1 = fr_swapchains F \<and> fr_signalled F1 = fr_signalled F - {im_acquire_sem im} \<and>
     unat idx < length (im_images im) \<and> right_bytes px im p F F1"

lemma ft_count_error: "outcome H px im p F (Some False, q\<lparr>pr_errors := pr_errors q + 1\<rparr>) F1 \<Longrightarrow> ft (count_error q) (outcome H px im p F) F1"
  unfolding count_error_def by (intro fts)

lemma entered_fails:
  assumes "entered px im p idx F F1" shows "outcome H px im p F (Some False, p\<lparr>pr_errors := pr_errors p + 1\<rparr>) F1"
proof -
  obtain acq where "acquired acq" "fr_acquired F1 = fr_acquired F @ [(im_swap im, acq, idx)]" using assms by (auto simp: entered_def)
  then show ?thesis using assms unfolding outcome_def entered_def prod.case
    by (intro conjI exI [of _ acq] exI [of _ idx]) (simp_all add: failed_def kept_def)
qed

lemma sent_off_outcome:
  assumes "sent_off px im p idx F F1" "F2 = F1\<lparr>fr_presented := fr_presented F1 @ (case pres of None \<Rightarrow> [] | Some x \<Rightarrow> [(im_swap im, idx, x)]), fr_swapchains := S\<rparr>"
    "presented_with H pres im p F (r, p1) F2" "pr_valid p1 = pr_valid p" "pr_width p1 = pr_width p" "pr_height p1 = pr_height p"
  shows "outcome H px im p F (r, p1) F2"
proof -
  obtain acq where acq: "acquired acq" "fr_acquired F1 = fr_acquired F @ [(im_swap im, acq, idx)]" using assms(1) by (auto simp: sent_off_def)
  have "right_bytes px im p F F2" "fr_presented F2 = fr_presented F @ (case pres of None \<Rightarrow> [] | Some x \<Rightarrow> [(im_swap im, idx, x)])"
    using assms(1,2) by (simp_all add: sent_off_def right_bytes_def)
  then show ?thesis using assms acq unfolding outcome_def sent_off_def by (auto intro!: exI [of _ acq] exI [of _ idx])
qed

lemma ft_present_frame:
  assumes "surface_ok H" "sent_off px im p idx F F1"
  shows "ft (present_frame H idx im p) (outcome H px im p F) F1"
proof -
  have sw: "fr_swapchains F1 = fr_swapchains F" using assms(2) by (simp add: sent_off_def)
  let ?F = "\<lambda>x. F1\<lparr>fr_presented := fr_presented F1 @ [(im_swap im, idx, x)]\<rparr>"
  have good: "outcome H px im p F (Some True, p\<lparr>pr_impl := Some im1, pr_presents := pr_presents p + 1\<rparr>) (?F x\<lparr>fr_swapchains := S1\<rparr>)"
    if "x = VK_ERROR_OUT_OF_DATE \<or> x = VK_SUBOPTIMAL" "remade H im ok im1 (fr_swapchains F) S1" for x ok im1 S1
    by (rule sent_off_outcome [OF assms(2), where pres = "Some x" and S = S1]) (use that in \<open>auto simp: presented_with_def counted_def renewed_def\<close>)
  have plain: "outcome H px im p F (r, p1) (?F x)"
    if "presented_with H (Some x) im p F (r, p1) (?F x)" "pr_valid p1 = pr_valid p" "pr_width p1 = pr_width p" "pr_height p1 = pr_height p" for x r p1
    by (rule sent_off_outcome [OF assms(2), where pres = "Some x" and S = "fr_swapchains F1"]) (use that in simp_all)
  have ok: "outcome H px im p F (Some True, p\<lparr>pr_presents := pr_presents p + 1\<rparr>) (?F VK_SUCCESS)"
    and bad: "outcome H px im p F (Some False, p\<lparr>pr_errors := pr_errors p + 1\<rparr>) (?F VK_ERROR_OTHER)"
    by (rule plain; simp add: presented_with_def counted_def failed_def kept_def sw)+
  show ?thesis unfolding present_frame_def
  proof (intro frames.bind ft_queue_present frames.cond ft_try ft_make_swapchain [OF assms(1)] frames.pair frames.return ft_count_error, goal_cases)
    case (2 r)
    then have "r = VK_ERROR_OTHER" by (cases r) auto
    then show ?case using bad by simp
  next
    case (3 r)
    then show ?case using ok by simp
  qed (use good sw in auto)
qed

lemma ft_record_frame:
  assumes "P () (F\<lparr>fr_recorded := (fr_recorded F)(im_cmd im := fr_recorded F (im_cmd im) @ frame_cmds img im p)\<rparr>)"
  shows "ft (record_frame img im p) P F"
  unfolding record_frame_def present_transition_def
  by (intro fts) (use assms in \<open>simp add: frame_cmds_def\<close>)

lemma ft_draw_frame:
  assumes "surface_ok H" "entered px im p idx F F1"
  shows "ft (draw_frame H idx im p) (outcome H px im p F) F1"
proof -
  have idx: "unat idx < length (im_images im)" using assms(2) by (simp add: entered_def)
  have e: "entered px im p idx F (F1\<lparr>fr_recorded := q\<rparr>)" for q using assms(2) by (simp add: entered_def right_bytes_def)
  have s: "sent_off px im p idx F (F1\<lparr>fr_recorded := q, fr_submitted := fr_submitted F1 @ frame_cmds (im_images im ! unat idx) im p,
      fr_signalled := insert (im_acquire_sem im) (fr_signalled F) - {im_acquire_sem im}\<rparr>)" for q
    using assms(2) by (simp add: entered_def sent_off_def right_bytes_def)
  have "outcome H px im p F (Some False, p\<lparr>pr_errors := pr_errors p + 1\<rparr>) F2" if "sent_off px im p idx F F2" for F2
    by (rule sent_off_outcome [OF that, where pres = None and S = "fr_swapchains F2"])
      (use that in \<open>auto simp: presented_with_def failed_def kept_def sent_off_def\<close>)
  then have f: "outcome H px im p F (Some False, p\<lparr>pr_errors := pr_errors p + 1\<rparr>) F2"
    if "entered px im p idx F F2 \<or> sent_off px im p idx F F2" for F2
    using that entered_fails by blast
  have sg: "fr_signalled F1 = insert (im_acquire_sem im) (fr_signalled F)" using assms(2) by (simp add: entered_def)
  show ?thesis unfolding draw_frame_def
    by (intro frames.bind ft_try ft_begin frames.cond ft_count_error frames.return ft_record_frame ft_submit_wait ft_present_frame [OF assms(1)] f)
      (use idx e s assms(2) sg in \<open>auto simp del: insert_Diff_single\<close>)
qed

text \<open>The part of the upload that follows the mapping of the staging memory.\<close>

lemma ft_upload_mapped:
  fixes w h p px im
  assumes "surface_ok H" "matched H im (fr_swapchains F)" "unat (frame_bytes w h) \<le> length px" "w = pr_width p" "h = pr_height p"
  defines "stage \<equiv> \<lambda>b. upload_bytes (im_swizzle_rb im) (unat (frame_bytes w h)) px @ drop (unat (frame_bytes w h)) b"
  shows "ft (do {
     ws_put (\<lambda>v. v\<lparr>ws_bytes := (ws_bytes v)(im_staging_mem im := stage (ws_bytes v (im_staging_mem im)))\<rparr>);
     (acq, idx) \<leftarrow> acquire_image H (im_swap im) (im_acquire_sem im);
     if acq = VK_ERROR_OUT_OF_DATE then do {
       idle \<leftarrow> vk_try;
       (made, im1) \<leftarrow> make_swapchain H im;
       case made of
         None \<Rightarrow> State_Monad.return (None, p\<lparr>pr_impl := Some im1\<rparr>)
       | Some ok \<Rightarrow> if \<not> ok then count_error (p\<lparr>pr_impl := Some im1\<rparr>) else State_Monad.return (Some False, p\<lparr>pr_impl := Some im1\<rparr>) }
     else if \<not> acquired acq then count_error p
     else draw_frame H idx im p }) (outcome H px im p F) F"
proof -
  let ?n = "unat (frame_bytes w h)"
  let ?g = "\<lambda>F. F\<lparr>fr_bytes := (fr_bytes F)(im_staging_mem im := stage (fr_bytes F (im_staging_mem im)))\<rparr>"
  have st: "right_bytes px im p F (F1\<lparr>fr_bytes := fr_bytes (?g F)\<rparr>)" for F1
    using upload_staged [OF assms(3) frame_bytes_mod] assms(2,4,5) by (auto simp: right_bytes_def stage_def matched_def)
  show ?thesis
  proof (rule frames.bind, rule ft_put [where g = ?g], simp add: frame_view_def,
      intro frames.bind ft_acquire_image frames.pair frames.cond ft_try ft_make_swapchain [OF assms(1)], goal_cases)
    case (1 v acq idx b c d)
    show ?case using 1
      by (auto simp: after_acquire_def acquired_def intro!: frames.return ft_count_error)
        (auto simp: outcome_def acquired_def renewed_def failed_def)
  next
    case (2 v acq idx)
    then have "acq = VK_ERROR_OTHER" by (cases acq) (auto simp: acquired_def)
    then show ?case using 2
      by (intro ft_count_error) (simp add: after_acquire_def acquired_def outcome_def failed_def kept_def)
  next
    case (3 v acq idx)
    then have "unat idx < length (im_images im)" using assms(1,2) unfolding surface_ok_def matched_def by (metis fst_conv snd_conv)
    then have "entered px im p idx F (after_acquire (im_swap im) (im_acquire_sem im) (acq, idx) (?g F))"
      using 3 st by (simp add: entered_def after_acquire_def right_bytes_def)
    then show ?case using 3 by (intro ft_draw_frame [OF assms(1)]) simp
  qed
qed

lemma upload_frame_run:
  assumes "surface_ok H" "matched H im (ws_swapchains v)" "unat (frame_bytes w h) \<le> length px"
    "run_state (upload_frame H px w h im p) v = ((r, p1), v1)"
  shows "if (w, h) \<noteq> (pr_width p, pr_height p) \<or> im_staging_size im < frame_bytes w h \<or> \<not> fst (run_state vk_try v)
    then r = Some False \<and> p1 = p\<lparr>pr_errors := pr_errors p + 1\<rparr> \<and> frame_view v1 = frame_view v
    else outcome H px im p (frame_view v) (r, p1) (frame_view v1)"
proof -
  obtain b v0 where t: "run_state vk_try v = (b, v0)" by fastforce
  have "ft vk_try (\<lambda>_ F1. F1 = frame_view v) (frame_view v)" by (rule ft_try) simp
  from frames.tripleD [OF this TrueI t] have v0: "frame_view v0 = frame_view v" by simp
  have m: "matched H im (fr_swapchains (frame_view v0))" using assms(2) unfolding v0 by (simp add: frame_view_def)
  show ?thesis
  proof (cases "(w, h) \<noteq> (pr_width p, pr_height p) \<or> im_staging_size im < frame_bytes w h \<or> \<not> b")
    case True
    then have "((r, p1), v1) = ((Some False, p\<lparr>pr_errors := pr_errors p + 1\<rparr>), if (w, h) \<noteq> (pr_width p, pr_height p) \<or> im_staging_size im < frame_bytes w h then v else v0)"
      using assms(4) t by (auto simp: upload_frame_def count_error_def State_Monad.bind_def split: if_splits)
    then show ?thesis using True t v0 by (simp split: if_splits)
  next
    case False
    then have "w = pr_width p" "h = pr_height p" by simp_all
    from frames.tripleD [OF ft_upload_mapped [OF assms(1) m assms(3) this] TrueI] show ?thesis
      using False assms(3,4) t unfolding upload_frame_def Let_def v0 [symmetric] by (simp add: State_Monad.bind_def)
  qed
qed

section \<open>Opening a window\<close>

abbreviation opened :: "present_host \<Rightarrow> bool option \<times> presenter \<Rightarrow> frame \<Rightarrow> bool" where
  "opened H \<equiv> \<lambda>(r, p) F. r = Some True \<longrightarrow> pr_valid p \<and> (\<exists>im. pr_impl p = Some im \<and> matched H im (fr_swapchains F))"

lemma matched_cong: "im_swap im1 = im_swap im \<Longrightarrow> im_swizzle_rb im1 = im_swizzle_rb im \<Longrightarrow> im_images im1 = im_images im \<Longrightarrow> matched H im1 S = matched H im S"
  by (simp add: matched_def)

lemma ft_skip: "(\<And>a F1. ft (k a) P F1) \<Longrightarrow> ft (State_Monad.bind m k) P F"
  by (rule frames.bind, rule frames.tripleI) simp

lemma ft_init_fail: "ft (init_fail im p) (opened H) F"
  unfolding init_fail_def by (intro ft_skip frames.return) simp

lemma ft_init_sync: "matched H im (fr_swapchains F) \<Longrightarrow> ft (init_sync im p) (opened H) F"
  unfolding init_sync_def Let_def
  by (intro frames.bind ft_create frames.option ft_init_fail frames.return) (auto simp: matched_def)

lemma ft_make_staging:
  assumes "\<And>b im1. im_swap im1 = im_swap im \<Longrightarrow> im_swizzle_rb im1 = im_swizzle_rb im \<Longrightarrow> im_images im1 = im_images im \<Longrightarrow> P (b, im1) F"
  shows "ft (make_staging H sz im) P F"
  unfolding make_staging_def Let_def
  by (intro frames.bind ft_create frames.option frames.return ft_try) (auto intro!: assms)

lemma ft_handle: "(\<And>r. P r F) \<Longrightarrow> ft vk_handle P F"
  by (rule ft_silent) (auto simp: vk_handle_def vk_call_def Let_def frame_view_def split: option.splits)

lemma ft_init_commands:
  assumes "matched H im (fr_swapchains F)" shows "ft (init_commands H w h im p) (opened H) F"
  unfolding init_commands_def Let_def
  by (intro frames.bind ft_create frames.option ft_init_fail ft_handle ft_make_staging frames.pair frames.cond ft_init_sync)
    (use assms in \<open>auto simp: matched_def\<close>)

lemma ft_init_device:
  assumes "surface_ok H" shows "ft (init_device H w h im p) (opened H) F"
  unfolding init_device_def Let_def
proof (rule ft_skip, intro frames.option ft_init_fail frames.bind ft_create ft_ask, goal_cases)
  case (1 a F1 pq r d v)
  show ?case
  proof (rule ft_make_swapchain [OF assms], intro frames.pair frames.option frames.cond frames.return ft_init_fail ft_init_commands, goal_cases)
    case (2 ok im1 S1)
    then show ?case by (auto simp: remade_def)
  qed simp
qed

lemma ft_init_window:
  assumes "surface_ok H" shows "ft (init_window H w h im p) (opened H) F"
  unfolding init_window_def Let_def
  by (intro ft_skip frames.option frames.cond ft_init_fail ft_init_device [OF assms])

lemma ft_presenter_init:
  assumes "surface_ok H" shows "ft (presenter_init H w h p) (opened H) F"
  unfolding presenter_init_def by (intro ft_skip frames.cond frames.return ft_init_window [OF assms]) simp_all

section \<open>Property\<close>

text \<open>(C32) What a frame does, and why. A presenter whose \<open>init\<close> succeeded has a description that agrees with
  its swapchain. A call of \<open>upload_and_present\<close> on such a presenter, with an array of the announced size:
  \<^item> when the size is not the presenter's, the staging buffer is too small or it cannot be mapped, it
    counts one error and does nothing;
  \<^item> otherwise it asks for one image of the swapchain. If the swapchain is out of date it is replaced
    by one whose description agrees again, and no error is counted, or the replacement failed and one is;
    if the acquisition fails in another way one error is counted. Nothing is submitted in both cases.
  \<^item> When an image is acquired, the staging memory holds the array, with red and blue exchanged exactly
    when the format of the swapchain has blue first. Either an error is counted and the frame is given
    up with its semaphore left signalled, or exactly the barrier, the copy and the barrier for the
    acquired image were submitted. Then a presentation is counted exactly when presenting it was
    requested and answered by success, or by suboptimal or out of date, on which the swapchain is
    replaced; otherwise one error is counted.\<close>

theorem frame_outcome:
  assumes "surface_ok H"
  shows "(\<forall>w h p0 v p v1. run_state (presenter_init H w h p0) v = ((Some True, p), v1) \<longrightarrow>
      pr_valid p \<and> (\<exists>im. pr_impl p = Some im \<and> matched H im (ws_swapchains v1))) \<and>
    (\<forall>w h px p im v r p1 v1. pr_valid p \<and> pr_impl p = Some im \<and> matched H im (ws_swapchains v) \<and> unat (frame_bytes w h) \<le> length px \<and>
      run_state (upload_and_present H (Some px) w h p) v = ((r, p1), v1) \<longrightarrow>
      (if (w, h) \<noteq> (pr_width p, pr_height p) \<or> im_staging_size im < frame_bytes w h \<or> \<not> fst (run_state vk_try v)
       then r = Some False \<and> p1 = p\<lparr>pr_errors := pr_errors p + 1\<rparr> \<and> frame_view v1 = frame_view v
       else outcome H px im p (frame_view v) (r, p1) (frame_view v1)))"
proof (intro conjI allI impI, goal_cases)
  case (1 w h p0 v p v1)
  from frames.tripleD [OF ft_presenter_init [OF assms] TrueI 1] show ?case by simp
next
  case (2 w h p0 v p v1)
  from frames.tripleD [OF ft_presenter_init [OF assms] TrueI 2] show ?case by (simp add: frame_view_def)
next
  case (3 w h px p im v r p1 v1)
  then have "run_state (upload_frame H px w h im p) v = ((r, p1), v1)" by (elim conjE) (simp add: upload_and_present_def)
  from upload_frame_run [OF assms _ _ this] 3 show ?case by blast
qed

definition demo_im :: impl where
  "demo_im = Impl\<lparr>im_swap := 8, im_images := [101, 102], im_cmd := 5, im_staging := 6, im_staging_mem := 7, im_acquire_sem := 9,
     im_swizzle_rb := True, im_staging_size := 8\<rparr>"

definition demo_presenter :: presenter where
  "demo_presenter = VulkanPresenter\<lparr>pr_valid := True, pr_impl := Some demo_im, pr_width := 2, pr_height := 1\<rparr>"

text \<open>The presenter's swapchain has a format with blue first.\<close>

definition demo_shown :: wsi where
  "demo_shown = demo_wsi\<lparr>ws_swapchains := [8 \<mapsto> \<lparr>si_surface = 13, si_count = 2, si_format = B8G8R8A8_UNORM, si_space = 0,
     si_w = 2, si_h = 1, si_transform = 1, si_mode = FIFO, si_old = 0\<rparr>]\<rparr>"

lemmas frame_run = upload_and_present_def upload_frame_def draw_frame_def record_frame_def present_transition_def present_frame_def queue_present_def
  submit_wait_def acquire_image_def acquired_def vk_queue_submit_def vk_record_def vk_begin_def vk_try_def vk_call_def vk_ask_def ws_put_def

lemma demo_frame:
  "fst (run_state (upload_and_present demo_host (Some [1, 2, 3, 4, 5, 6, 7, 8]) 2 1 demo_presenter) demo_shown) =
     (Some True, demo_presenter\<lparr>pr_presents := 1\<rparr>)"
  by (simp add: frame_run demo_shown_def
      demo_presenter_def demo_im_def demo_host_def demo_wsi_def demo_vk_def VulkanPresenter_def Impl_def frame_bytes_def vk.defs State_Monad.bind_def Let_def)

theorem frame_outcome_witness:
  "\<exists>v1. run_state (upload_and_present demo_host (Some [1, 2, 3, 4, 5, 6, 7, 8]) 2 1 demo_presenter) demo_shown =
       ((Some True, demo_presenter\<lparr>pr_presents := 1\<rparr>), v1) \<and> ws_bytes v1 7 ! 0 = 3 \<and> ws_bytes v1 7 ! 6 = 5 \<and>
     outcome demo_host [1, 2, 3, 4, 5, 6, 7, 8] demo_im demo_presenter (frame_view demo_shown) (Some True, demo_presenter\<lparr>pr_presents := 1\<rparr>) (frame_view v1)"
proof -
  obtain v1 where run: "run_state (upload_and_present demo_host (Some [1, 2, 3, 4, 5, 6, 7, 8]) 2 1 demo_presenter) demo_shown =
      ((Some True, demo_presenter\<lparr>pr_presents := 1\<rparr>), v1)"
    using demo_frame by (metis prod.collapse)
  have m: "pr_valid demo_presenter \<and> pr_impl demo_presenter = Some demo_im \<and> matched demo_host demo_im (ws_swapchains demo_shown) \<and>
      unat (frame_bytes 2 1) \<le> length [1, 2, 3, 4, 5, 6, 7, 8 :: u8]"
    by (simp add: matched_def demo_presenter_def demo_im_def demo_host_def demo_shown_def frame_bytes_def)
  have "(2, 1) = (pr_width demo_presenter, pr_height demo_presenter)" "\<not> im_staging_size demo_im < frame_bytes 2 1" "fst (run_state vk_try demo_shown)"
    by (simp_all add: demo_presenter_def demo_im_def frame_bytes_def demo_shown_def demo_wsi_def demo_vk_def vk.defs vk_try_def vk_call_def State_Monad.bind_def Let_def)
  then have out: "outcome demo_host [1, 2, 3, 4, 5, 6, 7, 8] demo_im demo_presenter (frame_view demo_shown) (Some True, demo_presenter\<lparr>pr_presents := 1\<rparr>) (frame_view v1)"
    using conjunct2 [OF frame_outcome [OF demo_host_ok], rule_format, of demo_presenter demo_im demo_shown 2 1 "[1, 2, 3, 4, 5, 6, 7, 8]"] m run
    by presburger
  then have "right_bytes [1, 2, 3, 4, 5, 6, 7, 8] demo_im demo_presenter (frame_view demo_shown) (frame_view v1)"
    by (auto simp: outcome_def failed_def split: if_splits)
  then have "staged True [1, 2, 3, 4, 5, 6, 7, 8] 8 (ws_bytes v1 7)"
    by (simp add: right_bytes_def frame_view_def demo_shown_def demo_im_def demo_presenter_def frame_bytes_def)
  then have "\<forall>i<8. ws_bytes v1 7 ! i = [1, 2, 3, 4, 5, 6, 7, 8] ! source_index True i" by (simp add: staged_def)
  from this [rule_format, of 0] this [rule_format, of 6] have "ws_bytes v1 7 ! 0 = 3" "ws_bytes v1 7 ! 6 = 5" by (simp_all add: source_index_def)
  then show ?thesis using run out by blast
qed

section \<open>Consequences\<close>

text \<open>A semaphore left signalled by an abandoned frame is signalled again by the next acquisition, which
  Vulkan forbids.\<close>

lemma acquire_resignals:
  "sem \<in> ws_signalled v \<Longrightarrow> acquired (fst (ph_acquire H v swap)) \<Longrightarrow> run_state (acquire_image H swap sem) v = (r, v1) \<Longrightarrow> ws_resignalled v1"
  by (auto simp: acquire_image_def vk_ask_def vk_try_def vk_call_def ws_put_def State_Monad.bind_def Let_def split: option.splits prod.splits)

text \<open>When the surface has forced a larger extent than the one asked for, the staging buffer, whose size
  is that of the request, is too small for every frame the presenter accepts.\<close>

lemma staging_too_small:
  assumes "pr_valid p" "pr_impl p = Some im" "im_staging_size im < frame_bytes (pr_width p) (pr_height p)"
  shows "run_state (upload_and_present H (Some px) w h p) v = ((Some False, p\<lparr>pr_errors := pr_errors p + 1\<rparr>), v)"
  using assms by (auto simp: upload_and_present_def upload_frame_def count_error_def)

text \<open>\<open>pick_physical\<close> takes a device of the highest score among those that can present, whatever
  \<open>std::sort\<close> does with devices of the same score.\<close>

definition can_present :: "present_host \<Rightarrow> u64 \<Rightarrow> phys_dev \<Rightarrow> bool" where
  "can_present H surf p \<longleftrightarrow> has_dev_ext H p SWAPCHAIN_EXT \<and> scan_families H surf p 0 (pd_graphics p) \<noteq> None"

lemma scan_devices_first:
  "scan_devices H surf ps = Some (p, q) \<Longrightarrow> \<exists>us vs. ps = us @ p # vs \<and> can_present H surf p \<and> (\<forall>u\<in>set us. \<not> can_present H surf u)"
proof (induction ps)
  case (Cons a ps)
  show ?case
  proof (cases "can_present H surf a")
    case True
    then have "a = p" using Cons.prems by (auto simp: can_present_def split: option.splits)
    then show ?thesis using True by (intro exI [of _ "[]"] exI [of _ ps]) simp
  next
    case False
    then have "scan_devices H surf ps = Some (p, q)" using Cons.prems by (auto simp: can_present_def split: option.splits if_splits)
    from Cons.IH [OF this] obtain us vs where "ps = us @ p # vs" "can_present H surf p" "\<forall>u\<in>set us. \<not> can_present H surf u" by blast
    then have "a # ps = (a # us) @ p # vs \<and> can_present H surf p \<and> (\<forall>u\<in>set (a # us). \<not> can_present H surf u)" using False by simp
    then show ?thesis by blast
  qed
qed simp

lemma scan_devices_None: "scan_devices H surf ps = None \<longleftrightarrow> (\<forall>p\<in>set ps. \<not> can_present H surf p)"
  by (induction ps) (auto simp: can_present_def split: option.splits if_splits)

lemma pick_physical_best:
  assumes "mset (ph_sort H (vk_gpus v)) = mset (vk_gpus v)" "sorted_wrt (\<lambda>a b. gpu_score b \<le> gpu_score a) (ph_sort H (vk_gpus v))"
    "run_state (pick_physical H surf) v = (Some (p, q), v1)"
  shows "p \<in> set (vk_gpus v) \<and> can_present H surf p \<and> (\<forall>p'\<in>set (vk_gpus v). can_present H surf p' \<longrightarrow> gpu_score p' \<le> gpu_score p)"
proof -
  have set: "set (ph_sort H (vk_gpus v)) = set (vk_gpus v)" using assms(1) by (metis set_mset_mset)
  have "scan_devices H surf (ph_sort H (vk_gpus v)) = Some (p, q)"
    using assms(3) by (auto simp: pick_physical_def vk_try_def vk_call_def vk_ask_def State_Monad.bind_def Let_def split: if_splits option.splits)
  from scan_devices_first [OF this] obtain us vs where s: "ph_sort H (vk_gpus v) = us @ p # vs" "can_present H surf p"
    "\<forall>u\<in>set us. \<not> can_present H surf u" by blast
  then show ?thesis using assms(2) set by (auto simp: sorted_wrt_append)
qed

end
