(* ===== verification/Window_Demo.thy ===== *)
theory Window_Demo
  imports Xbox_Display Vk_Frame
begin

text \<open>
  The command line and the window of the program (\<open>src/src/main.cpp\<close>): the options, the guest
  framebuffer that the GPU front end clears, the display that snapshots it and the presenter that
  shows the snapshot, frame by frame. The GPU front end and the display point to the same guest
  memory, so the display is given what the last packet left. The times that the two take from the
  clock are the parameters \<open>t1\<close> and \<open>t2\<close>, by frame. The other parts of \<open>main\<close> print what calls of the
  components return.
\<close>

section \<open>Options\<close>

text \<open>\<open>atol\<close>: white space, an optional sign and digits; out of range it gives the nearest \<open>long\<close>.\<close>

definition char_value :: "char \<Rightarrow> int" where
  "char_value c = of_char c"

fun digits_value :: "int \<Rightarrow> string \<Rightarrow> int" where
  "digits_value n [] = n"
| "digits_value n (c # cs) =
     (if 48 \<le> char_value c \<and> char_value c \<le> 57 then digits_value (n * 10 + (char_value c - 48)) cs else n)"

definition is_space :: "char \<Rightarrow> bool" where
  "is_space c \<longleftrightarrow> char_value c = 32 \<or> 9 \<le> char_value c \<and> char_value c \<le> 13"

definition atol :: "string \<Rightarrow> int" where
  "atol s =
     (let t = dropWhile is_space s;
          v = (case t of [] \<Rightarrow> 0
               | c # cs \<Rightarrow> if c = CHR ''-'' then - digits_value 0 cs else if c = CHR ''+'' then digits_value 0 cs else digits_value 0 t)
      in max (- (2 ^ 63)) (min (2 ^ 63 - 1) v))"

record options =
  op_want_window :: bool
  op_win_frames :: u32

definition default_options :: options where
  "default_options = \<lparr>op_want_window = False, op_win_frames = 600\<rparr>"

text \<open>\<open>None\<close> is the exit after the usage message.\<close>

fun parse_args :: "options \<Rightarrow> string list \<Rightarrow> options option" where
  "parse_args o1 [] = Some o1"
| "parse_args o1 (a # as) =
     (if a = ''--help'' \<or> a = ''-h'' then None
      else let o2 = (if a = ''--window'' \<or> a = ''-w'' then o1\<lparr>op_want_window := True\<rparr> else o1) in
        if a = ''--frames'' \<or> a = ''-n'' then
          (case as of
             [] \<Rightarrow> parse_args o2 as
           | b # bs \<Rightarrow> parse_args (o2\<lparr>op_win_frames := of_int (if atol b < 0 then 0 else atol b)\<rparr>) bs)
        else parse_args o2 as)"

text \<open>A number of frames is taken modulo \<open>2 ^ 32\<close>.\<close>

lemma frames_wrap: "parse_args default_options [''-n'', ''4294967296''] = Some (default_options\<lparr>op_win_frames := 0\<rparr>)"
  by (simp add: atol_def char_value_def is_space_def default_options_def)

section \<open>The window\<close>

definition kW :: u32 where "kW = 640"
definition kH :: u32 where "kH = 480"
definition kFrontbuffer :: u64 where "kFrontbuffer = 0x100000"

definition anim_color :: "u32 \<Rightarrow> u8 list" where
  "anim_color f = [ucast (f AND 0xFF), 0, ucast (255 - (f AND 0xFF)), 0xFF]"

definition anim :: "u32 \<Rightarrow> xbox_packet" where
  "anim f = \<lparr>xp_type = ClearRenderTarget, xp_dst = \<lparr>ga_gpa = kFrontbuffer, ga_heap = GpuOptimal, ga_size = kW * kH * 4\<rparr>,
     xp_src = \<lparr>ga_gpa = 0, ga_heap = GpuOptimal, ga_size = 0\<rparr>, xp_pattern = 0, xp_color = anim_color f,
     xp_rt_width = kW, xp_rt_height = kH, xp_fence_value = 0\<rparr>"

record demo =
  wd_gpu :: gpu_stub
  wd_disp :: display
  wd_win :: presenter

text \<open>One round of the loop; the result is that of \<open>upload_and_present\<close>.\<close>

definition window_frame ::
  "present_host \<Rightarrow> (u32 \<Rightarrow> u64) \<Rightarrow> (u32 \<Rightarrow> u64) \<Rightarrow> u32 \<Rightarrow> demo \<Rightarrow> (wsi, bool option \<times> demo) state" where
  "window_frame H t1 t2 f s = do {
     let g = snd (submit_xbox (t1 f) (anim f) (wd_gpu s));
     let d = snd (on_flip (t2 f) (display_attach (gs_mem g) (wd_disp s)));
     (r, p) \<leftarrow> upload_vector H (xd_frame d) kW kH (wd_win s);
     let s1 = \<lparr>wd_gpu = g, wd_disp = d, wd_win = p\<rparr>;
     if r = Some True then do { more \<leftarrow> presenter_poll H p; State_Monad.return (r, s1) }
     else State_Monad.return (r, s1) }"

text \<open>The loop with \<open>n\<close> rounds left before \<open>f\<close> reaches \<open>win_frames\<close>.\<close>

fun window_loop ::
  "present_host \<Rightarrow> (u32 \<Rightarrow> u64) \<Rightarrow> (u32 \<Rightarrow> u64) \<Rightarrow> nat \<Rightarrow> u32 \<Rightarrow> demo \<Rightarrow> (wsi, bool option \<times> demo) state" where
  "window_loop H t1 t2 0 f s = State_Monad.return (Some True, s)"
| "window_loop H t1 t2 (Suc n) f s = do {
     closing \<leftarrow> presenter_should_close H (wd_win s);
     if closing then State_Monad.return (Some True, s)
     else do {
       (r, s1) \<leftarrow> window_frame H t1 t2 f s;
       if r = Some True then window_loop H t1 t2 n (f + 1) s1 else State_Monad.return (r, s1) } }"

definition commit_frontbuffer :: "gpu_stub \<Rightarrow> gpu_stub" where
  "commit_frontbuffer g = gpu_attach (map_option (\<lambda>m. snd (mem_commit_range kFrontbuffer (ucast kW * ucast kH * 4) m)) (gs_mem g)) g"

text \<open>The block under \<open>--window\<close>. The presenter is shut down by its destructor; the result keeps its
  counters.\<close>

definition window_demo ::
  "present_host \<Rightarrow> (u32 \<Rightarrow> u64) \<Rightarrow> (u32 \<Rightarrow> u64) \<Rightarrow> u32 \<Rightarrow> gpu_stub \<Rightarrow> (wsi, bool option \<times> gpu_stub \<times> presenter) state" where
  "window_demo H t1 t2 win_frames g0 = do {
     let g = commit_frontbuffer g0;
     let (fb, d) = set_framebuffer kFrontbuffer kW kH (XboxDisplay (gs_mem g));
     if \<not> fb then State_Monad.return (Some False, g, VulkanPresenter)
     else do {
       (up, p) \<leftarrow> presenter_init H kW kH VulkanPresenter;
       if up = Some True then do {
         (r, s) \<leftarrow> window_loop H t1 t2 (unat win_frames) 0 \<lparr>wd_gpu = g, wd_disp = d, wd_win = p\<rparr>;
         q \<leftarrow> presenter_shutdown (wd_win s);
         State_Monad.return (r, wd_gpu s, q) }
       else do { q \<leftarrow> presenter_shutdown p; State_Monad.return (up, g, q) } } }"

section \<open>The frontbuffer\<close>

definition fb_size :: u64 where "fb_size = 1228800"

text \<open>The framebuffer is writable, and no alias window reaches into it. The window that \<open>main\<close> has
  installed at \<open>0x5000\<close> on the same memory before does not.\<close>

definition canvas :: "gpu_stub \<Rightarrow> bool" where
  "canvas g \<longleftrightarrow> (\<exists>m. gs_mem g = Some m \<and> unaliased m kFrontbuffer (unat fb_size) \<and> mem_writable m kFrontbuffer fb_size)"

definition on_canvas :: "display \<Rightarrow> bool" where
  "on_canvas d \<longleftrightarrow> xd_has_fb d \<and> xd_fb_gpa d = kFrontbuffer \<and> xd_fb_w d = kW \<and> xd_fb_h d = kH"

definition anim_bytes :: "u32 \<Rightarrow> u8 list" where
  "anim_bytes f = concat (replicate 307200 (anim_color f))"

lemma fb_size_ucast: "(ucast kW :: u64) * ucast kH * 4 = fb_size" "(ucast (kW * kH * 4 :: u32) :: u64) = fb_size" "frame_bytes kW kH = fb_size"
  "unat fb_size = 1228800"
  by (simp_all add: kW_def kH_def fb_size_def frame_bytes_def)

lemma anim_color_le: "le_bytes 4 (pixel_value (anim_color f)) = anim_color f"
proof -
  have l: "length (anim_color f) = 4" by (simp add: anim_color_def)
  then have "le_bytes 4 (le_word (anim_color f) :: u32) = anim_color f" using le_bytes_le_word [of "anim_color f", where 'a = 32] by simp
  then show ?thesis by (simp only: pixel_value_le_word [OF l])
qed

lemma anim_submit:
  assumes "canvas g"
  shows "\<exists>g1 m1. submit_xbox t (anim f) g = (True, g1) \<and> canvas g1 \<and> gs_mem g1 = Some m1 \<and>
    mem_read_bytes m1 kFrontbuffer fb_size = Some (anim_bytes f)"
proof -
  obtain m where m: "gs_mem g = Some m" "unaliased m kFrontbuffer (unat fb_size)" "mem_writable m kFrontbuffer fb_size" using assms by (auto simp: canvas_def)
  let ?g = "g\<lparr>gs_submitted := gs_submitted g + 1\<rparr>"
  have fld: "xp_rt_width (anim f) = kW" "xp_rt_height (anim f) = kH" "xp_color (anim f) = anim_color f" "xp_type (anim f) = ClearRenderTarget"
    "ga_gpa (xp_dst (anim f)) = kFrontbuffer" "ga_size (xp_dst (anim f)) = kW * kH * 4" "ga_heap (xp_dst (anim f)) = GpuOptimal" by (simp_all add: anim_def)
  have ok: "heap_ok ?g (xp_dst (anim f))" "commit_ok ?g (xp_dst (anim f))"
    unfolding heap_ok_def commit_ok_def fld fb_size_ucast using m by (simp_all add: Let_def mem_in_range_def is_fast_def kFrontbuffer_def fb_size_def kW_def kH_def
        kTotalSize_def kFastSize_def kSlowSize_def push_bit_eq_mult)
  let ?m = "m\<lparr>mp_mem := store_bytes kFrontbuffer (anim_bytes f) (mp_mem m)\<rparr>"
  have "fill_words ((unat fb_size + 3) div 4) kFrontbuffer (pixel_value (anim_color f)) m = (True, ?m)"
    using fill_range [OF m(2,3), of 307200 "pixel_value (anim_color f)"] unfolding anim_color_le anim_bytes_def by (simp add: fb_size_ucast del: fill_words.simps replicate.simps)
  then have "\<exists>g1. exec_clear (anim f) ?g = (True, g1) \<and> gs_mem g1 = Some ?m"
    unfolding exec_clear_def fld fb_size_ucast using ok m(1) by (simp add: kW_def kH_def Let_def fb_size_ucast(4) del: fill_words.simps)
  then obtain g1 where g1: "submit_xbox t (anim f) g = (True, g1)" "gs_mem g1 = Some ?m"
    by (auto simp: submit_xbox_def exec_packet_def fld Let_def)
  have "length (anim_bytes f) = unat fb_size" by (simp add: anim_bytes_def length_concat sum_list_replicate anim_color_def fb_size_ucast del: replicate.simps)
  from unaliased_read_back [OF m(2,3) this] g1 m(2,3) show ?thesis by (auto simp: canvas_def)
qed

lemma anim_bytes_length: "length (anim_bytes f) = 1228800" "anim_bytes f \<noteq> []"
proof -
  show l: "length (anim_bytes f) = 1228800"
    by (simp add: anim_bytes_def length_concat sum_list_replicate anim_color_def del: replicate.simps)
  then show "anim_bytes f \<noteq> []" by (metis list.size(3) zero_neq_numeral)
qed

lemma nth_repeat: "i < k \<Longrightarrow> c < length xs \<Longrightarrow> concat (replicate k xs) ! (length xs * i + c) = xs ! c"
proof (induction k arbitrary: i)
  case (Suc k)
  show ?case
  proof (cases i)
    case (Suc j)
    then show ?thesis using Suc.IH [of j] Suc.prems by (simp add: nth_append add.assoc)
  qed (use Suc.prems in \<open>simp add: nth_append\<close>)
qed simp

lemma anim_bytes_nth: "i < 307200 \<Longrightarrow> c < 4 \<Longrightarrow> anim_bytes f ! (4 * i + c) = anim_color f ! c"
proof -
  have l: "length (anim_color f) = 4" by (simp add: anim_color_def)
  show "anim_bytes f ! (4 * i + c) = anim_color f ! c" if "i < 307200" "c < 4"
    unfolding anim_bytes_def by (rule nth_repeat [of i 307200 c "anim_color f", unfolded l, OF that])
qed

lemma source_index_pixel:
  assumes "c < 4" shows "source_index b (4 * i + c) = 4 * i + source_index b c" "source_index b c < 4"
proof -
  have "c = 0 \<or> c = 1 \<or> c = 2 \<or> c = 3" using assms by linarith
  then show "source_index b (4 * i + c) = 4 * i + source_index b c" "source_index b c < 4" by (auto simp: source_index_def)
qed

lemma staged_pixel:
  assumes "staged b (anim_bytes f) 1228800 bytes" "i < 307200" "c < 4"
  shows "bytes ! (4 * i + c) = anim_color f ! source_index b c"
proof -
  have "4 * i + c < 1228800" using assms(2,3) by linarith
  then have "bytes ! (4 * i + c) = anim_bytes f ! source_index b (4 * i + c)" using assms(1) by (simp add: staged_def)
  then show ?thesis using anim_bytes_nth [OF assms(2), of "source_index b c" f] source_index_pixel [OF assms(3)] by simp
qed

lemma flip_frame:
  assumes "gs_mem g = Some m" "mem_read_bytes m kFrontbuffer fb_size = Some (anim_bytes f)" "on_canvas d"
  shows "on_canvas (snd (on_flip t (display_attach (gs_mem g) d))) \<and> xd_frame (snd (on_flip t (display_attach (gs_mem g) d))) = anim_bytes f"
proof -
  let ?d = "display_attach (gs_mem g) d"
  have f: "xd_mem ?d = Some m" "xd_has_fb ?d" "fb_bytes ?d = fb_size" "xd_fb_gpa ?d = kFrontbuffer"
    using assms(1,3) by (simp_all add: display_attach_def on_canvas_def fb_bytes_def kBytesPerPixel_def fb_size_ucast)
  have "fb_bytes ?d \<noteq> 0" unfolding f(3) by (simp add: fb_size_def)
  from present_effect [OF f(1,2) _ this] assms(2,3) f(3,4) show ?thesis
    by (auto simp: on_flip_def on_canvas_def display_attach_def)
qed

section \<open>A frame of the window\<close>

text \<open>The snapshot of a display is empty or has the size of its framebuffer, so the presenter is never
  given too few bytes.\<close>

definition framed :: "display \<Rightarrow> bool" where
  "framed d \<longleftrightarrow> on_canvas d \<and> (xd_frame d = [] \<or> length (xd_frame d) = 1228800)"

lemma flip_framed: "framed d \<Longrightarrow> framed (snd (on_flip t (display_attach m d)))"
  by (auto simp: framed_def on_canvas_def on_flip_def present_def display_attach_def display_error_def fb_bytes_def kBytesPerPixel_def fb_size_ucast
      mem_read_bytes_def Let_def split: option.splits)

text \<open>The window is open; with the framebuffer writable it can be drawn to.\<close>

definition win_open :: "present_host \<Rightarrow> vk_obj set \<Rightarrow> int \<Rightarrow> demo \<Rightarrow> view \<Rightarrow> bool" where
  "win_open H R n s V \<longleftrightarrow> framed (wd_disp s) \<and> p_inv H R n (wd_win s) V \<and> pr_valid (wd_win s)"

definition good :: "present_host \<Rightarrow> vk_obj set \<Rightarrow> int \<Rightarrow> demo \<Rightarrow> view \<Rightarrow> bool" where
  "good H R n s V \<longleftrightarrow> canvas (wd_gpu s) \<and> win_open H R n s V"

text \<open>The round with the parts of the GPU front end and of the display worked out.\<close>

lemma window_frame_eq:
  assumes "framed (wd_disp s)"
  obtains g d where "framed d" "canvas (wd_gpu s) \<longrightarrow> canvas g \<and> xd_frame d = anim_bytes f"
    "window_frame H t1 t2 f s = do {
       (r, p) \<leftarrow> upload_vector H (xd_frame d) kW kH (wd_win s);
       if r = Some True then do { more \<leftarrow> presenter_poll H p; State_Monad.return (r, \<lparr>wd_gpu = g, wd_disp = d, wd_win = p\<rparr>) }
       else State_Monad.return (r, \<lparr>wd_gpu = g, wd_disp = d, wd_win = p\<rparr>) }"
proof -
  let ?g = "snd (submit_xbox (t1 f) (anim f) (wd_gpu s))"
  let ?d = "snd (on_flip (t2 f) (display_attach (gs_mem ?g) (wd_disp s)))"
  have "canvas ?g \<and> xd_frame ?d = anim_bytes f" if c: "canvas (wd_gpu s)"
  proof -
    obtain g m where g: "submit_xbox (t1 f) (anim f) (wd_gpu s) = (True, g)" "canvas g" "gs_mem g = Some m"
      "mem_read_bytes m kFrontbuffer fb_size = Some (anim_bytes f)" using anim_submit [OF c] by blast
    with flip_frame [OF g(3,4), of "wd_disp s"] assms show ?thesis by (simp add: framed_def)
  qed
  then show ?thesis by (intro that [OF flip_framed [OF assms]]) (simp_all add: window_frame_def Let_def)
qed

lemma vt_upload_vector:
  assumes "surface_ok H" "p_inv H R n p V" "framed d"
  shows "vt (upload_vector H (xd_frame d) kW kH p) (op_post H R n) V"
  unfolding upload_vector_def by (rule vt_upload [OF assms(1,2)]) (use assms(3) in \<open>auto simp: framed_def fb_size_ucast split: if_splits\<close>)

lemma vt_window_frame:
  assumes "surface_ok H" "frame_ok R n" "win_open H R n s V"
  shows "vt (window_frame H t1 t2 f s)
    (\<lambda>(r, s1) V1. r \<noteq> None \<and> (canvas (wd_gpu s) \<longrightarrow> canvas (wd_gpu s1)) \<and> framed (wd_disp s1) \<and> p_inv H R n (wd_win s1) V1) V"
proof -
  have c: "framed (wd_disp s)" "p_inv H R n (wd_win s) V" using assms(3) by (simp_all add: win_open_def)
  obtain g d where w: "framed d" "canvas (wd_gpu s) \<longrightarrow> canvas g \<and> xd_frame d = anim_bytes f"
    "window_frame H t1 t2 f s = do {
       (r, p) \<leftarrow> upload_vector H (xd_frame d) kW kH (wd_win s);
       if r = Some True then do { more \<leftarrow> presenter_poll H p; State_Monad.return (r, \<lparr>wd_gpu = g, wd_disp = d, wd_win = p\<rparr>) }
       else State_Monad.return (r, \<lparr>wd_gpu = g, wd_disp = d, wd_win = p\<rparr>) }"
    by (rule window_frame_eq [OF c(1)])
  show ?thesis unfolding w(3)
    by (rule vt_bind, rule vt_mono [OF vt_upload_vector [OF assms(1) c(2) w(1)]]) (use w(1,2) in \<open>auto simp: op_post_def intro!: vts vt_poll\<close>)
qed

lemma ft_poll: "(\<And>b. P b F) \<Longrightarrow> ft (presenter_poll H p) P F"
  by (rule ft_silent)
    (auto simp: presenter_poll_def glfw_use_def vk_ask_def vk_try_def vk_call_def frame_view_def State_Monad.bind_def Let_def split: option.splits if_splits)

text \<open>The part of the round that the presenter does.\<close>

lemma window_frame_upload:
  assumes "framed (wd_disp s)" "run_state (window_frame H t1 t2 f s) v = ((r, s1), v1)"
  obtains v2 px where "run_state (upload_vector H px kW kH (wd_win s)) v = ((r, wd_win s1), v2)" "frame_view v1 = frame_view v2"
    "px = [] \<or> length px = 1228800" "canvas (wd_gpu s) \<longrightarrow> px = anim_bytes f"
proof -
  obtain g d where w: "framed d" "canvas (wd_gpu s) \<longrightarrow> canvas g \<and> xd_frame d = anim_bytes f"
    "window_frame H t1 t2 f s = do {
       (r, p) \<leftarrow> upload_vector H (xd_frame d) kW kH (wd_win s);
       if r = Some True then do { more \<leftarrow> presenter_poll H p; State_Monad.return (r, \<lparr>wd_gpu = g, wd_disp = d, wd_win = p\<rparr>) }
       else State_Monad.return (r, \<lparr>wd_gpu = g, wd_disp = d, wd_win = p\<rparr>) }"
    by (rule window_frame_eq [OF assms(1)])
  obtain r2 p v2 where u: "run_state (upload_vector H (xd_frame d) kW kH (wd_win s)) v = ((r2, p), v2)" by (metis prod.exhaust)
  have poll: "frame_view v3 = frame_view v2" if "run_state (presenter_poll H p) v2 = (b, v3)" for b v3
    using frames.tripleD [OF ft_poll [of "\<lambda>_ F. F = frame_view v2"] TrueI that] by simp
  have "r2 = r" "p = wd_win s1" "frame_view v1 = frame_view v2"
    using assms(2) u poll unfolding w(3) by (auto simp: State_Monad.bind_def split: if_splits prod.splits)
  with u w(1,2) show ?thesis by (intro that [of "xd_frame d" v2]) (auto simp: framed_def)
qed

text \<open>A frame is counted exactly when it is reported as shown.\<close>

lemma presents_fail: "ft (count_error q) (\<lambda>(r, p1) _. pr_valid p1 = pr_valid q \<and> pr_presents p1 = (if r = Some True then pr_presents q + 1 else pr_presents q)) F"
  unfolding count_error_def by (intro frames.return) simp

lemma presents_frame:
  "ft (present_frame H idx im p) (\<lambda>(r, p1) _. pr_valid p1 = pr_valid p \<and> pr_presents p1 = (if r = Some True then pr_presents p + 1 else pr_presents p)) F"
  unfolding present_frame_def
  by (intro ft_skip frames.cond frames.pair frames.option frames.return presents_fail) (auto intro!: frames.return split: option.splits)

lemma presents_draw:
  "ft (draw_frame H idx im p) (\<lambda>(r, p1) _. pr_valid p1 = pr_valid p \<and> pr_presents p1 = (if r = Some True then pr_presents p + 1 else pr_presents p)) F"
  unfolding draw_frame_def by (intro ft_skip frames.cond frames.option frames.return presents_fail presents_frame) auto

lemma presents_upload:
  assumes "unat (frame_bytes w h) \<le> length px"
  shows "ft (upload_frame H px w h im p) (\<lambda>(r, p1) _. pr_valid p1 = pr_valid p \<and> pr_presents p1 = (if r = Some True then pr_presents p + 1 else pr_presents p)) F"
proof -
  have e: "pr_valid (p\<lparr>pr_impl := i\<rparr>) = pr_valid p" "pr_presents (p\<lparr>pr_impl := i\<rparr>) = pr_presents p" for i by simp_all
  show ?thesis unfolding upload_frame_def Let_def
    by (intro ft_skip frames.cond frames.pair frames.option frames.return presents_fail [of "p\<lparr>pr_impl := Some i\<rparr>" for i, unfolded e] presents_fail presents_draw)
      (use assms in auto)
qed

text \<open>The colour of frame \<open>f\<close> as the bytes of a pixel of the given format.\<close>

definition format_color :: "vk_format \<Rightarrow> u32 \<Rightarrow> u8 list" where
  "format_color fmt f =
     (let red = ucast (f AND 0xFF); blue = ucast (255 - (f AND 0xFF))
      in if blue_first fmt then [blue, 0, red, 0xFF] else [red, 0, blue, 0xFF])"

lemma format_color_nth: "c < 4 \<Longrightarrow> anim_color f ! source_index (blue_first fmt) c = format_color fmt f ! c"
proof -
  assume "c < 4"
  then have "c = 0 \<or> c = 1 \<or> c = 2 \<or> c = 3" by linarith
  then show ?thesis by (auto simp: source_index_def format_color_def anim_color_def Let_def)
qed

text \<open>What a frame has shown: one presentation more, one image of the swapchain acquired, its commands
  submitted, the same image presented, and the colour of the frame, in the byte order of the swapchain's
  format, in every pixel of the staging memory.\<close>

definition frame_shown :: "u32 \<Rightarrow> impl \<Rightarrow> demo \<Rightarrow> wsi \<Rightarrow> demo \<Rightarrow> wsi \<Rightarrow> bool" where
  "frame_shown f im s v s1 v1 \<longleftrightarrow> pr_presents (wd_win s1) = pr_presents (wd_win s) + 1 \<and>
     (\<exists>idx acq pres si. unat (idx :: u32) < length (im_images im) \<and> acquired acq \<and>
        ws_acquired v1 = ws_acquired v @ [(im_swap im, acq, idx)] \<and>
        vk_submitted v1 = vk_submitted v @ frame_cmds (im_images im ! unat idx) im (wd_win s) \<and>
        ws_presented v1 = ws_presented v @ [(im_swap im, idx, pres)] \<and> pres \<noteq> VK_ERROR_OTHER \<and>
        ws_swapchains v (im_swap im) = Some si \<and>
        (\<forall>i < 640 * 480. \<forall>c < 4. ws_bytes v1 (im_staging_mem im) ! (4 * i + c) = format_color (si_format si) f ! c))"

lemma frame_shownE:
  assumes "frame_shown f im s v s1 v1"
  obtains si where "ws_swapchains v (im_swap im) = Some si"
    "\<forall>i < 640 * 480. \<forall>c < 4. ws_bytes v1 (im_staging_mem im) ! (4 * i + c) = format_color (si_format si) f ! c"
  using assms unfolding frame_shown_def by blast

text \<open>The swapchain that should have been replaced is still the one in use.\<close>

definition not_replaced :: "impl \<Rightarrow> wsi \<Rightarrow> impl \<Rightarrow> wsi \<Rightarrow> bool" where
  "not_replaced im v im1 v1 \<longleftrightarrow> ws_swapchains v1 = ws_swapchains v \<and> im_swap im1 = im_swap im \<and>
     ((\<exists>idx. ws_acquired v1 = ws_acquired v @ [(im_swap im, VK_ERROR_OUT_OF_DATE, idx)]) \<or>
      (\<exists>idx pres. ws_presented v1 = ws_presented v @ [(im_swap im, idx, pres)] \<and> pres \<in> {VK_ERROR_OUT_OF_DATE, VK_SUBOPTIMAL}))"

lemma outcome_shown:
  assumes "outcome H (anim_bytes f) im (wd_win s) (frame_view v) (Some True, wd_win s1) (frame_view v1)"
    "pr_width (wd_win s) = kW" "pr_height (wd_win s) = kH"
  shows "frame_shown f im s v s1 v1"
proof -
  obtain acq idx pres where d: "acquired acq" "ws_acquired v1 = ws_acquired v @ [(im_swap im, acq, idx)]" "unat idx < length (im_images im)"
    "right_bytes (anim_bytes f) im (wd_win s) (frame_view v) (frame_view v1)"
    "vk_submitted v1 = vk_submitted v @ frame_cmds (im_images im ! unat idx) im (wd_win s)"
    "ws_presented v1 = ws_presented v @ (case pres of None \<Rightarrow> [] | Some x \<Rightarrow> [(im_swap im, idx, x)])"
    "presented_with H pres im (wd_win s) (frame_view v) (Some True, wd_win s1) (frame_view v1)"
    using assms(1) unfolding outcome_def frame_view_def by (auto simp: failed_def split: if_splits)
  obtain x where x: "pres = Some x" "x \<noteq> VK_ERROR_OTHER" "pr_presents (wd_win s1) = pr_presents (wd_win s) + 1"
    using d(7) by (auto simp: presented_with_def failed_def counted_def split: option.splits vk_result.splits)
  obtain si where si: "ws_swapchains v (im_swap im) = Some si" "staged (blue_first (si_format si)) (anim_bytes f) 1228800 (ws_bytes v1 (im_staging_mem im))"
    using d(4) assms(2,3) by (auto simp: right_bytes_def frame_view_def fb_size_ucast)
  have "\<forall>i < 640 * 480. \<forall>c < 4. ws_bytes v1 (im_staging_mem im) ! (4 * i + c) = format_color (si_format si) f ! c"
    using staged_pixel [OF si(2)] by (simp add: format_color_nth)
  then show ?thesis unfolding frame_shown_def using d x si(1) by (intro conjI exI [of _ idx] exI [of _ acq] exI [of _ x] exI [of _ si]) simp_all
qed

lemma renewed_matched:
  "renewed H im ok p1 F F1 \<Longrightarrow> \<exists>im1. pr_impl p1 = Some im1 \<and> (matched H im1 (fr_swapchains F1) \<or> fr_swapchains F1 = fr_swapchains F \<and> im_swap im1 = im_swap im)"
  by (auto simp: renewed_def remade_def)

lemma presented_cases:
  assumes "presented_with H pres im p F (r, p1) F1"
  shows "kept p p1 F F1 \<or> (\<exists>x ok. pres = Some x \<and> x \<in> {VK_ERROR_OUT_OF_DATE, VK_SUBOPTIMAL} \<and> renewed H im ok p1 F F1)"
proof (cases pres)
  case (Some x) then show ?thesis using assms by (cases x) (auto simp: presented_with_def)
qed (use assms in \<open>auto simp: presented_with_def\<close>)

lemma outcome_cases:
  assumes "outcome H px im p F (r, p1) F1"
  obtains (kept) "kept p p1 F F1"
  | (renewed) idx ok where "fr_acquired F1 = fr_acquired F @ [(im_swap im, VK_ERROR_OUT_OF_DATE, idx)]" "renewed H im ok p1 F F1"
  | (presented) idx x ok where "fr_presented F1 = fr_presented F @ [(im_swap im, idx, x)]" "x \<in> {VK_ERROR_OUT_OF_DATE, VK_SUBOPTIMAL}" "renewed H im ok p1 F F1"
proof -
  from assms obtain acq idx where "kept p p1 F F1 \<or> (acq = VK_ERROR_OUT_OF_DATE \<and> fr_acquired F1 = fr_acquired F @ [(im_swap im, acq, idx)] \<and> (\<exists>ok. renewed H im ok p1 F F1)) \<or>
     (\<exists>pres. fr_presented F1 = fr_presented F @ (case pres of None \<Rightarrow> [] | Some x \<Rightarrow> [(im_swap im, idx, x)]) \<and> presented_with H pres im p F (r, p1) F1)"
    unfolding outcome_def prod.case if_bool_eq_disj by (elim exE conjE disjE) iprover+
  then show ?thesis
  proof (elim disjE exE conjE, goal_cases)
    case (3 pres)
    from presented_cases [OF 3(2)] show ?thesis using 3(1) by (elim disjE exE conjE) (auto intro: that)
  qed (auto intro: that)
qed

lemma outcome_matched:
  assumes "outcome H px im p (frame_view v) (r, p1) (frame_view v1)" "pr_impl p = Some im" "matched H im (ws_swapchains v)"
  shows "\<exists>im1. pr_impl p1 = Some im1 \<and> (matched H im1 (ws_swapchains v1) \<or> not_replaced im v im1 v1)"
proof -
  note fv = frame_view_def [of v] frame_view_def [of v1]
  have k: "\<exists>im1. pr_impl p1 = Some im1 \<and> (matched H im1 (ws_swapchains v1) \<or> not_replaced im v im1 v1)" if "kept p p1 (frame_view v) (frame_view v1)"
    using that assms(2,3) by (simp add: kept_def fv)
  have n: "\<exists>im1. pr_impl p1 = Some im1 \<and> (matched H im1 (ws_swapchains v1) \<or> not_replaced im v im1 v1)"
    if "renewed H im ok p1 (frame_view v) (frame_view v1)"
      "(\<exists>idx. ws_acquired v1 = ws_acquired v @ [(im_swap im, VK_ERROR_OUT_OF_DATE, idx)]) \<or>
       (\<exists>idx pres. ws_presented v1 = ws_presented v @ [(im_swap im, idx, pres)] \<and> pres \<in> {VK_ERROR_OUT_OF_DATE, VK_SUBOPTIMAL})" for ok
    using renewed_matched [OF that(1)] that(2) by (auto simp: fv not_replaced_def)
  from assms(1) show ?thesis
  proof (cases rule: outcome_cases)
    case (renewed idx ok)
    then show ?thesis by (intro n) (auto simp: fv)
  next
    case (presented idx x ok)
    then show ?thesis by (intro n) (auto simp: fv)
  qed (rule k)
qed

lemma presents_vector:
  assumes "px = [] \<or> length px = 1228800"
  shows "ft (upload_vector H px kW kH p) (\<lambda>(r, p1) _. pr_valid p1 = pr_valid p \<and> pr_presents p1 = (if r = Some True then pr_presents p + 1 else pr_presents p)) F"
proof -
  have "px \<noteq> [] \<Longrightarrow> unat (frame_bytes kW kH) \<le> length px" using assms by (auto simp: fb_size_ucast)
  then show ?thesis unfolding upload_vector_def upload_and_present_def
    by (cases "px = []"; cases "pr_impl p"; simp only: option.case prod.case if_True if_False simp_thms)
      (intro presents_fail presents_upload frames.cond; simp)+
qed

lemma window_frame_step:
  assumes "surface_ok H" "frame_ok R n" "vk_ok v" "win_open H R n s (ws_view v)" "run_state (window_frame H t1 t2 f s) v = ((r, s1), v1)"
  shows "vk_ok v1" "r \<noteq> None" "win_open H R n s1 (ws_view v1)" "canvas (wd_gpu s) \<Longrightarrow> canvas (wd_gpu s1)"
    "pr_presents (wd_win s1) = (if r = Some True then pr_presents (wd_win s) + 1 else pr_presents (wd_win s))"
proof -
  have g: "framed (wd_disp s)" "pr_valid (wd_win s)" using assms(4) by (simp_all add: win_open_def)
  have b: "vk_ok v1" "r \<noteq> None" "canvas (wd_gpu s) \<longrightarrow> canvas (wd_gpu s1)" "framed (wd_disp s1)" "p_inv H R n (wd_win s1) (ws_view v1)"
    using books.tripleD [OF vt_window_frame [OF assms(1,2,4)] assms(3,5)] by auto
  obtain v2 px where u: "run_state (upload_vector H px kW kH (wd_win s)) v = ((r, wd_win s1), v2)" "px = [] \<or> length px = 1228800"
    by (rule window_frame_upload [OF g(1) assms(5)])
  have p: "pr_valid (wd_win s1)" "pr_presents (wd_win s1) = (if r = Some True then pr_presents (wd_win s) + 1 else pr_presents (wd_win s))"
    using frames.tripleD [OF presents_vector [OF u(2)] TrueI u(1)] g(2) by simp_all
  show "vk_ok v1" "r \<noteq> None" "win_open H R n s1 (ws_view v1)" "canvas (wd_gpu s) \<Longrightarrow> canvas (wd_gpu s1)"
    "pr_presents (wd_win s1) = (if r = Some True then pr_presents (wd_win s) + 1 else pr_presents (wd_win s))"
    using b p by (simp_all add: win_open_def)
qed

lemma window_frame_shown:
  assumes "surface_ok H" "good H R n s V" "pr_impl (wd_win s) = Some im" "matched H im (ws_swapchains v)"
    "run_state (window_frame H t1 t2 f s) v = ((r, s1), v1)"
  shows "r = Some True \<longrightarrow> frame_shown f im s v s1 v1"
    "\<exists>im1. pr_impl (wd_win s1) = Some im1 \<and> (matched H im1 (ws_swapchains v1) \<or> not_replaced im v im1 v1)"
proof -
  have g: "framed (wd_disp s)" "pr_valid (wd_win s)" "canvas (wd_gpu s)" using assms(2) by (simp_all add: good_def win_open_def)
  obtain v2 px where u: "run_state (upload_vector H px kW kH (wd_win s)) v = ((r, wd_win s1), v2)" "frame_view v1 = frame_view v2" "px = anim_bytes f"
    by (rule window_frame_upload [OF g(1) assms(5)]) (use g(3) in auto)
  have run: "run_state (upload_frame H (anim_bytes f) kW kH im (wd_win s)) v = ((r, wd_win s1), v2)"
    using u(1,3) assms(3) g(2) by (simp add: upload_vector_def upload_and_present_def anim_bytes_length)
  have len: "unat (frame_bytes kW kH) \<le> length (anim_bytes f)" by (simp add: fb_size_ucast anim_bytes_length)
  note o = upload_frame_run [OF assms(1,4) len run, folded u(2)]
  show "r = Some True \<longrightarrow> frame_shown f im s v s1 v1"
    using o outcome_shown [of H f im s v s1 v1] by (auto split: if_splits)
  show "\<exists>im1. pr_impl (wd_win s1) = Some im1 \<and> (matched H im1 (ws_swapchains v1) \<or> not_replaced im v im1 v1)"
  proof (cases "outcome H (anim_bytes f) im (wd_win s) (frame_view v) (r, wd_win s1) (frame_view v1)")
    case True then show ?thesis by (rule outcome_matched [OF _ assms(3,4)])
  next
    case False
    then have "wd_win s1 = (wd_win s)\<lparr>pr_errors := pr_errors (wd_win s) + 1\<rparr>" "ws_swapchains v1 = ws_swapchains v"
      using o by (auto simp: frame_view_def split: if_splits)
    then show ?thesis using assms(3,4) by simp
  qed
qed

section \<open>The whole window\<close>

lemma should_close_run:
  assumes "p_inv H R n p (ws_view v)" "vk_ok v" "run_state (presenter_should_close H p) v = (b, v1)"
  shows "vk_ok v1 \<and> ws_view v1 = ws_view v"
  using books.tripleD [OF vt_poll(2) [OF assms(1), of "\<lambda>_ V. V = ws_view v"] assms(2,3)] by simp

lemma window_loop_run:
  assumes "surface_ok H" "frame_ok R m" "vk_ok v" "win_open H R m s (ws_view v)" "run_state (window_loop H t1 t2 n f s) v = ((r, s1), v1)"
  shows "vk_ok v1 \<and> r \<noteq> None \<and> win_open H R m s1 (ws_view v1) \<and> (canvas (wd_gpu s) \<longrightarrow> canvas (wd_gpu s1)) \<and> (\<exists>k \<le> n. pr_presents (wd_win s1) = pr_presents (wd_win s) + of_nat k)"
  using assms(3-5)
proof (induction n arbitrary: f s v)
  case (Suc n)
  obtain b v2 where b: "run_state (presenter_should_close H (wd_win s)) v = (b, v2)" by fastforce
  have v2: "vk_ok v2" "ws_view v2 = ws_view v" using should_close_run [OF _ Suc.prems(1) b] Suc.prems(2) by (auto simp: win_open_def)
  show ?case
  proof (cases b)
    case True
    then show ?thesis using Suc.prems b v2 by (auto simp: State_Monad.bind_def intro: exI [of _ 0])
  next
    case False
    obtain r2 s2 v3 where w: "run_state (window_frame H t1 t2 f s) v2 = ((r2, s2), v3)" by (metis prod.exhaust)
    have gv: "win_open H R m s (ws_view v2)" using Suc.prems(2) v2 by simp
    note st = window_frame_step [OF assms(1,2) v2(1) gv w]
    show ?thesis
    proof (cases "r2 = Some True")
      case True
      then have run: "run_state (window_loop H t1 t2 n (f + 1) s2) v3 = ((r, s1), v1)" using Suc.prems(3) b False w by (simp add: State_Monad.bind_def)
      have "pr_presents (wd_win s2) = pr_presents (wd_win s) + 1" using st(5) True by simp
      moreover obtain k where "vk_ok v1" "r \<noteq> None" "win_open H R m s1 (ws_view v1)" "canvas (wd_gpu s2) \<longrightarrow> canvas (wd_gpu s1)" "k \<le> n" "pr_presents (wd_win s1) = pr_presents (wd_win s2) + of_nat k"
        using Suc.IH [OF st(1,3) run] by blast
      ultimately show ?thesis using st(4) by (auto intro!: exI [of _ "Suc k"])
    next
      case no: False
      then have "r = r2" "s1 = s2" "v1 = v3" using Suc.prems(3) b False w by (simp_all add: State_Monad.bind_def)
      then show ?thesis using st no by (auto intro: exI [of _ 0])
    qed
  qed
qed (auto intro: exI [of _ 0])

abbreviation keeps :: "(wsi, bool option \<times> presenter) state \<Rightarrow> presenter \<Rightarrow> bool" where
  "keeps m p \<equiv> \<forall>F. ft m (\<lambda>(r, p1) _. pr_presents p1 = pr_presents p) F"

lemma init_keeps:
  "keeps (init_fail im p) p" "keeps (init_sync im p) p" "keeps (init_commands H w h im p) p" "keeps (init_device H w h im p) p"
  "keeps (init_window H w h im p) p"
proof -
  show f: "keeps (init_fail im p) p" for im
    unfolding init_fail_def by (intro allI ft_skip frames.return) simp
  show s: "keeps (init_sync im p) p" for im
    unfolding init_sync_def Let_def by (intro allI ft_skip frames.option frames.return) (use f in auto)
  show c: "keeps (init_commands H w h im p) p" for im
    unfolding init_commands_def Let_def by (intro allI ft_skip frames.option frames.pair frames.cond) (use f s in auto)
  show d: "keeps (init_device H w h im p) p" for im
    unfolding init_device_def Let_def by (intro allI ft_skip frames.option frames.pair frames.cond frames.return) (use f c in auto)
  show "keeps (init_window H w h im p) p"
    unfolding init_window_def Let_def by (intro allI ft_skip frames.option frames.pair frames.cond) (use f d in auto)
qed

lemma presenter_init_keeps:
  assumes "run_state (presenter_init H w h p) v = ((r, p1), v1)" shows "pr_presents p1 = pr_presents p"
proof -
  have shut: "ft (presenter_shutdown p) (\<lambda>q _. pr_presents q = pr_presents p) F" for F
    unfolding presenter_shutdown_def by (intro ft_skip frames.return) simp
  have "ft (presenter_init H w h p) (\<lambda>(r, p1) _. pr_presents p1 = pr_presents p) F" for F
    unfolding presenter_init_def
  proof (rule frames.bind, rule ft_mono [OF shut], goal_cases)
    case (1 q F)
    then show ?case using init_keeps(5) [of H w h _ q] by (auto intro!: frames.return ft_skip)
  qed
  from frames.tripleD [OF this TrueI assms] show ?thesis by simp
qed

lemma set_framebuffer_framed: "set_framebuffer kFrontbuffer kW kH (XboxDisplay m) = (True, d) \<Longrightarrow> framed d"
  by (auto simp: set_framebuffer_def XboxDisplay_def framed_def on_canvas_def Let_def split: if_splits option.splits)

lemma set_framebuffer_canvas:
  assumes "canvas g" shows "\<exists>d. set_framebuffer kFrontbuffer kW kH (XboxDisplay (gs_mem g)) = (True, d) \<and> framed d"
proof -
  obtain m where m: "gs_mem g = Some m" "mem_readable m kFrontbuffer fb_size" using assms writable_readable by (auto simp: canvas_def)
  have r: "mem_in_range kFrontbuffer fb_size"
    by (simp add: mem_in_range_def kFrontbuffer_def fb_size_def kTotalSize_def kFastSize_def kSlowSize_def push_bit_eq_mult)
  show ?thesis unfolding set_framebuffer_def XboxDisplay_def kBytesPerPixel_def Let_def fb_size_ucast
    using m r by (simp add: framed_def on_canvas_def kMaxWidth_def kMaxHeight_def kW_def kH_def fb_size_def)
qed

section \<open>Properties\<close>

text \<open>(C12) From packet to window. With the guest framebuffer writable and outside every alias window, and
  an open presenter whose description agrees with its swapchain (as after \<open>init\<close>), a round of the window
  loop clears the guest memory to the colour of the frame, snapshots it and hands it to the presenter,
  and the result is never undefined. When it is success, exactly one presentation is counted, one image
  of the swapchain was acquired, exactly its commands were submitted and it was presented, and each of
  the 640 x 480 pixels in the staging memory has the colour of this frame, blue first exactly when the
  format the swapchain was created with has blue first. Otherwise no presentation is counted. In both
  cases the next round finds the same situation, unless the swapchain was reported as out of date or
  suboptimal and could not be replaced.\<close>

theorem animation_frame:
  assumes "surface_ok H" "frame_ok R n" "vk_ok v" "good H R n s (ws_view v)" "pr_impl (wd_win s) = Some im" "matched H im (ws_swapchains v)"
    "run_state (window_frame H t1 t2 f s) v = ((r, s1), v1)"
  shows "r \<noteq> None \<and> vk_ok v1 \<and> good H R n s1 (ws_view v1) \<and>
    (if r = Some True then frame_shown f im s v s1 v1 else pr_presents (wd_win s1) = pr_presents (wd_win s)) \<and>
    (\<exists>im1. pr_impl (wd_win s1) = Some im1 \<and> (matched H im1 (ws_swapchains v1) \<or> not_replaced im v im1 v1))"
proof -
  have "win_open H R n s (ws_view v)" "canvas (wd_gpu s)" using assms(4) by (simp_all add: good_def)
  note st = window_frame_step [OF assms(1-3) this(1) assms(7)] this(2)
  show ?thesis using st window_frame_shown [OF assms(1,4-7)] by (simp add: good_def)
qed


text \<open>The memory as \<open>main\<close> has it before the window: with the alias of \<open>0x4000\<close> at \<open>0x5000\<close>.\<close>

definition demo_ram :: mem_map where
  "demo_ram = snd (alias_map 0x5000 0x4000 4096 (snd (mem_commit_page 0x5000 (snd (mem_commit_page 0x4000
     (snd (mem_reserve True (MemMap 0x400000 (\<lambda>_. True)))))))))"

definition demo_gpu_stub :: gpu_stub where
  "demo_gpu_stub = GpuStub (Some demo_ram)"

lemma demo_canvas: "canvas (commit_frontbuffer demo_gpu_stub)"
proof -
  let ?m = "snd (mem_commit_range kFrontbuffer fb_size demo_ram)" let ?w = "\<lparr>al_dst = 0x5000, al_src = 0x4000, al_size = 4096\<rparr>"
  have reach: "mem_reach ?m" unfolding demo_ram_def
    by (rule mem_reach.commit_range, rule mem_reach.alias_on, rule mem_reach.commit_page, rule mem_reach.commit_page, rule mem_reach.reserve,
        rule mem_reach.init [of 22]) (simp_all add: mem_page_size_def)
  have f: "mp_base ?m" "mp_page ?m = 0x400000" "mp_pages ?m = 4096" "mp_aliases ?m = [?w]"
    "mp_committed ?m = (\<lambda>_. False)(0 := True)" "mp_prot ?m = (\<lambda>_. ReadWrite)(0 := ReadWrite)"
    by (simp_all add: demo_ram_def kFrontbuffer_def fb_size_def mem_reserve_def MemMap_def mem_page_size_def mem_commit_range_def mem_in_range_def
      alias_map_def kTotalSize_def kFastSize_def kSlowSize_def push_bit_eq_mult page_addrs_def page_floor_def visited.simps mem_commit_page_def Let_def)
  have "mem_writable ?m kFrontbuffer fb_size"
    unfolding mem_writable_def Let_def resolve_alias_def f(4) using f
    by (simp add: mem_in_range_def kFrontbuffer_def fb_size_def kTotalSize_def kFastSize_def kSlowSize_def
      push_bit_eq_mult mem_span_def page_addrs_def page_floor_def visited.simps)
  moreover have "unaliased ?m kFrontbuffer (unat fb_size)" using mem_reach_wf [OF reach] f(4) by (simp add: unaliased_def kFrontbuffer_def)
  ultimately show ?thesis by (simp add: canvas_def commit_frontbuffer_def demo_gpu_stub_def gpu_attach_def GpuStub_def fb_size_ucast)
qed


definition demo_full :: impl where
  "demo_full = demo_im\<lparr>im_win := 11, im_inst := 12, im_surf := 13, im_dev := 14, im_pool := 15, im_frame_fence := 16, im_glfw_inited := True,
     im_staging_size := fb_size\<rparr>"

definition demo_up :: wsi where
  "demo_up = demo_wsi\<lparr>vk_results := (\<lambda>n. if n < 20 then Some (of_nat (n + 100)) else None), g_glfw_refs := 1, ws_glfw := True,
     vk_live := [(VkSemaphore, 9), (VkFence, 16), (VkBuffer, 6), (VkDeviceMemory, 7), (VkCommandPool, 15), (VkSwapchain, 8),
       (VkDevice, 14), (VkSurface, 13), (VkInstance, 12), (GlfwWindow, 11)],
     ws_swapchains := [8 \<mapsto> \<lparr>si_surface = 13, si_count = 2, si_format = B8G8R8A8_UNORM, si_space = 0,
       si_w = kW, si_h = kH, si_transform = 1, si_mode = FIFO, si_old = 0\<rparr>]\<rparr>"

definition demo_start :: demo where
  "demo_start = \<lparr>wd_gpu = commit_frontbuffer demo_gpu_stub,
     wd_disp = snd (set_framebuffer kFrontbuffer kW kH (XboxDisplay (gs_mem (commit_frontbuffer demo_gpu_stub)))),
     wd_win = VulkanPresenter\<lparr>pr_valid := True, pr_impl := Some demo_full, pr_width := kW, pr_height := kH\<rparr>\<rparr>"

lemma demo_up_ok: "vk_ok demo_up"
proof -
  have u: "unat (of_nat (n + 100) :: u64) = n + 100" if "n < 20" for n using that by (intro unat_of_nat_lt) simp
  have "h \<noteq> 0 \<and> m = n \<and> 100 \<le> unat h" if "vk_results demo_up n = Some h" "vk_results demo_up m = Some h" for m n h
  proof -
    from that have "n < 20" "m < 20" "h = of_nat (n + 100)" "h = of_nat (m + 100)" by (auto simp: demo_up_def split: if_splits)
    with u [of n] u [of m] have "unat h = n + 100" "unat h = m + 100" by metis+
    then show ?thesis by auto
  qed
  moreover have "unat h < 100" if "(k, h) \<in> set (vk_live demo_up)" for k h using that by (auto simp: demo_up_def)
  ultimately show ?thesis unfolding vk_ok_def by (fastforce simp: demo_up_def demo_wsi_def demo_vk_def vk.defs)
qed

lemma demo_good: "good demo_host {} 0 demo_start (ws_view demo_up)"
proof -
  have "held_im demo_full = set (vk_live demo_up)" by (auto simp: held_im_def obj_def demo_full_def demo_im_def Impl_def demo_up_def)
  then have "p_inv demo_host {} 0 (wd_win demo_start) (ws_view demo_up)"
    by (simp add: p_inv_def demo_start_def held_def alive_def ws_view_def full_im_def VulkanPresenter_def)
      (simp add: demo_full_def demo_im_def Impl_def demo_host_def demo_up_def)
  moreover have "framed (wd_disp demo_start)" using set_framebuffer_canvas [OF demo_canvas] by (auto simp: demo_start_def)
  ultimately show ?thesis using demo_canvas by (simp add: good_def win_open_def demo_start_def)
qed

lemma demo_upload: "fst (fst (run_state (upload_vector demo_host (anim_bytes f) kW kH (wd_win demo_start)) demo_up)) = Some True"
proof -
  have "\<not> length (anim_bytes f) < unat (frame_bytes kW kH)" by (simp add: fb_size_ucast anim_bytes_length)
  then show ?thesis
    by (simp add: upload_vector_def anim_bytes_length frame_run
      demo_start_def demo_full_def demo_im_def demo_host_def demo_up_def demo_wsi_def demo_vk_def VulkanPresenter_def Impl_def fb_size_ucast vk.defs State_Monad.bind_def Let_def)
qed

theorem animation_frame_witness:
  "\<exists>s1 v1. run_state (window_frame demo_host (\<lambda>_. 0) (\<lambda>_. 0) 7 demo_start) demo_up = ((Some True, s1), v1) \<and>
     frame_shown 7 demo_full demo_start demo_up s1 v1 \<and> good demo_host {} 0 s1 (ws_view v1) \<and> ws_bytes v1 7 ! 0 = 248 \<and> ws_bytes v1 7 ! 2 = 7"
proof -
  obtain r s1 v1 where run: "run_state (window_frame demo_host (\<lambda>_. 0) (\<lambda>_. 0) 7 demo_start) demo_up = ((r, s1), v1)" by (metis prod.exhaust)
  have c: "framed (wd_disp demo_start)" "canvas (wd_gpu demo_start)" using demo_good by (simp_all add: good_def win_open_def)
  obtain px v2 where u: "run_state (upload_vector demo_host px kW kH (wd_win demo_start)) demo_up = ((r, wd_win s1), v2)" "px = anim_bytes 7"
    by (rule window_frame_upload [OF c(1) run]) (use c(2) in auto)
  then have r: "r = Some True" using demo_upload [of 7] by simp
  have m: "pr_impl (wd_win demo_start) = Some demo_full" "matched demo_host demo_full (ws_swapchains demo_up)" "frame_ok {} 0"
    by (simp_all add: demo_start_def matched_def demo_full_def demo_im_def demo_host_def demo_up_def frame_ok_def)
  from animation_frame [OF demo_host_ok m(3) demo_up_ok demo_good m(1,2) run] r
  have sh: "frame_shown 7 demo_full demo_start demo_up s1 v1" "good demo_host {} 0 s1 (ws_view v1)" by simp_all
  have e: "im_staging_mem demo_full = 7" "im_swap demo_full = 8" by (simp_all add: demo_full_def demo_im_def)
  obtain si where si: "ws_swapchains demo_up 8 = Some si" "\<forall>i < 640 * 480. \<forall>c < 4. ws_bytes v1 7 ! (4 * i + c) = format_color (si_format si) 7 ! c"
    by (rule frame_shownE [OF sh(1), unfolded e])
  have "si_format si = B8G8R8A8_UNORM" using si(1) by (simp add: demo_up_def) (metis swapchain_info.select_convs(3))
  note b = si(2) [unfolded this]
  from b [rule_format, of 0 0] b [rule_format, of 0 2] have "ws_bytes v1 7 ! 0 = 248" "ws_bytes v1 7 ! 2 = 7"
    by (simp_all add: format_color_def Let_def flip: numeral_2_eq_2)
  then show ?thesis using run r sh by blast
qed

end
